(* ===== verification/Prelude.thy ===== *)
theory Prelude
  imports Main "HOL-Library.Word" "HOL-Library.Multiset" "HOL-Library.Monad_Syntax"
begin

unbundle bit_operations_syntax

text \<open>
  Shared types, casts and list lemmas of the BugInsight development.

  Every operation that can run into undefined behaviour (an index outside a \<^verbatim>\<open>Vec\<close>) or that
  may not return (a probe loop on a full table, a linked list with a cycle) has type
  \<open>'a option\<close>: \<open>None\<close> means that the C++ execution has no defined result. The theorems show
  from the components' invariants that the result is always \<open>Some\<close>.
\<close>

section \<open>Types and casts\<close>

type_synonym u8 = "8 word"
type_synonym u32 = "32 word"
type_synonym u64 = "64 word"

text \<open>A pointer (\<^verbatim>\<open>void*\<close>, \<^verbatim>\<open>uintptr_t\<close>) is a 64-bit word; \<open>0\<close> is \<^verbatim>\<open>nullptr\<close>.\<close>

type_synonym ptr = "64 word"

text \<open>\<^verbatim>\<open>std::thread::id\<close>; \<open>0\<close> is the default-constructed id that belongs to no thread.\<close>

type_synonym tid = nat

text \<open>\<^verbatim>\<open>static_cast<int32_t>\<close> and the cast of an \<^verbatim>\<open>int32_t\<close> index to \<^verbatim>\<open>uint32_t\<close>.\<close>

definition i32 :: "int \<Rightarrow> int" where
  "i32 x = sint (word_of_int x :: u32)"

definition idx :: "int \<Rightarrow> nat" where
  "idx x = unat (word_of_int x :: u32)"

text \<open>\<^verbatim>\<open>++\<close> on an \<^verbatim>\<open>int32_t\<close>: overflow is undefined.\<close>

definition inc32 :: "int \<Rightarrow> int option" where
  "inc32 x = (if x + 1 < 2 ^ 31 then Some (x + 1) else None)"

text \<open>Reading a \<^verbatim>\<open>Vec\<close> or array cell; out of range is undefined.\<close>

definition vec_get :: "'a list \<Rightarrow> nat \<Rightarrow> 'a option" where
  "vec_get xs i = (if i < length xs then Some (xs ! i) else None)"

named_theorems int_cast "casts of indices that fit their type"
named_theorems frame "what an operation leaves unchanged"

lemma idx_nat [int_cast]: "0 \<le> x \<Longrightarrow> x < 2 ^ 31 \<Longrightarrow> idx x = nat x"
  by (simp add: idx_def unat_eq_nat_uint uint_word_of_int)

lemma idx_of_nat [int_cast]: "n < 2 ^ 31 \<Longrightarrow> idx (int n) = n"
  by (simp add: idx_nat)

lemma i32_id [int_cast]: "0 \<le> x \<Longrightarrow> x < 2 ^ 31 \<Longrightarrow> i32 x = x"
  unfolding i32_def by (subst sint_uint) (simp add: uint_word_of_int signed_take_bit_int_eq_self)

lemma vec_get_Some [simp]: "i < length xs \<Longrightarrow> vec_get xs i = Some (xs ! i)"
  by (simp add: vec_get_def)

lemma vec_get_eq_Some: "vec_get xs i = Some x \<longleftrightarrow> i < length xs \<and> xs ! i = x"
  by (simp add: vec_get_def)

section \<open>Lists\<close>

lemma nth_upd: "xs[i := x] ! j = (if i = j \<and> j < length xs then x else xs ! j)"
  by (induction xs arbitrary: i j) (auto split: nat.split simp: nth_Cons)

lemma distinct_map_filter_nth_eq:
  assumes "distinct (filter P xs)" "i < length xs" "j < length xs" "xs ! i = xs ! j" "P (xs ! i)"
  shows "i = j"
  using assms
proof (induction xs arbitrary: i j)
  case Nil
  then show ?case by simp
next
  case (Cons x xs)
  then show ?case
    by (cases i; cases j) (auto split: if_splits simp: nth_Cons' dest: nth_mem)
qed

lemma filter_update_notin:
  assumes "i < length xs" "\<not> P (xs ! i)" "\<not> P x"
  shows "filter P (xs[i := x]) = filter P xs"
proof -
  have "filter P (take i xs @ x # drop (Suc i) xs) = filter P (take i xs @ xs ! i # drop (Suc i) xs)"
    using assms by simp
  then show ?thesis
    using assms(1) by (simp add: upd_conv_take_nth_drop id_take_nth_drop [symmetric])
qed

lemma length_filter_update:
  assumes "i < length xs" "\<not> P (xs ! i)" "P x"
  shows "length (filter P (xs[i := x])) = Suc (length (filter P xs))"
proof -
  have "length (filter P (take i xs @ x # drop (Suc i) xs))
      = Suc (length (filter P (take i xs @ xs ! i # drop (Suc i) xs)))"
    using assms by simp
  then show ?thesis
    using assms(1) by (simp add: upd_conv_take_nth_drop id_take_nth_drop [symmetric])
qed

lemma length_filter_update_same:
  assumes "i < length xs" "P (xs ! i)" "P x"
  shows "length (filter P (xs[i := x])) = length (filter P xs)"
proof -
  have "length (filter P (take i xs @ x # drop (Suc i) xs))
      = length (filter P (take i xs @ xs ! i # drop (Suc i) xs))"
    using assms by simp
  then show ?thesis
    using assms(1) by (simp add: upd_conv_take_nth_drop id_take_nth_drop [symmetric])
qed

lemma mset_filter_update_new:
  assumes "i < length xs" "\<not> P (xs ! i)" "P x"
  shows "mset (filter P (xs[i := x])) = mset (x # filter P xs)"
proof -
  have "mset (filter P (take i xs @ x # drop (Suc i) xs))
      = add_mset x (mset (filter P (take i xs @ xs ! i # drop (Suc i) xs)))"
    using assms by simp
  then show ?thesis
    using assms(1) by (simp add: upd_conv_take_nth_drop id_take_nth_drop [symmetric])
qed

lemma mset_filter_update_del:
  assumes "i < length xs" "P (xs ! i)" "\<not> P x"
  shows "mset (xs ! i # filter P (xs[i := x])) = mset (filter P xs)"
proof -
  have "add_mset (xs ! i) (mset (filter P (take i xs @ x # drop (Suc i) xs)))
      = mset (filter P (take i xs @ xs ! i # drop (Suc i) xs))"
    using assms by simp
  then show ?thesis
    using assms(1) by (simp add: upd_conv_take_nth_drop id_take_nth_drop [symmetric])
qed

lemma sum_list_filter_mset:
  fixes f :: "'a \<Rightarrow> int"
  assumes "mset xs = mset ys"
  shows "sum_list (map f (filter P xs)) = sum_list (map f (filter P ys))"
proof -
  have "mset (map f (filter P xs)) = mset (map f (filter P ys))" using assms by simp
  then show ?thesis by (metis sum_mset_sum_list)
qed

lemma sort_key_eqI:
  assumes "\<And>a. a \<in> set xs \<Longrightarrow> f a = g a"
  shows "sort_key f xs = sort_key g xs"
proof -
  have ins: "insort_key f x ys = insort_key g x ys" if "\<forall>a\<in>insert x (set ys). f a = g a" for x ys
    using that by (induction ys) auto
  show ?thesis
    using assms
  proof (induction xs)
    case Nil
    then show ?case by simp
  next
    case (Cons x xs)
    then have "sort_key f xs = sort_key g xs" by simp
    then show ?case using ins [of x "sort_key g xs"] Cons.prems by simp
  qed
qed

lemma map_nth_update:
  assumes "f y = f (xs ! k)"
  shows "map f (xs[k := y]) = map f xs"
  using assms by (cases "k < length xs") (simp_all add: map_update list_update_same_conv list_update_beyond)

end
