(* ===== verification/Held_Locks.thy ===== *)
theory Held_Locks
  imports Prelude
begin

text \<open>
  The table of locks a thread holds: \<^verbatim>\<open>buginsight_dll/synch_locks_held.hpp\<close> (\<^verbatim>\<open>lock_t\<close>,
  \<^verbatim>\<open>SynchLocksHeld\<close>) and \<^verbatim>\<open>buginsight_dll/thread_history/thread_history_helper.cpp\<close>. A locale
  states what the deadlock monitor needs of the table, namely one counter per lock id.
\<close>

section \<open>Data\<close>

text \<open>\<^verbatim>\<open>MAX_LOCKS_PER_THREAD\<close>, set by \<^verbatim>\<open>buginsight_dll/CMakeLists.txt\<close>.\<close>

definition max_locks :: nat where
  "max_locks = 20"

record lock_entry =
  lk_mu :: ptr
  lk_count :: int
  lk_id :: u64

record held_locks =
  hl_tid :: tid
  hl_n :: nat
  hl_locks :: "lock_entry list"
  hl_start :: u64
  hl_monitored :: bool

definition invalid_graph_id :: u64 where
  "invalid_graph_id = 0"

definition no_lock :: lock_entry where
  "no_lock = \<lparr>lk_mu = 0, lk_count = 0, lk_id = 0\<rparr>"

definition held_locks_init :: "tid \<Rightarrow> held_locks" where
  "held_locks_init t =
     \<lparr>hl_tid = t, hl_n = 0, hl_locks = replicate max_locks no_lock, hl_start = 0,
      hl_monitored = False\<rparr>"

text \<open>What the release of a lock reports: nothing, or one of the two errors of the code.\<close>

datatype release_result = Released | Not_Held | Deleted_By_Other

section \<open>Operations\<close>

text \<open>The loop \<^verbatim>\<open>while(i != n && !(...)) i++\<close> that all searches of the table use.\<close>

function find_lock :: "(lock_entry \<Rightarrow> bool) \<Rightarrow> lock_entry list \<Rightarrow> nat \<Rightarrow> nat \<Rightarrow> nat option" where
  "find_lock P ls n i =
     (if i = n then Some i
      else if i < length ls then (if P (ls ! i) then Some i else find_lock P ls n (i + 1))
      else None)"
  by pat_completeness auto
termination
  by (relation "measure (\<lambda>(P, ls, n, i). length ls - i)") auto

declare find_lock.simps [simp del]

definition update_lock_history_in_lock :: "ptr \<Rightarrow> u64 \<Rightarrow> held_locks \<Rightarrow> held_locks option" where
  "update_lock_history_in_lock mu gid h =
     Option.bind (find_lock (\<lambda>l. lk_id l = gid) (hl_locks h) (hl_n h) 0) (\<lambda>i.
       if i = hl_n h then
         (if hl_n h = length (hl_locks h) then Some h
          else Option.bind (vec_get (hl_locks h) i) (\<lambda>_.
            Some (h\<lparr>hl_locks := (hl_locks h)[i := \<lparr>lk_mu = mu, lk_count = 1, lk_id = gid\<rparr>],
                   hl_n := hl_n h + 1\<rparr>)))
       else Option.bind (vec_get (hl_locks h) i) (\<lambda>l.
         Option.bind (inc32 (lk_count l)) (\<lambda>c.
           Some (h\<lparr>hl_locks := (hl_locks h)[i := l\<lparr>lk_count := c\<rparr>]\<rparr>))))"

definition update_lock_history_after_lock ::
  "ptr \<Rightarrow> u64 \<Rightarrow> held_locks \<Rightarrow> (held_locks \<times> release_result) option" where
  "update_lock_history_after_lock mu gid h =
     Option.bind (find_lock (\<lambda>l. lk_id l = gid) (hl_locks h) (hl_n h) 0) (\<lambda>i.
       if i = hl_n h then
         map_option (\<lambda>j. (h, if j = hl_n h then Not_Held else Deleted_By_Other))
           (find_lock (\<lambda>l. lk_mu l = mu) (hl_locks h) (hl_n h) 0)
       else Option.bind (vec_get (hl_locks h) i) (\<lambda>l.
         if lk_count l = 1 then
           map_option (\<lambda>last.
               (h\<lparr>hl_n := hl_n h - 1,
                 hl_locks := (hl_locks h)[i := last, hl_n h - 1 := no_lock]\<rparr>, Released))
             (vec_get (hl_locks h) (hl_n h - 1))
         else Some (h\<lparr>hl_locks := (hl_locks h)[i := l\<lparr>lk_count := lk_count l - 1\<rparr>]\<rparr>, Released)))"

section \<open>The table as counters\<close>

definition held_list :: "held_locks \<Rightarrow> lock_entry list" where
  "held_list h = take (hl_n h) (hl_locks h)"

definition held_ids :: "held_locks \<Rightarrow> u64 set" where
  "held_ids h = lk_id ` set (held_list h)"

definition held_count :: "held_locks \<Rightarrow> u64 \<Rightarrow> int" where
  "held_count h gid = sum_list (map lk_count (filter (\<lambda>l. lk_id l = gid) (held_list h)))"

definition hl_inv :: "held_locks \<Rightarrow> bool" where
  "hl_inv h \<longleftrightarrow>
     length (hl_locks h) = max_locks \<and> hl_n h \<le> max_locks \<and>
     distinct (map lk_id (held_list h)) \<and>
     (\<forall>l\<in>set (held_list h). 0 < lk_count l \<and> lk_count l < 2 ^ 31) \<and>
     (\<forall>i. hl_n h \<le> i \<and> i < max_locks \<longrightarrow> hl_locks h ! i = no_lock)"

lemma find_lock_spec:
  assumes "n \<le> length ls" "i \<le> n"
  shows "\<exists>r. find_lock P ls n i = Some r \<and> i \<le> r \<and> r \<le> n \<and>
    (\<forall>k. i \<le> k \<and> k < r \<longrightarrow> \<not> P (ls ! k)) \<and> (r < n \<longrightarrow> P (ls ! r))"
  using assms
proof (induction "n - i" arbitrary: i)
  case 0
  then show ?case by (auto simp: find_lock.simps [of P ls i i])
next
  case (Suc m)
  show ?case
  proof (cases "P (ls ! i)")
    case True
    then show ?thesis using Suc.hyps(2) Suc.prems by (auto simp: find_lock.simps [of P ls n i])
  next
    case False
    have step: "find_lock P ls n i = find_lock P ls n (i + 1)"
      using False Suc.hyps(2) Suc.prems by (auto simp: find_lock.simps [of P ls n i])
    have m: "m = n - (i + 1)" and le: "i + 1 \<le> n" using Suc.hyps(2) by linarith+
    obtain r where r: "find_lock P ls n (i + 1) = Some r" "i + 1 \<le> r" "r \<le> n"
      "\<forall>k. i + 1 \<le> k \<and> k < r \<longrightarrow> \<not> P (ls ! k)" "r < n \<longrightarrow> P (ls ! r)"
      using Suc.hyps(1) [OF m Suc.prems(1) le] by blast
    have "\<not> P (ls ! k)" if "i \<le> k" "k < r" for k
      using that r(4) False by (cases "k = i") auto
    then show ?thesis using r step by auto
  qed
qed


lemma find_lock_none:
  assumes "n \<le> length ls" "\<forall>k<n. \<not> P (ls ! k)"
  shows "find_lock P ls n 0 = Some n"
  using find_lock_spec [of n ls 0 P] assms by (metis le_neq_implies_less le0)

lemma find_lock_some:
  assumes "n \<le> length ls" "k < n" "P (ls ! k)"
  obtains r where "find_lock P ls n 0 = Some r" "r < n" "P (ls ! r)"
  using find_lock_spec [of n ls 0 P] assms by (metis le_neq_implies_less le0 leI)

lemma hl_invD:
  assumes "hl_inv h"
  shows "length (hl_locks h) = max_locks" "hl_n h \<le> max_locks" "hl_n h \<le> length (hl_locks h)"
    and "distinct (map lk_id (held_list h))"
    and "\<And>i. i < hl_n h \<Longrightarrow> 0 < lk_count (hl_locks h ! i) \<and> lk_count (hl_locks h ! i) < 2 ^ 31"
    and "\<And>i. hl_n h \<le> i \<Longrightarrow> i < max_locks \<Longrightarrow> hl_locks h ! i = no_lock"
proof -
  show "length (hl_locks h) = max_locks" "hl_n h \<le> max_locks" "hl_n h \<le> length (hl_locks h)"
    "distinct (map lk_id (held_list h))"
    using assms by (simp_all add: hl_inv_def)
  show "hl_locks h ! i = no_lock" if "hl_n h \<le> i" "i < max_locks" for i
    using assms that by (simp add: hl_inv_def)
  show "0 < lk_count (hl_locks h ! i) \<and> lk_count (hl_locks h ! i) < 2 ^ 31" if "i < hl_n h" for i
  proof -
    have "hl_locks h ! i \<in> set (held_list h)"
      using assms that by (auto simp: hl_inv_def held_list_def in_set_conv_nth intro!: exI [of _ i])
    then show ?thesis using assms by (simp add: hl_inv_def)
  qed
qed

lemma held_ids_conv:
  "hl_n h \<le> length (hl_locks h) \<Longrightarrow> g \<in> held_ids h \<longleftrightarrow> (\<exists>i<hl_n h. lk_id (hl_locks h ! i) = g)"
  by (force simp: held_ids_def held_list_def in_set_conv_nth image_iff)

lemma hl_pos_unique:
  assumes "hl_inv h" "i < hl_n h" "j < hl_n h" "lk_id (hl_locks h ! i) = lk_id (hl_locks h ! j)"
  shows "i = j"
  using hl_invD(4) [OF assms(1)] hl_invD(1,2) [OF assms(1)] assms(2-4)
  by (auto simp: held_list_def distinct_conv_nth)

lemma held_count_absent:
  assumes "g \<notin> held_ids h"
  shows "held_count h g = 0"
proof -
  have "filter (\<lambda>l. lk_id l = g) (held_list h) = []"
    using assms by (auto simp: held_ids_def filter_empty_conv)
  then show ?thesis by (simp add: held_count_def)
qed

lemma held_count_at:
  assumes "hl_inv h" "i < hl_n h" "lk_id (hl_locks h ! i) = g"
  shows "held_count h g = lk_count (hl_locks h ! i)"
proof -
  let ?l = "hl_locks h ! i"
  have dis: "distinct (map lk_id xs) \<Longrightarrow> l \<in> set xs \<Longrightarrow> filter (\<lambda>k. lk_id k = lk_id l) xs = [l]"
    for l :: lock_entry and xs
    by (induction xs) (auto simp: filter_empty_conv image_iff)
  have "?l \<in> set (held_list h)"
    using assms hl_invD(3) [OF assms(1)] by (auto simp: held_list_def in_set_conv_nth intro!: exI [of _ i])
  then show ?thesis
    using dis [OF hl_invD(4) [OF assms(1)], of ?l] by (simp add: held_count_def flip: assms(3))
qed

lemma held_count_pos: "hl_inv h \<Longrightarrow> 0 < held_count h g \<longleftrightarrow> g \<in> held_ids h"
  by (cases "g \<in> held_ids h")
    (auto simp: held_count_absent held_ids_conv [OF hl_invD(3)] held_count_at hl_invD(5))

lemma held_count_nonneg: "hl_inv h \<Longrightarrow> 0 \<le> held_count h g"
  using held_count_pos [of h g] by (cases "g \<in> held_ids h") (auto simp: held_count_absent)

lemma held_init_inv: "hl_inv (held_locks_init t)" "held_count (held_locks_init t) g = 0"
  by (simp_all add: hl_inv_def held_locks_init_def held_list_def held_count_def max_locks_def)

section \<open>Acquiring\<close>

lemma in_lock_new:
  assumes inv: "hl_inv h" and g: "g \<notin> held_ids h" and room: "hl_n h < max_locks"
  shows "update_lock_history_in_lock mu g h =
    Some (h\<lparr>hl_locks := (hl_locks h)[hl_n h := \<lparr>lk_mu = mu, lk_count = 1, lk_id = g\<rparr>],
            hl_n := hl_n h + 1\<rparr>)"
proof -
  have "find_lock (\<lambda>l. lk_id l = g) (hl_locks h) (hl_n h) 0 = Some (hl_n h)"
    using g hl_invD(3) [OF inv] by (intro find_lock_none) (auto simp: held_ids_conv)
  then show ?thesis
    using room hl_invD(1) [OF inv] by (simp add: update_lock_history_in_lock_def)
qed

lemma in_lock_full:
  assumes inv: "hl_inv h" and g: "g \<notin> held_ids h" and full: "hl_n h = max_locks"
  shows "update_lock_history_in_lock mu g h = Some h"
proof -
  have "find_lock (\<lambda>l. lk_id l = g) (hl_locks h) (hl_n h) 0 = Some (hl_n h)"
    using g hl_invD(3) [OF inv] by (intro find_lock_none) (auto simp: held_ids_conv)
  then show ?thesis
    using full hl_invD(1) [OF inv] by (simp add: update_lock_history_in_lock_def)
qed

lemma held_position:
  assumes inv: "hl_inv h" and g: "g \<in> held_ids h"
  obtains i where "find_lock (\<lambda>l. lk_id l = g) (hl_locks h) (hl_n h) 0 = Some i" "i < hl_n h"
    "lk_id (hl_locks h ! i) = g" "i < length (hl_locks h)" "held_count h g = lk_count (hl_locks h ! i)"
proof -
  obtain k where k: "k < hl_n h" "lk_id (hl_locks h ! k) = g"
    using g held_ids_conv [OF hl_invD(3) [OF inv]] by auto
  obtain i where i: "find_lock (\<lambda>l. lk_id l = g) (hl_locks h) (hl_n h) 0 = Some i" "i < hl_n h"
    "lk_id (hl_locks h ! i) = g"
    using find_lock_some [of "hl_n h" "hl_locks h" k "\<lambda>l. lk_id l = g"] hl_invD(3) [OF inv] k by blast
  then show ?thesis
    using that [of i] hl_invD(3) [OF inv] held_count_at [OF inv] by simp
qed

lemma in_lock_again:
  assumes inv: "hl_inv h" and g: "g \<in> held_ids h" and c: "held_count h g + 1 < 2 ^ 31"
  obtains i where "i < hl_n h" "lk_id (hl_locks h ! i) = g"
    "update_lock_history_in_lock mu g h =
      Some (h\<lparr>hl_locks := (hl_locks h)[i := (hl_locks h ! i)\<lparr>lk_count := lk_count (hl_locks h ! i) + 1\<rparr>]\<rparr>)"
proof -
  obtain i where i: "find_lock (\<lambda>l. lk_id l = g) (hl_locks h) (hl_n h) 0 = Some i" "i < hl_n h"
    "lk_id (hl_locks h ! i) = g" "i < length (hl_locks h)" "held_count h g = lk_count (hl_locks h ! i)"
    by (rule held_position [OF inv g])
  then show ?thesis
    using that [of i] c by (simp add: update_lock_history_in_lock_def inc32_def)
qed


section \<open>Preservation and the effect on the counters\<close>

lemma held_list_update:
  "i < hl_n h \<Longrightarrow> held_list (h\<lparr>hl_locks := (hl_locks h)[i := l]\<rparr>) = (held_list h)[i := l]"
  by (simp add: held_list_def take_update_swap)

lemma hl_inv_recount:
  assumes inv: "hl_inv h" and i: "i < hl_n h" and c: "0 < c" "c < 2 ^ 31"
  defines "h' \<equiv> h\<lparr>hl_locks := (hl_locks h)[i := (hl_locks h ! i)\<lparr>lk_count := c\<rparr>]\<rparr>"
  shows "hl_inv h'" "held_count h' = (held_count h)(lk_id (hl_locks h ! i) := c)"
proof -
  let ?l = "(hl_locks h ! i)\<lparr>lk_count := c\<rparr>"
  note len = hl_invD(1-3) [OF inv]
  have hl: "held_list h' = (held_list h)[i := ?l]"
    unfolding h'_def by (rule held_list_update [OF i])
  have nth: "held_list h ! k = hl_locks h ! k" if "k < hl_n h" for k
    using that by (simp add: held_list_def)
  have ids: "map lk_id (held_list h') = map lk_id (held_list h)"
    unfolding hl map_update using nth [OF i] i len
    by (intro list_update_same_conv [THEN iffD2]) (simp_all add: held_list_def)
  have cnt: "\<forall>l\<in>set (held_list h'). 0 < lk_count l \<and> lk_count l < 2 ^ 31"
    using set_update_subset_insert [of "held_list h" i ?l] inv c unfolding hl hl_inv_def by auto
  show inv': "hl_inv h'"
    unfolding hl_inv_def using ids cnt hl_invD(4) [OF inv] len hl_invD(6) [OF inv] i
    by (simp add: h'_def)
  show "held_count h' = (held_count h)(lk_id (hl_locks h ! i) := c)"
  proof
    fix g
    have n: "hl_n h' = hl_n h" by (simp add: h'_def)
    have at: "lk_id (hl_locks h' ! k) = lk_id (hl_locks h ! k)"
      "k \<noteq> i \<Longrightarrow> hl_locks h' ! k = hl_locks h ! k" "hl_locks h' ! i = ?l" if "k < hl_n h" for k
      using that i len by (cases "k = i", simp_all add: h'_def)
    show "held_count h' g = ((held_count h)(lk_id (hl_locks h ! i) := c)) g"
    proof (cases "g \<in> held_ids h")
      case True
      then obtain k where k: "k < hl_n h" "lk_id (hl_locks h ! k) = g"
        using held_ids_conv [OF len(3)] by auto
      then have c1: "held_count h g = lk_count (hl_locks h ! k)"
        "held_count h' g = lk_count (hl_locks h' ! k)"
        using held_count_at [OF inv k] held_count_at [OF inv', of k g] n at by simp_all
      show ?thesis
        using c1 k at [OF k(1)] hl_pos_unique [OF inv k(1) i] by (cases "k = i") auto
    next
      case False
      have "set (map lk_id (held_list h')) = set (map lk_id (held_list h))" using ids by simp
      then have "held_ids h' = held_ids h" by (simp add: held_ids_def)
      then show ?thesis
        using False held_ids_conv [OF len(3), of "lk_id (hl_locks h ! i)"] i
        by (auto simp: held_count_absent)
    qed
  qed
qed

lemma hl_inv_append:
  assumes inv: "hl_inv h" and room: "hl_n h < max_locks" and g: "lk_id l \<notin> held_ids h"
    and c: "0 < lk_count l" "lk_count l < 2 ^ 31"
  defines "h' \<equiv> h\<lparr>hl_locks := (hl_locks h)[hl_n h := l], hl_n := hl_n h + 1\<rparr>"
  shows "hl_inv h'" "held_count h' = (held_count h)(lk_id l := lk_count l)"
proof -
  note len = hl_invD(1-3) [OF inv]
  have hl: "held_list h' = held_list h @ [l]"
    using room len by (simp add: h'_def held_list_def take_Suc_conv_app_nth)
  show inv': "hl_inv h'"
    unfolding hl_inv_def hl using inv c g room
    by (auto simp: hl_inv_def held_ids_def h'_def)
  show "held_count h' = (held_count h)(lk_id l := lk_count l)"
    using held_count_absent [OF g] by (auto simp: held_count_def hl)
qed

lemma update_in_lock_spec:
  assumes inv: "hl_inv h" and room: "g \<in> held_ids h \<or> hl_n h < max_locks"
    and c: "held_count h g + 1 < 2 ^ 31"
  shows "\<exists>h'. update_lock_history_in_lock mu g h = Some h' \<and> hl_inv h' \<and>
    held_count h' = (held_count h)(g := held_count h g + 1)"
proof (cases "g \<in> held_ids h")
  case True
  obtain i where i: "i < hl_n h" "lk_id (hl_locks h ! i) = g"
    "update_lock_history_in_lock mu g h =
      Some (h\<lparr>hl_locks := (hl_locks h)[i := (hl_locks h ! i)\<lparr>lk_count := lk_count (hl_locks h ! i) + 1\<rparr>]\<rparr>)"
    by (rule in_lock_again [OF inv True c])
  have cnt: "held_count h g = lk_count (hl_locks h ! i)" by (rule held_count_at [OF inv i(1,2)])
  have "0 < lk_count (hl_locks h ! i) + 1" using hl_invD(5) [OF inv i(1)] by simp
  from hl_inv_recount [OF inv i(1) this] show ?thesis
    using i cnt c by simp
next
  case False
  then have room': "hl_n h < max_locks" using room by simp
  show ?thesis
    using hl_inv_append [OF inv room', of "\<lparr>lk_mu = mu, lk_count = 1, lk_id = g\<rparr>"] False
      in_lock_new [OF inv False room', of mu] held_count_absent [OF False] by simp
qed

lemma card_held_ids: "hl_inv h \<Longrightarrow> card (held_ids h) = hl_n h"
  using distinct_card [OF hl_invD(4) [of h]] hl_invD(1,2) [of h]
  by (simp add: held_ids_def held_list_def)

section \<open>Releasing\<close>

text \<open>The last entry takes the place of the released one.\<close>

lemma hl_inv_swap_remove:
  assumes inv: "hl_inv h" and i: "i < hl_n h"
  defines "h' \<equiv> h\<lparr>hl_n := hl_n h - 1,
     hl_locks := (hl_locks h)[i := hl_locks h ! (hl_n h - 1), hl_n h - 1 := no_lock]\<rparr>"
  shows "hl_inv h'" "held_count h' = (held_count h)(lk_id (hl_locks h ! i) := 0)"
proof -
  let ?n = "hl_n h" and ?ls = "hl_locks h"
  note len = hl_invD(1-3) [OF inv]
  have n0: "0 < ?n" using i by simp
  have perm: "mset (?ls ! i # held_list h') = mset (held_list h)"
  proof -
    have "held_list h' = take (?n - 1) (?ls[i := ?ls ! (?n - 1)])"
      by (simp add: h'_def held_list_def take_update_cancel)
    also have "?ls ! (?n - 1) = last (held_list h)"
      using len n0 by (subst last_conv_nth) (auto simp: held_list_def)
    also have "take (?n - 1) (?ls[i := last (held_list h)])
        = take (?n - 1) ((held_list h)[i := last (held_list h)])"
      by (simp add: held_list_def take_update_swap min_def)
    finally have hl: "held_list h' = butlast ((held_list h)[i := last (held_list h)])"
      using len by (simp add: butlast_conv_take held_list_def)
    obtain xs l where xs: "held_list h = xs @ [l]"
      using n0 len by (cases "held_list h" rule: rev_cases) (auto simp: held_list_def)
    have at: "?ls ! i = (xs @ [l]) ! i" using i by (simp flip: xs) (simp add: held_list_def)
    have lx: "length xs = ?n - 1" using arg_cong [OF xs, of length] len by (simp add: held_list_def)
    show ?thesis
    proof (cases "i = length xs")
      case True
      then show ?thesis unfolding hl xs at by (simp add: list_update_append)
    next
      case False
      then have "i < length xs" using i lx by simp
      then show ?thesis
        unfolding hl xs at
        by (simp add: list_update_append nth_append mset_update butlast_append)
    qed
  qed
  have dis: "distinct (map lk_id (?ls ! i # held_list h'))"
    using hl_invD(4) [OF inv] mset_eq_imp_distinct_iff [of "map lk_id (?ls ! i # held_list h')"] perm
    by (metis mset_map)
  have sub: "set (held_list h') \<subseteq> set (held_list h)"
    using mset_eq_setD [OF perm] by auto
  show inv': "hl_inv h'"
    unfolding hl_inv_def
  proof (intro conjI allI impI)
    show "length (hl_locks h') = max_locks" "hl_n h' \<le> max_locks" using len by (simp_all add: h'_def)
    show "distinct (map lk_id (held_list h'))" using dis by simp
    show "\<forall>l\<in>set (held_list h'). 0 < lk_count l \<and> lk_count l < 2 ^ 31"
      using sub inv by (auto simp: hl_inv_def)
    show "hl_locks h' ! k = no_lock" if "hl_n h' \<le> k \<and> k < max_locks" for k
      using that hl_invD(6) [OF inv, of k] i len by (cases "k = ?n - 1") (auto simp: h'_def)
  qed
  show "held_count h' = (held_count h)(lk_id (?ls ! i) := 0)"
  proof
    fix g
    have "sum_list (map lk_count (filter (\<lambda>l. lk_id l = g) (?ls ! i # held_list h'))) = held_count h g"
      unfolding held_count_def by (rule sum_list_filter_mset [OF perm])
    moreover have "lk_id (?ls ! i) \<notin> held_ids h'" using dis by (simp add: held_ids_def)
    ultimately show "held_count h' g = ((held_count h)(lk_id (?ls ! i) := 0)) g"
      using held_count_absent [of g h'] by (auto simp: held_count_def split: if_splits)
  qed
qed

lemma after_lock_again:
  assumes inv: "hl_inv h" and i: "i < hl_n h" "lk_id (hl_locks h ! i) = g"
    and c: "lk_count (hl_locks h ! i) \<noteq> 1"
  shows "update_lock_history_after_lock mu g h =
    Some (h\<lparr>hl_locks := (hl_locks h)[i := (hl_locks h ! i)\<lparr>lk_count := lk_count (hl_locks h ! i) - 1\<rparr>]\<rparr>,
      Released)"
proof -
  have "g \<in> held_ids h" using i held_ids_conv [OF hl_invD(3) [OF inv]] by blast
  then obtain j where j: "find_lock (\<lambda>l. lk_id l = g) (hl_locks h) (hl_n h) 0 = Some j" "j < hl_n h"
    "lk_id (hl_locks h ! j) = g" "j < length (hl_locks h)"
    by (rule held_position [OF inv])
  then have "j = i" using hl_pos_unique [OF inv j(2) i(1)] i by simp
  then show ?thesis using j c by (simp add: update_lock_history_after_lock_def)
qed

lemma after_lock_last:
  assumes inv: "hl_inv h" and i: "i < hl_n h" "lk_id (hl_locks h ! i) = g"
    and c: "lk_count (hl_locks h ! i) = 1"
  shows "update_lock_history_after_lock mu g h =
    Some (h\<lparr>hl_n := hl_n h - 1,
        hl_locks := (hl_locks h)[i := hl_locks h ! (hl_n h - 1), hl_n h - 1 := no_lock]\<rparr>, Released)"
proof -
  have "g \<in> held_ids h" using i held_ids_conv [OF hl_invD(3) [OF inv]] by blast
  then obtain j where j: "find_lock (\<lambda>l. lk_id l = g) (hl_locks h) (hl_n h) 0 = Some j" "j < hl_n h"
    "lk_id (hl_locks h ! j) = g" "j < length (hl_locks h)"
    by (rule held_position [OF inv])
  then have "j = i" using hl_pos_unique [OF inv j(2) i(1)] i by simp
  then show ?thesis
    using j c hl_invD(3) [OF inv] by (simp add: update_lock_history_after_lock_def)
qed

lemma after_lock_held_spec:
  assumes inv: "hl_inv h" and g: "0 < held_count h g"
  shows "\<exists>h'. update_lock_history_after_lock mu g h = Some (h', Released) \<and> hl_inv h' \<and>
    held_count h' = (held_count h)(g := held_count h g - 1)"
proof -
  have "g \<in> held_ids h" using g held_count_pos [OF inv] by simp
  then obtain i where i: "i < hl_n h" "lk_id (hl_locks h ! i) = g"
    using held_ids_conv [OF hl_invD(3) [OF inv]] by auto
  have cnt: "held_count h g = lk_count (hl_locks h ! i)" by (rule held_count_at [OF inv i])
  show ?thesis
  proof (cases "lk_count (hl_locks h ! i) = 1")
    case True
    then show ?thesis
      using after_lock_last [OF inv i True, of mu] hl_inv_swap_remove [OF inv i(1)] i(2) cnt by simp
  next
    case False
    then have "0 < lk_count (hl_locks h ! i) - 1" "lk_count (hl_locks h ! i) - 1 < 2 ^ 31"
      using hl_invD(5) [OF inv i(1)] by auto
    from hl_inv_recount [OF inv i(1) this] show ?thesis
      using after_lock_again [OF inv i False, of mu] i(2) cnt by simp
  qed
qed

text \<open>Releasing a lock that the thread does not hold changes nothing and is reported.\<close>

lemma after_lock_error:
  assumes inv: "hl_inv h" and g: "held_count h g = 0"
  shows "update_lock_history_after_lock mu g h =
    Some (h, if \<exists>l\<in>set (held_list h). lk_mu l = mu then Deleted_By_Other else Not_Held)"
proof -
  note len = hl_invD(3) [OF inv]
  have "g \<notin> held_ids h" using g held_count_pos [OF inv, of g] by simp
  then have none: "find_lock (\<lambda>l. lk_id l = g) (hl_locks h) (hl_n h) 0 = Some (hl_n h)"
    using len by (intro find_lock_none) (auto simp: held_ids_conv)
  have conv: "(\<exists>l\<in>set (held_list h). lk_mu l = mu) \<longleftrightarrow> (\<exists>k<hl_n h. lk_mu (hl_locks h ! k) = mu)"
    using len by (force simp: held_list_def in_set_conv_nth)
  show ?thesis
  proof (cases "\<exists>k<hl_n h. lk_mu (hl_locks h ! k) = mu")
    case True
    then obtain r where "find_lock (\<lambda>l. lk_mu l = mu) (hl_locks h) (hl_n h) 0 = Some r" "r < hl_n h"
      using find_lock_some [OF len, of _ "\<lambda>l. lk_mu l = mu"] by metis
    then show ?thesis
      using True none unfolding conv by (simp add: update_lock_history_after_lock_def)
  next
    case False
    then have "find_lock (\<lambda>l. lk_mu l = mu) (hl_locks h) (hl_n h) 0 = Some (hl_n h)"
      using len by (intro find_lock_none) auto
    then show ?thesis
      using False none unfolding conv by (simp add: update_lock_history_after_lock_def)
  qed
qed

text \<open>A release right after an acquisition restores the table exactly.\<close>

lemma acquire_release_id:
  assumes inv: "hl_inv h" and room: "g \<in> held_ids h \<or> hl_n h < max_locks"
    and c: "held_count h g + 1 < 2 ^ 31"
  shows "Option.bind (update_lock_history_in_lock mu g h) (update_lock_history_after_lock mu' g)
    = Some (h, Released)"
proof (cases "g \<in> held_ids h")
  case True
  obtain i where i: "i < hl_n h" "lk_id (hl_locks h ! i) = g"
    "update_lock_history_in_lock mu g h =
      Some (h\<lparr>hl_locks := (hl_locks h)[i := (hl_locks h ! i)\<lparr>lk_count := lk_count (hl_locks h ! i) + 1\<rparr>]\<rparr>)"
    by (rule in_lock_again [OF inv True c])
  have pos: "0 < lk_count (hl_locks h ! i)" using hl_invD(5) [OF inv i(1)] by simp
  have lt: "lk_count (hl_locks h ! i) + 1 < 2 ^ 31"
    using c held_count_at [OF inv i(1,2)] by simp
  let ?h = "h\<lparr>hl_locks := (hl_locks h)[i := (hl_locks h ! i)\<lparr>lk_count := lk_count (hl_locks h ! i) + 1\<rparr>]\<rparr>"
  have inv': "hl_inv ?h" using hl_inv_recount(1) [OF inv i(1) _ lt] pos by simp
  have len: "i < length (hl_locks h)" using i(1) hl_invD(3) [OF inv] by simp
  show ?thesis
    using after_lock_again [OF inv', of i g mu'] i len pos by simp
next
  case False
  then have room': "hl_n h < max_locks" using room by simp
  let ?l = "\<lparr>lk_mu = mu, lk_count = 1, lk_id = g\<rparr>"
  let ?h = "h\<lparr>hl_locks := (hl_locks h)[hl_n h := ?l], hl_n := hl_n h + 1\<rparr>"
  have inv': "hl_inv ?h" using hl_inv_append(1) [OF inv room', of ?l] False by simp
  have len: "hl_n h < length (hl_locks h)" using room' hl_invD(1) [OF inv] by simp
  have "(hl_locks h)[hl_n h := no_lock] = hl_locks h"
    using hl_invD(6) [OF inv _ room'] by (metis le_refl list_update_id)
  then show ?thesis
    using in_lock_new [OF inv False room', of mu] after_lock_last [OF inv', of "hl_n h" g mu'] len
    by simp
qed

section \<open>The interface: one counter per lock\<close>

datatype lock_event = Acquire ptr u64 | Release ptr u64

fun event_id :: "lock_event \<Rightarrow> u64" where
  "event_id (Acquire mu g) = g"
| "event_id (Release mu g) = g"

fun event_change :: "lock_event \<Rightarrow> int" where
  "event_change (Acquire mu g) = 1"
| "event_change (Release mu g) = -1"

text \<open>
  What a sequence of lock operations of one thread must respect: at most \<open>max_locks\<close> different
  locks at a time, an \<^verbatim>\<open>int32_t\<close> per counter, and only held locks are released.
\<close>

fun fits :: "(u64 \<Rightarrow> int) \<Rightarrow> lock_event list \<Rightarrow> bool" where
  "fits c [] = True"
| "fits c (Acquire mu g # es) =
     ((0 < c g \<or> card {k. 0 < c k} < max_locks) \<and> c g + 1 < 2 ^ 31 \<and> fits (c(g := c g + 1)) es)"
| "fits c (Release mu g # es) = (0 < c g \<and> fits (c(g := c g - 1)) es)"

fun run_events ::
  "(ptr \<Rightarrow> u64 \<Rightarrow> 's \<Rightarrow> 's option) \<Rightarrow> (ptr \<Rightarrow> u64 \<Rightarrow> 's \<Rightarrow> ('s \<times> release_result) option) \<Rightarrow>
   lock_event list \<Rightarrow> 's \<Rightarrow> ('s \<times> release_result list) option" where
  "run_events acq rel [] s = Some (s, [])"
| "run_events acq rel (Acquire mu g # es) s = Option.bind (acq mu g s) (run_events acq rel es)"
| "run_events acq rel (Release mu g # es) s =
     Option.bind (rel mu g s) (\<lambda>(s', r).
       map_option (\<lambda>(s'', rs). (s'', r # rs)) (run_events acq rel es s'))"

locale lock_counters =
  fixes acquire :: "ptr \<Rightarrow> u64 \<Rightarrow> 's \<Rightarrow> 's option"
    and release :: "ptr \<Rightarrow> u64 \<Rightarrow> 's \<Rightarrow> ('s \<times> release_result) option"
    and counter :: "'s \<Rightarrow> u64 \<Rightarrow> int"
    and valid :: "'s \<Rightarrow> bool"
  assumes acquire_law: "valid s \<Longrightarrow> 0 < counter s g \<or> card {k. 0 < counter s k} < max_locks \<Longrightarrow>
      counter s g + 1 < 2 ^ 31 \<Longrightarrow>
      \<exists>s'. acquire mu g s = Some s' \<and> valid s' \<and> counter s' = (counter s)(g := counter s g + 1)"
    and release_law: "valid s \<Longrightarrow> 0 < counter s g \<Longrightarrow>
      \<exists>s'. release mu g s = Some (s', Released) \<and> valid s' \<and>
        counter s' = (counter s)(g := counter s g - 1)"
begin

lemma run_fits:
  assumes "valid s" "fits (counter s) es"
  shows "\<exists>s' rs. run_events acquire release es s = Some (s', rs) \<and> valid s' \<and> set rs \<subseteq> {Released} \<and>
    (\<forall>g. counter s' g = counter s g + sum_list (map event_change (filter (\<lambda>e. event_id e = g) es)))"
  using assms
proof (induction es arbitrary: s)
  case Nil
  then show ?case by simp
next
  case (Cons e es)
  show ?case
  proof (cases e)
    case (Acquire mu g)
    then obtain s1 where s1: "acquire mu g s = Some s1" "valid s1"
      "counter s1 = (counter s)(g := counter s g + 1)"
      using acquire_law [OF Cons.prems(1), of g mu] Cons.prems(2) by auto
    then have "fits (counter s1) es" using Cons.prems(2) Acquire by simp
    from Cons.IH [OF s1(2) this] show ?thesis
      using s1 Acquire by auto
  next
    case (Release mu g)
    then obtain s1 where s1: "release mu g s = Some (s1, Released)" "valid s1"
      "counter s1 = (counter s)(g := counter s g - 1)"
      using release_law [OF Cons.prems(1), of g mu] Cons.prems(2) by auto
    then have "fits (counter s1) es" using Cons.prems(2) Release by simp
    from Cons.IH [OF s1(2) this] obtain s' rs where "run_events acquire release es s1 = Some (s', rs)" "valid s'"
      "set rs \<subseteq> {Released}"
      "\<forall>g. counter s' g = counter s1 g + sum_list (map event_change (filter (\<lambda>e. event_id e = g) es))"
      by blast
    then show ?thesis
      using s1 Release by auto
  qed
qed

end

interpretation held: lock_counters update_lock_history_in_lock update_lock_history_after_lock
  held_count hl_inv
proof
  fix s g mu
  assume inv: "hl_inv s" and c: "held_count s g + 1 < 2 ^ 31"
    and "0 < held_count s g \<or> card {k. 0 < held_count s k} < max_locks"
  then have "g \<in> held_ids s \<or> hl_n s < max_locks"
    by (simp add: held_count_pos [OF inv] card_held_ids)
  then show "\<exists>s'. update_lock_history_in_lock mu g s = Some s' \<and> hl_inv s' \<and>
      held_count s' = (held_count s)(g := held_count s g + 1)"
    by (rule update_in_lock_spec [OF inv _ c])
next
  fix s g mu
  assume "hl_inv s" "0 < held_count s g"
  then show "\<exists>s'. update_lock_history_after_lock mu g s = Some (s', Released) \<and> hl_inv s' \<and>
      held_count s' = (held_count s)(g := held_count s g - 1)"
    by (rule after_lock_held_spec)
qed

section \<open>Properties\<close>

text \<open>C13: A sequence of lock operations of one thread that holds at most MAX_LOCKS_PER_THREAD locks
  at a time, nests each lock less than 2^31 times and releases only what it holds never leaves the
  table's array, every release is accepted, and at the end the counter of each lock is the number of
  its acquisitions minus the number of its releases.\<close>

theorem lock_table_counts:
  assumes "fits (\<lambda>_. 0) es"
  shows "\<exists>h rs. run_events update_lock_history_in_lock update_lock_history_after_lock es
      (held_locks_init t) = Some (h, rs) \<and> hl_inv h \<and> set rs \<subseteq> {Released} \<and>
    (\<forall>g. held_count h g = sum_list (map event_change (filter (\<lambda>e. event_id e = g) es)))"
proof -
  have "held_count (held_locks_init t) = (\<lambda>_. 0)" using held_init_inv(2) by blast
  then show ?thesis using held.run_fits [OF held_init_inv(1), of t es] assms by simp
qed

theorem lock_table_counts_witness:
  "\<exists>h rs. run_events update_lock_history_in_lock update_lock_history_after_lock
      [Acquire 64 7, Acquire 128 8, Acquire 64 7, Release 64 7, Release 128 8] (held_locks_init 1) =
        Some (h, rs) \<and> set rs \<subseteq> {Released} \<and> held_count h 7 = 1 \<and> held_count h 8 = 0"
proof -
  let ?es = "[Acquire 64 7, Acquire 128 8, Acquire 64 7, Release 64 7, Release 128 8]"
  have e: "{k::u64. 0 < (if k = 7 then 1 else (0::int))} = {7}" by auto
  have f: "fits (\<lambda>_. 0) ?es" by (simp add: max_locks_def fun_upd_def e)
  obtain h rs where r: "run_events update_lock_history_in_lock update_lock_history_after_lock ?es
      (held_locks_init 1) = Some (h, rs)" "set rs \<subseteq> {Released}"
    and c: "\<forall>g. held_count h g = sum_list (map event_change (filter (\<lambda>e. event_id e = g) ?es))"
    using lock_table_counts [OF f, of 1] by blast
  have "held_count h 7 = 1" "held_count h 8 = 0" by (simp_all add: c)
  then show ?thesis using r by blast
qed

end
