(* ===== verification/Node_Set.thy ===== *)
theory Node_Set
  imports Prelude
begin

text \<open>
  The hash set of node indices of \<^verbatim>\<open>buginsight_dll/graphcycles/graphcycles.cc\<close> (class
  \<^verbatim>\<open>NodeSet\<close>): open addressing with linear probing, tombstones, and doubling at 75\% load.
  The table is the list of its cells. The probe loop is a \<open>partial_function\<close>, so that a table
  without an empty cell, on which the C++ loop runs forever, is \<open>None\<close>; the invariant
  \<open>ns_inv\<close> keeps a quarter of the cells empty, so every operation returns.
\<close>

section \<open>The table and its operations\<close>

definition kInline :: nat where
  "kInline = 8"

definition kEmpty :: int where
  "kEmpty = -1"

definition kDel :: int where
  "kDel = -2"

record node_set =
  ns_table :: "int list"
  ns_occupied :: nat

text \<open>The source multiplies in \<^verbatim>\<open>int32_t\<close> before it converts to \<^verbatim>\<open>uint32_t\<close>. Above 52377649
  the product does not fit, which C++ leaves undefined; the wrapped product that compilers give is
  taken.\<close>

definition node_hash :: "int \<Rightarrow> u32" where
  "node_hash a = word_of_int (a * 41)"

definition table_mask :: "int list \<Rightarrow> u32" where
  "table_mask t = word_of_nat (length t) - 1"

text \<open>The loop of \<^verbatim>\<open>FindIndex\<close>: \<open>di\<close> is \<^verbatim>\<open>deleted_index\<close>, \<open>seen\<close> is \<^verbatim>\<open>seen_deleted_element\<close>.\<close>

partial_function (option) find_index_loop ::
  "int list \<Rightarrow> int \<Rightarrow> u32 \<Rightarrow> u32 \<Rightarrow> bool \<Rightarrow> u32 option" where
  "find_index_loop t v i di seen =
     Option.bind (vec_get t (unat i)) (\<lambda>e.
       if v = e then Some i
       else if e = kEmpty then Some (if seen then di else i)
       else if e = kDel \<and> \<not> seen
       then find_index_loop t v ((i + 1) AND table_mask t) i True
       else find_index_loop t v ((i + 1) AND table_mask t) di seen)"

definition find_index :: "node_set \<Rightarrow> int \<Rightarrow> nat option" where
  "find_index s v = map_option unat
     (find_index_loop (ns_table s) v (node_hash v AND table_mask (ns_table s)) 0 False)"

definition node_set_empty :: node_set where
  "node_set_empty = \<lparr>ns_table = replicate kInline kEmpty, ns_occupied = 0\<rparr>"

definition node_set_contains :: "node_set \<Rightarrow> int \<Rightarrow> bool option" where
  "node_set_contains s v =
     Option.bind (find_index s v) (\<lambda>i. map_option (\<lambda>e. e = v) (vec_get (ns_table s) i))"

text \<open>
  \<^verbatim>\<open>insert\<close> and \<^verbatim>\<open>Grow\<close> call each other. Each body takes the other one as an argument and
  \<open>insert_upto\<close> ties the knot: \<open>insert_upto g\<close> allows \<open>g\<close> nested calls of \<^verbatim>\<open>Grow\<close>. One is
  enough (\<open>node_set_insert_Some\<close>): after a doubling the live elements fill at most half of the
  table, so the insertions inside \<^verbatim>\<open>Grow\<close> never grow again.
\<close>

definition insert_body ::
  "(node_set \<Rightarrow> node_set option) \<Rightarrow> int \<Rightarrow> node_set \<Rightarrow> (node_set \<times> bool) option" where
  "insert_body grow v s =
     Option.bind (find_index s v) (\<lambda>i.
     Option.bind (vec_get (ns_table s) i) (\<lambda>e.
       if e = v then Some (s, False)
       else
         let occ = (if e = kEmpty then ns_occupied s + 1 else ns_occupied s);
             s' = \<lparr>ns_table = (ns_table s)[i := v], ns_occupied = occ\<rparr>;
             n = length (ns_table s)
         in if n - n div 4 \<le> occ then map_option (\<lambda>s''. (s'', True)) (grow s')
            else Some (s', True)))"

fun reinsert ::
  "(int \<Rightarrow> node_set \<Rightarrow> (node_set \<times> bool) option) \<Rightarrow> int list \<Rightarrow> node_set \<Rightarrow> node_set option" where
  "reinsert ins [] s = Some s"
| "reinsert ins (e # es) s =
     (if 0 \<le> e then Option.bind (ins e s) (\<lambda>(s', _). reinsert ins es s')
      else reinsert ins es s)"

definition grow_body ::
  "(int \<Rightarrow> node_set \<Rightarrow> (node_set \<times> bool) option) \<Rightarrow> node_set \<Rightarrow> node_set option" where
  "grow_body ins s =
     reinsert ins (ns_table s)
       \<lparr>ns_table = replicate (unat (word_of_nat (length (ns_table s)) * 2 :: u32)) kEmpty,
        ns_occupied = 0\<rparr>"

fun insert_upto :: "nat \<Rightarrow> int \<Rightarrow> node_set \<Rightarrow> (node_set \<times> bool) option" where
  "insert_upto 0 = insert_body (\<lambda>_. None)"
| "insert_upto (Suc g) = insert_body (grow_body (insert_upto g))"

definition node_set_insert :: "int \<Rightarrow> node_set \<Rightarrow> (node_set \<times> bool) option" where
  "node_set_insert = insert_upto 1"

definition node_set_erase :: "int \<Rightarrow> node_set \<Rightarrow> node_set option" where
  "node_set_erase v s =
     Option.bind (find_index s v) (\<lambda>i.
     map_option (\<lambda>e. if e = v then s\<lparr>ns_table := (ns_table s)[i := kDel]\<rparr> else s)
       (vec_get (ns_table s) i))"

text \<open>
  \<^verbatim>\<open>Next\<close>: the loop advances the cursor over cells that hold no element; the result is the new
  cursor and the element, if there is one. \<open>ns_elems\<close> lists what \<^verbatim>\<open>HASH_FOR_EACH\<close> visits.
\<close>

function node_set_next :: "node_set \<Rightarrow> nat \<Rightarrow> nat \<times> int option" where
  "node_set_next s cursor =
     (if cursor < length (ns_table s) then
        let v = ns_table s ! cursor
        in if 0 \<le> v then (cursor + 1, Some v) else node_set_next s (cursor + 1)
      else (cursor, None))"
  by pat_completeness auto
termination
  by (relation "measure (\<lambda>(s, c). length (ns_table s) - c)") auto

declare node_set_next.simps [simp del]

definition ns_elems :: "node_set \<Rightarrow> int list" where
  "ns_elems s = filter (\<lambda>e. 0 \<le> e) (ns_table s)"

definition ns_set :: "node_set \<Rightarrow> int set" where
  "ns_set s = set (ns_elems s)"

section \<open>Probe sequences\<close>

text \<open>The table size is a power of two, so masking is reduction modulo the size.\<close>

definition home :: "nat \<Rightarrow> int \<Rightarrow> nat" where
  "home n v = nat ((v * 41) mod int n)"

definition probe :: "nat \<Rightarrow> int \<Rightarrow> nat \<Rightarrow> nat" where
  "probe n v d = (home n v + d) mod n"

definition size_ok :: "nat \<Rightarrow> bool" where
  "size_ok n \<longleftrightarrow> (\<exists>k. 3 \<le> k \<and> k \<le> 30 \<and> n = 2 ^ k)"

lemma size_okE:
  assumes "size_ok n"
  obtains k where "3 \<le> k" "k \<le> 30" "n = 2 ^ k"
  using assms by (auto simp: size_ok_def)

lemma size_ok_bounds:
  assumes "size_ok n"
  shows "8 \<le> n" "n \<le> 2 ^ 30" "n mod 4 = 0"
proof -
  from assms obtain k where k: "3 \<le> k" "k \<le> 30" "n = 2 ^ k" by (rule size_okE)
  then have "(2::nat) ^ 3 \<le> 2 ^ k" "(2::nat) ^ k \<le> 2 ^ 30"
    by (simp_all only: power_increasing one_le_numeral)
  with k show "8 \<le> n" "n \<le> 2 ^ 30" by simp_all
  have "(4::nat) dvd 2 ^ k"
    using k le_imp_power_dvd [of 2 k "2::nat"] by simp
  with k show "n mod 4 = 0" by auto
qed

lemma unat_and_table_mask:
  assumes "size_ok (length t)"
  shows "unat (w AND table_mask t) = unat w mod length t"
proof -
  from assms obtain k where k: "3 \<le> k" "k \<le> 30" "length t = 2 ^ k" by (rule size_okE)
  have "table_mask t = mask k"
    by (simp add: table_mask_def k(3) mask_eq_decr_exp)
  then have "w AND table_mask t = take_bit k w"
    by (simp add: take_bit_eq_mask)
  then show ?thesis
    using k by (simp only: unsigned_take_bit_eq) (simp add: take_bit_eq_mod)
qed

lemma home_conv:
  assumes "size_ok (length t)"
  shows "unat (node_hash v AND table_mask t) = home (length t) v"
proof -
  from assms obtain k where k: "3 \<le> k" "k \<le> 30" "length t = 2 ^ k" by (rule size_okE)
  have dvd: "(2::int) ^ k dvd 2 ^ 32" using k by (intro le_imp_power_dvd) auto
  have "uint (node_hash v) = (v * 41) mod 2 ^ 32"
    by (simp only: node_hash_def uint_word_of_int len_num1 len_bit0) simp
  then have "int (unat (node_hash v) mod length t) = (v * 41) mod 2 ^ 32 mod 2 ^ k"
    by (simp add: zmod_int k)
  also have "\<dots> = (v * 41) mod int (length t)"
    using dvd k by (simp add: mod_mod_cancel)
  finally show ?thesis
    by (simp add: unat_and_table_mask [OF assms] home_def flip: nat_eq_iff2)
qed

lemma home_less: "size_ok n \<Longrightarrow> home n v < n"
  using size_ok_bounds(1) [of n] by (simp add: home_def nat_less_iff)

lemma probe_less: "size_ok n \<Longrightarrow> probe n v d < n"
  using size_ok_bounds(1) [of n] by (simp add: probe_def)

lemma probe_0: "size_ok n \<Longrightarrow> probe n v 0 = home n v"
  by (simp add: probe_def home_less)

lemma probe_Suc: "(probe n v d + 1) mod n = probe n v (Suc d)"
  by (simp add: probe_def mod_simps)

lemma probe_reaches:
  assumes "size_ok n" "j < n"
  obtains d where "probe n v d = j"
proof
  have "home n v < n" by (rule home_less [OF assms(1)])
  then have "home n v + (j + n - home n v) = j + n" by linarith
  then show "probe n v (j + n - home n v) = j"
    using assms(2) by (simp add: probe_def)
qed

text \<open>On tables larger than every index, different indices have different home cells.\<close>

lemma home_inj:
  assumes "size_ok n" "0 \<le> v" "v < int n" "0 \<le> w" "w < int n" "home n v = home n w"
  shows "v = w"
proof -
  from assms(1) obtain k where n: "n = 2 ^ k" by (rule size_okE)
  have "0 < int n" using size_ok_bounds(1) [OF assms(1)] by simp
  then have "(v * 41) mod int n = (w * 41) mod int n"
    using assms(6) by (simp add: home_def eq_nat_nat_iff)
  then have "int n dvd (v - w) * 41"
    by (simp add: mod_eq_dvd_iff left_diff_distrib)
  moreover have "coprime (int n) 41"
    unfolding n by (simp add: coprime_commute)
  ultimately have "int n dvd v - w"
    using coprime_dvd_mult_left_iff by blast
  then have "v mod int n = w mod int n" by (simp add: mod_eq_dvd_iff)
  then show ?thesis using assms by simp
qed

section \<open>The probe loop returns\<close>

lemma mask_step:
  assumes "size_ok (length t)" "unat i < length t"
  shows "unat ((i + 1) AND table_mask t) = (unat i + 1) mod length t"
proof -
  have "unat i + 1 < 2 ^ 32"
    using assms(2) size_ok_bounds(2) [OF assms(1)] by simp
  then have "unat (i + 1) = unat i + 1"
    by (simp add: unat_word_ariths)
  then show ?thesis by (simp add: unat_and_table_mask [OF assms(1)])
qed

text \<open>
  From the \<open>d\<close>-th probe to the first cell, number \<open>d0\<close>, that holds \<open>v\<close> or is empty. The
  result is that cell if it holds \<open>v\<close>, else the first tombstone before it, else the cell.
\<close>

lemma find_index_loop_spec:
  fixes t :: "int list"
  assumes ok: "size_ok (length t)"
    and stop: "t ! probe (length t) v d0 = v \<or> t ! probe (length t) v d0 = kEmpty"
    and go: "\<forall>d'. d \<le> d' \<and> d' < d0 \<longrightarrow>
      t ! probe (length t) v d' \<noteq> v \<and> t ! probe (length t) v d' \<noteq> kEmpty"
    and "d \<le> d0" and i: "unat i = probe (length t) v d"
  shows "\<exists>r. find_index_loop t v i di seen = Some r \<and>
    (if t ! probe (length t) v d0 = v then unat r = probe (length t) v d0
     else if seen then r = di
     else (\<exists>d1. d \<le> d1 \<and> d1 \<le> d0 \<and> unat r = probe (length t) v d1 \<and>
        t ! probe (length t) v d1 \<in> {kEmpty, kDel} \<and>
        (\<forall>d'. d \<le> d' \<and> d' < d1 \<longrightarrow> t ! probe (length t) v d' \<noteq> kDel)))"
  using go \<open>d \<le> d0\<close> i
proof (induction "d0 - d" arbitrary: d i di seen)
  case 0
  then have d: "d = d0" by simp
  have lt: "unat i < length t" by (simp add: 0(4) probe_less [OF ok])
  show ?case
    using stop 0(4) lt
    by (cases "t ! probe (length t) v d0 = v")
      (auto simp: d find_index_loop.simps [of t v i])
next
  case (Suc m)
  then have dlt: "d < d0" by linarith
  let ?e = "t ! probe (length t) v d"
  have lt: "unat i < length t" by (simp add: Suc(5) probe_less [OF ok])
  have ne: "?e \<noteq> v" "?e \<noteq> kEmpty" using Suc(3) dlt by auto
  have get: "vec_get t (unat i) = Some ?e" using lt by (simp add: Suc(5))
  let ?i' = "(i + 1) AND table_mask t"
  have i': "unat ?i' = probe (length t) v (Suc d)"
    using mask_step [OF ok lt] by (simp add: Suc(5) probe_Suc [symmetric])
  have m: "m = d0 - Suc d" and le: "Suc d \<le> d0" using Suc(2) dlt by auto
  have go': "\<forall>d'. Suc d \<le> d' \<and> d' < d0 \<longrightarrow>
      t ! probe (length t) v d' \<noteq> v \<and> t ! probe (length t) v d' \<noteq> kEmpty"
    using Suc(3) by auto
  note IH = Suc(1) [OF m go' le i']
  show ?case
  proof (cases "?e = kDel \<and> \<not> seen")
    case True
    have "find_index_loop t v i di seen = find_index_loop t v ?i' i True"
      using True ne by (simp add: find_index_loop.simps [of t v i] get)
    moreover obtain r where "find_index_loop t v ?i' i True = Some r"
      "if t ! probe (length t) v d0 = v then unat r = probe (length t) v d0 else r = i"
      using IH [of i True] by auto
    ultimately show ?thesis
      using True dlt Suc(5) by (intro exI [of _ r]) (auto intro!: exI [of _ d])
  next
    case False
    have "find_index_loop t v i di seen = find_index_loop t v ?i' di seen"
      using False ne by (auto simp: find_index_loop.simps [of t v i] get)
    moreover obtain r where r: "find_index_loop t v ?i' di seen = Some r"
      and res: "if t ! probe (length t) v d0 = v then unat r = probe (length t) v d0
       else if seen then r = di
       else (\<exists>d1. Suc d \<le> d1 \<and> d1 \<le> d0 \<and> unat r = probe (length t) v d1 \<and>
          t ! probe (length t) v d1 \<in> {kEmpty, kDel} \<and>
          (\<forall>d'. Suc d \<le> d' \<and> d' < d1 \<longrightarrow> t ! probe (length t) v d' \<noteq> kDel))"
      using IH [of di seen] by auto
    moreover have "\<exists>d1. d \<le> d1 \<and> d1 \<le> d0 \<and> unat r = probe (length t) v d1 \<and>
          t ! probe (length t) v d1 \<in> {kEmpty, kDel} \<and>
          (\<forall>d'. d \<le> d' \<and> d' < d1 \<longrightarrow> t ! probe (length t) v d' \<noteq> kDel)"
      if "\<not> seen" "t ! probe (length t) v d0 \<noteq> v"
    proof -
      from res that obtain d1 where "Suc d \<le> d1" "d1 \<le> d0" "unat r = probe (length t) v d1"
        "t ! probe (length t) v d1 \<in> {kEmpty, kDel}"
        "\<forall>d'. Suc d \<le> d' \<and> d' < d1 \<longrightarrow> t ! probe (length t) v d' \<noteq> kDel" by auto
      moreover from calculation(5) have "\<forall>d'. d \<le> d' \<and> d' < d1 \<longrightarrow> t ! probe (length t) v d' \<noteq> kDel"
        using False that by (metis Suc_leI le_neq_implies_less)
      ultimately show ?thesis
        by (intro exI [of _ d1]) auto
    qed
    ultimately show ?thesis by (intro exI [of _ r]) auto
  qed
qed

lemma find_index_spec:
  assumes ok: "size_ok (length (ns_table s))"
    and free: "j < length (ns_table s)" "ns_table s ! j = kEmpty"
  obtains (found) d where "find_index s v = Some (probe (length (ns_table s)) v d)"
      "ns_table s ! probe (length (ns_table s)) v d = v"
    | (fresh) d d0 where "find_index s v = Some (probe (length (ns_table s)) v d)"
      "ns_table s ! probe (length (ns_table s)) v d \<in> {kEmpty, kDel}"
      "\<forall>d'<d. ns_table s ! probe (length (ns_table s)) v d' \<notin> {v, kEmpty, kDel}"
      "ns_table s ! probe (length (ns_table s)) v d0 = kEmpty"
      "\<forall>d'<d0. ns_table s ! probe (length (ns_table s)) v d' \<notin> {v, kEmpty}"
proof -
  let ?t = "ns_table s" and ?n = "length (ns_table s)"
  let ?P = "\<lambda>d. ?t ! probe ?n v d = v \<or> ?t ! probe ?n v d = kEmpty"
  obtain de where "probe ?n v de = j" using probe_reaches [OF ok free(1)] .
  then have ex: "?P de" by (simp add: free(2))
  define d0 where "d0 = (LEAST d. ?P d)"
  have stop: "?P d0" unfolding d0_def by (rule LeastI [of ?P, OF ex])
  have before: "\<forall>d'. 0 \<le> d' \<and> d' < d0 \<longrightarrow> ?t ! probe ?n v d' \<noteq> v \<and> ?t ! probe ?n v d' \<noteq> kEmpty"
    unfolding d0_def using not_less_Least [of _ ?P] by blast
  have i: "unat (node_hash v AND table_mask ?t) = probe ?n v 0"
    by (simp add: home_conv [OF ok] probe_0 [OF ok])
  obtain r where r: "find_index_loop ?t v (node_hash v AND table_mask ?t) 0 False = Some r"
    and res: "if ?t ! probe ?n v d0 = v then unat r = probe ?n v d0
      else (\<exists>d1. 0 \<le> d1 \<and> d1 \<le> d0 \<and> unat r = probe ?n v d1 \<and>
        ?t ! probe ?n v d1 \<in> {kEmpty, kDel} \<and>
        (\<forall>d'. 0 \<le> d' \<and> d' < d1 \<longrightarrow> ?t ! probe ?n v d' \<noteq> kDel))"
    using find_index_loop_spec [OF ok stop before _ i, of 0 False]
    unfolding if_False by blast
  have f: "find_index s v = Some (unat r)" by (simp add: find_index_def r)
  show ?thesis
  proof (cases "?t ! probe ?n v d0 = v")
    case True
    then show ?thesis using f res by (intro found [of d0]) auto
  next
    case False
    with res obtain d1 where d1: "d1 \<le> d0" "unat r = probe ?n v d1"
      "?t ! probe ?n v d1 \<in> {kEmpty, kDel}" "\<forall>d'<d1. ?t ! probe ?n v d' \<noteq> kDel" by auto
    then show ?thesis
      using f stop before False by (intro fresh [of d1 d0]) auto
  qed
qed

section \<open>The invariant of the set\<close>

text \<open>
  Indices stored in a set are below \<open>node_limit\<close>, which is the bound on the number of graph nodes
  under which all casts between \<^verbatim>\<open>int32_t\<close> and \<^verbatim>\<open>uint32_t\<close> and all table sizes fit their types.
  \<open>reached\<close>: a lookup of the element in cell \<open>j\<close> passes no empty cell before \<open>j\<close>. The last part of
  \<open>ns_pre\<close> says that a table of \<open>2 ^ 30\<close> cells is collision free, which is why it never grows.
\<close>

definition node_limit :: int where
  "node_limit = 2 ^ 29"

definition reached :: "int list \<Rightarrow> nat \<Rightarrow> bool" where
  "reached t j \<longleftrightarrow> (\<exists>d. probe (length t) (t ! j) d = j \<and>
     (\<forall>d'<d. t ! probe (length t) (t ! j) d' \<noteq> kEmpty))"

definition direct :: "int list \<Rightarrow> bool" where
  "direct t \<longleftrightarrow> (\<forall>j<length t.
     (t ! j \<noteq> kEmpty \<longrightarrow> (\<exists>v. 0 \<le> v \<and> v < node_limit \<and> home (length t) v = j)) \<and>
     (0 \<le> t ! j \<longrightarrow> home (length t) (t ! j) = j))"

definition ns_pre :: "node_set \<Rightarrow> bool" where
  "ns_pre s \<longleftrightarrow>
     size_ok (length (ns_table s)) \<and>
     (\<forall>e\<in>set (ns_table s). e = kEmpty \<or> e = kDel \<or> 0 \<le> e \<and> e < node_limit) \<and>
     distinct (ns_elems s) \<and>
     ns_occupied s = length (filter (\<lambda>e. e \<noteq> kEmpty) (ns_table s)) \<and>
     (\<forall>j<length (ns_table s). 0 \<le> ns_table s ! j \<longrightarrow> reached (ns_table s) j) \<and>
     (length (ns_table s) = 2 ^ 30 \<longrightarrow> direct (ns_table s))"

definition ns_inv :: "node_set \<Rightarrow> bool" where
  "ns_inv s \<longleftrightarrow> ns_pre s \<and>
     ns_occupied s < length (ns_table s) - length (ns_table s) div 4"

lemmas kdefs = kEmpty_def kDel_def

lemma ns_preD:
  assumes "ns_pre s"
  shows "size_ok (length (ns_table s))"
    and "j < length (ns_table s) \<Longrightarrow> ns_table s ! j = kEmpty \<or> ns_table s ! j = kDel
      \<or> 0 \<le> ns_table s ! j \<and> ns_table s ! j < node_limit"
    and "distinct (ns_elems s)"
    and "ns_occupied s = length (filter (\<lambda>e. e \<noteq> kEmpty) (ns_table s))"
    and "j < length (ns_table s) \<Longrightarrow> 0 \<le> ns_table s ! j \<Longrightarrow> reached (ns_table s) j"
    and "length (ns_table s) = 2 ^ 30 \<Longrightarrow> direct (ns_table s)"
  using assms nth_mem [of j "ns_table s"] by (auto simp: ns_pre_def)

lemma in_ns_set_conv:
  "v \<in> ns_set s \<longleftrightarrow> 0 \<le> v \<and> (\<exists>j<length (ns_table s). ns_table s ! j = v)"
  by (auto simp: ns_set_def ns_elems_def in_set_conv_nth)

lemma ns_set_range: "ns_pre s \<Longrightarrow> v \<in> ns_set s \<Longrightarrow> 0 \<le> v \<and> v < node_limit"
  by (auto simp: in_ns_set_conv kdefs dest!: ns_preD(2))

lemma ns_cell_unique:
  assumes "ns_pre s" "i < length (ns_table s)" "j < length (ns_table s)"
    "ns_table s ! i = ns_table s ! j" "0 \<le> ns_table s ! i"
  shows "i = j"
  using assms ns_preD(3) [OF assms(1)]
  by (intro distinct_map_filter_nth_eq [where P = "\<lambda>e. 0 \<le> e"]) (auto simp: ns_elems_def)

text \<open>Below full occupancy there is an empty cell, so lookups return.\<close>

lemma ns_free_cell:
  assumes "ns_pre s" "ns_occupied s < length (ns_table s)"
  obtains j where "j < length (ns_table s)" "ns_table s ! j = kEmpty"
proof -
  have "kEmpty \<in> set (ns_table s)"
  proof (rule ccontr)
    assume "kEmpty \<notin> set (ns_table s)"
    then have "filter (\<lambda>e. e \<noteq> kEmpty) (ns_table s) = ns_table s"
      by (intro filter_True) auto
    then show False using assms ns_preD(4) [OF assms(1)] by simp
  qed
  then show ?thesis using that by (auto simp: in_set_conv_nth)
qed

lemma ns_invD:
  assumes "ns_inv s"
  shows "ns_pre s" "ns_occupied s < length (ns_table s)"
proof -
  show "ns_pre s" using assms by (simp add: ns_inv_def)
  have "ns_occupied s < length (ns_table s) - length (ns_table s) div 4"
    using assms by (simp add: ns_inv_def)
  then show "ns_occupied s < length (ns_table s)" by linarith
qed

lemma ns_inv_free_cell:
  assumes "ns_inv s"
  obtains j where "j < length (ns_table s)" "ns_table s ! j = kEmpty"
  using ns_free_cell [OF ns_invD [OF assms]] .

lemma find_index_member:
  assumes inv: "ns_inv s" and v: "v \<in> ns_set s"
  shows "\<exists>i<length (ns_table s). find_index s v = Some i \<and> ns_table s ! i = v"
proof -
  let ?t = "ns_table s" and ?n = "length (ns_table s)"
  from inv have pre: "ns_pre s" by (simp add: ns_inv_def)
  note ok = ns_preD(1) [OF pre]
  obtain j where free: "j < ?n" "?t ! j = kEmpty" by (rule ns_inv_free_cell [OF inv])
  from v obtain c where c: "0 \<le> v" "c < ?n" "?t ! c = v" by (auto simp: in_ns_set_conv)
  then obtain dv where dv: "probe ?n v dv = c" "\<forall>d'<dv. ?t ! probe ?n v d' \<noteq> kEmpty"
    using ns_preD(5) [OF pre c(2)] by (auto simp: reached_def)
  show ?thesis
  proof (cases rule: find_index_spec [OF ok free, of v])
    case (1 d)
    then show ?thesis using probe_less [OF ok] by auto
  next
    case (2 d d0)
    have "dv \<le> d0" using 2(4) dv(2) not_le by blast
    moreover have "d0 \<le> dv" using 2(5) dv(1) c not_le by blast
    ultimately have "?t ! c = kEmpty" using 2(4) dv(1) by simp
    then show ?thesis using c by (simp add: kdefs)
  qed
qed

lemma find_index_fresh:
  assumes pre: "ns_pre s" and occ: "ns_occupied s < length (ns_table s)"
    and v: "0 \<le> v" "v \<notin> ns_set s"
  shows "\<exists>d. find_index s v = Some (probe (length (ns_table s)) v d) \<and>
      ns_table s ! probe (length (ns_table s)) v d \<in> {kEmpty, kDel} \<and>
      (\<forall>d'<d. 0 \<le> ns_table s ! probe (length (ns_table s)) v d')"
proof -
  let ?t = "ns_table s" and ?n = "length (ns_table s)"
  note ok = ns_preD(1) [OF pre]
  obtain j where free: "j < ?n" "?t ! j = kEmpty" by (rule ns_free_cell [OF pre occ])
  show ?thesis
  proof (cases rule: find_index_spec [OF ok free, of v])
    case (1 d)
    then show ?thesis using v probe_less [OF ok] by (auto simp: in_ns_set_conv)
  next
    case (2 d d0)
    then show ?thesis
      using ns_preD(2) [OF pre probe_less [OF ok]] by (intro exI [of _ d]) auto
  qed
qed

section \<open>Placing an element, growing, inserting\<close>

definition placed :: "node_set \<Rightarrow> int \<Rightarrow> nat \<Rightarrow> node_set" where
  "placed s v i = \<lparr>ns_table = (ns_table s)[i := v],
     ns_occupied = (if ns_table s ! i = kEmpty then ns_occupied s + 1 else ns_occupied s)\<rparr>"

lemma placed_simps [simp]:
  "ns_table (placed s v i) = (ns_table s)[i := v]"
  "ns_occupied (placed s v i) =
     (if ns_table s ! i = kEmpty then ns_occupied s + 1 else ns_occupied s)"
  by (simp_all add: placed_def)

lemma reached_mono:
  assumes "reached t j" "length t' = length t" "t' ! j = t ! j"
    and "\<And>c. c < length t \<Longrightarrow> t ! c \<noteq> kEmpty \<Longrightarrow> t' ! c \<noteq> kEmpty"
    and "size_ok (length t)"
  shows "reached t' j"
  using assms probe_less [OF assms(5)] unfolding reached_def by metis

lemma direct_place:
  assumes dir: "direct t" and size: "length t = 2 ^ 30" "size_ok (length t)"
    and v: "0 \<le> v" "v < node_limit" "\<forall>j<length t. t ! j \<noteq> v"
    and bound: "\<forall>j<length t. t ! j < node_limit"
    and d: "\<forall>d'<d. 0 \<le> t ! probe (length t) v d'"
  shows "probe (length t) v d = home (length t) v" "direct (t[probe (length t) v d := v])"
proof -
  let ?n = "length t" and ?h = "home (length t) v"
  have lim: "node_limit < int ?n" by (simp add: node_limit_def size)
  have h: "?h < ?n" by (rule home_less [OF size(2)])
  have "d = 0"
  proof (rule ccontr)
    assume "d \<noteq> 0"
    then have ge: "0 \<le> t ! ?h" using d probe_0 [OF size(2)] by auto
    then have hh: "home ?n (t ! ?h) = ?h" using dir h by (simp add: direct_def)
    have "t ! ?h < int ?n" using bound h lim by force
    then have "t ! ?h = v" using home_inj [OF size(2) ge _ v(1) _ hh] v lim by simp
    then show False using v(3) h by blast
  qed
  then show p: "probe ?n v d = ?h" by (simp add: probe_0 [OF size(2)])
  show "direct (t[probe ?n v d := v])"
    unfolding p direct_def length_list_update
  proof (intro allI impI)
    fix j assume j: "j < length t"
    show "(t[?h := v] ! j \<noteq> kEmpty \<longrightarrow> (\<exists>v. 0 \<le> v \<and> v < node_limit \<and> home ?n v = j)) \<and>
      (0 \<le> t[?h := v] ! j \<longrightarrow> home ?n (t[?h := v] ! j) = j)"
      using dir j v(1,2) by (cases "j = ?h") (auto simp: direct_def)
  qed
qed

lemma ns_elems_placed:
  assumes "i < length (ns_table s)" "ns_table s ! i \<in> {kEmpty, kDel}" "0 \<le> v"
  shows "mset (ns_elems (placed s v i)) = mset (v # ns_elems s)"
  using assms unfolding ns_elems_def placed_simps
  by (intro mset_filter_update_new) (auto simp: kdefs)

lemma ns_set_placed:
  assumes "i < length (ns_table s)" "ns_table s ! i \<in> {kEmpty, kDel}" "0 \<le> v"
  shows "ns_set (placed s v i) = insert v (ns_set s)"
  using arg_cong [OF ns_elems_placed [OF assms], of set_mset] by (simp add: ns_set_def)

text \<open>Writing \<open>v\<close> into the cell that \<^verbatim>\<open>FindIndex\<close> returned keeps all of the invariant but the load.\<close>

lemma ns_pre_placed:
  assumes pre: "ns_pre s" and v: "0 \<le> v" "v < node_limit" "v \<notin> ns_set s"
    and i: "i = probe (length (ns_table s)) v d" "ns_table s ! i \<in> {kEmpty, kDel}"
    and d: "\<forall>d'<d. 0 \<le> ns_table s ! probe (length (ns_table s)) v d'"
  shows "ns_pre (placed s v i)"
proof -
  let ?t = "ns_table s" and ?n = "length (ns_table s)" and ?t' = "(ns_table s)[i := v]"
  note ok = ns_preD(1) [OF pre]
  have il: "i < ?n" using probe_less [OF ok] i(1) by simp
  have neg: "\<not> 0 \<le> ?t ! i" using i(2) by (auto simp: kdefs)
  have vE: "v \<noteq> kEmpty" using v by (simp add: kdefs)
  have cells: "\<forall>e\<in>set ?t'. e = kEmpty \<or> e = kDel \<or> 0 \<le> e \<and> e < node_limit"
    using pre v set_update_subset_insert [of ?t i v] unfolding ns_pre_def by blast
  have "distinct (v # ns_elems s)"
    using ns_preD(3) [OF pre] v(3) by (simp add: ns_set_def)
  then have dis: "distinct (ns_elems (placed s v i))"
    using mset_eq_imp_distinct_iff [OF ns_elems_placed [OF il i(2) v(1)]] by simp
  have occ: "ns_occupied (placed s v i) = length (filter (\<lambda>e. e \<noteq> kEmpty) ?t')"
    using ns_preD(4) [OF pre] il vE length_filter_update [of i ?t "\<lambda>e. e \<noteq> kEmpty" v]
      length_filter_update_same [of i ?t "\<lambda>e. e \<noteq> kEmpty" v] by auto
  have reach: "reached ?t' j" if j: "j < ?n" "0 \<le> ?t' ! j" for j
  proof (cases "j = i")
    case True
    have ne: "?t ! probe ?n v d' \<noteq> kEmpty" if "d' < d" for d'
      using d that by (auto simp: kdefs)
    have ne': "?t' ! probe ?n v d' \<noteq> kEmpty" if "d' < d" for d'
      using ne [OF that] vE il by (cases "probe ?n v d' = i") simp_all
    have at: "?t' ! j = v" using True il by simp
    show ?thesis
      unfolding reached_def length_list_update at
    proof (intro exI [of _ d] conjI allI impI)
      show "probe ?n v d = j" by (rule trans [OF i(1) [symmetric] True [symmetric]])
      show "?t' ! probe ?n v d' \<noteq> kEmpty" if "d' < d" for d' by (rule ne' [OF that])
    qed
  next
    case False
    then have same: "?t' ! j = ?t ! j" by simp
    have "reached ?t j" using ns_preD(5) [OF pre j(1)] j(2) same by simp
    then show ?thesis
      by (rule reached_mono [OF _ _ same _ ok]) (simp_all add: nth_list_update vE il)
  qed
  have dir: "direct ?t'" if sz: "?n = 2 ^ 30"
  proof -
    have "?t ! j < node_limit" if "j < ?n" for j
      using ns_preD(2) [OF pre that] by (auto simp: kdefs node_limit_def)
    then have "\<forall>j<?n. ?t ! j < node_limit" by blast
    moreover have "\<forall>j<?n. ?t ! j \<noteq> v" using v by (auto simp: in_ns_set_conv)
    ultimately show ?thesis
      using direct_place(2) [OF ns_preD(6) [OF pre sz] sz ok v(1,2) _ _ d] i(1) by simp
  qed
  show ?thesis
    unfolding ns_pre_def placed_simps(1)
    using ok cells dis occ reach dir by simp
qed

text \<open>A table of \<open>2 ^ 30\<close> cells never reaches the load at which it would grow.\<close>

lemma direct_load:
  assumes "ns_pre s" "length (ns_table s) = 2 ^ 30"
  shows "ns_occupied s \<le> 2 ^ 29"
proof -
  let ?t = "ns_table s" and ?n = "length (ns_table s)"
  have dir: "direct ?t" by (rule ns_preD(6) [OF assms])
  let ?H = "(\<lambda>v. home ?n (int v)) ` {..<nat node_limit}"
  have "{i. i < ?n \<and> ?t ! i \<noteq> kEmpty} \<subseteq> ?H"
  proof
    fix i assume "i \<in> {i. i < ?n \<and> ?t ! i \<noteq> kEmpty}"
    then obtain v where "0 \<le> v" "v < node_limit" "home ?n v = i"
      using dir by (auto simp: direct_def)
    then show "i \<in> ?H" by (intro image_eqI [of _ _ "nat v"]) auto
  qed
  then have "card {i. i < ?n \<and> ?t ! i \<noteq> kEmpty} \<le> card {..<nat node_limit}"
    by (meson card_image_le card_mono finite_imageI finite_lessThan le_trans)
  then show ?thesis
    using ns_preD(4) [OF assms(1)] by (simp add: length_filter_conv_card node_limit_def)
qed

text \<open>One insertion, whatever \<^verbatim>\<open>Grow\<close> does: the element is present, or it is placed.\<close>

lemma insert_body_found:
  assumes "ns_inv s" "v \<in> ns_set s"
  shows "insert_body g v s = Some (s, False)"
  using find_index_member [OF assms] by (auto simp: insert_body_def)

lemma insert_body_fresh:
  assumes pre: "ns_pre s" and occ: "ns_occupied s < length (ns_table s)"
    and v: "0 \<le> v" "v < node_limit" "v \<notin> ns_set s"
  obtains s' where "ns_pre s'" "ns_set s' = insert v (ns_set s)"
    "length (ns_table s') = length (ns_table s)" "ns_occupied s' \<le> ns_occupied s + 1"
    "\<And>g. insert_body g v s =
       (if length (ns_table s) - length (ns_table s) div 4 \<le> ns_occupied s'
        then map_option (\<lambda>s''. (s'', True)) (g s') else Some (s', True))"
proof -
  let ?n = "length (ns_table s)"
  obtain d where d: "find_index s v = Some (probe ?n v d)"
    "ns_table s ! probe ?n v d \<in> {kEmpty, kDel}"
    "\<forall>d'<d. 0 \<le> ns_table s ! probe ?n v d'"
    using find_index_fresh [OF pre occ v(1,3)] by blast
  define i where "i = probe ?n v d"
  have il: "i < ?n" by (simp add: i_def probe_less [OF ns_preD(1) [OF pre]])
  have ne: "ns_table s ! i \<noteq> v" using d(2) v by (auto simp: i_def kdefs)
  have cell: "ns_table s ! i \<in> {kEmpty, kDel}" using d(2) by (simp add: i_def)
  have body: "insert_body g v s =
       (if ?n - ?n div 4 \<le> ns_occupied (placed s v i)
        then map_option (\<lambda>s''. (s'', True)) (g (placed s v i)) else Some (placed s v i, True))" for g
    using il ne d(1) by (simp add: insert_body_def i_def [symmetric] placed_def Let_def)
  show ?thesis
    using that [of "placed s v i"] ns_pre_placed [OF pre v i_def cell d(3)]
      ns_set_placed [OF il cell v(1)] body by simp
qed

text \<open>The loop of \<^verbatim>\<open>Grow\<close> into a table that is large enough: no nested growth.\<close>

lemma reinsert_spec:
  assumes "ns_inv s" "\<forall>e\<in>set es. e < node_limit"
    "ns_occupied s + length (filter (\<lambda>e. 0 \<le> e) es)
       < length (ns_table s) - length (ns_table s) div 4"
  shows "\<exists>s'. reinsert (insert_upto 0) es s = Some s' \<and> ns_inv s' \<and>
    ns_set s' = ns_set s \<union> set (filter (\<lambda>e. 0 \<le> e) es)"
  using assms
proof (induction es arbitrary: s)
  case Nil
  then show ?case by auto
next
  case (Cons e es)
  note inv = Cons.prems(1)
  consider (neg) "e < 0" | (old) "0 \<le> e" "e \<in> ns_set s" | (new) "0 \<le> e" "e \<notin> ns_set s"
    by linarith
  then show ?case
  proof cases
    case neg
    then show ?thesis using Cons by auto
  next
    case old
    have "\<exists>s'. reinsert (insert_upto 0) es s = Some s' \<and> ns_inv s' \<and>
        ns_set s' = ns_set s \<union> set (filter (\<lambda>e. 0 \<le> e) es)"
      using old Cons.prems by (intro Cons.IH) auto
    then show ?thesis using old by (auto simp: insert_body_found [OF inv])
  next
    case new
    obtain s1 where s1: "ns_pre s1" "ns_set s1 = insert e (ns_set s)"
      "length (ns_table s1) = length (ns_table s)" "ns_occupied s1 \<le> ns_occupied s + 1"
      "\<And>g. insert_body g e s =
       (if length (ns_table s) - length (ns_table s) div 4 \<le> ns_occupied s1
        then map_option (\<lambda>s''. (s'', True)) (g s1) else Some (s1, True))"
      using insert_body_fresh [OF ns_invD [OF inv] new(1) _ new(2)] Cons.prems(2)
      by (metis list.set_intros(1))
    have load: "ns_occupied s1 + length (filter (\<lambda>e. 0 \<le> e) es)
        < length (ns_table s1) - length (ns_table s1) div 4"
      using Cons.prems(3) s1(3,4) new by simp
    then have inv1: "ns_inv s1" using s1(1) by (simp add: ns_inv_def)
    then have "insert_upto 0 e s = Some (s1, True)"
      using s1(3,5) by (simp add: ns_inv_def)
    moreover have "\<exists>s'. reinsert (insert_upto 0) es s1 = Some s' \<and> ns_inv s' \<and>
        ns_set s' = ns_set s1 \<union> set (filter (\<lambda>e. 0 \<le> e) es)"
      using Cons.prems(2) load by (intro Cons.IH inv1) auto
    ultimately show ?thesis using new s1(2) by auto
  qed
qed

lemma ns_inv_fresh_table:
  assumes "size_ok n"
  shows "ns_inv \<lparr>ns_table = replicate n kEmpty, ns_occupied = 0\<rparr>"
    and "ns_set \<lparr>ns_table = replicate n kEmpty, ns_occupied = 0\<rparr> = {}"
  using assms size_ok_bounds(1) [OF assms]
  by (auto simp: ns_inv_def ns_pre_def ns_elems_def ns_set_def kEmpty_def filter_replicate direct_def
      nth_replicate)

lemma grow_spec:
  assumes pre: "ns_pre s" and len: "length (ns_table s) < 2 ^ 30"
  shows "\<exists>s'. grow_body (insert_upto 0) s = Some s' \<and> ns_inv s' \<and> ns_set s' = ns_set s"
proof -
  let ?n = "length (ns_table s)"
  let ?s0 = "\<lparr>ns_table = replicate (2 * ?n) kEmpty, ns_occupied = 0\<rparr>"
  obtain k where k: "3 \<le> k" "k \<le> 30" "?n = 2 ^ k" by (rule size_okE [OF ns_preD(1) [OF pre]])
  have "k < 30"
  proof (rule ccontr)
    assume "\<not> k < 30"
    then have "k = 30" using k(2) by simp
    then show False using k(3) len by simp
  qed
  then have ok2: "size_ok (2 * ?n)"
    unfolding size_ok_def using k by (intro exI [of _ "Suc k"]) simp
  have n2: "unat (word_of_nat ?n * 2 :: u32) = 2 * ?n"
    using len by (simp add: unat_word_ariths unat_of_nat)
  have bound: "\<forall>e\<in>set (ns_table s). e < node_limit"
    using pre unfolding ns_pre_def by (auto simp: kdefs node_limit_def)
  have "?n < 2 * ?n - 2 * ?n div 4"
    using size_ok_bounds(1) [OF ns_preD(1) [OF pre]] by linarith
  from le_less_trans [OF length_filter_le this] have "ns_occupied ?s0 + length (filter (\<lambda>e. 0 \<le> e) (ns_table s))
      < length (ns_table ?s0) - length (ns_table ?s0) div 4" by simp
  from reinsert_spec [OF ns_inv_fresh_table(1) [OF ok2] bound this]
  show ?thesis
    unfolding ns_inv_fresh_table(2) [OF ok2]
    by (simp add: grow_body_def n2 flip: ns_elems_def ns_set_def)
qed

section \<open>The operations against the set they represent\<close>

lemma node_set_insert_spec:
  assumes inv: "ns_inv s" and v: "0 \<le> v" "v < node_limit"
  shows "\<exists>s'. node_set_insert v s = Some (s', v \<notin> ns_set s) \<and> ns_inv s' \<and>
    ns_set s' = insert v (ns_set s)"
proof (cases "v \<in> ns_set s")
  case True
  then show ?thesis
    using inv by (auto simp: node_set_insert_def insert_body_found)
next
  case False
  let ?n = "length (ns_table s)"
  note pre = ns_invD(1) [OF inv]
  obtain s1 where s1: "ns_pre s1" "ns_set s1 = insert v (ns_set s)"
    "length (ns_table s1) = ?n" "ns_occupied s1 \<le> ns_occupied s + 1"
    "\<And>g. insert_body g v s =
       (if ?n - ?n div 4 \<le> ns_occupied s1
        then map_option (\<lambda>s''. (s'', True)) (g s1) else Some (s1, True))"
    by (rule insert_body_fresh [OF ns_invD [OF inv] v False]) (blast intro: that)
  show ?thesis
  proof (cases "?n - ?n div 4 \<le> ns_occupied s1")
    case True
    have "?n \<noteq> 2 ^ 30"
    proof
      assume n: "?n = 2 ^ 30"
      then have "ns_occupied s1 \<le> 2 ^ 29" using direct_load [OF s1(1)] s1(3) by simp
      then show False using True n by simp
    qed
    then have "length (ns_table s1) < 2 ^ 30"
      using size_ok_bounds(2) [OF ns_preD(1) [OF pre]] s1(3) by simp
    then obtain s' where "grow_body (insert_upto 0) s1 = Some s'" "ns_inv s'" "ns_set s' = ns_set s1"
      using grow_spec [OF s1(1)] by blast
    then show ?thesis
      using True False s1 by (simp add: node_set_insert_def)
  next
    case nogrow: False
    then have "ns_inv s1" using s1 by (simp add: ns_inv_def)
    then show ?thesis
      using nogrow False s1 by (simp add: node_set_insert_def)
  qed
qed

lemma node_set_contains_spec:
  assumes inv: "ns_inv s" and v: "0 \<le> v"
  shows "node_set_contains s v = Some (v \<in> ns_set s)"
proof (cases "v \<in> ns_set s")
  case True
  then show ?thesis
    using find_index_member [OF inv True] by (auto simp: node_set_contains_def)
next
  case False
  obtain d where "find_index s v = Some (probe (length (ns_table s)) v d)"
    "ns_table s ! probe (length (ns_table s)) v d \<in> {kEmpty, kDel}"
    using find_index_fresh [OF ns_invD [OF inv] v False] by blast
  then show ?thesis
    using v False probe_less [OF ns_preD(1) [OF ns_invD(1) [OF inv]]]
    by (auto simp: node_set_contains_def kdefs)
qed

text \<open>Erasing leaves a tombstone, which counts as occupied and keeps every probe sequence.\<close>

lemma node_set_erase_spec:
  assumes inv: "ns_inv s" and v: "0 \<le> v"
  shows "\<exists>s'. node_set_erase v s = Some s' \<and> ns_inv s' \<and> ns_set s' = ns_set s - {v}"
proof (cases "v \<in> ns_set s")
  case False
  note pre = ns_invD(1) [OF inv]
  obtain d where d: "find_index s v = Some (probe (length (ns_table s)) v d)"
    "ns_table s ! probe (length (ns_table s)) v d \<in> {kEmpty, kDel}"
    using find_index_fresh [OF ns_invD [OF inv] v False] by blast
  moreover have "ns_table s ! probe (length (ns_table s)) v d \<noteq> v" using d(2) v by (auto simp: kdefs)
  ultimately have "node_set_erase v s = Some s"
    using probe_less [OF ns_preD(1) [OF pre]] by (simp add: node_set_erase_def)
  then show ?thesis using inv False by auto
next
  case True
  let ?t = "ns_table s"
  note pre = ns_invD(1) [OF inv]
  note ok = ns_preD(1) [OF pre]
  obtain i where i: "i < length ?t" "find_index s v = Some i" "?t ! i = v"
    using find_index_member [OF inv True] by blast
  define s' where "s' = s\<lparr>ns_table := ?t[i := kDel]\<rparr>"
  have er: "node_set_erase v s = Some s'" using i by (simp add: node_set_erase_def s'_def)
  have el: "mset (v # ns_elems s') = mset (ns_elems s)"
    using mset_filter_update_del [of i ?t "\<lambda>e. 0 \<le> e" kDel] i v by (simp add: ns_elems_def s'_def kdefs)
  have dis: "distinct (v # ns_elems s')"
    using ns_preD(3) [OF pre] mset_eq_imp_distinct_iff [OF el] by simp
  have set: "ns_set s' = ns_set s - {v}"
    using arg_cong [OF el, of set_mset] dis by (auto simp: ns_set_def)
  have mono: "?t[i := kDel] ! c \<noteq> kEmpty" if "c < length ?t" "?t ! c \<noteq> kEmpty" for c
    using that i by (cases "c = i") (simp_all add: kdefs)
  have occ: "ns_occupied s' = length (filter (\<lambda>e. e \<noteq> kEmpty) (ns_table s'))"
    using ns_preD(4) [OF pre] i v length_filter_update_same [of i ?t "\<lambda>e. e \<noteq> kEmpty" kDel]
    by (simp add: s'_def kdefs)
  have cells: "\<forall>e\<in>set (ns_table s'). e = kEmpty \<or> e = kDel \<or> 0 \<le> e \<and> e < node_limit"
    using pre set_update_subset_insert [of ?t i kDel] unfolding ns_pre_def s'_def by auto
  have reach: "reached (ns_table s') j" if "j < length ?t" "0 \<le> ns_table s' ! j" for j
  proof -
    have "j \<noteq> i" using that i by (auto simp: s'_def kdefs)
    then have same: "ns_table s' ! j = ?t ! j" by (simp add: s'_def)
    show ?thesis
      by (rule reached_mono [OF ns_preD(5) [OF pre that(1)] _ same _ ok])
        (use that(2) same mono in \<open>simp_all add: s'_def\<close>)
  qed
  have dir: "direct (ns_table s')" if "length ?t = 2 ^ 30"
    using ns_preD(6) [OF pre that] i v
    by (auto simp: direct_def s'_def nth_list_update kdefs)
  have "ns_pre s'"
    unfolding ns_pre_def using ok cells dis occ reach dir by (auto simp: s'_def)
  then have "ns_inv s'" using inv by (simp add: ns_inv_def s'_def)
  then show ?thesis using er set by blast
qed

lemma size_ok_kInline: "size_ok kInline"
  unfolding size_ok_def kInline_def by (intro exI [of _ 3]) simp

lemma node_set_empty_spec: "ns_inv node_set_empty" "ns_set node_set_empty = {}"
  unfolding node_set_empty_def by (rule ns_inv_fresh_table [OF size_ok_kInline])+

lemma ns_elems_distinct: "ns_inv s \<Longrightarrow> distinct (ns_elems s)"
  by (rule ns_preD(3) [OF ns_invD(1)])

lemma set_ns_elems [simp]: "set (ns_elems s) = ns_set s"
  by (simp add: ns_set_def)

text \<open>
  \<open>node_set_walk\<close> is the macro \<^verbatim>\<open>HASH_FOR_EACH\<close>: it calls \<^verbatim>\<open>Next\<close> until no element is left.
\<close>

lemma node_set_next_mono:
  "node_set_next s c = (c', Some v) \<Longrightarrow> c < c' \<and> c' \<le> length (ns_table s)"
proof (induction "length (ns_table s) - c" arbitrary: c)
  case 0
  then show ?case by (simp add: node_set_next.simps [of s c])
next
  case (Suc m)
  then have c: "c < length (ns_table s)" "m = length (ns_table s) - Suc c" by linarith+
  show ?case
    using Suc(1) [OF c(2)] Suc(3) c(1)
    by (auto simp: node_set_next.simps [of s c] Let_def split: if_splits)
qed

function node_set_walk :: "node_set \<Rightarrow> nat \<Rightarrow> int list" where
  "node_set_walk s c =
     (case node_set_next s c of
        (c', Some v) \<Rightarrow> v # node_set_walk s c'
      | (c', None) \<Rightarrow> [])"
  by pat_completeness auto
termination
  by (relation "measure (\<lambda>(s, c). length (ns_table s) - c)")
    (auto dest!: node_set_next_mono [OF sym])

declare node_set_walk.simps [simp del]

lemma node_set_walk_drop: "node_set_walk s c = filter (\<lambda>e. 0 \<le> e) (drop c (ns_table s))"
proof (induction "length (ns_table s) - c" arbitrary: c)
  case 0
  then have "node_set_next s c = (c, None)" by (simp add: node_set_next.simps [of s c])
  then have "node_set_walk s c = []" by (subst node_set_walk.simps) simp
  then show ?case using 0 by simp
next
  case (Suc m)
  then have c: "c < length (ns_table s)" "m = length (ns_table s) - Suc c" by linarith+
  have d: "drop c (ns_table s) = ns_table s ! c # drop (Suc c) (ns_table s)"
    by (rule Cons_nth_drop_Suc [symmetric]) (rule c)
  note IH = Suc(1) [OF c(2)]
  show ?case
  proof (cases "0 \<le> ns_table s ! c")
    case True
    then have "node_set_next s c = (Suc c, Some (ns_table s ! c))"
      using c(1) by (simp add: node_set_next.simps [of s c])
    then have "node_set_walk s c = ns_table s ! c # node_set_walk s (Suc c)"
      by (subst node_set_walk.simps) simp
    then show ?thesis using IH True by (simp add: d)
  next
    case False
    then have "node_set_next s c = node_set_next s (Suc c)"
      using c(1) by (subst node_set_next.simps) simp
    then have "node_set_walk s c = node_set_walk s (Suc c)"
      by (subst (1 2) node_set_walk.simps) simp
    then show ?thesis using IH False by (simp add: d)
  qed
qed

corollary node_set_walk_elems: "node_set_walk s 0 = ns_elems s"
  by (simp add: node_set_walk_drop ns_elems_def)

section \<open>The interface: a set of indices\<close>

text \<open>
  What the graph needs of a set of node indices. \<open>insert_new\<close> is the loop of \<^verbatim>\<open>FindPath\<close> over the
  successors of a node: it inserts each index and collects those that were new.
\<close>

fun insert_new :: "(int \<Rightarrow> 's \<Rightarrow> ('s \<times> bool) option) \<Rightarrow> int list \<Rightarrow> 's \<Rightarrow> int list \<Rightarrow>
    ('s \<times> int list) option" where
  "insert_new ins [] s acc = Some (s, acc)"
| "insert_new ins (w # ws) s acc =
     Option.bind (ins w s) (\<lambda>(s', fresh).
       insert_new ins ws s' (if fresh then acc @ [w] else acc))"

locale index_set =
  fixes ins :: "int \<Rightarrow> 's \<Rightarrow> ('s \<times> bool) option"
    and del :: "int \<Rightarrow> 's \<Rightarrow> 's option"
    and has :: "'s \<Rightarrow> int \<Rightarrow> bool option"
    and elems :: "'s \<Rightarrow> int list"
    and valid :: "'s \<Rightarrow> bool"
  assumes ins_law: "valid s \<Longrightarrow> 0 \<le> v \<Longrightarrow> v < node_limit \<Longrightarrow>
      \<exists>s'. ins v s = Some (s', v \<notin> set (elems s)) \<and> valid s' \<and>
        set (elems s') = insert v (set (elems s))"
    and del_law: "valid s \<Longrightarrow> 0 \<le> v \<Longrightarrow>
      \<exists>s'. del v s = Some s' \<and> valid s' \<and> set (elems s') = set (elems s) - {v}"
    and has_law: "valid s \<Longrightarrow> 0 \<le> v \<Longrightarrow> has s v = Some (v \<in> set (elems s))"
    and elems_law: "valid s \<Longrightarrow> distinct (elems s) \<and> set (elems s) \<subseteq> {0..<node_limit}"
begin

lemma ins_has:
  assumes "valid s" "0 \<le> v" "v < node_limit" "0 \<le> w"
  shows "\<exists>s' b. ins v s = Some (s', b) \<and> has s' w = Some (w = v \<or> w \<in> set (elems s))"
  using ins_law [OF assms(1-3)] has_law [OF _ assms(4)] by fastforce

lemma ins_del:
  assumes "valid s" "0 \<le> v" "v < node_limit" "v \<notin> set (elems s)"
  shows "\<exists>s' s''. ins v s = Some (s', True) \<and> del v s' = Some s'' \<and> valid s'' \<and>
    set (elems s'') = set (elems s)"
proof -
  obtain s' where "ins v s = Some (s', True)" "valid s'" "set (elems s') = insert v (set (elems s))"
    using ins_law [OF assms(1-3)] assms(4) by auto
  then show ?thesis using del_law [of s' v] assms(2,4) by fastforce
qed

lemma insert_new_spec:
  assumes "valid s" "distinct ws" "set ws \<subseteq> {0..<node_limit}"
  shows "\<exists>s'. insert_new ins ws s acc = Some (s', acc @ filter (\<lambda>w. w \<notin> set (elems s)) ws) \<and>
    valid s' \<and> set (elems s') = set (elems s) \<union> set ws"
  using assms
proof (induction ws arbitrary: s acc)
  case Nil
  then show ?case by simp
next
  case (Cons w ws)
  obtain s1 where s1: "ins w s = Some (s1, w \<notin> set (elems s))" "valid s1"
    "set (elems s1) = insert w (set (elems s))"
    using ins_law [OF Cons.prems(1), of w] Cons.prems(3) by auto
  have same: "filter (\<lambda>v. v \<notin> set (elems s1)) ws = filter (\<lambda>v. v \<notin> set (elems s)) ws"
    using s1(3) Cons.prems(2) by (intro filter_cong) auto
  obtain s' where "insert_new ins ws s1 (if w \<notin> set (elems s) then acc @ [w] else acc)
      = Some (s', (if w \<notin> set (elems s) then acc @ [w] else acc)
          @ filter (\<lambda>v. v \<notin> set (elems s)) ws)"
    "valid s'" "set (elems s') = set (elems s1) \<union> set ws"
    using Cons.IH [OF s1(2)] Cons.prems(2,3) unfolding same
    by (metis distinct.simps(2) insert_subset list.simps(15))
  then show ?case
    using s1(1,3) by auto
qed

end

lemma ns_set_bounds: "ns_inv s \<Longrightarrow> ns_set s \<subseteq> {0..<node_limit}"
  using ns_set_range [OF ns_invD(1)] by auto

interpretation ns: index_set node_set_insert node_set_erase node_set_contains ns_elems ns_inv
  by unfold_locales
    (simp_all add: node_set_insert_spec node_set_erase_spec node_set_contains_spec ns_elems_distinct
      ns_set_bounds)

section \<open>Properties\<close>

text \<open>C12: Inserting a node index into a NodeSet returns whatever the size of the table (inline,
  hashed, or grown on the way), adds exactly that index to the set, answers whether it was new, and
  keeps the invariant of the open-addressing table.\<close>

theorem node_set_insert_adds:
  assumes "ns_inv s" "0 \<le> v" "v < node_limit"
  shows "\<exists>s'. node_set_insert v s = Some (s', v \<notin> ns_set s) \<and> ns_inv s' \<and>
    ns_set s' = insert v (ns_set s)"
  by (rule node_set_insert_spec [OF assms])

theorem node_set_insert_adds_witness:
  "\<exists>s'. node_set_insert 5 node_set_empty = Some (s', True) \<and> ns_inv s' \<and> ns_set s' = {5}"
  using node_set_insert_adds [of node_set_empty 5]
  by (simp add: node_set_empty_spec node_limit_def)

text \<open>Erasing after a fresh insertion gives back the set that was there before, although the table
  keeps a tombstone.\<close>

theorem node_set_insert_erase_roundtrip:
  assumes "ns_inv s" "0 \<le> v" "v < node_limit" "v \<notin> ns_set s"
  shows "\<exists>s' s''. node_set_insert v s = Some (s', True) \<and> node_set_erase v s' = Some s'' \<and>
    ns_inv s'' \<and> ns_set s'' = ns_set s"
  using ns.ins_del [OF assms(1-3)] assms(4) by (simp add: ns_elems_distinct)

theorem node_set_insert_erase_roundtrip_witness:
  "\<exists>s' s''. node_set_insert 9 node_set_empty = Some (s', True) \<and> node_set_erase 9 s' = Some s'' \<and>
    ns_set s'' = {}"
  using node_set_insert_erase_roundtrip [of node_set_empty 9]
  by (auto simp: node_set_empty_spec node_limit_def)

text \<open>Iterating over a NodeSet with HASH_FOR_EACH ends and visits every element exactly once.\<close>

theorem node_set_walk_visits_once:
  assumes "ns_inv s"
  shows "set (node_set_walk s 0) = ns_set s \<and> distinct (node_set_walk s 0)"
  using ns_elems_distinct [OF assms] by (simp add: node_set_walk_elems)

theorem node_set_walk_visits_once_witness:
  "set (node_set_walk node_set_empty 0) = {}"
  using node_set_walk_visits_once [of node_set_empty] by (simp add: node_set_empty_spec)

end
