(* ===== verification/Pointer_Map.thy ===== *)
theory Pointer_Map
  imports Held_Locks Node_Set
begin

text \<open>
  Graph nodes, graph ids and the pointer hash table of
  \<^verbatim>\<open>buginsight_dll/graphcycles/graphcycles.cc\<close>: \<^verbatim>\<open>MakeId\<close>, \<^verbatim>\<open>NodeIndex\<close>, \<^verbatim>\<open>NodeVersion\<close>,
  \<^verbatim>\<open>struct Node\<close> and \<^verbatim>\<open>class PointerMap\<close>. The hash chains are linked through \<^verbatim>\<open>next_hash\<close> of
  the nodes; \<open>pm_inv\<close> says that they hold exactly the live nodes, and under it the table is the
  partial function from pointers to indices.
\<close>

section \<open>Graph ids\<close>

definition make_id :: "int \<Rightarrow> u32 \<Rightarrow> u64" where
  "make_id index version = push_bit 32 (ucast version) OR ucast (word_of_int index :: u32)"

definition node_index :: "u64 \<Rightarrow> int" where
  "node_index g = sint (ucast g :: u32)"

definition node_version :: "u64 \<Rightarrow> u32" where
  "node_version g = ucast (drop_bit 32 g)"

lemma node_version_make_id [simp]: "node_version (make_id i v) = v"
  by (rule bit_word_eqI)
    (auto simp: node_version_def make_id_def bit_simps)

lemma node_index_make_id: "0 \<le> i \<Longrightarrow> i < 2 ^ 31 \<Longrightarrow> node_index (make_id i v) = i"
proof -
  assume i: "0 \<le> i" "i < 2 ^ 31"
  have "ucast (make_id i v) = (word_of_int i :: u32)"
    by (rule bit_word_eqI) (auto simp: make_id_def bit_simps)
  then show ?thesis using i32_id [OF i] by (simp add: node_index_def i32_def)
qed

lemma make_id_inverse: "make_id (node_index g) (node_version g) = g"
proof (rule bit_word_eqI)
  fix n assume "n < LENGTH(64)"
  then show "bit (make_id (node_index g) (node_version g)) n = bit g n"
    by (cases "n < 32") (auto simp: make_id_def node_index_def node_version_def bit_simps)
qed

section \<open>Nodes\<close>

text \<open>\<^verbatim>\<open>callstack_t\<close> holds \<^verbatim>\<open>m_size\<close> valid frames: the list of these.\<close>

record node =
  n_rank :: int
  n_version :: u32
  n_next :: int
  n_visited :: bool
  n_ptr :: ptr
  n_in :: node_set
  n_out :: node_set
  n_priority :: int
  n_callstack :: "ptr list"
  n_hold_count :: u8
  n_hold_locks :: "lock_entry list"
  n_thread :: tid

definition node_init :: node where
  "node_init = \<lparr>n_rank = 0, n_version = 0, n_next = 0, n_visited = False, n_ptr = 0,
     n_in = node_set_empty, n_out = node_set_empty, n_priority = 0, n_callstack = [],
     n_hold_count = 0, n_hold_locks = replicate max_locks no_lock, n_thread = 0\<rparr>"

section \<open>The pointer map\<close>

definition kHashTableSize :: nat where
  "kHashTableSize = 8171"

definition ptr_hash :: "ptr \<Rightarrow> nat" where
  "ptr_hash p = unat p mod kHashTableSize"

text \<open>The array of list heads is a function of the bucket; \<open>-1\<close> ends a list.\<close>

type_synonym heads = "nat \<Rightarrow> int"

definition empty_heads :: heads where
  "empty_heads = (\<lambda>_. -1)"

partial_function (option) chain_find :: "node list \<Rightarrow> ptr \<Rightarrow> int \<Rightarrow> int option" where
  "chain_find nodes p i =
     (if i = -1 then Some (-1)
      else Option.bind (vec_get nodes (idx i)) (\<lambda>n.
        if n_ptr n = p then Some i else chain_find nodes p (n_next n)))"

definition pm_find :: "node list \<Rightarrow> heads \<Rightarrow> ptr \<Rightarrow> int option" where
  "pm_find nodes ht p = chain_find nodes p (ht (ptr_hash p))"

definition pm_add :: "ptr \<Rightarrow> int \<Rightarrow> node list \<Rightarrow> heads \<Rightarrow> (node list \<times> heads) option" where
  "pm_add p i nodes ht =
     Option.bind (vec_get nodes (idx i)) (\<lambda>n.
       Some (nodes[idx i := n\<lparr>n_next := ht (ptr_hash p)\<rparr>], ht(ptr_hash p := i)))"

text \<open>The pointer \<^verbatim>\<open>int32_t* slot\<close> is the head of a bucket or the \<^verbatim>\<open>next_hash\<close> of a node.\<close>

datatype slot = Head nat | Next_Of nat

fun read_slot :: "node list \<Rightarrow> heads \<Rightarrow> slot \<Rightarrow> int option" where
  "read_slot nodes ht (Head b) = Some (ht b)"
| "read_slot nodes ht (Next_Of k) = map_option n_next (vec_get nodes k)"

fun write_slot :: "node list \<Rightarrow> heads \<Rightarrow> slot \<Rightarrow> int \<Rightarrow> node list \<times> heads" where
  "write_slot nodes ht (Head b) j = (nodes, ht(b := j))"
| "write_slot nodes ht (Next_Of k) j = (nodes[k := (nodes ! k)\<lparr>n_next := j\<rparr>], ht)"

partial_function (option) chain_remove ::
  "node list \<Rightarrow> heads \<Rightarrow> ptr \<Rightarrow> slot \<Rightarrow> (node list \<times> heads \<times> int) option" where
  "chain_remove nodes ht p s =
     Option.bind (read_slot nodes ht s) (\<lambda>i.
       if i = -1 then Some (nodes, ht, -1)
       else Option.bind (vec_get nodes (idx i)) (\<lambda>n.
         if n_ptr n = p then
           (let (nodes', ht') = write_slot nodes ht s (n_next n)
            in Some (nodes'[idx i := (nodes' ! idx i)\<lparr>n_next := -1\<rparr>], ht', i))
         else chain_remove nodes ht p (Next_Of (idx i))))"

definition pm_remove :: "ptr \<Rightarrow> node list \<Rightarrow> heads \<Rightarrow> (node list \<times> heads \<times> int) option" where
  "pm_remove p nodes ht = chain_remove nodes ht p (Head (ptr_hash p))"

section \<open>Chains\<close>

fun seg :: "node list \<Rightarrow> int \<Rightarrow> nat list \<Rightarrow> int \<Rightarrow> bool" where
  "seg nodes i [] j = (i = j)"
| "seg nodes i (x # xs) j = (i = int x \<and> x < length nodes \<and> seg nodes (n_next (nodes ! x)) xs j)"

definition pm_inv :: "node list \<Rightarrow> heads \<Rightarrow> nat set \<Rightarrow> bool" where
  "pm_inv nodes ht live \<longleftrightarrow>
     (\<exists>cs. (\<forall>b. seg nodes (ht b) (cs b) (-1) \<and> distinct (cs b) \<and>
              (\<forall>x\<in>set (cs b). ptr_hash (n_ptr (nodes ! x)) = b)) \<and>
           (\<Union>b. set (cs b)) = live) \<and>
     inj_on (\<lambda>x. n_ptr (nodes ! x)) live"

lemma seg_append: "seg nodes i (xs @ ys) j \<longleftrightarrow> (\<exists>k. seg nodes i xs k \<and> seg nodes k ys j)"
  by (induction xs arbitrary: i) auto

lemma seg_less: "seg nodes i xs j \<Longrightarrow> x \<in> set xs \<Longrightarrow> x < length nodes"
  by (induction xs arbitrary: i) auto

lemma seg_frame:
  assumes "seg nodes i xs j" "length nodes' = length nodes"
    "\<And>x. x \<in> set xs \<Longrightarrow> n_next (nodes' ! x) = n_next (nodes ! x)"
  shows "seg nodes' i xs j"
  using assms by (induction xs arbitrary: i) auto

lemma pm_inv_less: "pm_inv nodes ht live \<Longrightarrow> x \<in> live \<Longrightarrow> x < length nodes"
  unfolding pm_inv_def by (metis UN_E seg_less)

lemma pm_inv_empty: "pm_inv [] empty_heads {}"
  unfolding pm_inv_def empty_heads_def by (auto intro!: exI [of _ "\<lambda>_. []"])

lemma chain_find_seg:
  assumes "seg nodes i xs (-1)" "length nodes < 2 ^ 31"
  shows "chain_find nodes p i =
    Some (case filter (\<lambda>x. n_ptr (nodes ! x) = p) xs of [] \<Rightarrow> -1 | x # _ \<Rightarrow> int x)"
  using assms
proof (induction xs arbitrary: i)
  case Nil
  then show ?case by (simp add: chain_find.simps)
next
  case (Cons x xs)
  then show ?case
    by (subst chain_find.simps) (simp add: idx_of_nat)
qed

lemma pm_find_spec:
  assumes inv: "pm_inv nodes ht live" and len: "length nodes < 2 ^ 31"
  shows "x \<in> live \<Longrightarrow> n_ptr (nodes ! x) = p \<Longrightarrow> pm_find nodes ht p = Some (int x)"
    and "\<forall>x\<in>live. n_ptr (nodes ! x) \<noteq> p \<Longrightarrow> pm_find nodes ht p = Some (-1)"
proof -
  obtain cs where cs: "\<And>b. seg nodes (ht b) (cs b) (-1)" "\<And>b. distinct (cs b)"
    "\<And>b x. x \<in> set (cs b) \<Longrightarrow> ptr_hash (n_ptr (nodes ! x)) = b" "(\<Union>b. set (cs b)) = live"
    and inj: "inj_on (\<lambda>x. n_ptr (nodes ! x)) live"
    using inv unfolding pm_inv_def by blast
  let ?f = "filter (\<lambda>x. n_ptr (nodes ! x) = p) (cs (ptr_hash p))"
  have res: "pm_find nodes ht p = Some (case ?f of [] \<Rightarrow> -1 | x # _ \<Rightarrow> int x)"
    unfolding pm_find_def by (rule chain_find_seg [OF cs(1) len])
  show "pm_find nodes ht p = Some (-1)" if "\<forall>x\<in>live. n_ptr (nodes ! x) \<noteq> p"
  proof -
    have "?f = []" using that cs(4) by (auto simp: filter_empty_conv)
    then show ?thesis using res by simp
  qed
  show "pm_find nodes ht p = Some (int x)" if x: "x \<in> live" "n_ptr (nodes ! x) = p"
  proof -
    have "x \<in> set (cs (ptr_hash p))" using x cs(3,4) by auto
    then have "x \<in> set ?f" using x by simp
    then obtain y ys where f: "?f = y # ys" by (cases ?f) auto
    then have "y \<in> set ?f" by simp
    then have "y \<in> live" "n_ptr (nodes ! y) = p" using cs(4) by auto
    then have "y = x" using inj x by (auto dest: inj_onD)
    then show ?thesis using res f by simp
  qed
qed

text \<open>Adding a node that is in no chain puts it at the head of its bucket.\<close>

lemma pm_add_spec:
  assumes inv: "pm_inv nodes ht live" and len: "length nodes < 2 ^ 31"
    and x: "x < length nodes" "x \<notin> live" "n_ptr (nodes ! x) = p"
    and fresh: "\<forall>y\<in>live. n_ptr (nodes ! y) \<noteq> p"
  shows "\<exists>ht'. pm_add p (int x) nodes ht =
      Some (nodes[x := (nodes ! x)\<lparr>n_next := ht (ptr_hash p)\<rparr>], ht') \<and>
    pm_inv (nodes[x := (nodes ! x)\<lparr>n_next := ht (ptr_hash p)\<rparr>]) ht' (insert x live)"
proof -
  let ?b = "ptr_hash p"
  let ?nodes = "nodes[x := (nodes ! x)\<lparr>n_next := ht ?b\<rparr>]" and ?ht = "ht(?b := int x)"
  obtain cs where cs: "\<And>b. seg nodes (ht b) (cs b) (-1)" "\<And>b. distinct (cs b)"
    "\<And>b x. x \<in> set (cs b) \<Longrightarrow> ptr_hash (n_ptr (nodes ! x)) = b" "(\<Union>b. set (cs b)) = live"
    and inj: "inj_on (\<lambda>x. n_ptr (nodes ! x)) live"
    using inv unfolding pm_inv_def by blast
  have notin: "x \<notin> set (cs b)" for b using cs(4) x(2) by blast
  have ptrs: "n_ptr (?nodes ! y) = n_ptr (nodes ! y)" for y
    using x(1) by (cases "y = x") simp_all
  have old: "seg ?nodes (ht b) (cs b) (-1)" for b
    by (rule seg_frame [OF cs(1)]) (simp_all, metis notin nth_list_update_neq)
  have "pm_inv ?nodes ?ht (insert x live)"
    unfolding pm_inv_def ptrs
  proof (intro conjI exI [of _ "cs(?b := x # cs ?b)"] allI)
    fix b
    show "seg ?nodes (?ht b) ((cs(?b := x # cs ?b)) b) (-1)"
      using old x(1) by (cases "b = ?b") simp_all
    show "distinct ((cs(?b := x # cs ?b)) b)" using cs(2) notin by simp
    show "\<forall>y\<in>set ((cs(?b := x # cs ?b)) b). ptr_hash (n_ptr (nodes ! y)) = b"
      using cs(3) x(3) by simp
  next
    show "(\<Union>b. set ((cs(?b := x # cs ?b)) b)) = insert x live"
      using cs(4) by (auto split: if_splits)
    show "inj_on (\<lambda>x. n_ptr (nodes ! x)) (insert x live)"
      using inj fresh x(3) by (auto simp: inj_on_def)
  qed
  then show ?thesis
    using x(1) len by (simp add: pm_add_def idx_of_nat)
qed


section \<open>Removing\<close>

text \<open>The two cases of unlinking node \<open>x\<close>: at the head of its bucket or behind node \<open>w\<close>.\<close>

definition unlink_nodes :: "node list \<Rightarrow> nat list \<Rightarrow> nat \<Rightarrow> node list" where
  "unlink_nodes nodes a x =
     (if a = [] then nodes else nodes[last a := (nodes ! last a)\<lparr>n_next := n_next (nodes ! x)\<rparr>])
       [x := (nodes ! x)\<lparr>n_next := -1\<rparr>]"

definition unlink_head :: "node list \<Rightarrow> heads \<Rightarrow> nat \<Rightarrow> nat list \<Rightarrow> nat \<Rightarrow> heads" where
  "unlink_head nodes ht b a x = (if a = [] then ht(b := n_next (nodes ! x)) else ht)"

lemma chain_remove_seg:
  assumes len: "length nodes < 2 ^ 31"
    and seg: "seg nodes (ht b) (a @ xs) (-1)" "distinct (a @ xs)"
  shows "chain_remove nodes ht p (if a = [] then Head b else Next_Of (last a)) =
    (case dropWhile (\<lambda>x. n_ptr (nodes ! x) \<noteq> p) xs of
       [] \<Rightarrow> Some (nodes, ht, -1)
     | x # _ \<Rightarrow> let a' = a @ takeWhile (\<lambda>x. n_ptr (nodes ! x) \<noteq> p) xs
         in Some (unlink_nodes nodes a' x, unlink_head nodes ht b a' x, int x))"
  using seg
proof (induction xs arbitrary: a)
  case Nil
  have "read_slot nodes ht (if a = [] then Head b else Next_Of (last a)) = Some (-1)"
    using Nil by (cases a rule: rev_cases) (auto simp: seg_append)
  then show ?case by (subst chain_remove.simps) simp
next
  case (Cons x xs)
  have x: "x < length nodes" using seg_less [OF Cons.prems(1)] by simp
  have rd: "read_slot nodes ht (if a = [] then Head b else Next_Of (last a)) = Some (int x)"
    using Cons.prems(1) by (cases a rule: rev_cases) (auto simp: seg_append)
  show ?case
  proof (cases "n_ptr (nodes ! x) = p")
    case True
    have "a \<noteq> [] \<Longrightarrow> last a \<noteq> x" using Cons.prems(2) last_in_set [of a] by auto
    then show ?thesis
      using rd x len True
      by (subst chain_remove.simps) (auto simp: idx_of_nat unlink_nodes_def unlink_head_def Let_def)
  next
    case False
    have "chain_remove nodes ht p (if a = [] then Head b else Next_Of (last a))
        = chain_remove nodes ht p (Next_Of x)"
      using rd x len False by (subst chain_remove.simps) (simp add: idx_of_nat)
    moreover have "chain_remove nodes ht p (if a @ [x] = [] then Head b else Next_Of (last (a @ [x]))) =
      (case dropWhile (\<lambda>x. n_ptr (nodes ! x) \<noteq> p) xs of
         [] \<Rightarrow> Some (nodes, ht, -1)
       | y # _ \<Rightarrow> let a' = (a @ [x]) @ takeWhile (\<lambda>x. n_ptr (nodes ! x) \<noteq> p) xs
           in Some (unlink_nodes nodes a' y, unlink_head nodes ht b a' y, int y))"
      by (rule Cons.IH) (use Cons.prems in auto)
    moreover have "takeWhile (\<lambda>x. n_ptr (nodes ! x) \<noteq> p) (x # xs)
        = x # takeWhile (\<lambda>x. n_ptr (nodes ! x) \<noteq> p) xs"
      "dropWhile (\<lambda>x. n_ptr (nodes ! x) \<noteq> p) (x # xs) = dropWhile (\<lambda>x. n_ptr (nodes ! x) \<noteq> p) xs"
      using False by simp_all
    ultimately show ?thesis by (simp only: append_assoc append.simps) simp
  qed
qed

lemma seg_unlink:
  assumes seg: "seg nodes (ht b) (a @ x # c) (-1)" and dis: "distinct (a @ x # c)"
  shows "seg (unlink_nodes nodes a x) (unlink_head nodes ht b a x b) (a @ c) (-1)"
proof (cases a rule: rev_cases)
  case Nil
  have "seg nodes (n_next (nodes ! x)) c (-1)" using seg Nil by simp
  then have "seg (unlink_nodes nodes [] x) (n_next (nodes ! x)) c (-1)"
    by (rule seg_frame) (use dis Nil in \<open>auto simp: unlink_nodes_def nth_upd\<close>)
  then show ?thesis by (simp add: Nil unlink_head_def)
next
  case (snoc a' w)
  let ?n = "unlink_nodes nodes a x"
  have "seg nodes (ht b) a' (int w)" "w < length nodes" "x < length nodes"
    and tail: "seg nodes (n_next (nodes ! x)) c (-1)"
    using seg by (auto simp: snoc seg_append)
  note s = this
  have neq: "w \<noteq> x" "w \<notin> set a'" "x \<notin> set a'" "w \<notin> set c" "x \<notin> set c" using dis snoc by auto
  have next_w: "n_next (?n ! w) = n_next (nodes ! x)" "length ?n = length nodes"
    using s neq by (simp_all add: unlink_nodes_def snoc)
  have fr: "n_next (?n ! y) = n_next (nodes ! y)" if "y \<noteq> w" "y \<noteq> x" for y
    using that by (simp add: unlink_nodes_def snoc)
  have "seg ?n (ht b) a' (int w)"
    by (rule seg_frame [OF s(1) next_w(2)]) (use neq fr in metis)
  moreover have "seg ?n (n_next (nodes ! x)) c (-1)"
    by (rule seg_frame [OF tail next_w(2)]) (use neq fr in metis)
  ultimately show ?thesis
    using next_w s(2) by (simp add: snoc seg_append unlink_head_def)
qed

definition forget_next :: "node \<Rightarrow> node" where
  "forget_next n = n\<lparr>n_next := 0\<rparr>"

lemma forget_next_unlink:
  "map forget_next (unlink_nodes nodes a x) = map forget_next nodes"
  unfolding unlink_nodes_def
  by (rule nth_equalityI) (simp_all add: nth_upd forget_next_def split: if_splits)

lemma pm_remove_absent:
  assumes inv: "pm_inv nodes ht live" and len: "length nodes < 2 ^ 31"
    and no: "\<forall>x\<in>live. n_ptr (nodes ! x) \<noteq> p"
  shows "pm_remove p nodes ht = Some (nodes, ht, -1)"
proof -
  obtain cs where cs: "\<And>b. seg nodes (ht b) (cs b) (-1)" "\<And>b. distinct (cs b)"
    "(\<Union>b. set (cs b)) = live"
    using inv unfolding pm_inv_def by blast
  have dw: "dropWhile (\<lambda>x. n_ptr (nodes ! x) \<noteq> p) (cs (ptr_hash p)) = []"
    using no cs(3) by (auto simp: dropWhile_eq_Nil_conv)
  show ?thesis
    using chain_remove_seg [OF len, of ht "ptr_hash p" "[]" "cs (ptr_hash p)" p] cs(1,2)
    unfolding dw pm_remove_def by simp
qed

lemma pm_remove_spec:
  assumes inv: "pm_inv nodes ht live" and len: "length nodes < 2 ^ 31"
    and x: "x \<in> live" "n_ptr (nodes ! x) = p"
  shows "\<exists>nodes' ht'. pm_remove p nodes ht = Some (nodes', ht', int x) \<and>
    map forget_next nodes' = map forget_next nodes \<and> pm_inv nodes' ht' (live - {x})"
proof -
  obtain cs where cs: "\<And>b. seg nodes (ht b) (cs b) (-1)" "\<And>b. distinct (cs b)"
    "\<And>b x. x \<in> set (cs b) \<Longrightarrow> ptr_hash (n_ptr (nodes ! x)) = b" "(\<Union>b. set (cs b)) = live"
    and inj: "inj_on (\<lambda>x. n_ptr (nodes ! x)) live"
    using inv unfolding pm_inv_def by blast
  let ?b = "ptr_hash p"
  have xb: "x \<in> set (cs ?b)" using x cs(3,4) by auto
  then obtain a c where split: "cs ?b = a @ x # c" by (auto simp: in_set_conv_decomp)
  have other: "n_ptr (nodes ! y) \<noteq> p" if "y \<in> set a" for y
  proof -
    have "y \<in> set (cs ?b)" "y \<noteq> x" using that cs(2) [of ?b] by (auto simp: split)
    then have "y \<in> live" "y \<noteq> x" using cs(4) by auto
    then show ?thesis using inj x by (auto dest: inj_onD)
  qed
  have dw: "dropWhile (\<lambda>x. n_ptr (nodes ! x) \<noteq> p) (cs ?b) = x # c"
    "takeWhile (\<lambda>x. n_ptr (nodes ! x) \<noteq> p) (cs ?b) = a"
    unfolding split using other x(2) by (simp_all add: dropWhile_append2 takeWhile_append2)
  let ?nodes = "unlink_nodes nodes a x" and ?ht = "unlink_head nodes ht ?b a x"
  have res: "pm_remove p nodes ht = Some (?nodes, ?ht, int x)"
    using chain_remove_seg [OF len, of ht ?b "[]" "cs ?b" p] cs(1,2) dw
    by (simp add: pm_remove_def)
  have fn: "map forget_next ?nodes = map forget_next nodes" by (rule forget_next_unlink)
  have ln: "length ?nodes = length nodes" using fn by (metis length_map)
  have ptrs: "n_ptr (?nodes ! y) = n_ptr (nodes ! y)" for y
    by (auto simp: unlink_nodes_def nth_upd)
  have disj: "y \<notin> set (cs b)" if "y \<in> set (cs ?b)" "b \<noteq> ?b" for y b
    using cs(3) that by blast
  have frame: "n_next (?nodes ! y) = n_next (nodes ! y)" if "y \<notin> set (cs ?b)" for y
    using that last_in_set [of a] unfolding split
    by (auto simp: unlink_nodes_def nth_upd)
  have "pm_inv ?nodes ?ht (live - {x})"
    unfolding pm_inv_def ptrs
  proof (intro conjI exI [of _ "cs(?b := a @ c)"] allI)
    fix b
    show "seg ?nodes (?ht b) ((cs(?b := a @ c)) b) (-1)"
    proof (cases "b = ?b")
      case True
      have "seg nodes (ht ?b) (a @ x # c) (-1)" "distinct (a @ x # c)"
        using cs(1,2) [of ?b] by (simp_all add: split)
      then show ?thesis using seg_unlink True by simp
    next
      case False
      have "seg ?nodes (ht b) (cs b) (-1)"
        by (rule seg_frame [OF cs(1) ln]) (use disj False frame in blast)
      moreover have "?ht b = ht b" using False by (simp add: unlink_head_def)
      ultimately show ?thesis using False by simp
    qed
    show "distinct ((cs(?b := a @ c)) b)" using cs(2) [of b] split by auto
    show "\<forall>y\<in>set ((cs(?b := a @ c)) b). ptr_hash (n_ptr (nodes ! y)) = b"
      using cs(3) split by auto
  next
    have "x \<notin> set a" "x \<notin> set c" using cs(2) [of ?b] split by auto
    moreover have "x \<notin> set (cs b)" if "b \<noteq> ?b" for b using disj xb that by blast
    ultimately have "set ((cs(?b := a @ c)) b) = set (cs b) - {x}" for b
      using split by (cases "b = ?b") auto
    then show "(\<Union>b. set ((cs(?b := a @ c)) b)) = live - {x}"
      unfolding cs(4) [symmetric] by simp
    show "inj_on (\<lambda>x. n_ptr (nodes ! x)) (live - {x})"
      using inj by (rule inj_on_diff)
  qed
  then show ?thesis using res fn by blast
qed

section \<open>Properties\<close>

text \<open>An id made of a node index and a version gives both back.\<close>

theorem graph_id_roundtrip:
  assumes "0 \<le> i" "i < 2 ^ 31"
  shows "node_index (make_id i v) = i \<and> node_version (make_id i v) = v"
  using assms by (simp add: node_index_make_id node_version_make_id)

theorem graph_id_roundtrip_witness: "node_index (make_id 7 3) = 7 \<and> node_version (make_id 7 3) = 3"
  by (rule graph_id_roundtrip) simp_all

end
