(* ===== verification/Graph_Cycles.thy ===== *)
theory Graph_Cycles
  imports Pointer_Map
begin

text \<open>
  The state and the operations of \<^verbatim>\<open>GraphCycles\<close> (\<^verbatim>\<open>buginsight_dll/graphcycles/graphcycles.cc\<close>):
  the node table, the free list, the pointer map and the scratch vectors of \<^verbatim>\<open>GraphCycles::Rep\<close>,
  and one definition per member function. A \<^verbatim>\<open>Vec\<close> used as a stack is a list whose last element is
  \<^verbatim>\<open>back()\<close>. The searches are \<open>partial_function\<close>s; their termination is proved in
  \<open>Graph_Search\<close>, the correctness of the whole in \<open>Graph_Order\<close> and \<open>Graph_Correct\<close>.
\<close>

section \<open>State\<close>

record rep =
  r_nodes :: "node list"
  r_free :: "int list"
  r_heads :: heads
  r_deltaf :: "int list"
  r_deltab :: "int list"
  r_list :: "int list"
  r_merged :: "int list"
  r_stack :: "int list"

definition rep_init :: rep where
  "rep_init = \<lparr>r_nodes = [], r_free = [], r_heads = empty_heads, r_deltaf = [], r_deltab = [],
     r_list = [], r_merged = [], r_stack = []\<rparr>"

definition modify :: "int \<Rightarrow> (node \<Rightarrow> node) \<Rightarrow> node list \<Rightarrow> node list option" where
  "modify i f nodes = map_option (\<lambda>n. nodes[idx i := f n]) (vec_get nodes (idx i))"

section \<open>Nodes and ids\<close>

text \<open>\<^verbatim>\<open>FindNode\<close>: the index of the node, or \<open>None\<close> inside for \<^verbatim>\<open>nullptr\<close>.\<close>

definition find_node :: "rep \<Rightarrow> u64 \<Rightarrow> nat option option" where
  "find_node r g =
     map_option (\<lambda>n. if n_version n = node_version g then Some (idx (node_index g)) else None)
       (vec_get (r_nodes r) (idx (node_index g)))"

definition get_id :: "tid \<Rightarrow> ptr \<Rightarrow> rep \<Rightarrow> (rep \<times> u64) option" where
  "get_id t p r =
     Option.bind (pm_find (r_nodes r) (r_heads r) p) (\<lambda>i.
       if i \<noteq> -1 then
         map_option (\<lambda>n. (r, make_id i (n_version n))) (vec_get (r_nodes r) (idx i))
       else if r_free r = [] then
         (let n = node_init\<lparr>n_version := 1, n_rank := i32 (int (length (r_nodes r))),
                     n_ptr := p, n_thread := t\<rparr>
          in map_option (\<lambda>(nodes', ht').
                (r\<lparr>r_nodes := nodes', r_heads := ht'\<rparr>, make_id (n_rank n) (n_version n)))
               (pm_add p (n_rank n) (r_nodes r @ [n]) (r_heads r)))
       else
         (let k = last (r_free r)
          in Option.bind (modify k (\<lambda>n. n\<lparr>n_ptr := p, n_callstack := [], n_priority := 0,
                                       n_thread := 0, n_hold_count := 0\<rparr>) (r_nodes r)) (\<lambda>nodes.
             Option.bind (pm_add p k nodes (r_heads r)) (\<lambda>(nodes', ht').
             map_option (\<lambda>n. (r\<lparr>r_free := butlast (r_free r), r_nodes := nodes', r_heads := ht'\<rparr>,
                              make_id k (n_version n)))
               (vec_get nodes' (idx k))))))"

text \<open>The two loops of \<^verbatim>\<open>RemoveNode\<close>: erase \<open>i\<close> from the sets of the neighbours.\<close>

fun erase_in :: "int \<Rightarrow> int list \<Rightarrow> node list \<Rightarrow> node list option" where
  "erase_in i [] nodes = Some nodes"
| "erase_in i (y # ys) nodes =
     Option.bind (vec_get nodes (idx y)) (\<lambda>n.
     Option.bind (node_set_erase i (n_in n)) (\<lambda>s.
       erase_in i ys (nodes[idx y := n\<lparr>n_in := s\<rparr>])))"

fun erase_out :: "int \<Rightarrow> int list \<Rightarrow> node list \<Rightarrow> node list option" where
  "erase_out i [] nodes = Some nodes"
| "erase_out i (y # ys) nodes =
     Option.bind (vec_get nodes (idx y)) (\<lambda>n.
     Option.bind (node_set_erase i (n_out n)) (\<lambda>s.
       erase_out i ys (nodes[idx y := n\<lparr>n_out := s\<rparr>])))"

definition remove_node :: "ptr \<Rightarrow> rep \<Rightarrow> rep option" where
  "remove_node p r =
     Option.bind (pm_remove p (r_nodes r) (r_heads r)) (\<lambda>(nodes, ht, i).
       if i = -1 then Some (r\<lparr>r_nodes := nodes, r_heads := ht\<rparr>)
       else
         Option.bind (vec_get nodes (idx i)) (\<lambda>x.
         Option.bind (erase_in i (ns_elems (n_out x)) nodes) (\<lambda>nodes1.
         Option.bind (vec_get nodes1 (idx i)) (\<lambda>x1.
         Option.bind (erase_out i (ns_elems (n_in x1)) nodes1) (\<lambda>nodes2.
         map_option (\<lambda>x2.
             let x3 = x2\<lparr>n_in := node_set_empty, n_out := node_set_empty, n_ptr := 0\<rparr>
             in if n_version x3 = -1
                then r\<lparr>r_nodes := nodes2[idx i := x3], r_heads := ht\<rparr>
                else r\<lparr>r_nodes := nodes2[idx i := x3\<lparr>n_version := n_version x3 + 1\<rparr>],
                       r_heads := ht, r_free := r_free r @ [i]\<rparr>)
           (vec_get nodes2 (idx i)))))))"

definition ptr_of :: "rep \<Rightarrow> u64 \<Rightarrow> ptr option" where
  "ptr_of r g =
     map_option (\<lambda>f. case f of None \<Rightarrow> 0 | Some i \<Rightarrow> n_ptr (r_nodes r ! i)) (find_node r g)"

text \<open>
  \<^verbatim>\<open>extra_infos\<close>: thread, lock count and locks of the node; for an expired id the out parameter
  \<^verbatim>\<open>p_hold_locks\<close> keeps the caller's value \<open>old\<close>.
\<close>

definition extra_infos ::
  "rep \<Rightarrow> u64 \<Rightarrow> lock_entry list \<Rightarrow> (tid \<times> u8 \<times> lock_entry list) option" where
  "extra_infos r g old =
     map_option (\<lambda>f. case f of None \<Rightarrow> (0, 0, old)
         | Some i \<Rightarrow> (n_thread (r_nodes r ! i), n_hold_count (r_nodes r ! i),
                      n_hold_locks (r_nodes r ! i))) (find_node r g)"

definition has_node :: "rep \<Rightarrow> u64 \<Rightarrow> bool option" where
  "has_node r g = map_option (\<lambda>f. f \<noteq> None) (find_node r g)"

definition has_edge :: "rep \<Rightarrow> u64 \<Rightarrow> u64 \<Rightarrow> bool option" where
  "has_edge r gx gy =
     Option.bind (find_node r gx) (\<lambda>fx. case fx of None \<Rightarrow> Some False
       | Some i \<Rightarrow> Option.bind (find_node r gy) (\<lambda>fy. case fy of None \<Rightarrow> Some False
           | Some _ \<Rightarrow> node_set_contains (n_out (r_nodes r ! i)) (node_index gy)))"

definition erase_edge :: "nat \<Rightarrow> nat \<Rightarrow> int \<Rightarrow> int \<Rightarrow> node list \<Rightarrow> node list option" where
  "erase_edge nx ny x y nodes =
     Option.bind (node_set_erase y (n_out (nodes ! nx))) (\<lambda>s.
       let nodes1 = nodes[nx := (nodes ! nx)\<lparr>n_out := s\<rparr>]
       in map_option (\<lambda>s'. nodes1[ny := (nodes1 ! ny)\<lparr>n_in := s'\<rparr>])
            (node_set_erase x (n_in (nodes1 ! ny))))"

definition remove_edge :: "u64 \<Rightarrow> u64 \<Rightarrow> rep \<Rightarrow> rep option" where
  "remove_edge gx gy r =
     Option.bind (find_node r gx) (\<lambda>fx. Option.bind (find_node r gy) (\<lambda>fy.
       case (fx, fy) of
         (Some nx, Some ny) \<Rightarrow> map_option (\<lambda>nodes. r\<lparr>r_nodes := nodes\<rparr>)
           (erase_edge nx ny (node_index gx) (node_index gy) (r_nodes r))
       | _ \<Rightarrow> Some r))"

section \<open>Depth-first searches\<close>

text \<open>The scan of the successors: the stack, and whether no node of rank \<open>ub\<close> was met.\<close>

fun forward_scan :: "node list \<Rightarrow> int \<Rightarrow> int list \<Rightarrow> int list \<Rightarrow> (int list \<times> bool) option" where
  "forward_scan nodes ub [] st = Some (st, True)"
| "forward_scan nodes ub (w # ws) st =
     Option.bind (vec_get nodes (idx w)) (\<lambda>nw.
       if n_rank nw = ub then Some (st, False)
       else forward_scan nodes ub ws
         (if \<not> n_visited nw \<and> n_rank nw < ub then st @ [w] else st))"

partial_function (option) forward_loop :: "int \<Rightarrow> rep \<Rightarrow> (rep \<times> bool) option" where
  "forward_loop ub r =
     (if r_stack r = [] then Some (r, True)
      else Option.bind (vec_get (r_nodes r) (idx (last (r_stack r)))) (\<lambda>nn.
        if n_visited nn then forward_loop ub (r\<lparr>r_stack := butlast (r_stack r)\<rparr>)
        else Option.bind
          (forward_scan ((r_nodes r)[idx (last (r_stack r)) := nn\<lparr>n_visited := True\<rparr>]) ub
            (ns_elems (n_out nn)) (butlast (r_stack r))) (\<lambda>(st, ok).
          let r' = r\<lparr>r_nodes := (r_nodes r)[idx (last (r_stack r)) := nn\<lparr>n_visited := True\<rparr>],
                     r_deltaf := r_deltaf r @ [last (r_stack r)], r_stack := st\<rparr>
          in if ok then forward_loop ub r' else Some (r', False))))"

definition forward_dfs :: "int \<Rightarrow> int \<Rightarrow> rep \<Rightarrow> (rep \<times> bool) option" where
  "forward_dfs n ub r = forward_loop ub (r\<lparr>r_deltaf := [], r_stack := [n]\<rparr>)"

fun backward_scan :: "node list \<Rightarrow> int \<Rightarrow> int list \<Rightarrow> int list \<Rightarrow> int list option" where
  "backward_scan nodes lb [] st = Some st"
| "backward_scan nodes lb (w # ws) st =
     Option.bind (vec_get nodes (idx w)) (\<lambda>nw.
       backward_scan nodes lb ws (if \<not> n_visited nw \<and> lb < n_rank nw then st @ [w] else st))"

partial_function (option) backward_loop :: "int \<Rightarrow> rep \<Rightarrow> rep option" where
  "backward_loop lb r =
     (if r_stack r = [] then Some r
      else Option.bind (vec_get (r_nodes r) (idx (last (r_stack r)))) (\<lambda>nn.
        if n_visited nn then backward_loop lb (r\<lparr>r_stack := butlast (r_stack r)\<rparr>)
        else Option.bind
          (backward_scan ((r_nodes r)[idx (last (r_stack r)) := nn\<lparr>n_visited := True\<rparr>]) lb
            (ns_elems (n_in nn)) (butlast (r_stack r))) (\<lambda>st.
          backward_loop lb (r\<lparr>r_nodes := (r_nodes r)[idx (last (r_stack r)) := nn\<lparr>n_visited := True\<rparr>],
                     r_deltab := r_deltab r @ [last (r_stack r)], r_stack := st\<rparr>))))"

definition backward_dfs :: "int \<Rightarrow> int \<Rightarrow> rep \<Rightarrow> rep option" where
  "backward_dfs n lb r = backward_loop lb (r\<lparr>r_deltab := [], r_stack := [n]\<rparr>)"

section \<open>Reordering\<close>

text \<open>\<^verbatim>\<open>std::sort\<close> with \<^verbatim>\<open>ByRank\<close>; the ranks are distinct, so the result is determined.\<close>

definition sort_by_rank :: "node list \<Rightarrow> int list \<Rightarrow> int list option" where
  "sort_by_rank nodes delta =
     (if list_all (\<lambda>a. idx a < length nodes) delta
      then Some (sort_key (\<lambda>a. n_rank (nodes ! idx a)) delta) else None)"

fun move_to_list :: "node list \<Rightarrow> int list \<Rightarrow> int list \<Rightarrow> (node list \<times> int list \<times> int list) option" where
  "move_to_list nodes [] dst = Some (nodes, [], dst)"
| "move_to_list nodes (w # ws) dst =
     Option.bind (vec_get nodes (idx w)) (\<lambda>n.
       map_option (\<lambda>(nodes', ranks, dst'). (nodes', n_rank n # ranks, dst'))
         (move_to_list (nodes[idx w := n\<lparr>n_visited := False\<rparr>]) ws (dst @ [w])))"

text \<open>\<^verbatim>\<open>std::merge\<close>.\<close>

fun std_merge :: "int list \<Rightarrow> int list \<Rightarrow> int list" where
  "std_merge [] ys = ys"
| "std_merge (x # xs) [] = x # xs"
| "std_merge (x # xs) (y # ys) =
     (if y < x then y # std_merge (x # xs) ys else x # std_merge xs (y # ys))"

fun assign_ranks :: "node list \<Rightarrow> int list \<Rightarrow> int list \<Rightarrow> node list option" where
  "assign_ranks nodes [] ranks = Some nodes"
| "assign_ranks nodes (w # ws) [] = None"
| "assign_ranks nodes (w # ws) (k # ranks) =
     Option.bind (modify w (\<lambda>n. n\<lparr>n_rank := k\<rparr>) nodes) (\<lambda>nodes'. assign_ranks nodes' ws ranks)"

definition reorder :: "rep \<Rightarrow> rep option" where
  "reorder r =
     Option.bind (sort_by_rank (r_nodes r) (r_deltab r)) (\<lambda>db.
     Option.bind (sort_by_rank (r_nodes r) (r_deltaf r)) (\<lambda>df.
     Option.bind (move_to_list (r_nodes r) db []) (\<lambda>(nodes1, rb, list1).
     Option.bind (move_to_list nodes1 df list1) (\<lambda>(nodes2, rf, list2).
       let merged = std_merge rb rf
       in map_option (\<lambda>nodes3. r\<lparr>r_nodes := nodes3, r_deltab := rb, r_deltaf := rf,
              r_list := list2, r_merged := merged\<rparr>)
            (assign_ranks nodes2 list2 merged)))))"

fun clear_visited :: "int list \<Rightarrow> node list \<Rightarrow> node list option" where
  "clear_visited [] nodes = Some nodes"
| "clear_visited (d # ds) nodes =
     Option.bind (modify d (\<lambda>n. n\<lparr>n_visited := False\<rparr>) nodes) (clear_visited ds)"

section \<open>Inserting an edge\<close>

text \<open>The part of \<^verbatim>\<open>InsertEdge\<close> after the edge has been written to both nodes.\<close>

definition restore_order :: "nat \<Rightarrow> nat \<Rightarrow> int \<Rightarrow> int \<Rightarrow> rep \<Rightarrow> (rep \<times> bool) option" where
  "restore_order nx ny x y r =
     Option.bind (forward_dfs y (n_rank (r_nodes r ! nx)) r) (\<lambda>(r1, ok).
       if \<not> ok then
         Option.bind (erase_edge nx ny x y (r_nodes r1)) (\<lambda>nodes.
         map_option (\<lambda>nodes'. (r1\<lparr>r_nodes := nodes'\<rparr>, False)) (clear_visited (r_deltaf r1) nodes))
       else
         Option.bind (backward_dfs x (n_rank (r_nodes r1 ! ny)) r1) (\<lambda>r2.
         map_option (\<lambda>r3. (r3, True)) (reorder r2)))"

definition insert_edge :: "u64 \<Rightarrow> u64 \<Rightarrow> rep \<Rightarrow> (rep \<times> bool) option" where
  "insert_edge gx gy r =
     (let x = node_index gx; y = node_index gy
      in Option.bind (find_node r gx) (\<lambda>fx. Option.bind (find_node r gy) (\<lambda>fy.
        case (fx, fy) of
          (Some nx, Some ny) \<Rightarrow>
            if nx = ny then Some (r, False)
            else Option.bind (node_set_insert y (n_out (r_nodes r ! nx))) (\<lambda>(out, fresh).
              let nodes1 = (r_nodes r)[nx := (r_nodes r ! nx)\<lparr>n_out := out\<rparr>]
              in if \<not> fresh then Some (r\<lparr>r_nodes := nodes1\<rparr>, True)
                 else Option.bind (node_set_insert x (n_in (nodes1 ! ny))) (\<lambda>(inn, _).
                   let nodes2 = nodes1[ny := (nodes1 ! ny)\<lparr>n_in := inn\<rparr>];
                       r2 = r\<lparr>r_nodes := nodes2\<rparr>
                   in if n_rank (nodes2 ! nx) \<le> n_rank (nodes2 ! ny) then Some (r2, True)
                      else restore_order nx ny x y r2))
        | _ \<Rightarrow> Some (r, True))))"

section \<open>Paths\<close>

text \<open>
  The caller's array \<^verbatim>\<open>path\<close> is a list of \<^verbatim>\<open>max_path_len\<close> cells; a write outside it is undefined.
\<close>

partial_function (option) find_path_loop ::
  "int \<Rightarrow> int \<Rightarrow> rep \<Rightarrow> node_set \<Rightarrow> u64 list \<Rightarrow> int \<Rightarrow> (rep \<times> u64 list \<times> int) option" where
  "find_path_loop y maxlen r seen path len =
     (if r_stack r = [] then Some (r, path, 0)
      else if last (r_stack r) < 0
      then find_path_loop y maxlen (r\<lparr>r_stack := butlast (r_stack r)\<rparr>) seen path (len - 1)
      else Option.bind (vec_get (r_nodes r) (idx (last (r_stack r)))) (\<lambda>nn.
        Option.bind
          (if len < maxlen
           then map_option (\<lambda>_. path[nat len := make_id (last (r_stack r)) (n_version nn)])
                  (vec_get path (nat len))
           else Some path) (\<lambda>path'.
          if last (r_stack r) = y
          then Some (r\<lparr>r_stack := butlast (r_stack r) @ [-1]\<rparr>, path', len + 1)
          else Option.bind (insert_new node_set_insert (ns_elems (n_out nn)) seen []) (\<lambda>(seen', ws).
            find_path_loop y maxlen (r\<lparr>r_stack := butlast (r_stack r) @ [-1] @ ws\<rparr>) seen' path'
              (len + 1)))))"

definition find_path ::
  "u64 \<Rightarrow> u64 \<Rightarrow> int \<Rightarrow> u64 list \<Rightarrow> rep \<Rightarrow> (rep \<times> u64 list \<times> int) option" where
  "find_path gx gy maxlen path r =
     Option.bind (find_node r gx) (\<lambda>fx. case fx of None \<Rightarrow> Some (r, path, 0)
       | Some _ \<Rightarrow> Option.bind (find_node r gy) (\<lambda>fy. case fy of None \<Rightarrow> Some (r, path, 0)
         | Some _ \<Rightarrow> find_path_loop (node_index gy) maxlen (r\<lparr>r_stack := [node_index gx]\<rparr>)
             node_set_empty path 0))"

definition is_reachable :: "u64 \<Rightarrow> u64 \<Rightarrow> rep \<Rightarrow> (rep \<times> bool) option" where
  "is_reachable gx gy r =
     map_option (\<lambda>(r', _, len). (r', 0 < len)) (find_path gx gy 0 [] r)"

section \<open>Recorded stack traces\<close>

text \<open>
  \<open>frames\<close> is what \<^verbatim>\<open>GetStackFrames\<close> returned, if call stacks are collected (\<open>collect\<close>).
\<close>

definition update_stack_trace ::
  "bool \<Rightarrow> tid \<Rightarrow> ptr list \<Rightarrow> u64 \<Rightarrow> held_locks \<Rightarrow> rep \<Rightarrow> rep option" where
  "update_stack_trace collect t frames g h r =
     map_option (\<lambda>f. case f of None \<Rightarrow> r
       | Some i \<Rightarrow>
         let n = r_nodes r ! i; priority = int (hl_n h) + 1
         in if priority \<le> n_priority n then r
            else r\<lparr>r_nodes := (r_nodes r)[i := n\<lparr>
                   n_callstack := (if collect then frames else n_callstack n),
                   n_priority := priority, n_thread := t,
                   n_hold_locks := hl_locks h, n_hold_count := word_of_nat (hl_n h)\<rparr>]\<rparr>)
       (find_node r g)"

definition get_stack_trace :: "u64 \<Rightarrow> ptr list option \<Rightarrow> rep \<Rightarrow> ptr list option option" where
  "get_stack_trace g old r =
     map_option (\<lambda>f. case f of None \<Rightarrow> old | Some i \<Rightarrow> Some (n_callstack (r_nodes r ! i)))
       (find_node r g)"

section \<open>The self check\<close>

datatype check_failure =
    Not_In_Table nat
  | Still_Visited nat
  | Duplicate_Rank int
  | Bad_Rank nat int

definition check_edges :: "node list \<Rightarrow> nat \<Rightarrow> check_failure list option" where
  "check_edges nodes x =
     (if list_all (\<lambda>y. idx y < length nodes) (ns_elems (n_out (nodes ! x)))
      then Some (map (Bad_Rank x) (filter (\<lambda>y. n_rank (nodes ! idx y) \<le> n_rank (nodes ! x))
             (ns_elems (n_out (nodes ! x)))))
      else None)"

fun check_nodes :: "rep \<Rightarrow> nat list \<Rightarrow> node_set \<Rightarrow> check_failure list option" where
  "check_nodes r [] ranks = Some []"
| "check_nodes r (x # xs) ranks =
     (let nx = r_nodes r ! x
      in Option.bind (if n_ptr nx = 0 then Some []
            else map_option (\<lambda>i. if idx i \<noteq> x then [Not_In_Table x] else [])
              (pm_find (r_nodes r) (r_heads r) (n_ptr nx))) (\<lambda>f1.
         Option.bind (node_set_insert (n_rank nx) ranks) (\<lambda>(ranks', fresh).
         Option.bind (check_edges (r_nodes r) x) (\<lambda>f4.
         map_option (\<lambda>fs. f1 @ (if n_visited nx then [Still_Visited x] else []) @
              (if fresh then [] else [Duplicate_Rank (n_rank nx)]) @ f4 @ fs)
           (check_nodes r xs ranks')))))"

text \<open>The failures that \<^verbatim>\<open>CheckInvariants\<close> reports, in order.\<close>

definition check_invariants :: "rep \<Rightarrow> check_failure list option" where
  "check_invariants r = check_nodes r [0..<length (r_nodes r)] node_set_empty"

end
