(* ===== verification/Graph_Search.thy ===== *)
theory Graph_Search
  imports Graph_Cycles
begin

text \<open>
  The two depth-first searches of \<^verbatim>\<open>graphcycles.cc\<close>. The locale \<open>dfs_loop\<close> states what one
  iteration of a search with an explicit stack and visited marks does, and proves once that such a
  loop returns and what it has found; \<open>forward_loop\<close> and \<open>backward_loop\<close> are its instances.
\<close>

section \<open>A worklist search\<close>

definition follow_rel :: "(int \<Rightarrow> int list) \<Rightarrow> (int \<Rightarrow> bool) \<Rightarrow> (int \<times> int) set" where
  "follow_rel adj follow = {(u, w). w \<in> set (adj u) \<and> follow w}"

text \<open>
  \<open>dfs_found\<close>: the nodes found so far, on top of the marks \<open>old\<close> set before the search, are
  reachable from the start, and what they point to is not a stop node and has been marked or is on
  the stack \<open>st\<close>.
\<close>

definition dfs_found :: "(int \<Rightarrow> int list) \<Rightarrow> (int \<Rightarrow> bool) \<Rightarrow> int set \<Rightarrow> int set \<Rightarrow> int \<Rightarrow>
    int set \<Rightarrow> int list \<Rightarrow> bool" where
  "dfs_found adj follow space old start marks found \<longleftrightarrow>
     distinct found \<and> set found \<subseteq> space \<and> old \<inter> set found = {} \<and> marks = old \<union> set found \<and>
     (\<forall>u\<in>set found. (start, u) \<in> (follow_rel adj follow)\<^sup>*)"

definition dfs_closed :: "(int \<Rightarrow> int list) \<Rightarrow> (int \<Rightarrow> bool) \<Rightarrow> (int \<Rightarrow> bool) \<Rightarrow> int set \<Rightarrow> int list \<Rightarrow>
    int list \<Rightarrow> bool" where
  "dfs_closed adj follow stop old found st \<longleftrightarrow>
     (\<forall>u\<in>set found. \<forall>w\<in>set (adj u).
        \<not> stop w \<and> (follow w \<longrightarrow> w \<in> old \<union> set found \<union> set st))"

locale dfs_loop =
  fixes loop :: "'s \<Rightarrow> ('s \<times> bool) option"
    and stack :: "'s \<Rightarrow> int list"
    and marks :: "'s \<Rightarrow> int set"
    and found :: "'s \<Rightarrow> int list"
    and space :: "int set"
    and adj :: "int \<Rightarrow> int list"
    and follow :: "int \<Rightarrow> bool"
    and stop :: "int \<Rightarrow> bool"
    and valid :: "'s \<Rightarrow> bool"
  assumes space_law: "finite space"
    and adj_law: "valid s \<Longrightarrow> n \<in> space \<Longrightarrow> set (adj n) \<subseteq> space"
    and done_law: "valid s \<Longrightarrow> stack s = [] \<Longrightarrow> loop s = Some (s, True)"
    and skip_law: "valid s \<Longrightarrow> stack s = st @ [n] \<Longrightarrow> n \<in> space \<Longrightarrow> n \<in> marks s \<Longrightarrow>
      \<exists>s'. loop s = loop s' \<and> valid s' \<and> stack s' = st \<and> marks s' = marks s \<and> found s' = found s"
    and stop_law: "valid s \<Longrightarrow> stack s = st @ [n] \<Longrightarrow> n \<in> space \<Longrightarrow> n \<notin> marks s \<Longrightarrow>
      \<exists>w\<in>set (adj n). stop w \<Longrightarrow>
      \<exists>s'. loop s = Some (s', False) \<and> valid s' \<and> marks s' = insert n (marks s) \<and>
        found s' = found s @ [n]"
    and visit_law: "valid s \<Longrightarrow> stack s = st @ [n] \<Longrightarrow> n \<in> space \<Longrightarrow> n \<notin> marks s \<Longrightarrow>
      \<forall>w\<in>set (adj n). \<not> stop w \<Longrightarrow>
      \<exists>s'. loop s = loop s' \<and> valid s' \<and> marks s' = insert n (marks s) \<and>
        found s' = found s @ [n] \<and>
        stack s' = st @ filter (\<lambda>w. w \<notin> insert n (marks s) \<and> follow w) (adj n)"
begin

lemma run_total:
  assumes "valid s" "set (stack s) \<subseteq> space"
    "dfs_found adj follow space old start (marks s) (found s)"
    "dfs_closed adj follow stop old (found s) (stack s)"
    "\<forall>u\<in>set (stack s). (start, u) \<in> (follow_rel adj follow)\<^sup>*"
    "start \<in> set (found s) \<union> set (stack s)" "start \<notin> old"
  shows "\<exists>s' ok. loop s = Some (s', ok) \<and> valid s' \<and>
    dfs_found adj follow space old start (marks s') (found s') \<and>
    (if ok then start \<in> set (found s') \<and> dfs_closed adj follow stop old (found s') []
     else \<exists>u\<in>set (found s'). \<exists>w\<in>set (adj u). stop w)"
  using assms
proof (induction s rule: wf_induct_rule
    [OF wf_measures [of "[\<lambda>s. card (space - marks s), \<lambda>s. length (stack s)]"]])
  case (1 s)
  note fnd = 1(4) [unfolded dfs_found_def] and clo = 1(5) [unfolded dfs_closed_def]
  show ?case
  proof (cases "stack s" rule: rev_cases)
    case Nil
    then show ?thesis using 1 done_law by auto
  next
    case (snoc st n)
    have n: "n \<in> space" "(start, n) \<in> (follow_rel adj follow)\<^sup>*" using 1(3,6) snoc by auto
    show ?thesis
    proof (cases "n \<in> marks s")
      case True
      obtain s' where s': "loop s = loop s'" "valid s'" "stack s' = st" "marks s' = marks s"
        "found s' = found s"
        using skip_law [OF 1(2) snoc n(1) True] by blast
      have "n \<in> old \<union> set (found s)" using True fnd by auto
      then have "dfs_closed adj follow stop old (found s') (stack s')"
        using clo s' snoc by (auto simp: dfs_closed_def)
      moreover have "start \<in> set (found s') \<union> set (stack s')"
        using 1(7,8) s' snoc True fnd by auto
      ultimately show ?thesis
        unfolding s'(1) using 1(1) [of s'] s' 1(2-8) snoc by (simp add: measures_def inv_image_def)
    next
      case False
      have fnd': "dfs_found adj follow space old start (insert n (marks s)) (found s @ [n])"
        using fnd n False by (auto simp: dfs_found_def)
      show ?thesis
      proof (cases "\<exists>w\<in>set (adj n). stop w")
        case True
        then obtain s' where "loop s = Some (s', False)" "valid s'" "marks s' = insert n (marks s)"
          "found s' = found s @ [n]"
          using stop_law [OF 1(2) snoc n(1) False] by blast
        then show ?thesis using fnd' True by auto
      next
        case nostop: False
        then obtain s' where s': "loop s = loop s'" "valid s'" "marks s' = insert n (marks s)"
          "found s' = found s @ [n]"
          "stack s' = st @ filter (\<lambda>w. w \<notin> insert n (marks s) \<and> follow w) (adj n)"
          using visit_law [OF 1(2) snoc n(1) False] by blast
        have "space - marks s' \<subset> space - marks s" using s'(3) n(1) False by auto
        then have "card (space - marks s') < card (space - marks s)"
          using space_law by (intro psubset_card_mono) auto
        moreover have "set (stack s') \<subseteq> space"
          using adj_law [OF 1(2) n(1)] 1(3) snoc by (auto simp: s'(5))
        moreover have "dfs_closed adj follow stop old (found s') (stack s')"
          using clo snoc nostop fnd by (auto simp: dfs_closed_def s'(4,5))
        moreover have "\<forall>u\<in>set (stack s'). (start, u) \<in> (follow_rel adj follow)\<^sup>*"
          using 1(6) snoc rtrancl_into_rtrancl [OF n(2)] by (auto simp: s'(5) follow_rel_def)
        moreover have "start \<in> set (found s') \<union> set (stack s')"
          using 1(7) snoc by (auto simp: s'(4,5))
        ultimately show ?thesis
          unfolding s'(1) using 1(1) [of s'] s'(2-4) fnd' 1(8)
          by (simp add: measures_def inv_image_def)
      qed
    qed
  qed
qed

text \<open>A search that starts with nothing found.\<close>

lemma run_from:
  assumes "valid s" "stack s = [start]" "found s = []" "start \<in> space - marks s"
  shows "\<exists>s' ok. loop s = Some (s', ok) \<and> valid s' \<and>
    dfs_found adj follow space (marks s) start (marks s') (found s') \<and>
    (if ok then start \<in> set (found s') \<and> dfs_closed adj follow stop (marks s) (found s') []
     else \<exists>u\<in>set (found s'). \<exists>w\<in>set (adj u). stop w)"
  by (rule run_total) (use assms in \<open>auto simp: dfs_found_def dfs_closed_def\<close>)

end

section \<open>What the searches leave unchanged\<close>

definition nodes_ok :: "node list \<Rightarrow> bool" where
  "nodes_ok nodes \<longleftrightarrow> int (length nodes) \<le> node_limit \<and>
     (\<forall>n\<in>set nodes. ns_inv (n_in n) \<and> ns_inv (n_out n) \<and>
        ns_set (n_in n) \<subseteq> {0..<int (length nodes)} \<and>
        ns_set (n_out n) \<subseteq> {0..<int (length nodes)})"

definition unmark :: "node \<Rightarrow> node" where
  "unmark n = n\<lparr>n_visited := False\<rparr>"

definition search_frame :: "rep \<Rightarrow> rep \<Rightarrow> bool" where
  "search_frame g r \<longleftrightarrow> map unmark (r_nodes r) = map unmark (r_nodes g) \<and>
     r_free r = r_free g \<and> r_heads r = r_heads g"

definition indices :: "node list \<Rightarrow> int set" where
  "indices nodes = {0..<int (length nodes)}"

definition visited_set :: "node list \<Rightarrow> int set" where
  "visited_set nodes = {i \<in> indices nodes. n_visited (nodes ! nat i)}"

lemma indices_iff: "i \<in> indices nodes \<longleftrightarrow> 0 \<le> i \<and> nat i < length nodes"
  by (auto simp: indices_def)

lemma nodes_ok_idx:
  assumes "nodes_ok nodes" "i \<in> indices nodes"
  shows "idx i = nat i" "nat i < length nodes"
proof -
  have "i < 2 ^ 31" using assms by (simp add: nodes_ok_def node_limit_def indices_def)
  then show "idx i = nat i" "nat i < length nodes"
    using assms(2) by (simp_all add: idx_nat indices_def nat_less_iff)
qed

lemma nodes_ok_length: "nodes_ok nodes \<Longrightarrow> length nodes < 2 ^ 31"
  by (simp add: nodes_ok_def node_limit_def)

lemma nodes_ok_sets:
  assumes "nodes_ok nodes" "nat i < length nodes"
  shows "ns_inv (n_out (nodes ! nat i))" "ns_inv (n_in (nodes ! nat i))"
    and "ns_set (n_out (nodes ! nat i)) \<subseteq> indices nodes"
    and "ns_set (n_in (nodes ! nat i)) \<subseteq> indices nodes"
  using assms nth_mem [OF assms(2)] by (auto simp: nodes_ok_def indices_def)

lemma unmark_simps [simp]:
  "n_rank (unmark n) = n_rank n" "n_version (unmark n) = n_version n"
  "n_next (unmark n) = n_next n" "n_ptr (unmark n) = n_ptr n" "n_in (unmark n) = n_in n"
  "n_out (unmark n) = n_out n" "unmark (n\<lparr>n_visited := b\<rparr>) = unmark n"
  by (simp_all add: unmark_def)

lemma unmark_eqD:
  assumes "map unmark nodes' = map unmark nodes" "k < length nodes"
  shows "n_rank (nodes' ! k) = n_rank (nodes ! k)" "n_out (nodes' ! k) = n_out (nodes ! k)"
    "n_in (nodes' ! k) = n_in (nodes ! k)"
proof -
  have "length nodes' = length nodes" using assms(1) by (metis length_map)
  then have e: "unmark (nodes' ! k) = unmark (nodes ! k)"
    using assms by (metis nth_map)
  show "n_rank (nodes' ! k) = n_rank (nodes ! k)" "n_out (nodes' ! k) = n_out (nodes ! k)"
    "n_in (nodes' ! k) = n_in (nodes ! k)"
    using arg_cong [OF e, of n_rank] arg_cong [OF e, of n_out] arg_cong [OF e, of n_in] by simp_all
qed

lemma unmark_length: "map unmark nodes' = map unmark nodes \<Longrightarrow> length nodes' = length nodes"
  by (metis length_map)

lemma unmark_indices: "map unmark nodes' = map unmark nodes \<Longrightarrow> indices nodes' = indices nodes"
  by (drule unmark_length) (simp add: indices_def)

lemma unmark_update:
  assumes "map unmark nodes' = map unmark nodes"
  shows "map unmark (nodes'[k := (nodes' ! k)\<lparr>n_visited := b\<rparr>]) = map unmark nodes"
proof -
  have "unmark ((nodes' ! k)\<lparr>n_visited := b\<rparr>) = unmark (nodes' ! k)" by (rule unmark_simps(7))
  then have "map unmark (nodes'[k := (nodes' ! k)\<lparr>n_visited := b\<rparr>]) = (map unmark nodes')[k := unmark (nodes' ! k)]"
    by (simp add: map_update)
  also have "\<dots> = map unmark nodes'"
    by (cases "k < length nodes'") (auto simp: list_update_same_conv list_update_beyond)
  finally show ?thesis using assms by simp
qed

lemma visited_set_update:
  assumes "0 \<le> n" "nat n < length nodes"
  shows "visited_set (nodes[nat n := (nodes ! nat n)\<lparr>n_visited := True\<rparr>]) =
    insert n (visited_set nodes)"
  using assms by (auto simp: visited_set_def indices_def nth_upd eq_nat_nat_iff split: if_splits)

section \<open>The forward search\<close>

definition rank_at :: "node list \<Rightarrow> int \<Rightarrow> int" where
  "rank_at nodes i = n_rank (nodes ! nat i)"

definition succ_list :: "node list \<Rightarrow> int \<Rightarrow> int list" where
  "succ_list nodes i = ns_elems (n_out (nodes ! nat i))"

definition pred_list :: "node list \<Rightarrow> int \<Rightarrow> int list" where
  "pred_list nodes i = ns_elems (n_in (nodes ! nat i))"

lemma forward_scan_spec:
  assumes "set ws \<subseteq> indices nodes" "length nodes < 2 ^ 31"
  shows "if \<exists>w\<in>set ws. rank_at nodes w = ub then \<exists>st'. forward_scan nodes ub ws st = Some (st', False)
    else forward_scan nodes ub ws st =
      Some (st @ filter (\<lambda>w. w \<notin> visited_set nodes \<and> rank_at nodes w < ub) ws, True)"
  using assms
proof (induction ws arbitrary: st)
  case Nil
  then show ?case by simp
next
  case (Cons w ws)
  have w: "idx w = nat w" "nat w < length nodes" "w \<in> indices nodes"
    using Cons.prems by (auto simp: indices_def idx_nat)
  show ?case
    using Cons.IH [of st] Cons.IH [of "st @ [w]"] Cons.prems w
    by (auto simp: rank_at_def visited_set_def split: if_splits)
qed

definition fwd_valid :: "rep \<Rightarrow> rep \<Rightarrow> bool" where
  "fwd_valid g r \<longleftrightarrow> nodes_ok (r_nodes g) \<and> search_frame g r"

lemma search_mark:
  assumes fr: "map unmark nodes' = map unmark nodes" and ok: "nodes_ok nodes" and n: "n \<in> indices nodes"
  shows "idx n = nat n" "nat n < length nodes'"
    and "vec_get nodes' (idx n) = Some (nodes' ! nat n)"
    and "n_visited (nodes' ! nat n) \<longleftrightarrow> n \<in> visited_set nodes'"
    and "map unmark (nodes'[nat n := (nodes' ! nat n)\<lparr>n_visited := True\<rparr>]) = map unmark nodes"
    and "visited_set (nodes'[nat n := (nodes' ! nat n)\<lparr>n_visited := True\<rparr>]) =
      insert n (visited_set nodes')"
    and "n_out (nodes' ! nat n) = n_out (nodes ! nat n)"
    and "n_in (nodes' ! nat n) = n_in (nodes ! nat n)"
proof -
  note l = unmark_length [OF fr]
  show i: "idx n = nat n" and b: "nat n < length nodes'"
    using nodes_ok_idx [OF ok n] l by simp_all
  have b0: "nat n < length nodes" using b l by simp
  show "vec_get nodes' (idx n) = Some (nodes' ! nat n)" using i b by simp
  show "n_visited (nodes' ! nat n) \<longleftrightarrow> n \<in> visited_set nodes'"
    using n unmark_indices [OF fr] by (auto simp: visited_set_def)
  show "map unmark (nodes'[nat n := (nodes' ! nat n)\<lparr>n_visited := True\<rparr>]) = map unmark nodes"
    by (rule unmark_update [OF fr])
  show "visited_set (nodes'[nat n := (nodes' ! nat n)\<lparr>n_visited := True\<rparr>]) =
      insert n (visited_set nodes')"
    using n b by (intro visited_set_update) (auto simp: indices_def)
  show "n_out (nodes' ! nat n) = n_out (nodes ! nat n)" "n_in (nodes' ! nat n) = n_in (nodes ! nat n)"
    using unmark_eqD [OF fr b0] by simp_all
qed

lemma rank_at_unmark:
  "map unmark nodes' = map unmark nodes \<Longrightarrow> w \<in> indices nodes \<Longrightarrow> rank_at nodes' w = rank_at nodes w"
  unfolding rank_at_def indices_iff by (rule unmark_eqD(1)) simp_all

lemma forward_visit:
  assumes v: "fwd_valid g r" and st: "r_stack r = st @ [n]" and n: "n \<in> indices (r_nodes g)"
    and new: "n \<notin> visited_set (r_nodes r)"
  defines "nodes' \<equiv> (r_nodes r)[nat n := (r_nodes r ! nat n)\<lparr>n_visited := True\<rparr>]"
  shows "\<exists>w\<in>set (succ_list (r_nodes g) n). rank_at (r_nodes g) w = ub \<Longrightarrow>
      \<exists>st'. forward_loop ub r = Some (r\<lparr>r_nodes := nodes', r_deltaf := r_deltaf r @ [n], r_stack := st'\<rparr>, False)"
    and "\<forall>w\<in>set (succ_list (r_nodes g) n). rank_at (r_nodes g) w \<noteq> ub \<Longrightarrow>
      forward_loop ub r = forward_loop ub (r\<lparr>r_nodes := nodes', r_deltaf := r_deltaf r @ [n],
        r_stack := st @ filter (\<lambda>w. w \<notin> insert n (visited_set (r_nodes r)) \<and> rank_at (r_nodes g) w < ub)
          (succ_list (r_nodes g) n)\<rparr>)"
proof -
  have ok: "nodes_ok (r_nodes g)" and fr: "map unmark (r_nodes r) = map unmark (r_nodes g)"
    using v by (simp_all add: fwd_valid_def search_frame_def)
  note m = search_mark [OF fr ok n]
  let ?ws = "succ_list (r_nodes g) n"
  have ws: "set ?ws \<subseteq> indices nodes'"
    using nodes_ok_sets(3) [OF ok nodes_ok_idx(2) [OF ok n]] unmark_indices [OF m(5)]
    by (simp add: succ_list_def nodes'_def)
  have len: "length nodes' < 2 ^ 31"
    using nodes_ok_length [OF ok] unmark_length [OF fr] by (simp add: nodes'_def)
  have rk: "rank_at nodes' w = rank_at (r_nodes g) w" if "w \<in> set ?ws" for w
    using rank_at_unmark [OF m(5)] ws that unmark_indices [OF m(5)] by (auto simp: nodes'_def)
  have vis: "visited_set nodes' = insert n (visited_set (r_nodes r))"
    by (simp add: nodes'_def m(6))
  have loop: "forward_loop ub r = Option.bind (forward_scan nodes' ub ?ws st) (\<lambda>(st, ok).
      let r' = r\<lparr>r_nodes := nodes', r_deltaf := r_deltaf r @ [n], r_stack := st\<rparr>
      in if ok then forward_loop ub r' else Some (r', False))"
    using new m(4) by (subst forward_loop.simps)
      (simp add: st m(3) m(1) m(2) m(7) nodes'_def succ_list_def)
  note scan = forward_scan_spec [OF ws len, of ub st]
  show "\<exists>st'. forward_loop ub r = Some (r\<lparr>r_nodes := nodes', r_deltaf := r_deltaf r @ [n], r_stack := st'\<rparr>, False)"
    if "\<exists>w\<in>set ?ws. rank_at (r_nodes g) w = ub"
  proof -
    have "\<exists>w\<in>set ?ws. rank_at nodes' w = ub" using that rk by auto
    then obtain st' where "forward_scan nodes' ub ?ws st = Some (st', False)" using scan by auto
    then show ?thesis by (auto simp: loop)
  qed
  show "forward_loop ub r = forward_loop ub (r\<lparr>r_nodes := nodes', r_deltaf := r_deltaf r @ [n],
        r_stack := st @ filter (\<lambda>w. w \<notin> insert n (visited_set (r_nodes r)) \<and> rank_at (r_nodes g) w < ub) ?ws\<rparr>)"
    if "\<forall>w\<in>set ?ws. rank_at (r_nodes g) w \<noteq> ub"
  proof -
    have "\<not> (\<exists>w\<in>set ?ws. rank_at nodes' w = ub)" using that rk by auto
    moreover have "filter (\<lambda>w. w \<notin> visited_set nodes' \<and> rank_at nodes' w < ub) ?ws =
        filter (\<lambda>w. w \<notin> insert n (visited_set (r_nodes r)) \<and> rank_at (r_nodes g) w < ub) ?ws"
      unfolding vis by (rule filter_cong [OF refl]) (simp add: rk)
    ultimately show ?thesis using scan by (simp add: loop)
  qed
qed

interpretation fwd: dfs_loop "forward_loop ub" r_stack "\<lambda>r. visited_set (r_nodes r)" r_deltaf
  "indices (r_nodes g)" "succ_list (r_nodes g)" "\<lambda>w. rank_at (r_nodes g) w < ub"
  "\<lambda>w. rank_at (r_nodes g) w = ub" "fwd_valid g"
  for g ub
proof
  show "finite (indices (r_nodes g))" by (simp add: indices_def)
next
  fix s n assume "fwd_valid g s" "n \<in> indices (r_nodes g)"
  then show "set (succ_list (r_nodes g) n) \<subseteq> indices (r_nodes g)"
    using nodes_ok_sets(3) nodes_ok_idx(2) by (simp add: fwd_valid_def succ_list_def)
next
  fix s assume "fwd_valid g s" "r_stack s = []"
  then show "forward_loop ub s = Some (s, True)" by (subst forward_loop.simps) simp
next
  fix s st n
  assume v: "fwd_valid g s" and st: "r_stack s = st @ [n]" and n: "n \<in> indices (r_nodes g)"
    and m: "n \<in> visited_set (r_nodes s)"
  note sm = search_mark [of "r_nodes s" "r_nodes g" n]
  have "forward_loop ub s = forward_loop ub (s\<lparr>r_stack := st\<rparr>)"
    using v n m sm by (subst forward_loop.simps) (simp add: st fwd_valid_def search_frame_def)
  then show "\<exists>s'. forward_loop ub s = forward_loop ub s' \<and> fwd_valid g s' \<and> r_stack s' = st \<and>
      visited_set (r_nodes s') = visited_set (r_nodes s) \<and> r_deltaf s' = r_deltaf s"
    using v by (intro exI [of _ "s\<lparr>r_stack := st\<rparr>"]) (simp add: fwd_valid_def search_frame_def)
next
  fix s st n
  assume v: "fwd_valid g s" and st: "r_stack s = st @ [n]" and n: "n \<in> indices (r_nodes g)"
    and new: "n \<notin> visited_set (r_nodes s)"
    and "\<exists>w\<in>set (succ_list (r_nodes g) n). rank_at (r_nodes g) w = ub"
  then show "\<exists>s'. forward_loop ub s = Some (s', False) \<and> fwd_valid g s' \<and>
      visited_set (r_nodes s') = insert n (visited_set (r_nodes s)) \<and> r_deltaf s' = r_deltaf s @ [n]"
    using forward_visit(1) [OF v st n new, of ub] v search_mark(5,6) [of "r_nodes s" "r_nodes g" n]
    by (fastforce simp: fwd_valid_def search_frame_def)
next
  fix s st n
  assume v: "fwd_valid g s" and st: "r_stack s = st @ [n]" and n: "n \<in> indices (r_nodes g)"
    and new: "n \<notin> visited_set (r_nodes s)"
    and nostop: "\<forall>w\<in>set (succ_list (r_nodes g) n). rank_at (r_nodes g) w \<noteq> ub"
  show "\<exists>s'. forward_loop ub s = forward_loop ub s' \<and> fwd_valid g s' \<and>
      visited_set (r_nodes s') = insert n (visited_set (r_nodes s)) \<and>
      r_deltaf s' = r_deltaf s @ [n] \<and>
      r_stack s' = st @ filter (\<lambda>w. w \<notin> insert n (visited_set (r_nodes s)) \<and>
        rank_at (r_nodes g) w < ub) (succ_list (r_nodes g) n)"
    by (intro exI conjI, rule forward_visit(2) [OF v st n new nostop])
      (use v n search_mark(5,6) [of "r_nodes s" "r_nodes g" n] in
        \<open>simp_all add: fwd_valid_def search_frame_def\<close>)
qed

section \<open>The backward search\<close>

lemma backward_scan_spec:
  assumes "set ws \<subseteq> indices nodes" "length nodes < 2 ^ 31"
  shows "backward_scan nodes lb ws st =
      Some (st @ filter (\<lambda>w. w \<notin> visited_set nodes \<and> lb < rank_at nodes w) ws)"
  using assms
proof (induction ws arbitrary: st)
  case Nil
  then show ?case by simp
next
  case (Cons w ws)
  have w: "idx w = nat w" "nat w < length nodes" "w \<in> indices nodes"
    using Cons.prems by (auto simp: indices_def idx_nat)
  show ?case
    using Cons.IH [of st] Cons.IH [of "st @ [w]"] Cons.prems w
    by (auto simp: rank_at_def visited_set_def)
qed

definition bwd_valid :: "rep \<Rightarrow> rep \<Rightarrow> bool" where
  "bwd_valid g r \<longleftrightarrow> nodes_ok (r_nodes g) \<and> search_frame g r \<and> r_deltaf r = r_deltaf g"

definition backward_run :: "int \<Rightarrow> rep \<Rightarrow> (rep \<times> bool) option" where
  "backward_run lb r = map_option (\<lambda>r'. (r', True)) (backward_loop lb r)"

lemma backward_visit:
  assumes v: "bwd_valid g r" and st: "r_stack r = st @ [n]" and n: "n \<in> indices (r_nodes g)"
    and new: "n \<notin> visited_set (r_nodes r)"
  defines "nodes' \<equiv> (r_nodes r)[nat n := (r_nodes r ! nat n)\<lparr>n_visited := True\<rparr>]"
  shows "backward_loop lb r = backward_loop lb (r\<lparr>r_nodes := nodes', r_deltab := r_deltab r @ [n],
        r_stack := st @ filter (\<lambda>w. w \<notin> insert n (visited_set (r_nodes r)) \<and> lb < rank_at (r_nodes g) w)
          (pred_list (r_nodes g) n)\<rparr>)"
proof -
  have ok: "nodes_ok (r_nodes g)" and fr: "map unmark (r_nodes r) = map unmark (r_nodes g)"
    using v by (simp_all add: bwd_valid_def search_frame_def)
  note m = search_mark [OF fr ok n]
  let ?ws = "pred_list (r_nodes g) n"
  have ws: "set ?ws \<subseteq> indices nodes'"
    using nodes_ok_sets(4) [OF ok nodes_ok_idx(2) [OF ok n]] unmark_indices [OF m(5)]
    by (simp add: pred_list_def nodes'_def)
  have len: "length nodes' < 2 ^ 31"
    using nodes_ok_length [OF ok] unmark_length [OF fr] by (simp add: nodes'_def)
  have rk: "rank_at nodes' w = rank_at (r_nodes g) w" if "w \<in> set ?ws" for w
    using rank_at_unmark [OF m(5)] ws that unmark_indices [OF m(5)] by (auto simp: nodes'_def)
  have vis: "visited_set nodes' = insert n (visited_set (r_nodes r))"
    by (simp add: nodes'_def m(6))
  have "filter (\<lambda>w. w \<notin> visited_set nodes' \<and> lb < rank_at nodes' w) ?ws =
        filter (\<lambda>w. w \<notin> insert n (visited_set (r_nodes r)) \<and> lb < rank_at (r_nodes g) w) ?ws"
    unfolding vis by (rule filter_cong [OF refl]) (simp add: rk)
  then have scan: "backward_scan nodes' lb ?ws st = Some (st @
      filter (\<lambda>w. w \<notin> insert n (visited_set (r_nodes r)) \<and> lb < rank_at (r_nodes g) w) ?ws)"
    using backward_scan_spec [OF ws len, of lb st] by simp
  show ?thesis
    using new m(4) scan by (subst backward_loop.simps)
      (simp add: st m(3) m(1) m(2) m(8) nodes'_def pred_list_def)
qed

interpretation bwd: dfs_loop "backward_run lb" r_stack "\<lambda>r. visited_set (r_nodes r)" r_deltab
  "indices (r_nodes g)" "pred_list (r_nodes g)" "\<lambda>w. lb < rank_at (r_nodes g) w"
  "\<lambda>_. False" "bwd_valid g"
  for g lb
proof
  show "finite (indices (r_nodes g))" by (simp add: indices_def)
next
  fix s n assume "bwd_valid g s" "n \<in> indices (r_nodes g)"
  then show "set (pred_list (r_nodes g) n) \<subseteq> indices (r_nodes g)"
    using nodes_ok_sets(4) nodes_ok_idx(2) by (simp add: bwd_valid_def pred_list_def)
next
  fix s assume "bwd_valid g s" "r_stack s = []"
  then show "backward_run lb s = Some (s, True)"
    unfolding backward_run_def by (subst backward_loop.simps) simp
next
  fix s st n
  assume v: "bwd_valid g s" and st: "r_stack s = st @ [n]" and n: "n \<in> indices (r_nodes g)"
    and m: "n \<in> visited_set (r_nodes s)"
  note sm = search_mark [of "r_nodes s" "r_nodes g" n]
  have "backward_loop lb s = backward_loop lb (s\<lparr>r_stack := st\<rparr>)"
    using v n m sm by (subst backward_loop.simps) (simp add: st bwd_valid_def search_frame_def)
  then show "\<exists>s'. backward_run lb s = backward_run lb s' \<and> bwd_valid g s' \<and> r_stack s' = st \<and>
      visited_set (r_nodes s') = visited_set (r_nodes s) \<and> r_deltab s' = r_deltab s"
    using v by (intro exI [of _ "s\<lparr>r_stack := st\<rparr>"])
      (simp add: bwd_valid_def search_frame_def backward_run_def)
next
  fix s st n
  assume "\<exists>w\<in>set (pred_list (r_nodes g) n). False"
  then show "\<exists>s'. backward_run lb s = Some (s', False) \<and> bwd_valid g s' \<and>
      visited_set (r_nodes s') = insert n (visited_set (r_nodes s)) \<and> r_deltab s' = r_deltab s @ [n]"
    by simp
next
  fix s st n
  assume v: "bwd_valid g s" and st: "r_stack s = st @ [n]" and n: "n \<in> indices (r_nodes g)"
    and new: "n \<notin> visited_set (r_nodes s)"
  show "\<exists>s'. backward_run lb s = backward_run lb s' \<and> bwd_valid g s' \<and>
      visited_set (r_nodes s') = insert n (visited_set (r_nodes s)) \<and>
      r_deltab s' = r_deltab s @ [n] \<and>
      r_stack s' = st @ filter (\<lambda>w. w \<notin> insert n (visited_set (r_nodes s)) \<and>
        lb < rank_at (r_nodes g) w) (pred_list (r_nodes g) n)"
    unfolding backward_run_def
    by (intro exI conjI, rule arg_cong [OF backward_visit [OF v st n new]])
      (use v n search_mark(5,6) [of "r_nodes s" "r_nodes g" n] in
        \<open>simp_all add: bwd_valid_def search_frame_def\<close>)
qed

end
