(* ===== verification/Graph_Order.thy ===== *)
theory Graph_Order
  imports Graph_Search
begin

text \<open>
  The rank assignment of \<^verbatim>\<open>GraphCycles\<close> (Pearce and Kelly). The first part is about lists and
  rank functions: merging two sorted rank lists and handing the ranks out first to the backward
  set, then to the forward set, restores the topological order. The second part shows that
  \<open>reorder\<close> does just that.
\<close>

section \<open>Merging rank lists\<close>

lemma length_std_merge [simp]: "length (std_merge xs ys) = length xs + length ys"
  by (induction xs ys rule: std_merge.induct) auto

lemma set_std_merge [simp]: "set (std_merge xs ys) = set xs \<union> set ys"
  by (induction xs ys rule: std_merge.induct) auto

lemma sorted_std_merge: "sorted xs \<Longrightarrow> sorted ys \<Longrightarrow> sorted (std_merge xs ys)"
  by (induction xs ys rule: std_merge.induct) force+

lemma mset_std_merge: "mset (std_merge xs ys) = mset xs + mset ys"
  by (induction xs ys rule: std_merge.induct) auto

lemma sorted_nth_Suc: "sorted (x # xs) \<Longrightarrow> i < length xs \<Longrightarrow> (x # xs) ! i \<le> xs ! i"
  using sorted_nth_mono [of "x # xs" i "Suc i"] by simp

lemma std_merge_left:
  "sorted xs \<Longrightarrow> sorted ys \<Longrightarrow> i < length xs \<Longrightarrow> std_merge xs ys ! i \<le> xs ! i"
proof (induction xs ys arbitrary: i rule: std_merge.induct)
  case (3 x xs y ys)
  show ?case
  proof (cases "y < x")
    case True
    show ?thesis
    proof (cases i)
      case 0
      then show ?thesis using True by simp
    next
      case (Suc k)
      then have "std_merge (x # xs) ys ! k \<le> (x # xs) ! k" using 3 True by simp
      also have "\<dots> \<le> xs ! k" using 3(3,5) Suc by (intro sorted_nth_Suc) simp_all
      finally show ?thesis using True Suc by simp
    qed
  next
    case False
    then show ?thesis using 3 by (cases i) simp_all
  qed
qed simp_all

lemma std_merge_right:
  "sorted xs \<Longrightarrow> sorted ys \<Longrightarrow> j < length ys \<Longrightarrow> ys ! j \<le> std_merge xs ys ! (length xs + j)"
proof (induction xs ys arbitrary: j rule: std_merge.induct)
  case (3 x xs y ys)
  show ?case
  proof (cases "y < x")
    case True
    show ?thesis
    proof (cases j)
      case 0
      have "length xs < length (std_merge (x # xs) ys)" by simp
      then have "std_merge (x # xs) ys ! length xs \<in> set (std_merge (x # xs) ys)" by (rule nth_mem)
      then show ?thesis using 3(3,4) True 0 by auto
    next
      case (Suc k)
      then show ?thesis using 3 True by simp
    qed
  next
    case False
    then show ?thesis using 3 by simp
  qed
qed simp_all

section \<open>The new ranks restore the order\<close>

text \<open>
  \<open>E\<close> is the graph before the insertion, \<open>(x, y)\<close> the new edge with \<open>rk y < rk x\<close>; \<open>F\<close> and \<open>B\<close> are
  what the forward search from \<open>y\<close> and the backward search from \<open>x\<close> found.
\<close>

lemma path_ranks:
  assumes "\<forall>(u, v)\<in>E. rk u < (rk v :: int)" "(u, v) \<in> E\<^sup>*"
  shows "rk u \<le> rk v"
  using assms(2) by (induction rule: rtrancl_induct) (use assms(1) in force)+

lemma forward_region:
  assumes inc: "\<forall>(u, v)\<in>E. rk u < (rk v :: int)"
    and F: "y \<in> F" "\<forall>u\<in>F. \<forall>w. (u, w) \<in> E \<longrightarrow> rk w \<noteq> rk x \<and> (rk w < rk x \<longrightarrow> w \<in> F)"
    and "rk y < rk x"
  shows "(y, x) \<notin> E\<^sup>*"
proof
  assume "(y, x) \<in> E\<^sup>*"
  then obtain u where u: "(y, u) \<in> E\<^sup>*" "(u, x) \<in> E"
    using assms(4) by (auto elim: rtranclE)
  have "rk v < rk x \<longrightarrow> v \<in> F" if "(y, v) \<in> E\<^sup>*" for v
    using that
  proof (induction rule: rtrancl_induct)
    case base
    then show ?case using F by simp
  next
    case (step v w)
    then have "rk v < rk w" using inc by auto
    then show ?case using step F(2) by auto
  qed
  then have "u \<in> F" using u inc by auto
  then show False using u(2) F(2) by blast
qed

lemma rank_restore:
  fixes rk rk' :: "int \<Rightarrow> int"
  assumes inc: "\<forall>(u, v)\<in>E. rk u < rk v" and nopath: "(y, x) \<notin> E\<^sup>*"
    and F: "\<And>u. u \<in> F \<Longrightarrow> (y, u) \<in> E\<^sup>* \<and> rk u < rk x" "y \<in> F"
      "\<And>u w. u \<in> F \<Longrightarrow> (u, w) \<in> E \<Longrightarrow> rk w \<noteq> rk x \<and> (rk w < rk x \<longrightarrow> w \<in> F)"
    and B: "\<And>u. u \<in> B \<Longrightarrow> (u, x) \<in> E\<^sup>* \<and> rk y < rk u" "x \<in> B"
      "\<And>u w. u \<in> B \<Longrightarrow> (w, u) \<in> E \<Longrightarrow> rk y < rk w \<longrightarrow> w \<in> F \<union> B"
    and y_only: "\<And>u. rk u = rk y \<Longrightarrow> (u, v) \<in> E \<Longrightarrow> u = y"
    and field: "insert (x, y) E \<subseteq> I \<times> I"
    and same: "\<And>u. u \<in> I \<Longrightarrow> u \<notin> F \<union> B \<Longrightarrow> rk' u = rk u"
    and range: "\<And>u. u \<in> F \<union> B \<Longrightarrow> rk' u \<in> rk ` (F \<union> B)"
    and FF: "\<And>u v. u \<in> F \<Longrightarrow> v \<in> F \<Longrightarrow> rk u < rk v \<Longrightarrow> rk' u < rk' v"
    and BB: "\<And>u v. u \<in> B \<Longrightarrow> v \<in> B \<Longrightarrow> rk u < rk v \<Longrightarrow> rk' u < rk' v"
    and BF: "\<And>u v. u \<in> B \<Longrightarrow> v \<in> F \<Longrightarrow> rk' u < rk' v"
    and up: "\<And>u. u \<in> F \<Longrightarrow> rk u \<le> rk' u" and down: "\<And>u. u \<in> B \<Longrightarrow> rk' u \<le> rk u"
    and edge: "(u, v) \<in> insert (x, y) E"
  shows "rk' u < rk' v"
proof (cases "(u, v) = (x, y)")
  case True
  then show ?thesis using BF [OF B(2) F(2)] by simp
next
  case False
  then have e: "(u, v) \<in> E" using edge by auto
  then have lt: "rk u < rk v" using inc by auto
  have I: "u \<in> I" "v \<in> I" using e field by auto
  have bounds: "rk y \<le> rk' w \<and> rk' w \<le> rk x" if w: "w \<in> F \<union> B" for w
  proof -
    have "rk y \<le> rk z \<and> rk z \<le> rk x" if "z \<in> F \<union> B" for z
      using that
    proof
      assume "z \<in> F"
      then show ?thesis using F(1) [of z] path_ranks [OF inc, of y z] by auto
    next
      assume "z \<in> B"
      then show ?thesis using B(1) [of z] path_ranks [OF inc, of z x] by auto
    qed
    then show ?thesis using range [OF w] by auto
  qed
  have cross: False if "u \<in> F" "v \<in> B"
  proof -
    have "(y, v) \<in> E\<^sup>*" using F(1) [OF that(1)] e by (auto intro: rtrancl_into_rtrancl)
    then have "(y, x) \<in> E\<^sup>*" using B(1) [OF that(2)] by (auto intro: rtrancl_trans)
    then show False using nopath by simp
  qed
  consider "u \<in> B" "v \<in> B" | "u \<in> B" "v \<in> F" | "u \<in> B" "v \<notin> F \<union> B"
    | "u \<in> F" "v \<in> F" | "u \<in> F" "v \<in> B" | "u \<in> F" "v \<notin> F \<union> B"
    | "u \<notin> F \<union> B" "v \<in> F" | "u \<notin> F \<union> B" "v \<in> B" | "u \<notin> F \<union> B" "v \<notin> F \<union> B"
    by blast
  then show ?thesis
  proof cases
    case 1 then show ?thesis using BB lt by blast
  next
    case 2 then show ?thesis using BF by blast
  next
    case 3 then show ?thesis using down [of u] same [OF I(2)] lt by simp
  next
    case 4 then show ?thesis using FF lt by blast
  next
    case 5 then show ?thesis using cross by blast
  next
    case 6
    then have "rk x < rk v" using F(3) [OF 6(1) e] by auto
    then show ?thesis using 6 bounds [of u] same [OF I(2)] by simp
  next
    case 7 then show ?thesis using up [of v] same [OF I(1)] lt by simp
  next
    case 8
    have "rk u \<le> rk y" using B(3) [OF 8(2) e] 8(1) by auto
    moreover have "rk u \<noteq> rk y" using y_only [OF _ e] F(2) 8(1) by auto
    ultimately show ?thesis using 8 bounds [of v] same [OF I(1)] by simp
  next
    case 9 then show ?thesis using same [OF I(1)] same [OF I(2)] lt by simp
  qed
qed

section \<open>What reordering does to the nodes\<close>

definition strip :: "node \<Rightarrow> node" where
  "strip n = n\<lparr>n_visited := False, n_rank := 0\<rparr>"

lemma strip_simps [simp]:
  "n_version (strip n) = n_version n" "n_next (strip n) = n_next n" "n_ptr (strip n) = n_ptr n"
  "n_in (strip n) = n_in n" "n_out (strip n) = n_out n" "strip (n\<lparr>n_visited := b\<rparr>) = strip n"
  "strip (n\<lparr>n_rank := k\<rparr>) = strip n" "strip (unmark n) = strip n"
  by (simp_all add: strip_def unmark_def)

lemma strip_unmark: "map unmark nodes' = map unmark nodes \<Longrightarrow> map strip nodes' = map strip nodes"
proof -
  assume "map unmark nodes' = map unmark nodes"
  then have "map strip (map unmark nodes') = map strip (map unmark nodes)" by simp
  then show ?thesis by (simp add: comp_def)
qed

lemma sort_by_rank_spec:
  assumes "nodes_ok nodes" "set ds \<subseteq> indices nodes"
  shows "sort_by_rank nodes ds = Some (sort_key (rank_at nodes) ds)"
proof -
  have i: "idx a = nat a" "nat a < length nodes" if "a \<in> set ds" for a
    using nodes_ok_idx [OF assms(1)] that assms(2) by auto
  have "sort_key (\<lambda>a. n_rank (nodes ! idx a)) ds = sort_key (rank_at nodes) ds"
    by (rule sort_key_eqI) (simp add: rank_at_def i)
  then show ?thesis by (simp add: sort_by_rank_def list_all_iff i)
qed

lemma visited_set_clear:
  assumes "0 \<le> w" "nat w < length nodes"
  shows "visited_set (nodes[nat w := (nodes ! nat w)\<lparr>n_visited := False\<rparr>]) = visited_set nodes - {w}"
  using assms by (auto simp: visited_set_def indices_def nth_upd eq_nat_nat_iff split: if_splits)

lemma move_to_list_spec:
  assumes "set ws \<subseteq> indices nodes" "length nodes < 2 ^ 31"
  shows "\<exists>nodes'. move_to_list nodes ws dst = Some (nodes', map (rank_at nodes) ws, dst @ ws) \<and>
    map unmark nodes' = map unmark nodes \<and> visited_set nodes' = visited_set nodes - set ws"
  using assms
proof (induction ws arbitrary: nodes dst)
  case Nil
  then show ?case by simp
next
  case (Cons w ws)
  have w: "idx w = nat w" "nat w < length nodes" "0 \<le> w"
    using Cons.prems by (auto simp: indices_def idx_nat)
  let ?n = "nodes[nat w := (nodes ! nat w)\<lparr>n_visited := False\<rparr>]"
  have um: "map unmark ?n = map unmark nodes" by (rule unmark_update) simp
  have ix: "indices ?n = indices nodes" by (rule unmark_indices [OF um])
  obtain nodes' where n': "move_to_list ?n ws (dst @ [w]) =
      Some (nodes', map (rank_at ?n) ws, (dst @ [w]) @ ws)"
    "map unmark nodes' = map unmark ?n" "visited_set nodes' = visited_set ?n - set ws"
    using Cons.IH [of ?n "dst @ [w]"] Cons.prems ix by auto
  have "map (rank_at ?n) ws = map (rank_at nodes) ws"
    using Cons.prems(1) rank_at_unmark [OF um] by (intro map_cong) auto
  then show ?case
    using n' w um visited_set_clear [OF w(3,2)] by (auto simp: rank_at_def)
qed

lemma clear_visited_spec:
  assumes "set ds \<subseteq> indices nodes" "length nodes < 2 ^ 31"
  shows "\<exists>nodes'. clear_visited ds nodes = Some nodes' \<and> map unmark nodes' = map unmark nodes \<and>
    visited_set nodes' = visited_set nodes - set ds"
  using assms
proof (induction ds arbitrary: nodes)
  case Nil
  then show ?case by simp
next
  case (Cons w ws)
  have w: "idx w = nat w" "nat w < length nodes" "0 \<le> w"
    using Cons.prems by (auto simp: indices_def idx_nat)
  let ?n = "nodes[nat w := (nodes ! nat w)\<lparr>n_visited := False\<rparr>]"
  have um: "map unmark ?n = map unmark nodes" by (rule unmark_update) simp
  have "set ws \<subseteq> indices ?n" using Cons.prems unmark_indices [OF um] by simp
  then obtain nodes' where "clear_visited ws ?n = Some nodes'" "map unmark nodes' = map unmark ?n"
    "visited_set nodes' = visited_set ?n - set ws"
    using Cons.IH [of ?n] Cons.prems(2) by auto
  then show ?case
    using w um visited_set_clear [OF w(3,2)] by (auto simp: modify_def)
qed

lemma assign_ranks_spec:
  assumes "set ws \<subseteq> indices nodes" "length nodes < 2 ^ 31" "length ks = length ws" "distinct ws"
  shows "\<exists>nodes'. assign_ranks nodes ws ks = Some nodes' \<and> map strip nodes' = map strip nodes \<and>
    visited_set nodes' = visited_set nodes \<and> (\<forall>i<length ws. rank_at nodes' (ws ! i) = ks ! i) \<and>
    (\<forall>u\<in>indices nodes - set ws. rank_at nodes' u = rank_at nodes u)"
  using assms
proof (induction ws arbitrary: nodes ks)
  case Nil
  then show ?case by simp
next
  case (Cons w ws)
  then obtain k ks' where ks: "ks = k # ks'" by (cases ks) auto
  have w: "idx w = nat w" "nat w < length nodes" "0 \<le> w"
    using Cons.prems by (auto simp: indices_def idx_nat)
  let ?n = "nodes[nat w := (nodes ! nat w)\<lparr>n_rank := k\<rparr>]"
  have st: "map strip ?n = map strip nodes" by (rule map_nth_update) simp
  have vis: "visited_set ?n = visited_set nodes"
    by (auto simp: visited_set_def indices_def nth_upd)
  have rk: "rank_at ?n u = (if u = w then k else rank_at nodes u)" if "0 \<le> u" for u
    using that w by (auto simp: rank_at_def nth_upd eq_nat_nat_iff)
  have ix: "indices ?n = indices nodes" by (simp add: indices_def)
  have "set ws \<subseteq> indices ?n" using Cons.prems(1) ix by simp
  then obtain nodes' where n': "assign_ranks ?n ws ks' = Some nodes'" "map strip nodes' = map strip ?n"
    "visited_set nodes' = visited_set ?n" "\<forall>i<length ws. rank_at nodes' (ws ! i) = ks' ! i"
    "\<forall>u\<in>indices ?n - set ws. rank_at nodes' u = rank_at ?n u"
    using Cons.IH [of ?n ks'] Cons.prems ks by auto
  have at: "rank_at nodes' ((w # ws) ! i) = ks ! i" if "i < length (w # ws)" for i
  proof (cases i)
    case 0
    have "w \<in> indices ?n - set ws" using Cons.prems(1,4) ix by simp
    then show ?thesis using n'(5) rk [OF w(3)] 0 ks by simp
  next
    case (Suc j)
    then show ?thesis using n'(4) that ks by simp
  qed
  have "rank_at nodes' u = rank_at nodes u" if "u \<in> indices nodes - set (w # ws)" for u
    using n'(5) rk [of u] that ix by (auto simp: indices_def)
  then show ?case
    using n' st vis at w ks by (auto simp: modify_def)
qed

definition ranks_ok :: "node list \<Rightarrow> bool" where
  "ranks_ok nodes \<longleftrightarrow> bij_betw (rank_at nodes) (indices nodes) (indices nodes)"

lemma ranks_ok_inj: "ranks_ok nodes \<Longrightarrow> u \<in> indices nodes \<Longrightarrow> v \<in> indices nodes \<Longrightarrow>
    rank_at nodes u = rank_at nodes v \<Longrightarrow> u = v"
  by (auto simp: ranks_ok_def bij_betw_def dest: inj_onD)

lemma strip_length: "map strip nodes' = map strip nodes \<Longrightarrow> length nodes' = length nodes"
  by (metis length_map)

lemma strip_indices: "map strip nodes' = map strip nodes \<Longrightarrow> indices nodes' = indices nodes"
  by (drule strip_length) (simp add: indices_def)

lemma strictly_sorted_nth:
  "sorted xs \<Longrightarrow> distinct xs \<Longrightarrow> i < j \<Longrightarrow> j < length xs \<Longrightarrow> xs ! i < (xs ! j :: int)"
  using sorted_nth_mono [of xs i j] nth_eq_iff_index_eq [of xs i j] by fastforce

lemma merged_ranks:
  fixes rk rk' :: "int \<Rightarrow> int"
  assumes dis: "distinct bs" "distinct fs" "set bs \<inter> set fs = {}"
    and inj: "inj_on rk (set bs \<union> set fs)"
    and sorted: "sorted (map rk bs)" "sorted (map rk fs)"
    and new: "\<forall>i<length (bs @ fs). rk' ((bs @ fs) ! i) = std_merge (map rk bs) (map rk fs) ! i"
  shows "u \<in> set fs \<Longrightarrow> v \<in> set fs \<Longrightarrow> rk u < rk v \<Longrightarrow> rk' u < rk' v"
    and "u \<in> set bs \<Longrightarrow> v \<in> set bs \<Longrightarrow> rk u < rk v \<Longrightarrow> rk' u < rk' v"
    and "u \<in> set bs \<Longrightarrow> v \<in> set fs \<Longrightarrow> rk' u < rk' v"
    and "u \<in> set fs \<Longrightarrow> rk u \<le> rk' u"
    and "u \<in> set bs \<Longrightarrow> rk' u \<le> rk u"
    and "rk' ` (set bs \<union> set fs) = rk ` (set bs \<union> set fs)"
proof -
  let ?m = "std_merge (map rk bs) (map rk fs)"
  have ms: "sorted ?m" by (rule sorted_std_merge [OF sorted])
  have "distinct (map rk (bs @ fs))"
    using dis inj by (simp add: distinct_map image_Un inj_on_Un) blast
  moreover have "mset (map rk (bs @ fs)) = mset ?m" by (simp add: mset_std_merge)
  ultimately have md: "distinct ?m" using mset_eq_imp_distinct_iff by blast
  have less: "?m ! i < ?m ! j" if "i < j" "j < length bs + length fs" for i j
    using strictly_sorted_nth [OF ms md that(1)] that(2) by simp
  have b: "rk' (bs ! i) = ?m ! i" if "i < length bs" for i
    using new [rule_format, of i] that by (simp add: nth_append)
  have f: "rk' (fs ! j) = ?m ! (length bs + j)" if "j < length fs" for j
    using new [rule_format, of "length bs + j"] that by (simp add: nth_append)
  have order: "i < j" if "sorted (map rk xs)" "rk (xs ! i) < rk (xs ! j)" "i < length xs" for i j xs
    using sorted_nth_mono [OF that(1), of j i] that(2,3) by (cases "i < j") auto
  show "rk' u < rk' v" if uv: "u \<in> set fs" "v \<in> set fs" "rk u < rk v"
  proof -
    from uv obtain i j where ij: "i < length fs" "u = fs ! i" "j < length fs" "v = fs ! j"
      by (auto simp: in_set_conv_nth)
    then have "i < j" using order [OF sorted(2)] uv(3) by simp
    then show ?thesis using less [of "length bs + i" "length bs + j"] ij f by simp
  qed
  show "rk' u < rk' v" if uv: "u \<in> set bs" "v \<in> set bs" "rk u < rk v"
  proof -
    from uv obtain i j where ij: "i < length bs" "u = bs ! i" "j < length bs" "v = bs ! j"
      by (auto simp: in_set_conv_nth)
    then have "i < j" using order [OF sorted(1)] uv(3) by simp
    then show ?thesis using less [of i j] ij b by simp
  qed
  show "rk' u < rk' v" if uv: "u \<in> set bs" "v \<in> set fs"
  proof -
    from uv obtain i j where ij: "i < length bs" "u = bs ! i" "j < length fs" "v = fs ! j"
      by (auto simp: in_set_conv_nth)
    then show ?thesis using less [of i "length bs + j"] b f by simp
  qed
  show "rk u \<le> rk' u" if "u \<in> set fs"
  proof -
    from that obtain j where j: "j < length fs" "u = fs ! j" by (auto simp: in_set_conv_nth)
    then show ?thesis using std_merge_right [OF sorted, of j] f by simp
  qed
  show "rk' u \<le> rk u" if "u \<in> set bs"
  proof -
    from that obtain i where i: "i < length bs" "u = bs ! i" by (auto simp: in_set_conv_nth)
    then show ?thesis using std_merge_left [OF sorted, of i] b by simp
  qed
  have "map rk' (bs @ fs) = ?m"
    using new by (intro nth_equalityI) (simp_all del: map_append)
  then have "set (map rk' (bs @ fs)) = set ?m" by simp
  then show "rk' ` (set bs \<union> set fs) = rk ` (set bs \<union> set fs)" by (simp add: image_Un)
qed

text \<open>\<open>reordered\<close>: all that the proof of \<open>rank_restore\<close> needs of the ranks after \<^verbatim>\<open>Reorder\<close>.\<close>

definition reordered :: "(int \<Rightarrow> int) \<Rightarrow> (int \<Rightarrow> int) \<Rightarrow> int set \<Rightarrow> int set \<Rightarrow> int set \<Rightarrow> bool" where
  "reordered rk rk' I B F \<longleftrightarrow>
     (\<forall>u\<in>I - (B \<union> F). rk' u = rk u) \<and> rk' ` (B \<union> F) = rk ` (B \<union> F) \<and>
     (\<forall>u\<in>F. \<forall>v\<in>F. rk u < rk v \<longrightarrow> rk' u < rk' v) \<and>
     (\<forall>u\<in>B. \<forall>v\<in>B. rk u < rk v \<longrightarrow> rk' u < rk' v) \<and>
     (\<forall>u\<in>B. \<forall>v\<in>F. rk' u < rk' v) \<and>
     (\<forall>u\<in>F. rk u \<le> rk' u) \<and> (\<forall>u\<in>B. rk' u \<le> rk u)"

lemma reorderedD:
  assumes "reordered rk rk' I B F"
  shows "u \<in> I \<Longrightarrow> u \<notin> F \<union> B \<Longrightarrow> rk' u = rk u"
    and "u \<in> F \<union> B \<Longrightarrow> rk' u \<in> rk ` (F \<union> B)"
    and "u \<in> F \<Longrightarrow> v \<in> F \<Longrightarrow> rk u < rk v \<Longrightarrow> rk' u < rk' v"
    and "u \<in> B \<Longrightarrow> v \<in> B \<Longrightarrow> rk u < rk v \<Longrightarrow> rk' u < rk' v"
    and "u \<in> B \<Longrightarrow> v \<in> F \<Longrightarrow> rk' u < rk' v"
    and "u \<in> F \<Longrightarrow> rk u \<le> rk' u"
    and "u \<in> B \<Longrightarrow> rk' u \<le> rk u"
proof -
  have "rk' ` (F \<union> B) = rk ` (F \<union> B)"
    using assms by (simp add: reordered_def Un_commute)
  then show "u \<in> F \<union> B \<Longrightarrow> rk' u \<in> rk ` (F \<union> B)" by blast
qed (use assms in \<open>auto simp: reordered_def\<close>)

lemma reorder_spec:
  assumes ok: "nodes_ok (r_nodes r)" and rks: "ranks_ok (r_nodes r)"
    and B: "distinct (r_deltab r)" "set (r_deltab r) \<subseteq> indices (r_nodes r)"
    and F: "distinct (r_deltaf r)" "set (r_deltaf r) \<subseteq> indices (r_nodes r)"
    and disj: "set (r_deltab r) \<inter> set (r_deltaf r) = {}"
  shows "\<exists>r'. reorder r = Some r' \<and> map strip (r_nodes r') = map strip (r_nodes r) \<and>
    visited_set (r_nodes r') = visited_set (r_nodes r) - (set (r_deltab r) \<union> set (r_deltaf r)) \<and>
    r_free r' = r_free r \<and> r_heads r' = r_heads r \<and>
    reordered (rank_at (r_nodes r)) (rank_at (r_nodes r')) (indices (r_nodes r))
      (set (r_deltab r)) (set (r_deltaf r))"
proof -
  let ?n = "r_nodes r" and ?rk = "rank_at (r_nodes r)"
  let ?bs = "sort_key ?rk (r_deltab r)" and ?fs = "sort_key ?rk (r_deltaf r)"
  note len = nodes_ok_length [OF ok]
  have bs: "sort_by_rank ?n (r_deltab r) = Some ?bs" by (rule sort_by_rank_spec [OF ok B(2)])
  have fs: "sort_by_rank ?n (r_deltaf r) = Some ?fs" by (rule sort_by_rank_spec [OF ok F(2)])
  obtain n1 where n1: "move_to_list ?n ?bs [] = Some (n1, map ?rk ?bs, ?bs)"
    "map unmark n1 = map unmark ?n" "visited_set n1 = visited_set ?n - set ?bs"
    using move_to_list_spec [of ?bs ?n "[]"] B(2) len by auto
  have ix1: "indices n1 = indices ?n" by (rule unmark_indices [OF n1(2)])
  obtain n2 where n2: "move_to_list n1 ?fs ?bs = Some (n2, map (rank_at n1) ?fs, ?bs @ ?fs)"
    "map unmark n2 = map unmark n1" "visited_set n2 = visited_set n1 - set ?fs"
    using move_to_list_spec [of ?fs n1 ?bs] F(2) len ix1 unmark_length [OF n1(2)] by auto
  have un: "map unmark n2 = map unmark ?n" using n2(2) n1(2) by simp
  have r1: "map (rank_at n1) ?fs = map ?rk ?fs"
    using F(2) rank_at_unmark [OF n1(2)] by (intro map_cong) auto
  have r2: "rank_at n2 u = ?rk u" if "u \<in> indices ?n" for u
    by (rule rank_at_unmark [OF un that])
  have ix: "indices n2 = indices ?n" by (rule unmark_indices [OF un])
  let ?m = "std_merge (map ?rk ?bs) (map ?rk ?fs)"
  obtain n3 where n3: "assign_ranks n2 (?bs @ ?fs) ?m = Some n3" "map strip n3 = map strip n2"
    "visited_set n3 = visited_set n2"
    "\<forall>i<length (?bs @ ?fs). rank_at n3 ((?bs @ ?fs) ! i) = ?m ! i"
    "\<forall>u\<in>indices n2 - set (?bs @ ?fs). rank_at n3 u = rank_at n2 u"
    using assign_ranks_spec [of "?bs @ ?fs" n2 ?m] B F disj ix len unmark_length [OF un] by auto
  have inj: "inj_on ?rk (set ?bs \<union> set ?fs)"
    using B(2) F(2) rks by (auto simp: ranks_ok_def bij_betw_def intro: inj_on_subset)
  have pre: "distinct ?bs" "distinct ?fs" "set ?bs \<inter> set ?fs = {}"
      "sorted (map ?rk ?bs)" "sorted (map ?rk ?fs)"
    using B(1) F(1) disj by (simp_all add: sorted_sort_key)
  note m = merged_ranks [OF pre(1-3) inj pre(4,5) n3(4), unfolded set_sort]
  have "reordered ?rk (rank_at n3) (indices ?n) (set (r_deltab r)) (set (r_deltaf r))"
    unfolding reordered_def
    by (intro conjI ballI impI) (use n3(5) ix r2 in simp, (fact m | erule m | erule (1) m | erule (2) m)+)
  moreover have "map strip n3 = map strip ?n" using n3(2) strip_unmark [OF un] by simp
  moreover have "visited_set n3 = visited_set ?n - (set (r_deltab r) \<union> set (r_deltaf r))"
    using n3(3) n2(3) n1(3) by auto
  moreover have "reorder r = Some (r\<lparr>r_nodes := n3, r_deltab := map ?rk ?bs,
      r_deltaf := map ?rk ?fs, r_list := ?bs @ ?fs, r_merged := ?m\<rparr>)"
    by (simp add: reorder_def bs fs n1(1) n2(1) r1 n3(1) Let_def)
  ultimately show ?thesis by auto
qed

lemma reordered_ranks_ok:
  assumes "ranks_ok nodes" "reordered (rank_at nodes) (rank_at nodes') (indices nodes) B F"
    "B \<union> F \<subseteq> indices nodes" "indices nodes' = indices nodes"
  shows "ranks_ok nodes'"
proof -
  let ?I = "indices nodes"
  have I: "?I = (?I - (B \<union> F)) \<union> (B \<union> F)" using assms(3) by blast
  have same: "rank_at nodes' ` (?I - (B \<union> F)) = rank_at nodes ` (?I - (B \<union> F))"
    using assms(2) by (intro image_cong) (auto simp: reordered_def)
  have "rank_at nodes' ` ?I = rank_at nodes' ` (?I - (B \<union> F)) \<union> rank_at nodes' ` (B \<union> F)"
    by (subst I) (rule image_Un)
  also have "\<dots> = rank_at nodes ` (?I - (B \<union> F)) \<union> rank_at nodes ` (B \<union> F)"
    using same assms(2) by (simp add: reordered_def)
  also have "\<dots> = rank_at nodes ` ?I" unfolding image_Un [symmetric] by (rule arg_cong [OF I [symmetric]])
  finally have img: "rank_at nodes' ` ?I = ?I"
    using assms(1) by (simp add: ranks_ok_def bij_betw_def)
  moreover have "inj_on (rank_at nodes') ?I"
    using img by (intro eq_card_imp_inj_on) (simp_all add: indices_def)
  ultimately show ?thesis by (simp add: ranks_ok_def bij_betw_def assms(4))
qed

end
