(* ===== verification/Graph_Edges.thy ===== *)
theory Graph_Edges
  imports Graph_Order
begin

text \<open>
  The abstract graph of a node table and \<^verbatim>\<open>InsertEdge\<close>: the edge is refused exactly when it would
  close a cycle, and otherwise the ranks are a topological order of the larger graph.
\<close>

section \<open>The graph of a node table\<close>

definition edges :: "node list \<Rightarrow> (int \<times> int) set" where
  "edges nodes = {(u, v). u \<in> indices nodes \<and> v \<in> set (succ_list nodes u)}"

definition mirrored :: "node list \<Rightarrow> bool" where
  "mirrored nodes \<longleftrightarrow> (\<forall>u\<in>indices nodes. \<forall>v\<in>indices nodes.
     v \<in> set (succ_list nodes u) \<longleftrightarrow> u \<in> set (pred_list nodes v))"

definition increasing :: "node list \<Rightarrow> bool" where
  "increasing nodes \<longleftrightarrow> (\<forall>(u, v)\<in>edges nodes. rank_at nodes u < rank_at nodes v)"

definition graph_ok :: "node list \<Rightarrow> bool" where
  "graph_ok nodes \<longleftrightarrow> nodes_ok nodes \<and> mirrored nodes \<and> ranks_ok nodes \<and> increasing nodes \<and>
     visited_set nodes = {}"

text \<open>\<open>core\<close> forgets what the graph operations change; the pointer map only depends on it.\<close>

definition core :: "node \<Rightarrow> node" where
  "core n = n\<lparr>n_visited := False, n_rank := 0, n_in := node_set_empty, n_out := node_set_empty\<rparr>"

lemma core_simps [simp]:
  "n_version (core n) = n_version n" "n_next (core n) = n_next n" "n_ptr (core n) = n_ptr n"
  "n_thread (core n) = n_thread n" "n_priority (core n) = n_priority n"
  "n_hold_locks (core n) = n_hold_locks n" "n_hold_count (core n) = n_hold_count n"
  "n_callstack (core n) = n_callstack n"
  "core (n\<lparr>n_in := s\<rparr>) = core n" "core (n\<lparr>n_out := s\<rparr>) = core n" "core (strip n) = core n"
  "core (unmark n) = core n"
  by (simp_all add: core_def strip_def unmark_def)

lemma core_strip: "map strip nodes' = map strip nodes \<Longrightarrow> map core nodes' = map core nodes"
proof -
  assume "map strip nodes' = map strip nodes"
  then have "map core (map strip nodes') = map core (map strip nodes)" by simp
  then show ?thesis by (simp add: comp_def)
qed

lemma core_nth:
  "map core nodes' = map core nodes \<Longrightarrow> k < length nodes \<Longrightarrow> core (nodes' ! k) = core (nodes ! k)"
  by (metis length_map nth_map)

lemma core_length: "map core nodes' = map core nodes \<Longrightarrow> length nodes' = length nodes"
  by (metis length_map)

lemma edges_indices:
  assumes "nodes_ok nodes" "(u, v) \<in> edges nodes"
  shows "u \<in> indices nodes" "v \<in> indices nodes"
  using assms nodes_ok_sets(3) [OF assms(1), of u]
  by (auto simp: edges_def succ_list_def indices_iff)

lemma edges_succ: "u \<in> indices nodes \<Longrightarrow> v \<in> set (succ_list nodes u) \<longleftrightarrow> (u, v) \<in> edges nodes"
  by (simp add: edges_def)

lemma edges_pred:
  assumes "nodes_ok nodes" "mirrored nodes" "v \<in> indices nodes"
  shows "u \<in> set (pred_list nodes v) \<longleftrightarrow> (u, v) \<in> edges nodes"
proof -
  have "u \<in> set (pred_list nodes v) \<Longrightarrow> u \<in> indices nodes"
    using nodes_ok_sets(4) [OF assms(1), of v] assms(3) by (auto simp: pred_list_def indices_iff)
  then show ?thesis
    using assms edges_indices(1) [OF assms(1)] unfolding mirrored_def by (auto simp: edges_succ)
qed

lemma strip_lists:
  assumes "map strip nodes' = map strip nodes" "u \<in> indices nodes"
  shows "succ_list nodes' u = succ_list nodes u" "pred_list nodes' u = pred_list nodes u"
proof -
  have "nat u < length nodes" using assms(2) by (simp add: indices_iff)
  then have e: "strip (nodes' ! nat u) = strip (nodes ! nat u)"
    using assms(1) strip_length [OF assms(1)] by (metis nth_map)
  show "succ_list nodes' u = succ_list nodes u" "pred_list nodes' u = pred_list nodes u"
    using arg_cong [OF e, of n_out] arg_cong [OF e, of n_in]
    by (simp_all add: succ_list_def pred_list_def)
qed

lemma strip_edges: "map strip nodes' = map strip nodes \<Longrightarrow> edges nodes' = edges nodes"
proof -
  assume e: "map strip nodes' = map strip nodes"
  then have "indices nodes' = indices nodes" by (rule strip_indices)
  moreover have "succ_list nodes' u = succ_list nodes u" if "u \<in> indices nodes" for u
    by (rule strip_lists(1) [OF e that])
  ultimately show ?thesis by (auto simp: edges_def)
qed

lemma strip_mirrored:
  "map strip nodes' = map strip nodes \<Longrightarrow> mirrored nodes \<Longrightarrow> mirrored nodes'"
proof -
  assume e: "map strip nodes' = map strip nodes" and m: "mirrored nodes"
  have "indices nodes' = indices nodes" by (rule strip_indices [OF e])
  then show ?thesis using m strip_lists [OF e] by (simp add: mirrored_def)
qed

lemma strip_nodes_ok:
  assumes "map strip nodes' = map strip nodes" "nodes_ok nodes"
  shows "nodes_ok nodes'"
proof -
  have l: "length nodes' = length nodes" by (rule strip_length [OF assms(1)])
  have "\<exists>m\<in>set nodes. n_in n = n_in m \<and> n_out n = n_out m" if "n \<in> set nodes'" for n
  proof -
    have "strip n \<in> strip ` set nodes" using that assms(1) by (metis image_set imageI)
    then obtain m where "m \<in> set nodes" "strip n = strip m" by auto
    then show ?thesis by (metis strip_simps(4,5))
  qed
  then show ?thesis using assms(2) l unfolding nodes_ok_def by metis
qed

section \<open>Writing and erasing one edge\<close>

definition with_edge :: "nat \<Rightarrow> nat \<Rightarrow> node_set \<Rightarrow> node_set \<Rightarrow> node list \<Rightarrow> node list" where
  "with_edge nx ny so si nodes =
     (let nodes1 = nodes[nx := (nodes ! nx)\<lparr>n_out := so\<rparr>]
      in nodes1[ny := (nodes1 ! ny)\<lparr>n_in := si\<rparr>])"

lemma with_edge_core: "map core (with_edge nx ny so si nodes) = map core nodes"
  unfolding with_edge_def Let_def by (simp add: map_nth_update)

lemma with_edge_length [simp]: "length (with_edge nx ny so si nodes) = length nodes"
  by (simp add: with_edge_def Let_def)

lemma with_edge_indices [simp]: "indices (with_edge nx ny so si nodes) = indices nodes"
  by (simp add: indices_def)

lemma with_edge_rank [simp]: "rank_at (with_edge nx ny so si nodes) u = rank_at nodes u"
  by (simp add: with_edge_def Let_def rank_at_def nth_upd)

lemma with_edge_visited [simp]: "visited_set (with_edge nx ny so si nodes) = visited_set nodes"
  by (auto simp: with_edge_def Let_def visited_set_def indices_def nth_upd split: if_splits)

lemma with_edge_succ:
  "0 \<le> u \<Longrightarrow> nx < length nodes \<Longrightarrow>
   succ_list (with_edge nx ny so si nodes) u = (if u = int nx then ns_elems so else succ_list nodes u)"
  by (auto simp: with_edge_def Let_def succ_list_def nth_upd)

lemma with_edge_pred:
  "0 \<le> v \<Longrightarrow> ny < length nodes \<Longrightarrow>
   pred_list (with_edge nx ny so si nodes) v = (if v = int ny then ns_elems si else pred_list nodes v)"
  by (auto simp: with_edge_def Let_def pred_list_def nth_upd)

lemma with_edge_ok:
  assumes ok: "nodes_ok nodes" and xy: "nx < length nodes" "ny < length nodes"
    and s: "ns_inv so" "ns_inv si" "ns_set so \<subseteq> indices nodes" "ns_set si \<subseteq> indices nodes"
  shows "nodes_ok (with_edge nx ny so si nodes)"
proof -
  let ?n = "with_edge nx ny so si nodes"
  have "ns_inv (n_in (?n ! k)) \<and> ns_inv (n_out (?n ! k)) \<and> ns_set (n_in (?n ! k)) \<subseteq> indices nodes \<and>
      ns_set (n_out (?n ! k)) \<subseteq> indices nodes" if "k < length nodes" for k
    using nodes_ok_sets [OF ok, of "int k"] that s
    by (auto simp: with_edge_def Let_def nth_upd)
  then have "\<forall>n\<in>set ?n. ns_inv (n_in n) \<and> ns_inv (n_out n) \<and> ns_set (n_in n) \<subseteq> indices nodes \<and>
      ns_set (n_out n) \<subseteq> indices nodes"
    by (metis in_set_conv_nth with_edge_length)
  then show ?thesis using ok by (simp add: nodes_ok_def indices_def)
qed

text \<open>Both sets change by the same edge, which is added or deleted.\<close>

definition put :: "bool \<Rightarrow> 'a \<Rightarrow> 'a set \<Rightarrow> 'a set" where
  "put b a S = (if b then insert a S else S - {a})"

lemma with_edge_graph:
  assumes ok: "nodes_ok nodes" "mirrored nodes" and xy: "nx < length nodes" "ny < length nodes"
    and s: "ns_set so = put b (int ny) (set (succ_list nodes (int nx)))"
      "ns_set si = put b (int nx) (set (pred_list nodes (int ny)))"
  shows "mirrored (with_edge nx ny so si nodes)"
    and "edges (with_edge nx ny so si nodes) = put b (int nx, int ny) (edges nodes)"
proof -
  let ?n = "with_edge nx ny so si nodes"
  have ge: "0 \<le> u" if "u \<in> indices nodes" for u using that by (simp add: indices_def)
  have x: "int nx \<in> indices nodes" "int ny \<in> indices nodes" using xy by (simp_all add: indices_def)
  have succ: "v \<in> set (succ_list ?n u) \<longleftrightarrow> (u, v) \<in> put b (int nx, int ny) (edges nodes)"
    if "u \<in> indices nodes" for u v
    using with_edge_succ [OF ge [OF that] xy(1), of ny so si] s(1) that x
    by (auto simp: edges_succ put_def split: if_splits)
  have pred: "u \<in> set (pred_list ?n v) \<longleftrightarrow> (u, v) \<in> put b (int nx, int ny) (edges nodes)"
    if "v \<in> indices nodes" for u v
    using with_edge_pred [OF ge [OF that] xy(2), of nx so si] s(2) that x
    by (auto simp: edges_pred [OF ok] put_def split: if_splits)
  show "mirrored ?n"
    using succ pred by (simp add: mirrored_def)
  have "u \<in> indices nodes" if "(u, v) \<in> put b (int nx, int ny) (edges nodes)" for u v
    using that x edges_indices(1) [OF ok(1)] by (auto simp: put_def split: if_splits)
  then show "edges ?n = put b (int nx, int ny) (edges nodes)"
    using succ by (auto simp: edges_def)
qed

lemma erase_edge_spec:
  assumes ok: "nodes_ok nodes" "mirrored nodes" and xy: "nx < length nodes" "ny < length nodes" "nx \<noteq> ny"
  shows "\<exists>nodes'. erase_edge nx ny (int nx) (int ny) nodes = Some nodes' \<and> nodes_ok nodes' \<and>
    mirrored nodes' \<and> edges nodes' = edges nodes - {(int nx, int ny)} \<and>
    map core nodes' = map core nodes \<and> visited_set nodes' = visited_set nodes \<and>
    (\<forall>u. rank_at nodes' u = rank_at nodes u)"
proof -
  obtain so where so: "node_set_erase (int ny) (n_out (nodes ! nx)) = Some so" "ns_inv so"
    "ns_set so = ns_set (n_out (nodes ! nx)) - {int ny}"
    using node_set_erase_spec [of "n_out (nodes ! nx)" "int ny"] nodes_ok_sets(1) [OF ok(1), of "int nx"] xy
    by auto
  obtain si where si: "node_set_erase (int nx) (n_in (nodes ! ny)) = Some si" "ns_inv si"
    "ns_set si = ns_set (n_in (nodes ! ny)) - {int nx}"
    using node_set_erase_spec [of "n_in (nodes ! ny)" "int nx"] nodes_ok_sets(2) [OF ok(1), of "int ny"] xy
    by auto
  have e: "erase_edge nx ny (int nx) (int ny) nodes = Some (with_edge nx ny so si nodes)"
    using so(1) si(1) xy by (simp add: erase_edge_def with_edge_def Let_def)
  have sub: "ns_set so \<subseteq> indices nodes" "ns_set si \<subseteq> indices nodes"
    using nodes_ok_sets(3) [OF ok(1), of "int nx"] nodes_ok_sets(4) [OF ok(1), of "int ny"] xy so(3) si(3)
    by auto
  have g: "mirrored (with_edge nx ny so si nodes)"
    "edges (with_edge nx ny so si nodes) = edges nodes - {(int nx, int ny)}"
    using with_edge_graph [OF ok xy(1,2), of so False si] so(3) si(3)
    by (simp_all add: succ_list_def pred_list_def put_def)
  show ?thesis
    using e g with_edge_ok [OF ok(1) xy(1,2) so(2) si(2) sub] with_edge_core by simp
qed

section \<open>Restoring the order\<close>

text \<open>The state inside \<^verbatim>\<open>InsertEdge\<close> after the new edge \<open>(x, y)\<close> has been written.\<close>

definition edge_written :: "node list \<Rightarrow> int \<Rightarrow> int \<Rightarrow> bool" where
  "edge_written nodes x y \<longleftrightarrow> nodes_ok nodes \<and> mirrored nodes \<and> ranks_ok nodes \<and>
     visited_set nodes = {} \<and> x \<in> indices nodes \<and> y \<in> indices nodes \<and>
     (x, y) \<in> edges nodes \<and> rank_at nodes y < rank_at nodes x \<and>
     (\<forall>(u, v)\<in>edges nodes - {(x, y)}. rank_at nodes u < rank_at nodes v)"

lemma forward_reach:
  assumes w: "edge_written nodes x y"
    and "(y, u) \<in> (follow_rel (succ_list nodes) (\<lambda>w. rank_at nodes w < rank_at nodes x))\<^sup>*"
  shows "(y, u) \<in> (edges nodes - {(x, y)})\<^sup>* \<and> rank_at nodes u < rank_at nodes x \<and> u \<in> indices nodes"
  using assms(2)
proof (induction rule: rtrancl_induct)
  case base
  then show ?case using w by (simp add: edge_written_def)
next
  case (step u v)
  then have "(u, v) \<in> edges nodes" "rank_at nodes v < rank_at nodes x"
    by (auto simp: follow_rel_def edges_succ)
  then show ?case
    using step.IH w edges_indices [of nodes u v]
    by (auto simp: edge_written_def intro: rtrancl_into_rtrancl)
qed

lemma backward_reach:
  assumes w: "edge_written nodes x y"
    and "(x, u) \<in> (follow_rel (pred_list nodes) (\<lambda>w. rank_at nodes y < rank_at nodes w))\<^sup>*"
  shows "(u, x) \<in> (edges nodes - {(x, y)})\<^sup>* \<and> rank_at nodes y < rank_at nodes u \<and> u \<in> indices nodes"
  using assms(2)
proof (induction rule: rtrancl_induct)
  case base
  then show ?case using w by (simp add: edge_written_def)
next
  case (step u v)
  then have v: "(v, u) \<in> edges nodes" "rank_at nodes y < rank_at nodes v"
    using edges_pred [of nodes u v] w by (auto simp: follow_rel_def edge_written_def)
  then have "(v, u) \<in> edges nodes - {(x, y)}" using step.IH by auto
  then show ?case
    using step.IH v w edges_indices(1) [of nodes v u]
    by (auto simp: edge_written_def intro: converse_rtrancl_into_rtrancl)
qed

text \<open>What \<^verbatim>\<open>ForwardDFS\<close> leaves: its result decides whether the new edge closes a cycle.\<close>

lemma forward_dfs_spec:
  assumes w: "edge_written (r_nodes r) x y"
  defines "E \<equiv> edges (r_nodes r) - {(x, y)}" and "rk \<equiv> rank_at (r_nodes r)"
  shows "\<exists>r1 ok. forward_dfs y (rk x) r = Some (r1, ok) \<and> search_frame r r1 \<and>
    distinct (r_deltaf r1) \<and> set (r_deltaf r1) \<subseteq> indices (r_nodes r) \<and>
    visited_set (r_nodes r1) = set (r_deltaf r1) \<and>
    (\<forall>u\<in>set (r_deltaf r1). (y, u) \<in> E\<^sup>* \<and> rk u < rk x) \<and>
    (ok \<longleftrightarrow> (y, x) \<notin> E\<^sup>*) \<and>
    (ok \<longrightarrow> y \<in> set (r_deltaf r1) \<and>
      (\<forall>u\<in>set (r_deltaf r1). \<forall>w. (u, w) \<in> E \<longrightarrow>
         rk w \<noteq> rk x \<and> (rk w < rk x \<longrightarrow> w \<in> set (r_deltaf r1))))"
proof -
  let ?n = "r_nodes r" and ?s = "r\<lparr>r_deltaf := [], r_stack := [y]\<rparr>"
  have wr: "nodes_ok ?n" "mirrored ?n" "ranks_ok ?n" "visited_set ?n = {}" "x \<in> indices ?n"
    "y \<in> indices ?n" "rk y < rk x" "\<forall>(u, v)\<in>E. rk u < rk v"
    using w by (simp_all add: edge_written_def E_def rk_def)
  have "fwd_valid r ?s" using wr(1) by (simp add: fwd_valid_def search_frame_def)
  then obtain r1 ok where r1: "forward_loop (rk x) ?s = Some (r1, ok)" "fwd_valid r r1"
    and fnd: "dfs_found (succ_list ?n) (\<lambda>w. rk w < rk x) (indices ?n) {} y
      (visited_set (r_nodes r1)) (r_deltaf r1)"
    and res: "if ok then y \<in> set (r_deltaf r1) \<and>
        dfs_closed (succ_list ?n) (\<lambda>w. rk w < rk x) (\<lambda>w. rk w = rk x) {} (r_deltaf r1) []
      else \<exists>u\<in>set (r_deltaf r1). \<exists>w\<in>set (succ_list ?n u). rk w = rk x"
    using fwd.run_from [of r ?s y "rk x"] wr(4,6) by (auto simp: rk_def cong: if_cong)
  have reach: "\<forall>u\<in>set (r_deltaf r1). (y, u) \<in> E\<^sup>* \<and> rk u < rk x"
    using fnd forward_reach [OF w] by (auto simp: dfs_found_def E_def rk_def)
  have closed: "y \<in> set (r_deltaf r1) \<and> (\<forall>u\<in>set (r_deltaf r1). \<forall>w. (u, w) \<in> E \<longrightarrow>
      rk w \<noteq> rk x \<and> (rk w < rk x \<longrightarrow> w \<in> set (r_deltaf r1)))" if ok
    using that res by (auto simp: dfs_closed_def E_def edges_def)
  have "ok \<longleftrightarrow> (y, x) \<notin> E\<^sup>*"
  proof
    assume ok
    then show "(y, x) \<notin> E\<^sup>*"
      using forward_region [OF wr(8), of y "set (r_deltaf r1)" x] closed wr(7) by blast
  next
    assume no: "(y, x) \<notin> E\<^sup>*"
    show ok
    proof (rule ccontr)
      assume "\<not> ok"
      then obtain u v where u: "u \<in> set (r_deltaf r1)" "v \<in> set (succ_list ?n u)" "rk v = rk x"
        using res by auto
      have ui: "u \<in> indices ?n" using u(1) fnd by (auto simp: dfs_found_def)
      then have e: "(u, v) \<in> edges ?n" using u(2) by (simp add: edges_succ)
      then have "v = x"
        using ranks_ok_inj [OF wr(3) edges_indices(2) [OF wr(1) e] wr(5)] u(3) by (simp add: rk_def)
      moreover have "u \<noteq> x" using reach u(1) by auto
      ultimately have "(u, x) \<in> E" using e by (simp add: E_def)
      then show False using reach u(1) no by (auto intro: rtrancl_into_rtrancl)
    qed
  qed
  moreover have "forward_dfs y (rk x) r = Some (r1, ok)" by (simp add: forward_dfs_def r1(1))
  moreover have "search_frame r r1" using r1(2) by (simp add: fwd_valid_def)
  moreover have "distinct (r_deltaf r1)" "set (r_deltaf r1) \<subseteq> indices ?n"
    "visited_set (r_nodes r1) = set (r_deltaf r1)"
    using fnd by (simp_all add: dfs_found_def)
  ultimately show ?thesis using reach closed by blast
qed

text \<open>What \<^verbatim>\<open>BackwardDFS\<close> adds after a successful forward search.\<close>

lemma backward_dfs_spec:
  assumes w: "edge_written nodes x y" and fr: "map unmark (r_nodes r1) = map unmark nodes"
    and vis: "visited_set (r_nodes r1) = set (r_deltaf r1)" and x: "x \<notin> set (r_deltaf r1)"
  defines "E \<equiv> edges nodes - {(x, y)}" and "rk \<equiv> rank_at nodes"
  shows "\<exists>r2. backward_dfs x (rk y) r1 = Some r2 \<and> search_frame r1 r2 \<and> r_deltaf r2 = r_deltaf r1 \<and>
    distinct (r_deltab r2) \<and> set (r_deltab r2) \<subseteq> indices nodes \<and>
    set (r_deltab r2) \<inter> set (r_deltaf r2) = {} \<and>
    visited_set (r_nodes r2) = set (r_deltaf r2) \<union> set (r_deltab r2) \<and>
    (\<forall>u\<in>set (r_deltab r2). (u, x) \<in> E\<^sup>* \<and> rk y < rk u) \<and> x \<in> set (r_deltab r2) \<and>
    (\<forall>u\<in>set (r_deltab r2). \<forall>w. (w, u) \<in> E \<longrightarrow> rk y < rk w \<longrightarrow>
       w \<in> set (r_deltaf r2) \<union> set (r_deltab r2))"
proof -
  let ?m = "r_nodes r1" and ?s = "r1\<lparr>r_deltab := [], r_stack := [x]\<rparr>"
  have ok: "nodes_ok nodes" "mirrored nodes" "x \<in> indices nodes"
    using w by (simp_all add: edge_written_def)
  have ix: "indices ?m = indices nodes" by (rule unmark_indices [OF fr])
  have st: "map strip ?m = map strip nodes" by (rule strip_unmark [OF fr])
  have pl: "pred_list ?m u = pred_list nodes u" "rank_at ?m u = rk u" if "u \<in> indices nodes" for u
    using strip_lists(2) [OF st that] rank_at_unmark [OF fr that] by (simp_all add: rk_def)
  have "nodes_ok ?m" by (rule strip_nodes_ok [OF st ok(1)])
  then have v: "bwd_valid r1 ?s" by (simp add: bwd_valid_def search_frame_def)
  have "x \<in> indices ?m - visited_set (r_nodes ?s)" using ok(3) ix x vis by simp
  then obtain r2 ok' where r2: "backward_run (rk y) ?s = Some (r2, ok')" "bwd_valid r1 r2"
    and fnd: "dfs_found (pred_list ?m) (\<lambda>w. rk y < rank_at ?m w) (indices ?m)
      (visited_set ?m) x (visited_set (r_nodes r2)) (r_deltab r2)"
    and clo: "x \<in> set (r_deltab r2)"
      "dfs_closed (pred_list ?m) (\<lambda>w. rk y < rank_at ?m w) (\<lambda>_. False) (visited_set ?m) (r_deltab r2) []"
    using bwd.run_from [OF v, of x "rk y"] by (fastforce split: if_splits)
  have df: "r_deltaf r2 = r_deltaf r1" using r2(2) by (simp add: bwd_valid_def)
  have B: "set (r_deltab r2) \<subseteq> indices nodes" using fnd ix by (simp add: dfs_found_def)
  have mono: "(x, u) \<in> (follow_rel (pred_list nodes) (\<lambda>w. rk y < rk w))\<^sup>* \<and> u \<in> indices nodes"
    if "(x, u) \<in> (follow_rel (pred_list ?m) (\<lambda>w. rk y < rank_at ?m w))\<^sup>*" for u
    using that
  proof (induction rule: rtrancl_induct)
    case base
    then show ?case using ok(3) by simp
  next
    case (step u v)
    then have uv: "v \<in> set (pred_list nodes u)" "rk y < rank_at ?m v"
      using pl(1) by (auto simp: follow_rel_def)
    then have "v \<in> indices nodes"
      using edges_pred [OF ok(1,2)] edges_indices(1) [OF ok(1)] step.IH by blast
    moreover from this have "rk y < rk v" using uv(2) pl(2) by simp
    ultimately show ?case
      using step.IH uv(1) by (auto simp: follow_rel_def intro: rtrancl_into_rtrancl)
  qed
  have reach: "\<forall>u\<in>set (r_deltab r2). (u, x) \<in> E\<^sup>* \<and> rk y < rk u"
    using fnd backward_reach [OF w] mono by (auto simp: dfs_found_def E_def rk_def)
  have closed: "w \<in> set (r_deltaf r2) \<union> set (r_deltab r2)"
    if "u \<in> set (r_deltab r2)" "(w, u) \<in> E" "rk y < rk w" for u w
  proof -
    have u: "u \<in> indices nodes" using that(1) B by auto
    have e: "(w, u) \<in> edges nodes" using that(2) by (simp add: E_def)
    then have "w \<in> set (pred_list ?m u)" "rank_at ?m w = rk w"
      using pl [OF u] pl(2) [OF edges_indices(1) [OF ok(1) e]] edges_pred [OF ok(1,2) u] by simp_all
    then show ?thesis using clo(2) that(1,3) vis df by (auto simp: dfs_closed_def)
  qed
  have "backward_dfs x (rk y) r1 = Some r2"
    using r2(1) by (auto simp: backward_dfs_def backward_run_def)
  moreover have "search_frame r1 r2" using r2(2) by (simp add: bwd_valid_def)
  moreover have "distinct (r_deltab r2)" "set (r_deltab r2) \<inter> set (r_deltaf r2) = {}"
    "visited_set (r_nodes r2) = set (r_deltaf r2) \<union> set (r_deltab r2)"
    using fnd vis df by (auto simp: dfs_found_def)
  ultimately show ?thesis using reach closed clo(1) B df by blast
qed

lemma ranks_ok_cong:
  assumes "ranks_ok nodes" "indices nodes' = indices nodes"
    "\<And>u. u \<in> indices nodes \<Longrightarrow> rank_at nodes' u = rank_at nodes u"
  shows "ranks_ok nodes'"
  unfolding ranks_ok_def assms(2)
  by (rule bij_betw_cong [THEN iffD2, OF assms(3) assms(1) [unfolded ranks_ok_def]])

text \<open>The refused edge is taken out again and the marks are cleared.\<close>

lemma undo_spec:
  assumes w: "edge_written nodes (int nx) (int ny)" and fr: "map unmark (r_nodes r1) = map unmark nodes"
    and vis: "visited_set (r_nodes r1) = set (r_deltaf r1)"
    and sub: "set (r_deltaf r1) \<subseteq> indices nodes"
  shows "\<exists>nodes1 nodes2. erase_edge nx ny (int nx) (int ny) (r_nodes r1) = Some nodes1 \<and>
    clear_visited (r_deltaf r1) nodes1 = Some nodes2 \<and> graph_ok nodes2 \<and>
    edges nodes2 = edges nodes - {(int nx, int ny)} \<and> map core nodes2 = map core nodes"
proof -
  let ?m = "r_nodes r1"
  have wr: "nodes_ok nodes" "mirrored nodes" "ranks_ok nodes" "nx < length nodes" "ny < length nodes"
    "nx \<noteq> ny" "\<forall>(u, v)\<in>edges nodes - {(int nx, int ny)}. rank_at nodes u < rank_at nodes v"
    using w by (auto simp: edge_written_def indices_def)
  have st: "map strip ?m = map strip nodes" by (rule strip_unmark [OF fr])
  have lm: "length ?m = length nodes" by (rule unmark_length [OF fr])
  obtain n1 where n1: "erase_edge nx ny (int nx) (int ny) ?m = Some n1" "nodes_ok n1" "mirrored n1"
    "edges n1 = edges ?m - {(int nx, int ny)}" "map core n1 = map core ?m"
    "visited_set n1 = visited_set ?m" "\<forall>u. rank_at n1 u = rank_at ?m u"
    using erase_edge_spec [OF strip_nodes_ok [OF st wr(1)] strip_mirrored [OF st wr(2)], of nx ny]
      wr(4-6) lm by auto
  have l1: "length n1 = length nodes" using core_length [OF n1(5)] lm by simp
  obtain n2 where n2: "clear_visited (r_deltaf r1) n1 = Some n2" "map unmark n2 = map unmark n1"
    "visited_set n2 = visited_set n1 - set (r_deltaf r1)"
    using clear_visited_spec [of "r_deltaf r1" n1] sub l1 nodes_ok_length [OF wr(1)]
    by (auto simp: indices_def)
  have st2: "map strip n2 = map strip n1" by (rule strip_unmark [OF n2(2)])
  have e2: "edges n2 = edges nodes - {(int nx, int ny)}"
    using strip_edges [OF st2] n1(4) strip_edges [OF st] by simp
  have ix: "indices n2 = indices nodes" "indices n1 = indices nodes"
    using strip_indices [OF st2] l1 by (simp_all add: indices_def)
  have rk: "rank_at n2 u = rank_at nodes u" if "u \<in> indices nodes" for u
    using rank_at_unmark [OF n2(2)] rank_at_unmark [OF fr that] n1(7) that ix by simp
  have "ranks_ok n2"
    by (rule ranks_ok_cong [OF wr(3) ix(1) rk])
  moreover have "increasing n2"
    unfolding increasing_def e2 using wr(7) rk edges_indices [OF wr(1)] by fastforce
  moreover have "visited_set n2 = {}" using n2(3) n1(6) vis by simp
  moreover have "map core n2 = map core nodes"
    using core_strip [OF st2] n1(5) core_strip [OF st] by simp
  ultimately show ?thesis
    using n1(1) n2(1) e2 strip_nodes_ok [OF st2 n1(2)] strip_mirrored [OF st2 n1(3)]
    by (auto simp: graph_ok_def)
qed

text \<open>The accepted edge: both searches have succeeded, and the ranks are handed out again.\<close>

lemma reorder_order_spec:
  assumes w: "edge_written nodes x y" and fr: "map unmark (r_nodes r2) = map unmark nodes"
    and np: "(y, x) \<notin> (edges nodes - {(x, y)})\<^sup>*"
    and F: "distinct (r_deltaf r2)" "set (r_deltaf r2) \<subseteq> indices nodes" "y \<in> set (r_deltaf r2)"
      "\<forall>u\<in>set (r_deltaf r2). (y, u) \<in> (edges nodes - {(x, y)})\<^sup>* \<and> rank_at nodes u < rank_at nodes x"
      "\<forall>u\<in>set (r_deltaf r2). \<forall>w. (u, w) \<in> edges nodes - {(x, y)} \<longrightarrow> rank_at nodes w \<noteq> rank_at nodes x \<and>
         (rank_at nodes w < rank_at nodes x \<longrightarrow> w \<in> set (r_deltaf r2))"
    and B: "distinct (r_deltab r2)" "set (r_deltab r2) \<subseteq> indices nodes" "x \<in> set (r_deltab r2)"
      "\<forall>u\<in>set (r_deltab r2). (u, x) \<in> (edges nodes - {(x, y)})\<^sup>* \<and> rank_at nodes y < rank_at nodes u"
      "\<forall>u\<in>set (r_deltab r2). \<forall>w. (w, u) \<in> edges nodes - {(x, y)} \<longrightarrow> rank_at nodes y < rank_at nodes w \<longrightarrow>
         w \<in> set (r_deltaf r2) \<union> set (r_deltab r2)"
    and disj: "set (r_deltab r2) \<inter> set (r_deltaf r2) = {}"
    and vis: "visited_set (r_nodes r2) = set (r_deltaf r2) \<union> set (r_deltab r2)"
  shows "\<exists>r3. reorder r2 = Some r3 \<and> graph_ok (r_nodes r3) \<and> edges (r_nodes r3) = edges nodes \<and>
    map core (r_nodes r3) = map core nodes \<and> r_free r3 = r_free r2 \<and> r_heads r3 = r_heads r2"
proof -
  let ?m = "r_nodes r2" and ?rk = "rank_at nodes"
  have wr: "nodes_ok nodes" "mirrored nodes" "ranks_ok nodes" "x \<in> indices nodes" "y \<in> indices nodes"
    "(x, y) \<in> edges nodes" "\<forall>(u, v)\<in>edges nodes - {(x, y)}. ?rk u < ?rk v"
    using w by (simp_all add: edge_written_def)
  have st: "map strip ?m = map strip nodes" by (rule strip_unmark [OF fr])
  have ix: "indices ?m = indices nodes" by (rule unmark_indices [OF fr])
  have rk2: "rank_at ?m u = ?rk u" if "u \<in> indices nodes" for u by (rule rank_at_unmark [OF fr that])
  have rk2_ok: "ranks_ok ?m" by (rule ranks_ok_cong [OF wr(3) ix rk2])
  obtain r3 where r3: "reorder r2 = Some r3" "map strip (r_nodes r3) = map strip ?m"
    "visited_set (r_nodes r3) = visited_set ?m - (set (r_deltab r2) \<union> set (r_deltaf r2))"
    "r_free r3 = r_free r2" "r_heads r3 = r_heads r2"
    "reordered (rank_at ?m) (rank_at (r_nodes r3)) (indices nodes) (set (r_deltab r2)) (set (r_deltaf r2))"
    using reorder_spec [OF strip_nodes_ok [OF st wr(1)] rk2_ok B(1) _ F(1)] B(2) F(2) disj ix by auto
  let ?rk' = "rank_at (r_nodes r3)" and ?B = "set (r_deltab r2)" and ?F = "set (r_deltaf r2)"
  have sub: "?B \<union> ?F \<subseteq> indices nodes" using B(2) F(2) by simp
  have img: "rank_at ?m ` (?B \<union> ?F) = ?rk ` (?B \<union> ?F)"
    by (rule image_cong) (use rk2 sub in auto)
  have re: "reordered ?rk ?rk' (indices nodes) ?B ?F"
    using r3(6) rk2 sub unfolding reordered_def img by (simp add: subset_iff)
  note R = reorderedD [OF re]
  have st3: "map strip (r_nodes r3) = map strip nodes" using r3(2) st by simp
  have e3: "edges (r_nodes r3) = edges nodes" by (rule strip_edges [OF st3])
  have ins: "insert (x, y) (edges nodes - {(x, y)}) = edges nodes" using wr(6) by auto
  have "?rk' u < ?rk' v" if e: "(u, v) \<in> edges nodes" for u v
  proof (rule rank_restore [where E = "edges nodes - {(x, y)}" and rk = ?rk and y = y and x = x and F = ?F and B = ?B
        and I = "indices nodes" and rk' = ?rk' and u = u and v = v])
    show "\<And>u. ?rk u = ?rk y \<Longrightarrow> (u, v) \<in> edges nodes - {(x, y)} \<Longrightarrow> u = y"
      using ranks_ok_inj [OF wr(3) _ wr(5)] edges_indices(1) [OF wr(1)] by blast
    show "insert (x, y) (edges nodes - {(x, y)}) \<subseteq> indices nodes \<times> indices nodes"
      unfolding ins using edges_indices [OF wr(1)] by auto
    show "(u, v) \<in> insert (x, y) (edges nodes - {(x, y)})" using e ins by simp
    show "\<And>u. u \<in> ?F \<Longrightarrow> (y, u) \<in> (edges nodes - {(x, y)})\<^sup>* \<and> ?rk u < ?rk x"
      by (rule F(4) [rule_format])
    show "\<And>u w. u \<in> ?F \<Longrightarrow> (u, w) \<in> edges nodes - {(x, y)} \<Longrightarrow>
        ?rk w \<noteq> ?rk x \<and> (?rk w < ?rk x \<longrightarrow> w \<in> ?F)"
      by (rule F(5) [rule_format])
    show "\<And>u. u \<in> ?B \<Longrightarrow> (u, x) \<in> (edges nodes - {(x, y)})\<^sup>* \<and> ?rk y < ?rk u"
      by (rule B(4) [rule_format])
    show "\<And>u w. u \<in> ?B \<Longrightarrow> (w, u) \<in> edges nodes - {(x, y)} \<Longrightarrow> ?rk y < ?rk w \<longrightarrow> w \<in> ?F \<union> ?B"
      using B(5) by blast
  qed (fact wr(7) | fact np | fact F(3) | fact B(3) | erule (2) R(3) | erule (2) R(4) |
      erule (1) R(5) | erule R(6) | erule R(7) | erule R(2) | erule (1) R(1))+
  then have "increasing (r_nodes r3)" by (auto simp: increasing_def e3)
  moreover have "ranks_ok (r_nodes r3)"
    by (rule reordered_ranks_ok [OF wr(3) re sub strip_indices [OF st3]])
  moreover have "visited_set (r_nodes r3) = {}" using r3(3) vis by auto
  ultimately have "graph_ok (r_nodes r3)"
    using strip_nodes_ok [OF st3 wr(1)] strip_mirrored [OF st3 wr(2)] by (simp add: graph_ok_def)
  then show ?thesis using r3(1,4,5) e3 core_strip [OF st3] by auto
qed

lemma restore_order_spec:
  assumes w: "edge_written (r_nodes r) (int nx) (int ny)"
  defines "E \<equiv> edges (r_nodes r) - {(int nx, int ny)}"
  shows "\<exists>r' ok. restore_order nx ny (int nx) (int ny) r = Some (r', ok) \<and>
    (ok \<longleftrightarrow> (int ny, int nx) \<notin> E\<^sup>*) \<and> graph_ok (r_nodes r') \<and>
    edges (r_nodes r') = (if ok then edges (r_nodes r) else E) \<and>
    map core (r_nodes r') = map core (r_nodes r) \<and> r_free r' = r_free r \<and> r_heads r' = r_heads r"
proof -
  let ?n = "r_nodes r" and ?x = "int nx" and ?y = "int ny"
  note fw = forward_dfs_spec [OF w]
  obtain r1 ok where r1: "forward_dfs ?y (rank_at ?n ?x) r = Some (r1, ok)" "search_frame r r1"
    "distinct (r_deltaf r1)" "set (r_deltaf r1) \<subseteq> indices ?n"
    "visited_set (r_nodes r1) = set (r_deltaf r1)"
    "\<forall>u\<in>set (r_deltaf r1). (?y, u) \<in> E\<^sup>* \<and> rank_at ?n u < rank_at ?n ?x"
    "ok \<longleftrightarrow> (?y, ?x) \<notin> E\<^sup>*"
    and F: "ok \<longrightarrow> ?y \<in> set (r_deltaf r1) \<and> (\<forall>u\<in>set (r_deltaf r1). \<forall>w. (u, w) \<in> E \<longrightarrow>
         rank_at ?n w \<noteq> rank_at ?n ?x \<and> (rank_at ?n w < rank_at ?n ?x \<longrightarrow> w \<in> set (r_deltaf r1)))"
    using forward_dfs_spec [OF w] unfolding E_def by blast
  have fr: "map unmark (r_nodes r1) = map unmark ?n" "r_free r1 = r_free r" "r_heads r1 = r_heads r"
    using r1(2) by (simp_all add: search_frame_def)
  have rx: "n_rank (?n ! nx) = rank_at ?n ?x" by (simp add: rank_at_def)
  show ?thesis
  proof (cases ok)
    case False
    obtain n1 n2 where "erase_edge nx ny ?x ?y (r_nodes r1) = Some n1"
      "clear_visited (r_deltaf r1) n1 = Some n2" "graph_ok n2"
      "edges n2 = E" "map core n2 = map core ?n"
      using undo_spec [OF w fr(1) r1(5,4)] unfolding E_def by blast
    then show ?thesis
      using r1(1,7) False fr(2,3)
      by (intro exI [of _ "r1\<lparr>r_nodes := n2\<rparr>"] exI [of _ False]) (simp add: restore_order_def rx)
  next
    case True
    have x: "?x \<notin> set (r_deltaf r1)" using r1(6) by auto
    obtain r2 where r2: "backward_dfs ?x (rank_at ?n ?y) r1 = Some r2" "search_frame r1 r2"
      "r_deltaf r2 = r_deltaf r1" "distinct (r_deltab r2)" "set (r_deltab r2) \<subseteq> indices ?n"
      "set (r_deltab r2) \<inter> set (r_deltaf r2) = {}"
      "visited_set (r_nodes r2) = set (r_deltaf r2) \<union> set (r_deltab r2)"
      "\<forall>u\<in>set (r_deltab r2). (u, ?x) \<in> E\<^sup>* \<and> rank_at ?n ?y < rank_at ?n u"
      "?x \<in> set (r_deltab r2)"
      "\<forall>u\<in>set (r_deltab r2). \<forall>w. (w, u) \<in> E \<longrightarrow> rank_at ?n ?y < rank_at ?n w \<longrightarrow>
         w \<in> set (r_deltaf r2) \<union> set (r_deltab r2)"
      using backward_dfs_spec [OF w fr(1) r1(5) x] unfolding E_def by blast
    have fr2: "map unmark (r_nodes r2) = map unmark ?n" "r_free r2 = r_free r" "r_heads r2 = r_heads r"
      using r2(2) fr by (simp_all add: search_frame_def)
    have "?y \<in> indices ?n" using w by (simp add: edge_written_def)
    then have ry: "n_rank (r_nodes r1 ! ny) = rank_at ?n ?y"
      using rank_at_unmark [OF fr(1), of ?y] by (simp add: rank_at_def)
    have np: "(?y, ?x) \<notin> E\<^sup>*" using True r1(7) by simp
    have Fs: "distinct (r_deltaf r2)" "set (r_deltaf r2) \<subseteq> indices ?n" "?y \<in> set (r_deltaf r2)"
      "\<forall>u\<in>set (r_deltaf r2). (?y, u) \<in> E\<^sup>* \<and> rank_at ?n u < rank_at ?n ?x"
      "\<forall>u\<in>set (r_deltaf r2). \<forall>w. (u, w) \<in> E \<longrightarrow> rank_at ?n w \<noteq> rank_at ?n ?x \<and>
         (rank_at ?n w < rank_at ?n ?x \<longrightarrow> w \<in> set (r_deltaf r2))"
      unfolding r2(3) using r1(3,4,6) F True by blast+
    obtain r3 where "reorder r2 = Some r3" "graph_ok (r_nodes r3)" "edges (r_nodes r3) = edges ?n"
      "map core (r_nodes r3) = map core ?n" "r_free r3 = r_free r2" "r_heads r3 = r_heads r2"
      using reorder_order_spec [OF w fr2(1), folded E_def, OF np Fs r2(4,5,9,8,10,6,7)] by blast
    then show ?thesis
      using r1(1) True r2(1) np fr2
      by (intro exI [of _ r3] exI [of _ True]) (simp add: restore_order_def rx ry)
  qed
qed

section \<open>InsertEdge\<close>

lemma increasing_acyclic:
  assumes "increasing nodes"
  shows "acyclic (edges nodes)"
proof -
  have "rank_at nodes u < rank_at nodes v" if "(u, v) \<in> (edges nodes)\<^sup>+" for u v
    using that by (induction rule: trancl_induct) (use assms in \<open>fastforce simp: increasing_def\<close>)+
  then show ?thesis by (force simp: acyclic_def)
qed

definition insert_nodes :: "nat \<Rightarrow> nat \<Rightarrow> rep \<Rightarrow> (rep \<times> bool) option" where
  "insert_nodes nx ny r =
     Option.bind (node_set_insert (int ny) (n_out (r_nodes r ! nx))) (\<lambda>(out, fresh).
       let nodes1 = (r_nodes r)[nx := (r_nodes r ! nx)\<lparr>n_out := out\<rparr>]
       in if \<not> fresh then Some (r\<lparr>r_nodes := nodes1\<rparr>, True)
          else Option.bind (node_set_insert (int nx) (n_in (nodes1 ! ny))) (\<lambda>(inn, _).
            let nodes2 = nodes1[ny := (nodes1 ! ny)\<lparr>n_in := inn\<rparr>];
                r2 = r\<lparr>r_nodes := nodes2\<rparr>
            in if n_rank (nodes2 ! nx) \<le> n_rank (nodes2 ! ny) then Some (r2, True)
               else restore_order nx ny (int nx) (int ny) r2))"

lemma insert_nodes_spec:
  assumes ok: "graph_ok (r_nodes r)" and xy: "nx < length (r_nodes r)" "ny < length (r_nodes r)" "nx \<noteq> ny"
  defines "E \<equiv> edges (r_nodes r)"
  shows "\<exists>r' ok. insert_nodes nx ny r = Some (r', ok) \<and>
    (ok \<longleftrightarrow> (int ny, int nx) \<notin> E\<^sup>*) \<and> graph_ok (r_nodes r') \<and>
    edges (r_nodes r') = (if ok then insert (int nx, int ny) E else E) \<and>
    map core (r_nodes r') = map core (r_nodes r) \<and> r_free r' = r_free r \<and> r_heads r' = r_heads r"
proof -
  let ?n = "r_nodes r" and ?x = "int nx" and ?y = "int ny"
  have g: "nodes_ok ?n" "mirrored ?n" "ranks_ok ?n" "increasing ?n" "visited_set ?n = {}"
    using ok by (simp_all add: graph_ok_def)
  have I: "?x \<in> indices ?n" "?y \<in> indices ?n" using xy by (simp_all add: indices_def)
  have lim: "?x < node_limit" "?y < node_limit" using g(1) xy by (simp_all add: nodes_ok_def)
  obtain so where so: "node_set_insert ?y (n_out (?n ! nx)) = Some (so, ?y \<notin> ns_set (n_out (?n ! nx)))"
    "ns_inv so" "ns_set so = insert ?y (ns_set (n_out (?n ! nx)))"
    using node_set_insert_spec [of "n_out (?n ! nx)" ?y] nodes_ok_sets(1) [OF g(1), of ?x] xy lim by auto
  have mem: "?y \<in> ns_set (n_out (?n ! nx)) \<longleftrightarrow> (?x, ?y) \<in> E"
    using I by (simp add: E_def edges_def succ_list_def)
  show ?thesis
  proof (cases "(?x, ?y) \<in> E")
    case True
    then have "insert_body (grow_body (insert_upto 0)) ?y (n_out (?n ! nx)) = Some (n_out (?n ! nx), False)"
      using mem nodes_ok_sets(1) [OF g(1), of ?x] xy by (simp add: insert_body_found)
    then have "insert_nodes nx ny r = Some (r, True)"
      by (simp add: insert_nodes_def node_set_insert_def)
    moreover have "(?y, ?x) \<notin> E\<^sup>*"
    proof
      assume "(?y, ?x) \<in> E\<^sup>*"
      then have "(?x, ?x) \<in> E\<^sup>+" using True by (auto intro: rtrancl_into_trancl2)
      then show False using increasing_acyclic [OF g(4)] by (auto simp: acyclic_def E_def)
    qed
    ultimately show ?thesis using ok True by (auto simp: E_def)
  next
    case False
    obtain si b where si: "node_set_insert ?x (n_in (?n ! ny)) = Some (si, b)"
      "ns_inv si" "ns_set si = insert ?x (ns_set (n_in (?n ! ny)))"
      using node_set_insert_spec [of "n_in (?n ! ny)" ?x] nodes_ok_sets(2) [OF g(1), of ?y] xy lim by auto
    let ?m = "with_edge nx ny so si ?n"
    let ?r = "r\<lparr>r_nodes := ?m\<rparr>"
    have sub: "ns_set so \<subseteq> indices ?n" "ns_set si \<subseteq> indices ?n"
      using nodes_ok_sets(3) [OF g(1), of ?x] nodes_ok_sets(4) [OF g(1), of ?y] xy so(3) si(3) I by auto
    have mok: "nodes_ok ?m" by (rule with_edge_ok [OF g(1) xy(1,2) so(2) si(2) sub])
    have mg: "mirrored ?m" "edges ?m = insert (?x, ?y) E"
      using with_edge_graph [OF g(1,2) xy(1,2), of so True si] so(3) si(3)
      by (simp_all add: succ_list_def pred_list_def put_def E_def)
    have rk: "ranks_ok ?m" by (rule ranks_ok_cong [OF g(3)]) simp_all
    have vs: "visited_set ?m = {}" using g(5) by simp
    have co: "map core ?m = map core ?n" by (rule with_edge_core)
    have eq: "insert_nodes nx ny r =
      (if rank_at ?n ?x \<le> rank_at ?n ?y then Some (?r, True) else restore_order nx ny ?x ?y ?r)"
      using so(1) si(1) mem False xy
      by (simp add: insert_nodes_def Let_def with_edge_def rank_at_def nth_upd)
    have Einc: "\<forall>(u, v)\<in>E. rank_at ?n u < rank_at ?n v" using g(4) by (simp add: increasing_def E_def)
    show ?thesis
    proof (cases "rank_at ?n ?x \<le> rank_at ?n ?y")
      case True
      have "rank_at ?n ?x \<noteq> rank_at ?n ?y" using ranks_ok_inj [OF g(3) I] xy(3) by auto
      then have lt: "rank_at ?n ?x < rank_at ?n ?y" using True by simp
      then have "increasing ?m" using Einc by (auto simp: increasing_def mg(2))
      moreover have "(?y, ?x) \<notin> E\<^sup>*" using path_ranks [OF Einc, of ?y ?x] lt by auto
      ultimately show ?thesis
        using True eq mok mg rk vs co by (auto simp: graph_ok_def)
    next
      case nle: False
      have Ed: "insert (?x, ?y) E - {(?x, ?y)} = E" using False by auto
      have rn: "r_nodes ?r = ?m" by simp
      have "edge_written (r_nodes ?r) ?x ?y"
        unfolding edge_written_def rn mg(2) Ed using mok mg(1) rk vs I nle Einc by simp
      then obtain r' ok where "restore_order nx ny ?x ?y ?r = Some (r', ok)"
        "ok \<longleftrightarrow> (?y, ?x) \<notin> E\<^sup>*" "graph_ok (r_nodes r')"
        "edges (r_nodes r') = (if ok then insert (?x, ?y) E else E)"
        "map core (r_nodes r') = map core ?n" "r_free r' = r_free r" "r_heads r' = r_heads r"
        using restore_order_spec [of ?r nx ny] co unfolding rn mg(2) Ed by auto
      then show ?thesis using nle eq by simp
    qed
  qed
qed

end
