(* ===== verification/Graph_Correct.thy ===== *)
theory Graph_Correct
  imports Graph_Edges
begin

text \<open>
  The representation invariant of \<^verbatim>\<open>GraphCycles\<close> and the abstract graph it stands for: a set of
  pointers (\<open>vertices\<close>), a relation on them (\<open>arcs\<close>) and the current id of each vertex
  (\<open>id_of\<close>). Every member function is proved against this view.
\<close>

section \<open>The invariant and the abstract view\<close>

definition live :: "rep \<Rightarrow> nat set" where
  "live r = {x. x < length (r_nodes r) \<and>
     pm_find (r_nodes r) (r_heads r) (n_ptr (r_nodes r ! x)) = Some (int x)}"

definition table_ok :: "rep \<Rightarrow> nat set \<Rightarrow> bool" where
  "table_ok r L \<longleftrightarrow> pm_inv (r_nodes r) (r_heads r) L \<and>
     distinct (r_free r) \<and> set (r_free r) \<subseteq> indices (r_nodes r) \<and> nat ` set (r_free r) \<inter> L = {} \<and>
     (\<forall>x<length (r_nodes r). x \<notin> L \<longrightarrow> n_ptr (r_nodes r ! x) = 0) \<and>
     (\<forall>x<length (r_nodes r). n_version (r_nodes r ! x) \<noteq> 0)"

definition rep_inv :: "rep \<Rightarrow> bool" where
  "rep_inv r \<longleftrightarrow> graph_ok (r_nodes r) \<and> table_ok r (live r) \<and>
     (\<forall>(u, v)\<in>edges (r_nodes r). nat u \<in> live r \<and> nat v \<in> live r)"

definition vertices :: "rep \<Rightarrow> ptr set" where
  "vertices r = (\<lambda>x. n_ptr (r_nodes r ! x)) ` live r"

definition arcs :: "rep \<Rightarrow> (ptr \<times> ptr) set" where
  "arcs r = (\<lambda>(u, v). (n_ptr (r_nodes r ! nat u), n_ptr (r_nodes r ! nat v))) ` edges (r_nodes r)"

definition id_of :: "rep \<Rightarrow> ptr \<Rightarrow> u64 option" where
  "id_of r p = (case pm_find (r_nodes r) (r_heads r) p of
     Some i \<Rightarrow> if i = -1 then None else map_option (\<lambda>n. make_id i (n_version n)) (vec_get (r_nodes r) (idx i))
   | None \<Rightarrow> None)"

text \<open>Ids whose index is in range: what \<^verbatim>\<open>GetId\<close> has ever handed out.\<close>

definition issued :: "rep \<Rightarrow> u64 set" where
  "issued r = {g. idx (node_index g) < length (r_nodes r)}"

definition node_id :: "rep \<Rightarrow> nat \<Rightarrow> u64" where
  "node_id r x = make_id (int x) (n_version (r_nodes r ! x))"

lemma table_okI:
  assumes "r_nodes r = nodes" "r_heads r = ht" "r_free r = free"
    and "pm_inv nodes ht L" "distinct free" "set free \<subseteq> indices nodes" "nat ` set free \<inter> L = {}"
    and "\<And>x. x < length nodes \<Longrightarrow> x \<notin> L \<Longrightarrow> n_ptr (nodes ! x) = 0"
    and "\<And>x. x < length nodes \<Longrightarrow> n_version (nodes ! x) \<noteq> 0"
  shows "table_ok r L"
  using assms by (simp add: table_ok_def)

lemma live_eq:
  assumes inv: "pm_inv (r_nodes r) (r_heads r) L" and len: "length (r_nodes r) < 2 ^ 31"
  shows "live r = L"
proof (intro set_eqI iffI)
  fix x assume x: "x \<in> L"
  then show "x \<in> live r"
    using pm_inv_less [OF inv x] pm_find_spec(1) [OF inv len x refl] by (simp add: live_def)
next
  fix x assume x: "x \<in> live r"
  show "x \<in> L"
  proof (cases "\<exists>y\<in>L. n_ptr (r_nodes r ! y) = n_ptr (r_nodes r ! x)")
    case True
    then obtain y where y: "y \<in> L" "n_ptr (r_nodes r ! y) = n_ptr (r_nodes r ! x)" by blast
    then have "pm_find (r_nodes r) (r_heads r) (n_ptr (r_nodes r ! x)) = Some (int y)"
      using pm_find_spec(1) [OF inv len] by simp
    then show ?thesis using x y(1) by (simp add: live_def)
  next
    case False
    then have "pm_find (r_nodes r) (r_heads r) (n_ptr (r_nodes r ! x)) = Some (-1)"
      using pm_find_spec(2) [OF inv len] by simp
    then show ?thesis using x by (simp add: live_def)
  qed
qed

lemma rep_invI:
  assumes "graph_ok (r_nodes r)" "table_ok r L"
    "\<And>u v. (u, v) \<in> edges (r_nodes r) \<Longrightarrow> nat u \<in> L \<and> nat v \<in> L"
  shows "rep_inv r" "live r = L"
proof -
  have "length (r_nodes r) < 2 ^ 31"
    using assms(1) nodes_ok_length by (simp add: graph_ok_def)
  then show L: "live r = L" using assms(2) live_eq by (simp add: table_ok_def)
  show "rep_inv r" using assms L by (auto simp: rep_inv_def)
qed

lemma rep_invD:
  assumes "rep_inv r"
  shows "graph_ok (r_nodes r)" "nodes_ok (r_nodes r)" "table_ok r (live r)"
    "pm_inv (r_nodes r) (r_heads r) (live r)" "length (r_nodes r) < 2 ^ 31"
    "int (length (r_nodes r)) \<le> node_limit"
    "\<And>u v. (u, v) \<in> edges (r_nodes r) \<Longrightarrow> nat u \<in> live r \<and> nat v \<in> live r"
    "\<And>x. x < length (r_nodes r) \<Longrightarrow> x \<notin> live r \<Longrightarrow> n_ptr (r_nodes r ! x) = 0"
    "\<And>x. x < length (r_nodes r) \<Longrightarrow> n_version (r_nodes r ! x) \<noteq> 0"
proof -
  show g: "graph_ok (r_nodes r)" and t: "table_ok r (live r)" using assms by (simp_all add: rep_inv_def)
  show n: "nodes_ok (r_nodes r)" using g by (simp add: graph_ok_def)
  show "length (r_nodes r) < 2 ^ 31" by (rule nodes_ok_length [OF n])
  show "int (length (r_nodes r)) \<le> node_limit" using n by (simp add: nodes_ok_def)
  show "nat u \<in> live r \<and> nat v \<in> live r" if "(u, v) \<in> edges (r_nodes r)" for u v
    using assms that by (auto simp: rep_inv_def)
qed (use assms in \<open>auto simp: rep_inv_def table_ok_def\<close>)

lemma live_less: "x \<in> live r \<Longrightarrow> x < length (r_nodes r)"
  by (simp add: live_def)

lemma live_ptr_inj:
  assumes "rep_inv r" "x \<in> live r" "y \<in> live r" "n_ptr (r_nodes r ! x) = n_ptr (r_nodes r ! y)"
  shows "x = y"
  using rep_invD(4) [OF assms(1)] assms(2-4) unfolding pm_inv_def by (auto dest: inj_onD)

lemma rep_init_inv: "rep_inv rep_init" "vertices rep_init = {}" "arcs rep_init = {}"
proof -
  have g: "graph_ok (r_nodes rep_init)"
    by (simp add: graph_ok_def rep_init_def nodes_ok_def node_limit_def mirrored_def ranks_ok_def
        bij_betw_def increasing_def edges_def indices_def visited_set_def)
  have t: "table_ok rep_init {}"
    by (simp add: table_ok_def rep_init_def pm_inv_empty)
  have e: "edges (r_nodes rep_init) = {}" by (simp add: edges_def rep_init_def indices_def)
  show "rep_inv rep_init" by (rule rep_invI [OF g t]) (simp_all add: e)
  show "vertices rep_init = {}" "arcs rep_init = {}"
    by (simp_all add: vertices_def arcs_def e) (simp add: live_def rep_init_def)
qed

section \<open>Ids\<close>

lemma node_index_node_id:
  "rep_inv r \<Longrightarrow> x < length (r_nodes r) \<Longrightarrow> node_index (node_id r x) = int x"
  using rep_invD(5) [of r] by (simp add: node_id_def node_index_make_id)

lemma find_node_id:
  assumes "rep_inv r" "x < length (r_nodes r)"
  shows "find_node r (node_id r x) = Some (Some x)"
proof -
  have "idx (int x) = x" using assms rep_invD(5) [OF assms(1)] by (simp add: idx_of_nat)
  then show ?thesis
    using assms by (simp add: find_node_def node_index_node_id) (simp add: node_id_def)
qed

lemma id_of_live:
  assumes inv: "rep_inv r" and x: "x \<in> live r" "n_ptr (r_nodes r ! x) = p"
  shows "id_of r p = Some (node_id r x)"
  using pm_find_spec(1) [OF rep_invD(4,5) [OF inv] x] live_less [OF x(1)] rep_invD(5) [OF inv]
  by (simp add: id_of_def node_id_def idx_of_nat)

lemma id_of_None: "rep_inv r \<Longrightarrow> p \<notin> vertices r \<Longrightarrow> id_of r p = None"
proof -
  assume inv: "rep_inv r" and "p \<notin> vertices r"
  then have "pm_find (r_nodes r) (r_heads r) p = Some (-1)"
    by (intro pm_find_spec(2) [OF rep_invD(4,5) [OF inv]]) (auto simp: vertices_def)
  then show ?thesis by (simp add: id_of_def)
qed

lemma id_of_Some:
  assumes inv: "rep_inv r"
  shows "id_of r p = Some g \<longleftrightarrow> (\<exists>x\<in>live r. n_ptr (r_nodes r ! x) = p \<and> g = node_id r x)"
proof
  assume g: "id_of r p = Some g"
  have "p \<in> vertices r"
  proof (rule ccontr)
    assume "p \<notin> vertices r"
    then show False using g id_of_None [OF inv] by simp
  qed
  then obtain x where x: "x \<in> live r" "n_ptr (r_nodes r ! x) = p" by (auto simp: vertices_def)
  have "g = node_id r x" using g id_of_live [OF inv x] by simp
  then show "\<exists>x\<in>live r. n_ptr (r_nodes r ! x) = p \<and> g = node_id r x" using x by blast
next
  assume "\<exists>x\<in>live r. n_ptr (r_nodes r ! x) = p \<and> g = node_id r x"
  then obtain x where x: "x \<in> live r" "n_ptr (r_nodes r ! x) = p" "g = node_id r x" by blast
  show "id_of r p = Some g" unfolding x(3) by (rule id_of_live [OF inv x(1,2)])
qed

lemma node_id_inj:
  assumes "rep_inv r" "x < length (r_nodes r)" "y < length (r_nodes r)" "node_id r x = node_id r y"
  shows "x = y"
  using arg_cong [OF assms(4), of node_index]
  unfolding node_index_node_id [OF assms(1,2)] node_index_node_id [OF assms(1,3)] by simp

text \<open>No id is \<^verbatim>\<open>InvalidGraphId()\<close>.\<close>

lemma node_id_nonzero: "rep_inv r \<Longrightarrow> x < length (r_nodes r) \<Longrightarrow> node_id r x \<noteq> invalid_graph_id"
proof
  assume r: "rep_inv r" "x < length (r_nodes r)" "node_id r x = invalid_graph_id"
  have "node_version (node_id r x) = n_version (r_nodes r ! x)" by (simp add: node_id_def)
  then have "n_version (r_nodes r ! x) = node_version 0" using r(3) by (simp add: invalid_graph_id_def)
  also have "node_version 0 = 0" by (simp add: node_version_def)
  finally show False using rep_invD(9) [OF r(1,2)] by simp
qed

text \<open>\<^verbatim>\<open>Ptr\<close>: the pointer of a current id, and \<^verbatim>\<open>nullptr\<close> for an id that has expired.\<close>

lemma ptr_of_spec:
  assumes inv: "rep_inv r" and g: "g \<in> issued r"
  shows "id_of r p = Some g \<Longrightarrow> ptr_of r g = Some p"
    and "\<forall>p. id_of r p \<noteq> Some g \<Longrightarrow> ptr_of r g = Some 0"
proof -
  show "ptr_of r g = Some p" if "id_of r p = Some g"
  proof -
    from that obtain x where x: "x \<in> live r" "n_ptr (r_nodes r ! x) = p" "g = node_id r x"
      using id_of_Some [OF inv] by auto
    then show ?thesis by (simp add: ptr_of_def find_node_id [OF inv] live_less)
  qed
  show "ptr_of r g = Some 0" if no: "\<forall>p. id_of r p \<noteq> Some g"
  proof -
    let ?k = "idx (node_index g)"
    have k: "?k < length (r_nodes r)" using g by (simp add: issued_def)
    show ?thesis
    proof (cases "n_version (r_nodes r ! ?k) = node_version g")
      case True
      have "?k \<notin> live r"
      proof
        assume l: "?k \<in> live r"
        have "0 \<le> node_index g"
        proof (rule ccontr)
          assume neg: "\<not> 0 \<le> node_index g"
          have "node_index g \<ge> - (2 ^ 31)" using sint_greater_eq [of "ucast g :: u32"] by (simp add: node_index_def)
          then have "(node_index g + 2 ^ 32) mod 2 ^ 32 = node_index g + 2 ^ 32"
            using neg by (intro mod_pos_pos_trivial) auto
          then have "node_index g mod 2 ^ 32 = node_index g + 2 ^ 32" by simp
          then have "int ?k = node_index g + 2 ^ 32"
            using \<open>node_index g \<ge> - (2 ^ 31)\<close>
            by (simp add: idx_def unat_eq_nat_uint uint_word_of_int take_bit_eq_mod)
          then have "2 ^ 31 \<le> int ?k" using \<open>node_index g \<ge> - (2 ^ 31)\<close> by simp
          then show False using k rep_invD(5) [OF inv] by simp
        qed
        moreover have "node_index g < 2 ^ 31"
          using sint_less [of "ucast g :: u32"] by (simp add: node_index_def)
        ultimately have "int ?k = node_index g" by (simp add: idx_nat)
        then have "g = node_id r ?k" using True make_id_inverse [of g] by (simp add: node_id_def)
        then show False using no id_of_live [OF inv l refl] by simp
      qed
      then have "n_ptr (r_nodes r ! ?k) = 0" by (rule rep_invD(8) [OF inv k])
      then show ?thesis using True k by (simp add: ptr_of_def find_node_def)
    next
      case False
      then show ?thesis using k by (simp add: ptr_of_def find_node_def)
    qed
  qed
qed

section \<open>Operations that only change edges and ranks\<close>

lemma pm_inv_cong:
  assumes inv: "pm_inv nodes ht L" and len: "length nodes' = length nodes"
    and eq: "\<And>x. x \<in> L \<Longrightarrow> n_next (nodes' ! x) = n_next (nodes ! x)"
      "\<And>x. x \<in> L \<Longrightarrow> n_ptr (nodes' ! x) = n_ptr (nodes ! x)"
  shows "pm_inv nodes' ht L"
proof -
  obtain cs where cs: "\<And>b. seg nodes (ht b) (cs b) (-1)" "\<And>b. distinct (cs b)"
    "\<And>b x. x \<in> set (cs b) \<Longrightarrow> ptr_hash (n_ptr (nodes ! x)) = b" "(\<Union>b. set (cs b)) = L"
    and inj: "inj_on (\<lambda>x. n_ptr (nodes ! x)) L"
    using inv unfolding pm_inv_def by blast
  have less: "x \<in> L" if "x \<in> set (cs b)" for x b using cs(4) that by blast
  show ?thesis
    unfolding pm_inv_def
  proof (intro conjI exI [of _ cs] allI ballI)
    fix b
    show "seg nodes' (ht b) (cs b) (-1)"
      by (rule seg_frame [OF cs(1) len]) (rule eq(1) [OF less])
    show "distinct (cs b)" by (rule cs(2))
    show "ptr_hash (n_ptr (nodes' ! x)) = b" if "x \<in> set (cs b)" for x
      using eq(2) [OF less [OF that]] cs(3) [OF that] by simp
    show "(\<Union>b. set (cs b)) = L" by (rule cs(4))
    show "inj_on (\<lambda>x. n_ptr (nodes' ! x)) L"
      using inj eq(2) by (simp add: inj_on_def)
  qed
qed

lemma core_eqD:
  assumes "map core nodes' = map core nodes" "x < length nodes"
  shows "n_ptr (nodes' ! x) = n_ptr (nodes ! x)" "n_next (nodes' ! x) = n_next (nodes ! x)"
    "n_version (nodes' ! x) = n_version (nodes ! x)"
proof -
  note e = core_nth [OF assms]
  show "n_ptr (nodes' ! x) = n_ptr (nodes ! x)" "n_next (nodes' ! x) = n_next (nodes ! x)"
    "n_version (nodes' ! x) = n_version (nodes ! x)"
    using arg_cong [OF e, of n_ptr] arg_cong [OF e, of n_next] arg_cong [OF e, of n_version] by simp_all
qed

lemma core_frame:
  assumes inv: "rep_inv r" and g: "graph_ok (r_nodes r')"
    and c: "map core (r_nodes r') = map core (r_nodes r)"
    and same: "r_free r' = r_free r" "r_heads r' = r_heads r"
    and e: "\<forall>(u, v)\<in>edges (r_nodes r'). nat u \<in> live r \<and> nat v \<in> live r"
  shows "rep_inv r'" "live r' = live r" "id_of r' = id_of r" "vertices r' = vertices r"
    "issued r' = issued r"
    "arcs r' = (\<lambda>(u, v). (n_ptr (r_nodes r ! nat u), n_ptr (r_nodes r ! nat v))) ` edges (r_nodes r')"
proof -
  have len: "length (r_nodes r') = length (r_nodes r)" by (rule core_length [OF c])
  note eq = core_eqD [OF c]
  have "pm_inv (r_nodes r') (r_heads r') (live r)"
    unfolding same
    by (rule pm_inv_cong [OF rep_invD(4) [OF inv] len eq(2) [OF live_less] eq(1) [OF live_less]])
  then have t: "table_ok r' (live r)"
    using rep_invD(3) [OF inv] len eq same by (simp add: table_ok_def indices_def)
  show inv': "rep_inv r'" and L: "live r' = live r"
    using rep_invI [OF g t] e by blast+
  have nid: "node_id r' x = node_id r x" if "x \<in> live r" for x
    using eq(3) [OF live_less [OF that]] by (simp add: node_id_def)
  have ptr: "n_ptr (r_nodes r' ! x) = n_ptr (r_nodes r ! x)" if "x \<in> live r" for x
    by (rule eq(1) [OF live_less [OF that]])
  show "id_of r' = id_of r"
  proof
    fix p
    have "id_of r' p = Some g \<longleftrightarrow> id_of r p = Some g" for g
      unfolding id_of_Some [OF inv'] id_of_Some [OF inv] L using nid ptr by auto
    then show "id_of r' p = id_of r p" by (metis not_None_eq)
  qed
  show "vertices r' = vertices r"
    unfolding vertices_def L using ptr by (auto intro: image_cong)
  show "issued r' = issued r" by (simp add: issued_def len)
  show "arcs r' = (\<lambda>(u, v). (n_ptr (r_nodes r ! nat u), n_ptr (r_nodes r ! nat v))) ` edges (r_nodes r')"
    unfolding arcs_def
  proof (rule image_cong [OF refl])
    fix a assume "a \<in> edges (r_nodes r')"
    then show "(case a of (u, v) \<Rightarrow> (n_ptr (r_nodes r' ! nat u), n_ptr (r_nodes r' ! nat v))) =
      (case a of (u, v) \<Rightarrow> (n_ptr (r_nodes r ! nat u), n_ptr (r_nodes r ! nat v)))"
      using e ptr by (cases a) auto
  qed
qed

text \<open>Paths between live nodes are paths between their pointers.\<close>

lemma arcs_step:
  assumes inv: "rep_inv r" and x: "x \<in> live r" and y: "y \<in> live r"
  shows "(n_ptr (r_nodes r ! x), n_ptr (r_nodes r ! y)) \<in> arcs r \<longleftrightarrow> (int x, int y) \<in> edges (r_nodes r)"
proof
  assume "(n_ptr (r_nodes r ! x), n_ptr (r_nodes r ! y)) \<in> arcs r"
  then obtain u v where uv: "(u, v) \<in> edges (r_nodes r)" "n_ptr (r_nodes r ! x) = n_ptr (r_nodes r ! nat u)"
    "n_ptr (r_nodes r ! y) = n_ptr (r_nodes r ! nat v)" by (auto simp: arcs_def)
  then have "x = nat u" "y = nat v"
    using live_ptr_inj [OF inv x] live_ptr_inj [OF inv y] rep_invD(7) [OF inv uv(1)] by auto
  moreover have "0 \<le> u" "0 \<le> v"
    using edges_indices [OF rep_invD(2) [OF inv] uv(1)] by (simp_all add: indices_iff)
  ultimately show "(int x, int y) \<in> edges (r_nodes r)" using uv(1) by simp
next
  assume "(int x, int y) \<in> edges (r_nodes r)"
  then show "(n_ptr (r_nodes r ! x), n_ptr (r_nodes r ! y)) \<in> arcs r"
    unfolding arcs_def by (force intro: image_eqI [of _ _ "(int x, int y)"])
qed

lemma arcs_path:
  assumes inv: "rep_inv r" and x: "x \<in> live r" and y: "y \<in> live r"
  shows "(n_ptr (r_nodes r ! x), n_ptr (r_nodes r ! y)) \<in> (arcs r)\<^sup>* \<longleftrightarrow>
    (int x, int y) \<in> (edges (r_nodes r))\<^sup>*"
proof
  assume "(int x, int y) \<in> (edges (r_nodes r))\<^sup>*"
  then have "(n_ptr (r_nodes r ! x), n_ptr (r_nodes r ! nat (int y))) \<in> (arcs r)\<^sup>*"
  proof (induction rule: rtrancl_induct)
    case base
    then show ?case by simp
  next
    case (step u v)
    then have "(n_ptr (r_nodes r ! nat u), n_ptr (r_nodes r ! nat v)) \<in> arcs r"
      unfolding arcs_def by (force intro: image_eqI [of _ _ "(u, v)"])
    then show ?case using step.IH by (rule rtrancl_into_rtrancl [rotated])
  qed
  then show "(n_ptr (r_nodes r ! x), n_ptr (r_nodes r ! y)) \<in> (arcs r)\<^sup>*" by simp
next
  have "\<exists>z\<in>live r. n_ptr (r_nodes r ! z) = q \<and> (int x, int z) \<in> (edges (r_nodes r))\<^sup>*"
    if "(n_ptr (r_nodes r ! x), q) \<in> (arcs r)\<^sup>*" for q
    using that
  proof (induction rule: rtrancl_induct)
    case base
    then show ?case using x by blast
  next
    case (step p q)
    then obtain z where z: "z \<in> live r" "n_ptr (r_nodes r ! z) = p"
      "(int x, int z) \<in> (edges (r_nodes r))\<^sup>*" by blast
    obtain u v where uv: "(u, v) \<in> edges (r_nodes r)" "p = n_ptr (r_nodes r ! nat u)"
      "q = n_ptr (r_nodes r ! nat v)"
      using step(2) by (auto simp: arcs_def)
    then have "nat u \<in> live r" "nat v \<in> live r" using rep_invD(7) [OF inv] by blast+
    moreover have "0 \<le> u" "0 \<le> v"
      using edges_indices [OF rep_invD(2) [OF inv] uv(1)] by (simp_all add: indices_iff)
    moreover have "(n_ptr (r_nodes r ! z), n_ptr (r_nodes r ! nat v)) \<in> arcs r"
      using step(2) z(2) uv(3) by simp
    ultimately have "(int z, int (nat v)) \<in> edges (r_nodes r)"
      using arcs_step [OF inv z(1)] by simp
    then show ?case
      using z(3) uv(3) \<open>nat v \<in> live r\<close> by (blast intro: rtrancl_into_rtrancl)
  qed
  then show "(n_ptr (r_nodes r ! x), n_ptr (r_nodes r ! y)) \<in> (arcs r)\<^sup>* \<Longrightarrow>
      (int x, int y) \<in> (edges (r_nodes r))\<^sup>*"
    using live_ptr_inj [OF inv _ y] by blast
qed

definition same_vertices :: "rep \<Rightarrow> rep \<Rightarrow> bool" where
  "same_vertices r r' \<longleftrightarrow> vertices r' = vertices r \<and> id_of r' = id_of r \<and> issued r' = issued r"

lemma same_verticesD:
  "same_vertices r r' \<Longrightarrow> vertices r' = vertices r"
  "same_vertices r r' \<Longrightarrow> id_of r' = id_of r"
  "same_vertices r r' \<Longrightarrow> issued r' = issued r"
  by (simp_all add: same_vertices_def)

lemma id_of_node:
  assumes "rep_inv r" "id_of r p = Some g"
  obtains x where "x \<in> live r" "x < length (r_nodes r)" "n_ptr (r_nodes r ! x) = p"
    "node_index g = int x" "find_node r g = Some (Some x)"
proof -
  obtain x where x: "x \<in> live r" "n_ptr (r_nodes r ! x) = p" "g = node_id r x"
    using assms(2) id_of_Some [OF assms(1)] by blast
  show ?thesis
    by (rule that [OF x(1) live_less [OF x(1)] x(2)])
      (simp_all add: x(3) find_node_id [OF assms(1)] node_index_node_id [OF assms(1)] live_less [OF x(1)])
qed

lemma insert_edge_conv:
  assumes "find_node r g = Some (Some nx)" "find_node r h = Some (Some ny)"
    "node_index g = int nx" "node_index h = int ny"
  shows "insert_edge g h r = (if nx = ny then Some (r, False) else insert_nodes nx ny r)"
  using assms by (simp add: insert_edge_def insert_nodes_def Let_def)

lemma insert_edge_live:
  assumes inv: "rep_inv r" and p: "id_of r p = Some g" and q: "id_of r q = Some h"
  shows "\<exists>r' ok. insert_edge g h r = Some (r', ok) \<and> rep_inv r' \<and>
    (ok \<longleftrightarrow> (q, p) \<notin> (arcs r)\<^sup>*) \<and>
    arcs r' = (if ok then insert (p, q) (arcs r) else arcs r) \<and> same_vertices r r' \<and>
    map core (r_nodes r') = map core (r_nodes r)"
proof -
  obtain x where x: "x \<in> live r" "x < length (r_nodes r)" "n_ptr (r_nodes r ! x) = p"
    "node_index g = int x" "find_node r g = Some (Some x)" by (rule id_of_node [OF inv p])
  obtain y where y: "y \<in> live r" "y < length (r_nodes r)" "n_ptr (r_nodes r ! y) = q"
    "node_index h = int y" "find_node r h = Some (Some y)" by (rule id_of_node [OF inv q])
  note conv = insert_edge_conv [OF x(5) y(5) x(4) y(4)]
  note path = arcs_path [OF inv y(1) x(1), unfolded x(3) y(3)]
  show ?thesis
  proof (cases "x = y")
    case True
    then have "p = q" using x(3) y(3) by simp
    then show ?thesis using inv True conv by (auto simp: same_vertices_def)
  next
    case False
    obtain r' ok where r': "insert_nodes x y r = Some (r', ok)"
      "ok \<longleftrightarrow> (int y, int x) \<notin> (edges (r_nodes r))\<^sup>*" "graph_ok (r_nodes r')"
      "edges (r_nodes r') = (if ok then insert (int x, int y) (edges (r_nodes r)) else edges (r_nodes r))"
      "map core (r_nodes r') = map core (r_nodes r)" "r_free r' = r_free r" "r_heads r' = r_heads r"
      using insert_nodes_spec [OF rep_invD(1) [OF inv] x(2) y(2) False] by blast
    have e: "\<forall>(u, v)\<in>edges (r_nodes r'). nat u \<in> live r \<and> nat v \<in> live r"
      using rep_invD(7) [OF inv] x(1) y(1) unfolding r'(4) by (auto split: if_splits)
    note fr = core_frame [OF inv r'(3,5,6,7) e]
    have "arcs r' = (if ok then insert (p, q) (arcs r) else arcs r)"
      by (rule trans [OF fr(6)]) (simp add: r'(4) arcs_def x(3) y(3))
    then show ?thesis
      using conv False r'(1,2,5) fr(1-5) path by (auto simp: same_vertices_def)
  qed
qed

lemma insert_edge_expired:
  assumes "find_node r g = Some fx" "find_node r h = Some fy" "fx = None \<or> fy = None"
  shows "insert_edge g h r = Some (r, True)"
  using assms by (auto simp: insert_edge_def Let_def split: option.splits)

lemma remove_edge_live:
  assumes inv: "rep_inv r" and p: "id_of r p = Some g" and q: "id_of r q = Some h" and ne: "p \<noteq> q"
  shows "\<exists>r'. remove_edge g h r = Some r' \<and> rep_inv r' \<and> arcs r' = arcs r - {(p, q)} \<and>
    same_vertices r r' \<and> length (r_nodes r') = length (r_nodes r)"
proof -
  obtain x where x: "x \<in> live r" "x < length (r_nodes r)" "n_ptr (r_nodes r ! x) = p"
    "node_index g = int x" "find_node r g = Some (Some x)" by (rule id_of_node [OF inv p])
  obtain y where y: "y \<in> live r" "y < length (r_nodes r)" "n_ptr (r_nodes r ! y) = q"
    "node_index h = int y" "find_node r h = Some (Some y)" by (rule id_of_node [OF inv q])
  have g: "nodes_ok (r_nodes r)" "mirrored (r_nodes r)" "ranks_ok (r_nodes r)" "increasing (r_nodes r)"
    "visited_set (r_nodes r) = {}"
    using rep_invD(1) [OF inv] by (simp_all add: graph_ok_def)
  have "x \<noteq> y" using ne x(3) y(3) by auto
  then obtain nodes' where n: "erase_edge x y (int x) (int y) (r_nodes r) = Some nodes'"
    "nodes_ok nodes'" "mirrored nodes'" "edges nodes' = edges (r_nodes r) - {(int x, int y)}"
    "map core nodes' = map core (r_nodes r)" "visited_set nodes' = visited_set (r_nodes r)"
    "\<forall>u. rank_at nodes' u = rank_at (r_nodes r) u"
    using erase_edge_spec [OF g(1,2) x(2) y(2)] by blast
  let ?r = "r\<lparr>r_nodes := nodes'\<rparr>"
  have "ranks_ok nodes'"
    by (rule ranks_ok_cong [OF g(3)]) (use n(7) core_length [OF n(5)] in \<open>auto simp: indices_def\<close>)
  moreover have "increasing nodes'" using g(4) n(4,7) by (auto simp: increasing_def)
  ultimately have ok: "graph_ok (r_nodes ?r)" using n(2,3,6) g(5) by (simp add: graph_ok_def)
  have e: "\<forall>(u, v)\<in>edges (r_nodes ?r). nat u \<in> live r \<and> nat v \<in> live r"
    using rep_invD(7) [OF inv] by (auto simp: n(4))
  have c: "map core (r_nodes ?r) = map core (r_nodes r)" using n(5) by simp
  note fr = core_frame [OF inv ok c _ _ e]
  let ?f = "\<lambda>(u, v). (n_ptr (r_nodes r ! nat u), n_ptr (r_nodes r ! nat v))"
  let ?C = "{(u, v). 0 \<le> u \<and> 0 \<le> v \<and> nat u \<in> live r \<and> nat v \<in> live r}"
  have inj: "inj_on ?f ?C"
    using live_ptr_inj [OF inv] by (fastforce simp: inj_on_def eq_nat_nat_iff)
  have sub: "edges (r_nodes r) - {(int x, int y)} \<subseteq> ?C" "{(int x, int y)} \<subseteq> ?C"
    using rep_invD(7) [OF inv] edges_indices [OF g(1)] x(1) y(1) by (auto simp: indices_iff)
  have "arcs ?r = ?f ` (edges (r_nodes r) - {(int x, int y)})"
    using fr(6) n(4) by simp
  also have "\<dots> = ?f ` edges (r_nodes r) - ?f ` {(int x, int y)}"
    by (rule inj_on_image_set_diff [OF inj sub])
  finally have "arcs ?r = arcs r - {(p, q)}" by (simp add: arcs_def x(3) y(3))
  then show ?thesis
    using n(1) fr(1-5) x(4,5) y(4,5) core_length [OF n(5)]
    by (simp add: remove_edge_def same_vertices_def)
qed

lemma has_edge_live:
  assumes inv: "rep_inv r" and p: "id_of r p = Some g" and q: "id_of r q = Some h"
  shows "has_edge r g h = Some ((p, q) \<in> arcs r)"
proof -
  obtain x where x: "x \<in> live r" "x < length (r_nodes r)" "n_ptr (r_nodes r ! x) = p"
    "node_index g = int x" "find_node r g = Some (Some x)" by (rule id_of_node [OF inv p])
  obtain y where y: "y \<in> live r" "y < length (r_nodes r)" "n_ptr (r_nodes r ! y) = q"
    "node_index h = int y" "find_node r h = Some (Some y)" by (rule id_of_node [OF inv q])
  have "node_set_contains (n_out (r_nodes r ! x)) (int y) = Some (int y \<in> ns_set (n_out (r_nodes r ! x)))"
    using node_set_contains_spec nodes_ok_sets(1) [OF rep_invD(2) [OF inv], of "int x"] x(2) by simp
  moreover have "int y \<in> ns_set (n_out (r_nodes r ! x)) \<longleftrightarrow> (int x, int y) \<in> edges (r_nodes r)"
    using x(2) by (simp add: edges_def succ_list_def indices_def)
  ultimately show ?thesis
    using x(4,5) y(4,5) arcs_step [OF inv x(1) y(1)] x(3) y(3) by (simp add: has_edge_def)
qed

section \<open>GetId\<close>

text \<open>\<open>gpart\<close> is what the graph invariant reads of a node; the pointer map changes none of it.\<close>

definition gpart :: "node \<Rightarrow> int \<times> bool \<times> node_set \<times> node_set" where
  "gpart n = (n_rank n, n_visited n, n_in n, n_out n)"

lemma gpart_graph:
  assumes "map gpart nodes' = map gpart nodes"
  shows "graph_ok nodes' \<longleftrightarrow> graph_ok nodes" "edges nodes' = edges nodes" "indices nodes' = indices nodes"
    "length nodes' = length nodes"
proof -
  show len: "length nodes' = length nodes" using assms by (metis length_map)
  show ix: "indices nodes' = indices nodes" by (simp add: indices_def len)
  have g: "gpart (nodes' ! k) = gpart (nodes ! k)" if "k < length nodes" for k
    using assms len that by (metis nth_map)
  have at: "n_rank (nodes' ! k) = n_rank (nodes ! k)" "n_visited (nodes' ! k) = n_visited (nodes ! k)"
    "n_in (nodes' ! k) = n_in (nodes ! k)" "n_out (nodes' ! k) = n_out (nodes ! k)" if "k < length nodes" for k
    using g [OF that] by (simp_all add: gpart_def)
  have lists: "succ_list nodes' u = succ_list nodes u" "pred_list nodes' u = pred_list nodes u"
    "rank_at nodes' u = rank_at nodes u" if "u \<in> indices nodes" for u
    using that at by (simp_all add: succ_list_def pred_list_def rank_at_def indices_iff)
  show e: "edges nodes' = edges nodes" using lists ix by (auto simp: edges_def)
  have "mirrored nodes' \<longleftrightarrow> mirrored nodes" using lists ix by (simp add: mirrored_def)
  moreover have "ranks_ok nodes' \<longleftrightarrow> ranks_ok nodes"
    using ix bij_betw_cong [of "indices nodes" "rank_at nodes'" "rank_at nodes"] lists
    by (simp add: ranks_ok_def)
  moreover have "visited_set nodes' = visited_set nodes"
    using at ix by (auto simp: visited_set_def indices_iff)
  moreover have "nodes_ok nodes' \<longleftrightarrow> nodes_ok nodes"
    unfolding nodes_ok_def all_set_conv_all_nth len using at by simp
  moreover have "increasing nodes' \<longleftrightarrow> increasing nodes" if "nodes_ok nodes"
    unfolding increasing_def e using lists edges_indices [OF that] by (auto split: prod.splits)
  ultimately show "graph_ok nodes' \<longleftrightarrow> graph_ok nodes" by (auto simp: graph_ok_def)
qed

text \<open>Appending a node without edges, whose rank is the next free number.\<close>

lemma append_node_graph:
  assumes ok: "graph_ok nodes" and len: "int (length nodes) < node_limit"
    and n: "n_rank n = int (length nodes)" "\<not> n_visited n" "n_in n = node_set_empty" "n_out n = node_set_empty"
  shows "graph_ok (nodes @ [n])" "edges (nodes @ [n]) = edges nodes"
proof -
  let ?k = "int (length nodes)" and ?n = "nodes @ [n]"
  have g: "nodes_ok nodes" "mirrored nodes" "ranks_ok nodes" "increasing nodes" "visited_set nodes = {}"
    using ok by (simp_all add: graph_ok_def)
  have ix: "indices ?n = insert ?k (indices nodes)" by (auto simp: indices_def)
  have old: "succ_list ?n u = succ_list nodes u" "pred_list ?n u = pred_list nodes u"
    "rank_at ?n u = rank_at nodes u" "u \<noteq> ?k" if "u \<in> indices nodes" for u
    using that by (auto simp: succ_list_def pred_list_def rank_at_def indices_iff nth_append)
  have new: "set (succ_list ?n ?k) = {}" "set (pred_list ?n ?k) = {}" "rank_at ?n ?k = ?k"
    using n node_set_empty_spec(2) by (simp_all add: succ_list_def pred_list_def rank_at_def)
  have k: "?k \<notin> indices nodes" by (simp add: indices_def)
  show e: "edges ?n = edges nodes" using old new k by (auto simp: edges_def ix)
  have "nodes_ok ?n"
    using g(1) len n(3,4) node_set_empty_spec by (force simp: nodes_ok_def)
  moreover have "mirrored ?n"
    unfolding mirrored_def ix
  proof (intro ballI)
    fix u v assume uv: "u \<in> insert ?k (indices nodes)" "v \<in> insert ?k (indices nodes)"
    have "?k \<notin> set (succ_list nodes w)" "?k \<notin> set (pred_list nodes w)" if "w \<in> indices nodes" for w
      using nodes_ok_sets(3,4) [OF g(1), of w] that k by (auto simp: succ_list_def pred_list_def indices_iff)
    then show "v \<in> set (succ_list ?n u) \<longleftrightarrow> u \<in> set (pred_list ?n v)"
      using uv g(2) old new by (auto simp: mirrored_def)
  qed
  moreover have "ranks_ok ?n"
  proof -
    have "bij_betw (rank_at ?n) (indices nodes) (indices nodes)"
      using g(3) bij_betw_cong [of "indices nodes" "rank_at ?n" "rank_at nodes"] old by (simp add: ranks_ok_def)
    then have "bij_betw (rank_at ?n) (indices nodes \<union> {?k}) (indices nodes \<union> {?k})"
      using notIn_Un_bij_betw [OF k, of "rank_at ?n" "indices nodes"] new(3) k by simp
    then show ?thesis by (simp add: ranks_ok_def ix)
  qed
  moreover have "increasing ?n"
    unfolding increasing_def e using g(4) old edges_indices [OF g(1)]
    by (fastforce simp: increasing_def)
  moreover have "visited_set ?n = {}"
    using g(5) n(2) by (auto simp: visited_set_def ix indices_iff nth_append)
  ultimately show "graph_ok ?n" by (simp add: graph_ok_def)
qed

lemma vertex_added:
  assumes inv: "rep_inv r" "rep_inv r'" and L: "live r' = insert x (live r)" "x \<notin> live r"
    and p: "p \<notin> vertices r" "n_ptr (r_nodes r' ! x) = p"
    and old: "\<And>y. y \<in> live r \<Longrightarrow> n_ptr (r_nodes r' ! y) = n_ptr (r_nodes r ! y) \<and>
      n_version (r_nodes r' ! y) = n_version (r_nodes r ! y)"
    and e: "edges (r_nodes r') = edges (r_nodes r)"
  shows "id_of r' = (id_of r)(p \<mapsto> node_id r' x)" "vertices r' = insert p (vertices r)"
    "arcs r' = arcs r"
proof -
  show v: "vertices r' = insert p (vertices r)"
    unfolding vertices_def L(1) using old p(2) by simp
  have nid: "node_id r' y = node_id r y" if "y \<in> live r" for y
    using old [OF that] by (simp add: node_id_def)
  show "id_of r' = (id_of r)(p \<mapsto> node_id r' x)"
  proof
    fix q
    show "id_of r' q = ((id_of r)(p \<mapsto> node_id r' x)) q"
    proof (cases "q = p")
      case True
      then show ?thesis using id_of_live [OF inv(2), of x p] L(1) p(2) by simp
    next
      case False
      show ?thesis
      proof (cases "q \<in> vertices r")
        case True
        then obtain y where y: "y \<in> live r" "n_ptr (r_nodes r ! y) = q" by (auto simp: vertices_def)
        then have "id_of r q = Some (node_id r y)" by (rule id_of_live [OF inv(1)])
        moreover have "id_of r' q = Some (node_id r' y)"
          using id_of_live [OF inv(2), of y q] y old [OF y(1)] L(1) by simp
        ultimately show ?thesis using False nid [OF y(1)] by simp
      next
        case no: False
        then show ?thesis using id_of_None [OF inv(1) no] id_of_None [OF inv(2), of q] v False by simp
      qed
    qed
  qed
  show "arcs r' = arcs r"
    unfolding arcs_def e
  proof (rule image_cong [OF refl])
    fix a assume "a \<in> edges (r_nodes r)"
    then show "(case a of (u, v) \<Rightarrow> (n_ptr (r_nodes r' ! nat u), n_ptr (r_nodes r' ! nat v))) =
      (case a of (u, v) \<Rightarrow> (n_ptr (r_nodes r ! nat u), n_ptr (r_nodes r ! nat v)))"
      using rep_invD(7) [OF inv(1)] old by (cases a) auto
  qed
qed

lemma pm_inv_append:
  assumes "pm_inv nodes ht L"
  shows "pm_inv (nodes @ [n]) ht L"
proof -
  obtain cs where cs: "\<And>b. seg nodes (ht b) (cs b) (-1)" "\<And>b. distinct (cs b)"
    "\<And>b x. x \<in> set (cs b) \<Longrightarrow> ptr_hash (n_ptr (nodes ! x)) = b" "(\<Union>b. set (cs b)) = L"
    and inj: "inj_on (\<lambda>x. n_ptr (nodes ! x)) L"
    using assms unfolding pm_inv_def by blast
  have less: "x < length nodes" if "x \<in> set (cs b)" for x b by (rule seg_less [OF cs(1) that])
  have "seg (nodes @ [n]) i xs j" if "seg nodes i xs j" for i xs j
    using that by (induction xs arbitrary: i) (auto simp: nth_append)
  then have "seg (nodes @ [n]) (ht b) (cs b) (-1)" for b using cs(1) by blast
  moreover have "ptr_hash (n_ptr ((nodes @ [n]) ! x)) = b" if "x \<in> set (cs b)" for x b
    using cs(3) [OF that] less [OF that] by (simp add: nth_append)
  moreover have "inj_on (\<lambda>x. n_ptr ((nodes @ [n]) ! x)) L"
    using inj pm_inv_less [OF assms] by (simp add: inj_on_def nth_append)
  ultimately show ?thesis unfolding pm_inv_def using cs(2,4) by blast
qed

text \<open>What \<^verbatim>\<open>GetId\<close> promises.\<close>

definition got_id :: "rep \<Rightarrow> ptr \<Rightarrow> rep \<Rightarrow> u64 \<Rightarrow> bool" where
  "got_id r p r' g \<longleftrightarrow> rep_inv r' \<and> id_of r' = (id_of r)(p \<mapsto> g) \<and>
     vertices r' = insert p (vertices r) \<and> arcs r' = arcs r \<and> issued r \<subseteq> issued r' \<and>
     g \<in> issued r' \<and> g \<noteq> invalid_graph_id \<and> (p \<in> vertices r \<longrightarrow> r' = r) \<and>
     length (r_nodes r') \<le> length (r_nodes r) + 1"

lemma issued_node_id: "rep_inv r \<Longrightarrow> x < length (r_nodes r) \<Longrightarrow> node_id r x \<in> issued r"
  using rep_invD(5) [of r] by (simp add: issued_def node_index_node_id idx_of_nat)

lemma get_id_old:
  assumes inv: "rep_inv r" and p: "p \<in> vertices r"
  shows "\<exists>g. get_id t p r = Some (r, g) \<and> got_id r p r g"
proof -
  obtain x where x: "x \<in> live r" "n_ptr (r_nodes r ! x) = p" using p by (auto simp: vertices_def)
  have xl: "x < length (r_nodes r)" by (rule live_less [OF x(1)])
  have f: "pm_find (r_nodes r) (r_heads r) p = Some (int x)"
    by (rule pm_find_spec(1) [OF rep_invD(4,5) [OF inv] x])
  have i: "idx (int x) = x" using xl rep_invD(5) [OF inv] by (simp add: idx_of_nat)
  have "get_id t p r = Some (r, node_id r x)"
    using f i xl by (simp add: get_id_def node_id_def)
  moreover have "got_id r p r (node_id r x)"
    using inv p id_of_live [OF inv x] node_id_nonzero [OF inv xl] issued_node_id [OF inv xl]
    by (auto simp: got_id_def fun_upd_idem_iff)
  ultimately show ?thesis by blast
qed

lemma get_id_new:
  assumes inv: "rep_inv r" and p: "p \<notin> vertices r" and free: "r_free r = []"
    and len: "int (length (r_nodes r)) < node_limit"
  shows "\<exists>r' g. get_id t p r = Some (r', g) \<and> got_id r p r' g"
proof -
  let ?k = "length (r_nodes r)"
  let ?m = "node_init\<lparr>n_version := 1, n_rank := int ?k, n_ptr := p, n_thread := t\<rparr>"
  let ?n1 = "r_nodes r @ [?m]"
  have k31: "?k < 2 ^ 31" by (rule rep_invD(5) [OF inv])
  have ik: "i32 (int ?k) = int ?k" using k31 by (simp add: i32_id)
  have ptr_old: "\<forall>y\<in>live r. n_ptr (r_nodes r ! y) \<noteq> p" using p by (auto simp: vertices_def)
  have f: "pm_find (r_nodes r) (r_heads r) p = Some (-1)"
    by (rule pm_find_spec(2) [OF rep_invD(4,5) [OF inv] ptr_old])
  have "length ?n1 < 2 ^ 31" using len by (simp add: node_limit_def)
  moreover have "?k \<notin> live r" using live_less by blast
  moreover have "\<forall>y\<in>live r. n_ptr (?n1 ! y) \<noteq> p" using ptr_old live_less by (auto simp: nth_append)
  ultimately obtain ht where add: "pm_add p (int ?k) ?n1 (r_heads r) =
      Some (?n1[?k := (?n1 ! ?k)\<lparr>n_next := r_heads r (ptr_hash p)\<rparr>], ht)"
    "pm_inv (?n1[?k := (?n1 ! ?k)\<lparr>n_next := r_heads r (ptr_hash p)\<rparr>]) ht (insert ?k (live r))"
    using pm_add_spec [OF pm_inv_append [OF rep_invD(4) [OF inv]], of ?m ?k p] by auto
  let ?n2 = "?n1[?k := (?n1 ! ?k)\<lparr>n_next := r_heads r (ptr_hash p)\<rparr>]"
  let ?r = "r\<lparr>r_nodes := ?n2, r_heads := ht\<rparr>"
  have gp: "map gpart ?n2 = map gpart ?n1" by (rule map_nth_update) (simp add: gpart_def)
  have app: "graph_ok ?n1" "edges ?n1 = edges (r_nodes r)"
    by (rule append_node_graph [OF rep_invD(1) [OF inv] len]; simp add: node_init_def)+
  have e: "edges (r_nodes ?r) = edges (r_nodes r)" using gpart_graph(2) [OF gp] app(2) by simp
  have at: "n_ptr (?n2 ! y) = n_ptr (r_nodes r ! y)" "n_version (?n2 ! y) = n_version (r_nodes r ! y)"
    if "y < ?k" for y
    using that by (simp_all add: nth_append)
  have new: "n_ptr (?n2 ! ?k) = p" "n_version (?n2 ! ?k) = 1" by simp_all
  have t: "table_ok ?r (insert ?k (live r))"
    using add(2) rep_invD(8,9) [OF inv] at new free
    by (auto simp: table_ok_def less_Suc_eq)
  have "graph_ok (r_nodes ?r)" using gpart_graph(1) [OF gp] app(1) by simp
  then have inv': "rep_inv ?r" and L: "live ?r = insert ?k (live r)"
    using rep_invI [OF _ t] rep_invD(7) [OF inv] e by blast+
  have "get_id t p r = Some (?r, node_id ?r ?k)"
    using f free add(1) ik by (simp add: get_id_def node_id_def Let_def)
  moreover have "got_id r p ?r (node_id ?r ?k)"
  proof -
    have kl: "?k \<notin> live r" using live_less by blast
    have ptr': "n_ptr (r_nodes ?r ! ?k) = p" using new by simp
    have old: "n_ptr (r_nodes ?r ! y) = n_ptr (r_nodes r ! y) \<and>
        n_version (r_nodes ?r ! y) = n_version (r_nodes r ! y)" if "y \<in> live r" for y
      using at [OF live_less [OF that]] by simp
    have kr: "?k < length (r_nodes ?r)" by simp
    have "issued r \<subseteq> issued ?r" by (auto simp: issued_def)
    then show ?thesis
      unfolding got_id_def
      using vertex_added [OF inv inv' L kl p ptr' old e] inv' p
        node_id_nonzero [OF inv' kr] issued_node_id [OF inv' kr] by simp
  qed
  ultimately show ?thesis by blast
qed

lemma get_id_reuse:
  assumes inv: "rep_inv r" and p: "p \<notin> vertices r" and free: "r_free r \<noteq> []"
  shows "\<exists>r' g. get_id t p r = Some (r', g) \<and> got_id r p r' g"
proof -
  define k where "k = nat (last (r_free r))"
  have kf: "last (r_free r) \<in> set (r_free r)" using free by simp
  have ft: "distinct (r_free r)" "set (r_free r) \<subseteq> indices (r_nodes r)" "nat ` set (r_free r) \<inter> live r = {}"
    using rep_invD(3) [OF inv] by (simp_all add: table_ok_def)
  have kk: "last (r_free r) = int k" "k < length (r_nodes r)" "k \<notin> live r"
  proof -
    have i: "last (r_free r) \<in> indices (r_nodes r)" using kf ft(2) by blast
    then show "last (r_free r) = int k" "k < length (r_nodes r)"
      by (simp_all add: k_def indices_iff)
    show "k \<notin> live r" using kf ft(3) by (auto simp: k_def)
  qed
  have k31: "length (r_nodes r) < 2 ^ 31" by (rule rep_invD(5) [OF inv])
  have ik: "idx (int k) = k" using kk(2) k31 by (simp add: idx_of_nat)
  let ?f = "\<lambda>n. n\<lparr>n_ptr := p, n_callstack := [], n_priority := 0, n_thread := 0, n_hold_count := 0\<rparr>"
  let ?n1 = "(r_nodes r)[k := ?f (r_nodes r ! k)]"
  have ptr_old: "\<forall>y\<in>live r. n_ptr (r_nodes r ! y) \<noteq> p" using p by (auto simp: vertices_def)
  have f: "pm_find (r_nodes r) (r_heads r) p = Some (-1)"
    by (rule pm_find_spec(2) [OF rep_invD(4,5) [OF inv] ptr_old])
  have same: "?n1 ! y = r_nodes r ! y" if "k \<noteq> y" for y using that by simp
  have nk: "k \<noteq> y" if "y \<in> live r" for y using that kk(3) by auto
  have pm1: "pm_inv ?n1 (r_heads r) (live r)"
    using nk by (intro pm_inv_cong [OF rep_invD(4) [OF inv]]) simp_all
  have l1: "length ?n1 < 2 ^ 31" "k < length ?n1" "n_ptr (?n1 ! k) = p" using k31 kk(2) by simp_all
  have old1: "\<forall>y\<in>live r. n_ptr (?n1 ! y) \<noteq> p"
  proof
    fix y assume y: "y \<in> live r"
    have "?n1 ! y = r_nodes r ! y" by (rule same [OF nk [OF y]])
    then show "n_ptr (?n1 ! y) \<noteq> p" using ptr_old y by simp
  qed
  let ?n2 = "?n1[k := (?n1 ! k)\<lparr>n_next := r_heads r (ptr_hash p)\<rparr>]"
  obtain ht where add: "pm_add p (int k) ?n1 (r_heads r) = Some (?n2, ht)" "pm_inv ?n2 ht (insert k (live r))"
    using pm_add_spec [OF pm1 l1(1,2) kk(3) l1(3) old1] by blast
  let ?r = "r\<lparr>r_free := butlast (r_free r), r_nodes := ?n2, r_heads := ht\<rparr>"
  have gp: "map gpart ?n2 = map gpart (r_nodes r)"
    using map_nth_update [of gpart "?f (r_nodes r ! k)" "r_nodes r" k]
      map_nth_update [of gpart "(?n1 ! k)\<lparr>n_next := r_heads r (ptr_hash p)\<rparr>" ?n1 k]
    by (simp add: gpart_def)
  have g: "graph_ok (r_nodes ?r)" and e: "edges (r_nodes ?r) = edges (r_nodes r)"
    using gpart_graph [OF gp] rep_invD(1) [OF inv] by simp_all
  have at: "n_ptr (?n2 ! y) = n_ptr (r_nodes r ! y)" "n_version (?n2 ! y) = n_version (r_nodes r ! y)"
    if "k \<noteq> y" for y
    using that by simp_all
  have new: "n_ptr (?n2 ! k) = p" "n_version (?n2 ! k) = n_version (r_nodes r ! k)" using kk(2) by simp_all
  have "distinct (butlast (r_free r) @ [int k])" using ft(1) append_butlast_last_id [OF free] kk(1) by simp
  then have nb: "int k \<notin> set (butlast (r_free r))" by simp
  have sub: "u \<in> indices (r_nodes r) \<and> nat u \<notin> live r" if "u \<in> set (butlast (r_free r))" for u
    using in_set_butlastD [OF that] ft(2,3) by blast
  have "nat u \<noteq> k" if "u \<in> set (butlast (r_free r))" for u
    using sub [OF that] nb that by (auto simp: indices_iff)
  then have fl: "nat ` set (butlast (r_free r)) \<inter> insert k (live r) = {}"
    "set (butlast (r_free r)) \<subseteq> indices (r_nodes r)"
    using sub by blast+
  have ptrs: "n_ptr (?n2 ! x) = 0" if "x < length (r_nodes r)" "x \<notin> insert k (live r)" for x
    using at(1) [of x] rep_invD(8) [OF inv that(1)] that(2) by (metis insertCI)
  have vers: "n_version (?n2 ! x) \<noteq> 0" if "x < length (r_nodes r)" for x
    using at(2) [of x] new(2) rep_invD(9) [OF inv that] by (cases "k = x") metis+
  have ix2: "indices ?n2 = indices (r_nodes r)" "length ?n2 = length (r_nodes r)"
    by (simp_all add: indices_def)
  have "table_ok ?r (insert k (live r))"
  proof (rule table_okI [where nodes = ?n2 and ht = ht and free = "butlast (r_free r)"])
    show "n_ptr (?n2 ! x) = 0" if "x < length ?n2" "x \<notin> insert k (live r)" for x
      using ptrs that unfolding ix2(2) by blast
    show "n_version (?n2 ! x) \<noteq> 0" if "x < length ?n2" for x
      using vers that unfolding ix2(2) by blast
    show "set (butlast (r_free r)) \<subseteq> indices ?n2" unfolding ix2(1) by (rule fl(2))
  qed (fact add(2) fl(1) distinct_butlast [OF ft(1)] | simp)+
  then have inv': "rep_inv ?r" and L: "live ?r = insert k (live r)"
    using rep_invI [OF g] rep_invD(7) [OF inv] e by blast+
  have "get_id t p r = Some (?r, node_id ?r k)"
    using f free add(1) ik kk(1,2) by (simp add: get_id_def modify_def node_id_def Let_def)
  moreover have "got_id r p ?r (node_id ?r k)"
  proof -
    have ptr': "n_ptr (r_nodes ?r ! k) = p" using new by simp
    have old: "n_ptr (r_nodes ?r ! y) = n_ptr (r_nodes r ! y) \<and>
        n_version (r_nodes ?r ! y) = n_version (r_nodes r ! y)" if "y \<in> live r" for y
      using at [OF nk [OF that]] by simp
    have kr: "k < length (r_nodes ?r)" using kk(2) by simp
    have "issued r \<subseteq> issued ?r" by (auto simp: issued_def)
    then show ?thesis
      unfolding got_id_def
      using vertex_added [OF inv inv' L kk(3) p ptr' old e] inv' p
        node_id_nonzero [OF inv' kr] issued_node_id [OF inv' kr] by simp
  qed
  ultimately show ?thesis by blast
qed

lemma get_id_correct:
  assumes "rep_inv r" "int (length (r_nodes r)) < node_limit"
  shows "\<exists>r' g. get_id t p r = Some (r', g) \<and> got_id r p r' g"
  using get_id_old [OF assms(1)] get_id_new [OF assms(1) _ _ assms(2)] get_id_reuse [OF assms(1)] by blast

section \<open>RemoveNode\<close>

lemma nodes_ok_update:
  assumes ok: "nodes_ok nodes" and s: "ns_inv (n_in n)" "ns_inv (n_out n)"
    "ns_set (n_in n) \<subseteq> indices nodes" "ns_set (n_out n) \<subseteq> indices nodes"
  shows "nodes_ok (nodes[k := n])"
proof -
  have "m = n \<or> m \<in> set nodes" if "m \<in> set (nodes[k := n])" for m
    using that set_update_subset_insert [of nodes k n] by blast
  then show ?thesis
    using ok s unfolding nodes_ok_def indices_def length_list_update by blast
qed

text \<open>The loops of \<^verbatim>\<open>RemoveNode\<close> take \<open>i\<close> out of the sets of the listed nodes.\<close>

definition erased_in :: "int \<Rightarrow> int set \<Rightarrow> node list \<Rightarrow> node list \<Rightarrow> bool" where
  "erased_in i Y nodes nodes' \<longleftrightarrow> nodes_ok nodes' \<and> map core nodes' = map core nodes \<and>
     visited_set nodes' = visited_set nodes \<and>
     (\<forall>u\<in>indices nodes. rank_at nodes' u = rank_at nodes u \<and> succ_list nodes' u = succ_list nodes u \<and>
        set (pred_list nodes' u) = set (pred_list nodes u) - (if u \<in> Y then {i} else {}))"

definition erased_out :: "int \<Rightarrow> int set \<Rightarrow> node list \<Rightarrow> node list \<Rightarrow> bool" where
  "erased_out i Y nodes nodes' \<longleftrightarrow> nodes_ok nodes' \<and> map core nodes' = map core nodes \<and>
     visited_set nodes' = visited_set nodes \<and>
     (\<forall>u\<in>indices nodes. rank_at nodes' u = rank_at nodes u \<and> pred_list nodes' u = pred_list nodes u \<and>
        set (succ_list nodes' u) = set (succ_list nodes u) - (if u \<in> Y then {i} else {}))"

lemma erase_in_spec:
  assumes "nodes_ok nodes" "set ys \<subseteq> indices nodes" "0 \<le> i"
  shows "\<exists>nodes'. erase_in i ys nodes = Some nodes' \<and> erased_in i (set ys) nodes nodes'"
  using assms
proof (induction ys arbitrary: nodes)
  case Nil
  then show ?case by (simp add: erased_in_def)
next
  case (Cons y ys)
  have y: "idx y = nat y" "nat y < length nodes" "0 \<le> y"
    using nodes_ok_idx [OF Cons.prems(1), of y] Cons.prems(2) by (auto simp: indices_iff)
  let ?n = "nodes ! nat y"
  note so = nodes_ok_sets [OF Cons.prems(1) y(2)]
  obtain s where s: "node_set_erase i (n_in ?n) = Some s" "ns_inv s" "ns_set s = ns_set (n_in ?n) - {i}"
    using node_set_erase_spec [OF so(2) Cons.prems(3)] by blast
  let ?m = "nodes[nat y := ?n\<lparr>n_in := s\<rparr>]"
  have ix: "indices ?m = indices nodes" by (simp add: indices_def)
  have m: "nodes_ok ?m" by (rule nodes_ok_update [OF Cons.prems(1)]) (use s so in auto)
  obtain nodes' where n': "erase_in i ys ?m = Some nodes'" "erased_in i (set ys) ?m nodes'"
    using Cons.IH [OF m _ Cons.prems(3)] Cons.prems(2) ix by auto
  have c: "map core ?m = map core nodes" by (rule map_nth_update) simp
  have vis: "visited_set ?m = visited_set nodes"
    by (auto simp: visited_set_def indices_def nth_upd)
  have at: "rank_at ?m u = rank_at nodes u" "succ_list ?m u = succ_list nodes u"
    "set (pred_list ?m u) = set (pred_list nodes u) - (if u = y then {i} else {})" if "u \<in> indices nodes" for u
    using that y s(3)
    by (auto simp: rank_at_def succ_list_def pred_list_def nth_upd indices_iff eq_nat_nat_iff)
  have "erased_in i (set (y # ys)) nodes nodes'"
    using n'(2) c vis at unfolding erased_in_def ix by auto
  then show ?case using y s(1) n'(1) by simp
qed

lemma erase_out_spec:
  assumes "nodes_ok nodes" "set ys \<subseteq> indices nodes" "0 \<le> i"
  shows "\<exists>nodes'. erase_out i ys nodes = Some nodes' \<and> erased_out i (set ys) nodes nodes'"
  using assms
proof (induction ys arbitrary: nodes)
  case Nil
  then show ?case by (simp add: erased_out_def)
next
  case (Cons y ys)
  have y: "idx y = nat y" "nat y < length nodes" "0 \<le> y"
    using nodes_ok_idx [OF Cons.prems(1), of y] Cons.prems(2) by (auto simp: indices_iff)
  let ?n = "nodes ! nat y"
  note so = nodes_ok_sets [OF Cons.prems(1) y(2)]
  obtain s where s: "node_set_erase i (n_out ?n) = Some s" "ns_inv s" "ns_set s = ns_set (n_out ?n) - {i}"
    using node_set_erase_spec [OF so(1) Cons.prems(3)] by blast
  let ?m = "nodes[nat y := ?n\<lparr>n_out := s\<rparr>]"
  have ix: "indices ?m = indices nodes" by (simp add: indices_def)
  have m: "nodes_ok ?m" by (rule nodes_ok_update [OF Cons.prems(1)]) (use s so in auto)
  obtain nodes' where n': "erase_out i ys ?m = Some nodes'" "erased_out i (set ys) ?m nodes'"
    using Cons.IH [OF m _ Cons.prems(3)] Cons.prems(2) ix by auto
  have c: "map core ?m = map core nodes" by (rule map_nth_update) simp
  have vis: "visited_set ?m = visited_set nodes"
    by (auto simp: visited_set_def indices_def nth_upd)
  have at: "rank_at ?m u = rank_at nodes u" "pred_list ?m u = pred_list nodes u"
    "set (succ_list ?m u) = set (succ_list nodes u) - (if u = y then {i} else {})" if "u \<in> indices nodes" for u
    using that y s(3)
    by (auto simp: rank_at_def succ_list_def pred_list_def nth_upd indices_iff eq_nat_nat_iff)
  have "erased_out i (set (y # ys)) nodes nodes'"
    using n'(2) c vis at unfolding erased_out_def ix by auto
  then show ?case using y s(1) n'(1) by simp
qed

text \<open>Isolating node \<open>x\<close>: after both loops and the two \<^verbatim>\<open>clear()\<close>s the graph has lost its edges.\<close>

lemma isolate_graph:
  assumes ok: "graph_ok nodes" and x: "x < length nodes"
    and n1: "erased_in (int x) (set (succ_list nodes (int x))) nodes nodes1"
    and n2: "erased_out (int x) (set (pred_list nodes1 (int x))) nodes1 nodes2"
    and m: "n_rank m = n_rank (nodes2 ! x)" "n_visited m = n_visited (nodes2 ! x)"
      "n_in m = node_set_empty" "n_out m = node_set_empty"
  shows "graph_ok (nodes2[x := m])"
    and "edges (nodes2[x := m]) = {(u, v). (u, v) \<in> edges nodes \<and> u \<noteq> int x \<and> v \<noteq> int x}"
    and "map core nodes2 = map core nodes"
proof -
  let ?n = "nodes2[x := m]" and ?x = "int x"
  have g: "nodes_ok nodes" "mirrored nodes" "ranks_ok nodes" "increasing nodes" "visited_set nodes = {}"
    using ok by (simp_all add: graph_ok_def)
  show c: "map core nodes2 = map core nodes" using n1 n2 by (simp add: erased_in_def erased_out_def)
  have len: "length nodes1 = length nodes" "length nodes2 = length nodes"
    using n1 by (simp_all add: core_length [OF c] core_length [of nodes1 nodes] erased_in_def)
  have ix: "indices nodes1 = indices nodes" "indices nodes2 = indices nodes" "indices ?n = indices nodes"
    by (simp_all add: indices_def len)
  have xi: "?x \<in> indices nodes" using x by (simp add: indices_def)
  have nox: "(?x, ?x) \<notin> edges nodes" using increasing_acyclic [OF g(4)] by (auto simp: acyclic_def)
  have p1: "set (pred_list nodes1 u) = set (pred_list nodes u) - (if (?x, u) \<in> edges nodes then {?x} else {})"
    "succ_list nodes1 u = succ_list nodes u" "rank_at nodes1 u = rank_at nodes u" if "u \<in> indices nodes" for u
    using n1 that xi by (simp_all add: erased_in_def edges_succ)
  have px: "u \<in> set (pred_list nodes1 ?x) \<longleftrightarrow> (u, ?x) \<in> edges nodes" for u
    using p1(1) [OF xi] nox edges_pred [OF g(1,2) xi] by simp
  have p2: "set (succ_list nodes2 u) = set (succ_list nodes u) - (if (u, ?x) \<in> edges nodes then {?x} else {})"
    "set (pred_list nodes2 u) = set (pred_list nodes u) - (if (?x, u) \<in> edges nodes then {?x} else {})"
    "rank_at nodes2 u = rank_at nodes u" if "u \<in> indices nodes" for u
    using n2 p1 [OF that] that px by (simp_all add: erased_out_def ix)
  have upd: "set (succ_list ?n u) = (if u = ?x then {} else set (succ_list nodes2 u))"
    "set (pred_list ?n u) = (if u = ?x then {} else set (pred_list nodes2 u))"
    "rank_at ?n u = rank_at nodes2 u" if "u \<in> indices nodes" for u
    using that x len m node_set_empty_spec(2)
    by (auto simp: succ_list_def pred_list_def rank_at_def nth_upd indices_iff)
  have succ: "v \<in> set (succ_list ?n u) \<longleftrightarrow> (u, v) \<in> edges nodes \<and> u \<noteq> ?x \<and> v \<noteq> ?x" if "u \<in> indices nodes" for u v
    using upd(1) [OF that] p2(1) [OF that] that by (auto simp: edges_succ split: if_splits)
  have pred: "u \<in> set (pred_list ?n v) \<longleftrightarrow> (u, v) \<in> edges nodes \<and> u \<noteq> ?x \<and> v \<noteq> ?x" if "v \<in> indices nodes" for u v
    using upd(2) [OF that] p2(2) [OF that] that by (auto simp: edges_pred [OF g(1,2)] split: if_splits)
  show e: "edges ?n = {(u, v). (u, v) \<in> edges nodes \<and> u \<noteq> ?x \<and> v \<noteq> ?x}"
    unfolding edges_def [of ?n] ix(3) using succ edges_indices(1) [OF g(1)] by blast
  have rk: "rank_at ?n u = rank_at nodes u" if "u \<in> indices nodes" for u
    using upd(3) [OF that] p2(3) [OF that] by simp
  have "nodes_ok ?n"
  proof (rule nodes_ok_update)
    show "nodes_ok nodes2" using n2 unfolding erased_out_def by blast
  qed (simp_all add: m(3,4) node_set_empty_spec)
  moreover have "mirrored ?n" using succ pred by (simp add: mirrored_def ix)
  moreover have "ranks_ok ?n" by (rule ranks_ok_cong [OF g(3) ix(3) rk])
  moreover have "increasing ?n"
    unfolding increasing_def e using g(4) rk edges_indices [OF g(1)] by (fastforce simp: increasing_def)
  moreover have "visited_set ?n = {}"
  proof -
    have v2: "visited_set nodes2 = {}" using n1 n2 g(5) by (simp add: erased_in_def erased_out_def)
    have "visited_set ?n \<subseteq> visited_set nodes2"
      using m(2) by (auto simp: visited_set_def indices_def nth_upd split: if_splits)
    then show ?thesis using v2 by simp
  qed
  ultimately show "graph_ok ?n" by (simp add: graph_ok_def)
qed

lemma id_of_inj:
  assumes "rep_inv r" "id_of r p = Some g" "id_of r q = Some g"
  shows "p = q"
proof -
  obtain x where x: "n_ptr (r_nodes r ! x) = p" "node_index g = int x" by (rule id_of_node [OF assms(1,2)])
  obtain y where y: "n_ptr (r_nodes r ! y) = q" "node_index g = int y" by (rule id_of_node [OF assms(1,3)])
  show ?thesis using x y by simp
qed

lemma remove_node_absent:
  assumes inv: "rep_inv r" and p: "p \<notin> vertices r"
  shows "remove_node p r = Some r"
proof -
  have "\<forall>x\<in>live r. n_ptr (r_nodes r ! x) \<noteq> p" using p by (auto simp: vertices_def)
  then show ?thesis
    using pm_remove_absent [OF rep_invD(4,5) [OF inv]] by (simp add: remove_node_def)
qed

lemma vertex_removed:
  assumes inv: "rep_inv r" "rep_inv r'" and L: "live r' = live r - {x}" "x \<in> live r"
    and p: "n_ptr (r_nodes r ! x) = p"
    and old: "\<And>y. y \<in> live r \<Longrightarrow> y \<noteq> x \<Longrightarrow> n_ptr (r_nodes r' ! y) = n_ptr (r_nodes r ! y) \<and>
      n_version (r_nodes r' ! y) = n_version (r_nodes r ! y)"
    and e: "edges (r_nodes r') = {(u, v). (u, v) \<in> edges (r_nodes r) \<and> u \<noteq> int x \<and> v \<noteq> int x}"
  shows "id_of r' = (id_of r)(p := None)" "vertices r' = vertices r - {p}"
    "arcs r' = {(a, b). (a, b) \<in> arcs r \<and> a \<noteq> p \<and> b \<noteq> p}"
proof -
  have other: "n_ptr (r_nodes r ! y) \<noteq> p" if "y \<in> live r" "y \<noteq> x" for y
    using live_ptr_inj [OF inv(1) that(1) L(2)] p that(2) by auto
  show v: "vertices r' = vertices r - {p}"
    unfolding vertices_def L(1) using old other p by force
  show "id_of r' = (id_of r)(p := None)"
  proof
    fix q
    show "id_of r' q = ((id_of r)(p := None)) q"
    proof (cases "q \<in> vertices r'")
      case True
      then obtain y where y: "y \<in> live r" "y \<noteq> x" "n_ptr (r_nodes r' ! y) = q"
        by (auto simp: vertices_def L(1))
      have "id_of r' q = Some (node_id r' y)" using id_of_live [OF inv(2)] y L(1) by simp
      moreover have "id_of r q = Some (node_id r y)" using id_of_live [OF inv(1) y(1)] old y by simp
      moreover have "node_id r' y = node_id r y" using old y by (simp add: node_id_def)
      ultimately show ?thesis using True v by simp
    next
      case False
      then have "q = p \<or> q \<notin> vertices r" unfolding v by blast
      then show ?thesis
      proof
        assume "q = p"
        then show ?thesis using id_of_None [OF inv(2) False] by simp
      next
        assume "q \<notin> vertices r"
        then have "id_of r q = None" by (rule id_of_None [OF inv(1)])
        then show ?thesis by (simp add: id_of_None [OF inv(2) False])
      qed
    qed
  qed
  show "arcs r' = {(a, b). (a, b) \<in> arcs r \<and> a \<noteq> p \<and> b \<noteq> p}"
  proof (intro set_eqI iffI)
    fix a assume "a \<in> arcs r'"
    then obtain u v where uv: "(u, v) \<in> edges (r_nodes r)" "u \<noteq> int x" "v \<noteq> int x"
      "a = (n_ptr (r_nodes r' ! nat u), n_ptr (r_nodes r' ! nat v))"
      by (auto simp: arcs_def e)
    have l: "nat u \<in> live r" "nat v \<in> live r" using rep_invD(7) [OF inv(1) uv(1)] by auto
    have "0 \<le> u" "0 \<le> v"
      using edges_indices [OF rep_invD(2) [OF inv(1)] uv(1)] by (simp_all add: indices_iff)
    then have n: "nat u \<noteq> x" "nat v \<noteq> x" using uv(2,3) by auto
    have "a = (n_ptr (r_nodes r ! nat u), n_ptr (r_nodes r ! nat v))" using uv(4) old l n by simp
    then show "a \<in> {(a, b). (a, b) \<in> arcs r \<and> a \<noteq> p \<and> b \<noteq> p}"
      using uv(1) other [OF l(1) n(1)] other [OF l(2) n(2)] unfolding arcs_def by force
  next
    fix a assume "a \<in> {(a, b). (a, b) \<in> arcs r \<and> a \<noteq> p \<and> b \<noteq> p}"
    then obtain u v where uv: "(u, v) \<in> edges (r_nodes r)"
      "a = (n_ptr (r_nodes r ! nat u), n_ptr (r_nodes r ! nat v))"
      "n_ptr (r_nodes r ! nat u) \<noteq> p" "n_ptr (r_nodes r ! nat v) \<noteq> p"
      by (auto simp: arcs_def)
    have l: "nat u \<in> live r" "nat v \<in> live r" using rep_invD(7) [OF inv(1) uv(1)] by auto
    have n: "nat u \<noteq> x" "nat v \<noteq> x" using uv(3,4) p by auto
    then have "(u, v) \<in> edges (r_nodes r')" using uv(1) by (auto simp: e)
    moreover have "a = (n_ptr (r_nodes r' ! nat u), n_ptr (r_nodes r' ! nat v))" using uv(2) old l n by simp
    ultimately show "a \<in> arcs r'" by (auto simp: arcs_def)
  qed
qed

text \<open>What \<^verbatim>\<open>RemoveNode\<close> promises.\<close>

definition removed :: "rep \<Rightarrow> ptr \<Rightarrow> rep \<Rightarrow> bool" where
  "removed r p r' \<longleftrightarrow> rep_inv r' \<and> id_of r' = (id_of r)(p := None) \<and>
     vertices r' = vertices r - {p} \<and> arcs r' = {(a, b). (a, b) \<in> arcs r \<and> a \<noteq> p \<and> b \<noteq> p} \<and>
     issued r' = issued r \<and> length (r_nodes r') = length (r_nodes r)"

lemma arcs_vertices: "rep_inv r \<Longrightarrow> (p, q) \<in> arcs r \<Longrightarrow> p \<in> vertices r \<and> q \<in> vertices r"
  using rep_invD(7) by (fastforce simp: arcs_def vertices_def)

lemma remove_node_live:
  assumes inv: "rep_inv r" and x: "x \<in> live r" "n_ptr (r_nodes r ! x) = p"
  shows "\<exists>r'. remove_node p r = Some r' \<and> removed r p r' \<and>
    (n_version (r_nodes r ! x) \<noteq> -1 \<longrightarrow> n_version (r_nodes r' ! x) = n_version (r_nodes r ! x) + 1)"
proof -
  have xl: "x < length (r_nodes r)" by (rule live_less [OF x(1)])
  have k31: "length (r_nodes r) < 2 ^ 31" by (rule rep_invD(5) [OF inv])
  have ix: "idx (int x) = x" using xl k31 by (simp add: idx_of_nat)
  obtain n0 ht where rm: "pm_remove p (r_nodes r) (r_heads r) = Some (n0, ht, int x)"
    "map forget_next n0 = map forget_next (r_nodes r)" "pm_inv n0 ht (live r - {x})"
    using pm_remove_spec [OF rep_invD(4,5) [OF inv] x] by blast
  have l0: "length n0 = length (r_nodes r)" using rm(2) by (metis length_map)
  have at0: "gpart (n0 ! k) = gpart (r_nodes r ! k)" "n_ptr (n0 ! k) = n_ptr (r_nodes r ! k)"
    "n_version (n0 ! k) = n_version (r_nodes r ! k)" if "k < length (r_nodes r)" for k
  proof -
    have e: "forget_next (n0 ! k) = forget_next (r_nodes r ! k)" using rm(2) l0 that by (metis nth_map)
    show "n_ptr (n0 ! k) = n_ptr (r_nodes r ! k)" "n_version (n0 ! k) = n_version (r_nodes r ! k)"
      "gpart (n0 ! k) = gpart (r_nodes r ! k)"
      using arg_cong [OF e, of n_ptr] arg_cong [OF e, of n_version] arg_cong [OF e, of gpart]
      by (simp_all add: forget_next_def gpart_def)
  qed
  have gp: "map gpart n0 = map gpart (r_nodes r)"
    by (rule nth_equalityI) (simp_all add: l0 at0)
  note gg = gpart_graph [OF gp]
  have g0: "graph_ok n0" using gg(1) rep_invD(1) [OF inv] by simp
  then have ok0: "nodes_ok n0" by (simp add: graph_ok_def)
  have x0: "x < length n0" using xl l0 by simp
  let ?S = "ns_elems (n_out (n0 ! x))"
  have S: "set ?S \<subseteq> indices n0" using nodes_ok_sets(3) [OF ok0, of "int x"] x0 by simp
  obtain n1 where n1: "erase_in (int x) ?S n0 = Some n1" "erased_in (int x) (set ?S) n0 n1"
    using erase_in_spec [OF ok0 S, of "int x"] by auto
  have ok1: "nodes_ok n1" "length n1 = length n0"
    using n1(2) core_length [of n1 n0] by (simp_all add: erased_in_def)
  let ?P = "ns_elems (n_in (n1 ! x))"
  have P: "set ?P \<subseteq> indices n1" using nodes_ok_sets(4) [OF ok1(1), of "int x"] x0 ok1(2) by simp
  obtain n2 where n2: "erase_out (int x) ?P n1 = Some n2" "erased_out (int x) (set ?P) n1 n2"
    using erase_out_spec [OF ok1(1) P, of "int x"] by auto
  let ?m = "(n2 ! x)\<lparr>n_in := node_set_empty, n_out := node_set_empty, n_ptr := 0\<rparr>"
  let ?v = "n_version (r_nodes r ! x)"
  let ?m' = "if ?v = -1 then ?m else ?m\<lparr>n_version := ?v + 1\<rparr>"
  let ?n3 = "n2[x := ?m']"
  let ?r = "r\<lparr>r_nodes := ?n3, r_heads := ht, r_free := (if ?v = -1 then r_free r else r_free r @ [int x])\<rparr>"
  have iso: "graph_ok ?n3" "edges ?n3 = {(u, v). (u, v) \<in> edges n0 \<and> u \<noteq> int x \<and> v \<noteq> int x}"
    "map core n2 = map core n0"
    by (rule isolate_graph [OF g0 x0, of n1 n2 ?m'];
        use n1(2) n2(2) in \<open>simp add: succ_list_def pred_list_def\<close>)+
  have l2: "length n2 = length (r_nodes r)" using core_length [OF iso(3)] l0 by simp
  have at2: "n_ptr (n2 ! k) = n_ptr (r_nodes r ! k)" "n_version (n2 ! k) = n_version (r_nodes r ! k)"
    "n_next (n2 ! k) = n_next (n0 ! k)" if "k < length (r_nodes r)" for k
    using core_eqD [OF iso(3), of k] at0(2,3) [OF that] that l0 by simp_all
  have e: "edges (r_nodes ?r) = {(u, v). (u, v) \<in> edges (r_nodes r) \<and> u \<noteq> int x \<and> v \<noteq> int x}"
    using iso(2) gg(2) by simp
  have res: "remove_node p r = Some ?r"
    using rm(1) n1(1) n2(1) ix x0 ok1(2) l2 l0 at2(2) [OF xl]
    by (simp add: remove_node_def Let_def)
  have t: "table_ok ?r (live r - {x})"
  proof (rule table_okI [where nodes = ?n3 and ht = ht])
    show "pm_inv ?n3 ht (live r - {x})"
      by (rule pm_inv_cong [OF rm(3)]) (use l2 l0 at2 at0(2) live_less in \<open>auto simp: nth_upd\<close>)
    have "int x \<notin> set (r_free r)" using rep_invD(3) [OF inv] x(1) by (force simp: table_ok_def)
    then show "distinct (r_free ?r)" using rep_invD(3) [OF inv] by (simp add: table_ok_def)
    show "set (r_free ?r) \<subseteq> indices ?n3"
      using rep_invD(3) [OF inv] l2 xl by (auto simp: table_ok_def indices_def)
    show "nat ` set (r_free ?r) \<inter> (live r - {x}) = {}"
      using rep_invD(3) [OF inv] by (auto simp: table_ok_def)
    show "n_ptr (?n3 ! k) = 0" if "k < length ?n3" "k \<notin> live r - {x}" for k
      using that rep_invD(8) [OF inv, of k] at2(1) l2 by (auto simp: nth_upd)
    have "?v + 1 \<noteq> 0" if "?v \<noteq> -1" using that by (metis add.inverse_inverse add_eq_0_iff2 minus_minus)
    then show "n_version (?n3 ! k) \<noteq> 0" if "k < length ?n3" for k
      using that rep_invD(9) [OF inv, of k] at2(2) l2 by (auto simp: nth_upd)
  qed simp_all
  have ends: "nat u \<in> live r - {x} \<and> nat v \<in> live r - {x}" if "(u, v) \<in> edges (r_nodes ?r)" for u v
  proof -
    from that have uv: "(u, v) \<in> edges (r_nodes r)" "u \<noteq> int x" "v \<noteq> int x" unfolding e by auto
    have "0 \<le> u" "0 \<le> v"
      using edges_indices [OF rep_invD(2) [OF inv] uv(1)] by (simp_all add: indices_iff)
    then show ?thesis using uv(2,3) rep_invD(7) [OF inv uv(1)] by auto
  qed
  have gr: "graph_ok (r_nodes ?r)" using iso(1) by simp
  have "rep_inv ?r" by (rule rep_invI(1) [OF gr t]) (rule ends)
  moreover have L: "live ?r = live r - {x}" by (rule rep_invI(2) [OF gr t]) (rule ends)
  moreover have old: "n_ptr (r_nodes ?r ! y) = n_ptr (r_nodes r ! y) \<and>
      n_version (r_nodes ?r ! y) = n_version (r_nodes r ! y)" if "y \<in> live r" "y \<noteq> x" for y
    using at2(1,2) [OF live_less [OF that(1)]] that(2) by (simp add: nth_upd)
  ultimately have "removed r p ?r"
    using vertex_removed [OF inv _ L x(1,2) old e] l2 by (simp add: removed_def issued_def)
  moreover have "?v \<noteq> -1 \<longrightarrow> n_version (r_nodes ?r ! x) = ?v + 1" using xl l2 by simp
  ultimately show ?thesis using res by blast
qed

lemma remove_node_correct:
  assumes inv: "rep_inv r"
  shows "\<exists>r'. remove_node p r = Some r' \<and> removed r p r' \<and> length (r_nodes r') = length (r_nodes r)"
proof (cases "p \<in> vertices r")
  case True
  then obtain x where "x \<in> live r" "n_ptr (r_nodes r ! x) = p" by (auto simp: vertices_def)
  then show ?thesis using remove_node_live [OF inv] unfolding removed_def by blast
next
  case False
  have "(a, b) \<in> arcs r \<Longrightarrow> a \<noteq> p \<and> b \<noteq> p" for a b using arcs_vertices [OF inv] False by blast
  then have "arcs r = {(a, b). (a, b) \<in> arcs r \<and> a \<noteq> p \<and> b \<noteq> p}" by auto
  moreover have "id_of r = (id_of r)(p := None)"
    using id_of_None [OF inv False] by (simp add: fun_upd_idem)
  ultimately show ?thesis
    using remove_node_absent [OF inv False] inv False by (auto simp: removed_def)
qed

end
