(* ===== verification/Graph_Paths.thy ===== *)
theory Graph_Paths
  imports Graph_Correct
begin

text \<open>
  \<^verbatim>\<open>FindPath\<close> and \<^verbatim>\<open>IsReachable\<close>: the search returns, finds a path exactly when there is one, and
  the array holds its nodes. \<open>CheckInvariants\<close> and the stack trace operations follow.
\<close>

section \<open>The stack of FindPath\<close>

text \<open>
  \<open>trail\<close>: the nodes of the tentative path, last one first, against the stack. Every node of the
  path has its marker \<open>-1\<close>, and above the marker are successors of that node.
\<close>

fun trail :: "(int \<times> int) set \<Rightarrow> int \<Rightarrow> int list \<Rightarrow> int list \<Rightarrow> bool" where
  "trail E x [] st = (set st \<subseteq> {x})"
| "trail E x (n # q) st =
     ((\<exists>st' ws. st = st' @ -1 # ws \<and> (\<forall>w\<in>set ws. (n, w) \<in> E \<and> 0 \<le> w) \<and> trail E x q st') \<and>
      (case q of [] \<Rightarrow> n = x | m # _ \<Rightarrow> (m, n) \<in> E))"

lemma trail_marker:
  assumes "trail E x q (st @ [n])" "n < 0" "0 \<le> x"
  obtains m q' where "q = m # q'" "trail E x q' st"
proof (cases q)
  case Nil
  then show ?thesis using assms by simp
next
  case (Cons m q')
  then obtain st' ws where st: "st @ [n] = st' @ -1 # ws" "\<forall>w\<in>set ws. 0 \<le> w" "trail E x q' st'"
    using assms(1) by auto
  then have "ws = []" using assms(2) by (cases ws rule: rev_cases) auto
  then show ?thesis using that Cons st by auto
qed

lemma trail_node:
  assumes "trail E x q (st @ [n])" "0 \<le> n"
  shows "trail E x q st" "case q of [] \<Rightarrow> n = x | m # _ \<Rightarrow> (m, n) \<in> E"
proof -
  have "trail E x q st \<and> (case q of [] \<Rightarrow> n = x | m # _ \<Rightarrow> (m, n) \<in> E)"
  proof (cases q)
    case Nil
    then show ?thesis using assms by simp
  next
    case (Cons m q')
    then obtain st' ws where st: "st @ [n] = st' @ -1 # ws" "\<forall>w\<in>set ws. (m, w) \<in> E \<and> 0 \<le> w"
      "trail E x q' st'" "case q' of [] \<Rightarrow> m = x | k # _ \<Rightarrow> (k, m) \<in> E"
      using assms(1) by auto
    then obtain ws' where "ws = ws' @ [n]" "st = st' @ -1 # ws'"
      using assms(2) by (cases ws rule: rev_cases) auto
    then show ?thesis using Cons st by auto
  qed
  then show "trail E x q st" "case q of [] \<Rightarrow> n = x | m # _ \<Rightarrow> (m, n) \<in> E" by auto
qed

lemma trail_push:
  assumes "trail E x q st" "case q of [] \<Rightarrow> n = x | m # _ \<Rightarrow> (m, n) \<in> E"
    "\<forall>w\<in>set ws. (n, w) \<in> E \<and> 0 \<le> w"
  shows "trail E x (n # q) (st @ [-1] @ ws)"
  unfolding trail.simps using assms by (intro conjI exI [of _ st] exI [of _ ws]) simp_all

lemma trail_path:
  assumes "trail E x (n # q) st"
  shows "last (n # q) = x" "successively (\<lambda>u v. (v, u) \<in> E) (n # q)"
proof -
  have "last (n # q) = x \<and> successively (\<lambda>u v. (v, u) \<in> E) (n # q)"
    using assms
  proof (induction q arbitrary: n st)
    case Nil
    then show ?case by simp
  next
    case (Cons m q)
    then obtain st' where t: "trail E x (m # q) st'" and mn: "(m, n) \<in> E"
      unfolding trail.simps(2) [of E x n] by auto
    show ?case using Cons.IH [OF t] mn by simp
  qed
  then show "last (n # q) = x" "successively (\<lambda>u v. (v, u) \<in> E) (n # q)" by blast+
qed

section \<open>The search\<close>

definition stack_weight :: "int list \<Rightarrow> nat" where
  "stack_weight st = sum_list (map (\<lambda>n. if n < 0 then 1 else 2) st)"

text \<open>
  \<open>cells\<close>: the written part of the caller's array agrees with the path.
\<close>

definition cells :: "rep \<Rightarrow> int list \<Rightarrow> u64 list \<Rightarrow> bool" where
  "cells r q path \<longleftrightarrow> (\<forall>k < min (length q) (length path). path ! k = node_id r (nat (rev q ! k)))"

definition path_result :: "rep \<Rightarrow> int \<Rightarrow> int \<Rightarrow> u64 list \<Rightarrow> int \<Rightarrow> bool" where
  "path_result r x y path len \<longleftrightarrow>
     (if (x, y) \<in> (edges (r_nodes r))\<^sup>* then
        (\<exists>p. len = int (length p) \<and> p \<noteq> [] \<and> hd p = x \<and> last p = y \<and>
           successively (\<lambda>u v. (u, v) \<in> edges (r_nodes r)) p \<and>
           (\<forall>k < min (length p) (length path). path ! k = node_id r (nat (p ! k))))
      else len = 0)"

lemma successively_path:
  "successively (\<lambda>u v. (v, u) \<in> E) (n # q) \<Longrightarrow> (last (n # q), n) \<in> E\<^sup>*"
proof (induction q arbitrary: n)
  case Nil
  then show ?case by simp
next
  case (Cons m q)
  then have "(last (m # q), m) \<in> E\<^sup>*" "(m, n) \<in> E" by auto
  then show ?case by (auto intro: rtrancl_into_rtrancl)
qed

lemma find_path_loop_spec:
  assumes inv: "rep_inv r" and E: "E = edges (r_nodes r)" and I: "I = indices (r_nodes r)"
    and x: "x \<in> I" and max: "maxlen = int (length path)"
    and seen: "ns_inv seen" "ns_set seen \<subseteq> I"
    and tr: "trail E x q st" and len: "len = int (length q)" and cl: "cells r q path"
    and on_st: "\<forall>w\<in>set st. 0 \<le> w \<longrightarrow> w \<in> insert x (ns_set seen)"
    and closed: "\<forall>u\<in>insert x (ns_set seen) - set st. u \<noteq> y \<and> (\<forall>w. (u, w) \<in> E \<longrightarrow> w \<in> ns_set seen)"
  shows "\<exists>st' path' len'. find_path_loop y maxlen (r\<lparr>r_stack := st\<rparr>) seen path len =
      Some (r\<lparr>r_stack := st'\<rparr>, path', len') \<and> length path' = length path \<and>
      path_result r x y path' len'"
  using max seen tr len cl on_st closed
proof (induction "(seen, st)" arbitrary: seen st q path len rule: wf_induct_rule
    [OF wf_measures [of "[\<lambda>(s, st). card (I - ns_set s), \<lambda>(s, st). stack_weight st]"]])
  case (1 seen st)
  have ok: "nodes_ok (r_nodes r)" by (rule rep_invD(2) [OF inv])
  have x0: "0 \<le> x" using x by (simp add: I indices_iff)
  show ?case
  proof (cases st rule: rev_cases)
    case Nil
    have "(x, y) \<notin> E\<^sup>*"
    proof
      assume "(x, y) \<in> E\<^sup>*"
      then have "y \<in> insert x (ns_set seen)"
        by (induction rule: rtrancl_induct) (use 1(9) Nil in auto)
      then show False using 1(9) Nil by auto
    qed
    then have "path_result r x y path 0" by (simp add: path_result_def E)
    then show ?thesis by (subst find_path_loop.simps) (auto simp: Nil)
  next
    case (snoc s n)
    show ?thesis
    proof (cases "n < 0")
      case True
      obtain m q' where q: "q = m # q'" "trail E x q' s"
        by (rule trail_marker [OF 1(5) [unfolded snoc] True x0])
      have eq: "find_path_loop y maxlen (r\<lparr>r_stack := st\<rparr>) seen path len =
          find_path_loop y maxlen (r\<lparr>r_stack := s\<rparr>) seen path (len - 1)"
        using True by (subst find_path_loop.simps) (simp add: snoc)
      have "cells r q' path"
        unfolding cells_def
      proof (intro allI impI)
        fix k assume k: "k < min (length q') (length path)"
        then have "path ! k = node_id r (nat (rev q ! k))"
          using 1(7) q(1) unfolding cells_def by auto
        then show "path ! k = node_id r (nat (rev q' ! k))" using k by (simp add: q(1) nth_append)
      qed
      moreover have "((seen, s), (seen, st)) \<in> measures
          [\<lambda>(s, st). card (I - ns_set s), \<lambda>(s, st). stack_weight st]"
        using True by (simp add: snoc stack_weight_def)
      moreover have "len - 1 = int (length q')" using 1(6) q(1) by simp
      moreover have "\<forall>w\<in>set s. 0 \<le> w \<longrightarrow> w \<in> insert x (ns_set seen)" using 1(8) by (simp add: snoc)
      moreover have "\<forall>u\<in>insert x (ns_set seen) - set s. u \<noteq> y \<and> (\<forall>w. (u, w) \<in> E \<longrightarrow> w \<in> ns_set seen)"
      proof
        fix u assume u: "u \<in> insert x (ns_set seen) - set s"
        have "u \<in> I" using u 1(4) x by blast
        then have "u \<noteq> n" using True by (auto simp: I indices_iff)
        then have "u \<in> insert x (ns_set seen) - set st" using u by (simp add: snoc)
        then show "u \<noteq> y \<and> (\<forall>w. (u, w) \<in> E \<longrightarrow> w \<in> ns_set seen)" using 1(9) by blast
      qed
      ultimately show ?thesis
        unfolding eq using 1(1) [OF _ 1(2-4) q(2)] by blast
    next
      case False
      then have n0: "0 \<le> n" by simp
      note tn = trail_node [OF 1(5) [unfolded snoc] n0]
      have nI: "n \<in> I" using 1(4,8) x n0 by (auto simp: snoc)
      have ni: "idx n = nat n" "nat n < length (r_nodes r)"
        using nodes_ok_idx [OF ok] nI I by blast+
      let ?nn = "r_nodes r ! nat n"
      have id: "make_id n (n_version ?nn) = node_id r (nat n)" using n0 by (simp add: node_id_def)
      let ?path = "if len < maxlen then path[nat len := node_id r (nat n)] else path"
      have cl': "cells r (n # q) ?path"
        using 1(2,6,7) by (auto simp: cells_def nth_append nth_upd less_Suc_eq)
      have vg: "len < maxlen \<Longrightarrow> vec_get path (nat len) = Some (path ! nat len)"
        using 1(2,6) by simp
      have tq: "trail E x (n # q) (s @ [-1])"
        using trail_push [OF tn, of "[]"] by simp
      show ?thesis
      proof (cases "n = y")
        case True
        have sp: "last (n # q) = x" "successively (\<lambda>u v. (v, u) \<in> E) (n # q)"
          using trail_path [OF tq] by auto
        have "(x, y) \<in> E\<^sup>*" using successively_path [OF sp(2)] sp(1) True by simp
        moreover have "successively (\<lambda>u v. (u, v) \<in> E) (rev (n # q))"
          using sp(2) by (subst successively_rev) simp
        moreover have "hd (rev (n # q)) = x" "last (rev (n # q)) = y"
          using sp(1) True by (simp_all only: hd_rev last_rev) simp
        ultimately have "path_result r x y ?path (len + 1)"
          using cl' 1(6) unfolding path_result_def E [symmetric]
          by (simp only: if_True) (intro exI [of _ "rev (n # q)"], simp add: cells_def)
        moreover have "find_path_loop y maxlen (r\<lparr>r_stack := st\<rparr>) seen path len =
            Some (r\<lparr>r_stack := s @ [-1]\<rparr>, ?path, len + 1)"
          using False ni vg id unfolding True [symmetric]
          by (subst find_path_loop.simps) (simp add: snoc)
        ultimately show ?thesis by (auto intro!: exI [of _ "s @ [-1]"])
      next
        case ny: False
        let ?ws = "ns_elems (n_out ?nn)"
        have ws: "set ?ws \<subseteq> I" "distinct ?ws" "\<And>w. w \<in> set ?ws \<longleftrightarrow> (n, w) \<in> E"
          using nodes_ok_sets [OF ok ni(2)] ns_elems_distinct nI
          by (auto simp: E I edges_def succ_list_def)
        have lim: "I \<subseteq> {0..<node_limit}" using ok by (auto simp: I indices_def nodes_ok_def)
        obtain seen' where s': "insert_new node_set_insert ?ws seen [] =
            Some (seen', filter (\<lambda>w. w \<notin> ns_set seen) ?ws)"
          "ns_inv seen'" "ns_set seen' = ns_set seen \<union> set ?ws"
          using ns.insert_new_spec [OF 1(3) ws(2), of "[]"] ws(1) lim by auto
        let ?new = "filter (\<lambda>w. w \<notin> ns_set seen) ?ws"
        have eq: "find_path_loop y maxlen (r\<lparr>r_stack := st\<rparr>) seen path len =
            find_path_loop y maxlen (r\<lparr>r_stack := s @ [-1] @ ?new\<rparr>) seen' ?path (len + 1)"
          using False ny ni vg id s'(1) by (subst find_path_loop.simps) (simp add: snoc)
        have tr': "trail E x (n # q) (s @ [-1] @ ?new)"
          by (rule trail_push [OF tn]) (use ws in \<open>auto simp: I indices_iff\<close>)
        have fin: "finite I" by (simp add: I indices_def)
        have dec: "card (I - ns_set seen') < card (I - ns_set seen) \<or>
            card (I - ns_set seen') = card (I - ns_set seen) \<and>
            stack_weight (s @ [-1] @ ?new) < stack_weight st"
        proof (cases "set ?ws \<subseteq> ns_set seen")
          case True
          then have "?new = []" by (auto simp: filter_empty_conv)
          then show ?thesis using True n0 s'(3) by (simp add: snoc stack_weight_def Un_absorb2)
        next
          case nsub: False
          then have "I - ns_set seen' \<subset> I - ns_set seen" using ws(1) s'(3) by auto
          then show ?thesis using fin by (auto intro: psubset_card_mono)
        qed
        have closed': "\<forall>u\<in>insert x (ns_set seen') - set (s @ [-1] @ ?new).
            u \<noteq> y \<and> (\<forall>w. (u, w) \<in> E \<longrightarrow> w \<in> ns_set seen')"
        proof
          fix u assume u: "u \<in> insert x (ns_set seen') - set (s @ [-1] @ ?new)"
          show "u \<noteq> y \<and> (\<forall>w. (u, w) \<in> E \<longrightarrow> w \<in> ns_set seen')"
          proof (cases "u = n")
            case True
            then show ?thesis using ny ws(3) s'(3) by auto
          next
            case neq: False
            then have "u \<in> insert x (ns_set seen) - set st" using u s'(3) by (auto simp: snoc)
            then show ?thesis using 1(9) s'(3) by auto
          qed
        qed
        have on': "\<forall>w\<in>set (s @ [-1] @ ?new). 0 \<le> w \<longrightarrow> w \<in> insert x (ns_set seen')"
          using 1(8) s'(3) by (auto simp: snoc)
        have "\<exists>st' path' len'. find_path_loop y maxlen (r\<lparr>r_stack := s @ [-1] @ ?new\<rparr>) seen' ?path (len + 1) =
            Some (r\<lparr>r_stack := st'\<rparr>, path', len') \<and> length path' = length ?path \<and>
            path_result r x y path' len'"
          by (rule 1(1) [OF _ _ s'(2) _ tr' _ cl' on' closed'])
            (use dec 1(2,4,6) s'(3) ws(1) in auto)
        then show ?thesis unfolding eq by auto
      qed
    qed
  qed
qed

section \<open>FindPath and IsReachable\<close>

lemma stack_frame [frame]:
  "rep_inv (r\<lparr>r_stack := st\<rparr>) = rep_inv r" "vertices (r\<lparr>r_stack := st\<rparr>) = vertices r"
  "arcs (r\<lparr>r_stack := st\<rparr>) = arcs r" "issued (r\<lparr>r_stack := st\<rparr>) = issued r"
  by (simp_all add: rep_inv_def table_ok_def live_def vertices_def arcs_def issued_def)

lemma stack_frame_id [frame]: "id_of (r\<lparr>r_stack := st\<rparr>) = id_of r"
  by (rule ext) (simp add: id_of_def split: option.split)

text \<open>The answer of \<^verbatim>\<open>FindPath\<close> in terms of pointers: no pointer appears twice.\<close>

definition path_found :: "rep \<Rightarrow> ptr \<Rightarrow> ptr \<Rightarrow> u64 list \<Rightarrow> int \<Rightarrow> bool" where
  "path_found r p q path len \<longleftrightarrow>
     (if (p, q) \<in> (arcs r)\<^sup>* then
        (\<exists>ps. len = int (length ps) \<and> ps \<noteq> [] \<and> distinct ps \<and> hd ps = p \<and> last ps = q \<and>
           successively (\<lambda>a b. (a, b) \<in> arcs r) ps \<and>
           (\<forall>k < min (length ps) (length path). id_of r (ps ! k) = Some (path ! k)))
      else len = 0)"

lemma successively_mono_map:
  "successively R xs \<Longrightarrow> (\<And>u v. R u v \<Longrightarrow> S (f u) (f v)) \<Longrightarrow> successively S (map f xs)"
  by (induction xs rule: induct_list012) auto

lemma increasing_above:
  "successively (\<lambda>u v. (rk u :: int) < rk v) (w # xs) \<Longrightarrow> a \<in> set xs \<Longrightarrow> rk w < rk a"
  by (induction xs arbitrary: w) fastforce+

lemma increasing_distinct:
  "successively (\<lambda>u v. (rk u :: int) < rk v) ps \<Longrightarrow> distinct ps"
proof (induction ps)
  case (Cons u ps)
  then have "successively (\<lambda>u v. rk u < rk v) ps" by (cases ps) auto
  then show ?case using Cons increasing_above [OF Cons.prems] by auto
qed simp

lemma path_result_found:
  assumes inv: "rep_inv r" and x: "x \<in> live r" "n_ptr (r_nodes r ! x) = p"
    and y: "y \<in> live r" "n_ptr (r_nodes r ! y) = q" and res: "path_result r (int x) (int y) path len"
  shows "path_found r p q path len"
proof (cases "(int x, int y) \<in> (edges (r_nodes r))\<^sup>*")
  case False
  then show ?thesis
    using res arcs_path [OF inv x(1) y(1)] x(2) y(2) by (simp add: path_result_def path_found_def)
next
  case True
  let ?E = "edges (r_nodes r)" and ?f = "\<lambda>u. n_ptr (r_nodes r ! nat u)"
  from res True obtain ps where ps: "len = int (length ps)" "ps \<noteq> []" "hd ps = int x" "last ps = int y"
    "successively (\<lambda>u v. (u, v) \<in> ?E) ps"
    "\<forall>k < min (length ps) (length path). path ! k = node_id r (nat (ps ! k))"
    by (auto simp: path_result_def)
  have all_live: "\<forall>w\<in>set (u # us). nat w \<in> live r \<and> 0 \<le> w"
    if "successively (\<lambda>u v. (u, v) \<in> ?E) (u # us)" "nat u \<in> live r" "0 \<le> u" for u us
    using that
  proof (induction us arbitrary: u)
    case Nil
    then show ?case by simp
  next
    case (Cons w us)
    then have e: "(u, w) \<in> ?E" by simp
    then have "nat w \<in> live r" "0 \<le> w"
      using rep_invD(7) [OF inv e] edges_indices [OF rep_invD(2) [OF inv] e] by (simp_all add: indices_iff)
    then have "\<forall>v\<in>set (w # us). nat v \<in> live r \<and> 0 \<le> v"
      using Cons.prems(1) by (intro Cons.IH) simp_all
    then show ?case using Cons.prems(2,3) by simp
  qed
  have live: "\<forall>w\<in>set ps. nat w \<in> live r \<and> 0 \<le> w"
  proof -
    obtain us where "ps = int x # us" using ps(2,3) by (cases ps) auto
    then show ?thesis using all_live [of "int x" us] ps(5) x(1) by simp
  qed
  have step: "(u, v) \<in> ?E \<Longrightarrow> (?f u, ?f v) \<in> arcs r" for u v
    unfolding arcs_def by (rule image_eqI [of _ _ "(u, v)"]) simp_all
  have inc: "increasing (r_nodes r)" using rep_invD(1) [OF inv] by (simp add: graph_ok_def)
  have "distinct ps"
    by (rule increasing_distinct [OF successively_mono [OF ps(5)]])
      (use inc in \<open>auto simp: increasing_def\<close>)
  moreover have "inj_on ?f (set ps)"
    using live live_ptr_inj [OF inv] by (fastforce simp: inj_on_def eq_nat_nat_iff)
  ultimately have "distinct (map ?f ps)" by (simp add: distinct_map)
  moreover have "successively (\<lambda>a b. (a, b) \<in> arcs r) (map ?f ps)"
    by (rule successively_mono_map [OF ps(5)]) (rule step)
  moreover have "id_of r (map ?f ps ! k) = Some (path ! k)" if k: "k < min (length ps) (length path)" for k
  proof -
    have "nat (ps ! k) \<in> live r" using live k by simp
    then show ?thesis using id_of_live [OF inv, of "nat (ps ! k)"] ps(6) k by simp
  qed
  moreover have "(p, q) \<in> (arcs r)\<^sup>*" using True arcs_path [OF inv x(1) y(1)] x(2) y(2) by simp
  ultimately show ?thesis
    using ps(1-4) x(2) y(2) unfolding path_found_def
    by (simp only: if_True) (intro exI [of _ "map ?f ps"], simp add: hd_map last_map)
qed

lemma find_path_live:
  assumes inv: "rep_inv r" and p: "id_of r p = Some g" and q: "id_of r q = Some h"
    and max: "maxlen = int (length path)"
  shows "\<exists>st path' len. find_path g h maxlen path r = Some (r\<lparr>r_stack := st\<rparr>, path', len) \<and>
    length path' = length path \<and> path_found r p q path' len"
proof -
  obtain x where x: "x \<in> live r" "x < length (r_nodes r)" "n_ptr (r_nodes r ! x) = p"
    "node_index g = int x" "find_node r g = Some (Some x)" by (rule id_of_node [OF inv p])
  obtain y where y: "y \<in> live r" "y < length (r_nodes r)" "n_ptr (r_nodes r ! y) = q"
    "node_index h = int y" "find_node r h = Some (Some y)" by (rule id_of_node [OF inv q])
  have "\<exists>st' path' len'. find_path_loop (int y) maxlen (r\<lparr>r_stack := [int x]\<rparr>) node_set_empty path 0 =
      Some (r\<lparr>r_stack := st'\<rparr>, path', len') \<and> length path' = length path \<and>
      path_result r (int x) (int y) path' len'"
    by (rule find_path_loop_spec [OF inv refl refl _ max, where q = "[]"])
      (use x(2) in \<open>simp_all add: node_set_empty_spec cells_def indices_def\<close>)
  then show ?thesis
    using x(4,5) y(4,5) path_result_found [OF inv x(1,3) y(1,3)] by (auto simp: find_path_def)
qed

lemma is_reachable_live:
  assumes inv: "rep_inv r" and p: "id_of r p = Some g" and q: "id_of r q = Some h"
  shows "\<exists>st. is_reachable g h r = Some (r\<lparr>r_stack := st\<rparr>, (p, q) \<in> (arcs r)\<^sup>*)"
proof -
  obtain st path' len where f: "find_path g h 0 [] r = Some (r\<lparr>r_stack := st\<rparr>, path', len)"
    "path_found r p q path' len"
    using find_path_live [OF inv p q, of 0 "[]"] by auto
  have "0 < len \<longleftrightarrow> (p, q) \<in> (arcs r)\<^sup>*" using f(2) by (auto simp: path_found_def split: if_splits)
  then show ?thesis using f(1) by (intro exI [of _ st]) (simp add: is_reachable_def)
qed

section \<open>Stack traces and the self check\<close>

text \<open>Changing what is recorded at a node, but not its identity and its edges.\<close>

definition ident :: "node \<Rightarrow> (int \<times> bool \<times> node_set \<times> node_set) \<times> ptr \<times> int \<times> u32" where
  "ident n = (gpart n, n_ptr n, n_next n, n_version n)"

lemma ident_frame:
  assumes inv: "rep_inv r" and i: "map ident (r_nodes r') = map ident (r_nodes r)"
    and same: "r_free r' = r_free r" "r_heads r' = r_heads r"
  shows "rep_inv r'" "same_vertices r r'" "arcs r' = arcs r"
proof -
  have len: "length (r_nodes r') = length (r_nodes r)" using i by (metis length_map)
  have id: "ident (r_nodes r' ! k) = ident (r_nodes r ! k)" if "k < length (r_nodes r)" for k
    using i len that by (metis nth_map)
  have at: "gpart (r_nodes r' ! k) = gpart (r_nodes r ! k)" "n_ptr (r_nodes r' ! k) = n_ptr (r_nodes r ! k)"
    "n_next (r_nodes r' ! k) = n_next (r_nodes r ! k)" "n_version (r_nodes r' ! k) = n_version (r_nodes r ! k)"
    if "k < length (r_nodes r)" for k
    using id [OF that] by (simp_all add: ident_def)
  have gp: "map gpart (r_nodes r') = map gpart (r_nodes r)"
    by (rule nth_equalityI) (simp_all add: len at)
  note g = gpart_graph [OF gp]
  have "pm_inv (r_nodes r') (r_heads r') (live r)"
    unfolding same by (rule pm_inv_cong [OF rep_invD(4) [OF inv] len at(3) [OF live_less] at(2) [OF live_less]])
  then have t: "table_ok r' (live r)"
    using rep_invD(3) [OF inv] len at same by (simp add: table_ok_def indices_def)
  have gr: "graph_ok (r_nodes r')" using g(1) rep_invD(1) [OF inv] by simp
  have e: "edges (r_nodes r') = edges (r_nodes r)" by (rule g(2))
  show inv': "rep_inv r'" by (rule rep_invI(1) [OF gr t]) (use rep_invD(7) [OF inv] e in simp)
  have L: "live r' = live r" by (rule rep_invI(2) [OF gr t]) (use rep_invD(7) [OF inv] e in simp)
  have c: "node_id r' x = node_id r x" "n_ptr (r_nodes r' ! x) = n_ptr (r_nodes r ! x)" if "x \<in> live r" for x
    using at [OF live_less [OF that]] by (simp_all add: node_id_def)
  have "id_of r' q = id_of r q" for q
  proof -
    have "id_of r' q = Some h \<longleftrightarrow> id_of r q = Some h" for h
      unfolding id_of_Some [OF inv'] id_of_Some [OF inv] L using c by auto
    then show ?thesis by (metis not_None_eq)
  qed
  moreover have "vertices r' = vertices r" unfolding vertices_def L using c by (auto intro: image_cong)
  ultimately show "same_vertices r r'" by (auto simp: same_vertices_def issued_def len)
  show "arcs r' = arcs r"
    unfolding arcs_def e
  proof (rule image_cong [OF refl])
    fix a assume "a \<in> edges (r_nodes r)"
    then show "(case a of (u, v) \<Rightarrow> (n_ptr (r_nodes r' ! nat u), n_ptr (r_nodes r' ! nat v))) =
      (case a of (u, v) \<Rightarrow> (n_ptr (r_nodes r ! nat u), n_ptr (r_nodes r ! nat v)))"
      using rep_invD(7) [OF inv] c(2) by (cases a) auto
  qed
qed

lemma update_stack_trace_frame:
  assumes inv: "rep_inv r" and g: "g \<in> issued r"
  shows "\<exists>r'. update_stack_trace collect t frames g h r = Some r' \<and> rep_inv r' \<and>
    same_vertices r r' \<and> arcs r' = arcs r \<and> length (r_nodes r') = length (r_nodes r)"
proof -
  obtain f where f: "find_node r g = Some f" using g by (simp add: find_node_def issued_def)
  obtain r' where r': "update_stack_trace collect t frames g h r = Some r'"
    "map ident (r_nodes r') = map ident (r_nodes r)" "r_free r' = r_free r" "r_heads r' = r_heads r"
  proof (cases f)
    case None
    then show ?thesis using that [of r] f by (simp add: update_stack_trace_def)
  next
    case (Some i)
    let ?n = "r_nodes r ! i"
    show ?thesis
    proof (cases "int (hl_n h) + 1 \<le> n_priority ?n")
      case True
      then show ?thesis using that [of r] f Some by (simp add: update_stack_trace_def Let_def)
    next
      case False
      let ?m = "?n\<lparr>n_callstack := (if collect then frames else n_callstack ?n),
        n_priority := int (hl_n h) + 1, n_thread := t, n_hold_locks := hl_locks h,
        n_hold_count := word_of_nat (hl_n h)\<rparr>"
      have "map ident ((r_nodes r)[i := ?m]) = map ident (r_nodes r)"
        by (rule map_nth_update) (simp add: ident_def gpart_def)
      then show ?thesis
        using that [of "r\<lparr>r_nodes := (r_nodes r)[i := ?m]\<rparr>"] f Some False
        by (simp add: update_stack_trace_def Let_def)
    qed
  qed
  moreover from this have "length (r_nodes r') = length (r_nodes r)" using r'(2) by (metis length_map)
  ultimately show ?thesis using ident_frame [OF inv r'(2-4)] by blast
qed

text \<open>What is recorded for a lock is the trace of the deepest nesting seen so far.\<close>

lemma update_stack_trace_records:
  assumes inv: "rep_inv r" and p: "id_of r p = Some g" and t: "update_stack_trace True t frames g h r = Some r'"
  obtains x where "find_node r g = Some (Some x)"
    "get_stack_trace g old r' = Some (Some (if n_priority (r_nodes r ! x) < int (hl_n h) + 1 then frames
       else n_callstack (r_nodes r ! x)))"
proof -
  obtain x where x: "x < length (r_nodes r)" "find_node r g = Some (Some x)" by (rule id_of_node [OF inv p])
  then have "get_stack_trace g old r' = Some (Some (if n_priority (r_nodes r ! x) < int (hl_n h) + 1 then frames
       else n_callstack (r_nodes r ! x)))"
    using t by (auto simp: update_stack_trace_def get_stack_trace_def find_node_def Let_def nth_upd
        vec_get_eq_Some vec_get_def split: if_splits)
  then show ?thesis using that x(2) by blast
qed

lemma check_edges_ok:
  assumes "rep_inv r" "x < length (r_nodes r)"
  shows "check_edges (r_nodes r) x = Some []"
proof -
  have ok: "nodes_ok (r_nodes r)" "increasing (r_nodes r)"
    using rep_invD(1,2) [OF assms(1)] by (simp_all add: graph_ok_def)
  have "idx y = nat y \<and> nat y < length (r_nodes r) \<and> \<not> n_rank (r_nodes r ! nat y) \<le> n_rank (r_nodes r ! x)"
    if y: "y \<in> ns_set (n_out (r_nodes r ! x))" for y
  proof -
    have e: "(int x, y) \<in> edges (r_nodes r)"
      using y assms(2) by (simp add: edges_def succ_list_def indices_def)
    have "idx y = nat y" "nat y < length (r_nodes r)"
      using nodes_ok_idx [OF ok(1) edges_indices(2) [OF ok(1) e]] by auto
    then show ?thesis using ok(2) e by (auto simp: increasing_def rank_at_def)
  qed
  then show ?thesis by (simp add: check_edges_def list_all_iff filter_empty_conv)
qed

lemma check_nodes_ok:
  assumes inv: "rep_inv r" and "distinct xs" "set xs \<subseteq> {..<length (r_nodes r)}" "ns_inv ranks"
    "\<forall>x\<in>set xs. n_rank (r_nodes r ! x) \<notin> ns_set ranks"
  shows "check_nodes r xs ranks = Some []"
  using assms(2-)
proof (induction xs arbitrary: ranks)
  case Nil
  then show ?case by simp
next
  case (Cons x xs)
  let ?n = "r_nodes r ! x"
  have x: "x < length (r_nodes r)" using Cons.prems(2) by simp
  have g: "nodes_ok (r_nodes r)" "ranks_ok (r_nodes r)" "visited_set (r_nodes r) = {}"
    using rep_invD(1) [OF inv] by (simp_all add: graph_ok_def)
  have xi: "int x \<in> indices (r_nodes r)" using x by (simp add: indices_def)
  have "rank_at (r_nodes r) (int x) \<in> indices (r_nodes r)"
    using g(2) xi by (auto simp: ranks_ok_def bij_betw_def)
  then have rk: "0 \<le> n_rank ?n" "n_rank ?n < node_limit"
    using rep_invD(6) [OF inv] by (simp_all add: rank_at_def indices_def)
  obtain ranks' where ins: "node_set_insert (n_rank ?n) ranks = Some (ranks', True)"
    "ns_inv ranks'" "ns_set ranks' = insert (n_rank ?n) (ns_set ranks)"
    using node_set_insert_spec [OF Cons.prems(3) rk] Cons.prems(4) by auto
  have "n_rank (r_nodes r ! z) \<noteq> n_rank ?n" if "z \<in> set xs" for z
    using ranks_ok_inj [OF g(2) _ xi, of "int z"] that Cons.prems(1,2)
    by (auto simp: rank_at_def indices_def)
  then have rest: "check_nodes r xs ranks' = Some []"
    using Cons.prems ins by (intro Cons.IH) auto
  have nv: "\<not> n_visited ?n" using g(3) xi by (auto simp: visited_set_def)
  have tab: "(if n_ptr ?n = 0 then Some []
      else map_option (\<lambda>i. if idx i \<noteq> x then [Not_In_Table x] else [])
        (pm_find (r_nodes r) (r_heads r) (n_ptr ?n))) = Some []"
  proof (cases "n_ptr ?n = 0")
    case False
    then have "x \<in> live r" using rep_invD(8) [OF inv x] by auto
    then have "pm_find (r_nodes r) (r_heads r) (n_ptr ?n) = Some (int x)" by (simp add: live_def)
    moreover have "idx (int x) = x" using x rep_invD(5) [OF inv] by (simp add: idx_of_nat)
    ultimately show ?thesis using False by simp
  qed simp
  show ?case
    unfolding check_nodes.simps Let_def tab
    using ins(1) check_edges_ok [OF inv x] rest nv by simp
qed

lemma check_invariants_ok: "rep_inv r \<Longrightarrow> check_invariants r = Some []"
  unfolding check_invariants_def
  by (rule check_nodes_ok) (auto simp: node_set_empty_spec)

end
