(* ===== verification/Graph_Interface.thy ===== *)
theory Graph_Interface
  imports Graph_Paths
begin

text \<open>
  The graph as the deadlock monitor sees it: pointers, ids, and an acyclic relation that grows by
  accepted edges. The locale \<open>order_graph\<close> states the promises of \<^verbatim>\<open>GetId\<close>, \<^verbatim>\<open>Ptr\<close>,
  \<^verbatim>\<open>InsertEdge\<close>, \<^verbatim>\<open>RemoveNode\<close> and \<^verbatim>\<open>UpdateStackTrace\<close>; what a sequence of calls does, and
  what the loop over the held locks does, is proved from them.
\<close>

lemma arcs_acyclic: "rep_inv r \<Longrightarrow> acyclic (arcs r)"
proof (rule acyclicI, rule allI, rule notI)
  fix p assume inv: "rep_inv r" and "(p, p) \<in> (arcs r)\<^sup>+"
  then obtain q where q: "(p, q) \<in> arcs r" "(q, p) \<in> (arcs r)\<^sup>*" by (meson tranclD)
  then obtain x y where x: "x \<in> live r" "n_ptr (r_nodes r ! x) = p"
    and y: "y \<in> live r" "n_ptr (r_nodes r ! y) = q"
    using arcs_vertices [OF inv q(1)] unfolding vertices_def by blast
  have "(int x, int y) \<in> edges (r_nodes r)" using arcs_step [OF inv x(1) y(1)] x(2) y(2) q(1) by simp
  moreover have "(int y, int x) \<in> (edges (r_nodes r))\<^sup>*"
    using arcs_path [OF inv y(1) x(1)] x(2) y(2) q(2) by simp
  ultimately have "(int x, int x) \<in> (edges (r_nodes r))\<^sup>+" by (rule rtrancl_into_trancl2)
  moreover have "acyclic (edges (r_nodes r))"
    using rep_invD(1) [OF inv] by (intro increasing_acyclic) (simp add: graph_ok_def)
  ultimately show False by (simp add: acyclic_def)
qed

section \<open>Sequences of calls\<close>

datatype graph_call = Add_Edge ptr ptr | Drop_Edge ptr ptr | Drop_Node ptr

text \<open>The client asks for the ids of both ends first, as the monitor does.\<close>

fun run_calls ::
  "(ptr \<Rightarrow> 's \<Rightarrow> ('s \<times> u64) option) \<Rightarrow> (u64 \<Rightarrow> u64 \<Rightarrow> 's \<Rightarrow> ('s \<times> bool) option) \<Rightarrow>
   (u64 \<Rightarrow> u64 \<Rightarrow> 's \<Rightarrow> 's option) \<Rightarrow> (ptr \<Rightarrow> 's \<Rightarrow> 's option) \<Rightarrow>
   graph_call list \<Rightarrow> 's \<Rightarrow> ('s \<times> bool list) option" where
  "run_calls gid ins era del [] s = Some (s, [])"
| "run_calls gid ins era del (Add_Edge p q # cs) s =
     Option.bind (gid p s) (\<lambda>(s1, g). Option.bind (gid q s1) (\<lambda>(s2, h).
     Option.bind (ins g h s2) (\<lambda>(s3, ok).
       map_option (\<lambda>(s', oks). (s', ok # oks)) (run_calls gid ins era del cs s3))))"
| "run_calls gid ins era del (Drop_Edge p q # cs) s =
     Option.bind (gid p s) (\<lambda>(s1, g). Option.bind (gid q s1) (\<lambda>(s2, h).
     Option.bind (if p = q then Some s2 else era g h s2) (run_calls gid ins era del cs)))"
| "run_calls gid ins era del (Drop_Node p # cs) s =
     Option.bind (del p s) (run_calls gid ins era del cs)"

text \<open>The specification: a relation, and an edge is refused if its ends are already connected.\<close>

definition spec_add :: "ptr \<Rightarrow> ptr \<Rightarrow> (ptr \<times> ptr) set \<Rightarrow> (ptr \<times> ptr) set \<times> bool" where
  "spec_add p q A = (if (q, p) \<in> A\<^sup>* then (A, False) else (insert (p, q) A, True))"

fun spec_calls :: "graph_call list \<Rightarrow> (ptr \<times> ptr) set \<Rightarrow> (ptr \<times> ptr) set \<times> bool list" where
  "spec_calls [] A = (A, [])"
| "spec_calls (Add_Edge p q # cs) A =
     (let (A1, ok) = spec_add p q A; (A', oks) = spec_calls cs A1 in (A', ok # oks))"
| "spec_calls (Drop_Edge p q # cs) A = spec_calls cs (if p = q then A else A - {(p, q)})"
| "spec_calls (Drop_Node p # cs) A = spec_calls cs {(a, b). (a, b) \<in> A \<and> a \<noteq> p \<and> b \<noteq> p}"

section \<open>Acquiring a lock while others are held\<close>

text \<open>
  The loop of the monitor over the ids of the held locks: expired ids are skipped, the lock's own id
  ends the loop, and so does the first edge that is refused; its id is the second result.
\<close>

fun acquire_edges ::
  "('s \<Rightarrow> u64 \<Rightarrow> ptr option) \<Rightarrow> (u64 \<Rightarrow> u64 \<Rightarrow> 's \<Rightarrow> ('s \<times> bool) option) \<Rightarrow> u64 \<Rightarrow> u64 list \<Rightarrow> 's \<Rightarrow>
   ('s \<times> u64 option) option" where
  "acquire_edges look ins gid [] s = Some (s, None)"
| "acquire_edges look ins gid (i # js) s =
     Option.bind (look s i) (\<lambda>p.
       if p = 0 then acquire_edges look ins gid js s
       else if i = gid then Some (s, None)
       else Option.bind (ins i gid s) (\<lambda>(s', ok).
         if ok then acquire_edges look ins gid js s' else Some (s', Some i)))"

text \<open>The locks the loop looks at.\<close>

fun held_before :: "(u64 \<Rightarrow> ptr option) \<Rightarrow> u64 \<Rightarrow> u64 list \<Rightarrow> ptr list" where
  "held_before look gid [] = []"
| "held_before look gid (i # js) =
     (case look i of None \<Rightarrow> []
      | Some p \<Rightarrow> if p = 0 then held_before look gid js
                  else if i = gid then [] else p # held_before look gid js)"

lemma held_before_cong:
  "(\<And>i. i \<in> set js \<Longrightarrow> look i = look' i) \<Longrightarrow> held_before look gid js = held_before look' gid js"
  by (induction js) (auto split: option.splits)

text \<open>An edge into a node does not change what the node reaches.\<close>

lemma reach_edge_into: "(x, y) \<in> (insert (p, x) R)\<^sup>* \<longleftrightarrow> (x, y) \<in> R\<^sup>*"
  by (auto simp: rtrancl_insert)

section \<open>The interface\<close>

locale order_graph =
  fixes gid :: "tid \<Rightarrow> ptr \<Rightarrow> 's \<Rightarrow> ('s \<times> u64) option"
    and ins :: "u64 \<Rightarrow> u64 \<Rightarrow> 's \<Rightarrow> ('s \<times> bool) option"
    and era :: "u64 \<Rightarrow> u64 \<Rightarrow> 's \<Rightarrow> 's option"
    and del :: "ptr \<Rightarrow> 's \<Rightarrow> 's option"
    and ptr :: "'s \<Rightarrow> u64 \<Rightarrow> ptr option"
    and ids :: "'s \<Rightarrow> ptr \<Rightarrow> u64 option"
    and known :: "'s \<Rightarrow> u64 set"
    and rel :: "'s \<Rightarrow> (ptr \<times> ptr) set"
    and nodes :: "'s \<Rightarrow> nat"
    and valid :: "'s \<Rightarrow> bool"
  assumes gid_law: "valid s \<Longrightarrow> int (nodes s) < node_limit \<Longrightarrow>
      \<exists>s' g. gid t p s = Some (s', g) \<and> valid s' \<and> ids s' = (ids s)(p \<mapsto> g) \<and> rel s' = rel s \<and>
        known s \<subseteq> known s' \<and> g \<in> known s' \<and> nodes s' \<le> nodes s + 1 \<and> g \<noteq> invalid_graph_id \<and>
        (ids s p \<noteq> None \<longrightarrow> ids s p = Some g)"
    and ins_law: "valid s \<Longrightarrow> ids s p = Some g \<Longrightarrow> ids s q = Some h \<Longrightarrow>
      \<exists>s' ok. ins g h s = Some (s', ok) \<and> valid s' \<and> (rel s', ok) = spec_add p q (rel s) \<and>
        ids s' = ids s \<and> known s' = known s \<and> nodes s' = nodes s"
    and era_law: "valid s \<Longrightarrow> ids s p = Some g \<Longrightarrow> ids s q = Some h \<Longrightarrow> p \<noteq> q \<Longrightarrow>
      \<exists>s'. era g h s = Some s' \<and> valid s' \<and> rel s' = rel s - {(p, q)} \<and> ids s' = ids s \<and>
        known s' = known s \<and> nodes s' = nodes s"
    and del_law: "valid s \<Longrightarrow>
      \<exists>s'. del p s = Some s' \<and> valid s' \<and> rel s' = {(a, b). (a, b) \<in> rel s \<and> a \<noteq> p \<and> b \<noteq> p} \<and>
        ids s' = (ids s)(p := None) \<and> known s' = known s \<and> nodes s' = nodes s"
    and ptr_law: "valid s \<Longrightarrow> g \<in> known s \<Longrightarrow> ids s p = Some g \<Longrightarrow> ptr s g = Some p"
      "valid s \<Longrightarrow> g \<in> known s \<Longrightarrow> \<forall>p. ids s p \<noteq> Some g \<Longrightarrow> ptr s g = Some 0"
    and ids_law: "valid s \<Longrightarrow> ids s p = Some g \<Longrightarrow> g \<in> known s \<and> (ids s q = Some g \<longrightarrow> q = p)"
    and rel_law: "valid s \<Longrightarrow> acyclic (rel s)"
begin

lemma two_ids:
  assumes "valid s" "int (nodes s) + 2 \<le> node_limit"
  shows "\<exists>s1 g s2 h. gid t p s = Some (s1, g) \<and> gid t q s1 = Some (s2, h) \<and> valid s2 \<and>
    ids s2 p = Some g \<and> ids s2 q = Some h \<and> rel s2 = rel s \<and> nodes s2 \<le> nodes s + 2"
proof -
  have l1: "int (nodes s) < node_limit" using assms(2) by simp
  obtain s1 g where s1: "gid t p s = Some (s1, g)" "valid s1" "ids s1 = (ids s)(p \<mapsto> g)"
    "rel s1 = rel s" "nodes s1 \<le> nodes s + 1"
    using gid_law [OF assms(1) l1, of t p] by blast
  have l2: "int (nodes s1) < node_limit" using s1(5) assms(2) by simp
  obtain s2 h where s2: "gid t q s1 = Some (s2, h)" "valid s2" "ids s2 = (ids s1)(q \<mapsto> h)"
    "rel s2 = rel s1" "nodes s2 \<le> nodes s1 + 1" "ids s1 q \<noteq> None \<longrightarrow> ids s1 q = Some h"
    using gid_law [OF s1(2) l2, of t q] by blast
  have "ids s2 p = Some g" using s1(3) s2(3,6) by (cases "p = q") auto
  moreover have "ids s2 q = Some h" using s2(3) by simp
  moreover have "nodes s2 \<le> nodes s + 2" using s1(5) s2(5) by simp
  ultimately show ?thesis using s1 s2 by metis
qed

lemma calls_refine:
  assumes "valid s" "int (nodes s + 2 * length cs) \<le> node_limit"
  shows "\<exists>s' oks. run_calls (gid t) ins era del cs s = Some (s', oks) \<and> valid s' \<and>
    (rel s', oks) = spec_calls cs (rel s)"
  using assms
proof (induction cs arbitrary: s)
  case Nil
  then show ?case by simp
next
  case (Cons c cs)
  have room: "int (nodes s) + 2 \<le> node_limit" using Cons.prems(2) by simp
  show ?case
  proof (cases c)
    case (Add_Edge p q)
    obtain s1 g s2 h where s2: "gid t p s = Some (s1, g)" "gid t q s1 = Some (s2, h)" "valid s2"
      "ids s2 p = Some g" "ids s2 q = Some h" "rel s2 = rel s" "nodes s2 \<le> nodes s + 2"
      using two_ids [OF Cons.prems(1) room, of t p q] by blast
    obtain s3 ok where s3: "ins g h s2 = Some (s3, ok)" "valid s3"
      "(rel s3, ok) = spec_add p q (rel s2)" "nodes s3 = nodes s2"
      using ins_law [OF s2(3-5)] by blast
    have "int (nodes s3 + 2 * length cs) \<le> node_limit" using Cons.prems(2) s2(7) s3(4) by simp
    from Cons.IH [OF s3(2) this] obtain s' oks where "run_calls (gid t) ins era del cs s3 = Some (s', oks)"
      "valid s'" "(rel s', oks) = spec_calls cs (rel s3)" by blast
    then show ?thesis
      using s2 s3 Add_Edge by (auto simp: Let_def split: prod.splits)
  next
    case (Drop_Edge p q)
    obtain s1 g s2 h where s2: "gid t p s = Some (s1, g)" "gid t q s1 = Some (s2, h)" "valid s2"
      "ids s2 p = Some g" "ids s2 q = Some h" "rel s2 = rel s" "nodes s2 \<le> nodes s + 2"
      using two_ids [OF Cons.prems(1) room, of t p q] by blast
    obtain s3 where s3: "(if p = q then Some s2 else era g h s2) = Some s3" "valid s3"
      "rel s3 = (if p = q then rel s2 else rel s2 - {(p, q)})" "nodes s3 = nodes s2"
      using era_law [OF s2(3-5)] s2(3) by (cases "p = q") auto
    have "int (nodes s3 + 2 * length cs) \<le> node_limit" using Cons.prems(2) s2(7) s3(4) by simp
    moreover have "run_calls (gid t) ins era del (c # cs) s = run_calls (gid t) ins era del cs s3"
      using s2(1,2) s3(1) by (simp add: Drop_Edge)
    moreover have "spec_calls (c # cs) (rel s) = spec_calls cs (rel s3)"
      by (simp add: Drop_Edge s3(3) s2(6))
    ultimately show ?thesis using Cons.IH [OF s3(2)] by presburger
  next
    case (Drop_Node p)
    obtain s1 where s1: "del p s = Some s1" "valid s1"
      "rel s1 = {(a, b). (a, b) \<in> rel s \<and> a \<noteq> p \<and> b \<noteq> p}" "nodes s1 = nodes s"
      using del_law [OF Cons.prems(1)] by blast
    have "int (nodes s1 + 2 * length cs) \<le> node_limit" using Cons.prems(2) s1(4) by simp
    from Cons.IH [OF s1(2) this] show ?thesis using s1(1,3) Drop_Node by simp
  qed
qed

lemma look_known:
  assumes "valid s" "i \<in> known s"
  obtains p where "ptr s i = Some p" "ids s p = Some i \<or> (p = 0 \<and> (\<forall>q. ids s q \<noteq> Some i))"
proof (cases "\<exists>p. ids s p = Some i")
  case True
  then show ?thesis using that ptr_law(1) [OF assms] by blast
next
  case False
  then show ?thesis using that [of 0] ptr_law(2) [OF assms] by blast
qed

lemma look_same:
  assumes "valid s" "valid s'" "ids s' = ids s" "known s' = known s" "i \<in> known s"
  shows "ptr s' i = ptr s i"
proof -
  have i': "i \<in> known s'" using assms(4,5) by simp
  show ?thesis
  proof (cases "\<exists>p. ids s p = Some i")
    case True
    then show ?thesis using ptr_law(1) [OF assms(1,5)] ptr_law(1) [OF assms(2) i'] assms(3) by fastforce
  next
    case False
    then show ?thesis using ptr_law(2) [OF assms(1,5)] ptr_law(2) [OF assms(2) i'] assms(3) by simp
  qed
qed

lemma acquire_spec:
  assumes "valid s" "ids s mu = Some me" "set js \<subseteq> known s"
  defines "ps \<equiv> held_before (ptr s) me js" and "bad \<equiv> \<lambda>p. (mu, p) \<in> (rel s)\<^sup>*"
  shows "\<exists>s' refused. acquire_edges ptr ins me js s = Some (s', refused) \<and> valid s' \<and>
    ids s' = ids s \<and> known s' = known s \<and> nodes s' = nodes s \<and>
    rel s' = rel s \<union> set (takeWhile (\<lambda>p. \<not> bad p) ps) \<times> {mu} \<and>
    refused = Option.bind (find bad ps) (ids s)"
  using assms(1-3) unfolding ps_def bad_def
proof (induction js arbitrary: s)
  case Nil
  then show ?case by simp
next
  case (Cons i js)
  have i: "i \<in> known s" and js: "set js \<subseteq> known s" using Cons.prems(3) by simp_all
  obtain p where p: "ptr s i = Some p" "ids s p = Some i \<or> (p = 0 \<and> (\<forall>q. ids s q \<noteq> Some i))"
    by (rule look_known [OF Cons.prems(1) i])
  consider "p = 0" | "p \<noteq> 0" "i = me" | "p \<noteq> 0" "i \<noteq> me" by blast
  then show ?case
  proof cases
    case 1
    then show ?thesis using Cons.IH [OF Cons.prems(1,2) js] p(1) by simp
  next
    case 2
    then show ?thesis using Cons.prems(1) p(1) by simp
  next
    case 3
    then have pi: "ids s p = Some i" using p(2) by simp
    obtain s1 ok where s1: "ins i me s = Some (s1, ok)" "valid s1"
      "(rel s1, ok) = spec_add p mu (rel s)" "ids s1 = ids s" "known s1 = known s" "nodes s1 = nodes s"
      using ins_law [OF Cons.prems(1) pi Cons.prems(2)] by blast
    show ?thesis
    proof (cases "(mu, p) \<in> (rel s)\<^sup>*")
      case True
      then have "ok = False" "rel s1 = rel s" using s1(3) by (simp_all add: spec_add_def)
      then show ?thesis using 3 p(1) pi s1 True by simp
    next
      case False
      then have ok: "ok" and r1: "rel s1 = insert (p, mu) (rel s)" using s1(3) by (simp_all add: spec_add_def)
      have m1: "ids s1 mu = Some me" and k1: "set js \<subseteq> known s1"
        using Cons.prems(2) js s1(4,5) by simp_all
      have same: "held_before (ptr s1) me js = held_before (ptr s) me js"
        using look_same [OF Cons.prems(1) s1(2,4,5)] js by (intro held_before_cong) blast
      have reach: "(mu, q) \<in> (rel s1)\<^sup>* \<longleftrightarrow> (mu, q) \<in> (rel s)\<^sup>*" for q
        unfolding r1 by (rule reach_edge_into)
      have "acquire_edges ptr ins me (i # js) s = acquire_edges ptr ins me js s1"
        using 3 p(1) s1(1) ok by simp
      then show ?thesis
        using Cons.IH [OF s1(2) m1 k1, unfolded same reach] 3 p(1) pi s1(4-6) False r1 by auto
    qed
  qed
qed

end

abbreviation node_count :: "rep \<Rightarrow> nat" where
  "node_count r \<equiv> length (r_nodes r)"

interpretation graph: order_graph get_id insert_edge remove_edge remove_node ptr_of id_of issued arcs
  node_count rep_inv
proof
  fix s t p assume "rep_inv s" "int (node_count s) < node_limit"
  then obtain s' g where g: "get_id t p s = Some (s', g)" "got_id s p s' g"
    using get_id_correct by blast
  have "id_of s p \<noteq> None \<longrightarrow> id_of s p = Some g"
  proof
    assume "id_of s p \<noteq> None"
    then have "p \<in> vertices s"
      using id_of_None [OF \<open>rep_inv s\<close>, of p] by (cases "p \<in> vertices s") auto
    then have "s' = s" using g(2) by (simp add: got_id_def)
    moreover have "id_of s' p = Some g" using g(2) by (simp add: got_id_def)
    ultimately show "id_of s p = Some g" by simp
  qed
  then show "\<exists>s' g. get_id t p s = Some (s', g) \<and> rep_inv s' \<and> id_of s' = (id_of s)(p \<mapsto> g) \<and>
      arcs s' = arcs s \<and> issued s \<subseteq> issued s' \<and> g \<in> issued s' \<and>
      node_count s' \<le> node_count s + 1 \<and> g \<noteq> invalid_graph_id \<and>
      (id_of s p \<noteq> None \<longrightarrow> id_of s p = Some g)"
    using g unfolding got_id_def by blast
next
  fix s p g q h assume a: "rep_inv s" "id_of s p = Some g" "id_of s q = Some h"
  obtain s' ok where s': "insert_edge g h s = Some (s', ok)" "rep_inv s'"
    "ok \<longleftrightarrow> (q, p) \<notin> (arcs s)\<^sup>*" "arcs s' = (if ok then insert (p, q) (arcs s) else arcs s)"
    "same_vertices s s'" "map core (r_nodes s') = map core (r_nodes s)"
    using insert_edge_live [OF a] by blast
  have "node_count s' = node_count s" by (rule core_length [OF s'(6)])
  then show "\<exists>s' ok. insert_edge g h s = Some (s', ok) \<and> rep_inv s' \<and>
      (arcs s', ok) = spec_add p q (arcs s) \<and> id_of s' = id_of s \<and> issued s' = issued s \<and>
      node_count s' = node_count s"
    using s' by (auto simp: same_vertices_def spec_add_def)
next
  fix s p g q h assume a: "rep_inv s" "id_of s p = Some g" "id_of s q = Some h" "p \<noteq> q"
  then show "\<exists>s'. remove_edge g h s = Some s' \<and> rep_inv s' \<and> arcs s' = arcs s - {(p, q)} \<and>
      id_of s' = id_of s \<and> issued s' = issued s \<and> node_count s' = node_count s"
    using remove_edge_live [OF a] by (simp add: same_vertices_def) blast
next
  fix s p assume inv: "rep_inv s"
  obtain s' where "remove_node p s = Some s'" "removed s p s'" "node_count s' = node_count s"
    using remove_node_correct [OF inv] by blast
  then show "\<exists>s'. remove_node p s = Some s' \<and> rep_inv s' \<and>
      arcs s' = {(a, b). (a, b) \<in> arcs s \<and> a \<noteq> p \<and> b \<noteq> p} \<and>
      id_of s' = (id_of s)(p := None) \<and> issued s' = issued s \<and> node_count s' = node_count s"
    unfolding removed_def by blast
next
  fix s g p assume "rep_inv s" "g \<in> issued s" "id_of s p = Some g"
  then show "ptr_of s g = Some p" by (rule ptr_of_spec(1))
next
  fix s g assume "rep_inv s" "g \<in> issued s" "\<forall>p. id_of s p \<noteq> Some g"
  then show "ptr_of s g = Some 0" by (rule ptr_of_spec(2))
next
  fix s p g q assume a: "rep_inv s" "id_of s p = Some g"
  obtain x where "x < length (r_nodes s)" "node_index g = int x" by (rule id_of_node [OF a])
  then have "g \<in> issued s" using rep_invD(5) [OF a(1)] by (simp add: issued_def idx_of_nat)
  then show "g \<in> issued s \<and> (id_of s q = Some g \<longrightarrow> q = p)" using id_of_inj [OF a(1)] a(2) by blast
next
  fix s assume "rep_inv s"
  then show "acyclic (arcs s)" by (rule arcs_acyclic)
qed

end
