(* ===== verification/Graph_Properties.thy ===== *)
theory Graph_Properties
  imports Graph_Interface
begin

text \<open>
  Example states of the graph and the properties of \<^verbatim>\<open>GraphCycles\<close> for every state that satisfies
  \<open>rep_inv\<close>. The examples are built by the operations themselves: two locks with an id each, then
  the edge from the first to the second.
\<close>

declare chain_find.simps [code] chain_remove.simps [code] find_index_loop.simps [code]
  forward_loop.simps [code] backward_loop.simps [code] find_path_loop.simps [code]

section \<open>Example states\<close>

definition lock_a :: ptr where "lock_a = 4096"
definition lock_b :: ptr where "lock_b = 8192"

definition one_lock :: rep where
  "one_lock = fst (the (get_id 1 lock_a rep_init))"

definition two_locks :: rep where
  "two_locks = fst (the (get_id 1 lock_b one_lock))"

definition id_a :: u64 where "id_a = snd (the (get_id 1 lock_a rep_init))"
definition id_b :: u64 where "id_b = snd (the (get_id 1 lock_b one_lock))"

definition ordered_locks :: rep where
  "ordered_locks = fst (the (insert_edge id_a id_b two_locks))"

lemma locks_distinct: "lock_a \<noteq> lock_b"
  by (simp add: lock_a_def lock_b_def)

lemma rep_init_nodes [simp]: "r_nodes rep_init = []"
  by (simp add: rep_init_def)

lemma one_lock_spec: "got_id rep_init lock_a one_lock id_a"
proof -
  have "\<exists>r g. get_id 1 lock_a rep_init = Some (r, g) \<and> got_id rep_init lock_a r g"
    by (rule get_id_correct) (simp_all add: rep_init_inv node_limit_def rep_init_nodes)
  then show ?thesis by (auto simp: one_lock_def id_a_def)
qed

lemma two_locks_got: "got_id one_lock lock_b two_locks id_b"
proof -
  have "\<exists>r g. get_id 1 lock_b one_lock = Some (r, g) \<and> got_id one_lock lock_b r g"
    using one_lock_spec
    by (intro get_id_correct) (simp_all add: got_id_def node_limit_def rep_init_nodes)
  then show ?thesis by (auto simp: two_locks_def id_b_def)
qed

lemma two_locks_spec:
  "rep_inv two_locks" "id_of two_locks lock_a = Some id_a" "id_of two_locks lock_b = Some id_b"
  "arcs two_locks = {}" "node_count two_locks \<le> 2" "vertices two_locks = {lock_a, lock_b}"
  using one_lock_spec two_locks_got locks_distinct
  by (auto simp: got_id_def rep_init_inv(2,3))

lemma ordered_locks_spec:
  "rep_inv ordered_locks" "id_of ordered_locks lock_a = Some id_a"
  "id_of ordered_locks lock_b = Some id_b" "arcs ordered_locks = {(lock_a, lock_b)}"
proof -
  obtain r ok where r: "insert_edge id_a id_b two_locks = Some (r, ok)" "rep_inv r"
    "ok \<longleftrightarrow> (lock_b, lock_a) \<notin> (arcs two_locks)\<^sup>*"
    "arcs r = (if ok then insert (lock_a, lock_b) (arcs two_locks) else arcs two_locks)"
    "same_vertices two_locks r"
    using insert_edge_live [OF two_locks_spec(1-3)] by blast
  have ok: ok using r(3) locks_distinct by (simp add: two_locks_spec)
  have o: "ordered_locks = r" by (simp add: ordered_locks_def r(1))
  show "rep_inv ordered_locks" "id_of ordered_locks lock_a = Some id_a"
    "id_of ordered_locks lock_b = Some id_b" "arcs ordered_locks = {(lock_a, lock_b)}"
    using r(2,4,5) ok by (simp_all add: o same_vertices_def two_locks_spec)
qed

lemma ordered_path: "(lock_a, lock_b) \<in> (arcs ordered_locks)\<^sup>*"
  by (rule r_into_rtrancl) (simp add: ordered_locks_spec)

section \<open>Properties\<close>

text \<open>C6: InsertEdge between two monitored locks returns, keeps the invariant of the graph, and
  refuses the edge exactly if the ordering relation already leads from the second lock back to the
  first. An accepted edge is the only change of the relation, a refused one changes nothing, and the
  relation stays acyclic.\<close>

theorem insert_edge_refuses_cycles:
  assumes "rep_inv r" "id_of r p = Some g" "id_of r q = Some h"
  shows "\<exists>r' ok. insert_edge g h r = Some (r', ok) \<and> rep_inv r' \<and> acyclic (arcs r') \<and>
    (ok \<longleftrightarrow> (q, p) \<notin> (arcs r)\<^sup>*) \<and>
    arcs r' = (if ok then insert (p, q) (arcs r) else arcs r) \<and> id_of r' = id_of r"
proof -
  obtain r' ok where "insert_edge g h r = Some (r', ok)" "rep_inv r'" "ok \<longleftrightarrow> (q, p) \<notin> (arcs r)\<^sup>*"
    "arcs r' = (if ok then insert (p, q) (arcs r) else arcs r)" "same_vertices r r'"
    using insert_edge_live [OF assms] by blast
  then show ?thesis using arcs_acyclic [of r'] same_verticesD(2) [of r r'] by blast
qed

theorem insert_edge_refuses_cycles_witness:
  "\<exists>r'. insert_edge id_b id_a ordered_locks = Some (r', False) \<and> rep_inv r' \<and>
    arcs r' = {(lock_a, lock_b)}"
  using insert_edge_refuses_cycles [OF ordered_locks_spec(1,3,2)] ordered_path
  by (auto simp: ordered_locks_spec(4))

text \<open>C7: Any sequence of calls of the graph by the monitor (edges after GetId of both ends, removed
  edges, deleted locks), started on the empty graph, returns and computes what the relational
  specification computes: the same set of pairs, the same answer of every InsertEdge, and the
  relation is acyclic at the end.\<close>

theorem graph_calls_refine_relation:
  assumes "int (2 * length cs) \<le> node_limit"
  shows "\<exists>r oks. run_calls (get_id t) insert_edge remove_edge remove_node cs rep_init = Some (r, oks) \<and>
    rep_inv r \<and> (arcs r, oks) = spec_calls cs {} \<and> acyclic (arcs r)"
proof -
  obtain r oks where "run_calls (get_id t) insert_edge remove_edge remove_node cs rep_init = Some (r, oks)"
    "rep_inv r" "(arcs r, oks) = spec_calls cs (arcs rep_init)"
    using graph.calls_refine [OF rep_init_inv(1), of cs t] assms by auto
  then show ?thesis using arcs_acyclic [of r] by (simp add: rep_init_inv(3))
qed

theorem graph_calls_refine_relation_witness:
  "\<exists>r oks. run_calls (get_id 1) insert_edge remove_edge remove_node
      [Add_Edge lock_a lock_b, Add_Edge lock_b lock_a, Drop_Node lock_b] rep_init = Some (r, oks) \<and>
    oks = [True, False] \<and> arcs r = {}"
proof -
  have "spec_calls [Add_Edge lock_a lock_b, Add_Edge lock_b lock_a, Drop_Node lock_b] {} =
      ({}, [True, False])"
    using locks_distinct by (auto simp: spec_add_def)
  then show ?thesis
    using graph_calls_refine_relation
        [of "[Add_Edge lock_a lock_b, Add_Edge lock_b lock_a, Drop_Node lock_b]" 1]
    by (auto simp: node_limit_def)
qed

text \<open>C8: GetId never fails while the node table has room: the lock gets a non-zero id, a known lock
  keeps its id and the graph is unchanged, and no other lock's id and no ordering pair changes.\<close>

theorem get_id_assigns:
  assumes "rep_inv r" "int (length (r_nodes r)) < node_limit"
  shows "\<exists>r' g. get_id t p r = Some (r', g) \<and> rep_inv r' \<and> id_of r' = (id_of r)(p \<mapsto> g) \<and>
    g \<noteq> invalid_graph_id \<and> ptr_of r' g = Some p \<and> arcs r' = arcs r \<and> (p \<in> vertices r \<longrightarrow> r' = r)"
proof -
  obtain r' g where g: "get_id t p r = Some (r', g)" "got_id r p r' g"
    using get_id_correct [OF assms] by blast
  then have "ptr_of r' g = Some p" by (intro ptr_of_spec(1)) (simp_all add: got_id_def)
  then show ?thesis using g by (auto simp: got_id_def)
qed

theorem get_id_assigns_witness:
  "\<exists>r' g. get_id 7 12288 two_locks = Some (r', g) \<and> ptr_of r' g = Some 12288 \<and>
    id_of r' lock_a = Some id_a"
proof -
  have "int (length (r_nodes two_locks)) < node_limit"
    using two_locks_spec(5) by (simp add: node_limit_def)
  from get_id_assigns [OF two_locks_spec(1) this, of 7 12288] show ?thesis
    using two_locks_spec(2) by (auto simp: lock_a_def)
qed

text \<open>C9: RemoveNode of a lock always returns; the lock, its pairs and its id are gone, all others are
  kept, and the old id of the lock is expired: Ptr gives the null pointer for it.\<close>

theorem remove_node_expires_id:
  assumes "rep_inv r" "id_of r p = Some g"
  shows "\<exists>r'. remove_node p r = Some r' \<and> rep_inv r' \<and> id_of r' = (id_of r)(p := None) \<and>
    arcs r' = {(a, b). (a, b) \<in> arcs r \<and> a \<noteq> p \<and> b \<noteq> p} \<and> ptr_of r' g = Some 0"
proof -
  obtain r' where r': "remove_node p r = Some r'" "removed r p r'"
    using remove_node_correct [OF assms(1)] by blast
  have "g \<in> issued r" using graph.ids_law [OF assms] by blast
  moreover have "\<forall>q. id_of r' q \<noteq> Some g"
  proof
    fix q show "id_of r' q \<noteq> Some g"
      using id_of_inj [OF assms(1) assms(2), of q] r'(2) by (cases "q = p") (auto simp: removed_def)
  qed
  ultimately have "ptr_of r' g = Some 0" using r'(2) by (intro ptr_of_spec(2)) (auto simp: removed_def)
  then show ?thesis using r' by (auto simp: removed_def)
qed

theorem remove_node_expires_id_witness:
  "\<exists>r'. remove_node lock_a ordered_locks = Some r' \<and> ptr_of r' id_a = Some 0 \<and> arcs r' = {} \<and>
    id_of r' lock_b = Some id_b"
  using remove_node_expires_id [OF ordered_locks_spec(1,2)] locks_distinct
  by (auto simp: ordered_locks_spec(3,4))

text \<open>C10: FindPath between two monitored locks returns, changes nothing but its scratch stack, reports
  length 0 exactly if no path exists, and otherwise the length of a simple path along the relation
  from the first to the second lock whose ids fill the caller's array as far as it reaches.\<close>

theorem find_path_finds_path:
  assumes "rep_inv r" "id_of r p = Some g" "id_of r q = Some h" "maxlen = int (length path)"
  shows "\<exists>st path' len. find_path g h maxlen path r = Some (r\<lparr>r_stack := st\<rparr>, path', len) \<and>
    length path' = length path \<and> path_found r p q path' len"
  by (rule find_path_live [OF assms])

theorem find_path_finds_path_witness:
  "\<exists>st path' len. find_path id_a id_b 10 (replicate 10 0) ordered_locks =
      Some (ordered_locks\<lparr>r_stack := st\<rparr>, path', len) \<and> path_found ordered_locks lock_a lock_b path' len"
  using find_path_finds_path [OF ordered_locks_spec(1-3), of 10 "replicate 10 0"] by auto

text \<open>IsReachable decides reachability in the ordering relation, and always returns.\<close>

theorem is_reachable_decides:
  assumes "rep_inv r" "id_of r p = Some g" "id_of r q = Some h"
  shows "map_option snd (is_reachable g h r) = Some ((p, q) \<in> (arcs r)\<^sup>*)"
  using is_reachable_live [OF assms] by auto

theorem is_reachable_decides_witness:
  "map_option snd (is_reachable id_a id_b ordered_locks) = Some True"
  using is_reachable_decides [OF ordered_locks_spec(1-3)] ordered_path by simp

text \<open>C11: In every state that satisfies the invariant, and so after every sequence of operations,
  the graph's own self check CheckInvariants reports nothing: every pointer is found in the hash
  table, no mark is left, the ranks are distinct and increase along every edge.\<close>

theorem check_invariants_passes: "rep_inv r \<Longrightarrow> check_invariants r = Some []"
  by (rule check_invariants_ok)

theorem check_invariants_passes_witness: "check_invariants ordered_locks = Some []"
  by (rule check_invariants_passes [OF ordered_locks_spec(1)])

text \<open>A node added to the pointer map is found under its pointer, no other entry is lost, and
  removing the pointer again returns the index of the node and leaves the pointer unknown; both loops
  along the chains end.\<close>

theorem pointer_map_roundtrip:
  assumes inv: "pm_inv nodes ht used" and len: "length nodes < 2 ^ 31"
    and x: "x < length nodes" "x \<notin> used" "n_ptr (nodes ! x) = p"
    and fresh: "\<forall>y\<in>used. n_ptr (nodes ! y) \<noteq> p"
  shows "\<exists>nodes1 ht1 nodes2 ht2. pm_add p (int x) nodes ht = Some (nodes1, ht1) \<and>
    pm_find nodes1 ht1 p = Some (int x) \<and>
    (\<forall>y\<in>used. pm_find nodes1 ht1 (n_ptr (nodes ! y)) = Some (int y)) \<and>
    pm_remove p nodes1 ht1 = Some (nodes2, ht2, int x) \<and> pm_find nodes2 ht2 p = Some (-1)"
proof -
  let ?n1 = "nodes[x := (nodes ! x)\<lparr>n_next := ht (ptr_hash p)\<rparr>]"
  obtain ht1 where add: "pm_add p (int x) nodes ht = Some (?n1, ht1)"
    and inv1: "pm_inv ?n1 ht1 (insert x used)"
    using pm_add_spec [OF inv len x fresh] by blast
  have len1: "length ?n1 < 2 ^ 31" using len by simp
  have px: "n_ptr (?n1 ! x) = p" using x by simp
  have py: "n_ptr (?n1 ! y) = n_ptr (nodes ! y)" if "y \<in> used" for y
    using that x(2) by (cases "y = x") auto
  have fx: "pm_find ?n1 ht1 p = Some (int x)"
    using pm_find_spec(1) [OF inv1 len1 _ px] by simp
  have fy: "\<forall>y\<in>used. pm_find ?n1 ht1 (n_ptr (nodes ! y)) = Some (int y)"
    using pm_find_spec(1) [OF inv1 len1] py by simp
  obtain nodes2 ht2 where rem: "pm_remove p ?n1 ht1 = Some (nodes2, ht2, int x)"
    and same: "map forget_next nodes2 = map forget_next ?n1"
    and inv2: "pm_inv nodes2 ht2 (insert x used - {x})"
    using pm_remove_spec [OF inv1 len1 _ px] by blast
  have len2: "length nodes2 = length ?n1" using arg_cong [OF same, of length] by simp
  have "n_ptr (nodes2 ! y) \<noteq> p" if "y \<in> insert x used - {x}" for y
  proof -
    have y: "y \<in> used" "y < length ?n1" using that pm_inv_less [OF inv1, of y] by auto
    have "forget_next (nodes2 ! y) = forget_next (?n1 ! y)"
      using arg_cong [OF same, of "\<lambda>xs. xs ! y"] y(2) len2 by simp
    then have "n_ptr (forget_next (nodes2 ! y)) = n_ptr (forget_next (?n1 ! y))" by (simp only:)
    then have "n_ptr (nodes2 ! y) = n_ptr (?n1 ! y)" by (simp add: forget_next_def del: nth_list_update)
    then show ?thesis using py [OF y(1)] fresh y(1) by simp
  qed
  then have "pm_find nodes2 ht2 p = Some (-1)"
    using pm_find_spec(2) [OF inv2] len1 len2 by simp
  then show ?thesis using add fx fy rem by blast
qed

theorem pointer_map_roundtrip_witness:
  "\<exists>nodes1 ht1 nodes2 ht2.
    pm_add lock_a 0 [node_init\<lparr>n_ptr := lock_a\<rparr>] empty_heads = Some (nodes1, ht1) \<and>
    pm_find nodes1 ht1 lock_a = Some 0 \<and> pm_remove lock_a nodes1 ht1 = Some (nodes2, ht2, 0) \<and>
    pm_find nodes2 ht2 lock_a = Some (-1)"
  using pointer_map_roundtrip [of "[node_init\<lparr>n_ptr := lock_a\<rparr>]" empty_heads "{}" 0 lock_a]
    pm_inv_append [OF pm_inv_empty, of "node_init\<lparr>n_ptr := lock_a\<rparr>"] by auto

end
