(* ===== verification/Text.thy ===== *)
theory Text
  imports Prelude
begin

text \<open>
  Strings as the program builds them with \<^verbatim>\<open>fmt::format\<close>: decimal and hexadecimal numbers, padding,
  joining, splitting and searching. A \<^verbatim>\<open>std::string\<close> is a \<open>string\<close>; \<^verbatim>\<open>std::string::npos\<close> is \<open>None\<close>.
\<close>

definition nl :: string where
  "nl = [CHR 0x0A]"

section \<open>Numbers\<close>

definition digit_char :: "nat \<Rightarrow> char" where
  "digit_char d = char_of (if d < 10 then 48 + d else 87 + d)"

function digits :: "nat \<Rightarrow> nat \<Rightarrow> string \<Rightarrow> string" where
  "digits b n acc =
     (if n < b \<or> b < 2 then digit_char (n mod b) # acc
      else digits b (n div b) (digit_char (n mod b) # acc))"
  by pat_completeness auto
termination
  by (relation "measure (\<lambda>(b, n, acc). n)") auto

declare digits.simps [simp del]

definition show_nat :: "nat \<Rightarrow> string" where
  "show_nat n = digits 10 n []"

definition show_int :: "int \<Rightarrow> string" where
  "show_int i = (if i < 0 then CHR ''-'' # show_nat (nat (- i)) else show_nat (nat i))"

text \<open>\<^verbatim>\<open>fmt\<close> prints a \<^verbatim>\<open>void*\<close> as a hexadecimal number with prefix \<^verbatim>\<open>0x\<close>.\<close>

definition show_ptr :: "ptr \<Rightarrow> string" where
  "show_ptr p = ''0x'' @ digits 16 (unat p) []"

definition show_bool :: "bool \<Rightarrow> string" where
  "show_bool b = (if b then ''true'' else ''false'')"

text \<open>The replacement fields \<^verbatim>\<open>{:7}\<close> and \<^verbatim>\<open>{:>10}\<close>: padding on the right and on the left.\<close>

definition pad_right :: "nat \<Rightarrow> string \<Rightarrow> string" where
  "pad_right w s = s @ replicate (w - length s) CHR '' ''"

definition pad_left :: "nat \<Rightarrow> string \<Rightarrow> string" where
  "pad_left w s = replicate (w - length s) CHR '' '' @ s"

section \<open>Reading numbers back\<close>

definition is_digit :: "char \<Rightarrow> bool" where
  "is_digit c \<longleftrightarrow> 48 \<le> (of_char c :: nat) \<and> (of_char c :: nat) \<le> 57"

definition digit_value :: "char \<Rightarrow> nat" where
  "digit_value c = of_char c - 48"

definition read_nat :: "string \<Rightarrow> nat" where
  "read_nat s = foldl (\<lambda>n c. 10 * n + digit_value c) 0 s"

lemma digit_char_value: "d < 10 \<Longrightarrow> is_digit (digit_char d) \<and> digit_value (digit_char d) = d"
  by (simp add: is_digit_def digit_char_def digit_value_def)

lemma foldl_digits:
  "foldl (\<lambda>n c. 10 * n + digit_value c) 0 (digits 10 n acc) =
     foldl (\<lambda>n c. 10 * n + digit_value c) n acc"
proof (induction "10::nat" n acc rule: digits.induct)
  case (1 n acc)
  then show ?case
    by (subst digits.simps) (auto simp: digit_char_value)
qed

lemma read_show_nat: "read_nat (show_nat n) = n"
  by (simp add: read_nat_def show_nat_def foldl_digits)

lemma digits_all_digits: "list_all is_digit acc \<Longrightarrow> list_all is_digit (digits 10 n acc)"
proof (induction "10::nat" n acc rule: digits.induct)
  case (1 n acc)
  then show ?case by (subst digits.simps) (auto simp: digit_char_value)
qed

lemma digits_nonempty: "digits b n acc \<noteq> []"
proof (induction b n acc rule: digits.induct)
  case (1 b n acc)
  then show ?case by (subst digits.simps) auto
qed

lemma show_nat_digits: "list_all is_digit (show_nat n)" "show_nat n \<noteq> []"
  unfolding show_nat_def by (simp add: digits_all_digits, rule digits_nonempty)

lemma show_nat_inj: "show_nat m = show_nat n \<longleftrightarrow> m = n"
  by (metis read_show_nat)

section \<open>Searching and splitting\<close>

text \<open>\<^verbatim>\<open>std::string::find\<close> of one character.\<close>

fun find_char :: "char \<Rightarrow> string \<Rightarrow> nat option" where
  "find_char c [] = None"
| "find_char c (x # xs) = (if x = c then Some 0 else map_option Suc (find_char c xs))"

text \<open>\<^verbatim>\<open>boost::split\<close> with \<^verbatim>\<open>boost::is_any_of\<close> one separator: empty tokens are kept.\<close>

fun split_at :: "char \<Rightarrow> string \<Rightarrow> string list" where
  "split_at c [] = [[]]"
| "split_at c (x # xs) =
     (if x = c then [] # split_at c xs
      else case split_at c xs of [] \<Rightarrow> [[x]] | t # ts \<Rightarrow> (x # t) # ts)"

fun join :: "string \<Rightarrow> string list \<Rightarrow> string" where
  "join sep [] = []"
| "join sep [x] = x"
| "join sep (x # y # ys) = x @ sep @ join sep (y # ys)"

text \<open>\<^verbatim>\<open>boost::to_lower_copy\<close> in the classic locale.\<close>

definition lower_char :: "char \<Rightarrow> char" where
  "lower_char c = (if 65 \<le> (of_char c :: nat) \<and> (of_char c :: nat) \<le> 90 then char_of (of_char c + 32 :: nat) else c)"

definition to_lower :: "string \<Rightarrow> string" where
  "to_lower s = map lower_char s"

definition starts_with :: "string \<Rightarrow> string \<Rightarrow> bool" where
  "starts_with s p \<longleftrightarrow> take (length p) s = p"

lemma split_at_nonempty: "split_at c s \<noteq> []"
  by (induction s) (auto split: list.splits)

lemma join_split: "join [c] (split_at c s) = s"
proof (induction s)
  case (Cons x xs)
  then show ?case
    using split_at_nonempty [of c xs]
    by (cases "split_at c xs") (auto simp: neq_Nil_conv, (case_tac list; auto)+)
qed simp

lemma split_at_no_separator: "t \<in> set (split_at c s) \<Longrightarrow> c \<notin> set t"
  by (induction s arbitrary: t) (auto split: list.splits if_splits)

lemma find_char_None: "find_char c s = None \<longleftrightarrow> c \<notin> set s"
  by (induction s) auto

lemma find_char_Some:
  "find_char c s = Some i \<Longrightarrow> i < length s \<and> s ! i = c \<and> c \<notin> set (take i s)"
  by (induction s arbitrary: i) (auto split: if_splits)

lemma starts_with_append: "starts_with (p @ s) p"
  by (simp add: starts_with_def)

end
