(* ===== verification/Leak_Types.thy ===== *)
theory Leak_Types
  imports Text
begin

text \<open>
  The enumerations of \<^verbatim>\<open>buginsight_dll/leak_check/leak_types.hpp\<close> and their names
  (\<^verbatim>\<open>leak_types.cpp\<close>). The constructors carry the source's names; \<open>api_index\<close> is the value of the
  underlying \<^verbatim>\<open>uint8_t\<close>, used as an index by the leak report.
\<close>

section \<open>Monitored functions\<close>

datatype (plugins only: code) api_function =
    e_unknown | e_HeapCreate | e_HeapDestroy | e_HeapAlloc | e_HeapReAlloc | e_HeapFree |
    e_malloc | e__malloc_dbg | e_realloc | e__realloc_dbg | e_calloc | e__calloc_dbg |
    e__recalloc | e__recalloc_dbg | e__strdup | e__strdup_dbg | e__wcsdup | e__wcsdup_dbg |
    e__expand | e__expand_dbg | e_free | e__free_dbg | e__getcwd | e__getcwd_dbg | e__wgetcwd |
    e__wgetcwd_dbg | e__getdcwd | e__getdcwd_dbg | e__wgetdcwd | e__wgetdcwd_dbg | e__tempnam |
    e__tempnam_dbg | e__wtempnam | e__wtempnam_dbg | e__dupenv_s | e__dupenv_s_dbg |
    e__wdupenv_s | e__wdupenv_s_dbg | e__fullpath | e__fullpath_dbg | e__wfullpath |
    e__wfullpath_dbg | e__aligned_malloc | e__aligned_malloc_dbg | e__aligned_offset_malloc |
    e__aligned_offset_malloc_dbg | e__aligned_offset_realloc | e__aligned_offset_realloc_dbg |
    e__aligned_offset_recalloc | e__aligned_offset_recalloc_dbg | e__aligned_realloc |
    e__aligned_realloc_dbg | e__aligned_recalloc | e__aligned_recalloc_dbg | e__aligned_free |
    e__aligned_free_dbg | e_localalloc | e_localrealloc | e_localfree | e_globalalloc |
    e_globrealalloc | e_globalfree | e_FormatMessageA | e_FormatMessageW |
    e_CommandLineToArgvW | e_ConvertSidToStringSidW | e_ConvertSidToStringSidA |
    e_ConvertStringSidToSidW | e_ConvertStringSidToSidA | e_CryptProtectData |
    e_CryptUnprotectData | e_GetNamedSecurityInfoW | e_GetNamedSecurityInfoA |
    e_SetEntriesInAclA | e_SetEntriesInAclW | e_AllocateAndInitializeSid | e_FreeSid |
    e_GetSecurityInfo | e_StrDupA | e_StrDupW

primrec api_index :: "api_function \<Rightarrow> nat" where
  "api_index e_unknown = 0"
| "api_index e_HeapCreate = 1"
| "api_index e_HeapDestroy = 2"
| "api_index e_HeapAlloc = 3"
| "api_index e_HeapReAlloc = 4"
| "api_index e_HeapFree = 5"
| "api_index e_malloc = 6"
| "api_index e__malloc_dbg = 7"
| "api_index e_realloc = 8"
| "api_index e__realloc_dbg = 9"
| "api_index e_calloc = 10"
| "api_index e__calloc_dbg = 11"
| "api_index e__recalloc = 12"
| "api_index e__recalloc_dbg = 13"
| "api_index e__strdup = 14"
| "api_index e__strdup_dbg = 15"
| "api_index e__wcsdup = 16"
| "api_index e__wcsdup_dbg = 17"
| "api_index e__expand = 18"
| "api_index e__expand_dbg = 19"
| "api_index e_free = 20"
| "api_index e__free_dbg = 21"
| "api_index e__getcwd = 22"
| "api_index e__getcwd_dbg = 23"
| "api_index e__wgetcwd = 24"
| "api_index e__wgetcwd_dbg = 25"
| "api_index e__getdcwd = 26"
| "api_index e__getdcwd_dbg = 27"
| "api_index e__wgetdcwd = 28"
| "api_index e__wgetdcwd_dbg = 29"
| "api_index e__tempnam = 30"
| "api_index e__tempnam_dbg = 31"
| "api_index e__wtempnam = 32"
| "api_index e__wtempnam_dbg = 33"
| "api_index e__dupenv_s = 34"
| "api_index e__dupenv_s_dbg = 35"
| "api_index e__wdupenv_s = 36"
| "api_index e__wdupenv_s_dbg = 37"
| "api_index e__fullpath = 38"
| "api_index e__fullpath_dbg = 39"
| "api_index e__wfullpath = 40"
| "api_index e__wfullpath_dbg = 41"
| "api_index e__aligned_malloc = 42"
| "api_index e__aligned_malloc_dbg = 43"
| "api_index e__aligned_offset_malloc = 44"
| "api_index e__aligned_offset_malloc_dbg = 45"
| "api_index e__aligned_offset_realloc = 46"
| "api_index e__aligned_offset_realloc_dbg = 47"
| "api_index e__aligned_offset_recalloc = 48"
| "api_index e__aligned_offset_recalloc_dbg = 49"
| "api_index e__aligned_realloc = 50"
| "api_index e__aligned_realloc_dbg = 51"
| "api_index e__aligned_recalloc = 52"
| "api_index e__aligned_recalloc_dbg = 53"
| "api_index e__aligned_free = 54"
| "api_index e__aligned_free_dbg = 55"
| "api_index e_localalloc = 56"
| "api_index e_localrealloc = 57"
| "api_index e_localfree = 58"
| "api_index e_globalalloc = 59"
| "api_index e_globrealalloc = 60"
| "api_index e_globalfree = 61"
| "api_index e_FormatMessageA = 62"
| "api_index e_FormatMessageW = 63"
| "api_index e_CommandLineToArgvW = 64"
| "api_index e_ConvertSidToStringSidW = 65"
| "api_index e_ConvertSidToStringSidA = 66"
| "api_index e_ConvertStringSidToSidW = 67"
| "api_index e_ConvertStringSidToSidA = 68"
| "api_index e_CryptProtectData = 69"
| "api_index e_CryptUnprotectData = 70"
| "api_index e_GetNamedSecurityInfoW = 71"
| "api_index e_GetNamedSecurityInfoA = 72"
| "api_index e_SetEntriesInAclA = 73"
| "api_index e_SetEntriesInAclW = 74"
| "api_index e_AllocateAndInitializeSid = 75"
| "api_index e_FreeSid = 76"
| "api_index e_GetSecurityInfo = 77"
| "api_index e_StrDupA = 78"
| "api_index e_StrDupW = 79"

text \<open>\<^verbatim>\<open>e_SIZE\<close>: the number of functions.\<close>

definition api_size :: nat where
  "api_size = 80"

definition all_functions :: "api_function list" where
  "all_functions =
    [e_unknown, e_HeapCreate, e_HeapDestroy, e_HeapAlloc, e_HeapReAlloc, e_HeapFree, e_malloc,
     e__malloc_dbg, e_realloc, e__realloc_dbg, e_calloc, e__calloc_dbg, e__recalloc,
     e__recalloc_dbg, e__strdup, e__strdup_dbg, e__wcsdup, e__wcsdup_dbg, e__expand,
     e__expand_dbg, e_free, e__free_dbg, e__getcwd, e__getcwd_dbg, e__wgetcwd, e__wgetcwd_dbg,
     e__getdcwd, e__getdcwd_dbg, e__wgetdcwd, e__wgetdcwd_dbg, e__tempnam, e__tempnam_dbg,
     e__wtempnam, e__wtempnam_dbg, e__dupenv_s, e__dupenv_s_dbg, e__wdupenv_s,
     e__wdupenv_s_dbg, e__fullpath, e__fullpath_dbg, e__wfullpath, e__wfullpath_dbg,
     e__aligned_malloc, e__aligned_malloc_dbg, e__aligned_offset_malloc,
     e__aligned_offset_malloc_dbg, e__aligned_offset_realloc, e__aligned_offset_realloc_dbg,
     e__aligned_offset_recalloc, e__aligned_offset_recalloc_dbg, e__aligned_realloc,
     e__aligned_realloc_dbg, e__aligned_recalloc, e__aligned_recalloc_dbg, e__aligned_free,
     e__aligned_free_dbg, e_localalloc, e_localrealloc, e_localfree, e_globalalloc,
     e_globrealalloc, e_globalfree, e_FormatMessageA, e_FormatMessageW, e_CommandLineToArgvW,
     e_ConvertSidToStringSidW, e_ConvertSidToStringSidA, e_ConvertStringSidToSidW,
     e_ConvertStringSidToSidA, e_CryptProtectData, e_CryptUnprotectData,
     e_GetNamedSecurityInfoW, e_GetNamedSecurityInfoA, e_SetEntriesInAclA, e_SetEntriesInAclW,
     e_AllocateAndInitializeSid, e_FreeSid, e_GetSecurityInfo, e_StrDupA, e_StrDupW]"

lemma map_api_index: "map api_index all_functions = [0..<api_size]"
  by (simp add: all_functions_def api_size_def upt_rec)

lemma all_functions_complete [simp]: "f \<in> set all_functions"
  by (cases f) (simp_all add: all_functions_def)

lemma api_index_bound: "api_index f < api_size"
proof -
  have "api_index f \<in> set (map api_index all_functions)" by simp
  then show ?thesis by (simp add: map_api_index del: set_map)
qed

lemma distinct_all_functions: "distinct all_functions" "length all_functions = api_size"
proof -
  have "distinct (map api_index all_functions)" by (simp add: map_api_index)
  then show "distinct all_functions" unfolding distinct_map by blast
  show "length all_functions = api_size"
    using arg_cong [OF map_api_index, of length] by simp
qed

lemma api_index_inj: "api_index f = api_index g \<longleftrightarrow> f = g"
proof -
  have "distinct (map api_index all_functions)" by (simp add: map_api_index)
  then have "inj_on api_index (set all_functions)" by (simp add: distinct_map)
  then show ?thesis by (auto simp: inj_on_def)
qed

lemma nth_all_functions: "i < api_size \<Longrightarrow> api_index (all_functions ! i) = i"
  using arg_cong [OF map_api_index, of "\<lambda>xs. xs ! i"] distinct_all_functions(2) by simp

lemma all_functions_nth: "all_functions ! api_index f = f"
  using nth_all_functions [OF api_index_bound, of f] by (simp add: api_index_inj)

instantiation api_function :: linorder
begin

definition less_eq_api_function :: "api_function \<Rightarrow> api_function \<Rightarrow> bool" where
  "f \<le> g \<longleftrightarrow> api_index f \<le> api_index g"

definition less_api_function :: "api_function \<Rightarrow> api_function \<Rightarrow> bool" where
  "f < g \<longleftrightarrow> api_index f < api_index g"

instance
  by standard (auto simp: less_eq_api_function_def less_api_function_def api_index_inj)

end

section \<open>Names\<close>

primrec api_function_to_string :: "api_function \<Rightarrow> string" where
  "api_function_to_string e_unknown = ''Unknown''"
| "api_function_to_string e_HeapCreate = ''HeapCreate''"
| "api_function_to_string e_HeapDestroy = ''HeapDestroy''"
| "api_function_to_string e_HeapAlloc = ''HeapAlloc''"
| "api_function_to_string e_HeapReAlloc = ''HeapReAlloc''"
| "api_function_to_string e_HeapFree = ''HeapFree''"
| "api_function_to_string e_malloc = ''malloc''"
| "api_function_to_string e__malloc_dbg = ''_malloc_dbg''"
| "api_function_to_string e_realloc = ''realloc''"
| "api_function_to_string e__realloc_dbg = ''_realloc_dbg''"
| "api_function_to_string e_calloc = ''calloc''"
| "api_function_to_string e__calloc_dbg = ''_calloc_dbg''"
| "api_function_to_string e__recalloc = ''_recalloc''"
| "api_function_to_string e__recalloc_dbg = ''_recalloc_dbg''"
| "api_function_to_string e__strdup = ''_strdup''"
| "api_function_to_string e__strdup_dbg = ''_strdup_dbg''"
| "api_function_to_string e__wcsdup = ''_wcsdup''"
| "api_function_to_string e__wcsdup_dbg = ''_wcsdup_dbg''"
| "api_function_to_string e__expand = ''_expand''"
| "api_function_to_string e__expand_dbg = ''_expand_dbg''"
| "api_function_to_string e_free = ''free''"
| "api_function_to_string e__free_dbg = ''_free_dbg''"
| "api_function_to_string e__getcwd = ''_getcwd''"
| "api_function_to_string e__getcwd_dbg = ''_getcwd_dbg''"
| "api_function_to_string e__wgetcwd = ''_wgetcwd''"
| "api_function_to_string e__wgetcwd_dbg = ''_wgetcwd_dbg''"
| "api_function_to_string e__getdcwd = ''_getdcwd''"
| "api_function_to_string e__getdcwd_dbg = ''_getdcwd_dbg''"
| "api_function_to_string e__wgetdcwd = ''_wgetdcwd''"
| "api_function_to_string e__wgetdcwd_dbg = ''_wgetdcwd_dbg''"
| "api_function_to_string e__tempnam = ''_tempnam''"
| "api_function_to_string e__tempnam_dbg = ''_tempnam_dbg''"
| "api_function_to_string e__wtempnam = ''_wtempnam''"
| "api_function_to_string e__wtempnam_dbg = ''_wtempnam_dbg''"
| "api_function_to_string e__dupenv_s = ''_dupenv_s''"
| "api_function_to_string e__dupenv_s_dbg = ''_dupenv_s_dbg''"
| "api_function_to_string e__wdupenv_s = ''_wdupenv_s''"
| "api_function_to_string e__wdupenv_s_dbg = ''_wdupenv_s_dbg''"
| "api_function_to_string e__fullpath = ''_fullpath''"
| "api_function_to_string e__fullpath_dbg = ''_fullpath_dbg''"
| "api_function_to_string e__wfullpath = ''_wfullpath''"
| "api_function_to_string e__wfullpath_dbg = ''_wfullpath_dbg''"
| "api_function_to_string e__aligned_malloc = ''_aligned_malloc''"
| "api_function_to_string e__aligned_malloc_dbg = ''_aligned_malloc_dbg''"
| "api_function_to_string e__aligned_offset_malloc = ''_aligned_offset_malloc''"
| "api_function_to_string e__aligned_offset_malloc_dbg = ''_aligned_offset_malloc_dbg''"
| "api_function_to_string e__aligned_offset_realloc = ''_aligned_offset_realloc''"
| "api_function_to_string e__aligned_offset_realloc_dbg = ''_aligned_offset_realloc_dbg''"
| "api_function_to_string e__aligned_offset_recalloc = ''_aligned_offset_recalloc''"
| "api_function_to_string e__aligned_offset_recalloc_dbg = ''_aligned_offset_recalloc_dbg''"
| "api_function_to_string e__aligned_realloc = ''_aligned_realloc''"
| "api_function_to_string e__aligned_realloc_dbg = ''_aligned_realloc_dbg''"
| "api_function_to_string e__aligned_recalloc = ''_aligned_recalloc''"
| "api_function_to_string e__aligned_recalloc_dbg = ''_aligned_recalloc_dbg''"
| "api_function_to_string e__aligned_free = ''_aligned_free''"
| "api_function_to_string e__aligned_free_dbg = ''_aligned_free_dbg''"
| "api_function_to_string e_localalloc = ''LocalAlloc''"
| "api_function_to_string e_localrealloc = ''LocalReAlloc''"
| "api_function_to_string e_localfree = ''LocalFree''"
| "api_function_to_string e_globalalloc = ''GlobalAlloc''"
| "api_function_to_string e_globrealalloc = ''GlobalReAlloc''"
| "api_function_to_string e_globalfree = ''GlobalFree''"
| "api_function_to_string e_FormatMessageA = ''FormatMessageA''"
| "api_function_to_string e_FormatMessageW = ''FormatMessageW''"
| "api_function_to_string e_CommandLineToArgvW = ''CommandLineToArgvW''"
| "api_function_to_string e_ConvertSidToStringSidW = ''ConvertSidToStringSidW''"
| "api_function_to_string e_ConvertSidToStringSidA = ''ConvertSidToStringSidA''"
| "api_function_to_string e_ConvertStringSidToSidW = ''ConvertStringSidToSidW''"
| "api_function_to_string e_ConvertStringSidToSidA = ''ConvertStringSidToSidA''"
| "api_function_to_string e_CryptProtectData = ''CryptProtectData''"
| "api_function_to_string e_CryptUnprotectData = ''CryptUnprotectData''"
| "api_function_to_string e_GetNamedSecurityInfoW = ''GetNamedSecurityInfoW''"
| "api_function_to_string e_GetNamedSecurityInfoA = ''GetNamedSecurityInfoA''"
| "api_function_to_string e_SetEntriesInAclA = ''SetEntriesInAclA''"
| "api_function_to_string e_SetEntriesInAclW = ''SetEntriesInAclW''"
| "api_function_to_string e_AllocateAndInitializeSid = ''AllocateAndInitializeSid''"
| "api_function_to_string e_FreeSid = ''FreeSid''"
| "api_function_to_string e_GetSecurityInfo = ''GetSecurityInfo''"
| "api_function_to_string e_StrDupA = '' StrDupA''"
| "api_function_to_string e_StrDupW = '' StrDupW''"

text \<open>The chain of comparisons in \<^verbatim>\<open>api_function_string_to_enum\<close>, in its order.\<close>

definition api_names :: "(string \<times> api_function) list" where
  "api_names =
    [(''heapcreate'', e_HeapCreate),
     (''heapdestroy'', e_HeapDestroy),
     (''heapalloc'', e_HeapAlloc),
     (''heaprealloc'', e_HeapReAlloc),
     (''heapfree'', e_HeapFree),
     (''malloc'', e_malloc),
     (''_malloc_dbg'', e__malloc_dbg),
     (''realloc'', e_realloc),
     (''_realloc_dbg'', e__realloc_dbg),
     (''calloc'', e_calloc),
     (''_calloc_dbg'', e__calloc_dbg),
     (''_recalloc'', e__recalloc),
     (''_recalloc_dbg'', e__recalloc_dbg),
     (''strdup'', e__strdup),
     (''_strdup'', e__strdup),
     (''_strdup_dbg'', e__strdup_dbg),
     (''wcsdup'', e__wcsdup),
     (''_wcsdup'', e__wcsdup),
     (''_wcsdup_dbg'', e__wcsdup_dbg),
     (''_expand'', e__expand),
     (''_expand_dbg'', e__expand_dbg),
     (''free'', e_free),
     (''_free_dbg'', e__free_dbg),
     (''_getcwd'', e__getcwd),
     (''_getcwd_dbg'', e__getcwd_dbg),
     (''_wgetcwd'', e__wgetcwd),
     (''_wgetcwd_dbg'', e__wgetcwd_dbg),
     (''_getdcwd'', e__getdcwd),
     (''_getdcwd_dbg'', e__getdcwd_dbg),
     (''_wgetdcwd'', e__wgetdcwd),
     (''_wgetdcwd_dbg'', e__wgetdcwd_dbg),
     (''_tempnam'', e__tempnam),
     (''_tempnam_dbg'', e__tempnam_dbg),
     (''_wtempnam'', e__wtempnam),
     (''_wtempnam_dbg'', e__wtempnam_dbg),
     (''_aligned_malloc'', e__aligned_malloc),
     (''_aligned_malloc_dbg'', e__aligned_malloc_dbg),
     (''_aligned_offset_malloc'', e__aligned_offset_malloc),
     (''_aligned_offset_malloc_dbg'', e__aligned_offset_malloc_dbg),
     (''_aligned_offset_realloc'', e__aligned_offset_realloc),
     (''_aligned_offset_realloc_dbg'', e__aligned_offset_realloc_dbg),
     (''_aligned_offset_recalloc'', e__aligned_offset_recalloc),
     (''_aligned_offset_recalloc_dbg'', e__aligned_offset_recalloc_dbg),
     (''_aligned_realloc'', e__aligned_realloc),
     (''_aligned_realloc_dbg'', e__aligned_realloc_dbg),
     (''_aligned_recalloc'', e__aligned_recalloc),
     (''_aligned_recalloc_dbg'', e__aligned_recalloc_dbg),
     (''_aligned_free'', e__aligned_free),
     (''_aligned_free_dbg'', e__aligned_free_dbg),
     (''localalloc'', e_localalloc),
     (''localfree'', e_localfree),
     (''localrealloc'', e_localrealloc),
     (''globalalloc'', e_globalalloc),
     (''globalfree'', e_globalfree),
     (''globalrealloc'', e_globrealalloc),
     (''formatmessagea'', e_FormatMessageA),
     (''formatmessagew'', e_FormatMessageW),
     (''commandlinetoargvw'', e_CommandLineToArgvW),
     (''convertsidtostringsidw'', e_ConvertSidToStringSidW),
     (''convertsidtostringsida'', e_ConvertSidToStringSidA),
     (''convertstringsidtosidw'', e_ConvertStringSidToSidW),
     (''convertstringsidtosida'', e_ConvertStringSidToSidA),
     (''cryptprotectdata'', e_CryptProtectData),
     (''cryptunprotectdata'', e_CryptUnprotectData),
     (''getnamedsecurityinfow'', e_GetNamedSecurityInfoW),
     (''getnamedsecurityinfoa'', e_GetNamedSecurityInfoA),
     (''setentriesinacla'', e_SetEntriesInAclA),
     (''setentriesinaclw'', e_SetEntriesInAclW),
     (''allocateandinitializesid'', e_AllocateAndInitializeSid),
     (''freesid'', e_FreeSid),
     (''getsecurityinfo'', e_GetSecurityInfo),
     (''strdupa'', e_StrDupA),
     (''strdupw'', e_StrDupW)]"

definition api_function_string_to_enum :: "string \<Rightarrow> api_function" where
  "api_function_string_to_enum s =
     (case map_of api_names (to_lower s) of Some f \<Rightarrow> f | None \<Rightarrow> e_unknown)"

section \<open>Families\<close>

datatype api_family =
    e_unknow | e_malloc_family | e_aligned_malloc | e_heapapi | e_localalloc_family
  | e_globalalloc_family

primrec api_family_to_string :: "api_family \<Rightarrow> string" where
  "api_family_to_string e_malloc_family = ''malloc''"
| "api_family_to_string e_aligned_malloc = ''_aligned_malloc''"
| "api_family_to_string e_heapapi = ''HeapAlloc''"
| "api_family_to_string e_localalloc_family = ''LocalAlloc''"
| "api_family_to_string e_globalalloc_family = ''GlobalAlloc''"
| "api_family_to_string e_unknow = ''unknow''"

section \<open>Names read back\<close>

text \<open>The functions whose names the chain does not know, and the two names with a leading blank.\<close>

definition unparsed_functions :: "api_function list" where
  "unparsed_functions =
    [e__dupenv_s, e__dupenv_s_dbg, e__wdupenv_s, e__wdupenv_s_dbg, e__fullpath,
     e__fullpath_dbg, e__wfullpath, e__wfullpath_dbg]"

definition blank_functions :: "api_function list" where
  "blank_functions = [e_StrDupA, e_StrDupW]"

lemma names_read_back:
  "list_all (\<lambda>f. f \<in> set unparsed_functions \<or> f \<in> set blank_functions \<or> f = e_unknown \<or>
     api_function_string_to_enum (api_function_to_string f) = f) all_functions"
  by code_simp

lemma names_not_read:
  "list_all (\<lambda>f. api_function_string_to_enum (api_function_to_string f) = e_unknown)
     (unparsed_functions @ blank_functions)"
  by code_simp

end
