(* ===== verification/Reporting.thy ===== *)
theory Reporting
  imports Leak_Types Held_Locks
begin

text \<open>
  User options (\<^verbatim>\<open>shared/shared_settings.hpp\<close>), the log (\<^verbatim>\<open>helper/log.hpp\<close>, \<^verbatim>\<open>log.cpp\<close>) and the
  reports (\<^verbatim>\<open>helper/log_helper.cpp\<close>). The log is the list of messages handed to the logger, each with
  its level. Texts that come from the operating system (symbolised call stacks) are arguments.
\<close>

section \<open>Options\<close>

record blacklist_info =
  m_regex_string :: string
  m_original_string :: string
  m_ignore_memory_leak :: bool
  m_ignore_lock :: bool

datatype on_error_option = On_Error_continue | On_Error_fail | On_Error_fail_on_exit

datatype log_to_debug_out_option = Debug_disabled | Debug_enabled | Debug_enabled_in_debugger

text \<open>The levels of \<^verbatim>\<open>spdlog::level\<close> that the program names, in their order.\<close>

datatype log_level = trace | debug | info | warn | err | critical | off

primrec level_rank :: "log_level \<Rightarrow> nat" where
  "level_rank trace = 0"
| "level_rank debug = 1"
| "level_rank info = 2"
| "level_rank warn = 3"
| "level_rank err = 4"
| "level_rank critical = 5"
| "level_rank off = 6"

lemma level_rank_inj: "level_rank k = level_rank l \<longleftrightarrow> k = l"
  by (cases k; cases l) simp_all

instantiation log_level :: linorder
begin

definition less_eq_log_level :: "log_level \<Rightarrow> log_level \<Rightarrow> bool" where
  "k \<le> l \<longleftrightarrow> level_rank k \<le> level_rank l"

definition less_log_level :: "log_level \<Rightarrow> log_level \<Rightarrow> bool" where
  "k < l \<longleftrightarrow> level_rank k < level_rank l"

instance
  by standard (auto simp: less_eq_log_level_def less_log_level_def level_rank_inj)

end

record user_options =
  m_log_to_file :: string
  m_log_to_stdout :: bool
  m_log_level :: log_level
  m_log_to_debug_out :: log_to_debug_out_option
  m_on_error :: on_error_option
  m_thread_watchdog_enabled :: bool
  m_thread_watchdog_max_duration_sec :: u32
  m_exit_code :: int
  m_ids_to_suppress :: "u64 list"
  m_blacklist_modules_deadlocks :: "blacklist_info list"
  m_blacklist_modules_memory_leaks :: "blacklist_info list"
  m_collect_callstacks :: bool
  m_start_detached :: bool

definition default_options :: user_options where
  "default_options =
     \<lparr>m_log_to_file = [], m_log_to_stdout = True, m_log_level = info,
      m_log_to_debug_out = Debug_enabled_in_debugger, m_on_error = On_Error_fail_on_exit,
      m_thread_watchdog_enabled = True, m_thread_watchdog_max_duration_sec = 30,
      m_exit_code = 66, m_ids_to_suppress = [], m_blacklist_modules_deadlocks = [],
      m_blacklist_modules_memory_leaks = [], m_collect_callstacks = True,
      m_start_detached = False\<rparr>"

section \<open>The log\<close>

type_synonym log = "(log_level \<times> string) list"

text \<open>The macro \<^verbatim>\<open>LOG\<close>: a message below the level of the logger is dropped.\<close>

definition log_msg :: "user_options \<Rightarrow> log_level \<Rightarrow> string \<Rightarrow> log \<Rightarrow> log" where
  "log_msg opts l text lg = (if m_log_level opts \<le> l then lg @ [(l, text)] else lg)"

text \<open>\<^verbatim>\<open>my_formater\<close>; \<open>level_name\<close> is \<^verbatim>\<open>spdlog::level::to_string_view\<close>.\<close>

definition format_line :: "(log_level \<Rightarrow> string) \<Rightarrow> log_level \<Rightarrow> string \<Rightarrow> string" where
  "format_line level_name l text =
     (if l = info then text
      else ''[BugInsight] ['' @ level_name l @ ''] '' @ text @ nl)"

text \<open>Which sinks \<^verbatim>\<open>init_logger\<close> creates; \<open>debugger\<close> is \<^verbatim>\<open>IsDebuggerPresent()\<close>.\<close>

datatype sink = Stdout_Sink | File_Sink string | Debug_Sink

definition init_sinks :: "bool \<Rightarrow> user_options \<Rightarrow> sink list" where
  "init_sinks debugger opts =
     (if m_log_to_stdout opts then [Stdout_Sink] else []) @
     (if m_log_to_file opts \<noteq> [] then [File_Sink (m_log_to_file opts)] else []) @
     (if m_log_to_debug_out opts = Debug_enabled \<or>
         (m_log_to_debug_out opts = Debug_enabled_in_debugger \<and> debugger)
      then [Debug_Sink] else [])"

section \<open>Report texts\<close>

definition quoted :: "string \<Rightarrow> string" where
  "quoted s = [CHR 0x27] @ s @ [CHR 0x27]"

definition report_line :: string where
  "report_line = nl @ nl @ nl @ replicate 106 CHR ''='' @ nl"

definition thread_with_id :: "tid \<Rightarrow> string" where
  "thread_with_id t = ''BugInsight: [error] The thread with ID '' @ quoted (show_nat t)"

definition call_stack_part :: "string \<Rightarrow> string" where
  "call_stack_part callstack = ''Call Stack:'' @ nl @ callstack"

definition construct_hold_locks_string :: "lock_entry list \<Rightarrow> u8 \<Rightarrow> string" where
  "construct_hold_locks_string locks n =
     join '', '' (map (\<lambda>l. show_ptr (lk_mu l)) (take (min (length locks) (unat n)) locks))"

definition build_delete_locked_lock_log_text :: "tid \<Rightarrow> ptr \<Rightarrow> string \<Rightarrow> string" where
  "build_delete_locked_lock_log_text t mu callstack =
     report_line @ thread_with_id t @ '' deletes the lock '' @ quoted (show_ptr mu) @
     '' which the thread probably still holds.'' @ nl @ call_stack_part callstack"

definition build_release_lock_which_thread_does_hold_log_text :: "tid \<Rightarrow> ptr \<Rightarrow> string \<Rightarrow> string" where
  "build_release_lock_which_thread_does_hold_log_text t mu callstack =
     report_line @ thread_with_id t @ '' releasing the lock '' @ quoted (show_ptr mu) @
     '' which is not hold by this thread.'' @ nl @ call_stack_part callstack"

definition build_release_locked_deleted_by_other_thread_log_text ::
  "tid \<Rightarrow> ptr \<Rightarrow> string \<Rightarrow> string" where
  "build_release_locked_deleted_by_other_thread_log_text t mu callstack =
     report_line @ thread_with_id t @ '' releasing the lock '' @ quoted (show_ptr mu) @
     '' which was probably already deleted by an other thread.'' @ nl @ call_stack_part callstack"

definition build_watchdog_error :: "tid \<Rightarrow> bool \<Rightarrow> u64 \<Rightarrow> string" where
  "build_watchdog_error t in_lock duration =
     report_line @ thread_with_id t @
     (if in_lock then '' holds a lock since '' else '' waits to enter a lock since '') @
     show_nat (unat duration) @ '' seconds.'' @ nl"

definition build_max_locks_per_thread_reached_text :: "int \<Rightarrow> tid \<Rightarrow> ptr \<Rightarrow> string \<Rightarrow> string" where
  "build_max_locks_per_thread_reached_text lock_count t mu callstack =
     report_line @ thread_with_id t @ '' already holds '' @ show_int lock_count @
     '' locks. Max number of hold locks per thread reached. '' @ [CHR 0x27] @ ''The lock '' @
     quoted (show_ptr mu) @ '' will be ignored.'' @ nl @ ''Callstack:'' @ nl @ callstack"

definition build_unknown_memory_address_text ::
  "tid \<Rightarrow> api_function \<Rightarrow> ptr \<Rightarrow> string \<Rightarrow> string" where
  "build_unknown_memory_address_text t f p callstack =
     report_line @ thread_with_id t @ '' calls '' @ quoted (api_function_to_string f) @
     '' with unknown memory address '' @ quoted (show_ptr p) @
     ''. Potential double free or memory corruption.'' @ nl @ call_stack_part callstack"

definition build_wrong_api_family_text ::
  "tid \<Rightarrow> api_function \<Rightarrow> api_family \<Rightarrow> api_family \<Rightarrow> ptr \<Rightarrow> string \<Rightarrow> string" where
  "build_wrong_api_family_text t f expected family p callstack =
     report_line @ thread_with_id t @ '' calls '' @ quoted (api_function_to_string f) @
     '' (address '' @ quoted (show_ptr p) @ '') with unexpected api type '' @
     quoted (api_family_to_string family) @ '', expected api type '' @
     quoted (api_family_to_string expected) @ ''.'' @ nl @ call_stack_part callstack"

definition build_heap_check_failed_text :: "tid \<Rightarrow> string \<Rightarrow> string \<Rightarrow> string" where
  "build_heap_check_failed_text t function_name callstack =
     report_line @ ''BugInsight: [error] Heap check failed. Function '' @ quoted function_name @
     ''. Thread ID '' @ quoted (show_nat t) @ ''.'' @ nl @ call_stack_part callstack"

text \<open>
  \<^verbatim>\<open>create_options_log_text\<close>: the lines that are commented out in the source are left out;
  \<open>level_name\<close> is \<^verbatim>\<open>spdlog::level::to_string_view\<close>.
\<close>

definition on_error_text :: "on_error_option \<Rightarrow> string" where
  "on_error_text e = (case e of On_Error_fail \<Rightarrow> ''fail''
     | On_Error_fail_on_exit \<Rightarrow> ''fail on exit'' | On_Error_continue \<Rightarrow> ''continue'')"

definition log_to_text :: "user_options \<Rightarrow> string" where
  "log_to_text opts =
     (let s = (if m_log_to_stdout opts then ''stdout'' else [])
      in if m_log_to_file opts \<noteq> []
         then s @ (if s = [] then [] else '', '') @ m_log_to_file opts else s)"

definition log_to_debug_out_text :: "log_to_debug_out_option \<Rightarrow> string" where
  "log_to_debug_out_text d = (case d of Debug_enabled \<Rightarrow> ''enabled''
     | Debug_disabled \<Rightarrow> ''disabled'' | Debug_enabled_in_debugger \<Rightarrow> ''in debugger'')"

definition create_options_log_text :: "(log_level \<Rightarrow> string) \<Rightarrow> user_options \<Rightarrow> string" where
  "create_options_log_text level_name opts =
     nl @ ''[Used BugInsight options]'' @ nl @
     ''  on error: '' @ on_error_text (m_on_error opts) @ nl @
     ''  ignore modules memory leak: '' @
       quoted (join '', '' (map m_original_string (m_blacklist_modules_memory_leaks opts))) @ nl @
     ''  ignore modules deadlock: '' @
       quoted (join '', '' (map m_original_string (m_blacklist_modules_deadlocks opts))) @ nl @
     ''  collect Call Stacks: '' @ show_bool (m_collect_callstacks opts) @ nl @
     ''  start detached: '' @ show_bool (m_start_detached opts) @ nl @
     ''  log to: '' @ log_to_text opts @ nl @
     ''  log level: '' @
       (if level_name (m_log_level opts) = ''critical'' then ''fatal''
        else level_name (m_log_level opts)) @ nl @
     ''  thread_watchdog: '' @ show_bool (m_thread_watchdog_enabled opts) @ nl @
     ''  thread_watchdog_max_duration_sec: '' @
       show_nat (unat (m_thread_watchdog_max_duration_sec opts)) @ nl @
     ''  log to debug out: '' @ log_to_debug_out_text (m_log_to_debug_out opts) @ nl @
     ''  exit_code: '' @ show_int (m_exit_code opts) @ nl @ nl @ nl"

text \<open>\<^verbatim>\<open>create_summary\<close> in the release build (without the critical section statistics).\<close>

definition verdict :: "bool \<Rightarrow> string" where
  "verdict bad = ''['' @ pad_right 7 (if bad then ''Error'' else ''Ok'') @ ''] ''"

definition yes_no :: "bool \<Rightarrow> string" where
  "yes_no b = (if b then ''Yes'' else ''No'')"

definition create_summary :: "bool \<Rightarrow> bool \<Rightarrow> bool \<Rightarrow> u64 \<Rightarrow> string" where
  "create_summary found_deadlocks other_errors_found found_memory_leaks api_calls =
     nl @ nl @ replicate 18 CHR ''='' @ nl @ ''BugInsight summary:'' @ nl @
     replicate 18 CHR ''='' @ nl @
     verdict (api_calls = 0) @ ''Monitored API calls:        '' @ show_nat (unat api_calls) @
       (if api_calls \<noteq> 0 then [] else '', No API calls were monitored! Please check.'') @ nl @
     verdict found_deadlocks @ ''Potential deadlocks found:  '' @ yes_no found_deadlocks @ nl @
     verdict found_memory_leaks @ ''Memory leaks found:         '' @ yes_no found_memory_leaks @ nl @
     verdict other_errors_found @ ''Errors found:               '' @ yes_no other_errors_found @ nl @
     nl"

section \<open>Processing an error\<close>

text \<open>
  What an operation does to the process: it goes on with a value and a state, or the process is
  terminated with an exit code; nothing runs after that.
\<close>

datatype ('a, 's) outcome = Running 'a 's | Terminated int 's

type_synonym ('a, 's) action = "'s \<Rightarrow> ('a, 's) outcome"

definition andthen :: "('a, 's) action \<Rightarrow> ('a \<Rightarrow> ('b, 's) action) \<Rightarrow> ('b, 's) action" where
  "andthen m f s = (case m s of Running x s' \<Rightarrow> f x s' | Terminated c s' \<Rightarrow> Terminated c s')"

definition give :: "'a \<Rightarrow> ('a, 's) action" where
  "give x s = Running x s"

definition change :: "('s \<Rightarrow> 's) \<Rightarrow> (unit, 's) action" where
  "change f s = Running () (f s)"

fun final_state :: "('a, 's) outcome \<Rightarrow> 's" where
  "final_state (Running x s) = s"
| "final_state (Terminated c s) = s"

text \<open>The log after \<^verbatim>\<open>process_error\<close>, and the exit code if the process is terminated.\<close>

definition process_error :: "user_options \<Rightarrow> string \<Rightarrow> bool \<Rightarrow> log \<Rightarrow> log \<times> int option" where
  "process_error opts text is_deadlock lg =
     (let lg1 = log_msg opts info text lg
      in if m_on_error opts \<noteq> On_Error_fail then (lg1, None)
         else (log_msg opts err (''Process will be terminated with exit code '' @
                  quoted (show_int (m_exit_code opts)) @ '' due to '' @
                  (if is_deadlock then ''potential deadlock'' else ''error'') @
                  ''. Use command line option '' @
                  quoted ''--on_error=continue (or fail_on_exit)'' @
                  '' to continue on error'' @ nl) lg1,
               Some (m_exit_code opts)))"

lemma andthen_Running [simp]: "m s = Running x s' \<Longrightarrow> andthen m f s = f x s'"
  by (simp add: andthen_def)

lemma andthen_Terminated [simp]: "m s = Terminated c s' \<Longrightarrow> andthen m f s = Terminated c s'"
  by (simp add: andthen_def)

lemma andthen_give [simp]: "andthen (give x) f = f x"
  by (rule ext) (simp add: andthen_def give_def)

lemma andthen_change [simp]: "andthen (change f) g s = g () (f s)"
  by (simp add: andthen_def change_def)

lemma andthen_give_right [simp]: "andthen m give = m"
  by (rule ext) (simp add: andthen_def give_def split: outcome.splits)

lemma andthen_assoc: "andthen (andthen m f) g = andthen m (\<lambda>x. andthen (f x) g)"
  by (rule ext) (simp add: andthen_def split: outcome.splits)

lemma process_error_exit:
  "snd (process_error opts text d lg) =
     (if m_on_error opts = On_Error_fail then Some (m_exit_code opts) else None)"
  by (simp add: process_error_def Let_def)

lemma process_error_log:
  "m_log_level opts \<le> info \<Longrightarrow> (info, text) \<in> set (fst (process_error opts text d lg))"
  by (simp add: process_error_def Let_def log_msg_def)

end
