(* ===== verification/Leak_Repository.thy ===== *)
theory Leak_Repository
  imports Reporting "HOL-Library.AList"
begin

text \<open>
  The table of live allocations: \<^verbatim>\<open>leak_check/memory_leak_map_with_callstack.cpp\<close> and \<^verbatim>\<open>.hpp\<close>. The
  \<^verbatim>\<open>boost::concurrent_flat_map\<close> is an association list with distinct keys; its order stands for
  the unspecified order of \<^verbatim>\<open>visit_all\<close>, so what is proved for every list holds for every order.
  A locale states what the monitors of the allocation functions need of the table.
\<close>

section \<open>Data\<close>

type_synonym key = "ptr \<times> ptr"

record memory_leak_data =
  ld_size :: u64
  ld_family :: api_family
  ld_function :: api_function
  ld_callstack :: "ptr list"
  ld_hash :: u32

text \<open>
  What the system provides for one call of a monitored function: the thread, the frames and the hash
  of \<^verbatim>\<open>GetStackFrames\<close>, and the text of \<^verbatim>\<open>save_current_callstack_to_string\<close>.
\<close>

record call_env =
  ce_tid :: tid
  ce_frames :: "ptr list"
  ce_hash :: u32
  ce_stack_text :: string

record repository =
  mr_collect :: bool
  mr_map :: "(key \<times> memory_leak_data) list"

definition repository_init :: "bool \<Rightarrow> repository" where
  "repository_init collect = \<lparr>mr_collect = collect, mr_map = []\<rparr>"

section \<open>Operations\<close>

definition leak_data :: "call_env \<Rightarrow> bool \<Rightarrow> u64 \<Rightarrow> api_family \<Rightarrow> api_function \<Rightarrow> memory_leak_data" where
  "leak_data env collect bytes family f =
     \<lparr>ld_size = bytes, ld_family = family, ld_function = f,
      ld_callstack = (if collect then ce_frames env else []),
      ld_hash = (if collect then ce_hash env else 0)\<rparr>"

text \<open>\<^verbatim>\<open>emplace\<close> does nothing if the key is present.\<close>

definition emplace :: "'k \<Rightarrow> 'v \<Rightarrow> ('k \<times> 'v) list \<Rightarrow> ('k \<times> 'v) list \<times> bool" where
  "emplace k v m = (case map_of m k of None \<Rightarrow> ((k, v) # m, True) | Some _ \<Rightarrow> (m, False))"

definition repo_add_key ::
  "call_env \<Rightarrow> key \<Rightarrow> u64 \<Rightarrow> api_family \<Rightarrow> api_function \<Rightarrow> repository \<Rightarrow> repository" where
  "repo_add_key env k bytes family f r =
     r\<lparr>mr_map := fst (emplace k (leak_data env (mr_collect r) bytes family f) (mr_map r))\<rparr>"

definition repo_add ::
  "call_env \<Rightarrow> ptr \<Rightarrow> u64 \<Rightarrow> api_family \<Rightarrow> api_function \<Rightarrow> repository \<Rightarrow> repository" where
  "repo_add env p bytes family f = repo_add_key env (0, p) bytes family f"

definition repo_add_heap ::
  "call_env \<Rightarrow> ptr \<Rightarrow> ptr \<Rightarrow> u64 \<Rightarrow> api_function \<Rightarrow> repository \<Rightarrow> repository" where
  "repo_add_heap env heap p bytes f = repo_add_key env (heap, p) bytes e_heapapi f"

definition repo_erase_key :: "key \<Rightarrow> repository \<Rightarrow> repository" where
  "repo_erase_key k r = r\<lparr>mr_map := AList.delete k (mr_map r)\<rparr>"

definition repo_erase :: "ptr \<Rightarrow> repository \<Rightarrow> repository" where
  "repo_erase p = repo_erase_key (0, p)"

definition repo_erase_heap :: "ptr \<Rightarrow> ptr \<Rightarrow> repository \<Rightarrow> repository" where
  "repo_erase_heap heap p = repo_erase_key (heap, p)"

text \<open>\<^verbatim>\<open>get_data\<close>: family, size of the user memory and function of the entry, if there is one.\<close>

definition repo_get_key :: "key \<Rightarrow> repository \<Rightarrow> (api_family \<times> u64 \<times> api_function) option" where
  "repo_get_key k r = map_option (\<lambda>d. (ld_family d, ld_size d, ld_function d)) (map_of (mr_map r) k)"

definition repo_get_data :: "ptr \<Rightarrow> repository \<Rightarrow> (api_family \<times> u64 \<times> api_function) option" where
  "repo_get_data p = repo_get_key (0, p)"

definition repo_get_data_heap ::
  "ptr \<Rightarrow> ptr \<Rightarrow> repository \<Rightarrow> (api_family \<times> u64 \<times> api_function) option" where
  "repo_get_data_heap heap p = repo_get_key (heap, p)"

definition leak_count :: "repository \<Rightarrow> nat" where
  "leak_count r = length (mr_map r)"

definition internal_reset_all_allocations :: "repository \<Rightarrow> repository" where
  "internal_reset_all_allocations r = r\<lparr>mr_map := []\<rparr>"

text \<open>\<^verbatim>\<open>buginsight_internal_get_allocated_bytes\<close>; the sum wraps like a \<^verbatim>\<open>size_t\<close>.\<close>

definition get_allocated_bytes :: "string \<Rightarrow> repository \<Rightarrow> u64" where
  "get_allocated_bytes function_name r =
     (let f = (if function_name \<noteq> ''*'' then api_function_string_to_enum function_name else e_unknown)
      in foldl (\<lambda>sum (k, d). if f \<noteq> e_unknown \<and> ld_function d \<noteq> f then sum else sum + ld_size d) 0
           (mr_map r))"

section \<open>The leak report\<close>

record callstack_size_hash =
  cs_callstack :: "ptr list"
  cs_size :: u64
  cs_hash :: u32

record used_api_info =
  ua_callstacks :: "callstack_size_hash list"
  ua_total :: u64
  ua_function :: api_function
  ua_hits :: u64

definition no_callstack :: callstack_size_hash where
  "no_callstack = \<lparr>cs_callstack = [], cs_size = 0, cs_hash = 0\<rparr>"

definition used_api_info_init :: "api_function \<Rightarrow> used_api_info" where
  "used_api_info_init f =
     \<lparr>ua_callstacks = replicate 10 no_callstack, ua_total = 0, ua_function = f, ua_hits = 0\<rparr>"

text \<open>
  The search in \<^verbatim>\<open>group_leaks2\<close>: \<open>i\<close> counts the slots; the result is \<^verbatim>\<open>found_index\<close>, the slot with
  the smallest size seen, or \<open>Inl\<close> of the slot with the same hash, where the loop stops.
\<close>

fun find_slot ::
  "u32 \<Rightarrow> callstack_size_hash list \<Rightarrow> nat \<Rightarrow> nat \<Rightarrow> callstack_size_hash list \<Rightarrow> nat + nat" where
  "find_slot h all i best [] = Inr best"
| "find_slot h all i best (c # cs) =
     (if cs_hash c = h then Inl i
      else find_slot h all (i + 1) (if cs_size c < cs_size (all ! best) then i else best) cs)"

definition record_leak :: "memory_leak_data \<Rightarrow> used_api_info \<Rightarrow> used_api_info" where
  "record_leak d ua =
     (let cs = ua_callstacks ua;
          ua1 = ua\<lparr>ua_hits := ua_hits ua + 1, ua_total := ua_total ua + ld_size d\<rparr>
      in case find_slot (ld_hash d) cs 0 0 cs of
           Inl i \<Rightarrow> if cs_size (cs ! i) < ld_size d
             then ua1\<lparr>ua_callstacks := cs[i := (cs ! i)\<lparr>cs_size := ld_size d\<rparr>]\<rparr> else ua1
         | Inr i \<Rightarrow> if cs_size (cs ! i) < ld_size d
             then ua1\<lparr>ua_callstacks := cs[i := \<lparr>cs_callstack = ld_callstack d,
                        cs_size = ld_size d, cs_hash = ld_hash d\<rparr>]\<rparr> else ua1)"

definition visit_leak :: "used_api_info list \<Rightarrow> key \<times> memory_leak_data \<Rightarrow> used_api_info list" where
  "visit_leak infos x =
     (let i = api_index (ld_function (snd x))
      in infos[i := record_leak (snd x) (infos ! i)])"

text \<open>\<^verbatim>\<open>std::sort\<close> by descending total (the order of equal totals is not fixed by the source).\<close>

definition sort_infos :: "used_api_info list \<Rightarrow> used_api_info list" where
  "sort_infos infos = rev (sort_key ua_total (rev infos))"

definition group_leaks2 :: "used_api_info list \<Rightarrow> repository \<Rightarrow> used_api_info list \<times> bool" where
  "group_leaks2 infos r = (sort_infos (foldl visit_leak infos (mr_map r)), mr_map r \<noteq> [])"

definition report_row :: "string \<Rightarrow> string \<Rightarrow> string \<Rightarrow> string" where
  "report_row a b c = pad_right 30 a @ ''|'' @ pad_left 10 b @ ''|'' @ pad_left 20 c @ nl"

definition generate_leak_report2 :: "used_api_info list \<Rightarrow> string" where
  "generate_leak_report2 infos =
     nl @ nl @ ''Memory leak report:'' @ nl @ nl @
     report_row ''Function'' ''Calls'' ''Bytes allocated'' @ replicate 64 CHR ''-'' @ nl @
     concat (map (\<lambda>ua. report_row (api_function_to_string (ua_function ua))
                (show_nat (unat (ua_hits ua))) (show_nat (unat (ua_total ua))))
       (filter (\<lambda>ua. ua_hits ua \<noteq> 0) infos))"

text \<open>
  \<^verbatim>\<open>generate_callstacks2\<close>: \<open>symbolise\<close> stands for \<^verbatim>\<open>printf_call_stack_symbol_infos\<close> and
  \<^verbatim>\<open>create_hash\<close>, which give the text of a call stack and its id. The result is the text and whether
  a call stack was suppressed.
\<close>

definition callstack_text ::
  "(ptr list \<Rightarrow> string \<times> u64) \<Rightarrow> u64 list \<Rightarrow> string \<times> bool \<Rightarrow> callstack_size_hash \<Rightarrow> string \<times> bool" where
  "callstack_text symbolise suppressed acc c =
     (if cs_size c = 0 then acc
      else let (text, hashcode) = symbolise (cs_callstack c)
           in if hashcode \<in> set suppressed then (fst acc, True)
              else (fst acc @ nl @ ''Call Stack:'' @ nl @ text, snd acc))"

definition api_callstacks_text ::
  "(ptr list \<Rightarrow> string \<times> u64) \<Rightarrow> u64 list \<Rightarrow> string \<times> bool \<Rightarrow> used_api_info \<Rightarrow> string \<times> bool" where
  "api_callstacks_text symbolise suppressed acc ua =
     (if ua_hits ua = 0 then acc
      else foldl (callstack_text symbolise suppressed)
        (fst acc @ nl @ nl @ ''[Function: '' @ quoted (api_function_to_string (ua_function ua)) @
           '', Hit count: '' @ show_nat (unat (ua_hits ua)) @ '', Sum bytes allocated: '' @
           show_nat (unat (ua_total ua)) @ '']'' @ nl, snd acc)
        (ua_callstacks ua))"

definition generate_callstacks2 ::
  "(ptr list \<Rightarrow> string \<times> u64) \<Rightarrow> u64 list \<Rightarrow> used_api_info list \<Rightarrow> bool \<Rightarrow> string \<times> bool" where
  "generate_callstacks2 symbolise suppressed infos leaks_suppressed =
     foldl (api_callstacks_text symbolise suppressed)
       (nl @ nl @ ''Memory leak callstacks:'' @ nl, leaks_suppressed) infos"

section \<open>The table as a map\<close>

definition repo_inv :: "repository \<Rightarrow> bool" where
  "repo_inv r \<longleftrightarrow> distinct (map fst (mr_map r))"

definition entry :: "repository \<Rightarrow> key \<Rightarrow> memory_leak_data option" where
  "entry r = map_of (mr_map r)"

text \<open>What the allocation monitors need: a map with first-come insertion, deletion and a size.\<close>

locale allocation_table =
  fixes add :: "'k \<Rightarrow> 'd \<Rightarrow> 't \<Rightarrow> 't"
    and del :: "'k \<Rightarrow> 't \<Rightarrow> 't"
    and look :: "'t \<Rightarrow> 'k \<Rightarrow> 'd option"
    and entries :: "'t \<Rightarrow> nat"
    and valid :: "'t \<Rightarrow> bool"
  assumes add_law: "valid t \<Longrightarrow> valid (add k d t) \<and>
      look (add k d t) = (if look t k = None then (look t)(k \<mapsto> d) else look t)"
    and del_law: "valid t \<Longrightarrow> valid (del k t) \<and> look (del k t) = (look t)(k := None)"
    and entries_law: "valid t \<Longrightarrow> finite (dom (look t)) \<and> entries t = card (dom (look t))"
begin

lemma add_fresh: "valid t \<Longrightarrow> look t k = None \<Longrightarrow> look (add k d t) = (look t)(k \<mapsto> d)"
  by (simp add: add_law)

lemma replace: "valid t \<Longrightarrow> look (add k d (del k t)) = (look t)(k \<mapsto> d)"
  by (simp add: add_law del_law)

lemma move:
  assumes "valid t" "k' \<noteq> k" "look t k' = None"
  shows "look (add k' d (del k t)) = (look t)(k := None, k' \<mapsto> d)"
  using assms by (simp add: add_law del_law)

lemma add_del: "valid t \<Longrightarrow> look t k = None \<Longrightarrow> look (del k (add k d t)) = look t"
  by (auto simp: add_law del_law)

lemma empty_iff: "valid t \<Longrightarrow> entries t = 0 \<longleftrightarrow> look t = Map.empty"
  using entries_law [of t] by auto

lemma entries_add: "valid t \<Longrightarrow> look t k = None \<Longrightarrow> entries (add k d t) = entries t + 1"
  using entries_law [of t] entries_law [of "add k d t"] add_law [of t k d]
  by (simp add: card_insert_if domIff)

lemma entries_del: "valid t \<Longrightarrow> look t k \<noteq> None \<Longrightarrow> entries (del k t) = entries t - 1"
  using entries_law [of t] entries_law [of "del k t"] del_law [of t k]
  by (auto simp: card_Diff_singleton domIff)

end

definition repo_put :: "key \<Rightarrow> memory_leak_data \<Rightarrow> repository \<Rightarrow> repository" where
  "repo_put k d r = r\<lparr>mr_map := fst (emplace k d (mr_map r))\<rparr>"

lemma repo_add_key_put:
  "repo_add_key env k bytes family f r = repo_put k (leak_data env (mr_collect r) bytes family f) r"
  by (simp add: repo_add_key_def repo_put_def)

lemma mr_collect_simps [simp]:
  "mr_collect (repo_put k d r) = mr_collect r"
  "mr_collect (repo_erase_key k r) = mr_collect r"
  by (simp_all add: repo_put_def repo_erase_key_def)

interpretation repo: allocation_table repo_put repo_erase_key entry leak_count repo_inv
proof
  fix r k d assume inv: "repo_inv r"
  show "repo_inv (repo_put k d r) \<and>
      entry (repo_put k d r) = (if entry r k = None then (entry r)(k \<mapsto> d) else entry r)"
  proof (cases "map_of (mr_map r) k")
    case None
    then have "k \<notin> fst ` set (mr_map r)" by (simp add: map_of_eq_None_iff)
    then show ?thesis
      using inv None by (simp add: repo_inv_def entry_def repo_put_def emplace_def)
  next
    case (Some d')
    then show ?thesis using inv by (simp add: repo_inv_def entry_def repo_put_def emplace_def)
  qed
next
  fix r k assume "repo_inv r"
  then show "repo_inv (repo_erase_key k r) \<and> entry (repo_erase_key k r) = (entry r)(k := None)"
    by (simp add: repo_inv_def entry_def repo_erase_key_def delete_conv' AList.distinct_delete)
next
  fix r assume "repo_inv r"
  then show "finite (dom (entry r)) \<and> leak_count r = card (dom (entry r))"
    unfolding repo_inv_def entry_def leak_count_def dom_map_of_conv_image_fst
    using distinct_card [of "map fst (mr_map r)"] by simp
qed

lemma repo_init_inv: "repo_inv (repository_init c)" "entry (repository_init c) = Map.empty"
  by (simp_all add: repo_inv_def repository_init_def entry_def)

lemma repo_get_key_entry:
  "repo_get_key k r = map_option (\<lambda>d. (ld_family d, ld_size d, ld_function d)) (entry r k)"
  by (simp add: repo_get_key_def entry_def)

section \<open>What the report contains\<close>

definition leaks_of :: "repository \<Rightarrow> api_function \<Rightarrow> memory_leak_data list" where
  "leaks_of r f = filter (\<lambda>d. ld_function d = f) (map snd (mr_map r))"

lemma allocated_bytes_fold:
  "foldl (\<lambda>sum (k, d). if f \<noteq> e_unknown \<and> ld_function d \<noteq> f then sum else sum + ld_size d) (s :: u64) m =
     s + sum_list (map ld_size (filter (\<lambda>d. f = e_unknown \<or> ld_function d = f) (map snd m)))"
  by (induction m arbitrary: s) auto

lemma allocated_bytes_all: "get_allocated_bytes ''*'' r = sum_list (map ld_size (map snd (mr_map r)))"
  using allocated_bytes_fold [of e_unknown 0 "mr_map r"] by (simp add: get_allocated_bytes_def)

lemma allocated_bytes_of:
  assumes "name \<noteq> ''*''" "api_function_string_to_enum name = f" "f \<noteq> e_unknown"
  shows "get_allocated_bytes name r = sum_list (map ld_size (leaks_of r f))"
  using allocated_bytes_fold [of f 0 "mr_map r"] assms by (simp add: get_allocated_bytes_def leaks_of_def)

text \<open>One slot table after another: the counters.\<close>

lemma record_leak_counters:
  "ua_hits (record_leak d ua) = ua_hits ua + 1"
  "ua_total (record_leak d ua) = ua_total ua + ld_size d"
  "ua_function (record_leak d ua) = ua_function ua"
  by (auto simp: record_leak_def Let_def split: sum.splits)

lemma visit_leak_length [simp]: "length (visit_leak infos x) = length infos"
  by (simp add: visit_leak_def Let_def)

lemma visit_leaks_length [simp]: "length (foldl visit_leak infos m) = length infos"
  by (induction m arbitrary: infos) simp_all

lemma visit_leaks_at:
  assumes "length infos = api_size"
  shows "foldl visit_leak infos m ! api_index f =
    foldl (\<lambda>ua d. record_leak d ua) (infos ! api_index f)
      (filter (\<lambda>d. ld_function d = f) (map snd m))"
  using assms
proof (induction m arbitrary: infos)
  case (Cons x m)
  have "visit_leak infos x ! api_index f =
      (if ld_function (snd x) = f then record_leak (snd x) (infos ! api_index f)
       else infos ! api_index f)"
    using api_index_bound [of f] Cons.prems
    by (auto simp: visit_leak_def Let_def nth_upd api_index_inj)
  then show ?case using Cons.IH [of "visit_leak infos x"] Cons.prems by simp
qed simp

lemma record_leaks_counters:
  "ua_hits (foldl (\<lambda>ua d. record_leak d ua) ua ds) = ua_hits ua + of_nat (length ds) \<and>
   ua_total (foldl (\<lambda>ua d. record_leak d ua) ua ds) = ua_total ua + sum_list (map ld_size ds) \<and>
   ua_function (foldl (\<lambda>ua d. record_leak d ua) ua ds) = ua_function ua"
  by (induction ds arbitrary: ua) (simp_all add: record_leak_counters)

text \<open>The largest leak of a function stays in its slots.\<close>

lemma find_slot_bounds:
  assumes "best < length all" "i + length cs = length all"
  shows "case find_slot h all i best cs of Inl j \<Rightarrow> j < length all | Inr j \<Rightarrow> j < length all"
  using assms by (induction cs arbitrary: i best) auto

lemma find_slot_hash:
  assumes "drop i all = cs" "find_slot h all i best cs = Inl j"
  shows "cs_hash (all ! j) = h"
  using assms
proof (induction cs arbitrary: i best)
  case (Cons c cs)
  have c: "all ! i = c" "drop (i + 1) all = cs"
    using Cons.prems(1) by (metis nth_via_drop, metis Suc_eq_plus1 drop_Suc list.sel(3) tl_drop)
  show ?case
  proof (cases "cs_hash c = h")
    case True
    then show ?thesis using Cons.prems(2) c by auto
  next
    case False
    then show ?thesis using Cons.prems(2) Cons.IH [OF c(2)] by (simp split: if_splits)
  qed
qed simp

lemma find_slot_smallest:
  assumes "drop i all = cs" "find_slot h all i best cs = Inr j"
    and "\<forall>k<i. cs_size (all ! best) \<le> cs_size (all ! k)"
  shows "\<forall>k<length all. cs_size (all ! j) \<le> cs_size (all ! k)"
  using assms
proof (induction cs arbitrary: i best)
  case Nil
  then show ?case by (auto simp: drop_eq_Nil)
next
  case (Cons c cs)
  have c: "all ! i = c" "drop (i + 1) all = cs"
    using Cons.prems(1) by (metis nth_via_drop, metis Suc_eq_plus1 drop_Suc list.sel(3) tl_drop)
  let ?best = "if cs_size c < cs_size (all ! best) then i else best"
  have "find_slot h all (i + 1) ?best cs = Inr j" using Cons.prems(2) by (simp split: if_splits)
  moreover have "\<forall>k<i + 1. cs_size (all ! ?best) \<le> cs_size (all ! k)"
    using Cons.prems(3) c(1) by (auto simp: less_Suc_eq)
  ultimately show ?case using Cons.IH [OF c(2), of ?best] by blast
qed

text \<open>
  A leak is covered by the slots of its function if a slot with its call stack has at least its size,
  or if it is no larger than any slot.
\<close>

definition covered :: "callstack_size_hash list \<Rightarrow> memory_leak_data \<Rightarrow> bool" where
  "covered cs d \<longleftrightarrow> (\<exists>i<length cs. cs_hash (cs ! i) = ld_hash d \<and> ld_size d \<le> cs_size (cs ! i)) \<or>
     (\<forall>i<length cs. ld_size d \<le> cs_size (cs ! i))"

definition slot_for :: "memory_leak_data \<Rightarrow> callstack_size_hash list \<Rightarrow> nat" where
  "slot_for d cs = (case find_slot (ld_hash d) cs 0 0 cs of Inl i \<Rightarrow> i | Inr i \<Rightarrow> i)"

text \<open>
  Recording a leak changes at most one slot: it has the leak's hash, or it is the smallest one.
\<close>

lemma record_leak_slots:
  fixes d :: memory_leak_data
  assumes "ua_callstacks ua \<noteq> []"
  defines "cs \<equiv> ua_callstacks ua" and "cs' \<equiv> ua_callstacks (record_leak d ua)"
  obtains i where "i < length cs" "cs' = cs \<and> ld_size d \<le> cs_size (cs ! i) \<or>
      (\<exists>c. cs' = cs[i := c] \<and> cs_size (cs ! i) < ld_size d \<and> cs_size c = ld_size d \<and> cs_hash c = ld_hash d)"
    "cs_hash (cs ! i) = ld_hash d \<or> (\<forall>k<length cs. cs_size (cs ! i) \<le> cs_size (cs ! k))"
proof -
  have ne: "0 < length cs" using assms(1) by (simp add: cs_def)
  note bounds = find_slot_bounds [of 0 cs 0 cs "ld_hash d", OF ne]
  show ?thesis
  proof (cases "find_slot (ld_hash d) cs 0 0 cs")
    case (Inl i)
    have h: "cs_hash (cs ! i) = ld_hash d" by (rule find_slot_hash [OF _ Inl]) simp
    have "cs' = (if cs_size (cs ! i) < ld_size d
        then cs[i := (cs ! i)\<lparr>cs_size := ld_size d\<rparr>] else cs)"
      using Inl by (simp add: cs'_def cs_def record_leak_def Let_def)
    then have "cs' = cs \<and> ld_size d \<le> cs_size (cs ! i) \<or>
        (\<exists>c. cs' = cs[i := c] \<and> cs_size (cs ! i) < ld_size d \<and> cs_size c = ld_size d \<and> cs_hash c = ld_hash d)"
      using h by (cases "cs_size (cs ! i) < ld_size d")
        (auto intro!: exI [of _ "(cs ! i)\<lparr>cs_size := ld_size d\<rparr>"])
    then show ?thesis using that [of i] bounds Inl h by simp
  next
    case (Inr i)
    have m: "\<forall>k<length cs. cs_size (cs ! i) \<le> cs_size (cs ! k)"
      by (rule find_slot_smallest [OF _ Inr]) simp_all
    have "cs' = (if cs_size (cs ! i) < ld_size d then cs[i := \<lparr>cs_callstack = ld_callstack d,
        cs_size = ld_size d, cs_hash = ld_hash d\<rparr>] else cs)"
      using Inr by (simp add: cs'_def cs_def record_leak_def Let_def)
    then have "cs' = cs \<and> ld_size d \<le> cs_size (cs ! i) \<or>
        (\<exists>c. cs' = cs[i := c] \<and> cs_size (cs ! i) < ld_size d \<and> cs_size c = ld_size d \<and> cs_hash c = ld_hash d)"
      by (cases "cs_size (cs ! i) < ld_size d") auto
    then show ?thesis using that [of i] bounds Inr m by simp
  qed
qed

lemma covered_new:
  assumes "ua_callstacks ua \<noteq> []"
  shows "covered (ua_callstacks (record_leak d ua)) d"
proof (rule record_leak_slots [OF assms, of d], goal_cases)
  case (1 i)
  then show ?case
    by (auto simp: covered_def)
qed

lemma covered_keep:
  assumes "ua_callstacks ua \<noteq> []" "covered (ua_callstacks ua) e"
  shows "covered (ua_callstacks (record_leak d ua)) e"
proof (rule record_leak_slots [OF assms(1), of d], goal_cases)
  case (1 i)
  let ?cs = "ua_callstacks ua" and ?cs' = "ua_callstacks (record_leak d ua)"
  from 1(2) show ?case
  proof
    assume "?cs' = ?cs \<and> ld_size d \<le> cs_size (?cs ! i)"
    then show ?thesis using assms(2) by simp
  next
    assume "\<exists>c. ?cs' = ?cs[i := c] \<and> cs_size (?cs ! i) < ld_size d \<and> cs_size c = ld_size d \<and>
      cs_hash c = ld_hash d"
    then obtain c where c: "?cs' = ?cs[i := c]" "cs_size (?cs ! i) < ld_size d"
      "cs_size c = ld_size d" "cs_hash c = ld_hash d" by blast
    have up: "cs_size (?cs ! k) \<le> cs_size (?cs' ! k)" if "k < length ?cs" for k
      using that c by (cases "k = i") auto
    show ?thesis
    proof (cases "\<forall>k<length ?cs. ld_size e \<le> cs_size (?cs ! k)")
      case True
      then have "\<forall>k<length ?cs'. ld_size e \<le> cs_size (?cs' ! k)"
        using up c(1) by (auto intro: order_trans)
      then show ?thesis by (simp add: covered_def)
    next
      case False
      then obtain k where k: "k < length ?cs" "cs_hash (?cs ! k) = ld_hash e"
        "ld_size e \<le> cs_size (?cs ! k)"
        using assms(2) by (auto simp: covered_def)
      show ?thesis
      proof (cases "k = i \<and> cs_hash (?cs ! i) \<noteq> ld_hash d")
        case True
        then have "\<forall>j<length ?cs. cs_size (?cs ! i) \<le> cs_size (?cs ! j)" using 1(3) by blast
        then have "\<forall>j<length ?cs. ld_size e \<le> cs_size (?cs ! j)"
          using k(3) True order_trans by blast
        with False show ?thesis by blast
      next
        case False
        then have "cs_hash (?cs' ! k) = ld_hash e" using k c by (cases "k = i") auto
        moreover have "ld_size e \<le> cs_size (?cs' ! k)" using k(3) up [OF k(1)] by (rule order_trans)
        ultimately show ?thesis using k(1) c(1) unfolding covered_def by (metis length_list_update)
      qed
    qed
  qed
qed

lemma record_leak_slot_count [simp]:
  "length (ua_callstacks (record_leak d ua)) = length (ua_callstacks ua)"
  by (auto simp: record_leak_def Let_def split: sum.splits)

lemma record_leaks_covered:
  assumes "ua_callstacks ua \<noteq> []" "\<forall>e\<in>E. covered (ua_callstacks ua) e"
  shows "\<forall>e\<in>E \<union> set ds. covered (ua_callstacks (foldl (\<lambda>ua d. record_leak d ua) ua ds)) e"
  using assms
proof (induction ds arbitrary: ua E)
  case (Cons d ds)
  have ne: "ua_callstacks (record_leak d ua) \<noteq> []"
    using Cons.prems(1) by (metis length_0_conv record_leak_slot_count)
  have "\<forall>e\<in>insert d E. covered (ua_callstacks (record_leak d ua)) e"
    using covered_new [OF Cons.prems(1)] covered_keep [OF Cons.prems(1)] Cons.prems(2) by blast
  from Cons.IH [OF ne this] show ?case by simp
qed simp

lemma sort_infos_spec:
  "mset (sort_infos infos) = mset infos"
  "sorted (rev (map ua_total (sort_infos infos)))"
  by (simp_all add: sort_infos_def flip: rev_map)

definition initial_infos :: "used_api_info list" where
  "initial_infos = map used_api_info_init all_functions"

lemma initial_infos_at:
  "length initial_infos = api_size" "initial_infos ! api_index f = used_api_info_init f"
  by (simp_all add: initial_infos_def distinct_all_functions(2) api_index_bound all_functions_nth)

lemma group_leaks_member:
  assumes "ua \<in> set (fst (group_leaks2 initial_infos r))"
  shows "ua = foldl (\<lambda>ua d. record_leak d ua) (used_api_info_init (ua_function ua))
    (leaks_of r (ua_function ua))"
proof -
  let ?m = "foldl visit_leak initial_infos (mr_map r)"
  have "ua \<in> set ?m"
    using assms mset_eq_setD [OF sort_infos_spec(1), of ?m] by (simp add: group_leaks2_def)
  then obtain i where i: "i < api_size" "ua = ?m ! i"
    by (auto simp: in_set_conv_nth initial_infos_at(1))
  define f where "f = all_functions ! i"
  have f: "api_index f = i" by (simp add: f_def nth_all_functions i(1))
  have ua: "ua = foldl (\<lambda>ua d. record_leak d ua) (used_api_info_init f) (leaks_of r f)"
    using visit_leaks_at [OF initial_infos_at(1), of "mr_map r" f] i(2)
    by (simp add: f initial_infos_at(2) leaks_of_def flip: f)
  have "ua_function ua = f"
    using record_leaks_counters [of "used_api_info_init f"] unfolding ua
    by (simp add: used_api_info_init_def)
  then show ?thesis using ua by simp
qed

end
