(* ===== verification/Leak_Monitor.thy ===== *)
theory Leak_Monitor
  imports Leak_Repository
begin

text \<open>
  The state all allocation monitors share (\<^verbatim>\<open>g_memory_leak_repository\<close>, \<^verbatim>\<open>g_monitored_api_calls\<close>,
  \<^verbatim>\<open>g_user_options\<close>, the log), the check of an address (\<^verbatim>\<open>memory_helper.cpp\<close>) and the periodic heap
  check (\<^verbatim>\<open>malloc_monitor.hpp\<close>). A monitor is an action on this state; the monitored function itself,
  which belongs to the C runtime or to Windows, is an argument.
\<close>

section \<open>State\<close>

record leak_state =
  ls_options :: user_options
  ls_repo :: repository
  ls_calls :: u64
  ls_log :: log
  ls_next_check :: u64
  ls_check_busy :: bool

definition leak_state_init :: "user_options \<Rightarrow> u64 \<Rightarrow> leak_state" where
  "leak_state_init opts start =
     \<lparr>ls_options = opts, ls_repo = repository_init (m_collect_callstacks opts), ls_calls = 0,
      ls_log = [], ls_next_check = start + 1000 * 5, ls_check_busy = False\<rparr>"

type_synonym 'a leak_action = "('a, leak_state) action"

section \<open>Shared steps\<close>

definition only_if :: "bool \<Rightarrow> (unit, 's) action \<Rightarrow> (unit, 's) action" where
  "only_if b m = (if b then m else give ())"

definition count_call :: "unit leak_action" where
  "count_call = change (\<lambda>s. s\<lparr>ls_calls := ls_calls s + 1\<rparr>)"

definition add_block :: "call_env \<Rightarrow> ptr \<Rightarrow> u64 \<Rightarrow> api_family \<Rightarrow> api_function \<Rightarrow> unit leak_action" where
  "add_block env p bytes family f =
     change (\<lambda>s. s\<lparr>ls_repo := repo_add env p bytes family f (ls_repo s)\<rparr>)"

definition erase_block :: "ptr \<Rightarrow> unit leak_action" where
  "erase_block p = change (\<lambda>s. s\<lparr>ls_repo := repo_erase p (ls_repo s)\<rparr>)"

definition report :: "string \<Rightarrow> unit leak_action" where
  "report text s =
     (case process_error (ls_options s) text False (ls_log s) of
        (lg, None) \<Rightarrow> Running () (s\<lparr>ls_log := lg\<rparr>)
      | (lg, Some c) \<Rightarrow> Terminated c (s\<lparr>ls_log := lg\<rparr>))"

text \<open>\<^verbatim>\<open>memory_helper::log_or_abort_if_memory_adddress_is_unknown\<close>\<close>

definition log_or_abort_if_memory_adddress_is_unknown ::
  "call_env \<Rightarrow> ptr \<Rightarrow> api_family \<Rightarrow> api_function \<Rightarrow> bool leak_action" where
  "log_or_abort_if_memory_adddress_is_unknown env p family f s =
     (case repo_get_data p (ls_repo s) of
        None \<Rightarrow> andthen (report (build_unknown_memory_address_text (ce_tid env) f p (ce_stack_text env)))
                  (\<lambda>_. give False) s
      | Some (stored_family, bytes, stored_function) \<Rightarrow>
          if stored_family \<noteq> family then
            andthen (report (build_wrong_api_family_text (ce_tid env) f stored_family family p
                               (ce_stack_text env)))
              (\<lambda>_. give True) s
          else give True s)"

text \<open>The first part of all functions that may get a null pointer.\<close>

definition known_address :: "call_env \<Rightarrow> ptr \<Rightarrow> api_family \<Rightarrow> api_function \<Rightarrow> bool leak_action" where
  "known_address env p family f =
     (if p \<noteq> 0 then log_or_abort_if_memory_adddress_is_unknown env p family f else give False)"

section \<open>The periodic heap check\<close>

text \<open>
  The system's answers: the two values of \<^verbatim>\<open>GetTickCount64\<close>, the start of the process, and whether
  \<^verbatim>\<open>_heapchk\<close> and \<^verbatim>\<open>HeapValidate\<close> found the heap in order.
\<close>

record heap_env =
  he_start :: u64
  he_ticks :: u64
  he_ticks_fresh :: u64
  he_heapchk_ok :: bool
  he_validate_ok :: bool

definition check_wait_ms :: "heap_env \<Rightarrow> u64" where
  "check_wait_ms he = (if he_ticks_fresh he - he_start he < 60 * 1000 then 1000 * 10 else 1000 * 60 * 5)"

definition check_heap_periodic :: "call_env \<Rightarrow> heap_env \<Rightarrow> unit leak_action" where
  "check_heap_periodic env he s =
     (if he_ticks he < ls_next_check s then Running () s
      else if ls_check_busy s then Running () s
      else andthen (change (\<lambda>s. s\<lparr>ls_check_busy := True,
                        ls_log := log_msg (ls_options s) trace (''check heap periodic'' @ nl) (ls_log s)\<rparr>)) (\<lambda>_.
        andthen (only_if (\<not> he_heapchk_ok he)
          (report (build_heap_check_failed_text (ce_tid env) ''_heapchk'' (ce_stack_text env)))) (\<lambda>_.
        andthen (only_if (\<not> he_validate_ok he)
          (report (build_heap_check_failed_text (ce_tid env) ''HeapValidate'' (ce_stack_text env)))) (\<lambda>_.
        change (\<lambda>s. s\<lparr>ls_next_check := he_ticks_fresh he + check_wait_ms he,
                       ls_check_busy := False\<rparr>)))) s)"

section \<open>The three shapes of a monitor\<close>

text \<open>
  The monitors of the families repeat the same three bodies. The shapes are the reference the
  monitors are compared with: \<open>p\<close> is the result of the monitored function.
\<close>

definition tracked :: "call_env \<Rightarrow> api_family \<Rightarrow> api_function \<Rightarrow> ptr \<Rightarrow> u64 \<Rightarrow> ptr leak_action" where
  "tracked env family f p bytes =
     (if p = 0 then give p else andthen (add_block env p bytes family f) (\<lambda>_. give p))"

definition retracked ::
  "call_env \<Rightarrow> api_family \<Rightarrow> api_function \<Rightarrow> ptr \<Rightarrow> bool \<Rightarrow> ptr \<Rightarrow> u64 \<Rightarrow> ptr leak_action" where
  "retracked env family f block frees p bytes =
     andthen (known_address env block family f) (\<lambda>found.
       if p = 0 then andthen (only_if (frees \<and> found) (erase_block block)) (\<lambda>_. give p)
       else andthen (only_if found (erase_block block)) (\<lambda>_. tracked env family f p bytes))"

definition untracked :: "call_env \<Rightarrow> api_family \<Rightarrow> api_function \<Rightarrow> ptr \<Rightarrow> unit leak_action" where
  "untracked env family f block =
     andthen (known_address env block family f) (\<lambda>found. only_if found (erase_block block))"

section \<open>The state as a heap\<close>

text \<open>Size, family and allocating function of the tracked block at an address (heap 0).\<close>

type_synonym heap_view = "key \<Rightarrow> (u64 \<times> api_family \<times> api_function) option"

definition view :: "leak_state \<Rightarrow> heap_view" where
  "view s k = map_option (\<lambda>d. (ld_size d, ld_family d, ld_function d)) (entry (ls_repo s) k)"

definition leak_inv :: "leak_state \<Rightarrow> bool" where
  "leak_inv s \<longleftrightarrow> repo_inv (ls_repo s)"

text \<open>Two states that differ in the table only.\<close>

definition same_but_repo :: "leak_state \<Rightarrow> leak_state \<Rightarrow> bool" where
  "same_but_repo s s' \<longleftrightarrow> s'\<lparr>ls_repo := ls_repo s\<rparr> = s"

lemma leak_init: "leak_inv (leak_state_init opts start)" "view (leak_state_init opts start) = Map.empty"
  by (simp_all add: leak_inv_def leak_state_init_def repo_init_inv view_def fun_eq_iff)

lemma view_None: "view s k = None \<longleftrightarrow> entry (ls_repo s) k = None"
  by (simp add: view_def)

lemma tracked_spec:
  assumes "leak_inv s" "view s (0, p) = None" "p \<noteq> 0"
  shows "\<exists>s'. tracked env family f p bytes s = Running p s' \<and> leak_inv s' \<and>
    view s' = (view s)((0, p) \<mapsto> (bytes, family, f)) \<and> same_but_repo s s'"
proof -
  let ?r = "repo_add env p bytes family f (ls_repo s)"
  have r: "?r = repo_put (0, p) (leak_data env (mr_collect (ls_repo s)) bytes family f) (ls_repo s)"
    by (simp add: repo_add_def repo_add_key_put)
  have "repo_inv ?r" "entry ?r = (entry (ls_repo s))((0, p) \<mapsto>
      leak_data env (mr_collect (ls_repo s)) bytes family f)"
    using repo.add_law assms(1) repo.add_fresh assms(1,2) unfolding r leak_inv_def view_None by blast+
  then show ?thesis
    using assms(3)
    by (auto simp: tracked_def add_block_def give_def leak_inv_def view_def leak_data_def
        same_but_repo_def fun_eq_iff)
qed

lemma tracked_null: "tracked env family f 0 bytes s = Running 0 s"
  by (simp add: tracked_def give_def)

lemma erase_block_spec:
  assumes "leak_inv s"
  shows "\<exists>s'. erase_block p s = Running () s' \<and> leak_inv s' \<and> view s' = (view s)((0, p) := None) \<and>
    same_but_repo s s'"
  using repo.del_law assms
  by (auto simp: erase_block_def change_def leak_inv_def view_def repo_erase_def same_but_repo_def
      fun_eq_iff)

lemma known_address_ok:
  assumes "view s (0, p) = Some (bytes, family, g)" "p \<noteq> 0"
  shows "known_address env p family f s = Running True s"
  using assms
  by (auto simp: known_address_def log_or_abort_if_memory_adddress_is_unknown_def view_def
      repo_get_data_def repo_get_key_entry give_def)

lemma known_address_null [simp]: "known_address env 0 family f = give False"
  by (simp add: known_address_def)

lemma report_running:
  assumes "m_on_error (ls_options s) \<noteq> On_Error_fail"
  shows "report text s = Running () (s\<lparr>ls_log := log_msg (ls_options s) info text (ls_log s)\<rparr>)"
  using assms by (simp add: report_def process_error_def Let_def)

lemma report_terminated:
  assumes "m_on_error (ls_options s) = On_Error_fail"
  shows "\<exists>s'. report text s = Terminated (m_exit_code (ls_options s)) s'"
  using assms by (simp add: report_def process_error_def Let_def)

text \<open>An address without a block: the report, and nothing is tracked or forgotten.\<close>

lemma known_address_unknown:
  assumes "view s (0, p) = None" "p \<noteq> 0" "m_on_error (ls_options s) \<noteq> On_Error_fail"
  shows "known_address env p family f s = Running False (s\<lparr>ls_log := log_msg (ls_options s) info
    (build_unknown_memory_address_text (ce_tid env) f p (ce_stack_text env)) (ls_log s)\<rparr>)"
  using assms
  by (auto simp: known_address_def log_or_abort_if_memory_adddress_is_unknown_def view_None
      repo_get_data_def repo_get_key_entry report_running give_def)

lemma known_address_unknown_fatal:
  assumes "view s (0, p) = None" "p \<noteq> 0" "m_on_error (ls_options s) = On_Error_fail"
  shows "\<exists>s'. known_address env p family f s = Terminated (m_exit_code (ls_options s)) s'"
proof -
  obtain s' where "report (build_unknown_memory_address_text (ce_tid env) f p (ce_stack_text env)) s =
      Terminated (m_exit_code (ls_options s)) s'"
    using report_terminated [OF assms(3)] by blast
  then show ?thesis
    using assms(1,2)
    by (auto simp: known_address_def log_or_abort_if_memory_adddress_is_unknown_def view_None
        repo_get_data_def repo_get_key_entry)
qed

lemma known_address_wrong_family:
  assumes "view s (0, p) = Some (bytes, stored, g)" "stored \<noteq> family" "p \<noteq> 0"
    and "m_on_error (ls_options s) \<noteq> On_Error_fail"
  shows "known_address env p family f s = Running True (s\<lparr>ls_log := log_msg (ls_options s) info
    (build_wrong_api_family_text (ce_tid env) f stored family p (ce_stack_text env)) (ls_log s)\<rparr>)"
  using assms
  by (auto simp: known_address_def log_or_abort_if_memory_adddress_is_unknown_def view_def
      repo_get_data_def repo_get_key_entry report_running give_def)

section \<open>What the shapes do\<close>

lemma same_but_repo_refl: "same_but_repo s s"
  by (simp add: same_but_repo_def)

lemma same_but_repo_trans: "same_but_repo s s' \<Longrightarrow> same_but_repo s' s'' \<Longrightarrow> same_but_repo s s''"
  by (cases s; cases s'; cases s'') (simp add: same_but_repo_def)

lemma same_but_repoD:
  assumes "same_but_repo s s'"
  shows "ls_log s' = ls_log s" "ls_calls s' = ls_calls s" "ls_options s' = ls_options s"
    "ls_next_check s' = ls_next_check s" "ls_check_busy s' = ls_check_busy s"
  using assms by (cases s; cases s'; simp add: same_but_repo_def)+

lemma only_if_erase_spec:
  assumes "leak_inv s"
  shows "\<exists>s'. only_if b (erase_block p) s = Running () s' \<and> leak_inv s' \<and>
    view s' = (if b then (view s)((0, p) := None) else view s) \<and> same_but_repo s s'"
  using erase_block_spec [OF assms, of p] assms
  by (auto simp: only_if_def give_def same_but_repo_refl)

lemma untracked_spec:
  assumes "leak_inv s" "view s (0, p) = Some (bytes, family, g)" "p \<noteq> 0"
  shows "\<exists>s'. untracked env family f p s = Running () s' \<and> leak_inv s' \<and>
    view s' = (view s)((0, p) := None) \<and> same_but_repo s s'"
  using only_if_erase_spec [OF assms(1), of True p]
  by (simp add: untracked_def known_address_ok [OF assms(2,3)])

lemma untracked_null: "untracked env family f 0 s = Running () s"
  by (simp add: untracked_def only_if_def give_def)

lemma retracked_spec:
  assumes inv: "leak_inv s" and p: "p \<noteq> 0"
    and block: "block = 0 \<or> (\<exists>b g. view s (0, block) = Some (b, family, g))"
    and fresh: "p = block \<or> view s (0, p) = None"
  shows "\<exists>s'. retracked env family f block frees p bytes s = Running p s' \<and> leak_inv s' \<and>
    view s' = (if block = 0 then view s else (view s)((0, block) := None))((0, p) \<mapsto> (bytes, family, f)) \<and>
    same_but_repo s s'"
proof -
  have k: "known_address env block family f s = Running (block \<noteq> 0) s"
    using block known_address_ok by (cases "block = 0") (auto simp: give_def)
  obtain s1 where s1: "only_if (block \<noteq> 0) (erase_block block) s = Running () s1" "leak_inv s1"
    "view s1 = (if block \<noteq> 0 then (view s)((0, block) := None) else view s)" "same_but_repo s s1"
    using only_if_erase_spec [OF inv] by blast
  have free: "view s1 (0, p) = None" using fresh s1(3) p by auto
  obtain s2 where s2: "tracked env family f p bytes s1 = Running p s2" "leak_inv s2"
    "view s2 = (view s1)((0, p) \<mapsto> (bytes, family, f))" "same_but_repo s1 s2"
    using tracked_spec [OF s1(2) free p] by blast
  have "retracked env family f block frees p bytes s = Running p s2"
    using k p s1(1) s2(1) by (simp add: retracked_def)
  then show ?thesis using s1 s2 same_but_repo_trans by auto
qed

lemma retracked_failed:
  assumes inv: "leak_inv s"
    and block: "block = 0 \<or> (\<exists>b g. view s (0, block) = Some (b, family, g))"
  shows "\<exists>s'. retracked env family f block frees 0 bytes s = Running 0 s' \<and> leak_inv s' \<and>
    view s' = (if frees \<and> block \<noteq> 0 then (view s)((0, block) := None) else view s) \<and>
    same_but_repo s s'"
proof -
  have k: "known_address env block family f s = Running (block \<noteq> 0) s"
    using block known_address_ok by (cases "block = 0") (auto simp: give_def)
  obtain s1 where "only_if (frees \<and> block \<noteq> 0) (erase_block block) s = Running () s1" "leak_inv s1"
    "view s1 = (if frees \<and> block \<noteq> 0 then (view s)((0, block) := None) else view s)" "same_but_repo s s1"
    using only_if_erase_spec [OF inv] by blast
  then show ?thesis using k by (simp add: retracked_def give_def)
qed

text \<open>The heap check of a healthy heap only moves the time of the next check.\<close>

lemma check_heap_periodic_healthy:
  assumes "he_heapchk_ok he" "he_validate_ok he"
  shows "\<exists>s'. check_heap_periodic env he s = Running () s' \<and> ls_repo s' = ls_repo s \<and>
    ls_options s' = ls_options s \<and> ls_calls s' = ls_calls s \<and> ls_check_busy s' = ls_check_busy s \<and>
    (ls_log s' = ls_log s \<or> ls_log s' = log_msg (ls_options s) trace (''check heap periodic'' @ nl) (ls_log s))"
  using assms
  by (auto simp: check_heap_periodic_def only_if_def give_def change_def andthen_def)

named_theorems shape "the monitors as instances of the three shapes"

end
