(* ===== verification/Call_Effects.thy ===== *)
theory Call_Effects
  imports Leak_Monitor
begin

text \<open>
  What one call of a monitored function does to the heap of the program: a block is born, dies or is
  resized, and which blocks a correct program may hand to which family. The lemmas say that the
  shapes of the monitors have the same effect on the table, without a report.
\<close>

section \<open>Effects on the heap\<close>

definition forget :: "('a, 's) action \<Rightarrow> (unit, 's) action" where
  "forget m = andthen m (\<lambda>_. give ())"

definition born :: "ptr \<Rightarrow> ptr \<Rightarrow> u64 \<times> api_family \<times> api_function \<Rightarrow> heap_view \<Rightarrow> heap_view" where
  "born heap p v H = (if p = 0 then H else H((heap, p) \<mapsto> v))"

definition dead :: "ptr \<Rightarrow> ptr \<Rightarrow> heap_view \<Rightarrow> heap_view" where
  "dead heap b H = (if b = 0 then H else H((heap, b) := None))"

definition resized :: "ptr \<Rightarrow> ptr \<Rightarrow> ptr \<Rightarrow> u64 \<times> api_family \<times> api_function \<Rightarrow> heap_view \<Rightarrow> heap_view" where
  "resized heap b p v H = (if p = 0 then H else born heap p v (dead heap b H))"

text \<open>A block is owned by a family; a result is a null pointer or an address that is free.\<close>

definition owned :: "heap_view \<Rightarrow> ptr \<Rightarrow> ptr \<Rightarrow> api_family \<Rightarrow> bool" where
  "owned H heap b family \<longleftrightarrow> b = 0 \<or> map_option (\<lambda>(n, fam, f). fam) (H (heap, b)) = Some family"

definition unused :: "heap_view \<Rightarrow> ptr \<Rightarrow> ptr \<Rightarrow> bool" where
  "unused H heap p \<longleftrightarrow> p = 0 \<or> H (heap, p) = None"

section \<open>Effects of the shapes\<close>

text \<open>What must not happen without an error: a report, or a change of the options.\<close>

definition reports :: "leak_state \<Rightarrow> log" where
  "reports s = filter (\<lambda>(l, text). l \<noteq> trace) (ls_log s)"

definition silent :: "leak_state \<Rightarrow> leak_state \<Rightarrow> bool" where
  "silent s s' \<longleftrightarrow> reports s' = reports s \<and> ls_options s' = ls_options s"

lemma silent_trans: "silent s s' \<Longrightarrow> silent s' s'' \<Longrightarrow> silent s s''"
  by (simp add: silent_def)

lemma silent_repo: "same_but_repo s s' \<Longrightarrow> silent s s'"
  by (simp add: silent_def reports_def same_but_repoD)

lemma counted: "andthen count_call (\<lambda>_. m) s = m (s\<lparr>ls_calls := ls_calls s + 1\<rparr>)"
  by (simp add: count_call_def)

lemma counted_simps [simp]:
  "view (s\<lparr>ls_calls := n\<rparr>) = view s" "leak_inv (s\<lparr>ls_calls := n\<rparr>) = leak_inv s"
  "silent (s\<lparr>ls_calls := n\<rparr>) s' = silent s s'"
  by (simp_all add: view_def fun_eq_iff leak_inv_def silent_def reports_def)

definition goes :: "(unit, leak_state) outcome \<Rightarrow> leak_state \<Rightarrow> heap_view \<Rightarrow> bool" where
  "goes r s H \<longleftrightarrow> (\<exists>s'. r = Running () s' \<and> leak_inv s' \<and> view s' = H \<and> silent s s')"

lemma goes_counted:
  "goes (forget (andthen count_call (\<lambda>_. m)) s) s H \<longleftrightarrow>
    goes (forget m (s\<lparr>ls_calls := ls_calls s + 1\<rparr>)) (s\<lparr>ls_calls := ls_calls s + 1\<rparr>) H"
  by (simp add: goes_def forget_def andthen_assoc counted)

lemma goes_forget: "m s = Running x s' \<Longrightarrow> leak_inv s' \<Longrightarrow> view s' = H \<Longrightarrow> same_but_repo s s' \<Longrightarrow>
    goes (forget m s) s H"
  by (simp add: goes_def forget_def give_def silent_repo)

lemma goes_tracked:
  assumes "leak_inv s" "unused (view s) 0 p"
  shows "goes (forget (tracked env family f p n) s) s (born 0 p (n, family, f) (view s))"
proof (cases "p = 0")
  case True
  then show ?thesis
    using assms(1) by (intro goes_forget [OF tracked_null [folded True]])
      (simp_all add: born_def same_but_repo_refl)
next
  case False
  then have "view s (0, p) = None" using assms(2) by (simp add: unused_def)
  then show ?thesis
    using tracked_spec [OF assms(1) _ False, of env family f n] goes_forget False
    by (metis born_def)
qed

lemma owned_live: "owned H 0 b family \<Longrightarrow> b = 0 \<or> (\<exists>n g. H (0, b) = Some (n, family, g))"
  by (auto simp: owned_def)

lemma goes_retracked:
  assumes "leak_inv s" "owned (view s) 0 b family" "p = b \<or> unused (view s) 0 p"
  shows "goes (forget (retracked env family f b frees p n) s) s
    (if p = 0 \<and> frees then dead 0 b (view s) else resized 0 b p (n, family, f) (view s))"
proof (cases "p = 0")
  case True
  then show ?thesis
    using retracked_failed [OF assms(1) owned_live [OF assms(2)], of env f frees n] goes_forget
    by (auto simp: dead_def resized_def)
next
  case False
  then have "p = b \<or> view s (0, p) = None" using assms(3) by (simp add: unused_def)
  then show ?thesis
    using retracked_spec [OF assms(1) False owned_live [OF assms(2)], of env f frees n] goes_forget False
    by (auto simp: dead_def resized_def born_def)
qed

lemma goes_untracked:
  assumes "leak_inv s" "owned (view s) 0 b family"
  obtains s' where "untracked env family f b s = Running () s'" "leak_inv s'"
    "view s' = dead 0 b (view s)" "same_but_repo s s'"
proof (cases "b = 0")
  case True
  then show ?thesis
    using that [of s] untracked_null assms(1) by (simp add: dead_def same_but_repo_refl)
next
  case False
  then obtain n g where "view s (0, b) = Some (n, family, g)" using owned_live [OF assms(2)] by auto
  from untracked_spec [OF assms(1) this False] show ?thesis using that False by (auto simp: dead_def)
qed

lemma goes_release:
  assumes "leak_inv s" "owned (view s) 0 b family"
  shows "goes (forget (andthen (untracked env family f b) (\<lambda>_. give x)) s) s (dead 0 b (view s))"
  by (rule goes_untracked [OF assms, of env f]) (simp add: goes_def forget_def give_def silent_repo)

lemma silent_check:
  assumes "he_heapchk_ok he" "he_validate_ok he" "leak_inv s"
  obtains s' where "check_heap_periodic env he s = Running () s'" "leak_inv s'" "view s' = view s"
    "silent s s'"
proof -
  obtain s' where "check_heap_periodic env he s = Running () s'" "ls_repo s' = ls_repo s"
    "ls_options s' = ls_options s" "ls_log s' = ls_log s \<or>
      ls_log s' = log_msg (ls_options s) trace (''check heap periodic'' @ nl) (ls_log s)"
    using check_heap_periodic_healthy [OF assms(1,2)] by blast
  then show ?thesis
    using that [of s'] assms(3)
    by (auto simp: leak_inv_def view_def fun_eq_iff silent_def reports_def log_msg_def)
qed

lemma add_block_spec:
  assumes "leak_inv s" "view s (0, p) = None"
  shows "\<exists>s'. add_block env p bytes family f s = Running () s' \<and> leak_inv s' \<and>
    view s' = (view s)((0, p) \<mapsto> (bytes, family, f))"
proof -
  let ?r = "repo_add env p bytes family f (ls_repo s)"
  have r: "?r = repo_put (0, p) (leak_data env (mr_collect (ls_repo s)) bytes family f) (ls_repo s)"
    by (simp add: repo_add_def repo_add_key_put)
  have "repo_inv ?r" "entry ?r = (entry (ls_repo s))((0, p) \<mapsto>
      leak_data env (mr_collect (ls_repo s)) bytes family f)"
    using repo.add_law assms(1) repo.add_fresh assms(1,2) unfolding r leak_inv_def view_None by blast+
  then show ?thesis
    by (auto simp: add_block_def change_def leak_inv_def view_def leak_data_def fun_eq_iff)
qed

text \<open>A function that hands out a block through a pointer argument.\<close>

lemma goes_add:
  assumes "leak_inv s" "p \<noteq> 0" "unused (view s) 0 p"
  shows "goes (forget (andthen (add_block env p n family f) (\<lambda>_. give x)) s) s (born 0 p (n, family, f) (view s))"
proof -
  obtain s' where "add_block env p n family f s = Running () s'" "leak_inv s'"
    "view s' = born 0 p (n, family, f) (view s)" "same_but_repo s s'"
    using tracked_spec [OF assms(1) _ assms(2), of env family f n] assms(2,3)
    by (auto simp: tracked_def unused_def born_def give_def andthen_def split: outcome.splits)
  then show ?thesis by (simp add: goes_def forget_def give_def silent_repo)
qed

lemma goes_nothing: "leak_inv s \<Longrightarrow> goes (forget (give x) s) s (view s)"
  by (simp add: goes_def forget_def give_def silent_def)


text \<open>The lemmas about the shapes, as rules.\<close>

lemma goes_trackedI:
  "leak_inv s \<Longrightarrow> unused (view s) 0 p \<Longrightarrow> H = born 0 p (n, family, f) (view s) \<Longrightarrow>
     goes (forget (tracked env family f p n) s) s H"
  using goes_tracked by simp

lemma goes_retrackedI:
  "leak_inv s \<Longrightarrow> owned (view s) 0 q family \<Longrightarrow> p = q \<or> unused (view s) 0 p \<Longrightarrow>
     H = (if p = 0 \<and> frees then dead 0 q (view s) else resized 0 q p (n, family, f) (view s)) \<Longrightarrow>
     goes (forget (retracked env family f q frees p n) s) s H"
  using goes_retracked by simp

lemma goes_addI:
  "leak_inv s \<Longrightarrow> p \<noteq> 0 \<Longrightarrow> unused (view s) 0 p \<Longrightarrow> H = born 0 p (n, family, f) (view s) \<Longrightarrow>
     goes (forget (andthen (add_block env p n family f) (\<lambda>_. give x)) s) s H"
  using goes_add by simp

lemma goes_giveI: "leak_inv s \<Longrightarrow> H = view s \<Longrightarrow> goes (forget (give x) s) s H"
  using goes_nothing by simp

lemma goes_releaseI:
  "leak_inv s \<Longrightarrow> owned (view s) 0 q family \<Longrightarrow> H = dead 0 q (view s) \<Longrightarrow>
     goes (forget (andthen (untracked env family f q) (\<lambda>_. give x)) s) s H"
  using goes_release by simp

lemma goes_untrackedI:
  "leak_inv s \<Longrightarrow> owned (view s) 0 q family \<Longrightarrow> H = dead 0 q (view s) \<Longrightarrow>
     goes (forget (untracked env family f q) s) s H"
  using goes_release [of s q family env f "()"] by simp

lemmas goesI = goes_trackedI goes_retrackedI goes_addI goes_giveI goes_releaseI goes_untrackedI

end
