(* ===== verification/Malloc_Monitor.thy ===== *)
theory Malloc_Monitor
  imports Leak_Monitor
begin

text \<open>
  The monitors of the C runtime's allocation functions: \<^verbatim>\<open>leak_check/malloc_monitor.hpp\<close> and
  \<^verbatim>\<open>strdup_monitor.hpp\<close>, one definition per member function. The argument \<open>fptr\<close> is the original
  function (\<^verbatim>\<open>malloc_fptr\<close>, ...), \<open>strlen\<close> and \<open>wcslen\<close> read the program's memory. A function that
  writes through a pointer to a pointer returns the written values in a tuple. Assertions are off,
  as in the release build. Each monitor is shown to be an instance of one of the shapes.
\<close>

definition sizeof_wchar :: u64 where
  "sizeof_wchar = 2"

section \<open>Allocation\<close>

definition bi_malloc ::
  "call_env \<Rightarrow> (u64 \<Rightarrow> ptr) \<Rightarrow> u64 \<Rightarrow> ptr leak_action" where
  "bi_malloc env fptr bytes =
     andthen count_call (\<lambda>_.
     let p = fptr bytes
     in if p = 0 then give p
        else andthen (add_block env p bytes e_malloc_family e_malloc) (\<lambda>_. give p))"

lemma bi_malloc_shape [shape]:
  "bi_malloc env fptr bytes =
     andthen count_call (\<lambda>_. tracked env e_malloc_family e_malloc (fptr bytes) bytes)"
  by (simp add: bi_malloc_def tracked_def Let_def)

definition bi__malloc_dbg ::
  "call_env \<Rightarrow> (u64 \<Rightarrow> int \<Rightarrow> ptr \<Rightarrow> int \<Rightarrow> ptr) \<Rightarrow> u64 \<Rightarrow> int \<Rightarrow> ptr \<Rightarrow> int \<Rightarrow> ptr leak_action" where
  "bi__malloc_dbg env fptr bytes blockType filename linenumber =
     andthen count_call (\<lambda>_.
     let p = fptr bytes blockType filename linenumber
     in if p = 0 then give p
        else andthen (add_block env p bytes e_malloc_family e__malloc_dbg) (\<lambda>_. give p))"

lemma bi__malloc_dbg_shape [shape]:
  "bi__malloc_dbg env fptr bytes blockType filename linenumber =
     andthen count_call (\<lambda>_. tracked env e_malloc_family e__malloc_dbg (fptr bytes blockType filename linenumber) bytes)"
  by (simp add: bi__malloc_dbg_def tracked_def Let_def)

definition bi_calloc ::
  "call_env \<Rightarrow> (u64 \<Rightarrow> u64 \<Rightarrow> ptr) \<Rightarrow> u64 \<Rightarrow> u64 \<Rightarrow> ptr leak_action" where
  "bi_calloc env fptr num bytes =
     andthen count_call (\<lambda>_.
     let p = fptr num bytes
     in if p = 0 then give p
        else andthen (add_block env p (num * bytes) e_malloc_family e_calloc) (\<lambda>_. give p))"

lemma bi_calloc_shape [shape]:
  "bi_calloc env fptr num bytes =
     andthen count_call (\<lambda>_. tracked env e_malloc_family e_calloc (fptr num bytes) (num * bytes))"
  by (simp add: bi_calloc_def tracked_def Let_def)

definition bi__calloc_dbg ::
  "call_env \<Rightarrow> (u64 \<Rightarrow> u64 \<Rightarrow> int \<Rightarrow> ptr \<Rightarrow> int \<Rightarrow> ptr) \<Rightarrow> u64 \<Rightarrow> u64 \<Rightarrow> int \<Rightarrow> ptr \<Rightarrow> int \<Rightarrow> ptr leak_action" where
  "bi__calloc_dbg env fptr num bytes blockType filename linenumber =
     andthen count_call (\<lambda>_.
     let p = fptr num bytes blockType filename linenumber
     in if p = 0 then give p
        else andthen (add_block env p (num * bytes) e_malloc_family e__calloc_dbg) (\<lambda>_. give p))"

lemma bi__calloc_dbg_shape [shape]:
  "bi__calloc_dbg env fptr num bytes blockType filename linenumber =
     andthen count_call (\<lambda>_. tracked env e_malloc_family e__calloc_dbg (fptr num bytes blockType filename linenumber) (num * bytes))"
  by (simp add: bi__calloc_dbg_def tracked_def Let_def)

section \<open>Reallocation\<close>

definition bi_realloc ::
  "call_env \<Rightarrow> (ptr \<Rightarrow> u64 \<Rightarrow> ptr) \<Rightarrow> ptr \<Rightarrow> u64 \<Rightarrow> ptr leak_action" where
  "bi_realloc env fptr memblock bytes =
     andthen count_call (\<lambda>_.
     andthen (known_address env memblock e_malloc_family e_realloc) (\<lambda>found.
     let p = fptr memblock bytes
     in if p = 0 then andthen (only_if (memblock \<noteq> 0 \<and> bytes = 0 \<and> found) (erase_block memblock)) (\<lambda>_. give p)
        else andthen (only_if found (erase_block memblock)) (\<lambda>_.
          andthen (add_block env p bytes e_malloc_family e_realloc) (\<lambda>_. give p))))"

lemma bi_realloc_shape [shape]:
  "bi_realloc env fptr memblock bytes =
     andthen count_call (\<lambda>_. retracked env e_malloc_family e_realloc memblock (bytes = 0) (fptr memblock bytes) bytes)"
  by (cases "memblock = 0")
    (simp_all add: bi_realloc_def retracked_def tracked_def only_if_def Let_def cong: if_cong)

definition bi__realloc_dbg ::
  "call_env \<Rightarrow> (ptr \<Rightarrow> u64 \<Rightarrow> int \<Rightarrow> ptr \<Rightarrow> int \<Rightarrow> ptr) \<Rightarrow> ptr \<Rightarrow> u64 \<Rightarrow> int \<Rightarrow> ptr \<Rightarrow> int \<Rightarrow> ptr leak_action" where
  "bi__realloc_dbg env fptr block newSize blockType filename linenumber =
     andthen count_call (\<lambda>_.
     andthen (known_address env block e_malloc_family e__realloc_dbg) (\<lambda>found.
     let p = fptr block newSize blockType filename linenumber
     in if p = 0 then andthen (only_if (block \<noteq> 0 \<and> newSize = 0 \<and> found) (erase_block block)) (\<lambda>_. give p)
        else andthen (only_if (block \<noteq> 0 \<and> found) (erase_block block)) (\<lambda>_.
          andthen (add_block env p newSize e_malloc_family e__realloc_dbg) (\<lambda>_. give p))))"

lemma bi__realloc_dbg_shape [shape]:
  "bi__realloc_dbg env fptr block newSize blockType filename linenumber =
     andthen count_call (\<lambda>_. retracked env e_malloc_family e__realloc_dbg block (newSize = 0) (fptr block newSize blockType filename linenumber) newSize)"
  by (cases "block = 0")
    (simp_all add: bi__realloc_dbg_def retracked_def tracked_def only_if_def Let_def cong: if_cong)

definition bi__recalloc ::
  "call_env \<Rightarrow> (ptr \<Rightarrow> u64 \<Rightarrow> u64 \<Rightarrow> ptr) \<Rightarrow> ptr \<Rightarrow> u64 \<Rightarrow> u64 \<Rightarrow> ptr leak_action" where
  "bi__recalloc env fptr memblock num bytes =
     andthen count_call (\<lambda>_.
     andthen (known_address env memblock e_malloc_family e__recalloc) (\<lambda>found.
     let p = fptr memblock num bytes
     in if p = 0 then andthen (only_if (memblock \<noteq> 0 \<and> bytes = 0 \<and> found) (erase_block memblock)) (\<lambda>_. give p)
        else andthen (only_if (memblock \<noteq> 0 \<and> found) (erase_block memblock)) (\<lambda>_.
          andthen (add_block env p (num * bytes) e_malloc_family e__recalloc) (\<lambda>_. give p))))"

lemma bi__recalloc_shape [shape]:
  "bi__recalloc env fptr memblock num bytes =
     andthen count_call (\<lambda>_. retracked env e_malloc_family e__recalloc memblock (bytes = 0) (fptr memblock num bytes) (num * bytes))"
  by (cases "memblock = 0")
    (simp_all add: bi__recalloc_def retracked_def tracked_def only_if_def Let_def cong: if_cong)

definition bi__recalloc_dbg ::
  "call_env \<Rightarrow> (ptr \<Rightarrow> u64 \<Rightarrow> u64 \<Rightarrow> int \<Rightarrow> ptr \<Rightarrow> int \<Rightarrow> ptr) \<Rightarrow> ptr \<Rightarrow> u64 \<Rightarrow> u64 \<Rightarrow> int \<Rightarrow> ptr \<Rightarrow> int \<Rightarrow> ptr leak_action" where
  "bi__recalloc_dbg env fptr memblock num bytes blockType filename linenumber =
     andthen count_call (\<lambda>_.
     andthen (known_address env memblock e_malloc_family e__recalloc_dbg) (\<lambda>found.
     let p = fptr memblock num bytes blockType filename linenumber
     in if p = 0 then andthen (only_if (memblock \<noteq> 0 \<and> bytes = 0 \<and> found) (erase_block memblock)) (\<lambda>_. give p)
        else andthen (only_if (memblock \<noteq> 0 \<and> found) (erase_block memblock)) (\<lambda>_.
          andthen (add_block env p (num * bytes) e_malloc_family e__recalloc_dbg) (\<lambda>_. give p))))"

lemma bi__recalloc_dbg_shape [shape]:
  "bi__recalloc_dbg env fptr memblock num bytes blockType filename linenumber =
     andthen count_call (\<lambda>_. retracked env e_malloc_family e__recalloc_dbg memblock (bytes = 0) (fptr memblock num bytes blockType filename linenumber) (num * bytes))"
  by (cases "memblock = 0")
    (simp_all add: bi__recalloc_dbg_def retracked_def tracked_def only_if_def Let_def cong: if_cong)

definition bi__expand ::
  "call_env \<Rightarrow> (ptr \<Rightarrow> u64 \<Rightarrow> ptr) \<Rightarrow> ptr \<Rightarrow> u64 \<Rightarrow> ptr leak_action" where
  "bi__expand env fptr memblock bytes =
     andthen count_call (\<lambda>_.
     andthen (known_address env memblock e_malloc_family e__expand) (\<lambda>found.
     let p = fptr memblock bytes
     in if p = 0 then give p
        else andthen (only_if found (erase_block memblock)) (\<lambda>_.
          andthen (add_block env p bytes e_malloc_family e__expand) (\<lambda>_. give p))))"

lemma bi__expand_shape [shape]:
  "bi__expand env fptr memblock bytes =
     andthen count_call (\<lambda>_. retracked env e_malloc_family e__expand memblock False (fptr memblock bytes) bytes)"
  by (cases "memblock = 0")
    (simp_all add: bi__expand_def retracked_def tracked_def only_if_def Let_def cong: if_cong)

definition bi__expand_dbg ::
  "call_env \<Rightarrow> (ptr \<Rightarrow> u64 \<Rightarrow> int \<Rightarrow> ptr \<Rightarrow> int \<Rightarrow> ptr) \<Rightarrow> ptr \<Rightarrow> u64 \<Rightarrow> int \<Rightarrow> ptr \<Rightarrow> int \<Rightarrow> ptr leak_action" where
  "bi__expand_dbg env fptr userData newSize blockType filename linenumber =
     andthen count_call (\<lambda>_.
     andthen (known_address env userData e_malloc_family e__expand_dbg) (\<lambda>found.
     let p = fptr userData newSize blockType filename linenumber
     in if p = 0 then give p
        else andthen (only_if found (erase_block userData)) (\<lambda>_.
          andthen (add_block env p newSize e_malloc_family e__expand_dbg) (\<lambda>_. give p))))"

lemma bi__expand_dbg_shape [shape]:
  "bi__expand_dbg env fptr userData newSize blockType filename linenumber =
     andthen count_call (\<lambda>_. retracked env e_malloc_family e__expand_dbg userData False (fptr userData newSize blockType filename linenumber) newSize)"
  by (cases "userData = 0")
    (simp_all add: bi__expand_dbg_def retracked_def tracked_def only_if_def Let_def cong: if_cong)

section \<open>Functions that return a new string\<close>

definition bi__getcwd ::
  "call_env \<Rightarrow> (ptr \<Rightarrow> u64) \<Rightarrow> (ptr \<Rightarrow> int \<Rightarrow> ptr) \<Rightarrow> ptr \<Rightarrow> int \<Rightarrow> ptr leak_action" where
  "bi__getcwd env strlen fptr buffer maxlen =
     andthen count_call (\<lambda>_.
     let c = fptr buffer maxlen
     in if c = 0 \<or> buffer \<noteq> 0 then give c
        else andthen (add_block env c (strlen c + 1) e_malloc_family e__getcwd) (\<lambda>_. give c))"

lemma bi__getcwd_shape [shape]:
  "bi__getcwd env strlen fptr buffer maxlen =
     andthen count_call (\<lambda>_. let c = fptr buffer maxlen in
       if buffer \<noteq> 0 then give c else tracked env e_malloc_family e__getcwd c (strlen c + 1))"
  by (simp add: bi__getcwd_def tracked_def Let_def)

definition bi__getcwd_dbg ::
  "call_env \<Rightarrow> (ptr \<Rightarrow> u64) \<Rightarrow> (ptr \<Rightarrow> int \<Rightarrow> int \<Rightarrow> ptr \<Rightarrow> int \<Rightarrow> ptr) \<Rightarrow> ptr \<Rightarrow> int \<Rightarrow> int \<Rightarrow> ptr \<Rightarrow> int \<Rightarrow> ptr leak_action" where
  "bi__getcwd_dbg env strlen fptr buffer maxlen blockType filename linenumber =
     andthen count_call (\<lambda>_.
     let c = fptr buffer maxlen blockType filename linenumber
     in if c = 0 \<or> buffer \<noteq> 0 then give c
        else andthen (add_block env c (strlen c + 1) e_malloc_family e__getcwd_dbg) (\<lambda>_. give c))"

lemma bi__getcwd_dbg_shape [shape]:
  "bi__getcwd_dbg env strlen fptr buffer maxlen blockType filename linenumber =
     andthen count_call (\<lambda>_. let c = fptr buffer maxlen blockType filename linenumber in
       if buffer \<noteq> 0 then give c else tracked env e_malloc_family e__getcwd_dbg c (strlen c + 1))"
  by (simp add: bi__getcwd_dbg_def tracked_def Let_def)

definition bi__wgetcwd ::
  "call_env \<Rightarrow> (ptr \<Rightarrow> u64) \<Rightarrow> (ptr \<Rightarrow> int \<Rightarrow> ptr) \<Rightarrow> ptr \<Rightarrow> int \<Rightarrow> ptr leak_action" where
  "bi__wgetcwd env wcslen fptr buffer maxlen =
     andthen count_call (\<lambda>_.
     let c = fptr buffer maxlen
     in if c = 0 \<or> buffer \<noteq> 0 then give c
        else andthen (add_block env c ((wcslen c + 1) * sizeof_wchar) e_malloc_family e__wgetcwd) (\<lambda>_. give c))"

lemma bi__wgetcwd_shape [shape]:
  "bi__wgetcwd env wcslen fptr buffer maxlen =
     andthen count_call (\<lambda>_. let c = fptr buffer maxlen in
       if buffer \<noteq> 0 then give c else tracked env e_malloc_family e__wgetcwd c ((wcslen c + 1) * sizeof_wchar))"
  by (simp add: bi__wgetcwd_def tracked_def Let_def)

definition bi__wgetcwd_dbg ::
  "call_env \<Rightarrow> (ptr \<Rightarrow> u64) \<Rightarrow> (ptr \<Rightarrow> int \<Rightarrow> int \<Rightarrow> ptr \<Rightarrow> int \<Rightarrow> ptr) \<Rightarrow> ptr \<Rightarrow> int \<Rightarrow> int \<Rightarrow> ptr \<Rightarrow> int \<Rightarrow> ptr leak_action" where
  "bi__wgetcwd_dbg env wcslen fptr buffer maxlen blockType filename linenumber =
     andthen count_call (\<lambda>_.
     let c = fptr buffer maxlen blockType filename linenumber
     in if c = 0 \<or> buffer \<noteq> 0 then give c
        else andthen (add_block env c ((wcslen c + 1) * sizeof_wchar) e_malloc_family e__wgetcwd_dbg) (\<lambda>_. give c))"

lemma bi__wgetcwd_dbg_shape [shape]:
  "bi__wgetcwd_dbg env wcslen fptr buffer maxlen blockType filename linenumber =
     andthen count_call (\<lambda>_. let c = fptr buffer maxlen blockType filename linenumber in
       if buffer \<noteq> 0 then give c else tracked env e_malloc_family e__wgetcwd_dbg c ((wcslen c + 1) * sizeof_wchar))"
  by (simp add: bi__wgetcwd_dbg_def tracked_def Let_def)

definition bi__getdcwd ::
  "call_env \<Rightarrow> (ptr \<Rightarrow> u64) \<Rightarrow> (int \<Rightarrow> ptr \<Rightarrow> int \<Rightarrow> ptr) \<Rightarrow> int \<Rightarrow> ptr \<Rightarrow> int \<Rightarrow> ptr leak_action" where
  "bi__getdcwd env strlen fptr drive buffer maxlen =
     andthen count_call (\<lambda>_.
     let c = fptr drive buffer maxlen
     in if c = 0 \<or> buffer \<noteq> 0 then give c
        else andthen (add_block env c (strlen c + 1) e_malloc_family e__getdcwd) (\<lambda>_. give c))"

lemma bi__getdcwd_shape [shape]:
  "bi__getdcwd env strlen fptr drive buffer maxlen =
     andthen count_call (\<lambda>_. let c = fptr drive buffer maxlen in
       if buffer \<noteq> 0 then give c else tracked env e_malloc_family e__getdcwd c (strlen c + 1))"
  by (simp add: bi__getdcwd_def tracked_def Let_def)

definition bi__getdcwd_dbg ::
  "call_env \<Rightarrow> (ptr \<Rightarrow> u64) \<Rightarrow> (int \<Rightarrow> ptr \<Rightarrow> int \<Rightarrow> int \<Rightarrow> ptr \<Rightarrow> int \<Rightarrow> ptr) \<Rightarrow> int \<Rightarrow> ptr \<Rightarrow> int \<Rightarrow> int \<Rightarrow> ptr \<Rightarrow> int \<Rightarrow> ptr leak_action" where
  "bi__getdcwd_dbg env strlen fptr drive buffer maxlen blockType filename linenumber =
     andthen count_call (\<lambda>_.
     let c = fptr drive buffer maxlen blockType filename linenumber
     in if c = 0 \<or> buffer \<noteq> 0 then give c
        else andthen (add_block env c (strlen c + 1) e_malloc_family e__getdcwd_dbg) (\<lambda>_. give c))"

lemma bi__getdcwd_dbg_shape [shape]:
  "bi__getdcwd_dbg env strlen fptr drive buffer maxlen blockType filename linenumber =
     andthen count_call (\<lambda>_. let c = fptr drive buffer maxlen blockType filename linenumber in
       if buffer \<noteq> 0 then give c else tracked env e_malloc_family e__getdcwd_dbg c (strlen c + 1))"
  by (simp add: bi__getdcwd_dbg_def tracked_def Let_def)

definition bi__wgetdcwd ::
  "call_env \<Rightarrow> (ptr \<Rightarrow> u64) \<Rightarrow> (int \<Rightarrow> ptr \<Rightarrow> int \<Rightarrow> ptr) \<Rightarrow> int \<Rightarrow> ptr \<Rightarrow> int \<Rightarrow> ptr leak_action" where
  "bi__wgetdcwd env wcslen fptr drive buffer maxlen =
     andthen count_call (\<lambda>_.
     let c = fptr drive buffer maxlen
     in if c = 0 \<or> buffer \<noteq> 0 then give c
        else andthen (add_block env c ((wcslen c + 1) * sizeof_wchar) e_malloc_family e__wgetdcwd) (\<lambda>_. give c))"

lemma bi__wgetdcwd_shape [shape]:
  "bi__wgetdcwd env wcslen fptr drive buffer maxlen =
     andthen count_call (\<lambda>_. let c = fptr drive buffer maxlen in
       if buffer \<noteq> 0 then give c else tracked env e_malloc_family e__wgetdcwd c ((wcslen c + 1) * sizeof_wchar))"
  by (simp add: bi__wgetdcwd_def tracked_def Let_def)

definition bi__wgetdcwd_dbg ::
  "call_env \<Rightarrow> (ptr \<Rightarrow> u64) \<Rightarrow> (int \<Rightarrow> ptr \<Rightarrow> int \<Rightarrow> int \<Rightarrow> ptr \<Rightarrow> int \<Rightarrow> ptr) \<Rightarrow> int \<Rightarrow> ptr \<Rightarrow> int \<Rightarrow> int \<Rightarrow> ptr \<Rightarrow> int \<Rightarrow> ptr leak_action" where
  "bi__wgetdcwd_dbg env wcslen fptr drive buffer maxlen blockType filename linenumber =
     andthen count_call (\<lambda>_.
     let c = fptr drive buffer maxlen blockType filename linenumber
     in if c = 0 \<or> buffer \<noteq> 0 then give c
        else andthen (add_block env c ((wcslen c + 1) * sizeof_wchar) e_malloc_family e__wgetdcwd_dbg) (\<lambda>_. give c))"

lemma bi__wgetdcwd_dbg_shape [shape]:
  "bi__wgetdcwd_dbg env wcslen fptr drive buffer maxlen blockType filename linenumber =
     andthen count_call (\<lambda>_. let c = fptr drive buffer maxlen blockType filename linenumber in
       if buffer \<noteq> 0 then give c else tracked env e_malloc_family e__wgetdcwd_dbg c ((wcslen c + 1) * sizeof_wchar))"
  by (simp add: bi__wgetdcwd_dbg_def tracked_def Let_def)

definition bi__tempnam ::
  "call_env \<Rightarrow> (ptr \<Rightarrow> u64) \<Rightarrow> (ptr \<Rightarrow> ptr \<Rightarrow> ptr) \<Rightarrow> ptr \<Rightarrow> ptr \<Rightarrow> ptr leak_action" where
  "bi__tempnam env strlen fptr dir pre =
     andthen count_call (\<lambda>_.
     let c = fptr dir pre
     in if c = 0 then give c
        else andthen (add_block env c (strlen c + 1) e_malloc_family e__tempnam) (\<lambda>_. give c))"

lemma bi__tempnam_shape [shape]:
  "bi__tempnam env strlen fptr dir pre =
     andthen count_call (\<lambda>_. let c = fptr dir pre in tracked env e_malloc_family e__tempnam c (strlen c + 1))"
  by (simp add: bi__tempnam_def tracked_def Let_def)

definition bi__tempnam_dbg ::
  "call_env \<Rightarrow> (ptr \<Rightarrow> u64) \<Rightarrow> (ptr \<Rightarrow> ptr \<Rightarrow> int \<Rightarrow> ptr \<Rightarrow> int \<Rightarrow> ptr) \<Rightarrow> ptr \<Rightarrow> ptr \<Rightarrow> int \<Rightarrow> ptr \<Rightarrow> int \<Rightarrow> ptr leak_action" where
  "bi__tempnam_dbg env strlen fptr dir pre blockType filename linenumber =
     andthen count_call (\<lambda>_.
     let c = fptr dir pre blockType filename linenumber
     in if c = 0 then give c
        else andthen (add_block env c (strlen c + 1) e_malloc_family e__tempnam_dbg) (\<lambda>_. give c))"

lemma bi__tempnam_dbg_shape [shape]:
  "bi__tempnam_dbg env strlen fptr dir pre blockType filename linenumber =
     andthen count_call (\<lambda>_. let c = fptr dir pre blockType filename linenumber in tracked env e_malloc_family e__tempnam_dbg c (strlen c + 1))"
  by (simp add: bi__tempnam_dbg_def tracked_def Let_def)

definition bi__wtempnam ::
  "call_env \<Rightarrow> (ptr \<Rightarrow> u64) \<Rightarrow> (ptr \<Rightarrow> ptr \<Rightarrow> ptr) \<Rightarrow> ptr \<Rightarrow> ptr \<Rightarrow> ptr leak_action" where
  "bi__wtempnam env wcslen fptr dir pre =
     andthen count_call (\<lambda>_.
     let c = fptr dir pre
     in if c = 0 then give c
        else andthen (add_block env c ((wcslen c + 1) * sizeof_wchar) e_malloc_family e__wtempnam) (\<lambda>_. give c))"

lemma bi__wtempnam_shape [shape]:
  "bi__wtempnam env wcslen fptr dir pre =
     andthen count_call (\<lambda>_. let c = fptr dir pre in tracked env e_malloc_family e__wtempnam c ((wcslen c + 1) * sizeof_wchar))"
  by (simp add: bi__wtempnam_def tracked_def Let_def)

definition bi__wtempnam_dbg ::
  "call_env \<Rightarrow> (ptr \<Rightarrow> u64) \<Rightarrow> (ptr \<Rightarrow> ptr \<Rightarrow> int \<Rightarrow> ptr \<Rightarrow> int \<Rightarrow> ptr) \<Rightarrow> ptr \<Rightarrow> ptr \<Rightarrow> int \<Rightarrow> ptr \<Rightarrow> int \<Rightarrow> ptr leak_action" where
  "bi__wtempnam_dbg env wcslen fptr dir pre blockType filename linenumber =
     andthen count_call (\<lambda>_.
     let c = fptr dir pre blockType filename linenumber
     in if c = 0 then give c
        else andthen (add_block env c ((wcslen c + 1) * sizeof_wchar) e_malloc_family e__wtempnam_dbg) (\<lambda>_. give c))"

lemma bi__wtempnam_dbg_shape [shape]:
  "bi__wtempnam_dbg env wcslen fptr dir pre blockType filename linenumber =
     andthen count_call (\<lambda>_. let c = fptr dir pre blockType filename linenumber in tracked env e_malloc_family e__wtempnam_dbg c ((wcslen c + 1) * sizeof_wchar))"
  by (simp add: bi__wtempnam_dbg_def tracked_def Let_def)

definition bi__dupenv_s ::
  "call_env \<Rightarrow> (ptr \<Rightarrow> int \<times> ptr \<times> u64) \<Rightarrow> ptr \<Rightarrow> (int \<times> ptr \<times> u64) leak_action" where
  "bi__dupenv_s env fptr var_name =
     andthen count_call (\<lambda>_.
     let (e, buffer, buffer_count) = fptr var_name
     in if e \<noteq> 0 then give (e, buffer, buffer_count)
        else andthen (add_block env buffer buffer_count e_malloc_family e__dupenv_s) (\<lambda>_.
          give (e, buffer, buffer_count)))"

definition bi__dupenv_s_dbg ::
  "call_env \<Rightarrow> (ptr \<Rightarrow> int \<Rightarrow> ptr \<Rightarrow> int \<Rightarrow> int \<times> ptr \<times> u64) \<Rightarrow> ptr \<Rightarrow> int \<Rightarrow> ptr \<Rightarrow> int \<Rightarrow> (int \<times> ptr \<times> u64) leak_action" where
  "bi__dupenv_s_dbg env fptr var_name blockType filename linenumber =
     andthen count_call (\<lambda>_.
     let (e, buffer, buffer_count) = fptr var_name blockType filename linenumber
     in if e \<noteq> 0 then give (e, buffer, buffer_count)
        else andthen (add_block env buffer buffer_count e_malloc_family e__dupenv_s_dbg) (\<lambda>_.
          give (e, buffer, buffer_count)))"

definition bi__wdupenv_s ::
  "call_env \<Rightarrow> (ptr \<Rightarrow> int \<times> ptr \<times> u64) \<Rightarrow> ptr \<Rightarrow> (int \<times> ptr \<times> u64) leak_action" where
  "bi__wdupenv_s env fptr var_name =
     andthen count_call (\<lambda>_.
     let (e, buffer, buffer_count) = fptr var_name
     in if e \<noteq> 0 then give (e, buffer, buffer_count)
        else andthen (add_block env buffer (buffer_count * sizeof_wchar) e_malloc_family e__wdupenv_s) (\<lambda>_.
          give (e, buffer, buffer_count)))"

definition bi__wdupenv_dbg_s ::
  "call_env \<Rightarrow> (ptr \<Rightarrow> int \<Rightarrow> ptr \<Rightarrow> int \<Rightarrow> int \<times> ptr \<times> u64) \<Rightarrow> ptr \<Rightarrow> int \<Rightarrow> ptr \<Rightarrow> int \<Rightarrow> (int \<times> ptr \<times> u64) leak_action" where
  "bi__wdupenv_dbg_s env fptr var_name blockType filename linenumber =
     andthen count_call (\<lambda>_.
     let (e, buffer, buffer_count) = fptr var_name blockType filename linenumber
     in if e \<noteq> 0 then give (e, buffer, buffer_count)
        else andthen (add_block env buffer (buffer_count * sizeof_wchar) e_malloc_family e__wdupenv_s_dbg) (\<lambda>_.
          give (e, buffer, buffer_count)))"

definition bi__fullpath ::
  "call_env \<Rightarrow> (ptr \<Rightarrow> u64) \<Rightarrow> (ptr \<Rightarrow> ptr \<Rightarrow> u64 \<Rightarrow> ptr) \<Rightarrow> ptr \<Rightarrow> ptr \<Rightarrow> u64 \<Rightarrow> ptr leak_action" where
  "bi__fullpath env strlen fptr buffer path buffer_count =
     andthen count_call (\<lambda>_.
     let c = fptr buffer path buffer_count
     in if c = 0 \<or> buffer \<noteq> 0 then give c
        else andthen (add_block env c (strlen c + 1) e_malloc_family e__fullpath) (\<lambda>_. give c))"

lemma bi__fullpath_shape [shape]:
  "bi__fullpath env strlen fptr buffer path buffer_count =
     andthen count_call (\<lambda>_. let c = fptr buffer path buffer_count in
       if buffer \<noteq> 0 then give c else tracked env e_malloc_family e__fullpath c (strlen c + 1))"
  by (simp add: bi__fullpath_def tracked_def Let_def)

definition bi__fullpath_dbg ::
  "call_env \<Rightarrow> (ptr \<Rightarrow> u64) \<Rightarrow> (ptr \<Rightarrow> ptr \<Rightarrow> u64 \<Rightarrow> int \<Rightarrow> ptr \<Rightarrow> int \<Rightarrow> ptr) \<Rightarrow> ptr \<Rightarrow> ptr \<Rightarrow> u64 \<Rightarrow> int \<Rightarrow> ptr \<Rightarrow> int \<Rightarrow> ptr leak_action" where
  "bi__fullpath_dbg env strlen fptr buffer path buffer_count blockType filename linenumber =
     andthen count_call (\<lambda>_.
     let c = fptr buffer path buffer_count blockType filename linenumber
     in if c = 0 \<or> buffer \<noteq> 0 then give c
        else andthen (add_block env c (strlen c + 1) e_malloc_family e__fullpath_dbg) (\<lambda>_. give c))"

lemma bi__fullpath_dbg_shape [shape]:
  "bi__fullpath_dbg env strlen fptr buffer path buffer_count blockType filename linenumber =
     andthen count_call (\<lambda>_. let c = fptr buffer path buffer_count blockType filename linenumber in
       if buffer \<noteq> 0 then give c else tracked env e_malloc_family e__fullpath_dbg c (strlen c + 1))"
  by (simp add: bi__fullpath_dbg_def tracked_def Let_def)

definition bi__wfullpath ::
  "call_env \<Rightarrow> (ptr \<Rightarrow> u64) \<Rightarrow> (ptr \<Rightarrow> ptr \<Rightarrow> u64 \<Rightarrow> ptr) \<Rightarrow> ptr \<Rightarrow> ptr \<Rightarrow> u64 \<Rightarrow> ptr leak_action" where
  "bi__wfullpath env wcslen fptr buffer path buffer_count =
     andthen count_call (\<lambda>_.
     let c = fptr buffer path buffer_count
     in if c = 0 \<or> buffer \<noteq> 0 then give c
        else andthen (add_block env c ((wcslen c + 1) * sizeof_wchar) e_malloc_family e__wfullpath) (\<lambda>_. give c))"

lemma bi__wfullpath_shape [shape]:
  "bi__wfullpath env wcslen fptr buffer path buffer_count =
     andthen count_call (\<lambda>_. let c = fptr buffer path buffer_count in
       if buffer \<noteq> 0 then give c else tracked env e_malloc_family e__wfullpath c ((wcslen c + 1) * sizeof_wchar))"
  by (simp add: bi__wfullpath_def tracked_def Let_def)

definition bi__wfullpath_dbg ::
  "call_env \<Rightarrow> (ptr \<Rightarrow> u64) \<Rightarrow> (ptr \<Rightarrow> ptr \<Rightarrow> u64 \<Rightarrow> int \<Rightarrow> ptr \<Rightarrow> int \<Rightarrow> ptr) \<Rightarrow> ptr \<Rightarrow> ptr \<Rightarrow> u64 \<Rightarrow> int \<Rightarrow> ptr \<Rightarrow> int \<Rightarrow> ptr leak_action" where
  "bi__wfullpath_dbg env wcslen fptr buffer path buffer_count blockType filename linenumber =
     andthen count_call (\<lambda>_.
     let c = fptr buffer path buffer_count blockType filename linenumber
     in if c = 0 \<or> buffer \<noteq> 0 then give c
        else andthen (add_block env c ((wcslen c + 1) * sizeof_wchar) e_malloc_family e__wfullpath_dbg) (\<lambda>_. give c))"

lemma bi__wfullpath_dbg_shape [shape]:
  "bi__wfullpath_dbg env wcslen fptr buffer path buffer_count blockType filename linenumber =
     andthen count_call (\<lambda>_. let c = fptr buffer path buffer_count blockType filename linenumber in
       if buffer \<noteq> 0 then give c else tracked env e_malloc_family e__wfullpath_dbg c ((wcslen c + 1) * sizeof_wchar))"
  by (simp add: bi__wfullpath_dbg_def tracked_def Let_def)

definition bi__strdup ::
  "call_env \<Rightarrow> (ptr \<Rightarrow> u64) \<Rightarrow> (ptr \<Rightarrow> ptr) \<Rightarrow> ptr \<Rightarrow> ptr leak_action" where
  "bi__strdup env strlen fptr str =
     andthen count_call (\<lambda>_.
     let c = fptr str
     in if c = 0 then give c
        else andthen (add_block env c (strlen c + 1) e_malloc_family e__strdup) (\<lambda>_. give c))"

lemma bi__strdup_shape [shape]:
  "bi__strdup env strlen fptr str =
     andthen count_call (\<lambda>_. let c = fptr str in tracked env e_malloc_family e__strdup c (strlen c + 1))"
  by (simp add: bi__strdup_def tracked_def Let_def)

text \<open>Only this monitor measures the argument instead of the copy.\<close>

definition bi__wcsdup ::
  "call_env \<Rightarrow> (ptr \<Rightarrow> u64) \<Rightarrow> (ptr \<Rightarrow> ptr) \<Rightarrow> ptr \<Rightarrow> ptr leak_action" where
  "bi__wcsdup env wcslen fptr str =
     andthen count_call (\<lambda>_.
     let c = fptr str
     in if c = 0 then give c
        else andthen (add_block env c ((wcslen str + 1) * sizeof_wchar) e_malloc_family e__wcsdup)
          (\<lambda>_. give c))"

lemma bi__wcsdup_shape [shape]:
  "bi__wcsdup env wcslen fptr str =
     andthen count_call (\<lambda>_. tracked env e_malloc_family e__wcsdup (fptr str)
       ((wcslen str + 1) * sizeof_wchar))"
  by (simp add: bi__wcsdup_def tracked_def Let_def)

definition bi__strdup_dbg ::
  "call_env \<Rightarrow> (ptr \<Rightarrow> u64) \<Rightarrow> (ptr \<Rightarrow> int \<Rightarrow> ptr \<Rightarrow> int \<Rightarrow> ptr) \<Rightarrow> ptr \<Rightarrow> int \<Rightarrow> ptr \<Rightarrow> int \<Rightarrow> ptr leak_action" where
  "bi__strdup_dbg env strlen fptr str blockType filename linenumber =
     andthen count_call (\<lambda>_.
     let c = fptr str blockType filename linenumber
     in if c = 0 then give c
        else andthen (add_block env c (strlen c + 1) e_malloc_family e__strdup_dbg) (\<lambda>_. give c))"

lemma bi__strdup_dbg_shape [shape]:
  "bi__strdup_dbg env strlen fptr str blockType filename linenumber =
     andthen count_call (\<lambda>_. let c = fptr str blockType filename linenumber in tracked env e_malloc_family e__strdup_dbg c (strlen c + 1))"
  by (simp add: bi__strdup_dbg_def tracked_def Let_def)

definition bi__wcsdup_dbg ::
  "call_env \<Rightarrow> (ptr \<Rightarrow> u64) \<Rightarrow> (ptr \<Rightarrow> int \<Rightarrow> ptr \<Rightarrow> int \<Rightarrow> ptr) \<Rightarrow> ptr \<Rightarrow> int \<Rightarrow> ptr \<Rightarrow> int \<Rightarrow> ptr leak_action" where
  "bi__wcsdup_dbg env wcslen fptr str blockType filename linenumber =
     andthen count_call (\<lambda>_.
     let c = fptr str blockType filename linenumber
     in if c = 0 then give c
        else andthen (add_block env c ((wcslen c + 1) * sizeof_wchar) e_malloc_family e__wcsdup_dbg) (\<lambda>_. give c))"

lemma bi__wcsdup_dbg_shape [shape]:
  "bi__wcsdup_dbg env wcslen fptr str blockType filename linenumber =
     andthen count_call (\<lambda>_. let c = fptr str blockType filename linenumber in tracked env e_malloc_family e__wcsdup_dbg c ((wcslen c + 1) * sizeof_wchar))"
  by (simp add: bi__wcsdup_dbg_def tracked_def Let_def)

section \<open>Release\<close>

definition bi_free ::
  "call_env \<Rightarrow> heap_env \<Rightarrow> (ptr \<Rightarrow> unit) \<Rightarrow> ptr \<Rightarrow> unit leak_action" where
  "bi_free env he fptr p_user =
     andthen count_call (\<lambda>_.
     if p_user = 0 then give (fptr p_user)
     else andthen (log_or_abort_if_memory_adddress_is_unknown env p_user e_malloc_family e_free) (\<lambda>found.
       andthen (only_if found (erase_block p_user)) (\<lambda>_.
       andthen (give (fptr p_user)) (\<lambda>r. andthen (check_heap_periodic env he) (\<lambda>_. give r)))))"

lemma bi_free_shape [shape]:
  "bi_free env he fptr p_user =
     andthen count_call (\<lambda>_. andthen (untracked env e_malloc_family e_free p_user) (\<lambda>_.
       andthen (only_if (p_user \<noteq> 0) (check_heap_periodic env he)) (\<lambda>_. give ())))"
  by (cases "p_user = 0")
    (simp_all add: bi_free_def untracked_def known_address_def only_if_def andthen_assoc)

definition bi__free_dbg ::
  "call_env \<Rightarrow> heap_env \<Rightarrow> (ptr \<Rightarrow> int \<Rightarrow> unit) \<Rightarrow> ptr \<Rightarrow> int \<Rightarrow> unit leak_action" where
  "bi__free_dbg env he fptr userData blockType =
     andthen count_call (\<lambda>_.
     if userData = 0 then give (fptr userData blockType)
     else andthen (log_or_abort_if_memory_adddress_is_unknown env userData e_malloc_family e__free_dbg) (\<lambda>found.
       andthen (only_if found (erase_block userData)) (\<lambda>_.
       andthen (give (fptr userData blockType)) (\<lambda>r. andthen (check_heap_periodic env he) (\<lambda>_. give r)))))"

lemma bi__free_dbg_shape [shape]:
  "bi__free_dbg env he fptr userData blockType =
     andthen count_call (\<lambda>_. andthen (untracked env e_malloc_family e__free_dbg userData) (\<lambda>_.
       andthen (only_if (userData \<noteq> 0) (check_heap_periodic env he)) (\<lambda>_. give ())))"
  by (cases "userData = 0")
    (simp_all add: bi__free_dbg_def untracked_def known_address_def only_if_def andthen_assoc)

end
