(* ===== verification/Runtime_Calls.thy ===== *)
theory Runtime_Calls
  imports Call_Effects Malloc_Monitor Aligned_Monitor
begin

text \<open>
  The calls of all monitored functions of the C runtime, as data, with their effect on the heap and
  the rules of the documentation. The last addresses of a call are what the original function
  answered. The arguments of the debug variants are optional, and \<open>wide\<close> is the variant for wide
  characters.
\<close>

section \<open>The calls\<close>

text \<open>Block type, file name and line of a debug variant; the aligned functions have no block type.\<close>

type_synonym debug_args = "(int \<times> ptr \<times> int) option"
type_synonym aligned_debug_args = "(ptr \<times> int) option"

datatype runtime_call =
    Malloc debug_args u64 ptr | Calloc debug_args u64 u64 ptr
  | Realloc debug_args ptr u64 ptr | Recalloc debug_args ptr u64 u64 ptr | Expand debug_args ptr u64 ptr
  | Free "int option" ptr
  | Strdup bool debug_args ptr u64 ptr
  | Getcwd bool debug_args ptr int u64 ptr | Getdcwd bool debug_args int ptr int u64 ptr
  | Tempnam bool debug_args ptr ptr u64 ptr | Fullpath bool debug_args ptr ptr u64 u64 ptr
  | Dupenv bool debug_args ptr int ptr u64

datatype aligned_call =
    Aligned_Malloc aligned_debug_args u64 u64 ptr | Aligned_Offset_Malloc aligned_debug_args u64 u64 u64 ptr
  | Aligned_Realloc aligned_debug_args ptr u64 u64 ptr
  | Aligned_Offset_Realloc aligned_debug_args ptr u64 u64 u64 ptr
  | Aligned_Recalloc aligned_debug_args ptr u64 u64 u64 ptr
  | Aligned_Offset_Recalloc aligned_debug_args ptr u64 u64 u64 u64 ptr
  | Aligned_Free bool ptr

text \<open>The length of a string is the number of its characters, as \<^verbatim>\<open>strlen\<close> or \<^verbatim>\<open>wcslen\<close> answers.\<close>

fun run_runtime :: "call_env \<Rightarrow> heap_env \<Rightarrow> runtime_call \<Rightarrow> unit leak_action" where
  "run_runtime env he (Malloc None n p) =
     forget (bi_malloc env (\<lambda>_. p) n)"
| "run_runtime env he (Malloc (Some (b, f, l)) n p) =
     forget (bi__malloc_dbg env (\<lambda>_ _ _ _. p) n b f l)"
| "run_runtime env he (Calloc None k n p) =
     forget (bi_calloc env (\<lambda>_ _. p) k n)"
| "run_runtime env he (Calloc (Some (b, f, l)) k n p) =
     forget (bi__calloc_dbg env (\<lambda>_ _ _ _ _. p) k n b f l)"
| "run_runtime env he (Realloc None q n p) =
     forget (bi_realloc env (\<lambda>_ _. p) q n)"
| "run_runtime env he (Realloc (Some (b, f, l)) q n p) =
     forget (bi__realloc_dbg env (\<lambda>_ _ _ _ _. p) q n b f l)"
| "run_runtime env he (Recalloc None q k n p) =
     forget (bi__recalloc env (\<lambda>_ _ _. p) q k n)"
| "run_runtime env he (Recalloc (Some (b, f, l)) q k n p) =
     forget (bi__recalloc_dbg env (\<lambda>_ _ _ _ _ _. p) q k n b f l)"
| "run_runtime env he (Expand None q n p) =
     forget (bi__expand env (\<lambda>_ _. p) q n)"
| "run_runtime env he (Expand (Some (b, f, l)) q n p) =
     forget (bi__expand_dbg env (\<lambda>_ _ _ _ _. p) q n b f l)"
| "run_runtime env he (Free None q) =
     forget (bi_free env he (\<lambda>_. ()) q)"
| "run_runtime env he (Free (Some b) q) =
     forget (bi__free_dbg env he (\<lambda>_ _. ()) q b)"
| "run_runtime env he (Strdup False None str len p) =
     forget (bi__strdup env (\<lambda>_. len) (\<lambda>_. p) str)"
| "run_runtime env he (Strdup False (Some (b, f, l)) str len p) =
     forget (bi__strdup_dbg env (\<lambda>_. len) (\<lambda>_ _ _ _. p) str b f l)"
| "run_runtime env he (Strdup True None str len p) =
     forget (bi__wcsdup env (\<lambda>_. len) (\<lambda>_. p) str)"
| "run_runtime env he (Strdup True (Some (b, f, l)) str len p) =
     forget (bi__wcsdup_dbg env (\<lambda>_. len) (\<lambda>_ _ _ _. p) str b f l)"
| "run_runtime env he (Getcwd False None buf mx len p) =
     forget (bi__getcwd env (\<lambda>_. len) (\<lambda>_ _. p) buf mx)"
| "run_runtime env he (Getcwd False (Some (b, f, l)) buf mx len p) =
     forget (bi__getcwd_dbg env (\<lambda>_. len) (\<lambda>_ _ _ _ _. p) buf mx b f l)"
| "run_runtime env he (Getcwd True None buf mx len p) =
     forget (bi__wgetcwd env (\<lambda>_. len) (\<lambda>_ _. p) buf mx)"
| "run_runtime env he (Getcwd True (Some (b, f, l)) buf mx len p) =
     forget (bi__wgetcwd_dbg env (\<lambda>_. len) (\<lambda>_ _ _ _ _. p) buf mx b f l)"
| "run_runtime env he (Getdcwd False None drive buf mx len p) =
     forget (bi__getdcwd env (\<lambda>_. len) (\<lambda>_ _ _. p) drive buf mx)"
| "run_runtime env he (Getdcwd False (Some (b, f, l)) drive buf mx len p) =
     forget (bi__getdcwd_dbg env (\<lambda>_. len) (\<lambda>_ _ _ _ _ _. p) drive buf mx b f l)"
| "run_runtime env he (Getdcwd True None drive buf mx len p) =
     forget (bi__wgetdcwd env (\<lambda>_. len) (\<lambda>_ _ _. p) drive buf mx)"
| "run_runtime env he (Getdcwd True (Some (b, f, l)) drive buf mx len p) =
     forget (bi__wgetdcwd_dbg env (\<lambda>_. len) (\<lambda>_ _ _ _ _ _. p) drive buf mx b f l)"
| "run_runtime env he (Tempnam False None dir pre len p) =
     forget (bi__tempnam env (\<lambda>_. len) (\<lambda>_ _. p) dir pre)"
| "run_runtime env he (Tempnam False (Some (b, f, l)) dir pre len p) =
     forget (bi__tempnam_dbg env (\<lambda>_. len) (\<lambda>_ _ _ _ _. p) dir pre b f l)"
| "run_runtime env he (Tempnam True None dir pre len p) =
     forget (bi__wtempnam env (\<lambda>_. len) (\<lambda>_ _. p) dir pre)"
| "run_runtime env he (Tempnam True (Some (b, f, l)) dir pre len p) =
     forget (bi__wtempnam_dbg env (\<lambda>_. len) (\<lambda>_ _ _ _ _. p) dir pre b f l)"
| "run_runtime env he (Fullpath False None buf path cnt len p) =
     forget (bi__fullpath env (\<lambda>_. len) (\<lambda>_ _ _. p) buf path cnt)"
| "run_runtime env he (Fullpath False (Some (b, f, l)) buf path cnt len p) =
     forget (bi__fullpath_dbg env (\<lambda>_. len) (\<lambda>_ _ _ _ _ _. p) buf path cnt b f l)"
| "run_runtime env he (Fullpath True None buf path cnt len p) =
     forget (bi__wfullpath env (\<lambda>_. len) (\<lambda>_ _ _. p) buf path cnt)"
| "run_runtime env he (Fullpath True (Some (b, f, l)) buf path cnt len p) =
     forget (bi__wfullpath_dbg env (\<lambda>_. len) (\<lambda>_ _ _ _ _ _. p) buf path cnt b f l)"
| "run_runtime env he (Dupenv False None var e p cnt) =
     forget (bi__dupenv_s env (\<lambda>_. (e, p, cnt)) var)"
| "run_runtime env he (Dupenv False (Some (b, f, l)) var e p cnt) =
     forget (bi__dupenv_s_dbg env (\<lambda>_ _ _ _. (e, p, cnt)) var b f l)"
| "run_runtime env he (Dupenv True None var e p cnt) =
     forget (bi__wdupenv_s env (\<lambda>_. (e, p, cnt)) var)"
| "run_runtime env he (Dupenv True (Some (b, f, l)) var e p cnt) =
     forget (bi__wdupenv_dbg_s env (\<lambda>_ _ _ _. (e, p, cnt)) var b f l)"

fun run_aligned :: "call_env \<Rightarrow> aligned_call \<Rightarrow> unit leak_action" where
  "run_aligned env (Aligned_Malloc None n a p) =
     forget (bi__aligned_malloc env (\<lambda>_ _. p) n a)"
| "run_aligned env (Aligned_Malloc (Some (f, l)) n a p) =
     forget (bi__aligned_malloc_dbg env (\<lambda>_ _ _ _. p) n a f l)"
| "run_aligned env (Aligned_Offset_Malloc None n a ofs p) =
     forget (bi__aligned_offset_malloc env (\<lambda>_ _ _. p) n a ofs)"
| "run_aligned env (Aligned_Offset_Malloc (Some (f, l)) n a ofs p) =
     forget (bi__aligned_offset_malloc_dbg env (\<lambda>_ _ _ _ _. p) n a ofs f l)"
| "run_aligned env (Aligned_Realloc None q n a p) =
     forget (bi__aligned_realloc env (\<lambda>_ _ _. p) q n a)"
| "run_aligned env (Aligned_Realloc (Some (f, l)) q n a p) =
     forget (bi__aligned_realloc_dbg env (\<lambda>_ _ _ _ _. p) q n a f l)"
| "run_aligned env (Aligned_Offset_Realloc None q n a ofs p) =
     forget (bi__aligned_offset_realloc env (\<lambda>_ _ _ _. p) q n a ofs)"
| "run_aligned env (Aligned_Offset_Realloc (Some (f, l)) q n a ofs p) =
     forget (bi__aligned_offset_realloc_dbg env (\<lambda>_ _ _ _ _ _. p) q n a ofs f l)"
| "run_aligned env (Aligned_Recalloc None q k n a p) =
     forget (bi__aligned_recalloc env (\<lambda>_ _ _ _. p) q k n a)"
| "run_aligned env (Aligned_Recalloc (Some (f, l)) q k n a p) =
     forget (bi__aligned_recalloc_dbg env (\<lambda>_ _ _ _ _ _. p) q k n a f l)"
| "run_aligned env (Aligned_Offset_Recalloc None q k n a ofs p) =
     forget (bi__aligned_offset_recalloc env (\<lambda>_ _ _ _ _. p) q k n a ofs)"
| "run_aligned env (Aligned_Offset_Recalloc (Some (f, l)) q k n a ofs p) =
     forget (bi__aligned_offset_recalloc_dbg env (\<lambda>_ _ _ _ _ _ _. p) q k n a ofs f l)"
| "run_aligned env (Aligned_Free False q) =
     forget (bi__aligned_free env (\<lambda>_. ()) q)"
| "run_aligned env (Aligned_Free True q) =
     forget (bi__aligned_free_dbg env (\<lambda>_. ()) q)"

section \<open>Their effect on the heap\<close>

text \<open>The function that is noted for a block, of the variants of a call.\<close>

definition named :: "'a option \<Rightarrow> api_function \<Rightarrow> api_function \<Rightarrow> api_function" where
  "named d f g = (if d = None then f else g)"

definition text_named :: "bool \<Rightarrow> 'a option \<Rightarrow> api_function \<Rightarrow> api_function \<Rightarrow> api_function \<Rightarrow> api_function \<Rightarrow>
    api_function" where
  "text_named wide d f g fw gw = (if wide then named d fw gw else named d f g)"

definition text_bytes :: "bool \<Rightarrow> u64 \<Rightarrow> u64" where
  "text_bytes wide len = (if wide then (len + 1) * sizeof_wchar else len + 1)"

fun runtime_spec :: "runtime_call \<Rightarrow> heap_view \<Rightarrow> heap_view" where
  "runtime_spec (Malloc d n p) H = born 0 p (n, e_malloc_family, named d e_malloc e__malloc_dbg) H"
| "runtime_spec (Calloc d k n p) H = born 0 p (k * n, e_malloc_family, named d e_calloc e__calloc_dbg) H"
| "runtime_spec (Realloc d q n p) H = (if p = 0 \<and> n = 0 then dead 0 q H
     else resized 0 q p (n, e_malloc_family, named d e_realloc e__realloc_dbg) H)"
| "runtime_spec (Recalloc d q k n p) H = (if p = 0 \<and> (k = 0 \<or> n = 0) then dead 0 q H
     else resized 0 q p (k * n, e_malloc_family, named d e__recalloc e__recalloc_dbg) H)"
| "runtime_spec (Expand d q n p) H =
     resized 0 q p (n, e_malloc_family, named d e__expand e__expand_dbg) H"
| "runtime_spec (Free d q) H = dead 0 q H"
| "runtime_spec (Strdup wide d str len p) H = born 0 p (text_bytes wide len, e_malloc_family,
     text_named wide d e__strdup e__strdup_dbg e__wcsdup e__wcsdup_dbg) H"
| "runtime_spec (Getcwd wide d buf mx len p) H = (if buf \<noteq> 0 then H
     else born 0 p (text_bytes wide len, e_malloc_family,
       text_named wide d e__getcwd e__getcwd_dbg e__wgetcwd e__wgetcwd_dbg) H)"
| "runtime_spec (Getdcwd wide d drive buf mx len p) H = (if buf \<noteq> 0 then H
     else born 0 p (text_bytes wide len, e_malloc_family,
       text_named wide d e__getdcwd e__getdcwd_dbg e__wgetdcwd e__wgetdcwd_dbg) H)"
| "runtime_spec (Tempnam wide d dir pre len p) H = born 0 p (text_bytes wide len, e_malloc_family,
     text_named wide d e__tempnam e__tempnam_dbg e__wtempnam e__wtempnam_dbg) H"
| "runtime_spec (Fullpath wide d buf path cnt len p) H = (if buf \<noteq> 0 then H
     else born 0 p (text_bytes wide len, e_malloc_family,
       text_named wide d e__fullpath e__fullpath_dbg e__wfullpath e__wfullpath_dbg) H)"
| "runtime_spec (Dupenv wide d var e p cnt) H = (if e \<noteq> 0 then H
     else born 0 p (if wide then cnt * sizeof_wchar else cnt, e_malloc_family,
       text_named wide d e__dupenv_s e__dupenv_s_dbg e__wdupenv_s e__wdupenv_s_dbg) H)"

fun aligned_spec :: "aligned_call \<Rightarrow> heap_view \<Rightarrow> heap_view" where
  "aligned_spec (Aligned_Malloc d n a p) H =
     born 0 p (n, e_aligned_malloc, named d e__aligned_malloc e__aligned_malloc_dbg) H"
| "aligned_spec (Aligned_Offset_Malloc d n a ofs p) H =
     born 0 p (n, e_aligned_malloc, named d e__aligned_offset_malloc e__aligned_offset_malloc_dbg) H"
| "aligned_spec (Aligned_Realloc d q n a p) H = (if p = 0 \<and> n = 0 then dead 0 q H
     else resized 0 q p (n, e_aligned_malloc, named d e__aligned_realloc e__aligned_realloc_dbg) H)"
| "aligned_spec (Aligned_Offset_Realloc d q n a ofs p) H = (if p = 0 \<and> n = 0 then dead 0 q H
     else resized 0 q p (n, e_aligned_malloc,
       named d e__aligned_offset_realloc e__aligned_offset_realloc_dbg) H)"
| "aligned_spec (Aligned_Recalloc d q k n a p) H = (if p = 0 \<and> (k = 0 \<or> n = 0) then dead 0 q H
     else resized 0 q p (k * n, e_aligned_malloc, named d e__aligned_recalloc e__aligned_recalloc_dbg) H)"
| "aligned_spec (Aligned_Offset_Recalloc d q k n a ofs p) H = (if p = 0 \<and> (k = 0 \<or> n = 0) then dead 0 q H
     else resized 0 q p (k * n, e_aligned_malloc,
       named d e__aligned_offset_recalloc e__aligned_offset_recalloc_dbg) H)"
| "aligned_spec (Aligned_Free d q) H = dead 0 q H"

section \<open>The documented behaviour\<close>

text \<open>
  A result is a null pointer or an unused address, and a block is resized or released by a function
  of its family; a resized block may stay where it is. Two documented cases are left out, since the
  monitors get them wrong: a \<^verbatim>\<open>_recalloc\<close> of zero elements of a positive size, which releases the
  block while its monitor keeps it, and a \<^verbatim>\<open>_dupenv_s\<close> that succeeds without a value, for which the
  monitor notes a block at the null pointer.
\<close>

definition recalloc_ok :: "ptr \<Rightarrow> u64 \<Rightarrow> u64 \<Rightarrow> ptr \<Rightarrow> bool" where
  "recalloc_ok q k n p \<longleftrightarrow> \<not> (p = 0 \<and> q \<noteq> 0 \<and> k = 0 \<and> n \<noteq> 0)"

fun runtime_legal :: "runtime_call \<Rightarrow> heap_view \<Rightarrow> bool" where
  "runtime_legal (Malloc d n p) H = unused H 0 p"
| "runtime_legal (Calloc d k n p) H = unused H 0 p"
| "runtime_legal (Realloc d q n p) H = (owned H 0 q e_malloc_family \<and> (p = q \<or> unused H 0 p))"
| "runtime_legal (Recalloc d q k n p) H =
     (owned H 0 q e_malloc_family \<and> (p = q \<or> unused H 0 p) \<and> recalloc_ok q k n p)"
| "runtime_legal (Expand d q n p) H = (owned H 0 q e_malloc_family \<and> (p = q \<or> unused H 0 p))"
| "runtime_legal (Free d q) H = owned H 0 q e_malloc_family"
| "runtime_legal (Strdup wide d str len p) H = unused H 0 p"
| "runtime_legal (Getcwd wide d buf mx len p) H = (buf \<noteq> 0 \<or> unused H 0 p)"
| "runtime_legal (Getdcwd wide d drive buf mx len p) H = (buf \<noteq> 0 \<or> unused H 0 p)"
| "runtime_legal (Tempnam wide d dir pre len p) H = unused H 0 p"
| "runtime_legal (Fullpath wide d buf path cnt len p) H = (buf \<noteq> 0 \<or> unused H 0 p)"
| "runtime_legal (Dupenv wide d var e p cnt) H = (e \<noteq> 0 \<or> (p \<noteq> 0 \<and> unused H 0 p))"

fun aligned_legal :: "aligned_call \<Rightarrow> heap_view \<Rightarrow> bool" where
  "aligned_legal (Aligned_Malloc d n a p) H = unused H 0 p"
| "aligned_legal (Aligned_Offset_Malloc d n a ofs p) H = unused H 0 p"
| "aligned_legal (Aligned_Realloc d q n a p) H = (owned H 0 q e_aligned_malloc \<and> (p = q \<or> unused H 0 p))"
| "aligned_legal (Aligned_Offset_Realloc d q n a ofs p) H =
     (owned H 0 q e_aligned_malloc \<and> (p = q \<or> unused H 0 p))"
| "aligned_legal (Aligned_Recalloc d q k n a p) H =
     (owned H 0 q e_aligned_malloc \<and> (p = q \<or> unused H 0 p) \<and> recalloc_ok q k n p)"
| "aligned_legal (Aligned_Offset_Recalloc d q k n a ofs p) H =
     (owned H 0 q e_aligned_malloc \<and> (p = q \<or> unused H 0 p) \<and> recalloc_ok q k n p)"
| "aligned_legal (Aligned_Free d q) H = owned H 0 q e_aligned_malloc"

section \<open>The monitors have this effect\<close>

text \<open>The three offset functions that name another function in a report do the same otherwise.\<close>

lemma known_address_owned:
  "owned (view s) 0 q family \<Longrightarrow> known_address env q family f s = Running (q \<noteq> 0) s"
  using known_address_ok [where s = s and p = q and family = family] by (cases "q = 0") (auto simp: owned_def give_def)

lemma offset_shapes:
  assumes "owned (view s) 0 q e_aligned_malloc"
  shows "forget (bi__aligned_offset_realloc_dbg env f6 q n a ofs file line) s = forget (andthen count_call (\<lambda>_.
      retracked env e_aligned_malloc e__aligned_offset_realloc_dbg q (n = 0) (f6 q n a ofs file line) n)) s"
    and "forget (bi__aligned_offset_recalloc env f5 q k n a ofs) s = forget (andthen count_call (\<lambda>_.
      retracked env e_aligned_malloc e__aligned_offset_recalloc q (n = 0) (f5 q k n a ofs) (k * n))) s"
    and "forget (bi__aligned_offset_recalloc_dbg env f7 q k n a ofs file line) s = forget (andthen count_call (\<lambda>_.
      retracked env e_aligned_malloc e__aligned_offset_recalloc_dbg q (n = 0) (f7 q k n a ofs file line) (k * n))) s"
proof -
  have known: "known_address env q e_aligned_malloc f (s\<lparr>ls_calls := c\<rparr>) = Running (q \<noteq> 0) (s\<lparr>ls_calls := c\<rparr>)"
    for f c
    using assms by (intro known_address_owned) simp
  show "forget (bi__aligned_offset_realloc_dbg env f6 q n a ofs file line) s = forget (andthen count_call (\<lambda>_.
      retracked env e_aligned_malloc e__aligned_offset_realloc_dbg q (n = 0) (f6 q n a ofs file line) n)) s"
    by (cases "q = 0") (simp_all add: bi__aligned_offset_realloc_dbg_def forget_def counted retracked_def
        tracked_def only_if_def Let_def known andthen_assoc cong: if_cong)
  show "forget (bi__aligned_offset_recalloc env f5 q k n a ofs) s = forget (andthen count_call (\<lambda>_.
      retracked env e_aligned_malloc e__aligned_offset_recalloc q (n = 0) (f5 q k n a ofs) (k * n))) s"
    by (cases "q = 0") (simp_all add: bi__aligned_offset_recalloc_def forget_def counted retracked_def
        tracked_def only_if_def Let_def known andthen_assoc cong: if_cong)
  show "forget (bi__aligned_offset_recalloc_dbg env f7 q k n a ofs file line) s = forget (andthen count_call (\<lambda>_.
      retracked env e_aligned_malloc e__aligned_offset_recalloc_dbg q (n = 0) (f7 q k n a ofs file line) (k * n))) s"
    by (cases "q = 0") (simp_all add: bi__aligned_offset_recalloc_dbg_def forget_def counted retracked_def
        tracked_def only_if_def Let_def known andthen_assoc cong: if_cong)
qed

text \<open>A zero size is a zero product, except for the case that is left out.\<close>

lemma recalloc_effect:
  "recalloc_ok q k n p \<Longrightarrow>
     (if p = 0 \<and> (k = 0 \<or> n = 0) then dead 0 q H else resized 0 q p v H) =
     (if p = 0 \<and> n = 0 then dead 0 q H else resized 0 q p v H)"
  by (auto simp: recalloc_ok_def dead_def resized_def)

lemma goes_free:
  assumes inv: "leak_inv s" and b: "owned (view s) 0 b e_malloc_family"
    and he: "he_heapchk_ok he" "he_validate_ok he" and H: "H = dead 0 b (view s)"
  shows "goes (forget (andthen (untracked env e_malloc_family f b) (\<lambda>_.
      only_if (b \<noteq> 0) (check_heap_periodic env he))) s) s H"
proof -
  obtain s1 where s1: "untracked env e_malloc_family f b s = Running () s1" "leak_inv s1"
    "view s1 = dead 0 b (view s)" "same_but_repo s s1"
    by (rule goes_untracked [OF inv b])
  obtain s2 where s2: "check_heap_periodic env he s1 = Running () s2" "leak_inv s2"
    "view s2 = view s1" "silent s1 s2"
    by (rule silent_check [OF he s1(2)])
  have "silent s s2" using silent_repo [OF s1(4)] s2(4) by (rule silent_trans)
  then show ?thesis
    using s1 s2 silent_repo [OF s1(4)] H by (cases "b = 0") (simp_all add: goes_def forget_def only_if_def give_def)
qed

lemma run_runtime_refines:
  assumes "leak_inv s" "runtime_legal c (view s)" "he_heapchk_ok he" "he_validate_ok he"
  shows "goes (run_runtime env he c s) s (runtime_spec c (view s))"
  using assms
proof (cases "(env, he, c)" rule: run_runtime.cases)
qed (simp_all add: shape goes_counted Let_def named_def text_named_def text_bytes_def recalloc_effect
       bi__dupenv_s_def bi__dupenv_s_dbg_def bi__wdupenv_s_def bi__wdupenv_dbg_s_def,
     (auto intro!: goesI goes_free)+)

lemma run_aligned_refines:
  assumes "leak_inv s" "aligned_legal c (view s)"
  shows "goes (run_aligned env c s) s (aligned_spec c (view s))"
  using assms
proof (cases "(env, c)" rule: run_aligned.cases)
qed (simp_all add: shape goes_counted Let_def named_def recalloc_effect offset_shapes,
     (auto intro!: goesI)+)

end
