(* ===== verification/Local_Monitor.thy ===== *)
theory Local_Monitor
  imports Leak_Monitor
begin

text \<open>
  The monitors of the Windows functions that allocate with \<^verbatim>\<open>LocalAlloc\<close> and \<^verbatim>\<open>GlobalAlloc\<close>:
  \<^verbatim>\<open>leak_check/local_alloc_monitor.cpp\<close> and \<^verbatim>\<open>globalalloc_monitor.cpp\<close>. \<open>fptr\<close> is the original
  function, \<open>LocalSize\<close> is the Windows function of that name. A function with an out parameter
  returns the pair of its result and the pointer it wrote.
\<close>

section \<open>LocalAlloc\<close>

definition buginsight_localfree ::
  "call_env \<Rightarrow> (ptr \<Rightarrow> ptr) \<Rightarrow> (ptr \<Rightarrow> ptr) \<Rightarrow> ptr \<Rightarrow> ptr leak_action" where
  "buginsight_localfree env fptr LocalFree hMem =
     andthen count_call (\<lambda>_.
     if hMem = 0 then give (fptr hMem)
     else andthen (log_or_abort_if_memory_adddress_is_unknown env hMem e_localalloc_family e_localfree) (\<lambda>found.
       andthen (only_if found (erase_block hMem)) (\<lambda>_.
       give (LocalFree hMem))))"

lemma buginsight_localfree_shape [shape]:
  "buginsight_localfree env fptr LocalFree hMem =
     andthen count_call (\<lambda>_. andthen (untracked env e_localalloc_family e_localfree hMem) (\<lambda>_.
       give (if hMem = 0 then fptr hMem else LocalFree hMem)))"
  by (cases "hMem = 0")
    (simp_all add: buginsight_localfree_def untracked_def known_address_def only_if_def andthen_assoc)

definition buginsight_localalloc ::
  "call_env \<Rightarrow> (u32 \<Rightarrow> u64 \<Rightarrow> ptr) \<Rightarrow> u32 \<Rightarrow> u64 \<Rightarrow> ptr leak_action" where
  "buginsight_localalloc env fptr uFlags uBytes =
     andthen count_call (\<lambda>_.
     let p = fptr uFlags uBytes
     in if p = 0 then give p
        else andthen (add_block env p uBytes e_localalloc_family e_localalloc) (\<lambda>_. give p))"

lemma buginsight_localalloc_shape [shape]:
  "buginsight_localalloc env fptr uFlags uBytes =
     andthen count_call (\<lambda>_. tracked env e_localalloc_family e_localalloc (fptr uFlags uBytes) uBytes)"
  by (simp add: buginsight_localalloc_def tracked_def Let_def)

text \<open>The entry of the old block is erased before the block is reallocated.\<close>

definition buginsight_localrealloc ::
  "call_env \<Rightarrow> (ptr \<Rightarrow> u64 \<Rightarrow> u32 \<Rightarrow> ptr) \<Rightarrow> ptr \<Rightarrow> u64 \<Rightarrow> u32 \<Rightarrow> ptr leak_action" where
  "buginsight_localrealloc env fptr hMem uBytes uFlags =
     andthen count_call (\<lambda>_.
     andthen (known_address env hMem e_localalloc_family e_localrealloc) (\<lambda>found.
     andthen (only_if found (erase_block hMem)) (\<lambda>_.
     let p = fptr hMem uBytes uFlags
     in if p = 0 then give p
        else andthen (add_block env p uBytes e_localalloc_family e_localrealloc) (\<lambda>_. give p))))"

lemma buginsight_localrealloc_shape [shape]:
  "buginsight_localrealloc env fptr hMem uBytes uFlags =
     andthen count_call (\<lambda>_. retracked env e_localalloc_family e_localrealloc hMem True
       (fptr hMem uBytes uFlags) uBytes)"
  by (simp add: buginsight_localrealloc_def retracked_def tracked_def Let_def)

section \<open>Functions that allocate for the caller\<close>

definition FORMAT_MESSAGE_ALLOCATE_BUFFER :: u32 where
  "FORMAT_MESSAGE_ALLOCATE_BUFFER = 0x100"

definition buginsight_formatmessagea ::
  "call_env \<Rightarrow> (ptr \<Rightarrow> u64) \<Rightarrow>
   (u32 \<Rightarrow> ptr \<Rightarrow> u32 \<Rightarrow> u32 \<Rightarrow> ptr \<Rightarrow> u32 \<Rightarrow> ptr \<Rightarrow> u32 \<times> ptr) \<Rightarrow>
   u32 \<Rightarrow> ptr \<Rightarrow> u32 \<Rightarrow> u32 \<Rightarrow> ptr \<Rightarrow> u32 \<Rightarrow> ptr \<Rightarrow> (u32 \<times> ptr) leak_action" where
  "buginsight_formatmessagea env strlen fptr dwFlags lpSource dwMessageId dwLanguageId lpBuffer nSize arguments =
     andthen count_call (\<lambda>_.
     let (res, out) = fptr dwFlags lpSource dwMessageId dwLanguageId lpBuffer nSize arguments
     in if res = 0 then give (res, out)
        else if dwFlags AND FORMAT_MESSAGE_ALLOCATE_BUFFER \<noteq> FORMAT_MESSAGE_ALLOCATE_BUFFER
        then give (res, out)
        else andthen (add_block env out (strlen out + 1) e_localalloc_family e_FormatMessageA) (\<lambda>_. give (res, out)))"

definition buginsight_formatmessagew ::
  "call_env \<Rightarrow> (ptr \<Rightarrow> u64) \<Rightarrow>
   (u32 \<Rightarrow> ptr \<Rightarrow> u32 \<Rightarrow> u32 \<Rightarrow> ptr \<Rightarrow> u32 \<Rightarrow> ptr \<Rightarrow> u32 \<times> ptr) \<Rightarrow>
   u32 \<Rightarrow> ptr \<Rightarrow> u32 \<Rightarrow> u32 \<Rightarrow> ptr \<Rightarrow> u32 \<Rightarrow> ptr \<Rightarrow> (u32 \<times> ptr) leak_action" where
  "buginsight_formatmessagew env wcslen fptr dwFlags lpSource dwMessageId dwLanguageId lpBuffer nSize arguments =
     andthen count_call (\<lambda>_.
     let (res, out) = fptr dwFlags lpSource dwMessageId dwLanguageId lpBuffer nSize arguments
     in if res = 0 then give (res, out)
        else if dwFlags AND FORMAT_MESSAGE_ALLOCATE_BUFFER \<noteq> FORMAT_MESSAGE_ALLOCATE_BUFFER
        then give (res, out)
        else andthen (add_block env out ((wcslen out + 1) * 2) e_localalloc_family e_FormatMessageW) (\<lambda>_. give (res, out)))"

definition buginsight_CommandLineToArgvW ::
  "call_env \<Rightarrow> (ptr \<Rightarrow> u64) \<Rightarrow> (ptr \<Rightarrow> ptr \<Rightarrow> ptr) \<Rightarrow> ptr \<Rightarrow> ptr \<Rightarrow> ptr leak_action" where
  "buginsight_CommandLineToArgvW env LocalSize CommandLineToArgvW lpCmdLine pNumArgs =
     andthen count_call (\<lambda>_.
     let szArglist = CommandLineToArgvW lpCmdLine pNumArgs
     in if szArglist = 0 then give szArglist
        else andthen (add_block env szArglist (LocalSize szArglist) e_localalloc_family
                        e_CommandLineToArgvW) (\<lambda>_. give szArglist))"

definition buginsight_CryptProtectData ::
  "call_env \<Rightarrow> (ptr \<Rightarrow> u64) \<Rightarrow> (ptr \<Rightarrow> ptr \<Rightarrow> ptr \<Rightarrow> ptr \<Rightarrow> ptr \<Rightarrow> u32 \<Rightarrow> int \<times> ptr) \<Rightarrow> ptr \<Rightarrow> ptr \<Rightarrow> ptr \<Rightarrow> ptr \<Rightarrow> ptr \<Rightarrow> u32 \<Rightarrow> (int \<times> ptr) leak_action" where
  "buginsight_CryptProtectData env LocalSize fptr pDataIn szDataDescr pOptionalEntropy pvReserved pPromptStruct dwFlags =
     andthen count_call (\<lambda>_.
     let (res, out) = fptr pDataIn szDataDescr pOptionalEntropy pvReserved pPromptStruct dwFlags
     in if res = 0 then give (res, out)
        else andthen (add_block env out (LocalSize out) e_localalloc_family e_CryptProtectData) (\<lambda>_. give (res, out)))"

text \<open>Two blocks at once: the description, if the caller asks for it, and the data.\<close>

definition buginsight_CryptUnprotectData ::
  "call_env \<Rightarrow> (ptr \<Rightarrow> u64) \<Rightarrow> (ptr \<Rightarrow> ptr \<Rightarrow> ptr \<Rightarrow> ptr \<Rightarrow> ptr \<Rightarrow> u32 \<Rightarrow> int \<times> ptr \<times> ptr) \<Rightarrow>
   ptr \<Rightarrow> ptr \<Rightarrow> ptr \<Rightarrow> ptr \<Rightarrow> ptr \<Rightarrow> u32 \<Rightarrow> (int \<times> ptr \<times> ptr) leak_action" where
  "buginsight_CryptUnprotectData env LocalSize fptr pDataIn ppszDataDescr pOptionalEntropy pvReserved
       pPromptStruct dwFlags =
     andthen count_call (\<lambda>_.
     let (res, descr, out) =
       fptr pDataIn ppszDataDescr pOptionalEntropy pvReserved pPromptStruct dwFlags
     in if res = 0 then give (res, descr, out)
        else andthen (only_if (ppszDataDescr \<noteq> 0)
               (add_block env descr (LocalSize descr) e_localalloc_family e_CryptUnprotectData)) (\<lambda>_.
             andthen (add_block env out (LocalSize out) e_localalloc_family e_CryptUnprotectData)
               (\<lambda>_. give (res, descr, out))))"

definition buginsight_ConvertSidToStringSidW ::
  "call_env \<Rightarrow> (ptr \<Rightarrow> u64) \<Rightarrow> (ptr \<Rightarrow> int \<times> ptr) \<Rightarrow> ptr \<Rightarrow> (int \<times> ptr) leak_action" where
  "buginsight_ConvertSidToStringSidW env LocalSize fptr Sid =
     andthen count_call (\<lambda>_.
     let (res, out) = fptr Sid
     in if res = 0 then give (res, out)
        else andthen (add_block env out (LocalSize out) e_localalloc_family e_ConvertSidToStringSidW) (\<lambda>_. give (res, out)))"

definition buginsight_ConvertSidToStringSidA ::
  "call_env \<Rightarrow> (ptr \<Rightarrow> u64) \<Rightarrow> (ptr \<Rightarrow> int \<times> ptr) \<Rightarrow> ptr \<Rightarrow> (int \<times> ptr) leak_action" where
  "buginsight_ConvertSidToStringSidA env LocalSize fptr Sid =
     andthen count_call (\<lambda>_.
     let (res, out) = fptr Sid
     in if res = 0 then give (res, out)
        else andthen (add_block env out (LocalSize out) e_localalloc_family e_ConvertSidToStringSidA) (\<lambda>_. give (res, out)))"

definition buginsight_ConvertStringSidToSidW ::
  "call_env \<Rightarrow> (ptr \<Rightarrow> u64) \<Rightarrow> (ptr \<Rightarrow> int \<times> ptr) \<Rightarrow> ptr \<Rightarrow> (int \<times> ptr) leak_action" where
  "buginsight_ConvertStringSidToSidW env LocalSize fptr Sid =
     andthen count_call (\<lambda>_.
     let (res, out) = fptr Sid
     in if res = 0 then give (res, out)
        else andthen (add_block env out (LocalSize out) e_localalloc_family e_ConvertStringSidToSidW) (\<lambda>_. give (res, out)))"

definition buginsight_ConvertStringSidToSidA ::
  "call_env \<Rightarrow> (ptr \<Rightarrow> u64) \<Rightarrow> (ptr \<Rightarrow> int \<times> ptr) \<Rightarrow> ptr \<Rightarrow> (int \<times> ptr) leak_action" where
  "buginsight_ConvertStringSidToSidA env LocalSize fptr Sid =
     andthen count_call (\<lambda>_.
     let (res, out) = fptr Sid
     in if res = 0 then give (res, out)
        else andthen (add_block env out (LocalSize out) e_localalloc_family e_ConvertStringSidToSidA) (\<lambda>_. give (res, out)))"

definition buginsight_GetNamedSecurityInfoW ::
  "call_env \<Rightarrow> (ptr \<Rightarrow> u64) \<Rightarrow> (ptr \<Rightarrow> int \<Rightarrow> u32 \<Rightarrow> ptr \<Rightarrow> ptr \<Rightarrow> ptr \<Rightarrow> ptr \<Rightarrow> u32 \<times> ptr) \<Rightarrow> ptr \<Rightarrow> int \<Rightarrow> u32 \<Rightarrow> ptr \<Rightarrow> ptr \<Rightarrow> ptr \<Rightarrow> ptr \<Rightarrow> (u32 \<times> ptr) leak_action" where
  "buginsight_GetNamedSecurityInfoW env LocalSize fptr pObjectName objectType securityInfo ppsidOwner ppsidGroup ppDacl ppSacl =
     andthen count_call (\<lambda>_.
     let (res, out) = fptr pObjectName objectType securityInfo ppsidOwner ppsidGroup ppDacl ppSacl
     in if res \<noteq> 0 then give (res, out)
        else andthen (add_block env out (LocalSize out) e_localalloc_family e_GetNamedSecurityInfoW) (\<lambda>_. give (res, out)))"

definition buginsight_GetNamedSecurityInfoA ::
  "call_env \<Rightarrow> (ptr \<Rightarrow> u64) \<Rightarrow> (ptr \<Rightarrow> int \<Rightarrow> u32 \<Rightarrow> ptr \<Rightarrow> ptr \<Rightarrow> ptr \<Rightarrow> ptr \<Rightarrow> u32 \<times> ptr) \<Rightarrow> ptr \<Rightarrow> int \<Rightarrow> u32 \<Rightarrow> ptr \<Rightarrow> ptr \<Rightarrow> ptr \<Rightarrow> ptr \<Rightarrow> (u32 \<times> ptr) leak_action" where
  "buginsight_GetNamedSecurityInfoA env LocalSize fptr pObjectName objectType securityInfo ppsidOwner ppsidGroup ppDacl ppSacl =
     andthen count_call (\<lambda>_.
     let (res, out) = fptr pObjectName objectType securityInfo ppsidOwner ppsidGroup ppDacl ppSacl
     in if res \<noteq> 0 then give (res, out)
        else andthen (add_block env out (LocalSize out) e_localalloc_family e_GetNamedSecurityInfoA) (\<lambda>_. give (res, out)))"

definition buginsight_SetEntriesInAclA ::
  "call_env \<Rightarrow> (ptr \<Rightarrow> u64) \<Rightarrow> (u32 \<Rightarrow> ptr \<Rightarrow> ptr \<Rightarrow> u32 \<times> ptr) \<Rightarrow> u32 \<Rightarrow> ptr \<Rightarrow> ptr \<Rightarrow> (u32 \<times> ptr) leak_action" where
  "buginsight_SetEntriesInAclA env LocalSize fptr cCountOfExplicitEntries pListOfExplicitEntries oldAcl =
     andthen count_call (\<lambda>_.
     let (res, out) = fptr cCountOfExplicitEntries pListOfExplicitEntries oldAcl
     in if res \<noteq> 0 then give (res, out)
        else andthen (add_block env out (LocalSize out) e_localalloc_family e_SetEntriesInAclA) (\<lambda>_. give (res, out)))"

definition buginsight_SetEntriesInAclW ::
  "call_env \<Rightarrow> (ptr \<Rightarrow> u64) \<Rightarrow> (u32 \<Rightarrow> ptr \<Rightarrow> ptr \<Rightarrow> u32 \<times> ptr) \<Rightarrow> u32 \<Rightarrow> ptr \<Rightarrow> ptr \<Rightarrow> (u32 \<times> ptr) leak_action" where
  "buginsight_SetEntriesInAclW env LocalSize fptr cCountOfExplicitEntries pListOfExplicitEntries oldAcl =
     andthen count_call (\<lambda>_.
     let (res, out) = fptr cCountOfExplicitEntries pListOfExplicitEntries oldAcl
     in if res \<noteq> 0 then give (res, out)
        else andthen (add_block env out (LocalSize out) e_localalloc_family e_SetEntriesInAclW) (\<lambda>_. give (res, out)))"

text \<open>The eight sub-authorities are passed on as a list.\<close>

definition buginsight_AllocateAndInitializeSid ::
  "call_env \<Rightarrow> (ptr \<Rightarrow> u64) \<Rightarrow> (ptr \<Rightarrow> u8 \<Rightarrow> u32 list \<Rightarrow> int \<times> ptr) \<Rightarrow> ptr \<Rightarrow> u8 \<Rightarrow> u32 list \<Rightarrow> (int \<times> ptr) leak_action" where
  "buginsight_AllocateAndInitializeSid env LocalSize fptr pIdentifierAuthority nSubAuthorityCount nSubAuthorities =
     andthen count_call (\<lambda>_.
     let (res, out) = fptr pIdentifierAuthority nSubAuthorityCount nSubAuthorities
     in if res = 0 then give (res, out)
        else andthen (add_block env out (LocalSize out) e_localalloc_family e_AllocateAndInitializeSid) (\<lambda>_. give (res, out)))"

definition buginsight_FreeSid ::
  "call_env \<Rightarrow> (ptr \<Rightarrow> ptr) \<Rightarrow> ptr \<Rightarrow> ptr leak_action" where
  "buginsight_FreeSid env fptr pSid =
     andthen count_call (\<lambda>_.
     if pSid = 0 then give (fptr pSid)
     else andthen (log_or_abort_if_memory_adddress_is_unknown env pSid e_localalloc_family e_FreeSid) (\<lambda>found.
       andthen (only_if found (erase_block pSid)) (\<lambda>_.
       give (fptr pSid))))"

lemma buginsight_FreeSid_shape [shape]:
  "buginsight_FreeSid env fptr pSid =
     andthen count_call (\<lambda>_. andthen (untracked env e_localalloc_family e_FreeSid pSid) (\<lambda>_.
       give (if pSid = 0 then fptr pSid else fptr pSid)))"
  by (cases "pSid = 0")
    (simp_all add: buginsight_FreeSid_def untracked_def known_address_def only_if_def andthen_assoc)

text \<open>The last three functions do not count the call.\<close>

definition buginsight_GetSecurityInfo ::
  "call_env \<Rightarrow> (ptr \<Rightarrow> u64) \<Rightarrow>
   (ptr \<Rightarrow> int \<Rightarrow> u32 \<Rightarrow> ptr \<Rightarrow> ptr \<Rightarrow> ptr \<Rightarrow> ptr \<Rightarrow> ptr \<Rightarrow> u32 \<times> ptr) \<Rightarrow>
   ptr \<Rightarrow> int \<Rightarrow> u32 \<Rightarrow> ptr \<Rightarrow> ptr \<Rightarrow> ptr \<Rightarrow> ptr \<Rightarrow> ptr \<Rightarrow> (u32 \<times> ptr) leak_action" where
  "buginsight_GetSecurityInfo env LocalSize fptr handle objectType securityInfo ppsidOwner ppsidGroup
       ppDacl ppSacl ppSecurityDescriptor =
     (let (res, out) = fptr handle objectType securityInfo ppsidOwner ppsidGroup ppDacl ppSacl
                         ppSecurityDescriptor
      in if res \<noteq> 0 then give (res, out)
         else if ppSecurityDescriptor = 0 then give (res, out)
         else andthen (add_block env out (LocalSize out) e_localalloc_family e_GetSecurityInfo)
           (\<lambda>_. give (res, out)))"

definition buginsight_StrDupA ::
  "call_env \<Rightarrow> (ptr \<Rightarrow> u64) \<Rightarrow> (ptr \<Rightarrow> ptr) \<Rightarrow> ptr \<Rightarrow> ptr leak_action" where
  "buginsight_StrDupA env LocalSize fptr pszSrch =
     (let res = fptr pszSrch
      in if res = 0 then give res
         else andthen (add_block env res (LocalSize res) e_localalloc_family e_StrDupA) (\<lambda>_. give res))"

definition buginsight_StrDupW ::
  "call_env \<Rightarrow> (ptr \<Rightarrow> u64) \<Rightarrow> (ptr \<Rightarrow> ptr) \<Rightarrow> ptr \<Rightarrow> ptr leak_action" where
  "buginsight_StrDupW env LocalSize fptr pszSrch =
     (let res = fptr pszSrch
      in if res = 0 then give res
         else andthen (add_block env res (LocalSize res) e_localalloc_family e_StrDupW) (\<lambda>_. give res))"

section \<open>GlobalAlloc\<close>

definition buginsight_globalalloc ::
  "call_env \<Rightarrow> (u32 \<Rightarrow> u64 \<Rightarrow> ptr) \<Rightarrow> u32 \<Rightarrow> u64 \<Rightarrow> ptr leak_action" where
  "buginsight_globalalloc env fptr uFlags uBytes =
     andthen count_call (\<lambda>_.
     let p = fptr uFlags uBytes
     in if p = 0 then give p
        else andthen (add_block env p uBytes e_globalalloc_family e_globalalloc) (\<lambda>_. give p))"

lemma buginsight_globalalloc_shape [shape]:
  "buginsight_globalalloc env fptr uFlags uBytes =
     andthen count_call (\<lambda>_. tracked env e_globalalloc_family e_globalalloc (fptr uFlags uBytes) uBytes)"
  by (simp add: buginsight_globalalloc_def tracked_def Let_def)

definition buginsight_globalrealloc ::
  "call_env \<Rightarrow> (ptr \<Rightarrow> u64 \<Rightarrow> u32 \<Rightarrow> ptr) \<Rightarrow> ptr \<Rightarrow> u64 \<Rightarrow> u32 \<Rightarrow> ptr leak_action" where
  "buginsight_globalrealloc env fptr hMem uBytes uFlags =
     andthen count_call (\<lambda>_.
     andthen (known_address env hMem e_globalalloc_family e_globrealalloc) (\<lambda>found.
     let p = fptr hMem uBytes uFlags
     in if p = 0 then give p
        else andthen (only_if found (erase_block hMem)) (\<lambda>_.
          andthen (add_block env p uBytes e_globalalloc_family e_globrealalloc) (\<lambda>_. give p))))"

lemma buginsight_globalrealloc_shape [shape]:
  "buginsight_globalrealloc env fptr hMem uBytes uFlags =
     andthen count_call (\<lambda>_. retracked env e_globalalloc_family e_globrealalloc hMem False (fptr hMem uBytes uFlags) uBytes)"
  by (cases "hMem = 0")
    (simp_all add: buginsight_globalrealloc_def retracked_def tracked_def only_if_def Let_def cong: if_cong)

definition buginsight_globalfree ::
  "call_env \<Rightarrow> (ptr \<Rightarrow> ptr) \<Rightarrow> (ptr \<Rightarrow> ptr) \<Rightarrow> ptr \<Rightarrow> ptr leak_action" where
  "buginsight_globalfree env fptr GlobalFree hMem =
     andthen count_call (\<lambda>_.
     if hMem = 0 then give (fptr hMem)
     else andthen (log_or_abort_if_memory_adddress_is_unknown env hMem e_globalalloc_family e_globalfree) (\<lambda>found.
       andthen (only_if found (erase_block hMem)) (\<lambda>_.
       give (GlobalFree hMem))))"

lemma buginsight_globalfree_shape [shape]:
  "buginsight_globalfree env fptr GlobalFree hMem =
     andthen count_call (\<lambda>_. andthen (untracked env e_globalalloc_family e_globalfree hMem) (\<lambda>_.
       give (if hMem = 0 then fptr hMem else GlobalFree hMem)))"
  by (cases "hMem = 0")
    (simp_all add: buginsight_globalfree_def untracked_def known_address_def only_if_def andthen_assoc)

end
