(* ===== verification/Heap_Monitor.thy ===== *)
theory Heap_Monitor
  imports Leak_Monitor
begin

text \<open>
  The monitors of \<^verbatim>\<open>HeapAlloc\<close>, \<^verbatim>\<open>HeapReAlloc\<close> and \<^verbatim>\<open>HeapFree\<close> (\<^verbatim>\<open>leak_check/heap_monitor.cpp\<close>): a
  block is known by its heap and its address. Other families use heap 0.
\<close>

section \<open>Operations\<close>

definition add_heap_block :: "call_env \<Rightarrow> ptr \<Rightarrow> ptr \<Rightarrow> u64 \<Rightarrow> api_function \<Rightarrow> unit leak_action" where
  "add_heap_block env heap p bytes f =
     change (\<lambda>s. s\<lparr>ls_repo := repo_add_heap env heap p bytes f (ls_repo s)\<rparr>)"

definition erase_heap_block :: "ptr \<Rightarrow> ptr \<Rightarrow> unit leak_action" where
  "erase_heap_block heap p = change (\<lambda>s. s\<lparr>ls_repo := repo_erase_heap heap p (ls_repo s)\<rparr>)"

definition log_or_abort_if_heapalloc_memory_adddress_is_unknown ::
  "call_env \<Rightarrow> ptr \<Rightarrow> ptr \<Rightarrow> api_function \<Rightarrow> bool leak_action" where
  "log_or_abort_if_heapalloc_memory_adddress_is_unknown env heap p f s =
     (case repo_get_data_heap heap p (ls_repo s) of
        None \<Rightarrow> andthen (report (build_unknown_memory_address_text (ce_tid env) f p (ce_stack_text env)))
                  (\<lambda>_. give False) s
      | Some _ \<Rightarrow> give True s)"

definition buginsight_heapalloc ::
  "call_env \<Rightarrow> (ptr \<Rightarrow> u32 \<Rightarrow> u64 \<Rightarrow> ptr) \<Rightarrow> ptr \<Rightarrow> u32 \<Rightarrow> u64 \<Rightarrow> ptr leak_action" where
  "buginsight_heapalloc env fptr hHeap dwFlags dwBytes =
     andthen count_call (\<lambda>_.
     let p = fptr hHeap dwFlags dwBytes
     in if p = 0 then give p
        else andthen (add_heap_block env hHeap p dwBytes e_HeapAlloc) (\<lambda>_. give p))"

definition buginsight_heaprepalloc ::
  "call_env \<Rightarrow> (ptr \<Rightarrow> u32 \<Rightarrow> ptr \<Rightarrow> u64 \<Rightarrow> ptr) \<Rightarrow> ptr \<Rightarrow> u32 \<Rightarrow> ptr \<Rightarrow> u64 \<Rightarrow> ptr leak_action" where
  "buginsight_heaprepalloc env fptr hHeap dwFlags lpMem dwBytes =
     andthen count_call (\<lambda>_.
     andthen (if hHeap \<noteq> 0 \<and> lpMem \<noteq> 0
              then log_or_abort_if_heapalloc_memory_adddress_is_unknown env hHeap lpMem e_HeapReAlloc
              else give False) (\<lambda>found.
     let p = fptr hHeap dwFlags lpMem dwBytes
     in if p = 0 then give p
        else andthen (only_if found (erase_heap_block hHeap lpMem)) (\<lambda>_.
          andthen (add_heap_block env hHeap p dwBytes e_HeapReAlloc) (\<lambda>_. give p))))"

text \<open>A null argument goes to \<^verbatim>\<open>HeapFree\<close> itself, not to the stored original.\<close>

definition buginsight_heapfree ::
  "call_env \<Rightarrow> (ptr \<Rightarrow> u32 \<Rightarrow> ptr \<Rightarrow> int) \<Rightarrow> (ptr \<Rightarrow> u32 \<Rightarrow> ptr \<Rightarrow> int) \<Rightarrow> ptr \<Rightarrow> u32 \<Rightarrow> ptr \<Rightarrow>
   int leak_action" where
  "buginsight_heapfree env fptr HeapFree hHeap dwFlags lpMem =
     andthen count_call (\<lambda>_.
     if hHeap = 0 \<or> lpMem = 0 then give (HeapFree hHeap dwFlags lpMem)
     else andthen (log_or_abort_if_heapalloc_memory_adddress_is_unknown env hHeap lpMem e_HeapFree)
       (\<lambda>found. andthen (only_if found (erase_heap_block hHeap lpMem)) (\<lambda>_.
          give (fptr hHeap dwFlags lpMem))))"

section \<open>Their effect\<close>

lemma heap_block_known:
  assumes "view s (heap, p) \<noteq> None"
  shows "log_or_abort_if_heapalloc_memory_adddress_is_unknown env heap p f s = Running True s"
  using assms
  by (auto simp: log_or_abort_if_heapalloc_memory_adddress_is_unknown_def view_def
      repo_get_data_heap_def repo_get_key_entry give_def)

lemma add_heap_block_spec:
  assumes "leak_inv s" "view s (heap, p) = None"
  shows "\<exists>s'. add_heap_block env heap p bytes f s = Running () s' \<and> leak_inv s' \<and>
    view s' = (view s)((heap, p) \<mapsto> (bytes, e_heapapi, f)) \<and> same_but_repo s s'"
proof -
  let ?r = "repo_add_heap env heap p bytes f (ls_repo s)"
  have r: "?r = repo_put (heap, p) (leak_data env (mr_collect (ls_repo s)) bytes e_heapapi f) (ls_repo s)"
    by (simp add: repo_add_heap_def repo_add_key_put)
  have "repo_inv ?r" "entry ?r = (entry (ls_repo s))((heap, p) \<mapsto>
      leak_data env (mr_collect (ls_repo s)) bytes e_heapapi f)"
    using repo.add_law assms(1) repo.add_fresh assms(1,2) unfolding r leak_inv_def view_None by blast+
  then show ?thesis
    by (auto simp: add_heap_block_def change_def leak_inv_def view_def leak_data_def
        same_but_repo_def fun_eq_iff)
qed

lemma erase_heap_block_spec:
  assumes "leak_inv s"
  shows "\<exists>s'. erase_heap_block heap p s = Running () s' \<and> leak_inv s' \<and>
    view s' = (view s)((heap, p) := None) \<and> same_but_repo s s'"
  using repo.del_law assms
  by (auto simp: erase_heap_block_def change_def leak_inv_def view_def repo_erase_heap_def
      same_but_repo_def fun_eq_iff)

end
