(* ===== verification/Windows_Calls.thy ===== *)
theory Windows_Calls
  imports Call_Effects Local_Monitor Heap_Monitor
begin

text \<open>
  The calls of all monitored functions of Windows, as data, with their effect on the heap and the
  rules of the documentation: \<^verbatim>\<open>LocalAlloc\<close> and the functions that allocate with it, \<^verbatim>\<open>GlobalAlloc\<close> and
  the heap functions. The last arguments of a call are what the original function answered (its
  result, the pointer it wrote) and what is measured at the block.
\<close>

section \<open>The calls\<close>

datatype local_call =
    Local_Alloc u32 u64 ptr | Local_ReAlloc ptr u64 u32 ptr | Local_Free ptr | Free_Sid ptr
  | Format_Message bool u32 ptr u32 u32 ptr u32 ptr u32 ptr u64
  | Command_Line_To_Argv ptr ptr ptr u64
  | Crypt_Protect_Data ptr ptr ptr ptr ptr u32 int ptr u64
  | Crypt_Unprotect_Data ptr ptr ptr ptr ptr u32 int ptr ptr "ptr \<Rightarrow> u64"
  | Convert_Sid_To_String bool ptr int ptr u64 | Convert_String_To_Sid bool ptr int ptr u64
  | Get_Named_Security_Info bool ptr int u32 ptr ptr ptr ptr u32 ptr u64
  | Set_Entries_In_Acl bool u32 ptr ptr u32 ptr u64
  | Allocate_And_Initialize_Sid ptr u8 "u32 list" int ptr u64
  | Get_Security_Info ptr int u32 ptr ptr ptr ptr ptr u32 ptr u64
  | Str_Dup bool ptr u64 ptr

datatype windows_call =
    Local_Call local_call
  | Global_Alloc u32 u64 ptr | Global_ReAlloc ptr u64 u32 ptr | Global_Free ptr
  | Heap_Alloc ptr u32 u64 ptr | Heap_ReAlloc ptr u32 ptr u64 ptr | Heap_Free ptr u32 ptr

fun run_local :: "call_env \<Rightarrow> local_call \<Rightarrow> unit leak_action" where
  "run_local env (Local_Alloc flags n p) = forget (buginsight_localalloc env (\<lambda>_ _. p) flags n)"
| "run_local env (Local_ReAlloc q n flags p) = forget (buginsight_localrealloc env (\<lambda>_ _ _. p) q n flags)"
| "run_local env (Local_Free q) = forget (buginsight_localfree env (\<lambda>_. 0) (\<lambda>_. 0) q)"
| "run_local env (Free_Sid q) = forget (buginsight_FreeSid env (\<lambda>_. 0) q)"
| "run_local env (Format_Message False flags src mid lang buf sz args res p len) =
     forget (buginsight_formatmessagea env (\<lambda>_. len) (\<lambda>_ _ _ _ _ _ _. (res, p)) flags src mid lang buf sz args)"
| "run_local env (Format_Message True flags src mid lang buf sz args res p len) =
     forget (buginsight_formatmessagew env (\<lambda>_. len) (\<lambda>_ _ _ _ _ _ _. (res, p)) flags src mid lang buf sz args)"
| "run_local env (Command_Line_To_Argv line num p n) =
     forget (buginsight_CommandLineToArgvW env (\<lambda>_. n) (\<lambda>_ _. p) line num)"
| "run_local env (Crypt_Protect_Data data descr entropy reserved prompt flags res p n) =
     forget (buginsight_CryptProtectData env (\<lambda>_. n) (\<lambda>_ _ _ _ _ _. (res, p))
       data descr entropy reserved prompt flags)"
| "run_local env (Crypt_Unprotect_Data data descr entropy reserved prompt flags res d p ns) =
     forget (buginsight_CryptUnprotectData env ns (\<lambda>_ _ _ _ _ _. (res, d, p))
       data descr entropy reserved prompt flags)"
| "run_local env (Convert_Sid_To_String False sid res p n) =
     forget (buginsight_ConvertSidToStringSidA env (\<lambda>_. n) (\<lambda>_. (res, p)) sid)"
| "run_local env (Convert_Sid_To_String True sid res p n) =
     forget (buginsight_ConvertSidToStringSidW env (\<lambda>_. n) (\<lambda>_. (res, p)) sid)"
| "run_local env (Convert_String_To_Sid False str res p n) =
     forget (buginsight_ConvertStringSidToSidA env (\<lambda>_. n) (\<lambda>_. (res, p)) str)"
| "run_local env (Convert_String_To_Sid True str res p n) =
     forget (buginsight_ConvertStringSidToSidW env (\<lambda>_. n) (\<lambda>_. (res, p)) str)"
| "run_local env (Get_Named_Security_Info False nm ty si owner grp dacl sacl res p n) =
     forget (buginsight_GetNamedSecurityInfoA env (\<lambda>_. n) (\<lambda>_ _ _ _ _ _ _. (res, p))
       nm ty si owner grp dacl sacl)"
| "run_local env (Get_Named_Security_Info True nm ty si owner grp dacl sacl res p n) =
     forget (buginsight_GetNamedSecurityInfoW env (\<lambda>_. n) (\<lambda>_ _ _ _ _ _ _. (res, p))
       nm ty si owner grp dacl sacl)"
| "run_local env (Set_Entries_In_Acl False cnt es acl res p n) =
     forget (buginsight_SetEntriesInAclA env (\<lambda>_. n) (\<lambda>_ _ _. (res, p)) cnt es acl)"
| "run_local env (Set_Entries_In_Acl True cnt es acl res p n) =
     forget (buginsight_SetEntriesInAclW env (\<lambda>_. n) (\<lambda>_ _ _. (res, p)) cnt es acl)"
| "run_local env (Allocate_And_Initialize_Sid auth cnt subs res p n) =
     forget (buginsight_AllocateAndInitializeSid env (\<lambda>_. n) (\<lambda>_ _ _. (res, p)) auth cnt subs)"
| "run_local env (Get_Security_Info h ty si owner grp dacl sacl sd res p n) =
     forget (buginsight_GetSecurityInfo env (\<lambda>_. n) (\<lambda>_ _ _ _ _ _ _ _. (res, p))
       h ty si owner grp dacl sacl sd)"
| "run_local env (Str_Dup False str n p) = forget (buginsight_StrDupA env (\<lambda>_. n) (\<lambda>_. p) str)"
| "run_local env (Str_Dup True str n p) = forget (buginsight_StrDupW env (\<lambda>_. n) (\<lambda>_. p) str)"

fun run_windows :: "call_env \<Rightarrow> windows_call \<Rightarrow> unit leak_action" where
  "run_windows env (Local_Call c) = run_local env c"
| "run_windows env (Global_Alloc flags n p) = forget (buginsight_globalalloc env (\<lambda>_ _. p) flags n)"
| "run_windows env (Global_ReAlloc q n flags p) = forget (buginsight_globalrealloc env (\<lambda>_ _ _. p) q n flags)"
| "run_windows env (Global_Free q) = forget (buginsight_globalfree env (\<lambda>_. 0) (\<lambda>_. 0) q)"
| "run_windows env (Heap_Alloc h flags n p) = forget (buginsight_heapalloc env (\<lambda>_ _ _. p) h flags n)"
| "run_windows env (Heap_ReAlloc h flags q n p) = forget (buginsight_heaprepalloc env (\<lambda>_ _ _ _. p) h flags q n)"
| "run_windows env (Heap_Free h flags q) = forget (buginsight_heapfree env (\<lambda>_ _ _. 1) (\<lambda>_ _ _. 1) h flags q)"

section \<open>Their effect on the heap\<close>

text \<open>A block that is handed out if the call succeeds.\<close>

definition granted :: "bool \<Rightarrow> ptr \<Rightarrow> u64 \<times> api_function \<Rightarrow> heap_view \<Rightarrow> heap_view" where
  "granted ok p v H = (if ok then born 0 p (fst v, e_localalloc_family, snd v) H else H)"

definition of_width :: "bool \<Rightarrow> api_function \<Rightarrow> api_function \<Rightarrow> api_function" where
  "of_width wide f fw = (if wide then fw else f)"

definition allocates_message :: "u32 \<Rightarrow> u32 \<Rightarrow> bool" where
  "allocates_message flags res \<longleftrightarrow> res \<noteq> 0 \<and>
     flags AND FORMAT_MESSAGE_ALLOCATE_BUFFER = FORMAT_MESSAGE_ALLOCATE_BUFFER"

fun local_spec :: "local_call \<Rightarrow> heap_view \<Rightarrow> heap_view" where
  "local_spec (Local_Alloc flags n p) H = born 0 p (n, e_localalloc_family, e_localalloc) H"
| "local_spec (Local_ReAlloc q n flags p) H = resized 0 q p (n, e_localalloc_family, e_localrealloc) H"
| "local_spec (Local_Free q) H = dead 0 q H"
| "local_spec (Free_Sid q) H = dead 0 q H"
| "local_spec (Format_Message wide flags src mid lang buf sz args res p len) H =
     granted (allocates_message flags res) p (if wide then (len + 1) * 2 else len + 1,
       of_width wide e_FormatMessageA e_FormatMessageW) H"
| "local_spec (Command_Line_To_Argv line num p n) H = granted True p (n, e_CommandLineToArgvW) H"
| "local_spec (Crypt_Protect_Data data descr entropy reserved prompt flags res p n) H =
     granted (res \<noteq> 0) p (n, e_CryptProtectData) H"
| "local_spec (Crypt_Unprotect_Data data descr entropy reserved prompt flags res d p ns) H =
     granted (res \<noteq> 0) p (ns p, e_CryptUnprotectData)
       (granted (res \<noteq> 0 \<and> descr \<noteq> 0) d (ns d, e_CryptUnprotectData) H)"
| "local_spec (Convert_Sid_To_String wide sid res p n) H =
     granted (res \<noteq> 0) p (n, of_width wide e_ConvertSidToStringSidA e_ConvertSidToStringSidW) H"
| "local_spec (Convert_String_To_Sid wide str res p n) H =
     granted (res \<noteq> 0) p (n, of_width wide e_ConvertStringSidToSidA e_ConvertStringSidToSidW) H"
| "local_spec (Get_Named_Security_Info wide nm ty si owner grp dacl sacl res p n) H =
     granted (res = 0) p (n, of_width wide e_GetNamedSecurityInfoA e_GetNamedSecurityInfoW) H"
| "local_spec (Set_Entries_In_Acl wide cnt es acl res p n) H =
     granted (res = 0) p (n, of_width wide e_SetEntriesInAclA e_SetEntriesInAclW) H"
| "local_spec (Allocate_And_Initialize_Sid auth cnt subs res p n) H =
     granted (res \<noteq> 0) p (n, e_AllocateAndInitializeSid) H"
| "local_spec (Get_Security_Info h ty si owner grp dacl sacl sd res p n) H =
     granted (res = 0 \<and> sd \<noteq> 0) p (n, e_GetSecurityInfo) H"
| "local_spec (Str_Dup wide str n p) H = granted True p (n, of_width wide e_StrDupA e_StrDupW) H"

fun windows_spec :: "windows_call \<Rightarrow> heap_view \<Rightarrow> heap_view" where
  "windows_spec (Local_Call c) H = local_spec c H"
| "windows_spec (Global_Alloc flags n p) H = born 0 p (n, e_globalalloc_family, e_globalalloc) H"
| "windows_spec (Global_ReAlloc q n flags p) H = resized 0 q p (n, e_globalalloc_family, e_globrealalloc) H"
| "windows_spec (Global_Free q) H = dead 0 q H"
| "windows_spec (Heap_Alloc h flags n p) H = born h p (n, e_heapapi, e_HeapAlloc) H"
| "windows_spec (Heap_ReAlloc h flags q n p) H = resized h q p (n, e_heapapi, e_HeapReAlloc) H"
| "windows_spec (Heap_Free h flags q) H = dead h q H"

section \<open>The documented behaviour\<close>

text \<open>
  A block that is handed out has an unused address, and a call that fails hands out none. Releases
  succeed. Two cases are left out, since the monitors get them wrong: a \<^verbatim>\<open>LocalReAlloc\<close> that fails,
  before which the monitor has forgotten the block, and a call that succeeds without a block.
\<close>

definition grant_ok :: "bool \<Rightarrow> ptr \<Rightarrow> heap_view \<Rightarrow> bool" where
  "grant_ok ok p H \<longleftrightarrow> (ok \<longrightarrow> p \<noteq> 0 \<and> unused H 0 p)"

fun local_legal :: "local_call \<Rightarrow> heap_view \<Rightarrow> bool" where
  "local_legal (Local_Alloc flags n p) H = unused H 0 p"
| "local_legal (Local_ReAlloc q n flags p) H =
     (p \<noteq> 0 \<and> owned H 0 q e_localalloc_family \<and> (p = q \<or> unused H 0 p))"
| "local_legal (Local_Free q) H = owned H 0 q e_localalloc_family"
| "local_legal (Free_Sid q) H = owned H 0 q e_localalloc_family"
| "local_legal (Format_Message wide flags src mid lang buf sz args res p len) H =
     grant_ok (allocates_message flags res) p H"
| "local_legal (Command_Line_To_Argv line num p n) H = unused H 0 p"
| "local_legal (Crypt_Protect_Data data descr entropy reserved prompt flags res p n) H =
     grant_ok (res \<noteq> 0) p H"
| "local_legal (Crypt_Unprotect_Data data descr entropy reserved prompt flags res d p ns) H =
     (grant_ok (res \<noteq> 0) p H \<and> grant_ok (res \<noteq> 0 \<and> descr \<noteq> 0) d H \<and> (res \<noteq> 0 \<and> descr \<noteq> 0 \<longrightarrow> d \<noteq> p))"
| "local_legal (Convert_Sid_To_String wide sid res p n) H = grant_ok (res \<noteq> 0) p H"
| "local_legal (Convert_String_To_Sid wide str res p n) H = grant_ok (res \<noteq> 0) p H"
| "local_legal (Get_Named_Security_Info wide nm ty si owner grp dacl sacl res p n) H =
     grant_ok (res = 0) p H"
| "local_legal (Set_Entries_In_Acl wide cnt es acl res p n) H = grant_ok (res = 0) p H"
| "local_legal (Allocate_And_Initialize_Sid auth cnt subs res p n) H = grant_ok (res \<noteq> 0) p H"
| "local_legal (Get_Security_Info h ty si owner grp dacl sacl sd res p n) H =
     grant_ok (res = 0 \<and> sd \<noteq> 0) p H"
| "local_legal (Str_Dup wide str n p) H = unused H 0 p"

fun windows_legal :: "windows_call \<Rightarrow> heap_view \<Rightarrow> bool" where
  "windows_legal (Local_Call c) H = local_legal c H"
| "windows_legal (Global_Alloc flags n p) H = unused H 0 p"
| "windows_legal (Global_ReAlloc q n flags p) H =
     (owned H 0 q e_globalalloc_family \<and> (p = q \<or> unused H 0 p))"
| "windows_legal (Global_Free q) H = owned H 0 q e_globalalloc_family"
| "windows_legal (Heap_Alloc h flags n p) H = (h \<noteq> 0 \<and> unused H h p)"
| "windows_legal (Heap_ReAlloc h flags q n p) H =
     (h \<noteq> 0 \<and> q \<noteq> 0 \<and> owned H h q e_heapapi \<and> (p = q \<or> unused H h p))"
| "windows_legal (Heap_Free h flags q) H = (h \<noteq> 0 \<and> owned H h q e_heapapi)"

section \<open>The monitors have this effect\<close>

lemma goes_heap_alloc:
  assumes "leak_inv s" "unused (view s) h p"
  shows "goes (forget (if p = 0 then give p else andthen (add_heap_block env h p n f) (\<lambda>_. give p)) s) s
    (born h p (n, e_heapapi, f) (view s))"
proof (cases "p = 0")
  case True
  then show ?thesis
    using assms(1) by (simp add: goes_def forget_def andthen_def give_def born_def silent_def)
next
  case False
  then have "view s (h, p) = None" using assms(2) by (simp add: unused_def)
  from add_heap_block_spec [OF assms(1) this, of env n f] show ?thesis
    using False by (auto simp: goes_def forget_def andthen_def give_def born_def silent_repo)
qed

lemma goes_heap_realloc:
  assumes inv: "leak_inv s" and h: "h \<noteq> 0" and b: "b \<noteq> 0" "owned (view s) h b e_heapapi"
    and p: "p = b \<or> unused (view s) h p"
  shows "goes (forget (buginsight_heaprepalloc env (\<lambda>_ _ _ _. p) h flags b n) s) s
    (resized h b p (n, e_heapapi, e_HeapReAlloc) (view s))"
proof -
  let ?s = "s\<lparr>ls_calls := ls_calls s + 1\<rparr>"
  have known: "log_or_abort_if_heapalloc_memory_adddress_is_unknown env h b e_HeapReAlloc ?s =
      Running True ?s"
    using b by (intro heap_block_known) (auto simp: owned_def)
  show ?thesis
  proof (cases "p = 0")
    case True
    then show ?thesis
      using inv h b known
      by (simp add: buginsight_heaprepalloc_def goes_counted Let_def)
        (simp add: goes_def forget_def give_def resized_def silent_def reports_def)
  next
    case False
    obtain s1 where s1: "erase_heap_block h b ?s = Running () s1" "leak_inv s1"
      "view s1 = (view s)((h, b) := None)" "same_but_repo ?s s1"
      using erase_heap_block_spec [of ?s h b] inv by auto
    have "view s1 (h, p) = None" using p False s1(3) by (auto simp: unused_def)
    then obtain s2 where s2: "add_heap_block env h p n e_HeapReAlloc s1 = Running () s2" "leak_inv s2"
      "view s2 = (view s1)((h, p) \<mapsto> (n, e_heapapi, e_HeapReAlloc))" "same_but_repo s1 s2"
      using add_heap_block_spec [OF s1(2), of h p] by blast
    have "silent ?s s2" using s1(4) s2(4) silent_repo silent_trans by blast
    then show ?thesis
      using h b known s1 s2 False
      by (simp add: buginsight_heaprepalloc_def goes_counted Let_def)
        (simp add: goes_def forget_def give_def only_if_def resized_def born_def dead_def)
  qed
qed

lemma goes_heap_free:
  assumes inv: "leak_inv s" and h: "h \<noteq> 0" and b: "owned (view s) h b e_heapapi"
  shows "goes (forget (buginsight_heapfree env (\<lambda>_ _ _. 1) (\<lambda>_ _ _. 1) h flags b) s) s (dead h b (view s))"
proof -
  let ?s = "s\<lparr>ls_calls := ls_calls s + 1\<rparr>"
  show ?thesis
  proof (cases "b = 0")
    case True
    then show ?thesis
      using inv by (simp add: buginsight_heapfree_def goes_counted)
        (simp add: goes_def forget_def give_def dead_def silent_def reports_def)
  next
    case False
    have known: "log_or_abort_if_heapalloc_memory_adddress_is_unknown env h b e_HeapFree ?s =
        Running True ?s"
      using b False by (intro heap_block_known) (auto simp: owned_def)
    obtain s1 where s1: "erase_heap_block h b ?s = Running () s1" "leak_inv s1"
      "view s1 = (view s)((h, b) := None)" "same_but_repo ?s s1"
      using erase_heap_block_spec [of ?s h b] inv by auto
    then show ?thesis
      using h known False
      by (simp add: buginsight_heapfree_def goes_counted)
        (use silent_repo [OF s1(4)] in \<open>simp add: goes_def forget_def give_def only_if_def dead_def\<close>)
  qed
qed

text \<open>The monitors with a pointer argument, and the one that may enter two blocks.\<close>

lemmas out_monitors = buginsight_formatmessagea_def buginsight_formatmessagew_def
  buginsight_CommandLineToArgvW_def buginsight_CryptProtectData_def
  buginsight_ConvertSidToStringSidW_def buginsight_ConvertSidToStringSidA_def
  buginsight_ConvertStringSidToSidW_def buginsight_ConvertStringSidToSidA_def
  buginsight_GetNamedSecurityInfoW_def buginsight_GetNamedSecurityInfoA_def
  buginsight_SetEntriesInAclA_def buginsight_SetEntriesInAclW_def
  buginsight_AllocateAndInitializeSid_def buginsight_GetSecurityInfo_def
  buginsight_StrDupA_def buginsight_StrDupW_def

lemma goes_then:
  assumes "goes (forget m s) s H" "\<And>s'. leak_inv s' \<Longrightarrow> view s' = H \<Longrightarrow> goes (forget f s') s' H'"
  shows "goes (forget (andthen m (\<lambda>_. f)) s) s H'"
proof -
  obtain x s1 where s1: "m s = Running x s1" "leak_inv s1" "view s1 = H" "silent s s1"
    using assms(1) by (auto simp: goes_def forget_def give_def andthen_def split: outcome.splits)
  obtain s2 where s2: "forget f s1 = Running () s2" "leak_inv s2" "view s2 = H'" "silent s1 s2"
    using assms(2) [OF s1(2,3)] by (auto simp: goes_def)
  have "silent s s2" using s1(4) s2(4) by (rule silent_trans)
  moreover have "forget (andthen m (\<lambda>_. f)) s = forget f s1"
    using s1(1) by (simp add: forget_def andthen_assoc)
  ultimately show ?thesis using s2 by (simp add: goes_def)
qed

lemma goes_unprotect:
  assumes "leak_inv s" "grant_ok (res \<noteq> 0) p (view s)" "grant_ok (res \<noteq> 0 \<and> descr \<noteq> 0) d (view s)"
    and "res \<noteq> 0 \<and> descr \<noteq> 0 \<longrightarrow> d \<noteq> p"
  shows "goes (forget (buginsight_CryptUnprotectData env ns (\<lambda>_ _ _ _ _ _. (res, d, p))
      data descr entropy reserved prompt flags) s) s
    (granted (res \<noteq> 0) p (ns p, e_CryptUnprotectData)
      (granted (res \<noteq> 0 \<and> descr \<noteq> 0) d (ns d, e_CryptUnprotectData) (view s)))"
proof (cases "res = 0")
  case True
  then show ?thesis
    using assms(1) by (simp add: buginsight_CryptUnprotectData_def goes_counted granted_def)
      (intro goesI, simp_all)
next
  case False
  let ?s = "s\<lparr>ls_calls := ls_calls s + 1\<rparr>"
  let ?H = "granted (res \<noteq> 0 \<and> descr \<noteq> 0) d (ns d, e_CryptUnprotectData) (view s)"
  have first: "goes (forget (only_if (descr \<noteq> 0) (add_block env d (ns d) e_localalloc_family e_CryptUnprotectData)) ?s)
      ?s ?H"
    using assms(1,3) False goes_add [of ?s d env "ns d" e_localalloc_family e_CryptUnprotectData "()"]
      goes_nothing [of ?s "()"]
    by (simp add: only_if_def granted_def grant_ok_def)
  have second: "goes (forget (andthen (add_block env p (ns p) e_localalloc_family e_CryptUnprotectData)
      (\<lambda>_. give x)) s') s' (granted (res \<noteq> 0) p (ns p, e_CryptUnprotectData) ?H)"
    if "leak_inv s'" "view s' = ?H" for s' x
    using assms(2-4) False that
    by (intro goesI) (auto simp: granted_def grant_ok_def born_def unused_def)
  show ?thesis
    using goes_then [OF first second] False
    by (simp add: buginsight_CryptUnprotectData_def goes_counted)
qed

lemma run_local_refines:
  assumes "leak_inv s" "local_legal c (view s)"
  shows "goes (run_local env c s) s (local_spec c (view s))"
  using assms
proof (cases "(env, c)" rule: run_local.cases)
qed (simp_all add: shape goes_counted Let_def of_width_def goes_unprotect out_monitors,
     (auto intro!: goesI simp: granted_def grant_ok_def allocates_message_def born_def)+)

lemma run_windows_refines:
  assumes "leak_inv s" "windows_legal c (view s)"
  shows "goes (run_windows env c s) s (windows_spec c (view s))"
proof (cases c)
  case (Local_Call c)
  then show ?thesis using run_local_refines assms by simp
next
  case (Heap_Alloc h flags n p)
  then show ?thesis
    using goes_heap_alloc [of "s\<lparr>ls_calls := ls_calls s + 1\<rparr>" h p env n e_HeapAlloc] assms
    by (simp add: buginsight_heapalloc_def goes_counted Let_def)
next
  case (Heap_ReAlloc h flags b n p)
  then show ?thesis using goes_heap_realloc assms by simp
next
  case (Heap_Free h flags b)
  then show ?thesis using goes_heap_free assms by simp
qed (use assms in \<open>simp_all add: shape goes_counted Let_def\<close>, (auto intro!: goesI)+)

end
