(* ===== verification/Leak_Trace.thy ===== *)
theory Leak_Trace
  imports Runtime_Calls Windows_Calls
begin

text \<open>
  Sequences of calls of the monitored allocation functions, across the families. The specification
  is the heap itself: which block is live, with which size, family and function. \<open>legal\<close> is the
  documented behaviour of the allocators and of a program without heap errors, less the cases named
  in \<open>Runtime_Calls\<close> and \<open>Windows_Calls\<close>: a new block does not overlap a live one, and only live
  blocks of the right family are released or resized.
\<close>

section \<open>Sequences of calls\<close>

datatype alloc_call = Runtime_Call runtime_call | Aligned_Call aligned_call | Windows_Call windows_call

fun run_alloc :: "call_env \<Rightarrow> heap_env \<Rightarrow> alloc_call \<Rightarrow> unit leak_action" where
  "run_alloc env he (Runtime_Call c) = run_runtime env he c"
| "run_alloc env he (Aligned_Call c) = run_aligned env c"
| "run_alloc env he (Windows_Call c) = run_windows env c"

fun alloc_spec :: "alloc_call \<Rightarrow> heap_view \<Rightarrow> heap_view" where
  "alloc_spec (Runtime_Call c) H = runtime_spec c H"
| "alloc_spec (Aligned_Call c) H = aligned_spec c H"
| "alloc_spec (Windows_Call c) H = windows_spec c H"

fun legal :: "alloc_call \<Rightarrow> heap_view \<Rightarrow> bool" where
  "legal (Runtime_Call c) H = runtime_legal c H"
| "legal (Aligned_Call c) H = aligned_legal c H"
| "legal (Windows_Call c) H = windows_legal c H"

section \<open>Refinement of sequences\<close>

fun run_steps :: "('c \<Rightarrow> 's \<Rightarrow> (unit, 's) outcome) \<Rightarrow> 'c list \<Rightarrow> 's \<Rightarrow> (unit, 's) outcome" where
  "run_steps step [] = give ()"
| "run_steps step (c # cs) = andthen (step c) (\<lambda>_. run_steps step cs)"

fun all_allowed :: "('c \<Rightarrow> 'a \<Rightarrow> bool) \<Rightarrow> ('c \<Rightarrow> 'a \<Rightarrow> 'a) \<Rightarrow> 'c list \<Rightarrow> 'a \<Rightarrow> bool" where
  "all_allowed allowed spec [] a = True"
| "all_allowed allowed spec (c # cs) a = (allowed c a \<and> all_allowed allowed spec cs (spec c a))"

locale call_refinement =
  fixes step :: "'c \<Rightarrow> 's \<Rightarrow> (unit, 's) outcome"
    and abs :: "'s \<Rightarrow> 'a"
    and spec :: "'c \<Rightarrow> 'a \<Rightarrow> 'a"
    and allowed :: "'c \<Rightarrow> 'a \<Rightarrow> bool"
    and valid :: "'s \<Rightarrow> bool"
    and quiet :: "'s \<Rightarrow> 's \<Rightarrow> bool"
  assumes step_law: "valid s \<Longrightarrow> allowed c (abs s) \<Longrightarrow>
      \<exists>s'. step c s = Running () s' \<and> valid s' \<and> abs s' = spec c (abs s) \<and> quiet s s'"
    and quiet_refl: "quiet s s"
    and quiet_trans: "quiet s s' \<Longrightarrow> quiet s' s'' \<Longrightarrow> quiet s s''"
begin

lemma run_refines:
  assumes "valid s" "all_allowed allowed spec cs (abs s)"
  shows "\<exists>s'. run_steps step cs s = Running () s' \<and> valid s' \<and>
    abs s' = foldl (\<lambda>a c. spec c a) (abs s) cs \<and> quiet s s'"
  using assms
proof (induction cs arbitrary: s)
  case Nil
  then show ?case by (simp add: give_def quiet_refl)
next
  case (Cons c cs)
  obtain s1 where s1: "step c s = Running () s1" "valid s1" "abs s1 = spec c (abs s)" "quiet s s1"
    using step_law [OF Cons.prems(1), of c] Cons.prems(2) by auto
  have "all_allowed allowed spec cs (abs s1)" using Cons.prems(2) s1(3) by simp
  from Cons.IH [OF s1(2) this] show ?case using s1 quiet_trans by auto
qed

end

section \<open>The monitors refine the heap\<close>

lemma run_alloc_refines:
  assumes "leak_inv s" "legal c (view s)" "he_heapchk_ok he" "he_validate_ok he"
  shows "goes (run_alloc env he c s) s (alloc_spec c (view s))"
  using assms run_runtime_refines run_aligned_refines run_windows_refines by (cases c) simp_all

type_synonym monitored_call = "call_env \<times> heap_env \<times> alloc_call"

definition alloc_step :: "monitored_call \<Rightarrow> unit leak_action" where
  "alloc_step = (\<lambda>(env, he, c). run_alloc env he c)"

definition alloc_effect :: "monitored_call \<Rightarrow> heap_view \<Rightarrow> heap_view" where
  "alloc_effect = (\<lambda>(env, he, c). alloc_spec c)"

definition alloc_legal :: "monitored_call \<Rightarrow> heap_view \<Rightarrow> bool" where
  "alloc_legal = (\<lambda>(env, he, c) H. he_heapchk_ok he \<and> he_validate_ok he \<and> legal c H)"

definition live_blocks :: "monitored_call list \<Rightarrow> heap_view" where
  "live_blocks cs = foldl (\<lambda>H c. alloc_effect c H) Map.empty cs"

interpretation allocs: call_refinement alloc_step view alloc_effect alloc_legal leak_inv silent
proof
  fix s c assume "leak_inv s" "alloc_legal c (view s)"
  then show "\<exists>s'. alloc_step c s = Running () s' \<and> leak_inv s' \<and>
      view s' = alloc_effect c (view s) \<and> silent s s'"
    using run_alloc_refines [of s "snd (snd c)" "fst (snd c)" "fst c"]
    by (auto simp: alloc_step_def alloc_effect_def alloc_legal_def goes_def split: prod.splits)
qed (auto simp: silent_def)

lemma leak_view_finite: "leak_inv s \<Longrightarrow> finite (dom (view s))"
proof -
  assume "leak_inv s"
  moreover have "dom (view s) = dom (entry (ls_repo s))" by (auto simp: view_def)
  ultimately show ?thesis using repo.entries_law by (simp add: leak_inv_def)
qed

lemma leak_count_view: "leak_inv s \<Longrightarrow> leak_count (ls_repo s) = card (dom (view s))"
proof -
  assume "leak_inv s"
  moreover have "dom (view s) = dom (entry (ls_repo s))" by (auto simp: view_def)
  ultimately show ?thesis using repo.entries_law by (simp add: leak_inv_def)
qed

end
