(* ===== verification/Leak_Properties.thy ===== *)
theory Leak_Properties
  imports Leak_Trace
begin

text \<open>
  The properties of the memory leak check: the table of allocations is the heap of the program, heap
  errors are reported, and the report at the end contains what it should.
\<close>

section \<open>Example inputs\<close>

definition sample_env :: call_env where
  "sample_env = \<lparr>ce_tid = 1, ce_frames = [4198400, 4198656], ce_hash = 77, ce_stack_text = ''main''\<rparr>"

definition sample_heap :: heap_env where
  "sample_heap = \<lparr>he_start = 0, he_ticks = 100, he_ticks_fresh = 101, he_heapchk_ok = True,
     he_validate_ok = True\<rparr>"

definition sample_calls :: "monitored_call list" where
  "sample_calls = map (\<lambda>c. (sample_env, sample_heap, c))
     [Runtime_Call (Malloc None 16 4096), Runtime_Call (Strdup True (Some (1, 0, 7)) 64 5 8192),
      Runtime_Call (Realloc None 4096 32 12288), Windows_Call (Heap_Alloc 7 8 100 4096),
      Windows_Call (Local_Call (Local_Alloc 64 8 4096)), Aligned_Call (Aligned_Offset_Malloc None 64 16 8 16384),
      Windows_Call (Local_Call (Convert_Sid_To_String False 64 1 20480 44)), Runtime_Call (Free None 8192),
      Aligned_Call (Aligned_Offset_Recalloc None 16384 0 0 16 8 0),
      Windows_Call (Heap_ReAlloc 7 0 4096 200 4096), Windows_Call (Local_Call (Local_Free 4096))]"

definition one_block :: leak_state where
  "one_block = (let s = leak_state_init default_options 0 in s\<lparr>ls_repo :=
     repo_add sample_env 4096 16 e_malloc_family e_malloc (ls_repo s)\<rparr>)"

lemma one_block_spec:
  "leak_inv one_block" "view one_block = Map.empty((0, 4096) \<mapsto> (16, e_malloc_family, e_malloc))"
  "ls_options one_block = default_options"
  by (simp_all add: one_block_def Let_def leak_state_init_def leak_inv_def repo_inv_def view_def entry_def
      repo_add_def repo_add_key_def emplace_def repository_init_def leak_data_def fun_eq_iff)

section \<open>The table is the heap\<close>

text \<open>C18: For every sequence of calls of the monitored functions, of the C runtime (with the debug,
  wide and aligned variants) and of Windows, in any mix of the families and with any arguments and
  answers of the originals that the predicate legal allows: the monitors run to the end without a
  report, the table holds exactly the live blocks with their sizes, families and functions, and the
  number of leaks is the number of blocks that are still live. The predicate demands that the program
  has no heap errors and the allocators no overlap, that the checks of the heap succeed and releases
  do not fail, and it leaves out four documented cases that the monitors get wrong: a LocalReAlloc
  that fails, a recalloc (of any variant) of zero elements of a positive size that releases the block,
  a dupenv_s without a value, and a Windows function that succeeds without the block it returns
  through a pointer.\<close>

theorem leak_table_is_heap:
  assumes "all_allowed alloc_legal alloc_effect cs Map.empty"
  shows "\<exists>s. run_steps alloc_step cs (leak_state_init opts start) = Running () s \<and>
    view s = live_blocks cs \<and> leak_count (ls_repo s) = card (dom (live_blocks cs)) \<and> reports s = []"
proof -
  let ?s0 = "leak_state_init opts start"
  have "all_allowed alloc_legal alloc_effect cs (view ?s0)" using assms by (simp add: leak_init(2))
  then obtain s where s: "run_steps alloc_step cs ?s0 = Running () s" "leak_inv s"
    "view s = foldl (\<lambda>H c. alloc_effect c H) (view ?s0) cs" "silent ?s0 s"
    using allocs.run_refines [OF leak_init(1)] by blast
  have "reports s = []" using s(4) by (simp add: silent_def reports_def leak_state_init_def)
  then show ?thesis
    using s leak_count_view [OF s(2)] by (simp add: live_blocks_def leak_init(2))
qed

theorem leak_table_is_heap_witness:
  "\<exists>s. run_steps alloc_step sample_calls (leak_state_init default_options 0) = Running () s \<and>
    view s (0, 12288) = Some (32, e_malloc_family, e_realloc) \<and>
    view s (7, 4096) = Some (200, e_heapapi, e_HeapReAlloc) \<and>
    view s (0, 20480) = Some (44, e_localalloc_family, e_ConvertSidToStringSidA) \<and>
    view s (0, 8192) = None \<and> view s (0, 16384) = None \<and> view s (0, 4096) = None \<and> reports s = []"
proof -
  have "all_allowed alloc_legal alloc_effect sample_calls Map.empty"
    by (simp add: sample_calls_def alloc_legal_def alloc_effect_def sample_heap_def born_def dead_def
        resized_def unused_def owned_def granted_def grant_ok_def recalloc_ok_def)
  from leak_table_is_heap [OF this, of default_options 0] show ?thesis
    by (auto simp: live_blocks_def sample_calls_def alloc_effect_def born_def dead_def resized_def granted_def
        named_def of_width_def)
qed

section \<open>Heap errors\<close>

lemma unknown_free_runs:
  assumes "leak_inv s" "view s (0, p) = None" "p \<noteq> 0" "he_heapchk_ok he" "he_validate_ok he"
    and "m_log_level (ls_options s) \<le> info" "m_on_error (ls_options s) \<noteq> On_Error_fail"
  shows "\<exists>s'. bi_free env he (\<lambda>_. ()) p s = Running () s' \<and> leak_inv s' \<and> view s' = view s \<and>
    (info, build_unknown_memory_address_text (ce_tid env) e_free p (ce_stack_text env)) \<in> set (ls_log s')"
proof -
  let ?s = "s\<lparr>ls_calls := ls_calls s + 1\<rparr>"
  let ?text = "build_unknown_memory_address_text (ce_tid env) e_free p (ce_stack_text env)"
  have free: "view ?s (0, p) = None" using assms(2) by simp
  from assms(7) have k: "known_address env p e_malloc_family e_free ?s =
      Running False (?s\<lparr>ls_log := log_msg (ls_options s) info ?text (ls_log s)\<rparr>)"
    using known_address_unknown [OF free assms(3), of env e_malloc_family e_free] by simp
  let ?s1 = "?s\<lparr>ls_log := log_msg (ls_options s) info ?text (ls_log s)\<rparr>"
  obtain s2 where s2: "check_heap_periodic env he ?s1 = Running () s2" "ls_repo s2 = ls_repo ?s1"
    "ls_log s2 = ls_log ?s1 \<or>
      ls_log s2 = log_msg (ls_options ?s1) trace (''check heap periodic'' @ nl) (ls_log ?s1)"
    using check_heap_periodic_healthy [OF assms(4,5)] by blast
  have "bi_free env he (\<lambda>_. ()) p s = Running () s2"
    using k assms(3) s2(1)
    by (simp add: shape counted untracked_def andthen_assoc only_if_def)
  moreover have "view s2 = view s" using s2(2) by (simp add: view_def fun_eq_iff)
  moreover have "leak_inv s2" using assms(1) s2(2) by (simp add: leak_inv_def)
  moreover have "(info, ?text) \<in> set (ls_log s2)"
    using s2(3) assms(6) by (auto simp: log_msg_def)
  ultimately show ?thesis by blast
qed

text \<open>C19: Freeing an address that is not a live block (a double free) is reported with the function's
  name and the address, and the table is not changed. With on_error=fail the process ends with the
  configured exit code before the original function is called.\<close>

theorem double_free_reported:
  assumes "leak_inv s" "view s (0, p) = None" "p \<noteq> 0" "he_heapchk_ok he" "he_validate_ok he"
    and "m_log_level (ls_options s) \<le> info"
  shows "if m_on_error (ls_options s) = On_Error_fail
    then \<exists>s'. bi_free env he (\<lambda>_. ()) p s = Terminated (m_exit_code (ls_options s)) s'
    else \<exists>s'. bi_free env he (\<lambda>_. ()) p s = Running () s' \<and> view s' = view s \<and>
      (info, build_unknown_memory_address_text (ce_tid env) e_free p (ce_stack_text env))
        \<in> set (ls_log s')"
proof -
  have free: "view (s\<lparr>ls_calls := ls_calls s + 1\<rparr>) (0, p) = None" using assms(2) by simp
  have "\<exists>s'. bi_free env he (\<lambda>_. ()) p s = Terminated (m_exit_code (ls_options s)) s'"
    if "m_on_error (ls_options s) = On_Error_fail"
    using known_address_unknown_fatal [OF free assms(3), of env e_malloc_family e_free] that
    by (auto simp: shape counted untracked_def andthen_assoc)
  then show ?thesis using unknown_free_runs [OF assms, of env] by auto
qed

theorem double_free_reported_witness:
  "\<exists>s'. bi_free sample_env sample_heap (\<lambda>_. ()) 8192 one_block = Running () s' \<and>
    view s' = view one_block \<and>
    (info, build_unknown_memory_address_text 1 e_free 8192 ''main'') \<in> set (ls_log s')"
  using double_free_reported [of one_block 8192 sample_heap sample_env]
  by (simp add: one_block_spec default_options_def sample_heap_def sample_env_def)

text \<open>Releasing a block with a function of another family is reported with both families, and the
  block is forgotten, since it is gone.\<close>

theorem wrong_family_reported:
  assumes "leak_inv s" "view s (0, p) = Some (n, family, g)" "family \<noteq> e_aligned_malloc" "p \<noteq> 0"
    and "m_on_error (ls_options s) \<noteq> On_Error_fail" "m_log_level (ls_options s) \<le> info"
  shows "\<exists>s'. bi__aligned_free env (\<lambda>_. ()) p s = Running () s' \<and>
    view s' = (view s)((0, p) := None) \<and>
    (info, build_wrong_api_family_text (ce_tid env) e__aligned_free family e_aligned_malloc p
       (ce_stack_text env)) \<in> set (ls_log s')"
proof -
  let ?s = "s\<lparr>ls_calls := ls_calls s + 1\<rparr>"
  let ?text = "build_wrong_api_family_text (ce_tid env) e__aligned_free family e_aligned_malloc p
    (ce_stack_text env)"
  let ?s1 = "?s\<lparr>ls_log := log_msg (ls_options s) info ?text (ls_log s)\<rparr>"
  have "view ?s (0, p) = Some (n, family, g)" using assms(2) by simp
  then have k: "known_address env p e_aligned_malloc e__aligned_free ?s = Running True ?s1"
    using known_address_wrong_family [OF _ assms(3,4), of ?s n g env] assms(5) by simp
  have "leak_inv ?s1" using assms(1) by (simp add: leak_inv_def)
  then obtain s2 where s2: "erase_block p ?s1 = Running () s2" "view s2 = (view ?s1)((0, p) := None)"
    "same_but_repo ?s1 s2"
    using erase_block_spec by blast
  have "bi__aligned_free env (\<lambda>_. ()) p s = Running () s2"
    using k s2(1) by (simp add: shape counted untracked_def only_if_def)
  moreover have "view ?s1 = view s" by (simp add: view_def fun_eq_iff)
  moreover have "(info, ?text) \<in> set (ls_log s2)"
    using same_but_repoD(1) [OF s2(3)] assms(6) by (simp add: log_msg_def)
  ultimately show ?thesis using s2(2) by metis
qed

theorem wrong_family_reported_witness:
  "\<exists>s'. bi__aligned_free sample_env (\<lambda>_. ()) 4096 one_block = Running () s' \<and> view s' = Map.empty"
  using wrong_family_reported [of one_block 4096 16 e_malloc_family e_malloc sample_env]
  by (auto simp: one_block_spec default_options_def)

text \<open>C20: If LocalReAlloc fails, the old block is still allocated, but its monitor has already
  forgotten it: the block is no longer in the table, so it will not be reported as a leak, and a
  later LocalFree of it is reported as an unknown address.\<close>

theorem local_realloc_failure_forgets:
  assumes "leak_inv s" "view s (0, b) = Some (n, e_localalloc_family, g)" "b \<noteq> 0"
  shows "\<exists>s'. buginsight_localrealloc env (\<lambda>_ _ _. 0) b bytes flags s = Running 0 s' \<and>
    view s' = (view s)((0, b) := None)"
proof -
  let ?s = "s\<lparr>ls_calls := ls_calls s + 1\<rparr>"
  have "leak_inv ?s" "b = 0 \<or> (\<exists>n g. view ?s (0, b) = Some (n, e_localalloc_family, g))"
    using assms by simp_all
  from retracked_failed [OF this, of env e_localrealloc True bytes] show ?thesis
    using assms(3) by (auto simp: shape counted)
qed

theorem local_realloc_failure_forgets_witness:
  "\<exists>s s'. buginsight_localalloc sample_env (\<lambda>_ _. 4096) 0 8 (leak_state_init default_options 0) =
      Running 4096 s \<and> view s (0, 4096) \<noteq> None \<and>
    buginsight_localrealloc sample_env (\<lambda>_ _ _. 0) 4096 16 0 s = Running 0 s' \<and>
    view s' (0, 4096) = None"
proof -
  let ?s0 = "(leak_state_init default_options 0)\<lparr>ls_calls := 1\<rparr>"
  have i: "leak_inv ?s0" "view ?s0 (0, 4096) = None" using leak_init [of default_options 0] by simp_all
  obtain s where s: "tracked sample_env e_localalloc_family e_localalloc 4096 8 ?s0 = Running 4096 s"
    "leak_inv s" "view s = (view ?s0)((0, 4096) \<mapsto> (8, e_localalloc_family, e_localalloc))"
    using tracked_spec [OF i, of sample_env e_localalloc_family e_localalloc 8] by auto
  have "buginsight_localalloc sample_env (\<lambda>_ _. 4096) 0 8 (leak_state_init default_options 0) =
      Running 4096 s"
    using s(1) by (simp add: shape counted leak_state_init_def)
  then show ?thesis
    using local_realloc_failure_forgets [OF s(2), of 4096 8 e_localalloc sample_env 16 0] s(3) by auto
qed

text \<open>C23: Two calls leave a block in the table that is not live, so it is reported as a leak: a _recalloc
  of zero elements of a positive size, which has released the block and answers a null pointer, and a
  successful _dupenv_s of a variable that is not set, for which a block at address zero is noted.\<close>

theorem phantom_leaks:
  assumes "leak_inv s" "view s (0, q) = Some (bytes, e_malloc_family, g)" "q \<noteq> 0" "n \<noteq> 0" "view s (0, 0) = None"
  shows "(\<exists>s'. bi__recalloc env (\<lambda>_ _ _. 0) q 0 n s = Running 0 s' \<and> view s' = view s) \<and>
    (\<exists>s'. bi__dupenv_s env (\<lambda>_. (0, 0, 0)) var s = Running (0, 0, 0) s' \<and>
      view s' = (view s)((0, 0) \<mapsto> (0, e_malloc_family, e__dupenv_s)) \<and>
      leak_count (ls_repo s') = leak_count (ls_repo s) + 1)"
proof
  let ?s = "s\<lparr>ls_calls := ls_calls s + 1\<rparr>"
  have inv: "leak_inv ?s" and block: "q = 0 \<or> (\<exists>b g. view ?s (0, q) = Some (b, e_malloc_family, g))"
    using assms(1,2) by simp_all
  show "\<exists>s'. bi__recalloc env (\<lambda>_ _ _. 0) q 0 n s = Running 0 s' \<and> view s' = view s"
    using retracked_failed [OF inv block, of env e__recalloc False 0] assms(4) by (auto simp: shape counted)
  have "view ?s (0, 0) = None" using assms(5) by simp
  from add_block_spec [OF inv this, of env 0 e_malloc_family e__dupenv_s]
  obtain s' where s': "add_block env 0 0 e_malloc_family e__dupenv_s ?s = Running () s'" "leak_inv s'"
    "view s' = (view ?s)((0, 0) \<mapsto> (0, e_malloc_family, e__dupenv_s))" by blast
  have "finite (dom (view s))" using leak_view_finite assms(1) .
  then have "card (dom (view s')) = card (dom (view s)) + 1" using assms(5) by (simp add: s'(3) domIff)
  then have "leak_count (ls_repo s') = leak_count (ls_repo s) + 1"
    using leak_count_view [OF s'(2)] leak_count_view [OF assms(1)] by simp
  then show "\<exists>s'. bi__dupenv_s env (\<lambda>_. (0, 0, 0)) var s = Running (0, 0, 0) s' \<and>
      view s' = (view s)((0, 0) \<mapsto> (0, e_malloc_family, e__dupenv_s)) \<and>
      leak_count (ls_repo s') = leak_count (ls_repo s) + 1"
    using s' by (intro exI [of _ s']) (simp add: bi__dupenv_s_def counted give_def)
qed

theorem phantom_leaks_witness:
  "\<exists>s'. bi__recalloc sample_env (\<lambda>_ _ _. 0) 4096 0 8 one_block = Running 0 s' \<and> view s' (0, 4096) \<noteq> None"
proof -
  have "view one_block (0, 4096) = Some (16, e_malloc_family, e_malloc)" "view one_block (0, 0) = None"
    by (simp_all add: one_block_spec)
  from phantom_leaks [OF one_block_spec(1) this(1) _ _ this(2), of 8 sample_env 0] this(1) show ?thesis by auto
qed

section \<open>The periodic heap check\<close>

text \<open>After a heap check the next one is due at least ten seconds later: a call in the meantime
  does nothing at all, and a check that finds the heap in order releases its lock.\<close>

theorem heap_check_not_repeated:
  assumes "check_heap_periodic env he s = Running () s'" "\<not> ls_check_busy s"
    and "ls_next_check s \<le> he_ticks he" "unat (he_ticks_fresh he) + 300000 < 2 ^ 64"
    and "unat (he_ticks he2) < unat (he_ticks_fresh he) + 10000"
  shows "\<not> ls_check_busy s' \<and> check_heap_periodic env2 he2 s' = Running () s'"
proof -
  have c: "ls_check_busy s' = False" "ls_next_check s' = he_ticks_fresh he + check_wait_ms he"
    using assms(1-3)
    by (auto simp: check_heap_periodic_def change_def andthen_def not_less split: outcome.splits if_splits)
  have "10000 \<le> unat (check_wait_ms he)" "unat (check_wait_ms he) \<le> 300000"
    by (simp_all add: check_wait_ms_def)
  moreover have "unat (he_ticks_fresh he + check_wait_ms he) =
      unat (he_ticks_fresh he) + unat (check_wait_ms he)"
    using assms(4) calculation(2) by (subst unat_add_lem [THEN iffD1]) auto
  ultimately have "he_ticks he2 < he_ticks_fresh he + check_wait_ms he"
    using assms(5) by (simp add: word_less_nat_alt)
  then show ?thesis by (simp add: check_heap_periodic_def c)
qed

definition late_heap :: heap_env where
  "late_heap = sample_heap\<lparr>he_ticks := 6000, he_ticks_fresh := 6001\<rparr>"

theorem heap_check_not_repeated_witness:
  "\<exists>s'. check_heap_periodic sample_env late_heap one_block = Running () s' \<and> \<not> ls_check_busy s' \<and>
    check_heap_periodic sample_env (late_heap\<lparr>he_ticks := 16000\<rparr>) s' = Running () s'"
proof -
  have b: "\<not> ls_check_busy one_block" "ls_next_check one_block \<le> he_ticks late_heap"
    by (simp_all add: one_block_def Let_def leak_state_init_def late_heap_def)
  obtain s' where s': "check_heap_periodic sample_env late_heap one_block = Running () s'"
    using check_heap_periodic_healthy [of late_heap sample_env one_block]
    by (auto simp: late_heap_def sample_heap_def)
  have "\<not> ls_check_busy s' \<and>
      check_heap_periodic sample_env (late_heap\<lparr>he_ticks := 16000\<rparr>) s' = Running () s'"
    by (rule heap_check_not_repeated [OF s' b]) (simp_all add: late_heap_def sample_heap_def)
  then show ?thesis using s' by blast
qed

section \<open>The report\<close>

lemma report_functions: "mset (map ua_function (fst (group_leaks2 initial_infos r))) = mset all_functions"
proof -
  let ?m = "foldl visit_leak initial_infos (mr_map r)"
  have "ua_function (?m ! i) = all_functions ! i" if "i < api_size" for i
    using visit_leaks_at [OF initial_infos_at(1), of "mr_map r" "all_functions ! i"] that
    by (simp add: nth_all_functions initial_infos_def distinct_all_functions(2) record_leaks_counters
        used_api_info_init_def)
  then have "map ua_function ?m = all_functions"
    by (intro nth_equalityI) (simp_all add: initial_infos_at(1) distinct_all_functions(2))
  moreover have "mset (map ua_function (sort_infos ?m)) = mset (map ua_function ?m)"
    unfolding mset_map sort_infos_spec(1) by (rule refl)
  ultimately show ?thesis by (simp only: group_leaks2_def fst_conv)
qed

definition two_leaks :: repository where
  "two_leaks = repo_add sample_env 4096 16 e_malloc_family e_malloc
     (repo_add sample_env 8192 48 e_malloc_family e_malloc (repository_init True))"

lemma two_leaks_map: "map snd (mr_map two_leaks) = [leak_data sample_env True 16 e_malloc_family e_malloc,
    leak_data sample_env True 48 e_malloc_family e_malloc]"
  by (simp add: two_leaks_def repo_add_def repo_add_key_def emplace_def repository_init_def)

text \<open>C21: The final report counts every leak once: each function's row has the number and the summed
  size of the table's entries of that function, and the rows come in descending order of the bytes.\<close>

theorem leak_report_totals:
  "(\<forall>ua\<in>set (fst (group_leaks2 initial_infos r)).
      ua_hits ua = of_nat (length (leaks_of r (ua_function ua))) \<and>
      ua_total ua = sum_list (map ld_size (leaks_of r (ua_function ua)))) \<and>
   sorted (rev (map ua_total (fst (group_leaks2 initial_infos r)))) \<and>
   mset (map ua_function (fst (group_leaks2 initial_infos r))) = mset all_functions"
proof (intro conjI ballI)
  let ?infos = "fst (group_leaks2 initial_infos r)"
  fix ua assume "ua \<in> set ?infos"
  then have ua: "ua = foldl (\<lambda>ua d. record_leak d ua) (used_api_info_init (ua_function ua))
      (leaks_of r (ua_function ua))"
    by (rule group_leaks_member)
  have z: "ua_hits (used_api_info_init f) = 0" "ua_total (used_api_info_init f) = 0" for f
    by (simp_all add: used_api_info_init_def)
  show "ua_hits ua = of_nat (length (leaks_of r (ua_function ua)))"
    using arg_cong [OF ua, of ua_hits] by (simp only: record_leaks_counters z add_0)
  show "ua_total ua = sum_list (map ld_size (leaks_of r (ua_function ua)))"
    using arg_cong [OF ua, of ua_total] by (simp only: record_leaks_counters z add_0)
next
  show "sorted (rev (map ua_total (fst (group_leaks2 initial_infos r))))"
    by (simp add: group_leaks2_def sort_infos_spec(2))
  show "mset (map ua_function (fst (group_leaks2 initial_infos r))) = mset all_functions"
    by (rule report_functions)
qed

theorem leak_report_totals_witness:
  "\<exists>ua \<in> set (fst (group_leaks2 initial_infos two_leaks)).
    ua_function ua = e_malloc \<and> ua_hits ua = 2 \<and> ua_total ua = 64"
proof -
  let ?infos = "fst (group_leaks2 initial_infos two_leaks)"
  have "e_malloc \<in> set (map ua_function ?infos)"
    using mset_eq_setD [OF report_functions [of two_leaks]] by simp
  then obtain ua where ua: "ua \<in> set ?infos" "ua_function ua = e_malloc" by auto
  then have "ua_hits ua = of_nat (length (leaks_of two_leaks e_malloc))"
    "ua_total ua = sum_list (map ld_size (leaks_of two_leaks e_malloc))"
    using leak_report_totals [of two_leaks] by auto
  then show ?thesis using ua by (auto simp: leaks_of_def two_leaks_map leak_data_def)
qed

text \<open>C22: The report keeps ten call stacks per function. A leak whose call stack is not among them is
  no larger than any of the ten; in particular the largest leak of a function is always shown.\<close>

theorem leak_report_largest:
  assumes "ua \<in> set (fst (group_leaks2 initial_infos r))" "d \<in> set (leaks_of r (ua_function ua))"
  shows "covered (ua_callstacks ua) d \<and> length (ua_callstacks ua) = 10"
proof -
  let ?i = "used_api_info_init (ua_function ua)"
  have ua: "ua = foldl (\<lambda>ua d. record_leak d ua) ?i (leaks_of r (ua_function ua))"
    by (rule group_leaks_member [OF assms(1)])
  have ne: "ua_callstacks ?i \<noteq> []" by (simp add: used_api_info_init_def)
  have "covered (ua_callstacks ua) d"
    using record_leaks_covered [OF ne, of "{}" "leaks_of r (ua_function ua)"] assms(2) ua by auto
  moreover have "length (ua_callstacks (foldl (\<lambda>ua d. record_leak d ua) u ds)) = length (ua_callstacks u)"
    for u ds by (induction ds arbitrary: u) simp_all
  then have "length (ua_callstacks ua) = 10"
    using arg_cong [OF ua, of "\<lambda>u. length (ua_callstacks u)"] by (simp add: used_api_info_init_def)
  ultimately show ?thesis by blast
qed

theorem leak_report_largest_witness:
  "\<exists>ua \<in> set (fst (group_leaks2 initial_infos two_leaks)). ua_function ua = e_malloc \<and>
    covered (ua_callstacks ua) (leak_data sample_env True 48 e_malloc_family e_malloc)"
proof -
  let ?infos = "fst (group_leaks2 initial_infos two_leaks)"
  have "e_malloc \<in> ua_function ` set ?infos"
  proof -
    have "set (map ua_function ?infos) = set all_functions"
      using mset_eq_setD report_functions by blast
    then show ?thesis by auto
  qed
  then obtain ua where ua: "ua \<in> set ?infos" "ua_function ua = e_malloc" by auto
  have "leak_data sample_env True 48 e_malloc_family e_malloc \<in> set (leaks_of two_leaks (ua_function ua))"
    by (simp add: ua(2) leaks_of_def two_leaks_map leak_data_def)
  from leak_report_largest [OF ua(1) this] show ?thesis using ua by blast
qed

section \<open>Names\<close>

text \<open>The name of a function is read back as the function, except for the unknown function, the
  two names with a leading blank and the eight functions the parser forgets.\<close>

theorem function_names_read_back:
  assumes "f \<noteq> e_unknown" "f \<notin> set unparsed_functions" "f \<notin> set blank_functions"
  shows "api_function_string_to_enum (api_function_to_string f) = f"
  using names_read_back assms all_functions_complete [of f] unfolding list_all_iff by blast

theorem function_names_read_back_witness:
  "api_function_string_to_enum (api_function_to_string e__aligned_malloc) = e__aligned_malloc"
  by (rule function_names_read_back) (simp_all add: unparsed_functions_def blank_functions_def)

text \<open>For the names the parser does not know, the query for the allocated bytes of one function
  returns the bytes of all functions together.\<close>

theorem unparsed_name_counts_everything:
  assumes "f \<in> set unparsed_functions"
  shows "get_allocated_bytes (api_function_to_string f) r = get_allocated_bytes ''*'' r"
proof -
  have "api_function_string_to_enum (api_function_to_string f) = e_unknown"
    using names_not_read assms by (simp add: list_all_iff)
  then show ?thesis by (simp add: get_allocated_bytes_def Let_def)
qed

theorem unparsed_name_counts_everything_witness:
  "get_allocated_bytes ''_fullpath'' two_leaks = 64"
  using unparsed_name_counts_everything [of e__fullpath two_leaks]
  by (simp add: unparsed_functions_def allocated_bytes_all two_leaks_map leak_data_def)

end
