(* ===== verification/Deadlock_Monitor.thy ===== *)
theory Deadlock_Monitor
  imports Graph_Interface Reporting Leak_Repository
begin

text \<open>
  The deadlock monitor (\<^verbatim>\<open>deadlock_monitor.cpp\<close>), the thread watchdog
  (\<^verbatim>\<open>thread_watchdog/thread_watchdog.cpp\<close>) and the reports that read the graph (\<^verbatim>\<open>log_helper.cpp\<close>).
  Each operation runs under \<^verbatim>\<open>m_deadlock_graph_mutex\<close> or on thread-local state only, so it is one step
  of the state; the calling thread is an argument. The result is \<open>None\<close> if the C++ execution is
  undefined, and otherwise the outcome: a value and a state, or the end of the process.
\<close>

section \<open>State\<close>

record monitor =
  dm_options :: user_options
  dm_graph :: rep
  dm_held :: "tid \<Rightarrow> held_locks option"
  dm_ignore_lock :: "tid \<Rightarrow> u32"
  dm_ignore_unlock :: "tid \<Rightarrow> u32"
  dm_threads :: "(tid \<times> bool) list"
  dm_timer :: "nat option"
  dm_potential_deadlocks :: bool
  dm_other_errors :: bool
  dm_log :: log

definition monitor_init :: "user_options \<Rightarrow> monitor" where
  "monitor_init opts =
     \<lparr>dm_options = opts, dm_graph = rep_init, dm_held = (\<lambda>_. None), dm_ignore_lock = (\<lambda>_. 0),
      dm_ignore_unlock = (\<lambda>_. 0), dm_threads = [], dm_timer = None,
      dm_potential_deadlocks = False, dm_other_errors = False, dm_log = []\<rparr>"

text \<open>What the system provides for one call: \<^verbatim>\<open>call_env\<close>, and the time.\<close>

record lock_env = call_env +
  le_now :: u64
  le_symbolise :: "ptr list \<Rightarrow> string"

type_synonym 'a step = "monitor \<Rightarrow> ('a, monitor) outcome option"

definition next_step :: "'a step \<Rightarrow> ('a \<Rightarrow> 'b step) \<Rightarrow> 'b step" where
  "next_step m f s = Option.bind (m s) (\<lambda>r. case r of
     Running x s' \<Rightarrow> f x s' | Terminated c s' \<Rightarrow> Some (Terminated c s'))"

definition done_with :: "'a \<Rightarrow> 'a step" where
  "done_with x s = Some (Running x s)"

definition dm_report :: "string \<Rightarrow> bool \<Rightarrow> unit step" where
  "dm_report text is_deadlock m =
     (case process_error (dm_options m) text is_deadlock (dm_log m) of
        (lg, None) \<Rightarrow> Some (Running () (m\<lparr>dm_log := lg\<rparr>))
      | (lg, Some c) \<Rightarrow> Some (Terminated c (m\<lparr>dm_log := lg\<rparr>)))"

definition increase_ignore_counter :: "tid \<Rightarrow> u32 \<Rightarrow> u32 \<Rightarrow> monitor \<Rightarrow> monitor" where
  "increase_ignore_counter t locks unlocks m =
     m\<lparr>dm_ignore_lock := (dm_ignore_lock m)(t := dm_ignore_lock m t + locks),
       dm_ignore_unlock := (dm_ignore_unlock m)(t := dm_ignore_unlock m t + unlocks)\<rparr>"

section \<open>The thread watchdog\<close>

definition watchdog_interval :: "user_options \<Rightarrow> nat" where
  "watchdog_interval opts = (if 10 \<le> m_thread_watchdog_max_duration_sec opts then 5 else 1)"

definition add_thread :: "tid \<Rightarrow> monitor \<Rightarrow> monitor" where
  "add_thread t m =
     (if \<not> m_thread_watchdog_enabled (dm_options m) then m
      else let m1 = m\<lparr>dm_log := log_msg (dm_options m) trace
                        (''thread_watchdog_t::add_thread: ID: '' @ show_nat t) (dm_log m),
                      dm_threads := dm_threads m @ [(t, False)]\<rparr>
           in if length (dm_threads m1) = 1
              then m1\<lparr>dm_log := log_msg (dm_options m) trace
                        (''thread_watchdog_t::add_thread: ID: '' @ show_nat t @ '', start timer'') (dm_log m1),
                      dm_timer := Some (watchdog_interval (dm_options m))\<rparr>
              else m1)"

text \<open>The last entry replaces the removed one.\<close>

fun find_thread :: "tid \<Rightarrow> (tid \<times> bool) list \<Rightarrow> nat option" where
  "find_thread t [] = None"
| "find_thread t ((u, l) # ts) = (if u = t then Some 0 else map_option Suc (find_thread t ts))"

definition remove_thread :: "tid \<Rightarrow> monitor \<Rightarrow> monitor" where
  "remove_thread t m =
     (if \<not> m_thread_watchdog_enabled (dm_options m) then m
      else case find_thread t (dm_threads m) of
        None \<Rightarrow> m
      | Some i \<Rightarrow>
          m\<lparr>dm_log := log_msg (dm_options m) trace
              (''thread_watchdog_t::remove_thread: ID: '' @ show_nat t) (dm_log m),
            dm_threads := butlast ((dm_threads m)[i := last (dm_threads m)])\<rparr>)"

section \<open>Reports that read the graph\<close>

text \<open>The loop over the path found by \<^verbatim>\<open>FindPath\<close>.\<close>

fun circle_path_text :: "lock_env \<Rightarrow> rep \<Rightarrow> u64 list \<Rightarrow> string option" where
  "circle_path_text env g [] = Some []"
| "circle_path_text env g (p # ps) =
     Option.bind (ptr_of g p) (\<lambda>mu.
       if mu = 0 then circle_path_text env g ps
       else Option.bind (extra_infos g p (replicate max_locks no_lock)) (\<lambda>(t, n, locks).
         Option.bind (get_stack_trace p None g) (\<lambda>callstack.
           let start = nl @ nl @ ''Thread ID: '' @ show_nat t @ nl @ ''Holding lock: '' @
                 construct_hold_locks_string locks n @ nl @ ''Wait for lock: '' @ show_ptr mu @ nl
           in case callstack of
                None \<Rightarrow> Some (start @ ''Call Stack: (not available)'' @ nl)
              | Some frames \<Rightarrow> map_option (\<lambda>rest. start @ ''Call Stack:'' @ nl @
                  le_symbolise env frames @ rest) (circle_path_text env g ps))))"

definition build_deadlock_circle_log_text ::
  "lock_env \<Rightarrow> bool \<Rightarrow> rep \<Rightarrow> ptr \<Rightarrow> u64 \<Rightarrow> u64 \<Rightarrow> (rep \<times> string) option" where
  "build_deadlock_circle_log_text env collect g mu mu_id other_id =
     (let start = report_line @ ''[BugInsight] [error] Potential deadlock at lock: '' @ show_ptr mu @
            '', thread ID: '' @ show_nat (ce_tid env) @ nl
      in if \<not> collect then Some (g, start @ ''[BugInsight] [warning] Call Stack not available: '' @
             ''Collecting Call Stacks is disabled! Use command line option '' @
             quoted ''--callstacks=true'' @ '' to enable.'' @ nl)
         else Option.bind (find_path mu_id other_id 10 (replicate 10 0) g) (\<lambda>(g', path, len).
           map_option (\<lambda>text. (g', start @
               ''Hint: Go through all Call Stacks and check which locks are called in inconsistent order'' @
               nl @ nl @ ''Lock Call Stack:'' @ nl @ ce_stack_text env @ nl @
               ''A cycle in the historical lock ordering graph has been observed:'' @ nl @ text))
             (circle_path_text env g' (take (nat len) path))))"

definition build_watchdog_callstack :: "(ptr list \<Rightarrow> string) \<Rightarrow> rep \<Rightarrow> lock_entry \<Rightarrow> string option" where
  "build_watchdog_callstack symbolise g l =
     map_option (\<lambda>callstack. case callstack of
         None \<Rightarrow> nl @ nl @ ''Call Stack of lock not available:'' @ nl
       | Some frames \<Rightarrow> nl @ nl @ ''Call Stack of lock '' @ show_ptr (lk_mu l) @ '':'' @ nl @
           symbolise frames)
       (get_stack_trace (lk_id l) None g)"

section \<open>The operations of the monitor\<close>

text \<open>\<^verbatim>\<open>Synch_GetAllLocks\<close>: the table of the thread, created and registered on demand.\<close>

definition get_all_locks :: "bool \<Rightarrow> tid \<Rightarrow> monitor \<Rightarrow> monitor \<times> held_locks" where
  "get_all_locks monitor_thread t m =
     (let h = (case dm_held m t of None \<Rightarrow> held_locks_init t | Some h \<Rightarrow> h);
          m1 = m\<lparr>dm_held := (dm_held m)(t \<mapsto> h)\<rparr>
      in if monitor_thread \<and> \<not> hl_monitored h
         then (let h1 = h\<lparr>hl_monitored := True\<rparr>
               in ((add_thread t m1)\<lparr>dm_held := (dm_held m)(t \<mapsto> h1)\<rparr>, h1))
         else (m1, h))"

text \<open>The loop over the locks the thread already holds.\<close>

fun check_held :: "lock_env \<Rightarrow> ptr \<Rightarrow> u64 \<Rightarrow> lock_entry list \<Rightarrow> unit step" where
  "check_held env mu gid [] m = Some (Running () m)"
| "check_held env mu gid (l # ls) m =
     Option.bind (ptr_of (dm_graph m) (lk_id l)) (\<lambda>other.
       if other = 0 then check_held env mu gid ls m
       else if lk_id l = gid then Some (Running () m)
       else Option.bind (insert_edge (lk_id l) gid (dm_graph m)) (\<lambda>(g, ok).
         if ok then check_held env mu gid ls (m\<lparr>dm_graph := g\<rparr>)
         else Option.bind (build_deadlock_circle_log_text env (m_collect_callstacks (dm_options m)) g mu
                             gid (lk_id l)) (\<lambda>(g', text).
           next_step (dm_report text True)
             (\<lambda>_ m. Some (Running () (m\<lparr>dm_potential_deadlocks := True\<rparr>))) (m\<lparr>dm_graph := g'\<rparr>))))"

text \<open>
  \<^verbatim>\<open>dlc_deadlock_check_before_lock\<close>: the result says whether \<^verbatim>\<open>*p_hold_locks\<close> was set, and the id.
\<close>

definition before_lock :: "lock_env \<Rightarrow> ptr \<Rightarrow> (bool \<times> u64) step" where
  "before_lock env mu m =
     (let t = ce_tid env
      in if 0 < dm_ignore_lock m t
         then Some (Running (False, 0) (m\<lparr>dm_ignore_lock := (dm_ignore_lock m)(t := dm_ignore_lock m t - 1)\<rparr>))
         else let (m1, h) = get_all_locks True t m
           in if max_locks \<le> hl_n h
              then next_step (dm_report (build_max_locks_per_thread_reached_text (int (hl_n h)) t mu
                                (ce_stack_text env)) False)
                     (\<lambda>_ m. Some (Running (False, 0) (m\<lparr>dm_other_errors := True\<rparr>))) m1
              else Option.bind (get_id t mu (dm_graph m1)) (\<lambda>(g1, gid).
                Option.bind (update_stack_trace (m_collect_callstacks (dm_options m1)) t (ce_frames env)
                               gid h g1) (\<lambda>g2.
                  let m2 = m1\<lparr>dm_graph := g2\<rparr>
                  in if hl_n h = 0
                     then Some (Running (True, gid)
                            (m2\<lparr>dm_held := (dm_held m2)(t \<mapsto> h\<lparr>hl_start := le_now env\<rparr>)\<rparr>))
                     else next_step (check_held env mu gid (take (hl_n h) (hl_locks h)))
                            (\<lambda>_. done_with (True, gid)) m2)))"

text \<open>\<^verbatim>\<open>dlc_deadlock_check_in_lock\<close>: the table is the one \<^verbatim>\<open>p_hold_locks\<close> points to.\<close>

definition in_lock :: "tid \<Rightarrow> ptr \<Rightarrow> u64 \<Rightarrow> unit step" where
  "in_lock t mu gid m =
     Option.bind (dm_held m t) (\<lambda>h.
       map_option (\<lambda>h'. Running () (m\<lparr>dm_held := (dm_held m)(t \<mapsto> h')\<rparr>))
         (update_lock_history_in_lock mu gid h))"

definition release_report :: "lock_env \<Rightarrow> ptr \<Rightarrow> release_result \<Rightarrow> unit step" where
  "release_report env mu res =
     (case res of
        Released \<Rightarrow> done_with ()
      | Not_Held \<Rightarrow> dm_report (build_release_lock_which_thread_does_hold_log_text (ce_tid env) mu
                      (ce_stack_text env)) False
      | Deleted_By_Other \<Rightarrow> dm_report (build_release_locked_deleted_by_other_thread_log_text (ce_tid env)
                      mu (ce_stack_text env)) False)"

definition after_lock :: "lock_env \<Rightarrow> ptr \<Rightarrow> unit step" where
  "after_lock env mu m =
     (let t = ce_tid env
      in if 0 < dm_ignore_unlock m t
         then Some (Running () (m\<lparr>dm_ignore_unlock :=
                (dm_ignore_unlock m)(t := dm_ignore_unlock m t - 1)\<rparr>))
         else Option.bind (get_id t mu (dm_graph m)) (\<lambda>(g, gid).
           let (m1, h) = get_all_locks False t (m\<lparr>dm_graph := g\<rparr>)
           in Option.bind (update_lock_history_after_lock mu gid h) (\<lambda>(h', res).
             next_step (release_report env mu res) (\<lambda>_ m2.
               let m3 = (if res = Released then m2 else m2\<lparr>dm_other_errors := True\<rparr>);
                   h2 = (if hl_n h' = 0 then h'\<lparr>hl_start := 0\<rparr> else h')
               in Some (Running () (m3\<lparr>dm_held := (dm_held m3)(t \<mapsto> h2)\<rparr>)))
               (m1\<lparr>dm_held := (dm_held m1)(t \<mapsto> h')\<rparr>))))"

text \<open>\<^verbatim>\<open>dlc_deadlock_check_before_try_lock\<close>: a positive counter is decremented, nothing is skipped.\<close>

definition before_try_lock :: "lock_env \<Rightarrow> ptr \<Rightarrow> (bool \<times> u64) step" where
  "before_try_lock env mu m =
     (let t = ce_tid env;
          m0 = (if 0 < dm_ignore_lock m t
                then m\<lparr>dm_ignore_lock := (dm_ignore_lock m)(t := dm_ignore_lock m t - 1)\<rparr> else m)
      in Option.bind (get_id t mu (dm_graph m0)) (\<lambda>(g, gid).
        let (m1, h) = get_all_locks True t (m0\<lparr>dm_graph := g\<rparr>)
        in Some (Running (True, gid)
             (if hl_n h = 0
              then m1\<lparr>dm_held := (dm_held m1)(t \<mapsto> h\<lparr>hl_start := le_now env\<rparr>)\<rparr> else m1))))"

text \<open>The assertion at the place where both functions are about to set the start time. The Release build
  does not evaluate it, so it is not part of them.\<close>

definition start_time_assert :: "tid \<Rightarrow> monitor \<Rightarrow> bool" where
  "start_time_assert t m =
     (let (m1, h) = get_all_locks True t m in hl_n h = 0 \<longrightarrow> hl_start h = 0)"

definition delete_lock :: "lock_env \<Rightarrow> ptr \<Rightarrow> unit step" where
  "delete_lock env mu m =
     Option.bind (remove_node mu (dm_graph m)) (\<lambda>g.
       let (m1, h) = get_all_locks False (ce_tid env) (m\<lparr>dm_graph := g\<rparr>)
       in if \<not> list_ex (\<lambda>l. lk_mu l = mu) (take (hl_n h) (hl_locks h)) then Some (Running () m1)
          else dm_report (build_delete_locked_lock_log_text (ce_tid env) mu (ce_stack_text env)) False m1)"

definition buginsight_cnd_wait :: "lock_env \<Rightarrow> monitor \<Rightarrow> monitor" where
  "buginsight_cnd_wait env m =
     (let (m1, h) = get_all_locks False (ce_tid env) m
      in m1\<lparr>dm_held := (dm_held m1)(ce_tid env \<mapsto> h\<lparr>hl_start := - 1\<rparr>)\<rparr>)"

definition process_watchdog_error :: "(ptr list \<Rightarrow> string) \<Rightarrow> held_locks \<Rightarrow> u64 \<Rightarrow> unit step" where
  "process_watchdog_error symbolise h duration m =
     Option.bind (if 0 < hl_n h
        then Option.bind (vec_get (hl_locks h) 0) (\<lambda>l.
          build_watchdog_callstack symbolise (dm_graph m) l)
        else Some []) (\<lambda>callstack.
       dm_report (build_watchdog_error (hl_tid h) (0 < hl_n h) duration @ callstack) False
         (m\<lparr>dm_other_errors := True\<rparr>))"

text \<open>The destructor of \<^verbatim>\<open>on_thread_delete_t\<close> at the end of a monitored thread.\<close>

definition on_thread_delete :: "tid \<Rightarrow> monitor \<Rightarrow> monitor" where
  "on_thread_delete t m =
     (case dm_held m t of None \<Rightarrow> m
      | Some _ \<Rightarrow> remove_thread t (m\<lparr>dm_held := (dm_held m)(t := None)\<rparr>))"

section \<open>The timer of the watchdog\<close>

definition max_duration_sec :: "user_options \<Rightarrow> bool \<Rightarrow> u64" where
  "max_duration_sec opts debugger =
     (if m_thread_watchdog_max_duration_sec opts \<le> 120 \<and> debugger then 120
      else ucast (m_thread_watchdog_max_duration_sec opts))"

text \<open>The loop over the threads: the updated list, and the first thread that is over its time.\<close>

fun watchdog_scan ::
  "(tid \<Rightarrow> held_locks option) \<Rightarrow> u64 \<Rightarrow> u64 \<Rightarrow> (tid \<times> bool) list \<Rightarrow>
   ((tid \<times> bool) list \<times> (held_locks \<times> u64) option) option" where
  "watchdog_scan held now limit [] = Some ([], None)"
| "watchdog_scan held now limit ((t, logged) # ts) =
     Option.bind (held t) (\<lambda>h.
       let start = hl_start h; elapsed = now - start
       in if start = 0 \<or> now \<le> start then
            map_option (\<lambda>(ts', f). ((t, False) # ts', f)) (watchdog_scan held now limit ts)
          else if logged then
            map_option (\<lambda>(ts', f). ((t, True) # ts', f)) (watchdog_scan held now limit ts)
          else if limit * 1000 \<le> elapsed then Some ((t, True) # ts, Some (h, elapsed))
          else map_option (\<lambda>(ts', f). ((t, False) # ts', f)) (watchdog_scan held now limit ts))"

definition restart_timer :: "monitor \<Rightarrow> monitor" where
  "restart_timer m =
     m\<lparr>dm_timer := (if dm_threads m \<noteq> [] then Some (watchdog_interval (dm_options m)) else None)\<rparr>"

definition one_shot_timer_callback :: "(ptr list \<Rightarrow> string) \<Rightarrow> u64 \<Rightarrow> bool \<Rightarrow> unit step" where
  "one_shot_timer_callback symbolise now debugger m =
     (let limit = max_duration_sec (dm_options m) debugger;
          m1 = m\<lparr>dm_log := log_msg (dm_options m) trace
                 (''thread_watchdog_t::one_shot_timer_callback: thread count: '' @
                  show_nat (length (dm_threads m))) (dm_log m)\<rparr>
      in Option.bind (watchdog_scan (dm_held m1) now limit (dm_threads m1)) (\<lambda>(ts, found).
        let m2 = m1\<lparr>dm_threads := ts\<rparr>
        in case found of
             None \<Rightarrow> Some (Running () (restart_timer m2))
           | Some (h, elapsed) \<Rightarrow>
               next_step (process_watchdog_error symbolise h (elapsed div 1000))
                 (\<lambda>_ m. Some (Running () (restart_timer m)))
                 (m2\<lparr>dm_log := log_msg (dm_options m) debug
                    (''thread_watchdog_t::one_shot_timer_callback: max duration '' @
                     quoted (show_nat (unat limit)) @ '' sec reached'') (dm_log m2)\<rparr>)))"

end
