(* ===== verification/Deadlock_Correct.thy ===== *)
theory Deadlock_Correct
  imports Deadlock_Monitor Graph_Properties
begin

text \<open>
  The invariant of the deadlock monitor, that none of its operations is undefined while the invariant
  holds, and what each operation does to the ordering relation and to the tables. The loop over the
  held locks is \<open>acquire_edges\<close> of the graph's interface, so its effect is \<open>graph.acquire_spec\<close>.
\<close>

section \<open>The invariant\<close>

definition table_fits :: "rep \<Rightarrow> tid \<Rightarrow> held_locks \<Rightarrow> bool" where
  "table_fits g t h \<longleftrightarrow> hl_inv h \<and> held_ids h \<subseteq> issued g \<and> hl_tid h = t"

text \<open>
  The watchdog knows exactly the monitored threads, each once, and its timer is armed while it knows
  any.
\<close>

definition watch_inv :: "monitor \<Rightarrow> bool" where
  "watch_inv m \<longleftrightarrow> distinct (map fst (dm_threads m)) \<and>
     fst ` set (dm_threads m) = (if m_thread_watchdog_enabled (dm_options m)
        then {t. \<exists>h. dm_held m t = Some h \<and> hl_monitored h} else {}) \<and>
     (dm_threads m \<noteq> [] \<longrightarrow> dm_timer m = Some (watchdog_interval (dm_options m)))"

definition mon_inv :: "monitor \<Rightarrow> bool" where
  "mon_inv m \<longleftrightarrow> rep_inv (dm_graph m) \<and>
     (\<forall>t h. dm_held m t = Some h \<longrightarrow> table_fits (dm_graph m) t h) \<and> watch_inv m"

text \<open>The table of a thread, and the locks in it that are still alive, in the order of the table.\<close>

definition held_of :: "monitor \<Rightarrow> tid \<Rightarrow> held_locks" where
  "held_of m t = (case dm_held m t of None \<Rightarrow> held_locks_init t | Some h \<Rightarrow> h)"

definition held_ptrs :: "rep \<Rightarrow> held_locks \<Rightarrow> ptr list" where
  "held_ptrs g h = filter (\<lambda>p. p \<noteq> 0) (map (\<lambda>l. the (ptr_of g (lk_id l))) (held_list h))"

lemma mon_invD:
  assumes "mon_inv m"
  shows "rep_inv (dm_graph m)" "dm_held m t = Some h \<Longrightarrow> table_fits (dm_graph m) t h" "watch_inv m"
  using assms by (simp_all add: mon_inv_def)

lemma table_fitsD:
  assumes "table_fits g t h"
  shows "hl_inv h" "held_ids h \<subseteq> issued g" "hl_tid h = t"
  using assms by (simp_all add: table_fits_def)

lemma mon_inv_fields [simp]:
  "mon_inv (m\<lparr>dm_log := lg\<rparr>) = mon_inv m" "mon_inv (m\<lparr>dm_potential_deadlocks := b\<rparr>) = mon_inv m"
  "mon_inv (m\<lparr>dm_other_errors := b\<rparr>) = mon_inv m" "mon_inv (m\<lparr>dm_ignore_lock := f\<rparr>) = mon_inv m"
  "mon_inv (m\<lparr>dm_ignore_unlock := f\<rparr>) = mon_inv m"
  by (simp_all add: mon_inv_def watch_inv_def)

lemma monitor_init_inv: "mon_inv (monitor_init opts)"
  by (simp add: mon_inv_def watch_inv_def monitor_init_def rep_init_inv)

lemma mon_inv_graph:
  assumes "mon_inv m" "rep_inv g" "issued (dm_graph m) \<subseteq> issued g"
  shows "mon_inv (m\<lparr>dm_graph := g\<rparr>)"
  using assms by (auto simp: mon_inv_def watch_inv_def table_fits_def)

lemma mon_inv_held:
  assumes "mon_inv m" "dm_held m t = Some h" "table_fits (dm_graph m) t h'" "hl_monitored h' = hl_monitored h"
  shows "mon_inv (m\<lparr>dm_held := (dm_held m)(t \<mapsto> h')\<rparr>)"
proof -
  have "{u. \<exists>k. ((dm_held m)(t \<mapsto> h')) u = Some k \<and> hl_monitored k} =
      {u. \<exists>k. dm_held m u = Some k \<and> hl_monitored k}"
    using assms(2,4) by auto
  then show ?thesis using assms(1,3) by (simp add: mon_inv_def watch_inv_def)
qed

lemma init_fits: "table_fits g t (held_locks_init t)"
  by (simp add: table_fits_def held_init_inv)
    (simp add: held_ids_def held_list_def held_locks_init_def)

lemma held_of_fits: "mon_inv m \<Longrightarrow> table_fits (dm_graph m) t (held_of m t)"
  by (cases "dm_held m t") (simp_all add: held_of_def mon_inv_def init_fits)

lemma held_start_fits [simp]: "table_fits g t (h\<lparr>hl_start := s\<rparr>) = table_fits g t h"
  and held_monitored_fits [simp]: "table_fits g t (h\<lparr>hl_monitored := b\<rparr>) = table_fits g t h"
  by (simp_all add: table_fits_def hl_inv_def held_ids_def held_list_def)

section \<open>The table of a thread\<close>

text \<open>What a call of \<^verbatim>\<open>Synch_GetAllLocks\<close> leaves unchanged.\<close>

definition same_but_held :: "monitor \<Rightarrow> monitor \<Rightarrow> bool" where
  "same_but_held m m' \<longleftrightarrow> dm_options m' = dm_options m \<and> dm_graph m' = dm_graph m \<and>
     dm_ignore_lock m' = dm_ignore_lock m \<and> dm_ignore_unlock m' = dm_ignore_unlock m \<and>
     dm_potential_deadlocks m' = dm_potential_deadlocks m \<and> dm_other_errors m' = dm_other_errors m"

lemma add_thread_fields [simp]:
  "dm_held (add_thread t m) = dm_held m" "dm_options (add_thread t m) = dm_options m"
  "dm_graph (add_thread t m) = dm_graph m" "dm_ignore_lock (add_thread t m) = dm_ignore_lock m"
  "dm_ignore_unlock (add_thread t m) = dm_ignore_unlock m"
  "dm_potential_deadlocks (add_thread t m) = dm_potential_deadlocks m"
  "dm_other_errors (add_thread t m) = dm_other_errors m"
  by (simp_all add: add_thread_def Let_def)

lemma add_thread_enabled:
  assumes "m_thread_watchdog_enabled (dm_options m)"
  shows "dm_threads (add_thread t m) = dm_threads m @ [(t, False)]"
    "dm_timer (add_thread t m) =
       (if dm_threads m = [] then Some (watchdog_interval (dm_options m)) else dm_timer m)"
  using assms by (simp_all add: add_thread_def Let_def)

lemma add_thread_disabled: "\<not> m_thread_watchdog_enabled (dm_options m) \<Longrightarrow> add_thread t m = m"
  by (simp add: add_thread_def)

text \<open>Registering a thread that is not registered yet.\<close>

lemma register_thread:
  assumes inv: "mon_inv m" and fits: "table_fits (dm_graph m) t h"
    and new: "\<And>k. dm_held m t = Some k \<Longrightarrow> \<not> hl_monitored k"
  shows "mon_inv ((add_thread t m)\<lparr>dm_held := (dm_held m)(t \<mapsto> h\<lparr>hl_monitored := True\<rparr>)\<rparr>)"
proof -
  let ?m = "(add_thread t m)\<lparr>dm_held := (dm_held m)(t \<mapsto> h\<lparr>hl_monitored := True\<rparr>)\<rparr>"
  have w: "watch_inv m" using inv by (rule mon_invD)
  have set: "{u. \<exists>k. dm_held ?m u = Some k \<and> hl_monitored k} =
      insert t {u. \<exists>k. dm_held m u = Some k \<and> hl_monitored k}"
    by auto
  have "watch_inv ?m"
  proof (cases "m_thread_watchdog_enabled (dm_options m)")
    case True
    have "t \<notin> fst ` set (dm_threads m)" using w new True by (auto simp: watch_inv_def)
    then show ?thesis
      using w True set unfolding watch_inv_def by (auto simp: add_thread_enabled)
  next
    case False
    then show ?thesis using w by (simp add: watch_inv_def add_thread_disabled)
  qed
  then show ?thesis using inv fits by (simp add: mon_inv_def)
qed

lemma get_all_locks_spec:
  assumes inv: "mon_inv m" and eq: "get_all_locks monitored t m = (m1, h)"
  shows "mon_inv m1" "dm_held m1 t = Some h" "same_but_held m m1"
    "hl_locks h = hl_locks (held_of m t)" "hl_n h = hl_n (held_of m t)"
    "hl_start h = hl_start (held_of m t)" "table_fits (dm_graph m1) t h"
    "monitored \<Longrightarrow> hl_monitored h" "u \<noteq> t \<Longrightarrow> dm_held m1 u = dm_held m u"
proof -
  let ?h = "held_of m t" and ?m = "m\<lparr>dm_held := (dm_held m)(t \<mapsto> held_of m t)\<rparr>"
  have fits: "table_fits (dm_graph m) t ?h" by (rule held_of_fits [OF inv])
  have quiet: "dm_held m t = None \<Longrightarrow> \<not> hl_monitored ?h" by (simp add: held_of_def held_locks_init_def)
  have inv': "mon_inv ?m"
  proof (cases "dm_held m t")
    case None
    have "{u. \<exists>k. ((dm_held m)(t \<mapsto> ?h)) u = Some k \<and> hl_monitored k} =
        {u. \<exists>k. dm_held m u = Some k \<and> hl_monitored k}"
      using None quiet by auto
    then show ?thesis using inv fits by (simp add: mon_inv_def watch_inv_def)
  next
    case (Some k)
    then show ?thesis using mon_inv_held [OF inv Some fits] by (simp add: held_of_def)
  qed
  have all: "mon_inv m1 \<and> dm_held m1 t = Some h \<and> same_but_held m m1 \<and>
      hl_locks h = hl_locks ?h \<and> hl_n h = hl_n ?h \<and> hl_start h = hl_start ?h \<and>
      table_fits (dm_graph m1) t h \<and> (monitored \<longrightarrow> hl_monitored h) \<and>
      (u \<noteq> t \<longrightarrow> dm_held m1 u = dm_held m u)"
  proof (cases "monitored \<and> \<not> hl_monitored ?h")
    case True
    then have m1: "m1 = (add_thread t ?m)\<lparr>dm_held := (dm_held m)(t \<mapsto> ?h\<lparr>hl_monitored := True\<rparr>)\<rparr>"
      "h = ?h\<lparr>hl_monitored := True\<rparr>"
      using eq by (auto simp: get_all_locks_def held_of_def Let_def)
    have "mon_inv ((add_thread t ?m)\<lparr>dm_held := (dm_held ?m)(t \<mapsto> ?h\<lparr>hl_monitored := True\<rparr>)\<rparr>)"
      by (rule register_thread [OF inv']) (use fits True in simp_all)
    then show ?thesis unfolding m1 using fits by (simp add: same_but_held_def)
  next
    case False
    then have "m1 = ?m" "h = ?h" using eq by (auto simp: get_all_locks_def held_of_def Let_def)
    then show ?thesis using inv' fits False by (simp add: same_but_held_def)
  qed
  then show "mon_inv m1" "dm_held m1 t = Some h" "same_but_held m m1"
    "hl_locks h = hl_locks (held_of m t)" "hl_n h = hl_n (held_of m t)"
    "hl_start h = hl_start (held_of m t)" "table_fits (dm_graph m1) t h"
    "monitored \<Longrightarrow> hl_monitored h" "u \<noteq> t \<Longrightarrow> dm_held m1 u = dm_held m u" by blast+
qed

section \<open>The reports never read outside the graph\<close>

lemma issued_defined:
  assumes "g \<in> issued r"
  shows "\<exists>f. find_node r g = Some f"
  using assms by (simp add: find_node_def issued_def)

lemma circle_path_text_defined: "set path \<subseteq> issued g \<Longrightarrow> \<exists>msg. circle_path_text env g path = Some msg"
proof (induction path)
  case (Cons i path)
  obtain f where f: "find_node g i = Some f" using Cons.prems issued_defined [of i g] by auto
  obtain rest where "circle_path_text env g path = Some rest" using Cons by auto
  then show ?case
    using f by (cases f) (auto simp: ptr_of_def extra_infos_def get_stack_trace_def Let_def)
qed simp

lemma path_found_issued:
  assumes inv: "rep_inv r" and path: "path_found r p q path len"
  shows "set (take (nat len) path) \<subseteq> issued r"
proof (cases "(p, q) \<in> (arcs r)\<^sup>*")
  case True
  then obtain ps where ps: "len = int (length ps)"
    "\<forall>k < min (length ps) (length path). id_of r (ps ! k) = Some (path ! k)"
    using path by (auto simp: path_found_def)
  show ?thesis
  proof
    fix i assume "i \<in> set (take (nat len) path)"
    then obtain k where k: "k < min (length ps) (length path)" "i = path ! k"
      using ps(1) by (auto simp: in_set_conv_nth)
    then have "id_of r (ps ! k) = Some i" using ps(2) by simp
    then show "i \<in> issued r" using graph.ids_law [OF inv] by blast
  qed
next
  case False
  then show ?thesis using path by (simp add: path_found_def)
qed

lemma circle_text_defined:
  assumes inv: "rep_inv g" and ids: "id_of g mu = Some i" "id_of g other = Some j"
  shows "\<exists>st msg. build_deadlock_circle_log_text env collect g mu i j = Some (g\<lparr>r_stack := st\<rparr>, msg)"
proof (cases collect)
  case True
  obtain st path len where f: "find_path i j 10 (replicate 10 0) g = Some (g\<lparr>r_stack := st\<rparr>, path, len)"
    "path_found g mu other path len"
    using find_path_live [OF inv ids, of 10 "replicate 10 0"] by auto
  have "set (take (nat len) path) \<subseteq> issued (g\<lparr>r_stack := st\<rparr>)"
    using path_found_issued [OF inv f(2)] by (simp add: stack_frame)
  from circle_path_text_defined [OF this] obtain msg
    where "circle_path_text env (g\<lparr>r_stack := st\<rparr>) (take (nat len) path) = Some msg" by blast
  then show ?thesis
    using True f(1) by (intro exI [of _ st]) (simp add: build_deadlock_circle_log_text_def Let_def)
next
  case False
  then show ?thesis
    by (intro exI [of _ "r_stack g"]) (simp add: build_deadlock_circle_log_text_def Let_def)
qed

section \<open>The loop over the held locks\<close>

lemma next_step_Running [simp]: "m s = Some (Running x s') \<Longrightarrow> next_step m f s = f x s'"
  by (simp add: next_step_def)

lemma next_step_Terminated [simp]: "m s = Some (Terminated c s') \<Longrightarrow> next_step m f s = Some (Terminated c s')"
  by (simp add: next_step_def)

lemma dm_report_cases:
  "dm_report msg d m = Some (if m_on_error (dm_options m) = On_Error_fail
     then Terminated (m_exit_code (dm_options m)) (m\<lparr>dm_log := fst (process_error (dm_options m) msg d (dm_log m))\<rparr>)
     else Running () (m\<lparr>dm_log := fst (process_error (dm_options m) msg d (dm_log m))\<rparr>))"
  using process_error_exit [of "dm_options m" msg d "dm_log m"]
  by (auto simp: dm_report_def split: prod.split option.split if_splits)

text \<open>The report at the end of the loop, for the refused edge from \<open>i\<close>.\<close>

definition report_cycle :: "lock_env \<Rightarrow> ptr \<Rightarrow> u64 \<Rightarrow> u64 \<Rightarrow> unit step" where
  "report_cycle env mu gid i m =
     Option.bind (build_deadlock_circle_log_text env (m_collect_callstacks (dm_options m)) (dm_graph m) mu gid i)
       (\<lambda>(g, msg). next_step (dm_report msg True)
          (\<lambda>_ m. Some (Running () (m\<lparr>dm_potential_deadlocks := True\<rparr>))) (m\<lparr>dm_graph := g\<rparr>))"

lemma check_held_acquire:
  assumes "acquire_edges ptr_of insert_edge gid (map lk_id ls) (dm_graph m) = Some (g, refused)"
  shows "check_held env mu gid ls m = (case refused of None \<Rightarrow> Some (Running () (m\<lparr>dm_graph := g\<rparr>))
     | Some i \<Rightarrow> report_cycle env mu gid i (m\<lparr>dm_graph := g\<rparr>))"
  using assms
proof (induction ls arbitrary: m)
  case Nil
  then show ?case by simp
next
  case (Cons l ls)
  obtain p where p: "ptr_of (dm_graph m) (lk_id l) = Some p"
    using Cons.prems by (cases "ptr_of (dm_graph m) (lk_id l)") simp_all
  consider "p = 0" | "p \<noteq> 0" "lk_id l = gid" | "p \<noteq> 0" "lk_id l \<noteq> gid" by blast
  then show ?case
  proof cases
    case 1
    then show ?thesis using Cons.IH [of m] Cons.prems p by simp
  next
    case 2
    then show ?thesis using Cons.prems p by auto
  next
    case 3
    obtain g1 ok where g1: "insert_edge (lk_id l) gid (dm_graph m) = Some (g1, ok)"
      using Cons.prems p 3 by (cases "insert_edge (lk_id l) gid (dm_graph m)") auto
    show ?thesis
    proof (cases ok)
      case True
      then show ?thesis
        using Cons.IH [of "m\<lparr>dm_graph := g1\<rparr>"] Cons.prems p 3 g1 by (cases refused) simp_all
    next
      case False
      then show ?thesis using Cons.prems p 3 g1 by (auto simp: report_cycle_def)
    qed
  qed
qed

lemma report_cycle_spec:
  assumes inv: "mon_inv m" and ids: "id_of (dm_graph m) mu = Some i" "id_of (dm_graph m) other = Some j"
  shows "\<exists>m' msg. report_cycle env mu i j m = Some (if m_on_error (dm_options m) = On_Error_fail
      then Terminated (m_exit_code (dm_options m)) m' else Running () m') \<and> mon_inv m' \<and>
    arcs (dm_graph m') = arcs (dm_graph m) \<and> id_of (dm_graph m') = id_of (dm_graph m) \<and>
    node_count (dm_graph m') = node_count (dm_graph m) \<and>
    dm_held m' = dm_held m \<and> dm_options m' = dm_options m \<and>
    dm_potential_deadlocks m' = (dm_potential_deadlocks m \<or> m_on_error (dm_options m) \<noteq> On_Error_fail) \<and>
    dm_other_errors m' = dm_other_errors m \<and>
    dm_ignore_lock m' = dm_ignore_lock m \<and> dm_ignore_unlock m' = dm_ignore_unlock m \<and>
    dm_log m' = fst (process_error (dm_options m) msg True (dm_log m))"
proof -
  obtain st msg where b: "build_deadlock_circle_log_text env (m_collect_callstacks (dm_options m))
      (dm_graph m) mu i j = Some ((dm_graph m)\<lparr>r_stack := st\<rparr>, msg)"
    using circle_text_defined [OF mon_invD(1) [OF inv] ids] by blast
  have inv': "mon_inv (m\<lparr>dm_graph := (dm_graph m)\<lparr>r_stack := st\<rparr>\<rparr>)"
    by (rule mon_inv_graph [OF inv]) (simp_all add: stack_frame mon_invD(1) [OF inv])
  let ?m = "m\<lparr>dm_graph := (dm_graph m)\<lparr>r_stack := st\<rparr>,
    dm_log := fst (process_error (dm_options m) msg True (dm_log m))\<rparr>"
  show ?thesis
  proof (cases "m_on_error (dm_options m) = On_Error_fail")
    case True
    then show ?thesis
      using b inv' by (intro exI [of _ ?m] exI [of _ msg])
        (simp add: report_cycle_def dm_report_cases next_step_def stack_frame stack_frame_id)
  next
    case False
    then show ?thesis
      using b inv' by (intro exI [of _ "?m\<lparr>dm_potential_deadlocks := True\<rparr>"] exI [of _ msg])
        (simp add: report_cycle_def dm_report_cases next_step_def stack_frame stack_frame_id)
  qed
qed

section \<open>Requesting a lock\<close>

text \<open>
  The live locks the thread holds and that the loop looks at: those before the lock itself. A cycle is
  closed if the new lock already leads to one of them.
\<close>

definition waits_behind :: "tid \<Rightarrow> ptr \<Rightarrow> monitor \<Rightarrow> ptr list" where
  "waits_behind t mu m =
     takeWhile (\<lambda>p. p \<noteq> mu) (held_ptrs (fst (the (get_id t mu (dm_graph m)))) (held_of m t))"

definition closes_cycle :: "tid \<Rightarrow> ptr \<Rightarrow> monitor \<Rightarrow> bool" where
  "closes_cycle t mu m \<longleftrightarrow> (\<exists>p\<in>set (waits_behind t mu m). (mu, p) \<in> (arcs (dm_graph m))\<^sup>*)"

text \<open>The edges the request adds: those up to the first one that is refused.\<close>

definition new_edges :: "tid \<Rightarrow> ptr \<Rightarrow> monitor \<Rightarrow> (ptr \<times> ptr) set" where
  "new_edges t mu m =
     set (takeWhile (\<lambda>p. (mu, p) \<notin> (arcs (dm_graph m))\<^sup>*) (waits_behind t mu m)) \<times> {mu}"

lemma held_before_ptrs:
  assumes inv: "rep_inv g" and me: "id_of g mu = Some gid" and js: "set js \<subseteq> issued g"
  shows "held_before (ptr_of g) gid js =
    (if mu = 0 then filter (\<lambda>p. p \<noteq> 0) (map (\<lambda>i. the (ptr_of g i)) js)
     else takeWhile (\<lambda>p. p \<noteq> mu) (filter (\<lambda>p. p \<noteq> 0) (map (\<lambda>i. the (ptr_of g i)) js)))"
  using js
proof (induction js)
  case Nil
  then show ?case by simp
next
  case (Cons i js)
  obtain p where p: "ptr_of g i = Some p" "id_of g p = Some i \<or> p = 0 \<and> (\<forall>q. id_of g q \<noteq> Some i)"
    using graph.look_known [OF inv, of i] Cons.prems by auto
  have gid: "i = gid \<Longrightarrow> p = mu" using graph.ptr_law(1) [OF inv _ me] p(1) Cons.prems by simp
  have me': "p = mu \<Longrightarrow> p \<noteq> 0 \<Longrightarrow> i = gid" using p(2) me by simp
  show ?case using Cons.IH Cons.prems p(1) gid me' by auto
qed

lemma held_before_live:
  assumes inv: "rep_inv g" and js: "set js \<subseteq> issued g" and p: "p \<in> set (held_before (ptr_of g) gid js)"
  shows "\<exists>i. id_of g p = Some i"
  using js p
proof (induction js)
  case (Cons i js)
  obtain q where q: "ptr_of g i = Some q" "id_of g q = Some i \<or> q = 0 \<and> (\<forall>q. id_of g q \<noteq> Some i)"
    using graph.look_known [OF inv, of i] Cons.prems(1) by auto
  then show ?case using Cons by (auto split: if_splits)
qed simp

lemma held_ids_eq: "set (map lk_id (held_list h)) = held_ids h"
  by (simp add: held_ids_def)

lemma held_cong:
  assumes "hl_locks h' = hl_locks h" "hl_n h' = hl_n h"
  shows "held_list h' = held_list h" "held_ids h' = held_ids h" "held_ptrs g h' = held_ptrs g h"
    "held_count h' = held_count h"
  using assms by (auto simp: held_list_def held_ids_def held_ptrs_def held_count_def)

lemma check_held_spec:
  assumes inv: "mon_inv m" and me: "id_of (dm_graph m) mu = Some gid" "mu \<noteq> 0"
    and fits: "table_fits (dm_graph m) t h"
  defines "ps \<equiv> takeWhile (\<lambda>p. p \<noteq> mu) (held_ptrs (dm_graph m) h)"
    and "bad \<equiv> \<lambda>p. (mu, p) \<in> (arcs (dm_graph m))\<^sup>*"
  shows "\<exists>m' msg. check_held env mu gid (held_list h) m =
      Some (if (\<exists>p\<in>set ps. bad p) \<and> m_on_error (dm_options m) = On_Error_fail
            then Terminated (m_exit_code (dm_options m)) m' else Running () m') \<and>
    mon_inv m' \<and> arcs (dm_graph m') = arcs (dm_graph m) \<union> set (takeWhile (\<lambda>p. \<not> bad p) ps) \<times> {mu} \<and>
    id_of (dm_graph m') = id_of (dm_graph m) \<and> node_count (dm_graph m') = node_count (dm_graph m) \<and>
    dm_held m' = dm_held m \<and> dm_options m' = dm_options m \<and>
    dm_potential_deadlocks m' = (dm_potential_deadlocks m \<or>
      (\<exists>p\<in>set ps. bad p) \<and> m_on_error (dm_options m) \<noteq> On_Error_fail) \<and>
    dm_other_errors m' = dm_other_errors m \<and>
    dm_ignore_lock m' = dm_ignore_lock m \<and> dm_ignore_unlock m' = dm_ignore_unlock m \<and>
    dm_log m' = (if \<exists>p\<in>set ps. bad p then fst (process_error (dm_options m) msg True (dm_log m)) else dm_log m)"
proof -
  let ?g = "dm_graph m" and ?js = "map lk_id (held_list h)"
  note ginv = mon_invD(1) [OF inv]
  have js: "set ?js \<subseteq> issued ?g" using table_fitsD(2) [OF fits] unfolding held_ids_eq .
  have ps: "held_before (ptr_of ?g) gid ?js = ps"
    using held_before_ptrs [OF ginv me(1) js] me(2) by (simp add: ps_def held_ptrs_def comp_def)
  obtain g refused where acq: "acquire_edges ptr_of insert_edge gid ?js ?g = Some (g, refused)"
    "rep_inv g" "id_of g = id_of ?g" "issued g = issued ?g" "node_count g = node_count ?g"
    "arcs g = arcs ?g \<union> set (takeWhile (\<lambda>p. \<not> bad p) ps) \<times> {mu}"
    "refused = Option.bind (find bad ps) (id_of ?g)"
    using graph.acquire_spec [OF ginv me(1) js] unfolding ps bad_def by blast
  have inv': "mon_inv (m\<lparr>dm_graph := g\<rparr>)" by (rule mon_inv_graph [OF inv acq(2)]) (simp add: acq(4))
  note loop = check_held_acquire [OF acq(1), of env mu]
  show ?thesis
  proof (cases "find bad ps")
    case None
    then have no: "\<not> (\<exists>p\<in>set ps. bad p)" by (simp add: find_None_iff)
    have "check_held env mu gid (held_list h) m = Some (Running () (m\<lparr>dm_graph := g\<rparr>))"
      using loop acq(7) None by simp
    then show ?thesis
      using no acq inv' by (intro exI [of _ "m\<lparr>dm_graph := g\<rparr>"] exI [of _ "[]"]) simp
  next
    case (Some p)
    then have p: "p \<in> set ps" "bad p" by (auto simp: find_Some_iff)
    then obtain i where i: "id_of ?g p = Some i"
      using held_before_live [OF ginv js, of p gid] unfolding ps by blast
    have loop': "check_held env mu gid (held_list h) m = report_cycle env mu gid i (m\<lparr>dm_graph := g\<rparr>)"
      using loop acq(7) Some i by simp
    let ?m = "m\<lparr>dm_graph := g\<rparr>"
    have ids: "id_of (dm_graph ?m) mu = Some gid" "id_of (dm_graph ?m) p = Some i"
      using me(1) i acq(3) by simp_all
    from report_cycle_spec [OF inv' ids, of env] obtain m' msg
      where m': "report_cycle env mu gid i ?m = Some (if m_on_error (dm_options ?m) = On_Error_fail
          then Terminated (m_exit_code (dm_options ?m)) m' else Running () m')" "mon_inv m'"
        "arcs (dm_graph m') = arcs (dm_graph ?m)" "id_of (dm_graph m') = id_of (dm_graph ?m)"
        "node_count (dm_graph m') = node_count (dm_graph ?m)"
        "dm_held m' = dm_held ?m" "dm_options m' = dm_options ?m"
        "dm_potential_deadlocks m' = (dm_potential_deadlocks ?m \<or> m_on_error (dm_options ?m) \<noteq> On_Error_fail)"
        "dm_other_errors m' = dm_other_errors ?m"
        "dm_ignore_lock m' = dm_ignore_lock ?m" "dm_ignore_unlock m' = dm_ignore_unlock ?m"
        "dm_log m' = fst (process_error (dm_options ?m) msg True (dm_log ?m))"
      by blast
    have yes: "\<exists>p\<in>set ps. bad p" using p by blast
    show ?thesis
      by (intro exI [of _ m'] exI [of _ msg]) (simp add: loop' m' acq(3,5,6) yes)
  qed
qed

text \<open>A known lock keeps its id, and \<^verbatim>\<open>GetId\<close> changes nothing.\<close>

lemma get_id_known:
  assumes inv: "rep_inv g" and i: "id_of g mu = Some i"
  shows "get_id t mu g = Some (g, i)"
proof -
  have v: "mu \<in> vertices g" using id_of_None [OF inv, of mu] i by fastforce
  obtain j where "get_id t mu g = Some (g, j)" "got_id g mu g j" using get_id_old [OF inv v] by blast
  then show ?thesis using i unfolding got_id_def by (metis fun_upd_same option.inject)
qed

text \<open>The id of the lock is known after the call of \<^verbatim>\<open>GetId\<close>; the trace is only a note.\<close>

lemma note_lock:
  assumes inv: "mon_inv m" and room: "int (node_count (dm_graph m)) < node_limit" and mu: "mu \<noteq> 0"
  obtains g1 gid g2 where "get_id t mu (dm_graph m) = Some (g1, gid)"
    "update_stack_trace collect t frames gid h g1 = Some g2" "rep_inv g2"
    "issued (dm_graph m) \<subseteq> issued g2" "gid \<in> issued g2" "id_of g2 = (id_of (dm_graph m))(mu \<mapsto> gid)"
    "arcs g2 = arcs (dm_graph m)" "node_count g2 \<le> node_count (dm_graph m) + 1"
    "id_of (dm_graph m) mu = None \<or> id_of (dm_graph m) mu = Some gid"
    "\<And>k. held_ids k \<subseteq> issued (dm_graph m) \<Longrightarrow> held_ptrs g2 k = held_ptrs g1 k"
proof -
  obtain g1 gid where g1: "get_id t mu (dm_graph m) = Some (g1, gid)" "got_id (dm_graph m) mu g1 gid"
    using get_id_correct [OF mon_invD(1) [OF inv] room, of t mu] by blast
  then have got: "rep_inv g1" "id_of g1 = (id_of (dm_graph m))(mu \<mapsto> gid)" "arcs g1 = arcs (dm_graph m)"
    "issued (dm_graph m) \<subseteq> issued g1" "gid \<in> issued g1" "node_count g1 \<le> node_count (dm_graph m) + 1"
    by (simp_all add: got_id_def)
  obtain g2 where g2: "update_stack_trace collect t frames gid h g1 = Some g2" "rep_inv g2"
    "same_vertices g1 g2" "arcs g2 = arcs g1" "node_count g2 = node_count g1"
    using update_stack_trace_frame [OF got(1,5), of collect t frames h] by blast
  have same: "id_of g2 = id_of g1" "issued g2 = issued g1" using g2(3) by (simp_all add: same_vertices_def)
  have "held_ptrs g2 k = held_ptrs g1 k" if "held_ids k \<subseteq> issued (dm_graph m)" for k
  proof -
    have "ptr_of g2 (lk_id l) = ptr_of g1 (lk_id l)" if "l \<in> set (held_list k)" for l
      using graph.look_same [OF got(1) g2(2) same, of "lk_id l"] that got(4)
        \<open>held_ids k \<subseteq> issued (dm_graph m)\<close> by (auto simp: held_ids_def)
    then show ?thesis unfolding held_ptrs_def by (metis (mono_tags, lifting) map_cong)
  qed
  moreover have "id_of (dm_graph m) mu = None \<or> id_of (dm_graph m) mu = Some gid"
    using get_id_known [OF mon_invD(1) [OF inv], of mu _ t] g1(1) by (cases "id_of (dm_graph m) mu") auto
  ultimately show ?thesis using that [OF g1(1) g2(1,2)] g2(4,5) got same by simp
qed

lemma before_lock_spec:
  assumes inv: "mon_inv m" and t: "t = ce_tid env" and quiet: "dm_ignore_lock m t = 0" and mu: "mu \<noteq> 0"
    and few: "hl_n (held_of m t) < max_locks" and room: "int (node_count (dm_graph m)) < node_limit"
  shows "\<exists>m' gid msg lg. before_lock env mu m =
      Some (if closes_cycle t mu m \<and> m_on_error (dm_options m) = On_Error_fail
            then Terminated (m_exit_code (dm_options m)) m' else Running (True, gid) m') \<and>
    mon_inv m' \<and> (\<exists>g. get_id t mu (dm_graph m) = Some (g, gid)) \<and>
    arcs (dm_graph m') = arcs (dm_graph m) \<union> new_edges t mu m \<and>
    id_of (dm_graph m') = (id_of (dm_graph m))(mu \<mapsto> gid) \<and>
    (id_of (dm_graph m) mu = None \<or> id_of (dm_graph m) mu = Some gid) \<and> gid \<in> issued (dm_graph m') \<and>
    node_count (dm_graph m') \<le> node_count (dm_graph m) + 1 \<and> dm_options m' = dm_options m \<and>
    (\<exists>h. dm_held m' t = Some h \<and> hl_locks h = hl_locks (held_of m t) \<and> hl_n h = hl_n (held_of m t)) \<and>
    (\<forall>u. u \<noteq> t \<longrightarrow> dm_held m' u = dm_held m u) \<and>
    dm_ignore_lock m' = dm_ignore_lock m \<and> dm_ignore_unlock m' = dm_ignore_unlock m \<and>
    dm_potential_deadlocks m' = (dm_potential_deadlocks m \<or>
      closes_cycle t mu m \<and> m_on_error (dm_options m) \<noteq> On_Error_fail) \<and>
    dm_other_errors m' = dm_other_errors m \<and>
    (closes_cycle t mu m \<longrightarrow> dm_log m' = fst (process_error (dm_options m) msg True lg))"
proof -
  obtain m1 h where all: "get_all_locks True t m = (m1, h)" by fastforce
  note h = get_all_locks_spec [OF inv all]
  have g: "dm_graph m1 = dm_graph m" and opts: "dm_options m1 = dm_options m"
    using h(3) by (simp_all add: same_but_held_def)
  have room1: "int (node_count (dm_graph m1)) < node_limit" using room g by simp
  obtain g1 gid g2 where n: "get_id t mu (dm_graph m1) = Some (g1, gid)"
    "update_stack_trace (m_collect_callstacks (dm_options m1)) t (ce_frames env) gid h g1 = Some g2"
    "rep_inv g2" "issued (dm_graph m1) \<subseteq> issued g2" "gid \<in> issued g2"
    "id_of g2 = (id_of (dm_graph m1))(mu \<mapsto> gid)" "arcs g2 = arcs (dm_graph m1)"
    "node_count g2 \<le> node_count (dm_graph m1) + 1"
    "id_of (dm_graph m1) mu = None \<or> id_of (dm_graph m1) mu = Some gid"
    "\<And>k. held_ids k \<subseteq> issued (dm_graph m1) \<Longrightarrow> held_ptrs g2 k = held_ptrs g1 k"
    using note_lock [OF h(1) room1 mu, of t "m_collect_callstacks (dm_options m1)" "ce_frames env" h] by metis
  let ?m2 = "m1\<lparr>dm_graph := g2\<rparr>"
  have inv2: "mon_inv ?m2" by (rule mon_inv_graph [OF h(1) n(3,4)])
  have ids: "held_ids h \<subseteq> issued (dm_graph m1)" using table_fitsD(2) [OF h(7)] .
  have wb: "waits_behind t mu m = takeWhile (\<lambda>p. p \<noteq> mu) (held_ptrs g2 h)"
    using n(1) n(10) [OF ids] held_cong(3) [OF h(4,5), of g1] g by (simp add: waits_behind_def)
  show ?thesis
  proof (cases "hl_n h = 0")
    case True
    then have "waits_behind t mu m = []" unfolding wb by (simp add: held_ptrs_def held_list_def)
    then have no: "\<not> closes_cycle t mu m" "new_edges t mu m = {}"
      by (simp_all add: closes_cycle_def new_edges_def)
    let ?m3 = "?m2\<lparr>dm_held := (dm_held ?m2)(t \<mapsto> h\<lparr>hl_start := le_now env\<rparr>)\<rparr>"
    have fits: "table_fits (dm_graph ?m2) t h" using mon_invD(2) [OF inv2, of t h] h(2) by simp
    have "mon_inv ?m3" by (rule mon_inv_held [OF inv2, of t h]) (use h(2) fits in simp_all)
    moreover have "before_lock env mu m = Some (Running (True, gid) ?m3)"
      using quiet few all n(1,2) True h(5) by (simp add: before_lock_def t [symmetric] Let_def)
    ultimately show ?thesis
      using no n(1,4-9) g opts h(3-5,9)
      by (intro exI [of _ ?m3] exI [of _ gid]) (simp add: same_but_held_def)
  next
    case False
    have fits: "table_fits (dm_graph ?m2) t h" using mon_invD(2) [OF inv2, of t h] h(2) by simp
    have me: "id_of (dm_graph ?m2) mu = Some gid" using n(6) by simp
    have edges: "arcs (dm_graph ?m2) = arcs (dm_graph m)" using n(7) g by simp
    have cyc: "(\<exists>p\<in>set (takeWhile (\<lambda>p. p \<noteq> mu) (held_ptrs (dm_graph ?m2) h)).
        (mu, p) \<in> (arcs (dm_graph ?m2))\<^sup>*) \<longleftrightarrow> closes_cycle t mu m"
      unfolding closes_cycle_def wb edges by simp
    have new: "set (takeWhile (\<lambda>p. \<not> (mu, p) \<in> (arcs (dm_graph ?m2))\<^sup>*)
        (takeWhile (\<lambda>p. p \<noteq> mu) (held_ptrs (dm_graph ?m2) h))) \<times> {mu} = new_edges t mu m"
      unfolding new_edges_def wb edges by simp
    obtain m' msg where m': "check_held env mu gid (held_list h) ?m2 =
        Some (if closes_cycle t mu m \<and> m_on_error (dm_options ?m2) = On_Error_fail
            then Terminated (m_exit_code (dm_options ?m2)) m' else Running () m')"
      "mon_inv m'" "arcs (dm_graph m') = arcs (dm_graph ?m2) \<union> new_edges t mu m"
      "id_of (dm_graph m') = id_of (dm_graph ?m2)" "node_count (dm_graph m') = node_count (dm_graph ?m2)"
      "dm_held m' = dm_held ?m2" "dm_options m' = dm_options ?m2"
      "dm_potential_deadlocks m' = (dm_potential_deadlocks ?m2 \<or>
         closes_cycle t mu m \<and> m_on_error (dm_options ?m2) \<noteq> On_Error_fail)"
      "dm_other_errors m' = dm_other_errors ?m2"
      "dm_ignore_lock m' = dm_ignore_lock ?m2" "dm_ignore_unlock m' = dm_ignore_unlock ?m2"
      "dm_log m' = (if closes_cycle t mu m then fst (process_error (dm_options ?m2) msg True (dm_log ?m2))
         else dm_log ?m2)"
      using check_held_spec [OF inv2 me mu fits, of env, unfolded cyc new] by blast
    have "before_lock env mu m = next_step (check_held env mu gid (held_list h)) (\<lambda>_. done_with (True, gid)) ?m2"
      using quiet few all n(1,2) False h(5)
      by (simp add: before_lock_def t [symmetric] Let_def held_list_def)
    then have "before_lock env mu m =
        Some (if closes_cycle t mu m \<and> m_on_error (dm_options m) = On_Error_fail
            then Terminated (m_exit_code (dm_options m)) m' else Running (True, gid) m')"
      using m'(1) opts by (simp add: next_step_def done_with_def)
    moreover have "dm_held m' t = Some h" using m'(6) h(2) by simp
    moreover have "gid \<in> issued (dm_graph m')"
      using graph.ids_law [OF mon_invD(1) [OF m'(2)], of mu gid] m'(4) n(6) by simp
    ultimately show ?thesis
      using m'(2-) n(1,4-9) g opts h(3-5,9)
      by (intro exI [of _ m'] exI [of _ gid] exI [of _ msg] exI [of _ "dm_log ?m2"])
        (simp add: same_but_held_def cong: conj_cong)
  qed
qed

section \<open>The other operations\<close>

text \<open>The history functions only change the entries.\<close>

lemma in_lock_frame:
  assumes "update_lock_history_in_lock mu g h = Some h'"
  shows "hl_tid h' = hl_tid h" "hl_start h' = hl_start h" "hl_monitored h' = hl_monitored h"
  using assms by (auto simp: update_lock_history_in_lock_def split: bind_splits if_splits)

lemma after_lock_frame:
  assumes "update_lock_history_after_lock mu g h = Some (h', r)"
  shows "hl_tid h' = hl_tid h" "hl_start h' = hl_start h" "hl_monitored h' = hl_monitored h"
  using assms by (auto simp: update_lock_history_after_lock_def split: bind_splits if_splits)

text \<open>Address and id of the held locks.\<close>

definition held_pairs :: "held_locks \<Rightarrow> (ptr \<times> u64) set" where
  "held_pairs h = (\<lambda>l. (lk_mu l, lk_id l)) ` set (held_list h)"

lemma held_pairs_recount:
  assumes "i < hl_n h" "hl_n h \<le> length (hl_locks h)"
  shows "held_pairs (h\<lparr>hl_locks := (hl_locks h)[i := (hl_locks h ! i)\<lparr>lk_count := c\<rparr>]\<rparr>) = held_pairs h"
proof -
  let ?f = "\<lambda>l. (lk_mu l, lk_id l)"
  have nth: "held_list h ! i = hl_locks h ! i" "i < length (held_list h)"
    using assms by (simp_all add: held_list_def)
  have "map ?f ((held_list h)[i := (hl_locks h ! i)\<lparr>lk_count := c\<rparr>]) = map ?f (held_list h)"
    unfolding map_update by (rule list_update_same_conv [THEN iffD2]) (simp_all add: nth)
  from arg_cong [OF this, of set] show ?thesis
    by (simp add: held_pairs_def held_list_update [OF assms(1)])
qed

lemma in_lock_pairs:
  assumes inv: "hl_inv h" and room: "g \<in> held_ids h \<or> hl_n h < max_locks"
    and c: "held_count h g + 1 < 2 ^ 31" and eq: "update_lock_history_in_lock mu g h = Some h'"
  shows "held_pairs h' \<subseteq> insert (mu, g) (held_pairs h)"
proof (cases "g \<in> held_ids h")
  case True
  obtain i where "i < hl_n h" "update_lock_history_in_lock mu g h =
      Some (h\<lparr>hl_locks := (hl_locks h)[i := (hl_locks h ! i)\<lparr>lk_count := lk_count (hl_locks h ! i) + 1\<rparr>]\<rparr>)"
    by (rule in_lock_again [OF inv True c])
  then show ?thesis using eq held_pairs_recount hl_invD(3) [OF inv] by auto
next
  case False
  then have "hl_n h < max_locks" using room by simp
  then show ?thesis
    using in_lock_new [OF inv False, of mu] eq hl_invD(1) [OF inv]
    by (auto simp: held_pairs_def held_list_def take_Suc_conv_app_nth)
qed

lemma after_lock_pairs:
  assumes inv: "hl_inv h" and held: "0 < held_count h g"
    and eq: "update_lock_history_after_lock mu g h = Some (h', r)"
  shows "held_pairs h' \<subseteq> held_pairs h"
proof -
  note len = hl_invD(3) [OF inv]
  have "g \<in> held_ids h" using held held_count_pos [OF inv] by simp
  then obtain i where i: "i < hl_n h" "lk_id (hl_locks h ! i) = g"
    using held_ids_conv [OF len] by auto
  show ?thesis
  proof (cases "lk_count (hl_locks h ! i) = 1")
    case True
    let ?h = "h\<lparr>hl_n := hl_n h - 1, hl_locks := (hl_locks h)[i := hl_locks h ! (hl_n h - 1), hl_n h - 1 := no_lock]\<rparr>"
    have mem: "hl_locks h ! k \<in> set (held_list h)" if "k < hl_n h" for k
      using that len by (auto simp: held_list_def in_set_conv_nth intro!: exI [of _ k])
    have "held_list ?h ! k \<in> set (held_list h)" if "k < length (held_list ?h)" for k
      using that i(1) len mem [of k] mem [of "hl_n h - 1"] by (cases "k = i") (simp_all add: held_list_def)
    then have "set (held_list ?h) \<subseteq> set (held_list h)" by (auto simp: in_set_conv_nth)
    then show ?thesis using after_lock_last [OF inv i True, of mu] eq by (auto simp: held_pairs_def)
  next
    case False
    then show ?thesis using after_lock_again [OF inv i, of mu] eq held_pairs_recount [OF i(1) len] by auto
  qed
qed

lemma held_ids_counts: "hl_inv h \<Longrightarrow> held_ids h = {g. 0 < held_count h g}"
  by (auto simp: held_count_pos)

lemma in_lock_spec:
  assumes inv: "mon_inv m" and h: "dm_held m t = Some h" and g: "g \<in> issued (dm_graph m)"
    and room: "0 < held_count h g \<or> hl_n h < max_locks" and c: "held_count h g + 1 < 2 ^ 31"
  shows "\<exists>h'. in_lock t mu g m = Some (Running () (m\<lparr>dm_held := (dm_held m)(t \<mapsto> h')\<rparr>)) \<and>
    mon_inv (m\<lparr>dm_held := (dm_held m)(t \<mapsto> h')\<rparr>) \<and> held_count h' = (held_count h)(g := held_count h g + 1) \<and>
    held_pairs h' \<subseteq> insert (mu, g) (held_pairs h)"
proof -
  have fits: "table_fits (dm_graph m) t h" by (rule mon_invD(2) [OF inv h])
  note hinv = table_fitsD(1) [OF fits]
  obtain h' where h': "update_lock_history_in_lock mu g h = Some h'" "hl_inv h'"
    "held_count h' = (held_count h)(g := held_count h g + 1)"
    using update_in_lock_spec [OF hinv, of g mu] room c held_count_pos [OF hinv, of g] by blast
  have pairs: "held_pairs h' \<subseteq> insert (mu, g) (held_pairs h)"
    by (rule in_lock_pairs [OF hinv _ c h'(1)]) (use room held_count_pos [OF hinv, of g] in simp)
  have "held_ids h' \<subseteq> insert g (held_ids h)"
    using h'(3) held_ids_counts [OF hinv] held_ids_counts [OF h'(2)] by auto
  then have fits': "table_fits (dm_graph m) t h'"
    using table_fitsD [OF fits] g h'(2) in_lock_frame [OF h'(1)] by (auto simp: table_fits_def)
  have "mon_inv (m\<lparr>dm_held := (dm_held m)(t \<mapsto> h')\<rparr>)"
    by (rule mon_inv_held [OF inv h fits']) (rule in_lock_frame [OF h'(1)])
  then show ?thesis
    using h h' pairs by (intro exI [of _ h']) (simp add: in_lock_def)
qed

lemma after_lock_spec:
  assumes inv: "mon_inv m" and t: "t = ce_tid env" and quiet: "dm_ignore_unlock m t = 0"
    and i: "id_of (dm_graph m) mu = Some gid" and held: "0 < held_count (held_of m t) gid"
  shows "\<exists>m'. after_lock env mu m = Some (Running () m') \<and> mon_inv m' \<and> dm_graph m' = dm_graph m \<and>
    held_count (held_of m' t) = (held_count (held_of m t))(gid := held_count (held_of m t) gid - 1) \<and>
    held_pairs (held_of m' t) \<subseteq> held_pairs (held_of m t) \<and>
    (\<forall>u. u \<noteq> t \<longrightarrow> dm_held m' u = dm_held m u) \<and> dm_options m' = dm_options m \<and>
    dm_ignore_lock m' = dm_ignore_lock m \<and> dm_ignore_unlock m' = dm_ignore_unlock m \<and>
    dm_potential_deadlocks m' = dm_potential_deadlocks m \<and> dm_other_errors m' = dm_other_errors m"
proof -
  let ?m0 = "m\<lparr>dm_graph := dm_graph m\<rparr>"
  obtain m1 h where all: "get_all_locks False t m = (m1, h)" by fastforce
  note h = get_all_locks_spec [OF inv all]
  have cnt: "held_count h = held_count (held_of m t)" by (rule held_cong(4) [OF h(4,5)])
  obtain h' where h': "update_lock_history_after_lock mu gid h = Some (h', Released)" "hl_inv h'"
    "held_count h' = (held_count h)(gid := held_count h gid - 1)"
    using after_lock_held_spec [OF table_fitsD(1) [OF h(7)], of gid mu] held unfolding cnt by blast
  have "k \<in> held_ids h" if "k \<in> held_ids h'" for k
  proof -
    have "0 < held_count h' k" using that held_count_pos [OF h'(2)] by simp
    then have "0 < held_count h k" using h'(3) by (cases "k = gid") simp_all
    then show ?thesis using held_count_pos [OF table_fitsD(1) [OF h(7)]] by simp
  qed
  then have "held_ids h' \<subseteq> held_ids h" by blast
  then have fits': "table_fits (dm_graph m1) t h'"
    using table_fitsD [OF h(7)] h'(2) after_lock_frame [OF h'(1)] by (auto simp: table_fits_def)
  define h2 where "h2 = (if hl_n h' = 0 then h'\<lparr>hl_start := 0\<rparr> else h')"
  let ?m' = "m1\<lparr>dm_held := (dm_held m1)(t \<mapsto> h2)\<rparr>"
  have "mon_inv ?m'"
    by (rule mon_inv_held [OF h(1,2)]) (use fits' after_lock_frame [OF h'(1)] in \<open>simp_all add: h2_def\<close>)
  moreover have "after_lock env mu m = Some (Running () ?m')"
    using quiet get_id_known [OF mon_invD(1) [OF inv] i] all h'(1)
    by (simp add: after_lock_def t [symmetric] Let_def release_report_def done_with_def next_step_def h2_def)
  moreover have "held_count h2 = (held_count (held_of m t))(gid := held_count (held_of m t) gid - 1)"
    using h'(3) cnt held_cong(4) [of h2 h'] by (simp add: h2_def)
  moreover have "held_pairs h2 \<subseteq> held_pairs (held_of m t)"
  proof -
    have "0 < held_count h gid" using held cnt by simp
    then have "held_pairs h' \<subseteq> held_pairs h"
      by (rule after_lock_pairs [OF table_fitsD(1) [OF h(7)] _ h'(1)])
    then show ?thesis
      using held_cong(1) [OF h(4,5)] held_cong(1) [of h2 h'] by (simp add: held_pairs_def h2_def)
  qed
  ultimately show ?thesis
    using h(3,9) by (intro exI [of _ ?m']) (simp add: same_but_held_def held_of_def)
qed

lemma before_try_lock_spec:
  assumes inv: "mon_inv m" and t: "t = ce_tid env" and quiet: "dm_ignore_lock m t = 0" and mu: "mu \<noteq> 0"
    and room: "int (node_count (dm_graph m)) < node_limit"
  shows "\<exists>m' gid. before_try_lock env mu m = Some (Running (True, gid) m') \<and> mon_inv m' \<and>
    arcs (dm_graph m') = arcs (dm_graph m) \<and> id_of (dm_graph m') = (id_of (dm_graph m))(mu \<mapsto> gid) \<and>
    (id_of (dm_graph m) mu = None \<or> id_of (dm_graph m) mu = Some gid) \<and>
    gid \<in> issued (dm_graph m') \<and> node_count (dm_graph m') \<le> node_count (dm_graph m) + 1 \<and>
    (\<exists>h. dm_held m' t = Some h \<and> hl_locks h = hl_locks (held_of m t) \<and> hl_n h = hl_n (held_of m t)) \<and>
    (\<forall>u. u \<noteq> t \<longrightarrow> dm_held m' u = dm_held m u) \<and> dm_options m' = dm_options m \<and>
    dm_ignore_lock m' = dm_ignore_lock m \<and> dm_ignore_unlock m' = dm_ignore_unlock m \<and>
    dm_potential_deadlocks m' = dm_potential_deadlocks m \<and> dm_other_errors m' = dm_other_errors m"
proof -
  obtain g gid where g: "get_id t mu (dm_graph m) = Some (g, gid)" "got_id (dm_graph m) mu g gid"
    using get_id_correct [OF mon_invD(1) [OF inv] room, of t mu] by blast
  then have got: "rep_inv g" "id_of g = (id_of (dm_graph m))(mu \<mapsto> gid)" "arcs g = arcs (dm_graph m)"
    "issued (dm_graph m) \<subseteq> issued g" "gid \<in> issued g" "node_count g \<le> node_count (dm_graph m) + 1"
    by (simp_all add: got_id_def)
  have old: "id_of (dm_graph m) mu = None \<or> id_of (dm_graph m) mu = Some gid"
    using get_id_known [OF mon_invD(1) [OF inv], of mu _ t] g(1) by (cases "id_of (dm_graph m) mu") auto
  let ?m0 = "m\<lparr>dm_graph := g\<rparr>"
  have inv0: "mon_inv ?m0" by (rule mon_inv_graph [OF inv got(1,4)])
  obtain m1 h where all: "get_all_locks True t ?m0 = (m1, h)" by fastforce
  note h = get_all_locks_spec [OF inv0 all]
  have same: "held_of ?m0 t = held_of m t" by (simp add: held_of_def)
  let ?m' = "if hl_n h = 0 then m1\<lparr>dm_held := (dm_held m1)(t \<mapsto> h\<lparr>hl_start := le_now env\<rparr>)\<rparr> else m1"
  have "mon_inv (m1\<lparr>dm_held := (dm_held m1)(t \<mapsto> h\<lparr>hl_start := le_now env\<rparr>)\<rparr>)"
    by (rule mon_inv_held [OF h(1,2)]) (use h(7) in simp_all)
  then have "mon_inv ?m'" using h(1) by simp
  moreover have "before_try_lock env mu m = Some (Running (True, gid) ?m')"
    using quiet g(1) all by (simp add: before_try_lock_def t [symmetric] Let_def)
  ultimately show ?thesis
    using got h(2-5,9) old unfolding same by (intro exI [of _ ?m'] exI [of _ gid]) (simp add: same_but_held_def)
qed

text \<open>Deleting a lock that the thread does not hold is silent.\<close>

lemma delete_lock_spec:
  assumes inv: "mon_inv m" and t: "t = ce_tid env"
    and free: "\<forall>l\<in>set (held_list (held_of m t)). lk_mu l \<noteq> mu"
  shows "\<exists>m'. delete_lock env mu m = Some (Running () m') \<and> mon_inv m' \<and>
    arcs (dm_graph m') = {(a, b). (a, b) \<in> arcs (dm_graph m) \<and> a \<noteq> mu \<and> b \<noteq> mu} \<and>
    id_of (dm_graph m') = (id_of (dm_graph m))(mu := None) \<and>
    node_count (dm_graph m') = node_count (dm_graph m) \<and>
    hl_locks (held_of m' t) = hl_locks (held_of m t) \<and> hl_n (held_of m' t) = hl_n (held_of m t) \<and>
    (\<forall>u. u \<noteq> t \<longrightarrow> dm_held m' u = dm_held m u) \<and> dm_options m' = dm_options m \<and>
    dm_ignore_lock m' = dm_ignore_lock m \<and> dm_ignore_unlock m' = dm_ignore_unlock m \<and>
    dm_potential_deadlocks m' = dm_potential_deadlocks m \<and> dm_other_errors m' = dm_other_errors m"
proof -
  obtain g where g: "remove_node mu (dm_graph m) = Some g" "rep_inv g"
    "arcs g = {(a, b). (a, b) \<in> arcs (dm_graph m) \<and> a \<noteq> mu \<and> b \<noteq> mu}"
    "id_of g = (id_of (dm_graph m))(mu := None)" "issued g = issued (dm_graph m)"
    "node_count g = node_count (dm_graph m)"
    using graph.del_law [OF mon_invD(1) [OF inv]] by blast
  let ?m0 = "m\<lparr>dm_graph := g\<rparr>"
  have inv0: "mon_inv ?m0" by (rule mon_inv_graph [OF inv g(2)]) (simp add: g(5))
  obtain m1 h where all: "get_all_locks False t ?m0 = (m1, h)" by fastforce
  note h = get_all_locks_spec [OF inv0 all]
  have same: "held_of ?m0 t = held_of m t" by (simp add: held_of_def)
  have "held_list h = held_list (held_of m t)" using held_cong(1) [OF h(4,5)] unfolding same .
  then have none: "\<not> list_ex (\<lambda>l. lk_mu l = mu) (take (hl_n h) (hl_locks h))"
    using free by (simp add: list_ex_iff flip: held_list_def)
  have "delete_lock env mu m = Some (Running () m1)"
    using g(1) all none by (simp add: delete_lock_def t [symmetric] Let_def)
  then show ?thesis
    using h(1-5,9) g(3-6) same
    by (intro exI [of _ m1]) (simp add: same_but_held_def held_of_def)
qed

end
