(* ===== verification/Lock_Monitors.thy ===== *)
theory Lock_Monitors
  imports Deadlock_Correct
begin

text \<open>
  The replacements of the lock functions: \<^verbatim>\<open>api_monitors/critical_section_monitor.cpp\<close> and
  \<^verbatim>\<open>api_monitors/mutex_monitor.hpp\<close>. The original function is an argument. A function that may block
  is given as an action of its own, which stands for everything the other threads do until it
  returns; the parts before and after it are definitions of their own.
\<close>

section \<open>State\<close>

record lock_system =
  lm_monitor :: monitor
  lm_calls :: u64
  lm_initialized :: u64
  lm_deleted :: u64

type_synonym 'a lock_call = "lock_system \<Rightarrow> ('a, lock_system) outcome option"

definition lock_system_init :: "user_options \<Rightarrow> lock_system" where
  "lock_system_init opts =
     \<lparr>lm_monitor = monitor_init opts, lm_calls = 0, lm_initialized = 0, lm_deleted = 0\<rparr>"

fun map_state :: "('s \<Rightarrow> 'u) \<Rightarrow> ('a, 's) outcome \<Rightarrow> ('a, 'u) outcome" where
  "map_state f (Running x s) = Running x (f s)"
| "map_state f (Terminated c s) = Terminated c (f s)"

definition on_monitor :: "'a step \<Rightarrow> 'a lock_call" where
  "on_monitor op s = map_option (map_state (\<lambda>m. s\<lparr>lm_monitor := m\<rparr>)) (op (lm_monitor s))"

definition and_then :: "'a lock_call \<Rightarrow> ('a \<Rightarrow> 'b lock_call) \<Rightarrow> 'b lock_call" where
  "and_then m f s = Option.bind (m s) (\<lambda>r. case r of
     Running x s' \<Rightarrow> f x s' | Terminated c s' \<Rightarrow> Some (Terminated c s'))"

definition return_value :: "'a \<Rightarrow> 'a lock_call" where
  "return_value x s = Some (Running x s)"

definition count_lock_call :: "lock_system \<Rightarrow> lock_system" where
  "count_lock_call s = s\<lparr>lm_calls := lm_calls s + 1\<rparr>"

section \<open>Critical sections\<close>

definition buginsight_initialize_critical_section :: "unit lock_call" where
  "buginsight_initialize_critical_section s =
     (let s1 = count_lock_call s in Some (Running () (s1\<lparr>lm_initialized := lm_initialized s1 + 1\<rparr>)))"

definition buginsight_initialize_critical_section_andspincount :: "unit lock_call" where
  "buginsight_initialize_critical_section_andspincount s =
     (let s1 = count_lock_call s in Some (Running () (s1\<lparr>lm_initialized := lm_initialized s1 + 1\<rparr>)))"

text \<open>Entering: the part before the original function, with its result, and the part after it.\<close>

definition lock_begin :: "lock_env \<Rightarrow> ptr \<Rightarrow> (bool \<times> u64) lock_call" where
  "lock_begin env mu s = on_monitor (before_lock env mu) (count_lock_call s)"

definition lock_end :: "tid \<Rightarrow> ptr \<Rightarrow> bool \<times> u64 \<Rightarrow> unit lock_call" where
  "lock_end t mu r =
     (if snd r = 0 then return_value () else on_monitor (in_lock t mu (snd r)))"

definition buginsight_enter_critical_section :: "lock_env \<Rightarrow> ptr \<Rightarrow> unit lock_call \<Rightarrow> unit lock_call" where
  "buginsight_enter_critical_section env mu fptr =
     and_then (lock_begin env mu) (\<lambda>r. and_then fptr (\<lambda>_. lock_end (ce_tid env) mu r))"

definition buginsight_leave_critical_section :: "lock_env \<Rightarrow> ptr \<Rightarrow> unit lock_call" where
  "buginsight_leave_critical_section env mu s = on_monitor (after_lock env mu) (count_lock_call s)"

text \<open>The original function does not block: its answer is an argument.\<close>

definition try_lock :: "lock_env \<Rightarrow> ptr \<Rightarrow> bool \<Rightarrow> unit lock_call" where
  "try_lock env mu acquired s =
     and_then (on_monitor (before_try_lock env mu)) (\<lambda>(hold, gid).
       if gid = 0 then return_value ()
       else if \<not> acquired then return_value ()
       else on_monitor (in_lock (ce_tid env) mu gid)) (count_lock_call s)"

definition buginsight_tryenter_critical_section :: "lock_env \<Rightarrow> ptr \<Rightarrow> bool \<Rightarrow> bool lock_call" where
  "buginsight_tryenter_critical_section env mu ok =
     and_then (try_lock env mu ok) (\<lambda>_. return_value ok)"

definition buginsight_delete_critical_section :: "lock_env \<Rightarrow> ptr \<Rightarrow> unit lock_call" where
  "buginsight_delete_critical_section env mu s =
     and_then (on_monitor (delete_lock env mu)) (\<lambda>_ s'.
       Some (Running () (s'\<lparr>lm_deleted := lm_deleted s' + 1\<rparr>))) (count_lock_call s)"

section \<open>Mutexes of the C++ runtime\<close>

definition bi_mtx_lock :: "lock_env \<Rightarrow> ptr \<Rightarrow> int lock_call \<Rightarrow> int lock_call" where
  "bi_mtx_lock env mu fptr =
     and_then (lock_begin env mu) (\<lambda>r. and_then fptr (\<lambda>res.
       and_then (lock_end (ce_tid env) mu r) (\<lambda>_. return_value res)))"

definition bi_mtx_unlock :: "lock_env \<Rightarrow> ptr \<Rightarrow> int \<Rightarrow> int lock_call" where
  "bi_mtx_unlock env mu res s =
     and_then (on_monitor (after_lock env mu)) (\<lambda>_. return_value res) (count_lock_call s)"

definition bi_mtx_trylock :: "lock_env \<Rightarrow> ptr \<Rightarrow> int \<Rightarrow> int lock_call" where
  "bi_mtx_trylock env mu res = and_then (try_lock env mu (res = 0)) (\<lambda>_. return_value res)"

definition bi_init_in_situ :: "unit lock_call" where
  "bi_init_in_situ s = Some (Running () (count_lock_call s))"

definition bi_mtx_destroy_in_situ :: "lock_env \<Rightarrow> ptr \<Rightarrow> unit lock_call" where
  "bi_mtx_destroy_in_situ env mu s = on_monitor (delete_lock env mu) (count_lock_call s)"

definition cnd_wait_begin :: "lock_env \<Rightarrow> lock_system \<Rightarrow> lock_system" where
  "cnd_wait_begin env s =
     (let s1 = count_lock_call s in s1\<lparr>lm_monitor := buginsight_cnd_wait env (lm_monitor s1)\<rparr>)"

definition bi_cnd_wait :: "lock_env \<Rightarrow> int lock_call \<Rightarrow> int lock_call" where
  "bi_cnd_wait env fptr s = fptr (cnd_wait_begin env s)"

definition bi_cnd_timedwait :: "lock_env \<Rightarrow> int lock_call \<Rightarrow> int lock_call" where
  "bi_cnd_timedwait env fptr s = fptr (cnd_wait_begin env s)"

section \<open>Threads that use locks\<close>

text \<open>
  The world: the monitors' state, what each thread waits for (with the result of \<open>lock_begin\<close>), and
  who owns each lock, how often. The rules follow the documented behaviour of critical sections and
  recursive mutexes: a lock is entered when no other thread owns it, left by its owner, and deleted
  when nobody owns it or waits for it. A thread waits for one lock at a time. \<open>may\<close> restricts the
  requests of the program. The limits are those of the tables: twenty locks per thread, an
  \<^verbatim>\<open>int32_t\<close> per counter, and the nodes of the graph.
\<close>

record world =
  w_sys :: lock_system
  w_waits :: "tid \<Rightarrow> (ptr \<times> bool \<times> u64) option"
  w_owner :: "ptr \<Rightarrow> (tid \<times> nat) option"

definition world_init :: "user_options \<Rightarrow> world" where
  "world_init opts = \<lparr>w_sys = lock_system_init opts, w_waits = (\<lambda>_. None), w_owner = (\<lambda>_. None)\<rparr>"

definition own :: "world \<Rightarrow> tid \<Rightarrow> ptr \<Rightarrow> nat" where
  "own w t p = (case w_owner w p of None \<Rightarrow> 0 | Some (u, n) \<Rightarrow> if u = t then n else 0)"

abbreviation w_mon :: "world \<Rightarrow> monitor" where
  "w_mon w \<equiv> lm_monitor (w_sys w)"

definition available :: "world \<Rightarrow> tid \<Rightarrow> ptr \<Rightarrow> bool" where
  "available w t p = (case w_owner w p of None \<Rightarrow> True | Some (u, n) \<Rightarrow> u = t)"

definition has_room :: "world \<Rightarrow> bool" where
  "has_room w \<longleftrightarrow> int (node_count (dm_graph (w_mon w))) < node_limit"

definition few_locks :: "world \<Rightarrow> tid \<Rightarrow> bool" where
  "few_locks w t \<longleftrightarrow> card {p. 0 < own w t p} < max_locks"

definition acquired :: "tid \<Rightarrow> ptr \<Rightarrow> world \<Rightarrow> world" where
  "acquired t mu w = w\<lparr>w_owner := (w_owner w)(mu \<mapsto> (t, own w t mu + 1))\<rparr>"

definition released :: "tid \<Rightarrow> ptr \<Rightarrow> world \<Rightarrow> world" where
  "released t mu w = w\<lparr>w_owner := (w_owner w)(mu :=
     if own w t mu = 1 then None else Some (t, own w t mu - 1))\<rparr>"

inductive lock_step :: "(world \<Rightarrow> tid \<Rightarrow> ptr \<Rightarrow> bool) \<Rightarrow> world \<Rightarrow> world \<Rightarrow> bool"
  for may :: "world \<Rightarrow> tid \<Rightarrow> ptr \<Rightarrow> bool" where
  Request: "w_waits w (ce_tid env) = None \<Longrightarrow> mu \<noteq> 0 \<Longrightarrow> may w (ce_tid env) mu \<Longrightarrow>
     has_room w \<Longrightarrow> few_locks w (ce_tid env) \<Longrightarrow>
     lock_begin env mu (w_sys w) = Some (Running r s) \<Longrightarrow>
     lock_step may w (w\<lparr>w_sys := s, w_waits := (w_waits w)(ce_tid env \<mapsto> (mu, r))\<rparr>)"
| Enter: "w_waits w t = Some (mu, r) \<Longrightarrow> available w t mu \<Longrightarrow> own w t mu + 1 < 2 ^ 31 \<Longrightarrow>
     lock_end t mu r (w_sys w) = Some (Running () s) \<Longrightarrow>
     lock_step may w (acquired t mu (w\<lparr>w_sys := s, w_waits := (w_waits w)(t := None)\<rparr>))"
| Leave: "w_waits w (ce_tid env) = None \<Longrightarrow> 0 < own w (ce_tid env) mu \<Longrightarrow>
     buginsight_leave_critical_section env mu (w_sys w) = Some (Running () s) \<Longrightarrow>
     lock_step may w (released (ce_tid env) mu (w\<lparr>w_sys := s\<rparr>))"
| Try_Succeeds: "w_waits w (ce_tid env) = None \<Longrightarrow> mu \<noteq> 0 \<Longrightarrow> has_room w \<Longrightarrow> few_locks w (ce_tid env) \<Longrightarrow>
     available w (ce_tid env) mu \<Longrightarrow> own w (ce_tid env) mu + 1 < 2 ^ 31 \<Longrightarrow>
     buginsight_tryenter_critical_section env mu True (w_sys w) = Some (Running True s) \<Longrightarrow>
     lock_step may w (acquired (ce_tid env) mu (w\<lparr>w_sys := s\<rparr>))"
| Try_Fails: "w_waits w (ce_tid env) = None \<Longrightarrow> mu \<noteq> 0 \<Longrightarrow> has_room w \<Longrightarrow>
     buginsight_tryenter_critical_section env mu False (w_sys w) = Some (Running False s) \<Longrightarrow>
     lock_step may w (w\<lparr>w_sys := s\<rparr>)"
| Delete: "w_owner w mu = None \<Longrightarrow> (\<forall>t r. w_waits w t \<noteq> Some (mu, r)) \<Longrightarrow> w_waits w (ce_tid env) = None \<Longrightarrow>
     buginsight_delete_critical_section env mu (w_sys w) = Some (Running () s) \<Longrightarrow>
     lock_step may w (w\<lparr>w_sys := s\<rparr>)"

inductive reachable :: "(world \<Rightarrow> tid \<Rightarrow> ptr \<Rightarrow> bool) \<Rightarrow> user_options \<Rightarrow> world \<Rightarrow> bool"
  for may :: "world \<Rightarrow> tid \<Rightarrow> ptr \<Rightarrow> bool" and opts :: user_options where
  Start: "reachable may opts (world_init opts)"
| Step: "reachable may opts w \<Longrightarrow> lock_step may w w' \<Longrightarrow> reachable may opts w'"

text \<open>A thread waits for another one; a deadlock is a circle of waiting threads.\<close>

definition waits_for :: "world \<Rightarrow> (tid \<times> tid) set" where
  "waits_for w = {(t, u). \<exists>mu r n. w_waits w t = Some (mu, r) \<and> w_owner w mu = Some (u, n) \<and> u \<noteq> t}"

definition deadlocked :: "world \<Rightarrow> bool" where
  "deadlocked w \<longleftrightarrow> (\<exists>t. (t, t) \<in> (waits_for w)\<^sup>+)"

text \<open>A program that takes its locks in the order of a ranking, and none twice.\<close>

definition in_order :: "(ptr \<Rightarrow> nat) \<Rightarrow> world \<Rightarrow> tid \<Rightarrow> ptr \<Rightarrow> bool" where
  "in_order rk w t mu \<longleftrightarrow> (\<forall>p. 0 < own w t p \<longrightarrow> rk p < rk mu)"

end
