(* ===== verification/Lock_Order.thy ===== *)
theory Lock_Order
  imports Lock_Monitors
begin

text \<open>
  The monitored locks in a world of threads: the tables agree with who owns which lock, the graph
  orders the locks of every waiting thread, and therefore a deadlock cannot arise unreported.
\<close>

section \<open>A table and the locks a thread owns\<close>

definition agree :: "(ptr \<Rightarrow> u64 option) \<Rightarrow> held_locks \<Rightarrow> (ptr \<Rightarrow> nat) \<Rightarrow> bool" where
  "agree ids h f \<longleftrightarrow> (\<forall>p i. ids p = Some i \<longrightarrow> held_count h i = int (f p)) \<and>
     (\<forall>(p, i)\<in>held_pairs h. ids p = Some i) \<and> (\<forall>p. 0 < f p \<longrightarrow> p \<noteq> 0 \<and> ids p \<noteq> None)"

lemma agreeD:
  assumes "agree ids h f"
  shows "ids p = Some i \<Longrightarrow> held_count h i = int (f p)" "(p, i) \<in> held_pairs h \<Longrightarrow> ids p = Some i"
    "0 < f p \<Longrightarrow> p \<noteq> 0" "0 < f p \<Longrightarrow> \<exists>i. ids p = Some i"
  using assms by (auto simp: agree_def)

lemma agreeI:
  assumes "\<And>p i. ids p = Some i \<Longrightarrow> held_count h i = int (f p)" "\<And>p i. (p, i) \<in> held_pairs h \<Longrightarrow> ids p = Some i"
    and "\<And>p. 0 < f p \<Longrightarrow> p \<noteq> 0" "\<And>p. 0 < f p \<Longrightarrow> ids p \<noteq> None"
  shows "agree ids h f"
  using assms unfolding agree_def by blast

lemma agree_cong:
  assumes "hl_locks h' = hl_locks h" "hl_n h' = hl_n h"
  shows "agree ids h' f = agree ids h f"
  using held_cong [OF assms] by (simp add: agree_def held_pairs_def)

lemma pairs_ids: "held_ids h = snd ` held_pairs h"
  by (force simp: held_ids_def held_pairs_def)

lemma agree_init: "agree ids (held_locks_init t) (\<lambda>_. 0)"
  by (simp add: agree_def held_init_inv) (simp add: held_pairs_def held_list_def held_locks_init_def)

lemma id_unique: "rep_inv g \<Longrightarrow> id_of g p = Some i \<Longrightarrow> id_of g q = Some i \<Longrightarrow> q = p"
  using graph.ids_law by blast

lemma id_nonzero: "rep_inv g \<Longrightarrow> id_of g p = Some i \<Longrightarrow> i \<noteq> 0"
proof
  assume inv: "rep_inv g" and i: "id_of g p = Some i" "i = 0"
  obtain x where "x \<in> live g" "i = node_id g x" using id_of_Some [OF inv, THEN iffD1, OF i(1)] by auto
  then show False using node_id_nonzero [OF inv, of x] live_less i(2) by (simp add: invalid_graph_id_def)
qed

text \<open>What a new id, a deletion, an acquisition and a release mean for the agreement.\<close>

lemma agree_new_id:
  assumes agr: "agree ids h f" and inv: "hl_inv h" and g: "rep_inv g" "id_of g = ids(mu \<mapsto> i)"
    and old: "ids mu = None \<or> ids mu = Some i"
  shows "agree (id_of g) h f"
proof (cases "ids mu")
  case None
  then have f0: "f mu = 0" using agreeD(4) [OF agr, of mu] by fastforce
  have "i \<notin> held_ids h"
  proof
    assume "i \<in> held_ids h"
    then obtain p where p: "(p, i) \<in> held_pairs h" by (auto simp: pairs_ids)
    have "ids p = Some i" by (rule agreeD(2) [OF agr p])
    then have "p = mu" using id_unique [OF g(1), of mu i p] g(2) by (cases "p = mu") simp_all
    then show False using \<open>ids p = Some i\<close> None by simp
  qed
  then have "held_count h i = int (f mu)" using f0 by (simp add: held_count_absent)
  moreover have "p \<noteq> mu" if "(p, j) \<in> held_pairs h" for p j
    using agreeD(2) [OF agr that] None by auto
  ultimately show ?thesis using agr f0 unfolding agree_def g(2) by auto
next
  case (Some j)
  then have "ids(mu \<mapsto> i) = ids" using old by auto
  then show ?thesis using agr g(2) by simp
qed

lemma agree_delete:
  assumes agr: "agree ids h f" and inv: "hl_inv h" and f0: "f mu = 0"
  shows "agree (ids(mu := None)) h f" "\<forall>l\<in>set (held_list h). lk_mu l \<noteq> mu"
proof -
  have no: "p \<noteq> mu" if "(p, i) \<in> held_pairs h" for p i
  proof
    assume "p = mu"
    then have "held_count h i = 0" using agreeD(1) [OF agr agreeD(2) [OF agr that]] f0 by simp
    moreover have "i \<in> held_ids h" using that by (force simp: pairs_ids)
    ultimately show False using held_count_pos [OF inv, of i] by simp
  qed
  show "agree (ids(mu := None)) h f"
  proof (rule agreeI)
    fix p i
    show "held_count h i = int (f p)" if "(ids(mu := None)) p = Some i"
      using that agreeD(1) [OF agr, of p i] by (simp split: if_splits)
    show "(ids(mu := None)) p = Some i" if "(p, i) \<in> held_pairs h"
      using agreeD(2) [OF agr that] no [OF that] by simp
    show "p \<noteq> 0" "(ids(mu := None)) p \<noteq> None" if "0 < f p"
      using that agreeD(3,4) [OF agr that] f0 by (cases "p = mu"; auto)+
  qed
  show "\<forall>l\<in>set (held_list h). lk_mu l \<noteq> mu"
  proof
    fix l assume "l \<in> set (held_list h)"
    then have "(lk_mu l, lk_id l) \<in> held_pairs h" by (simp add: held_pairs_def)
    then show "lk_mu l \<noteq> mu" by (rule no)
  qed
qed

lemma agree_recount:
  assumes agr: "agree ids h f" and uniq: "\<And>p q j. ids p = Some j \<Longrightarrow> ids q = Some j \<Longrightarrow> q = p"
    and mu: "ids mu = Some i" "mu \<noteq> 0"
    and h': "held_count h' = (held_count h)(i := int n)" "held_pairs h' \<subseteq> insert (mu, i) (held_pairs h)"
  shows "agree ids h' (f(mu := n))"
proof -
  show ?thesis
  proof (rule agreeI)
    fix p j
    show "held_count h' j = int ((f(mu := n)) p)" if p: "ids p = Some j"
    proof (cases "p = mu")
      case True
      then show ?thesis using p mu(1) h'(1) by simp
    next
      case False
      then have "j \<noteq> i" using uniq [OF mu(1), of p] p by blast
      then show ?thesis using False h'(1) agreeD(1) [OF agr p] by simp
    qed
    show "ids p = Some j" if p: "(p, j) \<in> held_pairs h'"
    proof (cases "(p, j) = (mu, i)")
      case False
      then have "(p, j) \<in> held_pairs h" using p h'(2) by blast
      then show ?thesis by (rule agreeD(2) [OF agr])
    qed (simp add: mu(1))
    show "p \<noteq> 0" "ids p \<noteq> None" if "0 < (f(mu := n)) p"
      using that mu agreeD(3,4) [OF agr, of p] by (cases "p = mu"; auto)+
  qed
qed

text \<open>The number of entries is the number of owned locks, and every owned lock is among the pointers.\<close>

lemma agree_size:
  assumes agr: "agree ids h f" and inv: "hl_inv h"
    and uniq: "\<And>p q j. ids p = Some j \<Longrightarrow> ids q = Some j \<Longrightarrow> q = p"
  shows "card {p. 0 < f p} = hl_n h"
proof -
  have "inj_on (\<lambda>p. the (ids p)) {p. 0 < f p}"
  proof (rule inj_onI)
    fix p q assume a: "p \<in> {p. 0 < f p}" "q \<in> {p. 0 < f p}" "the (ids p) = the (ids q)"
    obtain i j where "ids p = Some i" "ids q = Some j" using agreeD(4) [OF agr] a(1,2) by blast
    then show "p = q" using a(3) uniq by simp
  qed
  moreover have "(\<lambda>p. the (ids p)) ` {p. 0 < f p} = held_ids h"
  proof (intro equalityI subsetI)
    fix i assume "i \<in> (\<lambda>p. the (ids p)) ` {p. 0 < f p}"
    then obtain p where p: "0 < f p" "i = the (ids p)" by blast
    then have "ids p = Some i" using agreeD(4) [OF agr p(1)] by auto
    then show "i \<in> held_ids h" using agreeD(1) [OF agr, of p i] p(1) held_count_pos [OF inv, of i] by simp
  next
    fix i assume i: "i \<in> held_ids h"
    then obtain p where p: "ids p = Some i" using agreeD(2) [OF agr] by (force simp: pairs_ids)
    have "0 < held_count h i" using held_count_pos [OF inv] i by simp
    then have "0 < f p" using agreeD(1) [OF agr p] by simp
    then show "i \<in> (\<lambda>p. the (ids p)) ` {p. 0 < f p}" using p by force
  qed
  ultimately show ?thesis using card_held_ids [OF inv] card_image by metis
qed

lemma held_ptrs_own:
  assumes g: "rep_inv g" and agr: "agree (id_of g) h f" and inv: "hl_inv h"
  shows "set (held_ptrs g h) = {p. 0 < f p}"
proof -
  have look: "ptr_of g (lk_id l) = Some (lk_mu l) \<and> 0 < f (lk_mu l)" if "l \<in> set (held_list h)" for l
  proof -
    have "(lk_mu l, lk_id l) \<in> held_pairs h" using that by (simp add: held_pairs_def)
    then have id: "id_of g (lk_mu l) = Some (lk_id l)" by (rule agreeD(2) [OF agr])
    have "lk_id l \<in> held_ids h" using that by (simp add: held_ids_def)
    then have "0 < held_count h (lk_id l)" using held_count_pos [OF inv] by simp
    then have "0 < f (lk_mu l)" using agreeD(1) [OF agr id] by simp
    moreover have "lk_id l \<in> issued g" using graph.ids_law [OF g id] by blast
    ultimately show ?thesis using graph.ptr_law(1) [OF g _ id] by blast
  qed
  have "p \<in> set (held_ptrs g h)" if p: "0 < f p" for p
  proof -
    obtain i where i: "id_of g p = Some i" using agreeD(4) [OF agr p] by blast
    have "0 < held_count h i" using agreeD(1) [OF agr i] p by simp
    then have "i \<in> held_ids h" using held_count_pos [OF inv] by simp
    then obtain l where l: "l \<in> set (held_list h)" "lk_id l = i" by (auto simp: held_ids_def)
    have "i \<in> issued g" using graph.ids_law [OF g i] by blast
    then have "ptr_of g (lk_id l) = Some p" using graph.ptr_law(1) [OF g _ i] l(2) by simp
    then show ?thesis
      using l(1) agreeD(3) [OF agr p] by (auto simp: held_ptrs_def intro!: image_eqI [of _ _ l])
  qed
  moreover have "0 < f p" if "p \<in> set (held_ptrs g h)" for p
    using that look by (auto simp: held_ptrs_def)
  ultimately show ?thesis by blast
qed

section \<open>The invariant of the world\<close>

definition world_inv :: "world \<Rightarrow> bool" where
  "world_inv w \<longleftrightarrow> mon_inv (w_mon w) \<and>
     (\<forall>t. dm_ignore_lock (w_mon w) t = 0 \<and> dm_ignore_unlock (w_mon w) t = 0) \<and>
     (\<forall>t. agree (id_of (dm_graph (w_mon w))) (held_of (w_mon w) t) (own w t)) \<and>
     (\<forall>t mu r. w_waits w t = Some (mu, r) \<longrightarrow> mu \<noteq> 0 \<and> id_of (dm_graph (w_mon w)) mu = Some (snd r) \<and>
        dm_held (w_mon w) t \<noteq> None \<and> few_locks w t) \<and>
     (\<forall>p t n. w_owner w p = Some (t, n) \<longrightarrow> 0 < n) \<and> \<not> dm_other_errors (w_mon w)"

lemma world_invD:
  assumes "world_inv w"
  shows "mon_inv (w_mon w)" "dm_ignore_lock (w_mon w) t = 0" "dm_ignore_unlock (w_mon w) t = 0"
    "agree (id_of (dm_graph (w_mon w))) (held_of (w_mon w) t) (own w t)"
    "w_waits w t = Some (mu, r) \<Longrightarrow> mu \<noteq> 0" "w_waits w t = Some (mu, r) \<Longrightarrow> dm_held (w_mon w) t \<noteq> None"
    "w_waits w t = Some (mu, r) \<Longrightarrow> id_of (dm_graph (w_mon w)) mu = Some (snd r)"
    "w_waits w t = Some (mu, r) \<Longrightarrow> few_locks w t" "w_owner w p = Some (t, n) \<Longrightarrow> 0 < n"
    "\<not> dm_other_errors (w_mon w)" "rep_inv (dm_graph (w_mon w))" "hl_inv (held_of (w_mon w) t)"
  using assms mon_invD(1) [of "w_mon w"] table_fitsD(1) [OF held_of_fits, of "w_mon w" t]
  unfolding world_inv_def by blast+

lemma own_init: "own (world_init opts) t = (\<lambda>_. 0)"
  by (simp add: own_def world_init_def fun_eq_iff)

lemma world_init_inv: "world_inv (world_init opts)"
  unfolding world_inv_def own_init
  using agree_init [of "id_of (dm_graph (monitor_init opts))"] monitor_init_inv [of opts]
  by (simp add: world_init_def lock_system_init_def monitor_init_def held_of_def)

lemma own_fields [simp]:
  "own (w\<lparr>w_sys := s\<rparr>) = own w" "own (w\<lparr>w_waits := f\<rparr>) = own w"
  "few_locks (w\<lparr>w_sys := s\<rparr>) = few_locks w" "few_locks (w\<lparr>w_waits := f\<rparr>) = few_locks w"
  by (simp_all add: own_def few_locks_def fun_eq_iff)

lemma acquired_fields [simp]:
  "w_sys (acquired t mu w) = w_sys w" "w_waits (acquired t mu w) = w_waits w"
  "w_sys (released t mu w) = w_sys w" "w_waits (released t mu w) = w_waits w"
  by (simp_all add: acquired_def released_def)

lemma own_acquired:
  "available w t mu \<Longrightarrow>
   own (acquired t mu w) u = (if u = t then (own w t)(mu := own w t mu + 1) else own w u)"
  by (rule ext) (auto simp: own_def acquired_def available_def split: option.splits)

lemma own_released:
  "0 < own w t mu \<Longrightarrow>
   own (released t mu w) u = (if u = t then (own w t)(mu := own w t mu - 1) else own w u)"
  by (rule ext) (auto simp: own_def released_def split: option.splits if_splits)

lemma few_locks_hl:
  assumes "world_inv w"
  shows "few_locks w t \<longleftrightarrow> hl_n (held_of (w_mon w) t) < max_locks"
  using agree_size [OF world_invD(4,12) [OF assms], of t] id_unique [OF world_invD(11) [OF assms]]
  unfolding few_locks_def by metis

lemma few_locks_own: "own w' t = own w t \<Longrightarrow> few_locks w' t = few_locks w t"
  by (simp add: few_locks_def)

lemma held_of_eq: "dm_held m' t = dm_held m t \<Longrightarrow> held_of m' t = held_of m t"
  by (simp add: held_of_def)

text \<open>
  All steps but a deletion keep the known ids. The table of the acting thread changes by at most one
  counter, with the owner; the other threads' tables stay.
\<close>

lemma world_invI:
  assumes "mon_inv (w_mon w')" "dm_ignore_lock (w_mon w') = dm_ignore_lock (w_mon w)"
    "dm_ignore_unlock (w_mon w') = dm_ignore_unlock (w_mon w)" "dm_other_errors (w_mon w') = dm_other_errors (w_mon w)"
    and inv: "world_inv w"
    and agr: "\<And>u. agree (id_of (dm_graph (w_mon w'))) (held_of (w_mon w') u) (own w' u)"
    and waits: "\<And>u mu r. w_waits w' u = Some (mu, r) \<Longrightarrow> mu \<noteq> 0 \<and>
      id_of (dm_graph (w_mon w')) mu = Some (snd r) \<and> dm_held (w_mon w') u \<noteq> None \<and> few_locks w' u"
    and owner: "\<And>p u n. w_owner w' p = Some (u, n) \<Longrightarrow> 0 < n"
  shows "world_inv w'"
  using assms unfolding world_inv_def by (intro conjI allI impI) (auto simp: world_invD(2,3,10) [OF inv])

lemma on_monitor_Running:
  "on_monitor op s = Some (Running x s') \<longleftrightarrow>
   (\<exists>m'. op (lm_monitor s) = Some (Running x m') \<and> s' = s\<lparr>lm_monitor := m'\<rparr>)"
proof -
  have "map_state f r = Running x s' \<longleftrightarrow> (\<exists>m'. r = Running x m' \<and> s' = f m')" for f :: "monitor \<Rightarrow> lock_system" and r
    by (cases r) auto
  then show ?thesis by (auto simp: on_monitor_def)
qed

section \<open>Requesting\<close>

lemma waits_behind_own:
  assumes inv: "world_inv w" and g: "get_id t mu (dm_graph (w_mon w)) = Some (g, i)" "rep_inv g"
    and agr: "agree (id_of g) (held_of (w_mon w) t) (own w t)"
  shows "set (waits_behind t mu (w_mon w)) \<subseteq> {p. 0 < own w t p}"
    "own w t mu = 0 \<Longrightarrow> set (waits_behind t mu (w_mon w)) = {p. 0 < own w t p}"
proof -
  have ptrs: "set (held_ptrs g (held_of (w_mon w) t)) = {p. 0 < own w t p}"
    by (rule held_ptrs_own [OF g(2) agr world_invD(12) [OF inv]])
  have wb: "waits_behind t mu (w_mon w) = takeWhile (\<lambda>p. p \<noteq> mu) (held_ptrs g (held_of (w_mon w) t))"
    using g(1) by (simp add: waits_behind_def)
  show "set (waits_behind t mu (w_mon w)) \<subseteq> {p. 0 < own w t p}"
    unfolding wb ptrs [symmetric] by (auto dest: set_takeWhileD)
  show "set (waits_behind t mu (w_mon w)) = {p. 0 < own w t p}" if "own w t mu = 0"
  proof -
    have "mu \<notin> set (held_ptrs g (held_of (w_mon w) t))" using that unfolding ptrs by simp
    then have "takeWhile (\<lambda>p. p \<noteq> mu) (held_ptrs g (held_of (w_mon w) t)) = held_ptrs g (held_of (w_mon w) t)"
      unfolding takeWhile_eq_all_conv by auto
    then show ?thesis unfolding wb ptrs [symmetric] by (rule arg_cong [of _ _ set])
  qed
qed

lemma request_spec:
  assumes inv: "world_inv w" and t: "t = ce_tid env" and mu: "mu \<noteq> 0" and room: "has_room w"
    and few: "few_locks w t"
  defines "cyc \<equiv> closes_cycle t mu (w_mon w)" and "opts \<equiv> dm_options (w_mon w)"
  shows "\<exists>s gid. lock_begin env mu (w_sys w) = Some (if cyc \<and> m_on_error opts = On_Error_fail
      then Terminated (m_exit_code opts) s else Running (True, gid) s) \<and>
    world_inv (w\<lparr>w_sys := s, w_waits := (w_waits w)(t \<mapsto> (mu, (True, gid)))\<rparr>) \<and>
    arcs (dm_graph (lm_monitor s)) = arcs (dm_graph (w_mon w)) \<union> new_edges t mu (w_mon w) \<and>
    node_count (dm_graph (lm_monitor s)) \<le> node_count (dm_graph (w_mon w)) + 1 \<and>
    dm_options (lm_monitor s) = opts \<and>
    dm_potential_deadlocks (lm_monitor s) =
      (dm_potential_deadlocks (w_mon w) \<or> cyc \<and> m_on_error opts \<noteq> On_Error_fail) \<and>
    set (waits_behind t mu (w_mon w)) \<subseteq> {p. 0 < own w t p} \<and>
    (own w t mu = 0 \<longrightarrow> set (waits_behind t mu (w_mon w)) = {p. 0 < own w t p})"
proof -
  let ?m = "w_mon w"
  have few': "hl_n (held_of ?m t) < max_locks" using few few_locks_hl [OF inv] by simp
  have room': "int (node_count (dm_graph ?m)) < node_limit" using room by (simp add: has_room_def)
  obtain m' gid msg lg where b: "before_lock env mu ?m = Some (if cyc \<and> m_on_error opts = On_Error_fail
      then Terminated (m_exit_code opts) m' else Running (True, gid) m')"
      "\<exists>g. get_id t mu (dm_graph ?m) = Some (g, gid)"
    and m': "mon_inv m'" "arcs (dm_graph m') = arcs (dm_graph ?m) \<union> new_edges t mu ?m"
      "id_of (dm_graph m') = (id_of (dm_graph ?m))(mu \<mapsto> gid)"
      "id_of (dm_graph ?m) mu = None \<or> id_of (dm_graph ?m) mu = Some gid"
      "node_count (dm_graph m') \<le> node_count (dm_graph ?m) + 1" "dm_options m' = opts"
      "\<exists>h. dm_held m' t = Some h \<and> hl_locks h = hl_locks (held_of ?m t) \<and> hl_n h = hl_n (held_of ?m t)"
      "\<forall>u. u \<noteq> t \<longrightarrow> dm_held m' u = dm_held ?m u" "dm_ignore_lock m' = dm_ignore_lock ?m"
      "dm_ignore_unlock m' = dm_ignore_unlock ?m"
      "dm_potential_deadlocks m' = (dm_potential_deadlocks ?m \<or> cyc \<and> m_on_error opts \<noteq> On_Error_fail)"
      "dm_other_errors m' = dm_other_errors ?m"
    using before_lock_spec [OF world_invD(1) [OF inv] t world_invD(2) [OF inv] mu few' room']
    unfolding cyc_def opts_def by blast
  let ?s = "(count_lock_call (w_sys w))\<lparr>lm_monitor := m'\<rparr>"
  let ?w = "w\<lparr>w_sys := ?s, w_waits := (w_waits w)(t \<mapsto> (mu, (True, gid)))\<rparr>"
  obtain h where h: "dm_held m' t = Some h" "hl_locks h = hl_locks (held_of ?m t)" "hl_n h = hl_n (held_of ?m t)"
    using m'(7) by blast
  obtain g where g: "get_id t mu (dm_graph ?m) = Some (g, gid)" "rep_inv g"
    "id_of g = (id_of (dm_graph ?m))(mu \<mapsto> gid)"
    using get_id_correct [OF world_invD(11) [OF inv] room', of t mu] b(2) by (auto simp: got_id_def)
  have new: "agree (id_of (dm_graph m')) (held_of ?m u) (own w u)" for u
    by (rule agree_new_id [OF world_invD(4,12) [OF inv] mon_invD(1) [OF m'(1)] m'(3,4)])
  have "world_inv ?w"
  proof (rule world_invI [OF _ _ _ _ inv])
    show "mon_inv (w_mon ?w)" "dm_ignore_lock (w_mon ?w) = dm_ignore_lock ?m"
      "dm_ignore_unlock (w_mon ?w) = dm_ignore_unlock ?m" "dm_other_errors (w_mon ?w) = dm_other_errors ?m"
      using m'(1,9,10,12) by simp_all
    show "agree (id_of (dm_graph (w_mon ?w))) (held_of (w_mon ?w) u) (own ?w u)" for u
      using new [of u] agree_cong [OF h(2,3)] h(1) m'(8) held_of_eq [of m' u ?m]
      by (cases "u = t") (simp_all add: held_of_def)
    show "nu \<noteq> 0 \<and> id_of (dm_graph (w_mon ?w)) nu = Some (snd r) \<and> dm_held (w_mon ?w) u \<noteq> None \<and> few_locks ?w u"
      if "w_waits ?w u = Some (nu, r)" for u nu r
      using that mu few h(1) m'(3,4,8) world_invD(5-8) [OF inv, of u nu r] by (cases "u = t") auto
    show "0 < n" if "w_owner ?w p = Some (u, n)" for p u n using that world_invD(9) [OF inv, of p u n] by simp
  qed
  moreover have "lock_begin env mu (w_sys w) = Some (if cyc \<and> m_on_error opts = On_Error_fail
      then Terminated (m_exit_code opts) ?s else Running (True, gid) ?s)"
    using b(1) by (simp add: lock_begin_def on_monitor_def count_lock_call_def)
  moreover have "agree (id_of g) (held_of ?m t) (own w t)" using new [of t] m'(3) g(3) by simp
  ultimately show ?thesis
    using waits_behind_own [OF inv g(1,2)] m'(2,5,6,11) by (intro exI [of _ ?s] exI [of _ gid]) simp
qed

section \<open>Entering, leaving, trying, deleting\<close>

text \<open>The owner's counter and the table change together.\<close>

lemma acquire_inv:
  assumes inv: "world_inv w" and idle: "w_waits w t = None \<or> (\<exists>r. w_waits w t = Some (mu, r))"
    and av: "available w t mu"
    and m': "mon_inv (lm_monitor s)" "id_of (dm_graph (lm_monitor s)) = id_of (dm_graph (w_mon w))"
      "dm_ignore_lock (lm_monitor s) = dm_ignore_lock (w_mon w)"
      "dm_ignore_unlock (lm_monitor s) = dm_ignore_unlock (w_mon w)"
      "dm_other_errors (lm_monitor s) = dm_other_errors (w_mon w)"
      "\<And>u. u \<noteq> t \<Longrightarrow> dm_held (lm_monitor s) u = dm_held (w_mon w) u"
    and id: "id_of (dm_graph (w_mon w)) mu = Some i" and mu: "mu \<noteq> 0"
    and cnt: "held_count (held_of (lm_monitor s) t) =
      (held_count (held_of (w_mon w) t))(i := held_count (held_of (w_mon w) t) i + 1)"
      "held_pairs (held_of (lm_monitor s) t) \<subseteq> insert (mu, i) (held_pairs (held_of (w_mon w) t))"
  shows "world_inv (acquired t mu (w\<lparr>w_sys := s, w_waits := (w_waits w)(t := None)\<rparr>))"
    (is "world_inv ?w")
proof -
  have "available (w\<lparr>w_sys := s, w_waits := (w_waits w)(t := None)\<rparr>) t mu"
    using av by (simp add: available_def)
  note own = own_acquired [OF this]
  note agr = world_invD(4) [OF inv] and uniq = id_unique [OF world_invD(11) [OF inv]]
  show ?thesis
  proof (rule world_invI [OF _ _ _ _ inv])
    show "mon_inv (w_mon ?w)" "dm_ignore_lock (w_mon ?w) = dm_ignore_lock (w_mon w)"
      "dm_ignore_unlock (w_mon ?w) = dm_ignore_unlock (w_mon w)"
      "dm_other_errors (w_mon ?w) = dm_other_errors (w_mon w)"
      using m'(1,3-5) by simp_all
    show "agree (id_of (dm_graph (w_mon ?w))) (held_of (w_mon ?w) u) (own ?w u)" for u
    proof (cases "u = t")
      case True
      have "held_count (held_of (lm_monitor s) t) =
          (held_count (held_of (w_mon w) t))(i := int (own w t mu + 1))"
        unfolding cnt(1) agreeD(1) [OF agr id, of t] by (simp add: add.commute)
      then have "agree (id_of (dm_graph (w_mon w))) (held_of (lm_monitor s) t) ((own w t)(mu := own w t mu + 1))"
        by (intro agree_recount [OF agr _ id mu _ cnt(2)] uniq)
      then show ?thesis using True m'(2) own by simp
    next
      case False
      then show ?thesis using own m'(2,6) agr [of u] held_of_eq [of "lm_monitor s" u "w_mon w"] by simp
    qed
    show "nu \<noteq> 0 \<and> id_of (dm_graph (w_mon ?w)) nu = Some (snd r) \<and> dm_held (w_mon ?w) u \<noteq> None \<and> few_locks ?w u"
      if "w_waits ?w u = Some (nu, r)" for u nu r
    proof -
      have u: "u \<noteq> t" "w_waits w u = Some (nu, r)" using that by (simp_all split: if_splits)
      then have "few_locks ?w u = few_locks w u" using own by (intro few_locks_own) simp
      then show ?thesis using u m'(2,6) world_invD(5-8) [OF inv u(2)] by simp
    qed
    show "0 < n" if "w_owner ?w p = Some (u, n)" for p u n
      using that world_invD(9) [OF inv, of p u n] by (auto simp: acquired_def split: if_splits)
  qed
qed

lemma enter_spec:
  assumes inv: "world_inv w" and waits: "w_waits w t = Some (mu, r)" and av: "available w t mu"
    and c: "own w t mu + 1 < 2 ^ 31"
  shows "\<exists>s. lock_end t mu r (w_sys w) = Some (Running () s) \<and>
    world_inv (acquired t mu (w\<lparr>w_sys := s, w_waits := (w_waits w)(t := None)\<rparr>)) \<and>
    dm_graph (lm_monitor s) = dm_graph (w_mon w) \<and> dm_options (lm_monitor s) = dm_options (w_mon w) \<and>
    dm_potential_deadlocks (lm_monitor s) = dm_potential_deadlocks (w_mon w)"
proof -
  let ?m = "w_mon w" and ?i = "snd r"
  note id = world_invD(7) [OF inv waits] and mu = world_invD(5) [OF inv waits]
  obtain h where h: "dm_held ?m t = Some h" using world_invD(6) [OF inv waits] by blast
  then have hof: "held_of ?m t = h" by (simp add: held_of_def)
  have "hl_n h < max_locks" using world_invD(8) [OF inv waits] few_locks_hl [OF inv] hof by simp
  moreover have "?i \<in> issued (dm_graph ?m)" using graph.ids_law [OF world_invD(11) [OF inv] id] by blast
  moreover have "held_count h ?i + 1 < 2 ^ 31"
    using agreeD(1) [OF world_invD(4) [OF inv] id, of t] hof c by simp
  ultimately obtain h' where h': "in_lock t mu ?i ?m = Some (Running () (?m\<lparr>dm_held := (dm_held ?m)(t \<mapsto> h')\<rparr>))"
    "mon_inv (?m\<lparr>dm_held := (dm_held ?m)(t \<mapsto> h')\<rparr>)" "held_count h' = (held_count h)(?i := held_count h ?i + 1)"
    "held_pairs h' \<subseteq> insert (mu, ?i) (held_pairs h)"
    using in_lock_spec [OF world_invD(1) [OF inv] h, of ?i mu] by blast
  let ?s = "(w_sys w)\<lparr>lm_monitor := ?m\<lparr>dm_held := (dm_held ?m)(t \<mapsto> h')\<rparr>\<rparr>"
  have nz: "?i \<noteq> 0" by (rule id_nonzero [OF world_invD(11) [OF inv] id])
  have "world_inv (acquired t mu (w\<lparr>w_sys := ?s, w_waits := (w_waits w)(t := None)\<rparr>))"
    by (rule acquire_inv [OF inv _ av _ _ _ _ _ _ id mu])
      (use waits h'(2-4) hof in \<open>simp_all add: held_of_def\<close>)
  moreover have "lock_end t mu r (w_sys w) = Some (Running () ?s)"
    using nz h'(1) by (simp add: lock_end_def on_monitor_Running)
  ultimately show ?thesis by (intro exI [of _ ?s]) simp
qed

lemma try_begin_spec:
  assumes inv: "world_inv w" and t: "t = ce_tid env" and mu: "mu \<noteq> 0" and room: "has_room w"
  shows "\<exists>s gid. on_monitor (before_try_lock env mu) (count_lock_call (w_sys w)) = Some (Running (True, gid) s) \<and>
    gid \<noteq> 0 \<and> id_of (dm_graph (lm_monitor s)) mu = Some gid \<and> dm_held (lm_monitor s) t \<noteq> None \<and>
    world_inv (w\<lparr>w_sys := s\<rparr>) \<and> arcs (dm_graph (lm_monitor s)) = arcs (dm_graph (w_mon w)) \<and>
    dm_options (lm_monitor s) = dm_options (w_mon w) \<and>
    dm_potential_deadlocks (lm_monitor s) = dm_potential_deadlocks (w_mon w)"
proof -
  let ?m = "w_mon w"
  have room': "int (node_count (dm_graph ?m)) < node_limit" using room by (simp add: has_room_def)
  obtain m' gid where b: "before_try_lock env mu ?m = Some (Running (True, gid) m')"
    and m': "mon_inv m'" "arcs (dm_graph m') = arcs (dm_graph ?m)"
      "id_of (dm_graph m') = (id_of (dm_graph ?m))(mu \<mapsto> gid)"
      "id_of (dm_graph ?m) mu = None \<or> id_of (dm_graph ?m) mu = Some gid"
      "\<exists>h. dm_held m' t = Some h \<and> hl_locks h = hl_locks (held_of ?m t) \<and> hl_n h = hl_n (held_of ?m t)"
      "\<forall>u. u \<noteq> t \<longrightarrow> dm_held m' u = dm_held ?m u" "dm_options m' = dm_options ?m"
      "dm_ignore_lock m' = dm_ignore_lock ?m" "dm_ignore_unlock m' = dm_ignore_unlock ?m"
      "dm_potential_deadlocks m' = dm_potential_deadlocks ?m" "dm_other_errors m' = dm_other_errors ?m"
    using before_try_lock_spec [OF world_invD(1) [OF inv] t world_invD(2) [OF inv] mu room'] by blast
  let ?s = "(count_lock_call (w_sys w))\<lparr>lm_monitor := m'\<rparr>"
  obtain h where h: "dm_held m' t = Some h" "hl_locks h = hl_locks (held_of ?m t)" "hl_n h = hl_n (held_of ?m t)"
    using m'(5) by blast
  have new: "agree (id_of (dm_graph m')) (held_of ?m u) (own w u)" for u
    by (rule agree_new_id [OF world_invD(4,12) [OF inv] mon_invD(1) [OF m'(1)] m'(3,4)])
  have "world_inv (w\<lparr>w_sys := ?s\<rparr>)" (is "world_inv ?w")
  proof (rule world_invI [OF _ _ _ _ inv])
    show "mon_inv (w_mon ?w)" "dm_ignore_lock (w_mon ?w) = dm_ignore_lock ?m"
      "dm_ignore_unlock (w_mon ?w) = dm_ignore_unlock ?m" "dm_other_errors (w_mon ?w) = dm_other_errors ?m"
      using m'(1,8,9,11) by simp_all
    show "agree (id_of (dm_graph (w_mon ?w))) (held_of (w_mon ?w) u) (own ?w u)" for u
      using new [of u] agree_cong [OF h(2,3)] h(1) m'(6) held_of_eq [of m' u ?m]
      by (cases "u = t") (simp_all add: held_of_def)
    show "nu \<noteq> 0 \<and> id_of (dm_graph (w_mon ?w)) nu = Some (snd r) \<and> dm_held (w_mon ?w) u \<noteq> None \<and> few_locks ?w u"
      if "w_waits ?w u = Some (nu, r)" for u nu r
      using that h(1) m'(3,4,6) world_invD(5-8) [OF inv, of u nu r] by (cases "u = t") auto
    show "0 < n" if "w_owner ?w p = Some (u, n)" for p u n using that world_invD(9) [OF inv, of p u n] by simp
  qed
  moreover have "gid \<noteq> 0" using id_nonzero [OF mon_invD(1) [OF m'(1)], of mu gid] m'(3) by simp
  moreover have "on_monitor (before_try_lock env mu) (count_lock_call (w_sys w)) = Some (Running (True, gid) ?s)"
    using b by (simp add: on_monitor_Running count_lock_call_def)
  ultimately show ?thesis using m'(2,3,7,10) h(1) by (intro exI [of _ ?s] exI [of _ gid]) simp
qed

lemma try_success_spec:
  assumes inv: "world_inv w" and t: "t = ce_tid env" and idle: "w_waits w t = None" and mu: "mu \<noteq> 0"
    and room: "has_room w" and few: "few_locks w t" and av: "available w t mu" and c: "own w t mu + 1 < 2 ^ 31"
  shows "\<exists>s. buginsight_tryenter_critical_section env mu True (w_sys w) = Some (Running True s) \<and>
    world_inv (acquired t mu (w\<lparr>w_sys := s\<rparr>)) \<and> arcs (dm_graph (lm_monitor s)) = arcs (dm_graph (w_mon w)) \<and>
    dm_options (lm_monitor s) = dm_options (w_mon w) \<and>
    dm_potential_deadlocks (lm_monitor s) = dm_potential_deadlocks (w_mon w)"
proof -
  obtain s gid where s: "on_monitor (before_try_lock env mu) (count_lock_call (w_sys w)) = Some (Running (True, gid) s)"
    "gid \<noteq> 0" "id_of (dm_graph (lm_monitor s)) mu = Some gid" "dm_held (lm_monitor s) t \<noteq> None"
    "world_inv (w\<lparr>w_sys := s\<rparr>)" "arcs (dm_graph (lm_monitor s)) = arcs (dm_graph (w_mon w))"
    "dm_options (lm_monitor s) = dm_options (w_mon w)"
    "dm_potential_deadlocks (lm_monitor s) = dm_potential_deadlocks (w_mon w)"
    using try_begin_spec [OF inv t mu room] by blast
  let ?w = "w\<lparr>w_sys := s, w_waits := (w_waits w)(t \<mapsto> (mu, (True, gid)))\<rparr>"
  have "world_inv ?w"
    unfolding world_inv_def
    using s(3,4) mu few world_invD(1-4,9,10) [OF s(5)] world_invD(5-8) [OF s(5)]
    by (auto simp: own_def)
  moreover have "available ?w t mu" "own ?w t mu + 1 < 2 ^ 31" using av c by (simp_all add: available_def)
  ultimately obtain s' where s': "lock_end t mu (True, gid) s = Some (Running () s')"
    "world_inv (acquired t mu (?w\<lparr>w_sys := s', w_waits := (w_waits ?w)(t := None)\<rparr>))"
    "dm_graph (lm_monitor s') = dm_graph (lm_monitor s)" "dm_options (lm_monitor s') = dm_options (lm_monitor s)"
    "dm_potential_deadlocks (lm_monitor s') = dm_potential_deadlocks (lm_monitor s)"
    using enter_spec [of ?w t mu "(True, gid)"] by auto
  have "?w\<lparr>w_sys := s', w_waits := (w_waits ?w)(t := None)\<rparr> = w\<lparr>w_sys := s'\<rparr>"
    using idle by (simp add: fun_upd_idem)
  moreover have "buginsight_tryenter_critical_section env mu True (w_sys w) = Some (Running True s')"
    using s(1,2) s'(1) by (simp add: buginsight_tryenter_critical_section_def try_lock_def and_then_def
        return_value_def lock_end_def t)
  ultimately show ?thesis using s'(2-5) s(6-8) by (intro exI [of _ s']) simp
qed

lemma try_failure_spec:
  assumes inv: "world_inv w" and t: "t = ce_tid env" and mu: "mu \<noteq> 0" and room: "has_room w"
  shows "\<exists>s. buginsight_tryenter_critical_section env mu False (w_sys w) = Some (Running False s) \<and>
    world_inv (w\<lparr>w_sys := s\<rparr>) \<and> arcs (dm_graph (lm_monitor s)) = arcs (dm_graph (w_mon w)) \<and>
    dm_options (lm_monitor s) = dm_options (w_mon w) \<and>
    dm_potential_deadlocks (lm_monitor s) = dm_potential_deadlocks (w_mon w)"
  using try_begin_spec [OF inv t mu room]
  by (auto simp: buginsight_tryenter_critical_section_def try_lock_def and_then_def return_value_def)

lemma leave_spec:
  assumes inv: "world_inv w" and t: "t = ce_tid env" and idle: "w_waits w t = None" and held: "0 < own w t mu"
  shows "\<exists>s. buginsight_leave_critical_section env mu (w_sys w) = Some (Running () s) \<and>
    world_inv (released t mu (w\<lparr>w_sys := s\<rparr>)) \<and> dm_graph (lm_monitor s) = dm_graph (w_mon w) \<and>
    dm_options (lm_monitor s) = dm_options (w_mon w) \<and>
    dm_potential_deadlocks (lm_monitor s) = dm_potential_deadlocks (w_mon w)"
proof -
  let ?m = "w_mon w"
  note agr = world_invD(4) [OF inv] and uniq = id_unique [OF world_invD(11) [OF inv]]
  obtain i where i: "id_of (dm_graph ?m) mu = Some i" using agreeD(4) [OF agr held] by blast
  have cnt: "held_count (held_of ?m t) i = int (own w t mu)" by (rule agreeD(1) [OF agr i])
  obtain m' where m': "after_lock env mu ?m = Some (Running () m')" "mon_inv m'" "dm_graph m' = dm_graph ?m"
    "held_count (held_of m' t) = (held_count (held_of ?m t))(i := held_count (held_of ?m t) i - 1)"
    "held_pairs (held_of m' t) \<subseteq> held_pairs (held_of ?m t)"
    "\<forall>u. u \<noteq> t \<longrightarrow> dm_held m' u = dm_held ?m u" "dm_options m' = dm_options ?m"
    "dm_ignore_lock m' = dm_ignore_lock ?m" "dm_ignore_unlock m' = dm_ignore_unlock ?m"
    "dm_potential_deadlocks m' = dm_potential_deadlocks ?m" "dm_other_errors m' = dm_other_errors ?m"
    using after_lock_spec [OF world_invD(1) [OF inv] t world_invD(3) [OF inv] i] cnt held by auto
  let ?s = "(count_lock_call (w_sys w))\<lparr>lm_monitor := m'\<rparr>"
  have h0: "0 < own (w\<lparr>w_sys := ?s\<rparr>) t mu" using held by simp
  note own = own_released [OF h0]
  have "world_inv (released t mu (w\<lparr>w_sys := ?s\<rparr>))" (is "world_inv ?w")
  proof (rule world_invI [OF _ _ _ _ inv])
    show "mon_inv (w_mon ?w)" "dm_ignore_lock (w_mon ?w) = dm_ignore_lock ?m"
      "dm_ignore_unlock (w_mon ?w) = dm_ignore_unlock ?m" "dm_other_errors (w_mon ?w) = dm_other_errors ?m"
      using m'(2,8,9,11) by simp_all
    show "agree (id_of (dm_graph (w_mon ?w))) (held_of (w_mon ?w) u) (own ?w u)" for u
    proof (cases "u = t")
      case True
      have "int (own w t mu - 1) = held_count (held_of ?m t) i - 1" using cnt held by simp
      then have "agree (id_of (dm_graph ?m)) (held_of m' t) ((own w t)(mu := own w t mu - 1))"
        using m'(5) agreeD(3) [OF agr held]
        by (intro agree_recount [OF agr uniq i]) (auto simp: m'(4))
      then show ?thesis using True m'(3) own by simp
    next
      case False
      then show ?thesis using own m'(3,6) agr [of u] held_of_eq [of m' u ?m] by simp
    qed
    show "nu \<noteq> 0 \<and> id_of (dm_graph (w_mon ?w)) nu = Some (snd r) \<and> dm_held (w_mon ?w) u \<noteq> None \<and> few_locks ?w u"
      if "w_waits ?w u = Some (nu, r)" for u nu r
    proof -
      have u: "u \<noteq> t" "w_waits w u = Some (nu, r)" using that idle by auto
      then have "few_locks ?w u = few_locks w u" using own by (intro few_locks_own) simp
      then show ?thesis using u m'(3,6) world_invD(5-8) [OF inv u(2)] by simp
    qed
    show "0 < n" if "w_owner ?w p = Some (u, n)" for p u n
      using that world_invD(9) [OF inv, of p u n] held by (auto simp: released_def split: if_splits)
  qed
  moreover have "buginsight_leave_critical_section env mu (w_sys w) = Some (Running () ?s)"
    using m'(1) by (simp add: buginsight_leave_critical_section_def on_monitor_Running count_lock_call_def)
  ultimately show ?thesis using m'(3,7,10) by (intro exI [of _ ?s]) simp
qed

lemma delete_spec:
  assumes inv: "world_inv w" and free: "w_owner w mu = None" and unused: "\<forall>t r. w_waits w t \<noteq> Some (mu, r)"
    and idle: "w_waits w (ce_tid env) = None"
  shows "\<exists>s. buginsight_delete_critical_section env mu (w_sys w) = Some (Running () s) \<and>
    world_inv (w\<lparr>w_sys := s\<rparr>) \<and> dm_options (lm_monitor s) = dm_options (w_mon w) \<and>
    arcs (dm_graph (lm_monitor s)) = {(a, b). (a, b) \<in> arcs (dm_graph (w_mon w)) \<and> a \<noteq> mu \<and> b \<noteq> mu} \<and>
    dm_potential_deadlocks (lm_monitor s) = dm_potential_deadlocks (w_mon w)"
proof -
  let ?m = "w_mon w" and ?t = "ce_tid env"
  have f0: "own w u mu = 0" for u using free by (simp add: own_def)
  note del = agree_delete [OF world_invD(4,12) [OF inv] f0]
  obtain m' where m': "delete_lock env mu ?m = Some (Running () m')" "mon_inv m'"
    "arcs (dm_graph m') = {(a, b). (a, b) \<in> arcs (dm_graph ?m) \<and> a \<noteq> mu \<and> b \<noteq> mu}"
    "id_of (dm_graph m') = (id_of (dm_graph ?m))(mu := None)"
    "hl_locks (held_of m' ?t) = hl_locks (held_of ?m ?t)" "hl_n (held_of m' ?t) = hl_n (held_of ?m ?t)"
    "\<forall>u. u \<noteq> ?t \<longrightarrow> dm_held m' u = dm_held ?m u" "dm_options m' = dm_options ?m"
    "dm_ignore_lock m' = dm_ignore_lock ?m" "dm_ignore_unlock m' = dm_ignore_unlock ?m"
    "dm_potential_deadlocks m' = dm_potential_deadlocks ?m" "dm_other_errors m' = dm_other_errors ?m"
    using delete_lock_spec [OF world_invD(1) [OF inv] refl del(2)] by blast
  let ?s = "(count_lock_call (w_sys w))\<lparr>lm_monitor := m', lm_deleted := lm_deleted (w_sys w) + 1\<rparr>"
  have "world_inv (w\<lparr>w_sys := ?s\<rparr>)" (is "world_inv ?w")
  proof (rule world_invI [OF _ _ _ _ inv])
    show "mon_inv (w_mon ?w)" "dm_ignore_lock (w_mon ?w) = dm_ignore_lock ?m"
      "dm_ignore_unlock (w_mon ?w) = dm_ignore_unlock ?m" "dm_other_errors (w_mon ?w) = dm_other_errors ?m"
      using m'(2,9,10,12) by simp_all
    show "agree (id_of (dm_graph (w_mon ?w))) (held_of (w_mon ?w) u) (own ?w u)" for u
      using del(1) [of u] agree_cong [OF m'(5,6)] m'(4,7) held_of_eq [of m' u ?m] by (cases "u = ?t") simp_all
    show "nu \<noteq> 0 \<and> id_of (dm_graph (w_mon ?w)) nu = Some (snd r) \<and> dm_held (w_mon ?w) u \<noteq> None \<and> few_locks ?w u"
      if w: "w_waits ?w u = Some (nu, r)" for u nu r
    proof -
      have u: "w_waits w u = Some (nu, r)" using w by simp
      then have "nu \<noteq> mu" using unused by blast
      moreover have "u \<noteq> ?t" using u idle by auto
      ultimately have "nu \<noteq> mu" "u \<noteq> ?t" by simp_all
      then show ?thesis using u m'(4,7) world_invD(5-8) [OF inv u] by simp
    qed
    show "0 < n" if "w_owner ?w p = Some (u, n)" for p u n using that world_invD(9) [OF inv, of p u n] by simp
  qed
  moreover have "buginsight_delete_critical_section env mu (w_sys w) = Some (Running () ?s)"
    using m'(1) by (simp add: buginsight_delete_critical_section_def and_then_def on_monitor_def count_lock_call_def)
  ultimately show ?thesis using m'(3,8,11) by (intro exI [of _ ?s]) simp
qed

section \<open>What a step does\<close>

text \<open>The three kinds of steps: a request, a change of ownership by one thread, a deletion.\<close>

definition requested :: "tid \<Rightarrow> ptr \<Rightarrow> world \<Rightarrow> world \<Rightarrow> bool" where
  "requested t mu w w' \<longleftrightarrow> own w' = own w \<and> (\<exists>r. w_waits w' = (w_waits w)(t \<mapsto> (mu, r))) \<and>
     arcs (dm_graph (w_mon w')) = arcs (dm_graph (w_mon w)) \<union> new_edges t mu (w_mon w) \<and>
     dm_potential_deadlocks (w_mon w') = (dm_potential_deadlocks (w_mon w) \<or> closes_cycle t mu (w_mon w)) \<and>
     set (waits_behind t mu (w_mon w)) \<subseteq> {p. 0 < own w t p} \<and>
     (own w t mu = 0 \<longrightarrow> set (waits_behind t mu (w_mon w)) = {p. 0 < own w t p}) \<and>
     (m_on_error (dm_options (w_mon w)) = On_Error_fail \<longrightarrow> \<not> closes_cycle t mu (w_mon w))"

definition moved :: "tid \<Rightarrow> world \<Rightarrow> world \<Rightarrow> bool" where
  "moved t w w' \<longleftrightarrow> w_waits w' t = None \<and> (\<forall>u. u \<noteq> t \<longrightarrow> own w' u = own w u \<and> w_waits w' u = w_waits w u) \<and>
     arcs (dm_graph (w_mon w')) = arcs (dm_graph (w_mon w)) \<and>
     dm_potential_deadlocks (w_mon w') = dm_potential_deadlocks (w_mon w)"

definition forgotten :: "ptr \<Rightarrow> world \<Rightarrow> world \<Rightarrow> bool" where
  "forgotten mu w w' \<longleftrightarrow> w_owner w mu = None \<and> (\<forall>t r. w_waits w t \<noteq> Some (mu, r)) \<and>
     own w' = own w \<and> w_waits w' = w_waits w \<and>
     arcs (dm_graph (w_mon w')) = {(a, b). (a, b) \<in> arcs (dm_graph (w_mon w)) \<and> a \<noteq> mu \<and> b \<noteq> mu} \<and>
     dm_potential_deadlocks (w_mon w') = dm_potential_deadlocks (w_mon w)"

lemma step_effect:
  assumes "lock_step may w w'" "world_inv w"
  shows "world_inv w' \<and> dm_options (w_mon w') = dm_options (w_mon w) \<and>
    ((\<exists>t mu. may w t mu \<and> requested t mu w w') \<or> (\<exists>t. moved t w w') \<or> (\<exists>mu. forgotten mu w w'))"
  using assms(1)
proof cases
  case (Request env mu r s)
  let ?t = "ce_tid env" and ?opts = "dm_options (w_mon w)"
  obtain s' gid where s': "lock_begin env mu (w_sys w) =
      Some (if closes_cycle ?t mu (w_mon w) \<and> m_on_error ?opts = On_Error_fail
        then Terminated (m_exit_code ?opts) s' else Running (True, gid) s')"
    "world_inv (w\<lparr>w_sys := s', w_waits := (w_waits w)(?t \<mapsto> (mu, (True, gid)))\<rparr>)"
    "arcs (dm_graph (lm_monitor s')) = arcs (dm_graph (w_mon w)) \<union> new_edges ?t mu (w_mon w)"
    "dm_options (lm_monitor s') = ?opts"
    "dm_potential_deadlocks (lm_monitor s') = (dm_potential_deadlocks (w_mon w) \<or>
      closes_cycle ?t mu (w_mon w) \<and> m_on_error ?opts \<noteq> On_Error_fail)"
    "set (waits_behind ?t mu (w_mon w)) \<subseteq> {p. 0 < own w ?t p}"
    "own w ?t mu = 0 \<longrightarrow> set (waits_behind ?t mu (w_mon w)) = {p. 0 < own w ?t p}"
    using request_spec [OF assms(2) refl [of "ce_tid env"] Request(3,5,6)]
    by (elim exE conjE) (rule that, assumption+)
  then have run: "\<not> (closes_cycle ?t mu (w_mon w) \<and> m_on_error ?opts = On_Error_fail)" "s = s'" "r = (True, gid)"
    using Request(7) by (simp_all split: if_splits)
  have "requested ?t mu w w'" unfolding requested_def using s'(3,5-7) run by (auto simp: Request(1))
  then show ?thesis using s'(2,4) run(2,3) Request(4) by (auto simp: Request(1))
next
  case (Enter t mu r s)
  from enter_spec [OF assms(2) Enter(2-4)] Enter(5) have
    "world_inv w'" "dm_graph (lm_monitor s) = dm_graph (w_mon w)" "dm_options (lm_monitor s) = dm_options (w_mon w)"
    "dm_potential_deadlocks (lm_monitor s) = dm_potential_deadlocks (w_mon w)"
    unfolding Enter(1) by auto
  moreover have "available (w\<lparr>w_sys := s, w_waits := (w_waits w)(t := None)\<rparr>) t mu"
    using Enter(3) by (simp add: available_def)
  ultimately show ?thesis by (auto simp: Enter(1) moved_def own_acquired)
next
  case (Leave env mu s)
  from leave_spec [OF assms(2) refl Leave(2,3)] Leave(4) have
    "world_inv w'" "dm_graph (lm_monitor s) = dm_graph (w_mon w)" "dm_options (lm_monitor s) = dm_options (w_mon w)"
    "dm_potential_deadlocks (lm_monitor s) = dm_potential_deadlocks (w_mon w)"
    unfolding Leave(1) by auto
  moreover have "0 < own (w\<lparr>w_sys := s\<rparr>) (ce_tid env) mu" using Leave(3) by simp
  ultimately show ?thesis using Leave(2) by (auto simp: Leave(1) moved_def own_released)
next
  case (Try_Succeeds env mu s)
  from try_success_spec [OF assms(2) refl Try_Succeeds(2-7)] Try_Succeeds(8) have
    "world_inv w'" "arcs (dm_graph (lm_monitor s)) = arcs (dm_graph (w_mon w))"
    "dm_options (lm_monitor s) = dm_options (w_mon w)"
    "dm_potential_deadlocks (lm_monitor s) = dm_potential_deadlocks (w_mon w)"
    unfolding Try_Succeeds(1) by auto
  moreover have "available (w\<lparr>w_sys := s\<rparr>) (ce_tid env) mu"
    using Try_Succeeds(6) by (simp add: available_def)
  ultimately show ?thesis using Try_Succeeds(2) by (auto simp: Try_Succeeds(1) moved_def own_acquired)
next
  case (Try_Fails env mu s)
  from try_failure_spec [OF assms(2) refl [of "ce_tid env"] Try_Fails(3,4)] Try_Fails(5) have
    "world_inv w'" "arcs (dm_graph (lm_monitor s)) = arcs (dm_graph (w_mon w))"
    "dm_options (lm_monitor s) = dm_options (w_mon w)"
    "dm_potential_deadlocks (lm_monitor s) = dm_potential_deadlocks (w_mon w)"
    unfolding Try_Fails(1) by auto
  then show ?thesis using Try_Fails(2) by (auto simp: Try_Fails(1) moved_def)
next
  case (Delete mu env s)
  from delete_spec [OF assms(2) Delete(2-4)] Delete(5) have
    "world_inv w'" "dm_options (lm_monitor s) = dm_options (w_mon w)"
    "arcs (dm_graph (lm_monitor s)) = {(a, b). (a, b) \<in> arcs (dm_graph (w_mon w)) \<and> a \<noteq> mu \<and> b \<noteq> mu}"
    "dm_potential_deadlocks (lm_monitor s) = dm_potential_deadlocks (w_mon w)"
    unfolding Delete(1) by auto
  moreover from this have "forgotten mu w w'"
    using Delete(2,3) by (simp add: Delete(1) forgotten_def)
  ultimately show ?thesis by (auto simp: Delete(1))
qed

text \<open>While nothing was reported, the graph orders what a waiting thread holds before what it waits for.\<close>

definition waits_ordered :: "world \<Rightarrow> bool" where
  "waits_ordered w \<longleftrightarrow> dm_potential_deadlocks (w_mon w) \<or>
     (\<forall>t mu r p. w_waits w t = Some (mu, r) \<longrightarrow> own w t mu = 0 \<longrightarrow> 0 < own w t p \<longrightarrow>
        (p, mu) \<in> arcs (dm_graph (w_mon w)))"

lemma waits_ordered_step:
  assumes step: "lock_step may w w'" and inv: "world_inv w" and ord: "waits_ordered w"
  shows "waits_ordered w'"
proof -
  let ?A = "arcs (dm_graph (w_mon w))" and ?A' = "arcs (dm_graph (w_mon w'))"
  from step_effect [OF step inv] consider
    (req) t mu where "requested t mu w w'" | (move) t where "moved t w w'" | (forget) mu where "forgotten mu w w'"
    by blast
  then show ?thesis
  proof cases
    case req
    show ?thesis
    proof (cases "dm_potential_deadlocks (w_mon w')")
      case False
      then have quiet: "\<not> dm_potential_deadlocks (w_mon w)" "\<not> closes_cycle t mu (w_mon w)"
        using req by (simp_all add: requested_def)
      have "set (takeWhile (\<lambda>p. (mu, p) \<notin> ?A\<^sup>*) (waits_behind t mu (w_mon w))) =
          set (waits_behind t mu (w_mon w))"
        by (rule arg_cong [of _ _ set]) (use quiet(2) in \<open>auto simp: closes_cycle_def takeWhile_eq_all_conv\<close>)
      then have new: "own w t mu = 0 \<Longrightarrow> 0 < own w t p \<Longrightarrow> (p, mu) \<in> ?A'" for p
        using req by (simp add: requested_def new_edges_def)
      have old: "?A \<subseteq> ?A'" using req by (simp add: requested_def)
      have same: "own w' = own w" using req by (simp add: requested_def)
      have "(p, nu) \<in> ?A'" if "w_waits w' u = Some (nu, r)" "own w' u nu = 0" "0 < own w' u p" for u nu r p
      proof (cases "u = t")
        case True
        then have "nu = mu" using that(1) req by (auto simp: requested_def)
        then show ?thesis using new [of p] that(2,3) True same by simp
      next
        case False
        then have "w_waits w u = Some (nu, r)" using that(1) req by (auto simp: requested_def)
        then have "(p, nu) \<in> ?A"
          using ord quiet(1) that(2,3) unfolding waits_ordered_def same by blast
        then show ?thesis using old by blast
      qed
      then show ?thesis unfolding waits_ordered_def by blast
    qed (simp add: waits_ordered_def)
  next
    case move
    then have "w_waits w' u = Some x \<Longrightarrow> u \<noteq> t" for u x by (auto simp: moved_def)
    then show ?thesis using ord move unfolding waits_ordered_def moved_def by metis
  next
    case forget
    then have "own w u mu = 0" for u by (simp add: forgotten_def own_def)
    then show ?thesis using ord forget unfolding waits_ordered_def forgotten_def by fastforce
  qed
qed

lemma reachable_inv:
  assumes "reachable may opts w"
  shows "world_inv w \<and> waits_ordered w \<and> dm_options (w_mon w) = opts"
  using assms
proof induction
  case Start
  have "w_waits (world_init opts) t = None" "dm_options (w_mon (world_init opts)) = opts" for t
    by (simp_all add: world_init_def lock_system_init_def monitor_init_def)
  then show ?case using world_init_inv by (simp add: waits_ordered_def)
next
  case (Step w w')
  then show ?case using step_effect [OF Step(2)] waits_ordered_step [OF Step(2)] by auto
qed

section \<open>Deadlocks\<close>

text \<open>A chain of waiting threads is a path of the graph, if nothing was reported.\<close>

lemma waiting_path:
  assumes inv: "world_inv w" and ord: "waits_ordered w" and quiet: "\<not> dm_potential_deadlocks (w_mon w)"
    and chain: "(t, u) \<in> (waits_for w)\<^sup>+" and t: "w_waits w t = Some (a, r)"
    and u: "w_waits w u = Some (b, r')" "own w u b = 0"
  shows "(a, b) \<in> (arcs (dm_graph (w_mon w)))\<^sup>+"
  using chain t
proof (induction arbitrary: a r rule: converse_trancl_induct)
  case (base t)
  then obtain n where "w_owner w a = Some (u, n)" by (auto simp: waits_for_def)
  then have "0 < own w u a" using world_invD(9) [OF inv] by (simp add: own_def)
  then show ?case using ord quiet u unfolding waits_ordered_def by blast
next
  case (step t v)
  obtain n where n: "w_owner w a = Some (v, n)" using step.hyps(1) step.prems by (auto simp: waits_for_def)
  obtain y where "(v, y) \<in> waits_for w" using step.hyps(2) by (meson tranclD)
  then obtain c s k where c: "w_waits w v = Some (c, s)" "w_owner w c = Some (y, k)" "y \<noteq> v"
    by (auto simp: waits_for_def)
  have "0 < own w v a" using n world_invD(9) [OF inv] by (simp add: own_def)
  moreover have "own w v c = 0" using c(2,3) by (simp add: own_def)
  ultimately have "(a, c) \<in> arcs (dm_graph (w_mon w))" using ord quiet c(1) unfolding waits_ordered_def by blast
  then show ?case using step.IH [OF c(1)] by simp
qed

lemma deadlock_noticed:
  assumes inv: "world_inv w" and ord: "waits_ordered w" and dead: "deadlocked w"
  shows "dm_potential_deadlocks (w_mon w)"
proof (rule ccontr)
  assume quiet: "\<not> dm_potential_deadlocks (w_mon w)"
  obtain t where t: "(t, t) \<in> (waits_for w)\<^sup>+" using dead by (auto simp: deadlocked_def)
  then obtain y where "(t, y) \<in> waits_for w" by (meson tranclD)
  then obtain a r n where a: "w_waits w t = Some (a, r)" "own w t a = 0"
    by (auto simp: waits_for_def own_def)
  have "(a, a) \<in> (arcs (dm_graph (w_mon w)))\<^sup>+" by (rule waiting_path [OF inv ord quiet t a(1) a])
  then show False using arcs_acyclic [OF world_invD(11) [OF inv]] by (simp add: acyclic_def)
qed

section \<open>Programs with a lock order\<close>

definition ranked :: "(ptr \<Rightarrow> nat) \<Rightarrow> world \<Rightarrow> bool" where
  "ranked rk w \<longleftrightarrow> \<not> dm_potential_deadlocks (w_mon w) \<and>
     (\<forall>p q. (p, q) \<in> arcs (dm_graph (w_mon w)) \<longrightarrow> rk p < rk q)"

lemma ranked_path: "(p, q) \<in> R\<^sup>* \<Longrightarrow> (\<And>a b. (a, b) \<in> R \<Longrightarrow> rk a < (rk b :: nat)) \<Longrightarrow> rk p \<le> rk q"
  by (induction rule: rtrancl_induct) (auto dest: less_imp_le order_trans)

lemma ranked_step:
  assumes step: "lock_step (in_order rk) w w'" and inv: "world_inv w" and rk: "ranked rk w"
  shows "ranked rk w'"
proof -
  from step_effect [OF step inv] consider
    (req) t mu where "in_order rk w t mu" "requested t mu w w'" | (move) t where "moved t w w'"
    | (forget) mu where "forgotten mu w w'"
    by blast
  then show ?thesis
  proof cases
    case req
    then have less: "rk p < rk mu" if "p \<in> set (waits_behind t mu (w_mon w))" for p
      using that by (auto simp: requested_def in_order_def)
    then have "\<not> closes_cycle t mu (w_mon w)"
      using rk ranked_path [of mu _ "arcs (dm_graph (w_mon w))" rk] unfolding ranked_def closes_cycle_def
      by (meson leD)
    moreover have "rk p < rk q" if "(p, q) \<in> new_edges t mu (w_mon w)" for p q
      using that less by (auto simp: new_edges_def dest: set_takeWhileD)
    ultimately show ?thesis using rk req(2) by (auto simp: ranked_def requested_def)
  next
    case move
    then show ?thesis using rk by (simp add: ranked_def moved_def)
  next
    case forget
    then show ?thesis using rk by (auto simp: ranked_def forgotten_def)
  qed
qed

lemma reachable_ranked:
  assumes "reachable (in_order rk) opts w"
  shows "ranked rk w"
  using assms
proof induction
  case Start
  show ?case by (simp add: ranked_def world_init_def lock_system_init_def monitor_init_def rep_init_inv)
next
  case (Step w w')
  show ?case by (rule ranked_step [OF Step(2) conjunct1 [OF reachable_inv [OF Step(1)]] Step.IH])
qed

section \<open>Exit on error\<close>

text \<open>With \<^verbatim>\<open>on_error=fail\<close> the process ends at the first report, so no running state has one.\<close>

lemma reachable_fail:
  assumes "reachable may opts w" "m_on_error opts = On_Error_fail"
  shows "\<not> dm_potential_deadlocks (w_mon w)"
  using assms
proof induction
  case Start
  show ?case by (simp add: world_init_def lock_system_init_def monitor_init_def)
next
  case (Step w w')
  then have "world_inv w" "m_on_error (dm_options (w_mon w)) = On_Error_fail"
    using reachable_inv [OF Step(1)] by simp_all
  then show ?case
    using step_effect [OF Step(2)] Step.IH Step.prems by (auto simp: requested_def moved_def forgotten_def)
qed

section \<open>Example runs\<close>

definition env_of :: "tid \<Rightarrow> lock_env" where
  "env_of t = \<lparr>ce_tid = t, ce_frames = [], ce_hash = 0, ce_stack_text = [], le_now = 1, le_symbolise = (\<lambda>_. [])\<rparr>"

lemma env_of_tid [simp]: "ce_tid (env_of t) = t"
  by (simp add: env_of_def)

definition waiting :: "world \<Rightarrow> tid \<Rightarrow> ptr option" where
  "waiting w t = map_option fst (w_waits w t)"

lemma request_possible:
  assumes r: "reachable may opts w" and opts: "m_on_error opts \<noteq> On_Error_fail" and t: "waiting w t = None"
    and mu: "mu \<noteq> 0" "may w t mu" and few: "few_locks w t" and room: "has_room w"
  shows "\<exists>w'. reachable may opts w' \<and> waiting w' = (waiting w)(t \<mapsto> mu) \<and> w_owner w' = w_owner w \<and>
    node_count (dm_graph (w_mon w')) \<le> node_count (dm_graph (w_mon w)) + 1"
proof -
  have inv: "world_inv w" and o: "dm_options (w_mon w) = opts" using reachable_inv [OF r] by simp_all
  obtain s gid where s: "lock_begin (env_of t) mu (w_sys w) = Some (Running (True, gid) s)"
    "node_count (dm_graph (lm_monitor s)) \<le> node_count (dm_graph (w_mon w)) + 1"
    using request_spec [OF inv _ mu(1) room few, of "env_of t"] opts o by auto
  let ?w = "w\<lparr>w_sys := s, w_waits := (w_waits w)(t \<mapsto> (mu, (True, gid)))\<rparr>"
  have "lock_step may w ?w"
    using lock_step.Request [of w "env_of t" mu may "(True, gid)" s] t mu room few s(1) by (simp add: waiting_def)
  then have "reachable may opts ?w" by (rule reachable.Step [OF r])
  then show ?thesis using s(2) by (intro exI [of _ ?w]) (simp add: waiting_def fun_eq_iff)
qed

lemma enter_possible:
  assumes r: "reachable may opts w" and t: "waiting w t = Some mu" and av: "available w t mu"
    and c: "own w t mu + 1 < 2 ^ 31"
  shows "\<exists>w'. reachable may opts w' \<and> waiting w' = (waiting w)(t := None) \<and>
    w_owner w' = (w_owner w)(mu \<mapsto> (t, own w t mu + 1)) \<and>
    node_count (dm_graph (w_mon w')) = node_count (dm_graph (w_mon w))"
proof -
  have inv: "world_inv w" using reachable_inv [OF r] by simp
  obtain x where x: "w_waits w t = Some (mu, x)" using t by (auto simp: waiting_def)
  obtain s where s: "lock_end t mu x (w_sys w) = Some (Running () s)" "dm_graph (lm_monitor s) = dm_graph (w_mon w)"
    using enter_spec [OF inv x av c] by blast
  let ?w = "acquired t mu (w\<lparr>w_sys := s, w_waits := (w_waits w)(t := None)\<rparr>)"
  have "reachable may opts ?w" by (rule reachable.Step [OF r lock_step.Enter [OF x av c s(1)]])
  then show ?thesis using s(2) by (intro exI [of _ ?w]) (simp add: waiting_def fun_eq_iff acquired_def)
qed

text \<open>One thread requests a lock and enters it at once.\<close>

lemma take_possible:
  assumes r: "reachable may opts w" and opts: "m_on_error opts \<noteq> On_Error_fail" and t: "waiting w t = None"
    and mu: "mu \<noteq> 0" "may w t mu" and few: "few_locks w t" and room: "has_room w" and free: "w_owner w mu = None"
  shows "\<exists>w'. reachable may opts w' \<and> waiting w' = waiting w \<and> w_owner w' = (w_owner w)(mu \<mapsto> (t, 1)) \<and>
    node_count (dm_graph (w_mon w')) \<le> node_count (dm_graph (w_mon w)) + 1"
proof -
  obtain w1 where w1: "reachable may opts w1" "waiting w1 = (waiting w)(t \<mapsto> mu)" "w_owner w1 = w_owner w"
    "node_count (dm_graph (w_mon w1)) \<le> node_count (dm_graph (w_mon w)) + 1"
    using request_possible [OF r opts t mu few room] by blast
  have o: "own w1 t mu = 0" and av: "available w1 t mu" using w1(3) free by (simp_all add: own_def available_def)
  have wt: "waiting w1 t = Some mu" using w1(2) by simp
  obtain w2 where "reachable may opts w2" "waiting w2 = (waiting w1)(t := None)"
    "w_owner w2 = (w_owner w1)(mu \<mapsto> (t, own w1 t mu + 1))"
    "node_count (dm_graph (w_mon w2)) = node_count (dm_graph (w_mon w1))"
    using enter_possible [OF w1(1) wt av] o by auto
  then show ?thesis using w1 o t by (intro exI [of _ w2]) (simp add: fun_upd_idem)
qed

lemma init_world:
  "reachable may opts (world_init opts)" "waiting (world_init opts) = (\<lambda>_. None)"
  "w_owner (world_init opts) = (\<lambda>_. None)" "node_count (dm_graph (w_mon (world_init opts))) = 0"
  by (rule reachable.Start)
    (simp_all add: waiting_def world_init_def lock_system_init_def monitor_init_def fun_eq_iff)

lemma few_locks_owner:
  assumes "w_owner w = Map.empty(a \<mapsto> x, b \<mapsto> y) \<or> w_owner w = Map.empty(a \<mapsto> x) \<or> w_owner w = Map.empty"
  shows "few_locks w t"
proof -
  have "{p. 0 < own w t p} \<subseteq> {a, b}" using assms by (auto simp: own_def split: if_splits)
  then have "card {p. 0 < own w t p} \<le> card {a, b}" by (intro card_mono) simp_all
  also have "\<dots> \<le> 2" by (simp add: card_insert_if)
  finally show ?thesis by (simp add: few_locks_def max_locks_def)
qed

text \<open>One thread holds two locks; two threads hold one lock each and wait for the other's.\<close>

lemma two_held:
  assumes opts: "m_on_error opts \<noteq> On_Error_fail" and ne: "a \<noteq> 0" "b \<noteq> 0" "a \<noteq> b"
    and may: "\<And>w. w_owner w = Map.empty \<Longrightarrow> may w t a"
      "\<And>w. w_owner w = Map.empty(a \<mapsto> (t, 1)) \<Longrightarrow> may w u b"
  shows "\<exists>w. reachable may opts w \<and> waiting w = (\<lambda>_. None) \<and>
    w_owner w = Map.empty(a \<mapsto> (t, 1), b \<mapsto> (u, 1)) \<and> node_count (dm_graph (w_mon w)) \<le> 2"
proof -
  let ?w0 = "world_init opts"
  have w0: "waiting ?w0 t = None" "w_owner ?w0 = Map.empty" "w_owner ?w0 a = None"
    by (simp_all add: init_world)
  have room0: "has_room ?w0" by (simp add: has_room_def init_world node_limit_def)
  have few0: "few_locks ?w0 t" using few_locks_owner w0(2) by blast
  obtain w1 where w1: "reachable may opts w1" "waiting w1 = waiting ?w0" "w_owner w1 = (w_owner ?w0)(a \<mapsto> (t, 1))"
    "node_count (dm_graph (w_mon w1)) \<le> node_count (dm_graph (w_mon ?w0)) + 1"
    using take_possible [OF init_world(1) [of may opts] opts w0(1) ne(1) may(1) [OF w0(2)] few0 room0 w0(3)] by blast
  have own1: "w_owner w1 = Map.empty(a \<mapsto> (t, 1))" using w1(3) by (simp add: w0(2))
  have room1: "has_room w1" using w1(4) by (simp add: has_room_def init_world node_limit_def)
  have few1: "few_locks w1 u" using few_locks_owner own1 by blast
  have w1': "waiting w1 u = None" "w_owner w1 b = None" using w1(2) own1 ne(3) by (simp_all add: init_world)
  obtain w2 where w2: "reachable may opts w2" "waiting w2 = waiting w1" "w_owner w2 = (w_owner w1)(b \<mapsto> (u, 1))"
    "node_count (dm_graph (w_mon w2)) \<le> node_count (dm_graph (w_mon w1)) + 1"
    using take_possible [OF w1(1) opts w1'(1) ne(2) may(2) [OF own1] few1 room1 w1'(2)] by blast
  then show ?thesis
    using w1(2,4) own1 by (intro exI [of _ w2]) (simp add: init_world)
qed

lemma crossed:
  assumes opts: "m_on_error opts \<noteq> On_Error_fail" and ne: "a \<noteq> 0" "b \<noteq> 0" "a \<noteq> b" "t \<noteq> u"
  shows "\<exists>w. reachable (\<lambda>_ _ _. True) opts w \<and> waiting w = Map.empty(t \<mapsto> b, u \<mapsto> a) \<and>
    w_owner w = Map.empty(a \<mapsto> (t, 1), b \<mapsto> (u, 1))"
proof -
  obtain w2 where w2: "reachable (\<lambda>_ _ _. True) opts w2" "waiting w2 = (\<lambda>_. None)"
    "w_owner w2 = Map.empty(a \<mapsto> (t, 1), b \<mapsto> (u, 1))" "node_count (dm_graph (w_mon w2)) \<le> 2"
    using two_held [OF opts ne(1-3), where may = "\<lambda>_ _ _. True" and t = t and u = u] by auto
  have room2: "has_room w2" using w2(4) by (simp add: has_room_def node_limit_def)
  have few: "few_locks w v" if "w_owner w = w_owner w2" for w v using few_locks_owner w2(3) that by metis
  have t: "waiting w2 t = None" using w2(2) by simp
  obtain w3 where w3: "reachable (\<lambda>_ _ _. True) opts w3" "waiting w3 = (waiting w2)(t \<mapsto> b)"
    "w_owner w3 = w_owner w2" "node_count (dm_graph (w_mon w3)) \<le> node_count (dm_graph (w_mon w2)) + 1"
    using request_possible [OF w2(1) opts t ne(2) TrueI few [OF refl] room2] by blast
  have room3: "has_room w3" using w3(4) w2(4) by (simp add: has_room_def node_limit_def)
  have u: "waiting w3 u = None" using w3(2) w2(2) ne(4) by simp
  obtain w4 where w4: "reachable (\<lambda>_ _ _. True) opts w4" "waiting w4 = (waiting w3)(u \<mapsto> a)" "w_owner w4 = w_owner w3"
    using request_possible [OF w3(1) opts u ne(1) TrueI few [OF w3(3)] room3] by blast
  then show ?thesis using w3(2,3) w2(2,3) by auto
qed

text \<open>In the order of the addresses: \<open>t\<close> holds \<open>a\<close> and waits for \<open>b\<close>, which \<open>u\<close> holds.\<close>

lemma one_waiting:
  assumes opts: "m_on_error opts \<noteq> On_Error_fail" and ne: "0 < a" "a < b" "t \<noteq> u"
  shows "\<exists>w. reachable (in_order unat) opts w \<and> waiting w = Map.empty(t \<mapsto> b) \<and>
    w_owner w = Map.empty(a \<mapsto> (t, 1), b \<mapsto> (u, 1)) \<and> node_count (dm_graph (w_mon w)) \<le> 3"
proof -
  have ab: "a \<noteq> 0" "b \<noteq> 0" "a \<noteq> b" "unat a < unat b" using ne by (auto simp: word_less_nat_alt)
  obtain w2 where w2: "reachable (in_order unat) opts w2" "waiting w2 = (\<lambda>_. None)"
    "w_owner w2 = Map.empty(a \<mapsto> (t, 1), b \<mapsto> (u, 1))" "node_count (dm_graph (w_mon w2)) \<le> 2"
  proof -
    have "in_order unat w t a" if "w_owner w = Map.empty" for w using that by (simp add: in_order_def own_def)
    moreover have "in_order unat w u b" if "w_owner w = Map.empty(a \<mapsto> (t, 1))" for w
      using that ne(3) by (simp add: in_order_def own_def)
    ultimately show ?thesis using that two_held [OF opts ab(1-3), of "in_order unat" t u] by blast
  qed
  have "in_order unat w2 t b"
    unfolding in_order_def using w2(3) ab ne(3) by (auto simp: own_def split: if_splits)
  moreover have "has_room w2" using w2(4) by (simp add: has_room_def node_limit_def)
  moreover have "few_locks w2 t" using few_locks_owner w2(3) by metis
  moreover have "waiting w2 t = None" using w2(2) by simp
  ultimately obtain w3 where "reachable (in_order unat) opts w3" "waiting w3 = (waiting w2)(t \<mapsto> b)"
    "w_owner w3 = w_owner w2" "node_count (dm_graph (w_mon w3)) \<le> node_count (dm_graph (w_mon w2)) + 1"
    using request_possible [OF w2(1) opts, of t b] ab(2) by blast
  then show ?thesis using w2(2-4) by (intro exI [of _ w3]) simp
qed

lemma one_waiting_arc:
  assumes r: "reachable (in_order unat) opts w" and w: "waiting w = Map.empty(t \<mapsto> b)"
    "w_owner w = Map.empty(a \<mapsto> (t, 1), b \<mapsto> (u, 1))" and ne: "t \<noteq> u" "a \<noteq> b"
  shows "(a, b) \<in> arcs (dm_graph (w_mon w))"
proof -
  have "waiting w t = Some b" using w(1) by simp
  then obtain x where "w_waits w t = Some (b, x)" by (auto simp: waiting_def)
  moreover have "own w t b = 0" "0 < own w t a" using w(2) ne by (simp_all add: own_def)
  moreover have "\<not> dm_potential_deadlocks (w_mon w)" using reachable_ranked [OF r] by (simp add: ranked_def)
  ultimately show ?thesis using reachable_inv [OF r] unfolding waits_ordered_def by blast
qed

lemma crossed_deadlocked:
  assumes "waiting w = Map.empty(t \<mapsto> b, u \<mapsto> a)" "w_owner w = Map.empty(a \<mapsto> (t, 1), b \<mapsto> (u, 1))"
    "t \<noteq> u" "a \<noteq> b"
  shows "deadlocked w"
proof -
  have "waiting w t = Some b" "waiting w u = Some a" using assms by simp_all
  then obtain r r' where "w_waits w t = Some (b, r)" "w_waits w u = Some (a, r')" by (auto simp: waiting_def)
  then have "(t, u) \<in> waits_for w" "(u, t) \<in> waits_for w" using assms by (auto simp: waits_for_def)
  then have "(t, t) \<in> (waits_for w)\<^sup>+" by (meson trancl.r_into_trancl trancl_trans)
  then show ?thesis unfolding deadlocked_def by blast
qed

end
