(* ===== verification/Lock_Properties.thy ===== *)
theory Lock_Properties
  imports Lock_Order
begin

text \<open>
  The properties of the deadlock detection, for any number of threads and locks and every
  interleaving of their steps.
\<close>

lemma default_continues: "m_on_error default_options \<noteq> On_Error_fail"
  by (simp add: default_options_def)

text \<open>C1: No deadlock goes unnoticed. Whenever threads wait for each other in a circle, of any length
  and however it came about, the monitor has reported a potential deadlock before; and with
  on_error=fail such a state cannot arise, since the process ended at the report.\<close>

theorem deadlock_is_reported:
  assumes "reachable may opts w" "deadlocked w"
  shows "dm_potential_deadlocks (w_mon w) \<and> m_on_error opts \<noteq> On_Error_fail"
  using reachable_inv [OF assms(1)] deadlock_noticed [OF _ _ assms(2)] reachable_fail [OF assms(1)] by blast

theorem deadlock_is_reported_witness:
  "\<exists>w. reachable (\<lambda>_ _ _. True) default_options w \<and> deadlocked w \<and> dm_potential_deadlocks (w_mon w)"
proof -
  obtain w where w: "reachable (\<lambda>_ _ _. True) default_options w"
    "waiting w = Map.empty(1 \<mapsto> lock_b, 2 \<mapsto> lock_a)" "w_owner w = Map.empty(lock_a \<mapsto> (1, 1), lock_b \<mapsto> (2, 1))"
    using crossed [OF default_continues, of lock_a lock_b 1 2] by (auto simp: lock_a_def lock_b_def)
  have "deadlocked w" by (rule crossed_deadlocked [OF w(2,3)]) (simp_all add: locks_distinct)
  then show ?thesis using w(1) deadlock_is_reported [OF w(1)] by blast
qed



text \<open>C3: A request for a lock the thread does not own yet is answered exactly by the ordering
  relation: it is reported if and only if the new lock already leads to a lock the thread owns. If
  it is not, the relation grows by the pairs of the owned locks with the new one. With
  on_error=fail a report ends the process with the configured exit code.\<close>

theorem request_reports_cycle:
  assumes "reachable may opts w" "mu \<noteq> 0" "own w (ce_tid env) mu = 0" "has_room w" "few_locks w (ce_tid env)"
  shows "\<exists>s gid. let A = arcs (dm_graph (w_mon w)); owned = {p. 0 < own w (ce_tid env) p};
      cyc = (\<exists>p\<in>owned. (mu, p) \<in> A\<^sup>*)
    in lock_begin env mu (w_sys w) = Some (if cyc \<and> m_on_error opts = On_Error_fail
         then Terminated (m_exit_code opts) s else Running (True, gid) s) \<and>
       dm_potential_deadlocks (lm_monitor s) = (dm_potential_deadlocks (w_mon w) \<or>
         cyc \<and> m_on_error opts \<noteq> On_Error_fail) \<and>
       (\<not> cyc \<longrightarrow> arcs (dm_graph (lm_monitor s)) = A \<union> owned \<times> {mu})"
proof -
  have inv: "world_inv w" and o: "dm_options (w_mon w) = opts" using reachable_inv [OF assms(1)] by simp_all
  let ?t = "ce_tid env" and ?A = "arcs (dm_graph (w_mon w))"
  obtain s gid where s: "lock_begin env mu (w_sys w) = Some (if closes_cycle ?t mu (w_mon w) \<and>
      m_on_error (dm_options (w_mon w)) = On_Error_fail
      then Terminated (m_exit_code (dm_options (w_mon w))) s else Running (True, gid) s)"
    "arcs (dm_graph (lm_monitor s)) = ?A \<union> new_edges ?t mu (w_mon w)"
    "dm_potential_deadlocks (lm_monitor s) = (dm_potential_deadlocks (w_mon w) \<or>
      closes_cycle ?t mu (w_mon w) \<and> m_on_error (dm_options (w_mon w)) \<noteq> On_Error_fail)"
    "own w ?t mu = 0 \<longrightarrow> set (waits_behind ?t mu (w_mon w)) = {p. 0 < own w ?t p}"
    using request_spec [OF inv refl [of ?t] assms(2,4,5)] by (elim exE conjE) (rule that, assumption+)
  have wb: "set (waits_behind ?t mu (w_mon w)) = {p. 0 < own w ?t p}" using s(4) assms(3) by simp
  have cyc: "closes_cycle ?t mu (w_mon w) \<longleftrightarrow> (\<exists>p\<in>{p. 0 < own w ?t p}. (mu, p) \<in> ?A\<^sup>*)"
    unfolding closes_cycle_def wb by simp
  have new: "new_edges ?t mu (w_mon w) = {p. 0 < own w ?t p} \<times> {mu}" if "\<not> closes_cycle ?t mu (w_mon w)"
  proof -
    have "takeWhile (\<lambda>p. (mu, p) \<notin> ?A\<^sup>*) (waits_behind ?t mu (w_mon w)) = waits_behind ?t mu (w_mon w)"
      using that unfolding closes_cycle_def takeWhile_eq_all_conv by blast
    then show ?thesis unfolding new_edges_def wb [symmetric] by (rule arg_cong)
  qed
  show ?thesis
    unfolding Let_def cyc [symmetric] o [symmetric]
    using s(1-3) new by (intro exI [of _ s] exI [of _ gid]) auto
qed

theorem request_reports_cycle_witness:
  "\<exists>w s. reachable (in_order unat) default_options w \<and> \<not> dm_potential_deadlocks (w_mon w) \<and>
     (\<exists>gid. lock_begin (env_of 2) lock_a (w_sys w) = Some (Running (True, gid) s)) \<and>
     dm_potential_deadlocks (lm_monitor s)"
proof -
  obtain w where w: "reachable (in_order unat) default_options w" "waiting w = Map.empty(1 \<mapsto> lock_b)"
    "w_owner w = Map.empty(lock_a \<mapsto> (1, 1), lock_b \<mapsto> (2, 1))" "node_count (dm_graph (w_mon w)) \<le> 3"
    using one_waiting [OF default_continues, of lock_a lock_b 1 2] by (auto simp: lock_a_def lock_b_def)
  have arc: "(lock_a, lock_b) \<in> arcs (dm_graph (w_mon w))"
    by (rule one_waiting_arc [OF w(1-3)]) (simp_all add: locks_distinct)
  have own: "own w 2 lock_a = 0" "0 < own w 2 lock_b" using w(3) locks_distinct by (simp_all add: own_def)
  have "has_room w" using w(4) by (simp add: has_room_def node_limit_def)
  moreover have "few_locks w 2" using few_locks_owner w(3) by blast
  moreover have "lock_a \<noteq> 0" by (simp add: lock_a_def)
  moreover have "\<exists>p\<in>{p. 0 < own w 2 p}. (lock_a, p) \<in> (arcs (dm_graph (w_mon w)))\<^sup>*" using arc own(2) by blast
  moreover have "\<not> dm_potential_deadlocks (w_mon w)" using reachable_ranked [OF w(1)] by (simp add: ranked_def)
  ultimately show ?thesis
    using request_reports_cycle [OF w(1), of lock_a "env_of 2"] own(1) w(1) default_continues
    by (auto simp: Let_def)
qed

text \<open>C4: The tables are the truth: in every reachable state the live locks in a thread's table are
  exactly the locks it owns, each with the right depth, and there are as many entries.\<close>

theorem lock_table_is_ownership:
  assumes "reachable may opts w"
  shows "set (held_ptrs (dm_graph (w_mon w)) (held_of (w_mon w) t)) = {p. 0 < own w t p} \<and>
    (\<forall>p i. id_of (dm_graph (w_mon w)) p = Some i \<longrightarrow> held_count (held_of (w_mon w) t) i = int (own w t p)) \<and>
    hl_n (held_of (w_mon w) t) = card {p. 0 < own w t p}"
proof -
  have inv: "world_inv w" using reachable_inv [OF assms] by simp
  note agr = world_invD(4) [OF inv, of t] and hl = world_invD(12) [OF inv, of t] and g = world_invD(11) [OF inv]
  have "card {p. 0 < own w t p} = hl_n (held_of (w_mon w) t)"
    by (rule agree_size [OF agr hl]) (rule id_unique [OF g])
  then show ?thesis using held_ptrs_own [OF g agr hl] agreeD(1) [OF agr] by simp
qed

theorem lock_table_is_ownership_witness:
  "\<exists>w. reachable (in_order unat) default_options w \<and>
     set (held_ptrs (dm_graph (w_mon w)) (held_of (w_mon w) 2)) = {lock_b} \<and> hl_n (held_of (w_mon w) 2) = 1"
proof -
  obtain w where w: "reachable (in_order unat) default_options w"
    "w_owner w = Map.empty(lock_a \<mapsto> (1, 1), lock_b \<mapsto> (2, 1))"
    using one_waiting [OF default_continues, of lock_a lock_b 1 2] by (auto simp: lock_a_def lock_b_def)
  have "{p. 0 < own w 2 p} = {lock_b}"
    using w(2) locks_distinct by (auto simp: own_def split: if_splits)
  then show ?thesis using lock_table_is_ownership [OF w(1), of 2] w(1) by auto
qed

text \<open>C5: In the Release build the lock monitors never get stuck and never run into undefined behaviour:
  in every reachable state each call a correct program can make returns (a request, the return of
  the original function, leaving, an attempt that fails and one that succeeds, deleting), and only a
  request can end the process. In a build with assertions a thread can stop at one of them: see the
  property about failed attempts.\<close>

theorem lock_calls_return:
  assumes "reachable may opts w"
  shows "(\<forall>env mu. mu \<noteq> 0 \<and> has_room w \<and> few_locks w (ce_tid env) \<longrightarrow>
       (\<exists>gid s. lock_begin env mu (w_sys w) \<in>
          {Some (Running (True, gid) s), Some (Terminated (m_exit_code opts) s)})) \<and>
    (\<forall>t mu r. w_waits w t = Some (mu, r) \<and> available w t mu \<and> own w t mu + 1 < 2 ^ 31 \<longrightarrow>
       (\<exists>s. lock_end t mu r (w_sys w) = Some (Running () s))) \<and>
    (\<forall>env mu. w_waits w (ce_tid env) = None \<and> 0 < own w (ce_tid env) mu \<longrightarrow>
       (\<exists>s. buginsight_leave_critical_section env mu (w_sys w) = Some (Running () s))) \<and>
    (\<forall>env mu. mu \<noteq> 0 \<and> has_room w \<longrightarrow>
       (\<exists>s. buginsight_tryenter_critical_section env mu False (w_sys w) = Some (Running False s))) \<and>
    (\<forall>env mu. mu \<noteq> 0 \<and> has_room w \<and> w_waits w (ce_tid env) = None \<and> few_locks w (ce_tid env) \<and>
         available w (ce_tid env) mu \<and> own w (ce_tid env) mu + 1 < 2 ^ 31 \<longrightarrow>
       (\<exists>s. buginsight_tryenter_critical_section env mu True (w_sys w) = Some (Running True s))) \<and>
    (\<forall>env mu. w_owner w mu = None \<and> (\<forall>t r. w_waits w t \<noteq> Some (mu, r)) \<and> w_waits w (ce_tid env) = None \<longrightarrow>
       (\<exists>s. buginsight_delete_critical_section env mu (w_sys w) = Some (Running () s)))"
proof -
  have inv: "world_inv w" and o: "dm_options (w_mon w) = opts" using reachable_inv [OF assms] by simp_all
  have req: "\<exists>gid s. lock_begin env mu (w_sys w) \<in>
      {Some (Running (True, gid) s), Some (Terminated (m_exit_code opts) s)}"
    if req: "mu \<noteq> 0" "has_room w" "few_locks w (ce_tid env)" for env mu
  proof -
    obtain s gid where "lock_begin env mu (w_sys w) = Some (if closes_cycle (ce_tid env) mu (w_mon w) \<and>
        m_on_error (dm_options (w_mon w)) = On_Error_fail
        then Terminated (m_exit_code (dm_options (w_mon w))) s else Running (True, gid) s)"
      using request_spec [OF inv refl [of "ce_tid env"] req] by (elim exE conjE) (rule that, assumption+)
    then show ?thesis unfolding o by auto
  qed
  have enter: "\<exists>s. lock_end t mu r (w_sys w) = Some (Running () s)"
    if "w_waits w t = Some (mu, r)" "available w t mu" "own w t mu + 1 < 2 ^ 31" for t mu r
    using enter_spec [OF inv that] by blast
  have leave: "\<exists>s. buginsight_leave_critical_section env mu (w_sys w) = Some (Running () s)"
    if "w_waits w (ce_tid env) = None" "0 < own w (ce_tid env) mu" for env mu
    using leave_spec [OF inv refl that] by blast
  have attempt: "\<exists>s. buginsight_tryenter_critical_section env mu False (w_sys w) = Some (Running False s)"
    if "mu \<noteq> 0" "has_room w" for env mu
    using try_failure_spec [OF inv refl [of "ce_tid env"] that] by blast
  have success: "\<exists>s. buginsight_tryenter_critical_section env mu True (w_sys w) = Some (Running True s)"
    if "mu \<noteq> 0" "has_room w" "w_waits w (ce_tid env) = None" "few_locks w (ce_tid env)"
      "available w (ce_tid env) mu" "own w (ce_tid env) mu + 1 < 2 ^ 31" for env mu
    using try_success_spec [OF inv refl that(3,1,2,4-6)] by blast
  have delete: "\<exists>s. buginsight_delete_critical_section env mu (w_sys w) = Some (Running () s)"
    if "w_owner w mu = None" "\<forall>t r. w_waits w t \<noteq> Some (mu, r)" "w_waits w (ce_tid env) = None" for env mu
    using delete_spec [OF inv that] by blast
  show ?thesis
    by (intro conjI allI impI; elim conjE) (rule req enter leave attempt success delete, assumption+)+
qed

theorem lock_calls_return_witness:
  "\<exists>w s. reachable (in_order unat) default_options w \<and>
     buginsight_leave_critical_section (env_of 2) lock_b (w_sys w) = Some (Running () s)"
proof -
  obtain w where w: "reachable (in_order unat) default_options w" "waiting w = Map.empty(1 \<mapsto> lock_b)"
    "w_owner w = Map.empty(lock_a \<mapsto> (1, 1), lock_b \<mapsto> (2, 1))"
    using one_waiting [OF default_continues, of lock_a lock_b 1 2] by (auto simp: lock_a_def lock_b_def)
  have "waiting w 2 = None" using w(2) by simp
  then have "w_waits w (ce_tid (env_of 2)) = None" by (simp add: waiting_def)
  moreover have "0 < own w (ce_tid (env_of 2)) lock_b" using w(3) by (simp add: own_def)
  ultimately show ?thesis using lock_calls_return [OF w(1)] w(1) by blast
qed

end
