(* ===== verification/Watchdog_Properties.thy ===== *)
theory Watchdog_Properties
  imports Lock_Order
begin

text \<open>
  The thread watchdog: what one call of its timer does, and the errors that the monitor reports about
  a single operation.
\<close>

section \<open>The scan of the threads\<close>

text \<open>A thread whose time of entering is set and over, and one that is over the limit.\<close>

definition timed :: "(tid \<Rightarrow> held_locks option) \<Rightarrow> u64 \<Rightarrow> tid \<Rightarrow> bool" where
  "timed held now t \<longleftrightarrow> hl_start (the (held t)) \<noteq> 0 \<and> hl_start (the (held t)) < now"

definition overdue :: "(tid \<Rightarrow> held_locks option) \<Rightarrow> u64 \<Rightarrow> u64 \<Rightarrow> tid \<Rightarrow> bool" where
  "overdue held now limit t \<longleftrightarrow> timed held now t \<and> limit * 1000 \<le> now - hl_start (the (held t))"

text \<open>Who is reported: the first thread that is overdue and not yet reported.\<close>

definition late :: "(tid \<Rightarrow> held_locks option) \<Rightarrow> u64 \<Rightarrow> u64 \<Rightarrow> tid \<times> bool \<Rightarrow> bool" where
  "late held now limit e \<longleftrightarrow> overdue held now limit (fst e) \<and> \<not> snd e"

lemma find_SomeD: "find P xs = Some x \<Longrightarrow> P x \<and> x \<in> set xs"
  by (induction xs) (auto split: if_splits)

lemma watchdog_scan_spec:
  assumes "\<forall>t\<in>fst ` set ts. held t \<noteq> None"
  shows "\<exists>ts'. watchdog_scan held now limit ts = Some (ts', map_option
      (\<lambda>(t, l). (the (held t), now - hl_start (the (held t)))) (find (late held now limit) ts)) \<and>
    map fst ts' = map fst ts \<and>
    (\<forall>t l. find (late held now limit) ts = Some (t, l) \<longrightarrow> (t, True) \<in> set ts') \<and>
    (\<forall>t. (t, True) \<in> set ts \<longrightarrow> timed held now t \<longrightarrow> (t, True) \<in> set ts') \<and>
    (\<forall>t. (t, False) \<in> set ts \<longrightarrow> find (late held now limit) ts \<noteq> Some (t, False) \<longrightarrow> (t, False) \<in> set ts')"
  using assms
proof (induction ts)
  case Nil
  then show ?case by simp
next
  case (Cons e ts)
  obtain t l where e: "e = (t, l)" by (cases e)
  obtain h where h: "held t = Some h" using Cons.prems e by auto
  obtain ts' where ih: "watchdog_scan held now limit ts = Some (ts', map_option
      (\<lambda>(t, l). (the (held t), now - hl_start (the (held t)))) (find (late held now limit) ts))"
    "map fst ts' = map fst ts" "\<forall>t l. find (late held now limit) ts = Some (t, l) \<longrightarrow> (t, True) \<in> set ts'"
    "\<forall>t. (t, True) \<in> set ts \<longrightarrow> timed held now t \<longrightarrow> (t, True) \<in> set ts'"
    "\<forall>t. (t, False) \<in> set ts \<longrightarrow> find (late held now limit) ts \<noteq> Some (t, False) \<longrightarrow> (t, False) \<in> set ts'"
    using Cons by auto
  have timed: "timed held now t \<longleftrightarrow> \<not> (hl_start h = 0 \<or> now \<le> hl_start h)"
    using h by (auto simp: timed_def)
  show ?case
  proof (cases "timed held now t")
    case False
    then have "\<not> late held now limit e" by (simp add: late_def overdue_def e)
    then show ?thesis
      using False timed ih h by (intro exI [of _ "(t, False) # ts'"]) (auto simp: e Let_def)
  next
    case True
    note run = True
    show ?thesis
    proof (cases "late held now limit e")
      case True
      then show ?thesis
        using run timed h by (intro exI [of _ "(t, True) # ts"]) (auto simp: e Let_def late_def overdue_def)
    next
      case False
      then have "l \<or> \<not> limit * 1000 \<le> now - hl_start h" using run h by (auto simp: late_def overdue_def e)
      then show ?thesis
        using run timed False ih h by (intro exI [of _ "(t, l) # ts'"]) (auto simp: e Let_def)
    qed
  qed
qed

section \<open>The timer callback\<close>

lemma build_watchdog_callstack_defined:
  "lk_id l \<in> issued g \<Longrightarrow> \<exists>msg. build_watchdog_callstack symbolise g l = Some msg"
  using issued_defined [of "lk_id l" g] by (auto simp: build_watchdog_callstack_def get_stack_trace_def)

lemma process_watchdog_error_spec:
  assumes fits: "table_fits (dm_graph m) t h"
  shows "\<exists>msg. (hl_n h = 0 \<longrightarrow> msg = []) \<and> process_watchdog_error symbolise h d m = Some (if m_on_error (dm_options m) = On_Error_fail
      then Terminated (m_exit_code (dm_options m)) (m\<lparr>dm_other_errors := True,
        dm_log := fst (process_error (dm_options m) (build_watchdog_error t (0 < hl_n h) d @ msg) False (dm_log m))\<rparr>)
      else Running () (m\<lparr>dm_other_errors := True,
        dm_log := fst (process_error (dm_options m) (build_watchdog_error t (0 < hl_n h) d @ msg) False (dm_log m))\<rparr>))"
proof -
  note h = table_fitsD [OF fits]
  obtain msg where "(if 0 < hl_n h then Option.bind (vec_get (hl_locks h) 0) (\<lambda>l.
      build_watchdog_callstack symbolise (dm_graph m) l) else Some []) = Some msg" "hl_n h = 0 \<longrightarrow> msg = []"
  proof (cases "0 < hl_n h")
    case True
    then have "lk_id (hl_locks h ! 0) \<in> held_ids h" using held_ids_conv [OF hl_invD(3) [OF h(1)]] by blast
    then obtain msg where "build_watchdog_callstack symbolise (dm_graph m) (hl_locks h ! 0) = Some msg"
      using build_watchdog_callstack_defined h(2) by blast
    moreover have "hl_locks h \<noteq> []" using True hl_invD(3) [OF h(1)] by auto
    ultimately show ?thesis using that [of msg] True by simp
  qed simp
  then show ?thesis
    using h(3) by (intro exI [of _ msg]) (simp add: process_watchdog_error_def dm_report_cases)
qed

lemma mon_inv_threads:
  assumes inv: "mon_inv m" and ts: "map fst ts = map fst (dm_threads m)"
  shows "mon_inv (m\<lparr>dm_threads := ts\<rparr>)"
proof -
  have "fst ` set ts = fst ` set (dm_threads m)" using arg_cong [OF ts, of set] by simp
  moreover have "(ts \<noteq> []) = (dm_threads m \<noteq> [])" using ts by (metis Nil_is_map_conv)
  ultimately show ?thesis using inv ts by (simp add: mon_inv_def watch_inv_def)
qed

lemma restart_timer_inv: "mon_inv m \<Longrightarrow> mon_inv (restart_timer m)"
  by (simp add: mon_inv_def watch_inv_def restart_timer_def)

lemma threads_have_tables:
  assumes "mon_inv m" "t \<in> fst ` set (dm_threads m)"
  obtains h where "dm_held m t = Some h"
  using assms by (auto simp: mon_inv_def watch_inv_def split: if_splits)

text \<open>The limit of the monitor in milliseconds, and the thread the callback reports.\<close>

definition first_late :: "u64 \<Rightarrow> bool \<Rightarrow> monitor \<Rightarrow> (tid \<times> bool) option" where
  "first_late now debugger m =
     find (late (dm_held m) now (max_duration_sec (dm_options m) debugger)) (dm_threads m)"

text \<open>The reports in the log: the notes have other levels.\<close>

definition infos :: "log \<Rightarrow> string list" where
  "infos lg = map snd (filter (\<lambda>(l, text). l = info) lg)"

lemma infos_log_msg:
  "infos (log_msg opts l text lg) = infos lg @ (if l = info \<and> m_log_level opts \<le> info then [text] else [])"
  by (auto simp: infos_def log_msg_def)

lemma infos_process_error:
  "infos (fst (process_error opts text d lg)) = infos lg @ (if m_log_level opts \<le> info then [text] else [])"
  by (simp add: process_error_def Let_def infos_log_msg)

lemma callback_quiet:
  assumes "watchdog_scan (dm_held m) now (max_duration_sec (dm_options m) debugger) (dm_threads m) = Some (ts, None)"
  shows "\<exists>lg. infos lg = infos (dm_log m) \<and> one_shot_timer_callback symbolise now debugger m =
    Some (Running () (restart_timer (m\<lparr>dm_log := lg, dm_threads := ts\<rparr>)))"
  unfolding one_shot_timer_callback_def Let_def using assms
  by simp (rule exI, rule conjI [OF _ refl], simp add: infos_log_msg)

lemma callback_found:
  assumes "watchdog_scan (dm_held m) now (max_duration_sec (dm_options m) debugger) (dm_threads m) =
    Some (ts, Some (h, d))"
  shows "\<exists>lg. infos lg = infos (dm_log m) \<and> one_shot_timer_callback symbolise now debugger m =
    next_step (process_watchdog_error symbolise h (d div 1000)) (\<lambda>_ m. Some (Running () (restart_timer m)))
      (m\<lparr>dm_threads := ts, dm_log := lg\<rparr>)"
  unfolding one_shot_timer_callback_def Let_def using assms
  by simp (rule exI, rule conjI [OF _ refl], simp add: infos_log_msg)

lemma callback_spec:
  assumes inv: "mon_inv m"
  shows "\<exists>m' ts. one_shot_timer_callback symbolise now debugger m = Some
      (if first_late now debugger m \<noteq> None \<and> m_on_error (dm_options m) = On_Error_fail
       then Terminated (m_exit_code (dm_options m)) m' else Running () m') \<and> mon_inv m' \<and>
    dm_threads m' = ts \<and> map fst ts = map fst (dm_threads m) \<and> dm_held m' = dm_held m \<and>
    dm_graph m' = dm_graph m \<and> dm_options m' = dm_options m \<and>
    dm_potential_deadlocks m' = dm_potential_deadlocks m \<and>
    dm_other_errors m' = (dm_other_errors m \<or> first_late now debugger m \<noteq> None) \<and>
    (\<forall>t l. first_late now debugger m = Some (t, l) \<longrightarrow> (t, True) \<in> set ts \<and>
       (\<exists>msg lg. infos lg = infos (dm_log m) \<and> (hl_n (the (dm_held m t)) = 0 \<longrightarrow> msg = []) \<and>
         dm_log m' = fst (process_error (dm_options m)
          (build_watchdog_error t (0 < hl_n (the (dm_held m t)))
            ((now - hl_start (the (dm_held m t))) div 1000) @ msg) False lg))) \<and>
    (first_late now debugger m = None \<longrightarrow> infos (dm_log m') = infos (dm_log m)) \<and>
    (\<forall>t. (t, True) \<in> set (dm_threads m) \<longrightarrow> timed (dm_held m) now t \<longrightarrow> (t, True) \<in> set ts) \<and>
    (\<forall>t. (t, False) \<in> set (dm_threads m) \<longrightarrow> first_late now debugger m \<noteq> Some (t, False) \<longrightarrow>
       (t, False) \<in> set ts) \<and>
    (first_late now debugger m = None \<or> m_on_error (dm_options m) \<noteq> On_Error_fail \<longrightarrow>
       dm_timer m' = (if dm_threads m = [] then None else Some (watchdog_interval (dm_options m))))"
proof -
  let ?limit = "max_duration_sec (dm_options m) debugger"
  have tables: "\<forall>t\<in>fst ` set (dm_threads m). dm_held m t \<noteq> None"
    using threads_have_tables [OF inv] by (metis option.distinct(1))
  obtain ts where ts: "watchdog_scan (dm_held m) now ?limit (dm_threads m) = Some (ts, map_option
      (\<lambda>(t, l). (the (dm_held m t), now - hl_start (the (dm_held m t)))) (first_late now debugger m))"
    "map fst ts = map fst (dm_threads m)"
    "\<forall>t l. first_late now debugger m = Some (t, l) \<longrightarrow> (t, True) \<in> set ts"
    "\<forall>t. (t, True) \<in> set (dm_threads m) \<longrightarrow> timed (dm_held m) now t \<longrightarrow> (t, True) \<in> set ts"
    "\<forall>t. (t, False) \<in> set (dm_threads m) \<longrightarrow> first_late now debugger m \<noteq> Some (t, False) \<longrightarrow> (t, False) \<in> set ts"
    using watchdog_scan_spec [OF tables, of now ?limit] unfolding first_late_def by blast
  have empty: "ts = [] \<longleftrightarrow> dm_threads m = []" using ts(2) by (metis Nil_is_map_conv)
  have inv2: "mon_inv (m\<lparr>dm_log := x, dm_threads := ts\<rparr>)" for x
    using mon_inv_threads [of "m\<lparr>dm_log := x\<rparr>" ts] inv ts(2) by simp
  show ?thesis
  proof (cases "first_late now debugger m")
    case None
    obtain lg where lg: "infos lg = infos (dm_log m)"
      and run: "one_shot_timer_callback symbolise now debugger m =
        Some (Running () (restart_timer (m\<lparr>dm_log := lg, dm_threads := ts\<rparr>)))"
      using callback_quiet [of m now debugger ts symbolise] ts(1) None by auto
    let ?m = "restart_timer (m\<lparr>dm_log := lg, dm_threads := ts\<rparr>)"
    have "mon_inv ?m" by (rule restart_timer_inv [OF inv2])
    then show ?thesis
      using run lg None ts(2,4,5) empty by (intro exI [of _ ?m] exI [of _ ts]) (simp add: restart_timer_def)
  next
    case (Some e)
    obtain t l where e: "e = (t, l)" by (cases e)
    have "(t, l) \<in> set (dm_threads m)" using Some unfolding first_late_def e by (auto simp: find_Some_iff)
    then have "t \<in> fst ` set (dm_threads m)" by force
    then obtain h where h: "dm_held m t = Some h" by (rule threads_have_tables [OF inv])
    let ?d = "(now - hl_start h) div 1000"
    have "watchdog_scan (dm_held m) now ?limit (dm_threads m) = Some (ts, Some (h, now - hl_start h))"
      using ts(1) Some h by (simp add: e)
    then obtain lg where lg: "infos lg = infos (dm_log m)" and found: "one_shot_timer_callback symbolise now debugger m =
        next_step (process_watchdog_error symbolise h ?d) (\<lambda>_ m. Some (Running () (restart_timer m)))
          (m\<lparr>dm_threads := ts, dm_log := lg\<rparr>)"
      using callback_found [of m now debugger ts h _ symbolise] by blast
    let ?m2 = "m\<lparr>dm_threads := ts, dm_log := lg\<rparr>"
    have fits: "table_fits (dm_graph ?m2) t h" using mon_invD(2) [OF inv h] by simp
    obtain msg where msg: "hl_n h = 0 \<longrightarrow> msg = []" and w: "process_watchdog_error symbolise h ?d ?m2 =
      Some (if m_on_error (dm_options ?m2) = On_Error_fail
      then Terminated (m_exit_code (dm_options ?m2)) (?m2\<lparr>dm_other_errors := True,
        dm_log := fst (process_error (dm_options ?m2) (build_watchdog_error t (0 < hl_n h) ?d @ msg) False (dm_log ?m2))\<rparr>)
      else Running () (?m2\<lparr>dm_other_errors := True,
        dm_log := fst (process_error (dm_options ?m2) (build_watchdog_error t (0 < hl_n h) ?d @ msg) False (dm_log ?m2))\<rparr>))"
      using process_watchdog_error_spec [OF fits] by blast
    define m3 where "m3 = m\<lparr>dm_threads := ts, dm_other_errors := True,
      dm_log := fst (process_error (dm_options m) (build_watchdog_error t (0 < hl_n h) ?d @ msg) False lg)\<rparr>"
    have inv3: "mon_inv m3" using mon_inv_threads [OF inv ts(2)] by (simp add: m3_def)
    have run: "one_shot_timer_callback symbolise now debugger m = Some
        (if m_on_error (dm_options m) = On_Error_fail then Terminated (m_exit_code (dm_options m)) m3
         else Running () (restart_timer m3))"
      using found w by (simp add: next_step_def m3_def)
    have log: "\<exists>msg lg. infos lg = infos (dm_log m) \<and> (hl_n h = 0 \<longrightarrow> msg = []) \<and>
        dm_log m3 = fst (process_error (dm_options m) (build_watchdog_error t (0 < hl_n h) ?d @ msg) False lg)"
      using lg msg by (intro exI [of _ msg] exI [of _ lg]) (simp add: m3_def)
    have m3: "dm_threads m3 = ts" "dm_held m3 = dm_held m" "dm_graph m3 = dm_graph m" "dm_options m3 = dm_options m"
      "dm_potential_deadlocks m3 = dm_potential_deadlocks m" "dm_other_errors m3"
      by (simp_all add: m3_def)
    show ?thesis
    proof (cases "m_on_error (dm_options m) = On_Error_fail")
      case True
      then show ?thesis
        using run inv3 Some e h log m3 ts(2-5) by (intro exI [of _ m3] exI [of _ ts]) simp
    next
      case False
      then show ?thesis
        using run restart_timer_inv [OF inv3] Some e h log m3 ts(2-5) empty
        by (intro exI [of _ "restart_timer m3"] exI [of _ ts]) (simp add: restart_timer_def)
    qed
  qed
qed

section \<open>Properties\<close>

text \<open>A monitor with one thread that has waited since the first millisecond.\<close>

definition waiting_monitor :: monitor where
  "waiting_monitor = (monitor_init default_options)
     \<lparr>dm_held := Map.empty(1 \<mapsto> (held_locks_init 1)\<lparr>hl_start := 1, hl_monitored := True\<rparr>),
      dm_threads := [(1, False)], dm_timer := Some 5\<rparr>"

lemma waiting_monitor_inv: "mon_inv waiting_monitor"
  by (auto simp: waiting_monitor_def mon_inv_def watch_inv_def monitor_init_def rep_init_inv init_fits
      watchdog_interval_def default_options_def)

lemma waiting_monitor_late: "first_late 40000 False waiting_monitor = Some (1, False)"
  by (simp add: first_late_def waiting_monitor_def late_def overdue_def timed_def monitor_init_def
      max_duration_sec_def default_options_def)

text \<open>C14: One call of the watchdog's timer reports the first monitored thread that has held or waited
  for locks longer than the limit and was not reported yet, with its id and the seconds; it sets the
  error flag and ends the process with on_error=fail. If no thread is late it reports nothing. Unless
  the process ends, the timer is armed again if and only if there are threads to watch.\<close>

theorem watchdog_reports_late_thread:
  assumes "mon_inv m"
  shows "\<exists>m'. one_shot_timer_callback symbolise now debugger m = Some
      (if first_late now debugger m \<noteq> None \<and> m_on_error (dm_options m) = On_Error_fail
       then Terminated (m_exit_code (dm_options m)) m' else Running () m') \<and>
    dm_other_errors m' = (dm_other_errors m \<or> first_late now debugger m \<noteq> None) \<and>
    (case first_late now debugger m of None \<Rightarrow> True
     | Some (t, l) \<Rightarrow> \<exists>msg lg. dm_log m' = fst (process_error (dm_options m)
          (build_watchdog_error t (0 < hl_n (the (dm_held m t)))
            ((now - hl_start (the (dm_held m t))) div 1000) @ msg) False lg)) \<and>
    (first_late now debugger m = None \<or> m_on_error (dm_options m) \<noteq> On_Error_fail \<longrightarrow>
       dm_timer m' = (if dm_threads m = [] then None else Some (watchdog_interval (dm_options m))))"
proof -
  obtain m' where m': "one_shot_timer_callback symbolise now debugger m = Some
      (if first_late now debugger m \<noteq> None \<and> m_on_error (dm_options m) = On_Error_fail
       then Terminated (m_exit_code (dm_options m)) m' else Running () m')"
    "dm_other_errors m' = (dm_other_errors m \<or> first_late now debugger m \<noteq> None)"
    "\<forall>t l. first_late now debugger m = Some (t, l) \<longrightarrow> (\<exists>msg lg. dm_log m' = fst (process_error (dm_options m)
          (build_watchdog_error t (0 < hl_n (the (dm_held m t)))
            ((now - hl_start (the (dm_held m t))) div 1000) @ msg) False lg))"
    "first_late now debugger m = None \<or> m_on_error (dm_options m) \<noteq> On_Error_fail \<longrightarrow>
       dm_timer m' = (if dm_threads m = [] then None else Some (watchdog_interval (dm_options m)))"
    using callback_spec [OF assms, of symbolise now debugger] by (elim exE conjE) (rule that, blast+)
  then show ?thesis by (intro exI [of _ m']) (simp split: option.split)
qed

theorem watchdog_reports_late_thread_witness:
  "\<exists>m'. one_shot_timer_callback (\<lambda>_. []) 40000 False waiting_monitor = Some (Running () m') \<and>
     dm_other_errors m' \<and> dm_timer m' = Some 5"
proof -
  have "m_on_error (dm_options waiting_monitor) \<noteq> On_Error_fail" "dm_threads waiting_monitor \<noteq> []"
    "watchdog_interval (dm_options waiting_monitor) = 5"
    by (simp_all add: waiting_monitor_def monitor_init_def default_options_def watchdog_interval_def)
  then show ?thesis
    using watchdog_reports_late_thread [OF waiting_monitor_inv, of "\<lambda>_. []" 40000 False] waiting_monitor_late
    by auto
qed

section \<open>Several calls of the timer\<close>


text \<open>Such a call finds the thread in or before some lock, and no other thread over the limit.\<close>

definition only_suspect :: "monitor \<Rightarrow> bool \<Rightarrow> tid \<Rightarrow> held_locks \<times> u64 \<Rightarrow> bool" where
  "only_suspect m debugger t = (\<lambda>(h, now). table_fits (dm_graph m) t h \<and> hl_monitored h \<and>
     hl_start h \<noteq> 0 \<and> hl_start h < now \<and> (\<forall>u\<in>fst ` set (dm_threads m). u \<noteq> t \<longrightarrow>
       \<not> overdue (dm_held m) now (max_duration_sec (dm_options m) debugger) u))"

definition over_limit :: "monitor \<Rightarrow> bool \<Rightarrow> held_locks \<times> u64 \<Rightarrow> bool" where
  "over_limit m debugger = (\<lambda>(h, now). max_duration_sec (dm_options m) debugger * 1000 \<le> now - hl_start h)"

lemma find_late_only:
  assumes "\<forall>u\<in>fst ` set ts. u \<noteq> t \<longrightarrow> \<not> overdue held now limit u"
  shows "distinct (map fst ts) \<Longrightarrow> find (late held now limit) ts =
    (if (t, False) \<in> set ts \<and> overdue held now limit t then Some (t, False) else None)"
  using assms
proof (induction ts)
  case (Cons e ts)
  obtain u l where e: "e = (u, l)" by (cases e)
  have ih: "find (late held now limit) ts =
    (if (t, False) \<in> set ts \<and> overdue held now limit t then Some (t, False) else None)"
    using Cons by simp
  have late: "late held now limit e \<longleftrightarrow> overdue held now limit u \<and> \<not> l" by (simp add: late_def e)
  show ?case
  proof (cases "u = t")
    case True
    then have "(t, False) \<notin> set ts" using Cons.prems(1) e by force
    then show ?thesis using ih True e late by auto
  next
    case False
    then show ?thesis using ih Cons.prems(2) e late by auto
  qed
qed simp

lemma mon_inv_table:
  assumes "mon_inv m" "table_fits (dm_graph m) t h" "hl_monitored h" "t \<in> fst ` set (dm_threads m)"
  shows "mon_inv (m\<lparr>dm_held := (dm_held m)(t \<mapsto> h)\<rparr>)"
proof -
  have "{u. \<exists>g. ((dm_held m)(t \<mapsto> h)) u = Some g \<and> hl_monitored g} =
      insert t {u. \<exists>g. dm_held m u = Some g \<and> hl_monitored g}"
    using assms(3) by auto
  then show ?thesis
    using assms by (auto simp: mon_inv_def watch_inv_def insert_absorb split: if_splits)
qed

text \<open>One call.\<close>

lemma only_suspect_call:
  assumes inv: "mon_inv m" and t: "(t, l) \<in> set (dm_threads m)" and only: "only_suspect m debugger t (h, now)"
    and run: "m_on_error (dm_options m) \<noteq> On_Error_fail" "m_log_level (dm_options m) \<le> info"
  shows "\<exists>m' msg. one_shot_timer_callback symbolise now debugger (m\<lparr>dm_held := (dm_held m)(t \<mapsto> h)\<rparr>) =
      Some (Running () m') \<and> mon_inv m' \<and> dm_graph m' = dm_graph m \<and> dm_options m' = dm_options m \<and>
    dm_held m' = (dm_held m)(t \<mapsto> h) \<and> map fst (dm_threads m') = map fst (dm_threads m) \<and>
    (t, l \<or> over_limit m debugger (h, now)) \<in> set (dm_threads m') \<and>
    dm_other_errors m' = (dm_other_errors m \<or> (\<not> l \<and> over_limit m debugger (h, now))) \<and>
    (hl_n h = 0 \<longrightarrow> msg = []) \<and> infos (dm_log m') = infos (dm_log m) @
      (if \<not> l \<and> over_limit m debugger (h, now)
       then [build_watchdog_error t (0 < hl_n h) ((now - hl_start h) div 1000) @ msg] else [])"
proof -
  let ?m = "m\<lparr>dm_held := (dm_held m)(t \<mapsto> h)\<rparr>"
  have h: "table_fits (dm_graph m) t h" "hl_monitored h" "hl_start h \<noteq> 0" "hl_start h < now"
    and others: "\<forall>u\<in>fst ` set (dm_threads m). u \<noteq> t \<longrightarrow>
      \<not> overdue (dm_held m) now (max_duration_sec (dm_options m) debugger) u"
    using only by (simp_all add: only_suspect_def)
  have "t \<in> fst ` set (dm_threads m)" using t by force
  then have inv1: "mon_inv ?m" by (rule mon_inv_table [OF inv h(1,2)])
  have dist: "distinct (map fst (dm_threads m))" using mon_invD(3) [OF inv] by (simp add: watch_inv_def)
  have over: "overdue ((dm_held m)(t \<mapsto> h)) now (max_duration_sec (dm_options m) debugger) u =
      (if u = t then over_limit m debugger (h, now)
       else overdue (dm_held m) now (max_duration_sec (dm_options m) debugger) u)" for u
    using h(3,4) by (simp add: overdue_def timed_def over_limit_def)
  have mark: "(t, False) \<in> set (dm_threads m) \<longleftrightarrow> \<not> l" using t dist eq_key_imp_eq_value by fastforce
  have late: "first_late now debugger ?m = (if \<not> l \<and> over_limit m debugger (h, now) then Some (t, False) else None)"
    using find_late_only [of "dm_threads m" t "(dm_held m)(t \<mapsto> h)" now "max_duration_sec (dm_options m) debugger"] others dist mark
    by (simp add: first_late_def over)
  obtain m' ts where c: "one_shot_timer_callback symbolise now debugger ?m = Some
      (if first_late now debugger ?m \<noteq> None \<and> m_on_error (dm_options ?m) = On_Error_fail
       then Terminated (m_exit_code (dm_options ?m)) m' else Running () m')"
    and m': "mon_inv m'" "dm_threads m' = ts" "map fst ts = map fst (dm_threads ?m)" "dm_held m' = dm_held ?m"
      "dm_graph m' = dm_graph ?m" "dm_options m' = dm_options ?m"
      "dm_other_errors m' = (dm_other_errors ?m \<or> first_late now debugger ?m \<noteq> None)"
    and found: "\<forall>u l. first_late now debugger ?m = Some (u, l) \<longrightarrow> (u, True) \<in> set ts \<and>
       (\<exists>msg lg. infos lg = infos (dm_log ?m) \<and> (hl_n (the (dm_held ?m u)) = 0 \<longrightarrow> msg = []) \<and>
         dm_log m' = fst (process_error (dm_options ?m)
          (build_watchdog_error u (0 < hl_n (the (dm_held ?m u)))
            ((now - hl_start (the (dm_held ?m u))) div 1000) @ msg) False lg))"
    and quiet: "first_late now debugger ?m = None \<longrightarrow> infos (dm_log m') = infos (dm_log ?m)"
    and marked: "\<forall>u. (u, True) \<in> set (dm_threads ?m) \<longrightarrow> timed (dm_held ?m) now u \<longrightarrow> (u, True) \<in> set ts"
    and unmarked: "\<forall>u. (u, False) \<in> set (dm_threads ?m) \<longrightarrow> first_late now debugger ?m \<noteq> Some (u, False) \<longrightarrow>
       (u, False) \<in> set ts"
    using callback_spec [OF inv1, of symbolise now debugger] by (elim exE conjE) (rule that)
  have c': "one_shot_timer_callback symbolise now debugger ?m = Some (Running () m')" using c run(1) by simp
  have timed: "timed (dm_held ?m) now t" using h(3,4) by (simp add: timed_def)
  show ?thesis
  proof (cases "\<not> l \<and> over_limit m debugger (h, now)")
    case True
    then have l: "first_late now debugger ?m = Some (t, False)" using late by simp
    then obtain msg lg where "infos lg = infos (dm_log m)" "hl_n h = 0 \<longrightarrow> msg = []"
      "dm_log m' = fst (process_error (dm_options m)
        (build_watchdog_error t (0 < hl_n h) ((now - hl_start h) div 1000) @ msg) False lg)"
      using found by auto
    moreover have "(t, True) \<in> set ts" using found l by blast
    ultimately show ?thesis
      using True c' m' l run(2) by (intro exI [of _ m'] exI [of _ msg]) (simp add: infos_process_error)
  next
    case False
    then have none: "first_late now debugger ?m = None" using late by simp
    have "(t, l) \<in> set ts" using marked unmarked timed none t by (cases l) simp_all
    then have "(t, l \<or> over_limit m debugger (h, now)) \<in> set ts" using False by (cases l) simp_all
    moreover have "\<not> (\<not> l \<and> over_limit m debugger (h, now))" using False .
    ultimately show ?thesis
      using none quiet c' m' by (intro exI [of _ m'] exI [of _ "[]"]) (simp only: if_False, simp)
  qed
qed





section \<open>Failed attempts\<close>

definition has_space :: "rep \<Rightarrow> bool" where
  "has_space g \<longleftrightarrow> int (node_count g) < node_limit"

lemma watched_locks:
  assumes inv: "mon_inv m" and eq: "get_all_locks True t m = (m1, h)"
    and on: "m_thread_watchdog_enabled (dm_options m)"
  shows "infos (dm_log m1) = infos (dm_log m)"
    "dm_threads m1 = (if t \<in> fst ` set (dm_threads m) then dm_threads m else dm_threads m @ [(t, False)])"
proof -
  have watched: "t \<in> fst ` set (dm_threads m) \<longleftrightarrow> (\<exists>h. dm_held m t = Some h \<and> hl_monitored h)"
    using mon_invD(3) [OF inv] on by (simp add: watch_inv_def)
  have log: "infos (dm_log (add_thread t m')) = infos (dm_log m')" for m'
    by (simp add: add_thread_def Let_def infos_log_msg)
  show "infos (dm_log m1) = infos (dm_log m)"
    using eq log by (auto simp: get_all_locks_def Let_def split: if_splits)
  show "dm_threads m1 = (if t \<in> fst ` set (dm_threads m) then dm_threads m else dm_threads m @ [(t, False)])"
    using eq on unfolding watched
    by (cases "dm_held m t") (auto simp: get_all_locks_def Let_def add_thread_enabled held_locks_init_def
        split: if_splits)
qed

text \<open>What an attempt of a thread without locks leaves before it calls the original.\<close>

lemma before_try_lock_idle:
  assumes inv: "mon_inv m" and space: "has_space (dm_graph m)"
    and idle: "hl_n (held_of m (ce_tid env)) = 0" and on: "m_thread_watchdog_enabled (dm_options m)"
  obtains gid m1 h where "before_try_lock env mu m = Some (Running (True, gid)
      (m1\<lparr>dm_held := (dm_held m1)(ce_tid env \<mapsto> h\<lparr>hl_start := le_now env\<rparr>)\<rparr>))"
    "gid \<noteq> 0" "mon_inv m1" "hl_n h = 0" "dm_options m1 = dm_options m" "table_fits (dm_graph m1) (ce_tid env) h"
    "hl_monitored h" "\<And>u. u \<noteq> ce_tid env \<Longrightarrow> dm_held m1 u = dm_held m u" "infos (dm_log m1) = infos (dm_log m)"
    "dm_threads m1 = (if ce_tid env \<in> fst ` set (dm_threads m) then dm_threads m
       else dm_threads m @ [(ce_tid env, False)])"
proof -
  let ?t = "ce_tid env"
  define m0 where "m0 = (if 0 < dm_ignore_lock m ?t
    then m\<lparr>dm_ignore_lock := (dm_ignore_lock m)(?t := dm_ignore_lock m ?t - 1)\<rparr> else m)"
  have m0: "mon_inv m0" "dm_graph m0 = dm_graph m" "dm_threads m0 = dm_threads m" "dm_held m0 = dm_held m"
    "dm_options m0 = dm_options m" "dm_log m0 = dm_log m" "held_of m0 ?t = held_of m ?t"
    using inv by (simp_all add: m0_def mon_inv_def watch_inv_def held_of_def)
  obtain g gid where g: "get_id ?t mu (dm_graph m0) = Some (g, gid)" "got_id (dm_graph m0) mu g gid"
    using get_id_correct [OF mon_invD(1) [OF m0(1)], of ?t mu] space m0(2) by (auto simp: has_space_def)
  then have "rep_inv g" "issued (dm_graph m0) \<subseteq> issued g" "gid \<noteq> 0"
    using id_nonzero [of g mu gid] by (simp_all add: got_id_def)
  then have inv': "mon_inv (m0\<lparr>dm_graph := g\<rparr>)" and gid: "gid \<noteq> 0" using mon_inv_graph [OF m0(1)] by blast+
  obtain m1 h where all: "get_all_locks True ?t (m0\<lparr>dm_graph := g\<rparr>) = (m1, h)" by fastforce
  note h = get_all_locks_spec [OF inv' all]
  have n: "hl_n h = 0" using h(5) idle m0(7) by (simp add: held_of_def)
  have opts: "dm_options m1 = dm_options m" using h(3) m0(5) by (simp add: same_but_held_def)
  have "m_thread_watchdog_enabled (dm_options (m0\<lparr>dm_graph := g\<rparr>))" using on m0(5) by simp
  note w = watched_locks [OF inv' all this]
  have "before_try_lock env mu m = Some (Running (True, gid)
      (m1\<lparr>dm_held := (dm_held m1)(?t \<mapsto> h\<lparr>hl_start := le_now env\<rparr>)\<rparr>))"
    using g(1) all n unfolding before_try_lock_def Let_def m0_def [symmetric] by simp
  then show thesis
    using gid h(1) n opts by (rule that) (use h(7,8,9) w m0 in simp_all)
qed

text \<open>C16: A try-lock sets the start time although it does not wait, and an attempt that fails leaves it.
  If a thread that holds nothing makes an attempt that fails, and then does nothing, the call of the
  watchdog's timer after the limit reports it as waiting to enter a lock for the seconds since the
  attempt (unless the thread was reported before, or another thread is over the limit too). A build
  with assertions stops at the thread's next request instead: its start time should be zero there.\<close>

theorem failed_try_reported_as_waiting:
  fixes env :: lock_env and s0 :: lock_system
  defines "t \<equiv> ce_tid env" and "m \<equiv> lm_monitor s0"
  assumes "mon_inv m" "has_space (dm_graph m)" "m_thread_watchdog_enabled (dm_options m)"
    and "hl_n (held_of m t) = 0" "(t, True) \<notin> set (dm_threads m)"
    and "le_now env \<noteq> 0" "le_now env < now"
    and "max_duration_sec (dm_options m) debugger * 1000 \<le> now - le_now env"
    and "\<forall>u\<in>fst ` set (dm_threads m). u \<noteq> t \<longrightarrow>
      \<not> overdue (dm_held m) now (max_duration_sec (dm_options m) debugger) u"
    and "m_on_error (dm_options m) \<noteq> On_Error_fail" "m_log_level (dm_options m) \<le> info"
  shows "\<exists>s m'. buginsight_tryenter_critical_section env mu False s0 = Some (Running False s) \<and>
    hl_n (held_of (lm_monitor s) t) = 0 \<and> \<not> start_time_assert t (lm_monitor s) \<and>
    one_shot_timer_callback symbolise now debugger (lm_monitor s) = Some (Running () m') \<and>
    dm_other_errors m' \<and>
    infos (dm_log m') = infos (dm_log m) @ [build_watchdog_error t False ((now - le_now env) div 1000)]"
proof -
  obtain gid m1 h where h: "before_try_lock env mu m = Some (Running (True, gid)
      (m1\<lparr>dm_held := (dm_held m1)(t \<mapsto> h\<lparr>hl_start := le_now env\<rparr>)\<rparr>))" "gid \<noteq> 0" "mon_inv m1" "hl_n h = 0"
    "dm_options m1 = dm_options m" "table_fits (dm_graph m1) t h" "hl_monitored h"
    "\<And>u. u \<noteq> t \<Longrightarrow> dm_held m1 u = dm_held m u" "infos (dm_log m1) = infos (dm_log m)"
    "dm_threads m1 = (if t \<in> fst ` set (dm_threads m) then dm_threads m else dm_threads m @ [(t, False)])"
    by (rule before_try_lock_idle [of m env mu, folded t_def, OF assms(3,4,6,5)]) (rule that)
  have mark: "(t, False) \<in> set (dm_threads m1)"
  proof (cases "t \<in> fst ` set (dm_threads m)")
    case True
    then obtain l where "(t, l) \<in> set (dm_threads m)" by auto
    then show ?thesis using h(10) assms(7) True by (cases l) simp_all
  qed (use h(10) in simp)
  let ?h = "h\<lparr>hl_start := le_now env\<rparr>"
  let ?m2 = "m1\<lparr>dm_held := (dm_held m1)(t \<mapsto> ?h)\<rparr>" and ?s1 = "count_lock_call s0"
  have "table_fits (dm_graph m1) t ?h" "hl_monitored ?h"
    using h(6,7) by (simp_all add: table_fits_def hl_inv_def held_ids_def held_list_def)
  moreover have "\<not> overdue (dm_held m1) now (max_duration_sec (dm_options m1) debugger) u"
    if "u \<in> fst ` set (dm_threads m1)" "u \<noteq> t" for u
  proof -
    have "u \<in> fst ` set (dm_threads m)" using that h(10) by (auto split: if_splits)
    then have "\<not> overdue (dm_held m) now (max_duration_sec (dm_options m) debugger) u"
      using assms(11) that(2) by blast
    then show ?thesis using h(8) [OF that(2)] by (simp add: overdue_def timed_def h(5))
  qed
  ultimately have only: "only_suspect m1 debugger t (?h, now)" using assms(8,9) by (simp add: only_suspect_def)
  have "over_limit m1 debugger (?h, now)" using assms(10) by (simp add: over_limit_def h(5))
  then obtain m' where m': "one_shot_timer_callback symbolise now debugger ?m2 = Some (Running () m')"
    "dm_other_errors m'"
    "infos (dm_log m') = infos (dm_log m1) @ [build_watchdog_error t False ((now - le_now env) div 1000)]"
    using only_suspect_call [OF h(3) mark only, of symbolise] assms(12,13) h(4) unfolding h(5) by auto
  have "buginsight_tryenter_critical_section env mu False s0 = Some (Running False (?s1\<lparr>lm_monitor := ?m2\<rparr>))"
    using h(1,2) by (simp add: buginsight_tryenter_critical_section_def try_lock_def and_then_def return_value_def
        on_monitor_def count_lock_call_def m_def)
  moreover have "hl_n (held_of ?m2 t) = 0" by (simp add: held_of_def h(4))
  moreover have "\<not> start_time_assert t ?m2"
    using assms(8) h(4) by (auto simp: start_time_assert_def get_all_locks_def Let_def)
  ultimately show ?thesis
    using m' h(9) by (intro exI [of _ "?s1\<lparr>lm_monitor := ?m2\<rparr>"] exI [of _ m']) simp
qed

theorem failed_try_reported_as_waiting_witness:
  "\<exists>s m'. buginsight_tryenter_critical_section (env_of 7) lock_a False (lock_system_init default_options) =
     Some (Running False s) \<and>
   one_shot_timer_callback (\<lambda>_. []) 40000 False (lm_monitor s) = Some (Running () m') \<and>
   infos (dm_log m') = [build_watchdog_error 7 False 39]"
proof -
  let ?s = "lock_system_init default_options"
  have m: "lm_monitor ?s = monitor_init default_options" by (simp add: lock_system_init_def)
  have init: "dm_graph (monitor_init default_options) = rep_init" "dm_threads (monitor_init default_options) = []"
    "dm_options (monitor_init default_options) = default_options" "dm_log (monitor_init default_options) = []"
    "held_of (monitor_init default_options) t = held_locks_init t" for t
    by (simp_all add: monitor_init_def held_of_def)
  have "hl_n (held_locks_init 7) = 0" "ce_tid (env_of 7) = 7" "le_now (env_of 7) = 1" "has_space rep_init"
    by (simp_all add: held_locks_init_def env_of_def has_space_def node_limit_def)
  moreover have "m_thread_watchdog_enabled default_options" "m_on_error default_options \<noteq> On_Error_fail"
    "m_log_level default_options \<le> info" "max_duration_sec default_options False = 30"
    by (simp_all add: default_options_def max_duration_sec_def)
  moreover have "infos [] = []" by (simp add: infos_def)
  ultimately show ?thesis
    using failed_try_reported_as_waiting [of ?s "env_of 7" 40000 False lock_a "\<lambda>_. []", unfolded m init]
      monitor_init_inv [of default_options] by simp blast
qed

section \<open>Errors of one operation\<close>

text \<open>C17: Releasing a lock that the thread's table does not hold is reported, as not held or, if an
  entry has the address under another id, as deleted by another thread. The table stays as it is and
  the error flag is set; with on_error=fail the process ends.\<close>

theorem release_of_unheld_reported:
  assumes "mon_inv m" "dm_ignore_unlock m (ce_tid env) = 0"
    and "get_id (ce_tid env) mu (dm_graph m) = Some (g, gid)" "has_space (dm_graph m)"
    and "held_count (held_of m (ce_tid env)) gid = 0"
  shows "\<exists>m' msg. after_lock env mu m = Some (if m_on_error (dm_options m) = On_Error_fail
      then Terminated (m_exit_code (dm_options m)) m' else Running () m') \<and>
    held_list (held_of m' (ce_tid env)) = held_list (held_of m (ce_tid env)) \<and>
    dm_other_errors m' = (dm_other_errors m \<or> m_on_error (dm_options m) \<noteq> On_Error_fail) \<and>
    msg = (if \<exists>l\<in>set (held_list (held_of m (ce_tid env))). lk_mu l = mu
      then build_release_locked_deleted_by_other_thread_log_text (ce_tid env) mu (ce_stack_text env)
      else build_release_lock_which_thread_does_hold_log_text (ce_tid env) mu (ce_stack_text env)) \<and>
    dm_log m' = fst (process_error (dm_options m) msg False (dm_log m))"
proof -
  let ?t = "ce_tid env" and ?m0 = "m\<lparr>dm_graph := g\<rparr>"
  define res where "res = (if \<exists>l\<in>set (held_list (held_of m ?t)). lk_mu l = mu then Deleted_By_Other else Not_Held)"
  define msg where "msg = (if \<exists>l\<in>set (held_list (held_of m ?t)). lk_mu l = mu
      then build_release_locked_deleted_by_other_thread_log_text ?t mu (ce_stack_text env)
      else build_release_lock_which_thread_does_hold_log_text ?t mu (ce_stack_text env))"
  obtain g' gid' where "get_id ?t mu (dm_graph m) = Some (g', gid')" "got_id (dm_graph m) mu g' gid'"
    using get_id_correct [OF mon_invD(1) [OF assms(1)], of ?t mu] assms(4) by (auto simp: has_space_def)
  then have "rep_inv g" "issued (dm_graph m) \<subseteq> issued g" using assms(3) by (simp_all add: got_id_def)
  then have inv0: "mon_inv ?m0" by (rule mon_inv_graph [OF assms(1)])
  obtain m1 h where all: "get_all_locks False ?t ?m0 = (m1, h)" by fastforce
  note h = get_all_locks_spec [OF inv0 all]
  have m1: "m1 = ?m0\<lparr>dm_held := (dm_held m)(?t \<mapsto> h)\<rparr>" "h = held_of m ?t"
    using all by (auto simp: get_all_locks_def held_of_def Let_def)
  have upd: "update_lock_history_after_lock mu gid h = Some (h, res)"
    using after_lock_error [OF table_fitsD(1) [OF h(7)], of gid mu] assms(5) unfolding m1(2) res_def by simp
  have rep: "release_report env mu res = dm_report msg False"
    by (auto simp: release_report_def res_def msg_def)
  have "res \<noteq> Released" by (simp add: res_def)
  let ?h = "if hl_n h = 0 then h\<lparr>hl_start := 0\<rparr> else h"
  let ?m1 = "m1\<lparr>dm_log := fst (process_error (dm_options m) msg False (dm_log m))\<rparr>"
  let ?m' = "if m_on_error (dm_options m) = On_Error_fail then ?m1
    else ?m1\<lparr>dm_other_errors := True, dm_held := (dm_held m)(?t \<mapsto> ?h)\<rparr>"
  have "after_lock env mu m = Some (if m_on_error (dm_options m) = On_Error_fail
      then Terminated (m_exit_code (dm_options m)) ?m' else Running () ?m')"
    using assms(2,3) all upd rep \<open>res \<noteq> Released\<close>
    by (simp add: after_lock_def Let_def dm_report_cases next_step_def m1(1))
  then show ?thesis
    unfolding msg_def [symmetric]
    by (intro exI [of _ ?m'] exI [of _ msg]) (simp add: m1 held_of_def held_list_def)
qed

theorem release_of_unheld_reported_witness:
  "\<exists>m'. after_lock (env_of 1) lock_a (monitor_init default_options) = Some (Running () m') \<and>
     dm_other_errors m' \<and> dm_log m' = [(info, build_release_lock_which_thread_does_hold_log_text 1 lock_a [])]"
proof -
  let ?m = "monitor_init default_options"
  have space: "has_space (dm_graph ?m)" by (simp add: has_space_def monitor_init_def node_limit_def)
  obtain g gid where g: "get_id (ce_tid (env_of 1)) lock_a (dm_graph ?m) = Some (g, gid)"
    using get_id_correct [OF rep_init_inv(1), of 1 lock_a] by (auto simp: monitor_init_def node_limit_def)
  have h: "held_of ?m t = held_locks_init t" for t by (simp add: held_of_def monitor_init_def)
  have "held_count (held_of ?m (ce_tid (env_of 1))) gid = 0" unfolding h by (rule held_init_inv)
  moreover have "held_list (held_of ?m 1) = []" unfolding h by (simp add: held_list_def held_locks_init_def)
  moreover have "dm_ignore_unlock ?m (ce_tid (env_of 1)) = 0"
    "m_on_error (dm_options ?m) \<noteq> On_Error_fail" "\<not> dm_other_errors ?m"
    "dm_log ?m = []" "dm_options ?m = default_options" "m_log_level default_options = info"
    by (simp_all add: monitor_init_def default_options_def)
  ultimately show ?thesis
    using release_of_unheld_reported [OF monitor_init_inv _ g space]
    by (auto simp: process_error_def log_msg_def env_of_def Let_def)
qed

text \<open>Deleting a lock that the thread still holds is written to the log, but the error flag, which
  decides about the exit code, is not set: unless on_error=fail ends the process, the error does not
  count.\<close>

theorem delete_of_held_lock_not_counted:
  assumes "mon_inv m" "l \<in> set (held_list (held_of m (ce_tid env)))" "lk_mu l = mu"
  shows "\<exists>m'. delete_lock env mu m = Some (if m_on_error (dm_options m) = On_Error_fail
      then Terminated (m_exit_code (dm_options m)) m' else Running () m') \<and>
    dm_log m' = fst (process_error (dm_options m)
      (build_delete_locked_lock_log_text (ce_tid env) mu (ce_stack_text env)) False (dm_log m)) \<and>
    dm_other_errors m' = dm_other_errors m"
proof -
  let ?t = "ce_tid env"
  obtain g where g: "remove_node mu (dm_graph m) = Some g" using graph.del_law [OF mon_invD(1) [OF assms(1)]] by blast
  obtain m1 h where all: "get_all_locks False ?t (m\<lparr>dm_graph := g\<rparr>) = (m1, h)" by fastforce
  have m1: "m1 = m\<lparr>dm_graph := g, dm_held := (dm_held m)(?t \<mapsto> h)\<rparr>" "h = held_of m ?t"
    using all by (auto simp: get_all_locks_def held_of_def Let_def)
  have "list_ex (\<lambda>l. lk_mu l = mu) (take (hl_n h) (hl_locks h))"
    using assms(2,3) unfolding m1(2) by (auto simp: list_ex_iff held_list_def)
  then have "delete_lock env mu m = dm_report (build_delete_locked_lock_log_text ?t mu (ce_stack_text env)) False m1"
    using g all by (simp add: delete_lock_def Let_def)
  then show ?thesis
    by (intro exI [of _ "m1\<lparr>dm_log := fst (process_error (dm_options m1)
        (build_delete_locked_lock_log_text ?t mu (ce_stack_text env)) False (dm_log m1))\<rparr>"])
      (simp add: dm_report_cases m1(1))
qed

text \<open>A monitor whose thread 1 holds one lock.\<close>

definition holding_monitor :: monitor where
  "holding_monitor = (monitor_init default_options)
     \<lparr>dm_graph := one_lock, dm_held := Map.empty(1 \<mapsto> (held_locks_init 1)
        \<lparr>hl_locks := (hl_locks (held_locks_init 1))[0 := \<lparr>lk_mu = lock_a, lk_count = 1, lk_id = id_a\<rparr>],
         hl_n := 1\<rparr>)\<rparr>"

lemma holding_monitor_inv:
  "mon_inv holding_monitor" "held_list (held_of holding_monitor 1) = [\<lparr>lk_mu = lock_a, lk_count = 1, lk_id = id_a\<rparr>]"
proof -
  let ?l = "\<lparr>lk_mu = lock_a, lk_count = 1, lk_id = id_a\<rparr>"
  let ?h = "(held_locks_init 1)\<lparr>hl_locks := (hl_locks (held_locks_init 1))[0 := ?l], hl_n := 1\<rparr>"
  have n0: "hl_n (held_locks_init 1) = 0" by (simp add: held_locks_init_def)
  have "replicate max_locks no_lock = no_lock # replicate 19 no_lock"
    by (simp add: max_locks_def flip: replicate_Suc)
  then have list: "held_list ?h = [?l]" by (simp add: held_list_def held_locks_init_def)
  have "hl_inv ?h"
    using hl_inv_append(1) [OF held_init_inv(1), of 1 ?l] n0
    by (simp add: max_locks_def held_ids_def held_list_def)
  moreover have "id_a \<in> issued one_lock" "rep_inv one_lock" using one_lock_spec by (simp_all add: got_id_def)
  moreover have "held_ids ?h = {id_a}" unfolding held_ids_def list by simp
  ultimately have "table_fits one_lock 1 ?h" by (simp add: table_fits_def held_locks_init_def)
  then show "mon_inv holding_monitor"
    using \<open>rep_inv one_lock\<close>
    by (auto simp: holding_monitor_def mon_inv_def watch_inv_def monitor_init_def held_locks_init_def)
  show "held_list (held_of holding_monitor 1) = [?l]"
    using list by (simp add: holding_monitor_def held_of_def)
qed

theorem delete_of_held_lock_not_counted_witness:
  "\<exists>m'. delete_lock (env_of 1) lock_a holding_monitor = Some (Running () m') \<and>
     dm_log m' = [(info, build_delete_locked_lock_log_text 1 lock_a [])] \<and> \<not> dm_other_errors m'"
proof -
  have "m_on_error (dm_options holding_monitor) \<noteq> On_Error_fail" "\<not> dm_other_errors holding_monitor"
    "dm_log holding_monitor = []" "dm_options holding_monitor = default_options" "m_log_level default_options = info"
    by (simp_all add: holding_monitor_def monitor_init_def default_options_def)
  then show ?thesis
    using delete_of_held_lock_not_counted [OF holding_monitor_inv(1), of _ "env_of 1" lock_a] holding_monitor_inv(2)
    by (auto simp: process_error_def log_msg_def env_of_def Let_def)
qed

text \<open>Entering a lock again that the thread already owns cannot block, but it is reported as a
  potential deadlock if a lock that was taken after it stands before it in the table. The table gets
  into this order when an earlier lock is released, since its place is taken by the last entry.\<close>

theorem relock_reported:
  assumes "mon_inv m" "dm_ignore_lock m (ce_tid env) = 0" "m_on_error (dm_options m) \<noteq> On_Error_fail"
    and "hl_n (held_of m (ce_tid env)) < max_locks" "has_space (dm_graph m)"
    and "held_ptrs (dm_graph m) (held_of m (ce_tid env)) = xs @ mu # ys" "mu \<notin> set xs"
    and "c \<in> set xs" "(mu, c) \<in> (arcs (dm_graph m))\<^sup>*"
  shows "\<exists>m' gid. before_lock env mu m = Some (Running (True, gid) m') \<and> dm_potential_deadlocks m'"
proof -
  let ?t = "ce_tid env" and ?g = "dm_graph m"
  have "mu \<in> set (held_ptrs ?g (held_of m ?t))" using assms(6) by simp
  then obtain l where l: "l \<in> set (held_list (held_of m ?t))" "mu = the (ptr_of ?g (lk_id l))" "mu \<noteq> 0"
    by (auto simp: held_ptrs_def)
  have known: "lk_id l \<in> issued ?g"
    using l(1) table_fitsD(2) [OF held_of_fits [OF assms(1), of ?t]] by (auto simp: held_ids_def)
  obtain p where p: "ptr_of ?g (lk_id l) = Some p"
    "id_of ?g p = Some (lk_id l) \<or> (p = 0 \<and> (\<forall>q. id_of ?g q \<noteq> Some (lk_id l)))"
    by (rule graph.look_known [OF mon_invD(1) [OF assms(1)] known])
  then have i: "id_of ?g mu = Some (lk_id l)" using l(2,3) by auto
  have "waits_behind ?t mu m = takeWhile (\<lambda>p. p \<noteq> mu) (xs @ mu # ys)"
    using get_id_known [OF mon_invD(1) [OF assms(1)] i, of ?t] assms(6) by (simp add: waits_behind_def)
  also have "\<dots> = xs" using assms(7) by (simp add: takeWhile_append takeWhile_eq_all_conv)
  finally have "closes_cycle ?t mu m" using assms(8,9) by (auto simp: closes_cycle_def)
  then show ?thesis
    using before_lock_spec [OF assms(1) refl assms(2) l(3) assms(4)] assms(3,5) by (auto simp: has_space_def)
qed

text \<open>Thread 1 took \<open>lock_a\<close> and then \<open>lock_b\<close> (so \<open>lock_b\<close> is ordered after \<open>lock_a\<close>), and \<open>lock_b\<close>
  was moved to the front of its table.\<close>

definition reordered_monitor :: monitor where
  "reordered_monitor = (monitor_init default_options)
     \<lparr>dm_graph := ordered_locks, dm_held := Map.empty(1 \<mapsto> (held_locks_init 1)
        \<lparr>hl_locks := (hl_locks (held_locks_init 1))[0 := \<lparr>lk_mu = lock_b, lk_count = 1, lk_id = id_b\<rparr>,
           1 := \<lparr>lk_mu = lock_a, lk_count = 1, lk_id = id_a\<rparr>], hl_n := 2\<rparr>)\<rparr>"

lemma reordered_monitor_spec:
  "mon_inv reordered_monitor" "held_ptrs ordered_locks (held_of reordered_monitor 1) = [lock_b, lock_a]"
  "hl_n (held_of reordered_monitor 1) = 2"
proof -
  let ?b = "\<lparr>lk_mu = lock_b, lk_count = 1, lk_id = id_b\<rparr>" and ?a = "\<lparr>lk_mu = lock_a, lk_count = 1, lk_id = id_a\<rparr>"
  let ?h0 = "held_locks_init 1"
  let ?h1 = "?h0\<lparr>hl_locks := (hl_locks ?h0)[0 := ?b], hl_n := 1\<rparr>"
  let ?h = "?h0\<lparr>hl_locks := (hl_locks ?h0)[0 := ?b, 1 := ?a], hl_n := 2\<rparr>"
  note ids = ordered_locks_spec(1-3)
  have ne: "id_a \<noteq> id_b" using id_unique [OF ids(1,2)] ids(3) locks_distinct by metis
  have "replicate max_locks no_lock = no_lock # no_lock # replicate 18 no_lock"
    by (simp add: max_locks_def flip: replicate_Suc)
  then have list: "held_list ?h1 = [?b]" "held_list ?h = [?b, ?a]"
    by (simp_all add: held_list_def held_locks_init_def)
  have "hl_inv ?h1"
    using hl_inv_append(1) [OF held_init_inv(1), of 1 ?b]
    by (simp add: max_locks_def held_ids_def held_list_def held_locks_init_def)
  from hl_inv_append(1) [OF this, of ?a] have "hl_inv ?h"
    using ne unfolding held_ids_def list by (simp add: max_locks_def numeral_2_eq_2)
  moreover have known: "id_a \<in> issued ordered_locks" "id_b \<in> issued ordered_locks"
    using graph.ids_law [OF ids(1)] ids(2,3) by blast+
  moreover have "held_ids ?h = {id_b, id_a}" unfolding held_ids_def list by simp
  ultimately have "table_fits ordered_locks 1 ?h" by (simp add: table_fits_def held_locks_init_def)
  then show "mon_inv reordered_monitor"
    using ids(1) by (auto simp: reordered_monitor_def mon_inv_def watch_inv_def monitor_init_def held_locks_init_def)
  have h: "held_of reordered_monitor 1 = ?h" by (simp add: reordered_monitor_def held_of_def)
  have "ptr_of ordered_locks id_a = Some lock_a" "ptr_of ordered_locks id_b = Some lock_b"
    using graph.ptr_law(1) [OF ids(1) known(1) ids(2)] graph.ptr_law(1) [OF ids(1) known(2) ids(3)] by simp_all
  then show "held_ptrs ordered_locks (held_of reordered_monitor 1) = [lock_b, lock_a]"
    unfolding h held_ptrs_def list by (simp add: lock_a_def lock_b_def)
  show "hl_n (held_of reordered_monitor 1) = 2" unfolding h by simp
qed

lemma ordered_locks_space: "has_space ordered_locks"
proof -
  obtain r ok where "insert_edge id_a id_b two_locks = Some (r, ok)" "node_count r = node_count two_locks"
    using graph.ins_law [OF two_locks_spec(1-3)] by blast
  then show ?thesis using two_locks_spec(5) by (simp add: has_space_def ordered_locks_def node_limit_def)
qed

theorem relock_reported_witness:
  "\<exists>m' gid. before_lock (env_of 1) lock_a reordered_monitor = Some (Running (True, gid) m') \<and>
     dm_potential_deadlocks m'"
proof -
  have m: "dm_graph reordered_monitor = ordered_locks" "dm_ignore_lock reordered_monitor = (\<lambda>_. 0)"
    "m_on_error (dm_options reordered_monitor) \<noteq> On_Error_fail"
    by (simp_all add: reordered_monitor_def monitor_init_def default_options_def)
  show ?thesis
    by (rule relock_reported [OF reordered_monitor_spec(1), where xs = "[lock_b]" and ys = "[]" and c = lock_b])
      (use m reordered_monitor_spec(2,3) ordered_locks_space ordered_path locks_distinct in
        \<open>simp_all add: max_locks_def\<close>)
qed

end
