(* ===== verification/Options_Parser.thy ===== *)
theory Options_Parser
  imports Reporting
begin

text \<open>
  The launcher's options (\<^verbatim>\<open>buginsight/options_parser.cpp\<close>): a list of keys and values becomes
  \<open>user_options\<close>. A call answers true, answers false after an error message, or ends with an exception
  of \<^verbatim>\<open>std::stoi\<close> or \<^verbatim>\<open>std::stoull\<close>; the options are changed in place, also by a call that fails later.
\<close>

section \<open>Results\<close>

type_synonym configuration_list = "(string \<times> string) list"

datatype exn = Invalid_Argument | Out_Of_Range

datatype answer = Accepted | Refused string | Thrown exn

section \<open>Numbers\<close>

definition isdigit :: "string \<Rightarrow> bool" where
  "isdigit s =
     (if length s = 0 then False
      else if length s = 1 then is_digit (s ! 0)
      else list_all is_digit s)"

text \<open>\<^verbatim>\<open>std::stoi\<close> of a string of digits.\<close>

definition stoi :: "string \<Rightarrow> exn + int" where
  "stoi s = (if int (read_nat s) < 2 ^ 31 then Inr (int (read_nat s)) else Inl Out_Of_Range)"

text \<open>
  \<^verbatim>\<open>std::stoull\<close> with base 16: blanks, a sign, the prefix \<^verbatim>\<open>0x\<close>, and then as many hexadecimal digits as
  there are; what follows them is ignored. A negated number wraps around.
\<close>

definition is_blank :: "char \<Rightarrow> bool" where
  "is_blank c \<longleftrightarrow> (of_char c :: nat) = 32 \<or> 9 \<le> (of_char c :: nat) \<and> (of_char c :: nat) \<le> 13"

definition hex_value :: "char \<Rightarrow> nat option" where
  "hex_value c = (let n = of_char c in
     if 48 \<le> n \<and> n \<le> 57 then Some (n - 48)
     else if 65 \<le> n \<and> n \<le> 70 then Some (n - 55)
     else if 97 \<le> n \<and> n \<le> 102 then Some (n - 87)
     else None)"

definition hex_digits :: "string \<Rightarrow> string" where
  "hex_digits s = takeWhile (\<lambda>c. hex_value c \<noteq> None) s"

definition read_hex :: "string \<Rightarrow> nat" where
  "read_hex s = foldl (\<lambda>n c. 16 * n + the (hex_value c)) 0 s"

definition skip_0x :: "string \<Rightarrow> string" where
  "skip_0x s = (case s of
       a # b # c # r \<Rightarrow> if a = CHR ''0'' \<and> b \<in> {CHR ''x'', CHR ''X''} \<and> hex_value c \<noteq> None
                        then c # r else s
     | _ \<Rightarrow> s)"

definition skip_sign :: "string \<Rightarrow> bool \<times> string" where
  "skip_sign s = (case s of
       c # r \<Rightarrow> if c = CHR ''-'' then (True, r) else if c = CHR ''+'' then (False, r) else (False, s)
     | [] \<Rightarrow> (False, []))"

definition stoull_hex :: "string \<Rightarrow> exn + u64" where
  "stoull_hex s = (let (minus, t) = skip_sign (dropWhile is_blank s); ds = hex_digits (skip_0x t) in
     if ds = [] then Inl Invalid_Argument
     else if 2 ^ 64 \<le> read_hex ds then Inl Out_Of_Range
     else Inr (if minus then - of_nat (read_hex ds) else of_nat (read_hex ds)))"

fun parse_ids :: "string list \<Rightarrow> exn + u64 list" where
  "parse_ids [] = Inr []"
| "parse_ids (s # ss) = (case stoull_hex s of
       Inl e \<Rightarrow> Inl e
     | Inr n \<Rightarrow> (case parse_ids ss of Inl e \<Rightarrow> Inl e | Inr ns \<Rightarrow> Inr (n # ns)))"

section \<open>Ignored modules\<close>

definition escape_char :: "char \<Rightarrow> string" where
  "escape_char c =
     (if c = CHR ''*'' then ''.*''
      else if c \<in> {CHR ''?'', CHR ''.'', CHR 0x5C, CHR ''+'', CHR ''^'', CHR ''$'', CHR ''|'',
                   CHR ''('', CHR '')'', CHR ''['', CHR '']'', CHR ''{'', CHR ''}''}
      then [CHR 0x5C, c]
      else [c])"

definition regex_pattern :: "string \<Rightarrow> string" where
  "regex_pattern name = concat (map escape_char name)"

text \<open>\<^verbatim>\<open>substr(pos, n)\<close> for a position inside the string; the length is computed in \<^verbatim>\<open>size_t\<close>.\<close>

definition substr :: "string \<Rightarrow> nat \<Rightarrow> u64 \<Rightarrow> string" where
  "substr s pos n = take (unat n) (drop pos s)"

definition ignore_modules_message :: "string \<Rightarrow> string \<Rightarrow> string" where
  "ignore_modules_message need value =
     ''Option '' @ quoted ''ignore_modules'' @ need @ '', invalide value: '' @ quoted value"

definition need_both_brackets :: string where
  "need_both_brackets = '' requires both '' @ quoted ''{..}'' @ '' or no '' @ quoted ''{}''"

definition need_letters :: string where
  "need_letters = '' '' @ quoted ''{..}'' @ '' needs '' @ quoted ''l'' @ '' and/or '' @ quoted ''m'' @
     '' inside brackets'' @ [CHR 0x27]"

definition blacklist_entry :: "string \<Rightarrow> bool \<Rightarrow> bool \<Rightarrow> blacklist_info" where
  "blacklist_entry name leaks locks =
     \<lparr>m_regex_string = regex_pattern name, m_original_string = name,
      m_ignore_memory_leak = leaks, m_ignore_lock = locks\<rparr>"

definition parse_to_blacklist_info :: "string \<Rightarrow> string + blacklist_info" where
  "parse_to_blacklist_info s = (let name = to_lower s in
     case find_char CHR ''{'' s of
       Some op \<Rightarrow>
         (case find_char CHR ''}'' s of
           None \<Rightarrow> Inl (ignore_modules_message need_both_brackets s)
         | Some cl \<Rightarrow>
             let options = substr s (op + 1) (of_nat cl - of_nat op - 1) in
             if options = [] then Inl (ignore_modules_message need_letters s)
             else Inr (blacklist_entry (take op name) (find_char CHR ''m'' options \<noteq> None)
                         (find_char CHR ''l'' options \<noteq> None)))
     | None \<Rightarrow>
         (case find_char CHR ''}'' s of
           Some _ \<Rightarrow> Inl (ignore_modules_message need_both_brackets s)
         | None \<Rightarrow> Inr (blacklist_entry name True True)))"

fun add_ignored_modules :: "string list \<Rightarrow> user_options \<Rightarrow> answer \<times> user_options" where
  "add_ignored_modules [] opts = (Accepted, opts)"
| "add_ignored_modules (s # ss) opts =
     (case parse_to_blacklist_info s of
       Inl message \<Rightarrow> (Refused message, opts)
     | Inr b \<Rightarrow>
         let o1 = (if m_ignore_lock b
                   then opts\<lparr>m_blacklist_modules_deadlocks := m_blacklist_modules_deadlocks opts @ [b]\<rparr>
                   else opts);
             o2 = (if m_ignore_memory_leak b
                   then o1\<lparr>m_blacklist_modules_memory_leaks := m_blacklist_modules_memory_leaks o1 @ [b]\<rparr>
                   else o1)
         in add_ignored_modules ss o2)"

section \<open>One option\<close>

definition known_keys :: "string list" where
  "known_keys = [''log_to'', ''log_level'', ''log_to_debug_out'', ''on_error'', ''thread_watchdog'',
     ''thread_watchdog_max_duration_sec'', ''exit_code'', ''suppress_by_id'', ''ignore_modules'',
     ''config_file'', ''callstacks'', ''start_detached'']"

definition requires_message :: "string \<Rightarrow> string \<Rightarrow> string \<Rightarrow> answer" where
  "requires_message key choice value =
     Refused (''Option '' @ quoted key @ '' requires value '' @ choice @ '' but got '' @ quoted value)"

definition no_number_message :: "string \<Rightarrow> string \<Rightarrow> answer" where
  "no_number_message key value =
     Refused (''Value '' @ quoted value @ '' for option '' @ quoted key @ '' is not number'')"

text \<open>One of the texts of a table, or the message with the choices.\<close>

definition choose_value ::
  "string \<Rightarrow> string \<Rightarrow> string \<Rightarrow> (string \<times> 'a) list \<Rightarrow> ('a \<Rightarrow> user_options) \<Rightarrow> user_options
     \<Rightarrow> answer \<times> user_options" where
  "choose_value key choice value table put opts =
     (case map_of table value of
       Some x \<Rightarrow> (Accepted, put x)
     | None \<Rightarrow> (requires_message key choice value, opts))"

definition log_levels :: "(string \<times> log_level) list" where
  "log_levels = [(''trace'', trace), (''debug'', debug), (''info'', info), (''warn'', warn),
     (''error'', err), (''fatal'', critical), (''off'', off)]"

definition on_error_choices :: "(string \<times> on_error_option) list" where
  "on_error_choices = [(''continue'', On_Error_continue), (''fail'', On_Error_fail),
     (''fail_on_exit'', On_Error_fail_on_exit)]"

definition debug_out_choices :: "(string \<times> log_to_debug_out_option) list" where
  "debug_out_choices = [(''enabled'', Debug_enabled), (''disabled'', Debug_disabled),
     (''debugger'', Debug_enabled_in_debugger)]"

definition true_false :: "(string \<times> bool) list" where
  "true_false = [(''true'', True), (''false'', False)]"

fun set_log_targets :: "string list \<Rightarrow> user_options \<Rightarrow> user_options" where
  "set_log_targets [] opts = opts"
| "set_log_targets (t # ts) opts = set_log_targets ts
     (if t = ''stdout'' then opts\<lparr>m_log_to_stdout := True\<rparr> else opts\<lparr>m_log_to_file := t\<rparr>)"

definition max_seconds :: int where
  "max_seconds = 24 * 60 * 60"

definition set_max_duration :: "string \<Rightarrow> string \<Rightarrow> user_options \<Rightarrow> answer \<times> user_options" where
  "set_max_duration key value opts =
     (if \<not> isdigit value then (no_number_message key value, opts)
      else case stoi value of
        Inl e \<Rightarrow> (Thrown e, opts)
      | Inr n \<Rightarrow>
          if n > 1 \<and> n \<le> max_seconds
          then (Accepted, opts\<lparr>m_thread_watchdog_max_duration_sec := word_of_int n\<rparr>)
          else (requires_message key (''2..'' @ show_int max_seconds) value, opts))"

definition set_exit_code :: "string \<Rightarrow> string \<Rightarrow> user_options \<Rightarrow> answer \<times> user_options" where
  "set_exit_code key value opts =
     (if \<not> isdigit value then (no_number_message key value, opts)
      else case stoi value of
        Inl e \<Rightarrow> (Thrown e, opts)
      | Inr n \<Rightarrow>
          if n \<ge> 0 \<and> n < 127 then (Accepted, opts\<lparr>m_exit_code := n\<rparr>)
          else (requires_message key (''1..'' @ show_int 126) value, opts))"

definition parse_option :: "string \<Rightarrow> string \<Rightarrow> user_options \<Rightarrow> answer \<times> user_options" where
  "parse_option key value opts =
     (if key \<notin> set known_keys then (Refused (''Option '' @ quoted key @ '' is not known''), opts)
      else if value = [] then (Refused (''Value from key '' @ quoted key @ '' is empty''), opts)
      else if key = ''log_to'' then
        let ts = split_at CHR '','' value in
        if ts = [] then (Refused (''Value '' @ value @ [CHR 0x27] @ '' not a valid log options''), opts)
        else (Accepted, set_log_targets ts (opts\<lparr>m_log_to_stdout := False\<rparr>))
      else if key = ''log_level'' then
        choose_value key (quoted ''trace|debug|info|warn|error|fatal|off'') value log_levels
          (\<lambda>x. opts\<lparr>m_log_level := x\<rparr>) opts
      else if key = ''on_error'' then
        choose_value key (quoted ''continue|fail|fail_on_exit'') value on_error_choices
          (\<lambda>x. opts\<lparr>m_on_error := x\<rparr>) opts
      else if key = ''log_to_debug_out'' then
        choose_value key (quoted ''enabled|disabled|debugger'') value debug_out_choices
          (\<lambda>x. opts\<lparr>m_log_to_debug_out := x\<rparr>) opts
      else if key = ''thread_watchdog'' then
        choose_value key ''true/false'' value true_false (\<lambda>x. opts\<lparr>m_thread_watchdog_enabled := x\<rparr>) opts
      else if key = ''thread_watchdog_max_duration_sec'' then set_max_duration key value opts
      else if key = ''exit_code'' then set_exit_code key value opts
      else if key = ''suppress_by_id'' then
        (case parse_ids (split_at CHR ''|'' value) of
          Inl e \<Rightarrow> (Thrown e, opts)
        | Inr ids \<Rightarrow> (Accepted, opts\<lparr>m_ids_to_suppress := ids\<rparr>))
      else if key = ''ignore_modules'' then add_ignored_modules (split_at CHR '','' value) opts
      else if key = ''config_file'' then (Accepted, opts)
      else if key = ''callstacks'' then
        choose_value key ''true/false'' value true_false (\<lambda>x. opts\<lparr>m_collect_callstacks := x\<rparr>) opts
      else if key = ''start_detached'' then
        choose_value key ''true/false'' value true_false (\<lambda>x. opts\<lparr>m_start_detached := x\<rparr>) opts
      else (Accepted, opts))"

fun parse_options :: "configuration_list \<Rightarrow> user_options \<Rightarrow> answer \<times> user_options" where
  "parse_options [] opts = (Accepted, opts)"
| "parse_options ((key, value) # rest) opts =
     (case parse_option key value opts of
       (Accepted, opts') \<Rightarrow> parse_options rest opts'
     | (Refused message, opts') \<Rightarrow> (Refused message, opts')
     | (Thrown e, opts') \<Rightarrow> (Thrown e, opts'))"

text \<open>\<^verbatim>\<open>partition\<close>: the text before and after the first separator, or two empty texts.\<close>

definition partition_at :: "string \<Rightarrow> char \<Rightarrow> string \<times> string" where
  "partition_at input c =
     (case find_char c input of Some pos \<Rightarrow> (take pos input, drop (pos + 1) input) | None \<Rightarrow> ([], []))"

end
