(* ===== verification/Launcher.thy ===== *)
theory Launcher
  imports Options_Parser
begin

text \<open>
  The launcher (\<^verbatim>\<open>buginsight/command_line_parser.cpp\<close>, \<^verbatim>\<open>main.cpp\<close>, \<^verbatim>\<open>application_under_test.cpp\<close>) and the
  shared memory through which the options reach the DLL (\<^verbatim>\<open>shared/shared_settings.cpp\<close>). What
  \<^verbatim>\<open>boost::program_options\<close> stored, the text archive of the options and the answers of Windows are
  arguments.
\<close>

section \<open>Command line\<close>

type_synonym wstring = "16 word list"

text \<open>Which options were given, with their values (\<^verbatim>\<open>po::variables_map\<close>).\<close>

record variables_map =
  vm_version :: bool
  vm_help :: bool
  vm_callstacks :: "bool option"
  vm_log_to :: "string option"
  vm_log_to_debug_out :: "string option"
  vm_log_level :: "string option"
  vm_on_error :: "string option"
  vm_start_detached :: "bool option"
  vm_thread_watchdog_max_duration_sec :: "int option"
  vm_thread_watchdog :: "int option"
  vm_exit_code :: "int option"
  vm_suppress_by_id :: "string option"
  vm_ignore_modules :: "string option"
  vm_application_with_parameter :: "string list option"

definition option_text :: "string \<Rightarrow> ('a \<Rightarrow> string) \<Rightarrow> 'a option \<Rightarrow> configuration_list" where
  "option_text key to_text v = (case v of None \<Rightarrow> [] | Some x \<Rightarrow> [(key, to_text x)])"

definition configuration_of :: "variables_map \<Rightarrow> configuration_list" where
  "configuration_of vm =
     option_text ''callstacks'' show_bool (vm_callstacks vm) @
     option_text ''log_to'' id (vm_log_to vm) @
     option_text ''log_to_debug_out'' id (vm_log_to_debug_out vm) @
     option_text ''log_level'' id (vm_log_level vm) @
     option_text ''on_error'' id (vm_on_error vm) @
     option_text ''start_detached'' show_bool (vm_start_detached vm) @
     option_text ''thread_watchdog_max_duration_sec'' show_int (vm_thread_watchdog_max_duration_sec vm) @
     option_text ''thread_watchdog'' show_int (vm_thread_watchdog vm) @
     option_text ''exit_code'' show_int (vm_exit_code vm) @
     option_text ''suppress_by_id'' id (vm_suppress_by_id vm) @
     option_text ''ignore_modules'' id (vm_ignore_modules vm)"

text \<open>\<^verbatim>\<open>std::wstring(i.begin(), i.end())\<close>: each \<^verbatim>\<open>char\<close>, which is signed, becomes a \<^verbatim>\<open>wchar_t\<close>.\<close>

definition widen :: "string \<Rightarrow> wstring" where
  "widen s = map (\<lambda>c. scast (of_char c :: u8)) s"

fun append_parameters :: "wstring \<Rightarrow> string list \<Rightarrow> wstring" where
  "append_parameters w [] = w"
| "append_parameters w (s # ss) = append_parameters (w @ (if w = [] then [] else widen '' '') @ widen s) ss"

record command_line =
  cl_configuration :: configuration_list
  cl_start_detached :: bool
  cl_application :: wstring

text \<open>
  \<^verbatim>\<open>command_line_parser::parse\<close>: the exit code of the launcher, or what is to be started. The variables
  map is missing if \<^verbatim>\<open>program_options\<close> threw an exception.
\<close>

definition parse_command_line :: "nat \<Rightarrow> variables_map option \<Rightarrow> int + command_line" where
  "parse_command_line ac parsed =
     (case parsed of
       None \<Rightarrow> Inl 1
     | Some vm \<Rightarrow>
         if vm_version vm then Inl 0
         else if ac = 1 \<or> vm_help vm \<or> vm_application_with_parameter vm = None then Inl 0
         else Inr \<lparr>cl_configuration = configuration_of vm,
                   cl_start_detached = (case vm_start_detached vm of None \<Rightarrow> False | Some b \<Rightarrow> b),
                   cl_application = (case vm_application_with_parameter vm of
                      None \<Rightarrow> [] | Some ss \<Rightarrow> append_parameters [] ss)\<rparr>)"

section \<open>Shared memory\<close>

text \<open>The named segments of shared memory, each with the characters of its object \<^verbatim>\<open>user_options\<close>.\<close>

type_synonym segments = "string \<Rightarrow> string option"

definition shared_memory_name :: "u32 \<Rightarrow> string" where
  "shared_memory_name pid =
     ''de/'' @ to_lower ''BugInsight'' @ ''/shared_memory/'' @ show_nat (unat pid)"

text \<open>The object has one more character than the text, and all characters are first set to zero.\<close>

definition save_user_options ::
  "(user_options \<Rightarrow> string) \<Rightarrow> u32 \<Rightarrow> user_options \<Rightarrow> segments \<Rightarrow> segments" where
  "save_user_options archive pid opts shm =
     (let s = archive opts; i = replicate (length s + 1) CHR 0x00
      in shm(shared_memory_name pid \<mapsto> s @ drop (length s) i))"

text \<open>The text ends at the first zero; a missing segment is an exception of the library.\<close>

definition get_user_options ::
  "(string \<Rightarrow> user_options) \<Rightarrow> u32 \<Rightarrow> segments \<Rightarrow> user_options option" where
  "get_user_options unarchive pid shm =
     map_option (\<lambda>s. unarchive (takeWhile (\<lambda>c. c \<noteq> CHR 0x00) s)) (shm (shared_memory_name pid))"

section \<open>Starting the application\<close>

text \<open>
  One round of the loop that copies the output: whether the process has ended, what it wrote since
  the last round, and whether the calls on the pipe and on the console succeed.
\<close>

record pipe_round =
  pr_exited :: bool
  pr_written :: string
  pr_peek_ok :: bool
  pr_read_ok :: bool
  pr_write_ok :: bool

definition buffer_size :: nat where
  "buffer_size = 4096"

text \<open>The loop; \<open>None\<close> while the process still runs after the given rounds.\<close>

fun copy_output :: "pipe_round list \<Rightarrow> string \<Rightarrow> string \<Rightarrow> string option" where
  "copy_output [] pipe out = None"
| "copy_output (r # rs) pipe out =
     (let pipe1 = pipe @ pr_written r in
      if pr_peek_ok r \<and> pipe1 \<noteq> [] then
        if \<not> pr_read_ok r \<or> \<not> pr_write_ok r then Some out
        else
          let out1 = out @ take buffer_size pipe1
          in if pr_exited r then Some out1 else copy_output rs (drop buffer_size pipe1) out1
      else if pr_exited r then Some out else copy_output rs pipe1 out)"

text \<open>
  \<^verbatim>\<open>os_process_id\<close> is the process id if the process was created. In detached mode the answer of the
  wait for the application only selects a message.
\<close>

record os_answers =
  os_pipe_ok :: bool
  os_process_id :: "wstring \<Rightarrow> u32 option"
  os_event_ok :: bool
  os_inject_ok :: bool
  os_resume_ok :: bool
  os_rounds :: "pipe_round list"
  os_exit_code :: "u32 option"

text \<open>
  \<^verbatim>\<open>detour_create_process_routinew\<close>: whether it succeeds, and the shared memory. The options in
  \<^verbatim>\<open>g_user_options\<close> are an argument.
\<close>

definition create_process_routine ::
  "(user_options \<Rightarrow> string) \<Rightarrow> os_answers \<Rightarrow> user_options \<Rightarrow> wstring \<Rightarrow> segments \<Rightarrow> bool \<times> segments" where
  "create_process_routine archive os opts app shm =
     (case os_process_id os app of
       None \<Rightarrow> (False, shm)
     | Some pid \<Rightarrow>
         let shm1 = save_user_options archive pid opts shm
         in if m_start_detached opts \<and> \<not> os_event_ok os then (False, shm1) else (True, shm1))"

text \<open>
  \<^verbatim>\<open>start_application_under_test\<close>: exit code, shared memory and the output passed on; \<open>None\<close> while
  the application runs.
\<close>

definition start_application_under_test ::
  "(user_options \<Rightarrow> string) \<Rightarrow> os_answers \<Rightarrow> user_options \<Rightarrow> bool \<Rightarrow> wstring \<Rightarrow> segments
     \<Rightarrow> (int \<times> segments \<times> string) option" where
  "start_application_under_test archive os opts start_detached app shm =
     (if \<not> start_detached \<and> \<not> os_pipe_ok os then Some (1, shm, [])
      else let (created, shm1) = create_process_routine archive os opts app shm in
        if \<not> created \<or> \<not> os_inject_ok os then Some (1, shm1, [])
        else if \<not> os_resume_ok os then Some (1, shm1, [])
        else if start_detached then Some (0, shm1, [])
        else map_option (\<lambda>out. case os_exit_code os of
                 None \<Rightarrow> (1, shm1, out)
               | Some c \<Rightarrow> (sint c, shm1, out))
               (copy_output (os_rounds os) [] []))"

section \<open>The program\<close>

text \<open>\<^verbatim>\<open>pre_checks\<close>: the DLL has to be beside the launcher.\<close>

definition pre_checks :: "bool \<Rightarrow> int" where
  "pre_checks dll_exists = (if \<not> dll_exists then 1 else 0)"

text \<open>
  The part of \<^verbatim>\<open>wmain\<close> before the start: the exit code, or the options (\<^verbatim>\<open>g_user_options\<close>) and the
  command line. An exception of the options parser is caught.
\<close>

definition prepare ::
  "bool \<Rightarrow> nat \<Rightarrow> variables_map option \<Rightarrow> int + (user_options \<times> command_line)" where
  "prepare dll_exists ac parsed =
     (if pre_checks dll_exists \<noteq> 0 then Inl (pre_checks dll_exists)
      else case parse_command_line ac parsed of
        Inl code \<Rightarrow> Inl code
      | Inr cl \<Rightarrow> (case parse_options (cl_configuration cl) default_options of
          (Accepted, opts) \<Rightarrow> Inr (opts, cl)
        | (Refused message, opts) \<Rightarrow> Inl 1
        | (Thrown e, opts) \<Rightarrow> Inl 1))"

definition wmain ::
  "(user_options \<Rightarrow> string) \<Rightarrow> os_answers \<Rightarrow> bool \<Rightarrow> nat \<Rightarrow> variables_map option \<Rightarrow> segments
     \<Rightarrow> (int \<times> segments \<times> string) option" where
  "wmain archive os dll_exists ac parsed shm =
     (case prepare dll_exists ac parsed of
       Inl code \<Rightarrow> Some (code, shm, [])
     | Inr (opts, cl) \<Rightarrow> start_application_under_test archive os opts (cl_start_detached cl)
         (cl_application cl) shm)"

end
