(* ===== verification/Module_Patterns.thy ===== *)
theory Module_Patterns
  imports Options_Parser
begin

text \<open>
  The patterns of \<^verbatim>\<open>ignore_modules\<close>. The parser turns a name with wildcards into a regular expression,
  and the DLL matches module names with \<^verbatim>\<open>std::regex_match\<close>; \<open>regex_match\<close> is its meaning on the
  expressions the parser makes: escaped characters, the sequence of any characters, and others.
\<close>

section \<open>Matching\<close>

definition line_break :: "char \<Rightarrow> bool" where
  "line_break c \<longleftrightarrow> c = CHR 0x0A \<or> c = CHR 0x0D"

function regex_match :: "string \<Rightarrow> string \<Rightarrow> bool" where
  "regex_match re s =
     (case re of
       [] \<Rightarrow> s = []
     | a # re1 \<Rightarrow>
         if a = CHR 0x5C \<and> re1 \<noteq> [] then
           (case s of [] \<Rightarrow> False | x # xs \<Rightarrow> x = hd re1 \<and> regex_match (tl re1) xs)
         else if a = CHR ''.'' \<and> re1 \<noteq> [] \<and> hd re1 = CHR ''*'' then
           regex_match (tl re1) s \<or>
           (case s of [] \<Rightarrow> False | x # xs \<Rightarrow> \<not> line_break x \<and> regex_match re xs)
         else (case s of [] \<Rightarrow> False | x # xs \<Rightarrow> x = a \<and> regex_match re1 xs))"
  by pat_completeness auto
termination
  by (relation "measure (\<lambda>(re, s). length re + length s)") auto

declare regex_match.simps [simp del]

text \<open>What the wildcards mean: each star stands for some text.\<close>

fun stars :: "string \<Rightarrow> nat" where
  "stars [] = 0"
| "stars (c # p) = (if c = CHR ''*'' then Suc (stars p) else stars p)"

fun fill :: "string \<Rightarrow> string list \<Rightarrow> string" where
  "fill [] gaps = []"
| "fill (c # p) gaps =
     (if c = CHR ''*'' then (case gaps of [] \<Rightarrow> fill p [] | g # gs \<Rightarrow> g @ fill p gs)
      else c # fill p gaps)"

definition wildcard_match :: "string \<Rightarrow> string \<Rightarrow> bool" where
  "wildcard_match p name \<longleftrightarrow> (\<exists>gaps. length gaps = stars p \<and> name = fill p gaps)"

lemma wildcard_match_Nil: "wildcard_match [] name \<longleftrightarrow> name = []"
  by (simp add: wildcard_match_def)

lemma wildcard_match_char:
  "c \<noteq> CHR ''*'' \<Longrightarrow> wildcard_match (c # p) name \<longleftrightarrow> (\<exists>xs. name = c # xs \<and> wildcard_match p xs)"
  by (auto simp: wildcard_match_def)

lemma wildcard_match_star:
  "wildcard_match (CHR ''*'' # p) name \<longleftrightarrow> (\<exists>g xs. name = g @ xs \<and> wildcard_match p xs)"
proof
  assume "wildcard_match (CHR ''*'' # p) name"
  then obtain gaps where "length gaps = Suc (stars p)" "name = fill (CHR ''*'' # p) gaps"
    by (auto simp: wildcard_match_def)
  then show "\<exists>g xs. name = g @ xs \<and> wildcard_match p xs"
    by (cases gaps) (auto simp: wildcard_match_def)
next
  assume "\<exists>g xs. name = g @ xs \<and> wildcard_match p xs"
  then obtain g gaps where "length gaps = stars p" "name = g @ fill p gaps"
    by (auto simp: wildcard_match_def)
  then show "wildcard_match (CHR ''*'' # p) name"
    unfolding wildcard_match_def by (intro exI [of _ "g # gaps"]) simp
qed

section \<open>The expression matches what the wildcards mean\<close>

lemma regex_match_Nil: "regex_match [] s \<longleftrightarrow> s = []"
  by (subst regex_match.simps) simp

lemma regex_match_star:
  "regex_match (CHR ''.'' # CHR ''*'' # re) s \<longleftrightarrow>
     (\<exists>g xs. s = g @ xs \<and> list_all (\<lambda>c. \<not> line_break c) g \<and> regex_match re xs)"
proof (induction s)
  case Nil
  show ?case by (subst regex_match.simps) simp
next
  case (Cons x s)
  show ?case (is "_ \<longleftrightarrow> ?r")
  proof
    assume "regex_match (CHR ''.'' # CHR ''*'' # re) (x # s)"
    then have "regex_match re (x # s) \<or> \<not> line_break x \<and> regex_match (CHR ''.'' # CHR ''*'' # re) s"
      by (subst (asm) regex_match.simps) simp
    then show ?r
    proof
      assume "regex_match re (x # s)"
      then show ?r by (intro exI [of _ "[]"] exI [of _ "x # s"]) simp
    next
      assume 2: "\<not> line_break x \<and> regex_match (CHR ''.'' # CHR ''*'' # re) s"
      then obtain g xs where "s = g @ xs" "list_all (\<lambda>c. \<not> line_break c) g" "regex_match re xs"
        using Cons.IH by blast
      then show ?r using 2 by (intro exI [of _ "x # g"] exI [of _ xs]) simp
    qed
  next
    assume ?r
    then obtain g xs where g: "x # s = g @ xs" "list_all (\<lambda>c. \<not> line_break c) g" "regex_match re xs"
      by blast
    show "regex_match (CHR ''.'' # CHR ''*'' # re) (x # s)"
    proof (cases g)
      case Nil
      then show ?thesis using g by (subst regex_match.simps) simp
    next
      case (Cons y g')
      then have "\<not> line_break x" "regex_match (CHR ''.'' # CHR ''*'' # re) s"
        using g Cons.IH by auto
      then show ?thesis by (subst regex_match.simps) simp
    qed
  qed
qed

lemma regex_match_literal:
  assumes "c \<noteq> CHR ''*''"
  shows "regex_match (escape_char c @ re) s \<longleftrightarrow> (\<exists>xs. s = c # xs \<and> regex_match re xs)"
  using assms
  by (subst regex_match.simps) (auto simp: escape_char_def split: list.split)

lemma regex_match_pattern:
  "list_all (\<lambda>c. \<not> line_break c) s \<Longrightarrow> regex_match (regex_pattern p) s \<longleftrightarrow> wildcard_match p s"
proof (induction p arbitrary: s)
  case Nil
  show ?case by (simp add: regex_pattern_def regex_match_Nil wildcard_match_Nil)
next
  case (Cons c p)
  have pattern: "regex_pattern (c # p) = escape_char c @ regex_pattern p"
    by (simp add: regex_pattern_def)
  show ?case
  proof (cases "c = CHR ''*''")
    case True
    have "(s = g @ xs \<and> list_all (\<lambda>c. \<not> line_break c) g \<and> regex_match (regex_pattern p) xs) \<longleftrightarrow>
        (s = g @ xs \<and> wildcard_match p xs)" for g xs
      using Cons.prems Cons.IH [of xs] by auto
    then show ?thesis
      unfolding pattern using True by (simp add: escape_char_def regex_match_star wildcard_match_star)
  next
    case False
    have "(s = c # xs \<and> regex_match (regex_pattern p) xs) \<longleftrightarrow> (s = c # xs \<and> wildcard_match p xs)" for xs
      using Cons.prems Cons.IH [of xs] by auto
    then show ?thesis
      unfolding pattern using False by (simp add: regex_match_literal wildcard_match_char)
  qed
qed

section \<open>Entries of the list\<close>

lemma find_char_append:
  "find_char c (xs @ ys) = (if c \<in> set xs then find_char c xs else map_option (\<lambda>i. length xs + i) (find_char c ys))"
proof (induction xs)
  case Nil
  show ?case by (cases "find_char c ys") simp_all
qed (auto simp: option.map_comp comp_def)

lemma to_lower_simps [simp]:
  "to_lower [] = []" "to_lower (xs @ ys) = to_lower xs @ to_lower ys" "length (to_lower xs) = length xs"
  by (simp_all add: to_lower_def)

lemma plain_entry:
  assumes "CHR ''{'' \<notin> set name" "CHR ''}'' \<notin> set name"
  shows "parse_to_blacklist_info name = Inr (blacklist_entry (to_lower name) True True)"
  using assms [THEN find_char_None [THEN iffD2]]
  by (simp add: parse_to_blacklist_info_def Let_def)

lemma bracket_entry:
  assumes "CHR ''{'' \<notin> set name" "CHR ''}'' \<notin> set name" "CHR ''}'' \<notin> set letters" "letters \<noteq> []"
    and short: "length name + length letters < 2 ^ 63"
  shows "parse_to_blacklist_info (name @ ''{'' @ letters @ ''}'' @ rest) =
    Inr (blacklist_entry (to_lower name) (CHR ''m'' \<in> set letters) (CHR ''l'' \<in> set letters))"
proof -
  let ?s = "name @ ''{'' @ letters @ ''}'' @ rest"
  have op: "find_char CHR ''{'' ?s = Some (length name)"
    and cl: "find_char CHR ''}'' ?s = Some (length name + Suc (length letters))"
    using assms(1-3) [THEN find_char_None [THEN iffD2]] assms(1-3) by (simp_all add: find_char_append)
  have "(of_nat (length name + Suc (length letters)) - of_nat (length name) - 1 :: u64) = of_nat (length letters)"
    by simp
  moreover have "unat (of_nat (length letters) :: u64) = length letters"
    using short by (simp add: unat_of_nat take_bit_nat_eq_self)
  ultimately have "substr ?s (length name + 1)
      (of_nat (length name + Suc (length letters)) - of_nat (length name) - 1) = letters"
    by (simp add: substr_def)
  then show ?thesis
    using assms(4) unfolding parse_to_blacklist_info_def op cl Let_def
    by (simp add: find_char_None [of _ letters] option.split)
qed

end
