(* ===== verification/Options_Archive.thy ===== *)
theory Options_Archive
  imports Reporting
begin

text \<open>
  The options as the launcher sends them to the DLL (\<^verbatim>\<open>shared_settings.hpp\<close>, \<^verbatim>\<open>shared_settings.cpp\<close>). The
  function \<^verbatim>\<open>serialize\<close> of a class is used in both directions: with an output archive it writes the members,
  with an input archive it reads them. An archive is the sequence of its primitive values; how the boost
  library writes the sequence as text is an argument (\<open>encode\<close>, \<open>decode\<close>). Reading a value of another kind
  or from an archive that has ended gives \<open>None\<close> (an exception of the library).
\<close>

datatype archive_item = Ar_Text string | Ar_Bool bool | Ar_Number int

type_synonym archive = "archive_item list"

section \<open>Single values\<close>

definition load_text :: "archive \<Rightarrow> (string \<times> archive) option" where
  "load_text ar = (case ar of Ar_Text s # rest \<Rightarrow> Some (s, rest) | _ \<Rightarrow> None)"

definition load_bool :: "archive \<Rightarrow> (bool \<times> archive) option" where
  "load_bool ar = (case ar of Ar_Bool b # rest \<Rightarrow> Some (b, rest) | _ \<Rightarrow> None)"

definition load_number :: "archive \<Rightarrow> (int \<times> archive) option" where
  "load_number ar = (case ar of Ar_Number n # rest \<Rightarrow> Some (n, rest) | _ \<Rightarrow> None)"

text \<open>An enumeration is archived as its number.\<close>

definition all_levels :: "log_level list" where
  "all_levels = [trace, debug, info, warn, err, critical, off]"

definition all_debug_outs :: "log_to_debug_out_option list" where
  "all_debug_outs = [Debug_disabled, Debug_enabled, Debug_enabled_in_debugger]"

definition all_on_errors :: "on_error_option list" where
  "all_on_errors = [On_Error_continue, On_Error_fail, On_Error_fail_on_exit]"

fun number_of :: "'a \<Rightarrow> 'a list \<Rightarrow> int" where
  "number_of x [] = 0"
| "number_of x (y # ys) = (if x = y then 0 else 1 + number_of x ys)"

definition load_enum :: "'a list \<Rightarrow> archive \<Rightarrow> ('a \<times> archive) option" where
  "load_enum vals ar =
     Option.bind (load_number ar) (\<lambda>(n, ar).
       if 0 \<le> n \<and> nat n < length vals then Some (vals ! nat n, ar) else None)"

section \<open>Vectors\<close>

text \<open>The number of elements comes first.\<close>

definition save_vector :: "('a \<Rightarrow> archive) \<Rightarrow> 'a list \<Rightarrow> archive" where
  "save_vector save xs = Ar_Number (int (length xs)) # concat (map save xs)"

fun load_elements :: "(archive \<Rightarrow> ('a \<times> archive) option) \<Rightarrow> nat \<Rightarrow> archive \<Rightarrow> ('a list \<times> archive) option" where
  "load_elements load 0 ar = Some ([], ar)"
| "load_elements load (Suc n) ar =
     Option.bind (load ar) (\<lambda>(x, ar).
     Option.bind (load_elements load n ar) (\<lambda>(xs, ar).
     Some (x # xs, ar)))"

definition load_vector :: "(archive \<Rightarrow> ('a \<times> archive) option) \<Rightarrow> archive \<Rightarrow> ('a list \<times> archive) option" where
  "load_vector load ar =
     Option.bind (load_number ar) (\<lambda>(n, ar). if n < 0 then None else load_elements load (nat n) ar)"

section \<open>The classes\<close>

definition save_blacklist_info :: "blacklist_info \<Rightarrow> archive" where
  "save_blacklist_info b =
     [Ar_Text (m_regex_string b), Ar_Text (m_original_string b),
      Ar_Bool (m_ignore_memory_leak b), Ar_Bool (m_ignore_lock b)]"

definition load_blacklist_info :: "archive \<Rightarrow> (blacklist_info \<times> archive) option" where
  "load_blacklist_info ar =
     Option.bind (load_text ar) (\<lambda>(regex, ar).
     Option.bind (load_text ar) (\<lambda>(original, ar).
     Option.bind (load_bool ar) (\<lambda>(leak, ar).
     Option.bind (load_bool ar) (\<lambda>(lock, ar).
     Some (\<lparr>m_regex_string = regex, m_original_string = original, m_ignore_memory_leak = leak,
            m_ignore_lock = lock\<rparr>, ar)))))"

definition save_word :: "'w::len word \<Rightarrow> archive" where
  "save_word w = [Ar_Number (uint w)]"

definition load_word :: "archive \<Rightarrow> ('w::len word \<times> archive) option" where
  "load_word ar = map_option (\<lambda>(n, ar). (word_of_int n, ar)) (load_number ar)"

definition archived_options :: "user_options \<Rightarrow> archive" where
  "archived_options opts =
     [Ar_Text (m_log_to_file opts), Ar_Bool (m_log_to_stdout opts),
      Ar_Number (number_of (m_log_level opts) all_levels),
      Ar_Number (number_of (m_log_to_debug_out opts) all_debug_outs),
      Ar_Number (number_of (m_on_error opts) all_on_errors),
      Ar_Bool (m_thread_watchdog_enabled opts)] @
     save_word (m_thread_watchdog_max_duration_sec opts) @
     [Ar_Number (m_exit_code opts)] @
     save_vector save_word (m_ids_to_suppress opts) @
     save_vector save_blacklist_info (m_blacklist_modules_deadlocks opts) @
     save_vector save_blacklist_info (m_blacklist_modules_memory_leaks opts) @
     [Ar_Bool (m_collect_callstacks opts), Ar_Bool (m_start_detached opts)]"

definition load_options :: "archive \<Rightarrow> (user_options \<times> archive) option" where
  "load_options ar =
     Option.bind (load_text ar) (\<lambda>(log_file, ar).
     Option.bind (load_bool ar) (\<lambda>(log_stdout, ar).
     Option.bind (load_enum all_levels ar) (\<lambda>(level, ar).
     Option.bind (load_enum all_debug_outs ar) (\<lambda>(debug_out, ar).
     Option.bind (load_enum all_on_errors ar) (\<lambda>(on_error, ar).
     Option.bind (load_bool ar) (\<lambda>(watchdog, ar).
     Option.bind (load_word ar) (\<lambda>(max_duration, ar).
     Option.bind (load_number ar) (\<lambda>(exit_code, ar).
     Option.bind (load_vector load_word ar) (\<lambda>(ids, ar).
     Option.bind (load_vector load_blacklist_info ar) (\<lambda>(deadlocks, ar).
     Option.bind (load_vector load_blacklist_info ar) (\<lambda>(leaks, ar).
     Option.bind (load_bool ar) (\<lambda>(callstacks, ar).
     Option.bind (load_bool ar) (\<lambda>(detached, ar).
     Some (\<lparr>m_log_to_file = log_file, m_log_to_stdout = log_stdout, m_log_level = level,
            m_log_to_debug_out = debug_out, m_on_error = on_error, m_thread_watchdog_enabled = watchdog,
            m_thread_watchdog_max_duration_sec = max_duration, m_exit_code = exit_code,
            m_ids_to_suppress = ids, m_blacklist_modules_deadlocks = deadlocks,
            m_blacklist_modules_memory_leaks = leaks, m_collect_callstacks = callstacks,
            m_start_detached = detached\<rparr>, ar))))))))))))))"

definition user_options_to_string :: "(archive \<Rightarrow> string) \<Rightarrow> user_options \<Rightarrow> string" where
  "user_options_to_string encode opts = encode (archived_options opts)"

definition user_options_from_string :: "(string \<Rightarrow> archive) \<Rightarrow> string \<Rightarrow> user_options option" where
  "user_options_from_string decode s = map_option fst (load_options (decode s))"

section \<open>Reading what was written\<close>

named_theorems archive_simps

lemma load_single [archive_simps]:
  "load_text (Ar_Text s # ar) = Some (s, ar)" "load_bool (Ar_Bool b # ar) = Some (b, ar)"
  "load_number (Ar_Number n # ar) = Some (n, ar)"
  by (simp_all add: load_text_def load_bool_def load_number_def)

lemma load_saved_word [archive_simps]: "load_word (save_word w @ ar) = Some (w, ar)"
  by (simp add: load_word_def save_word_def archive_simps)

lemma number_of_nth: "x \<in> set vals \<Longrightarrow> 0 \<le> number_of x vals \<and> nat (number_of x vals) < length vals \<and>
    vals ! nat (number_of x vals) = x"
  by (induction vals) (auto simp: nat_add_distrib)

lemma load_saved_enum: "x \<in> set vals \<Longrightarrow> load_enum vals (Ar_Number (number_of x vals) # ar) = Some (x, ar)"
  using number_of_nth [of x vals] by (simp add: load_enum_def archive_simps)

lemma load_saved_enums [archive_simps]:
  "load_enum all_levels (Ar_Number (number_of l all_levels) # ar) = Some (l, ar)"
  "load_enum all_debug_outs (Ar_Number (number_of d all_debug_outs) # ar) = Some (d, ar)"
  "load_enum all_on_errors (Ar_Number (number_of e all_on_errors) # ar) = Some (e, ar)"
proof -
  have "l \<in> set all_levels" by (cases l) (simp_all add: all_levels_def)
  then show "load_enum all_levels (Ar_Number (number_of l all_levels) # ar) = Some (l, ar)"
    by (rule load_saved_enum)
  have "d \<in> set all_debug_outs" by (cases d) (simp_all add: all_debug_outs_def)
  then show "load_enum all_debug_outs (Ar_Number (number_of d all_debug_outs) # ar) = Some (d, ar)"
    by (rule load_saved_enum)
  have "e \<in> set all_on_errors" by (cases e) (simp_all add: all_on_errors_def)
  then show "load_enum all_on_errors (Ar_Number (number_of e all_on_errors) # ar) = Some (e, ar)"
    by (rule load_saved_enum)
qed

lemma load_saved_blacklist_info [archive_simps]:
  "load_blacklist_info (save_blacklist_info b @ ar) = Some (b, ar)"
  by (simp add: load_blacklist_info_def save_blacklist_info_def archive_simps)

lemma load_saved_elements:
  assumes "\<And>x ar. load (save x @ ar) = Some (x, ar)"
  shows "load_elements load (length xs) (concat (map save xs) @ ar) = Some (xs, ar)"
  by (induction xs) (simp_all add: assms)

lemma load_saved_vector:
  assumes "\<And>x ar. load (save x @ ar) = Some (x, ar)"
  shows "load_vector load (save_vector save xs @ ar) = Some (xs, ar)"
  by (simp add: load_vector_def save_vector_def archive_simps load_saved_elements [OF assms])

lemmas load_saved_vectors [archive_simps] =
  load_saved_vector [of load_word save_word, OF load_saved_word]
  load_saved_vector [of load_blacklist_info save_blacklist_info, OF load_saved_blacklist_info]

lemma load_archived_options: "load_options (archived_options opts @ ar) = Some (opts, ar)"
  by (simp add: load_options_def archived_options_def archive_simps)

lemma options_from_string:
  assumes "decode (encode (archived_options opts)) = archived_options opts"
  shows "user_options_from_string decode (user_options_to_string encode opts) = Some opts"
  using load_archived_options [of opts "[]"] assms
  by (simp add: user_options_from_string_def user_options_to_string_def)

end
