(* ===== verification/Launcher_Properties.thy ===== *)
theory Launcher_Properties
  imports Launcher Module_Patterns Options_Archive
begin

text \<open>
  Properties of the launcher: which options are accepted and which values they get, which modules an
  entry of \<^verbatim>\<open>ignore_modules\<close> names, and that the DLL reads the options the user gave.
\<close>

section \<open>Verdicts\<close>

lemma add_ignored_modules_verdict:
  "fst (add_ignored_modules ss opts) = fst (add_ignored_modules ss opts')"
  by (induction ss arbitrary: opts opts') (auto split: sum.split simp: Let_def)

lemma choose_value_verdict:
  "fst (choose_value key choice v table put opts) =
     (if v \<in> fst ` set table then Accepted else requires_message key choice v)"
proof (cases "map_of table v")
  case None
  then have "v \<notin> fst ` set table" by (simp add: map_of_eq_None_iff)
  then show ?thesis using None by (simp add: choose_value_def)
next
  case (Some x)
  then have "v \<in> fst ` set table" by (metis map_of_eq_None_iff option.distinct(1))
  then show ?thesis using Some by (simp add: choose_value_def)
qed

lemma set_max_duration_verdict: "fst (set_max_duration k v opts) = fst (set_max_duration k v opts')"
  by (simp add: set_max_duration_def split: sum.split)

lemma set_exit_code_verdict: "fst (set_exit_code k v opts) = fst (set_exit_code k v opts')"
  by (simp add: set_exit_code_def split: sum.split)

lemma parse_option_verdict: "fst (parse_option k v opts) = fst (parse_option k v opts')"
  unfolding parse_option_def
  by (simp add: choose_value_verdict Let_def set_max_duration_verdict [of _ v opts opts']
      set_exit_code_verdict [of _ v opts opts'] add_ignored_modules_verdict [of _ opts opts'] split: sum.split)

lemma parse_options_Cons:
  "parse_options (kv # rest) opts =
     (if fst (parse_option (fst kv) (snd kv) opts) = Accepted
      then parse_options rest (snd (parse_option (fst kv) (snd kv) opts))
      else parse_option (fst kv) (snd kv) opts)"
  by (cases kv) (auto split: prod.split answer.split)

definition accepted :: "string \<times> string \<Rightarrow> bool" where
  "accepted kv \<longleftrightarrow> fst (parse_option (fst kv) (snd kv) default_options) = Accepted"

lemma parse_options_accepted:
  "fst (parse_options cfg opts) = Accepted \<longleftrightarrow> list_all accepted cfg"
proof (induction cfg arbitrary: opts)
  case (Cons kv rest)
  then show ?case
    unfolding parse_options_Cons accepted_def
    by (simp add: parse_option_verdict [of "fst kv" "snd kv" opts default_options])
qed simp

section \<open>Bounds\<close>

definition options_ok :: "user_options \<Rightarrow> bool" where
  "options_ok opts \<longleftrightarrow>
     2 \<le> uint (m_thread_watchdog_max_duration_sec opts) \<and>
     uint (m_thread_watchdog_max_duration_sec opts) \<le> max_seconds \<and>
     0 \<le> m_exit_code opts \<and> m_exit_code opts < 127 \<and>
     list_all m_ignore_lock (m_blacklist_modules_deadlocks opts) \<and>
     list_all m_ignore_memory_leak (m_blacklist_modules_memory_leaks opts)"

lemma default_options_ok: "options_ok default_options"
  by (simp add: options_ok_def default_options_def max_seconds_def)

lemma set_log_targets_ok: "options_ok (set_log_targets ts opts) = options_ok opts"
  by (induction ts arbitrary: opts) (simp_all add: options_ok_def)

lemma add_ignored_modules_ok:
  "options_ok opts \<Longrightarrow> options_ok (snd (add_ignored_modules ss opts))"
proof (induction ss arbitrary: opts)
  case (Cons s ss)
  show ?case
    by (cases "parse_to_blacklist_info s")
      (use Cons.prems in \<open>auto simp: Let_def intro!: Cons.IH, auto simp: options_ok_def\<close>)
qed simp

lemma set_max_duration_ok: "options_ok opts \<Longrightarrow> options_ok (snd (set_max_duration k v opts))"
  by (auto simp: set_max_duration_def options_ok_def max_seconds_def uint_word_of_int split: sum.split)

lemma set_exit_code_ok: "options_ok opts \<Longrightarrow> options_ok (snd (set_exit_code k v opts))"
  by (auto simp: set_exit_code_def options_ok_def split: sum.split)

lemma choose_value_ok:
  "options_ok opts \<Longrightarrow> (\<And>x. options_ok (put x)) \<Longrightarrow> options_ok (snd (choose_value k c v table put opts))"
  by (simp add: choose_value_def split: option.split)

lemma parse_option_ok: "options_ok opts \<Longrightarrow> options_ok (snd (parse_option k v opts))"
proof -
  assume ok: "options_ok opts"
  have simple: "options_ok (opts\<lparr>m_log_level := l\<rparr>)" "options_ok (opts\<lparr>m_on_error := e\<rparr>)"
    "options_ok (opts\<lparr>m_log_to_debug_out := d\<rparr>)" "options_ok (opts\<lparr>m_thread_watchdog_enabled := b\<rparr>)"
    "options_ok (opts\<lparr>m_collect_callstacks := b\<rparr>)" "options_ok (opts\<lparr>m_start_detached := b\<rparr>)"
    "options_ok (opts\<lparr>m_ids_to_suppress := ids\<rparr>)" "options_ok (opts\<lparr>m_log_to_stdout := b\<rparr>)" for l e d b ids
    using ok by (simp_all add: options_ok_def)
  show ?thesis
    unfolding parse_option_def Let_def
    by (simp add: ok simple choose_value_ok set_max_duration_ok set_exit_code_ok set_log_targets_ok
        add_ignored_modules_ok split: sum.split)
qed

lemma parse_options_ok: "options_ok opts \<Longrightarrow> options_ok (snd (parse_options cfg opts))"
proof (induction cfg arbitrary: opts)
  case (Cons kv rest)
  then show ?case unfolding parse_options_Cons by (simp add: parse_option_ok)
qed simp

section \<open>Which values are accepted\<close>

lemma isdigit_iff: "isdigit s \<longleftrightarrow> s \<noteq> [] \<and> list_all is_digit s"
  by (cases s) (auto simp: isdigit_def length_Suc_conv)

lemma isdigit_show_int: "isdigit (show_int n) \<longleftrightarrow> 0 \<le> n"
  by (auto simp: isdigit_iff show_int_def show_nat_digits is_digit_def)

lemma stoi_show_int: "0 \<le> n \<Longrightarrow> stoi (show_int n) = (if n < 2 ^ 31 then Inr n else Inl Out_Of_Range)"
  by (simp add: stoi_def show_int_def read_show_nat)

lemma show_int_nonempty: "show_int n \<noteq> []"
  by (simp add: show_int_def show_nat_digits)

lemma show_int_no_text: "show_int n \<noteq> ''true''" "show_int n \<noteq> ''false''"
proof -
  have "\<not> is_digit CHR ''t''" "\<not> is_digit CHR ''f''" by (simp_all add: is_digit_def)
  then have "show_nat k \<noteq> ''true''" "show_nat k \<noteq> ''false''" for k
    using show_nat_digits(1) [of k] by auto
  then show "show_int n \<noteq> ''true''" "show_int n \<noteq> ''false''" by (simp_all add: show_int_def)
qed

lemma set_exit_code_int:
  "set_exit_code k (show_int n) opts =
     (if 0 \<le> n \<and> n < 127 then (Accepted, opts\<lparr>m_exit_code := n\<rparr>)
      else (fst (set_exit_code k (show_int n) opts), opts))"
  "fst (set_exit_code k (show_int n) opts) = Accepted \<longleftrightarrow> 0 \<le> n \<and> n < 127"
  by (auto simp: set_exit_code_def isdigit_show_int stoi_show_int no_number_message_def requires_message_def)

lemma set_max_duration_int:
  "set_max_duration k (show_int n) opts =
     (if 2 \<le> n \<and> n \<le> max_seconds
      then (Accepted, opts\<lparr>m_thread_watchdog_max_duration_sec := word_of_int n\<rparr>)
      else (fst (set_max_duration k (show_int n) opts), opts))"
  "fst (set_max_duration k (show_int n) opts) = Accepted \<longleftrightarrow> 2 \<le> n \<and> n \<le> max_seconds"
  by (auto simp: set_max_duration_def isdigit_show_int stoi_show_int no_number_message_def
      requires_message_def max_seconds_def)

lemma choose_value_accepted:
  "fst (choose_value k c v table put opts) = Accepted \<longleftrightarrow> v \<in> fst ` set table"
  by (simp add: choose_value_verdict requires_message_def)

lemma add_ignored_modules_accepted:
  "fst (add_ignored_modules ss opts) = Accepted \<longleftrightarrow> (\<forall>s\<in>set ss. \<exists>b. parse_to_blacklist_info s = Inr b)"
  by (induction ss arbitrary: opts) (auto split: sum.split simp: Let_def)

lemma choices_nonempty:
  "v \<in> fst ` set true_false \<Longrightarrow> v \<noteq> []" "v \<in> fst ` set log_levels \<Longrightarrow> v \<noteq> []"
  "v \<in> fst ` set on_error_choices \<Longrightarrow> v \<noteq> []" "v \<in> fst ` set debug_out_choices \<Longrightarrow> v \<noteq> []"
  by (auto simp: true_false_def log_levels_def on_error_choices_def debug_out_choices_def)

lemma accepted_choice:
  "accepted (''callstacks'', v) \<longleftrightarrow> v \<in> fst ` set true_false"
  "accepted (''start_detached'', v) \<longleftrightarrow> v \<in> fst ` set true_false"
  "accepted (''thread_watchdog'', v) \<longleftrightarrow> v \<in> fst ` set true_false"
  "accepted (''log_level'', v) \<longleftrightarrow> v \<in> fst ` set log_levels"
  "accepted (''on_error'', v) \<longleftrightarrow> v \<in> fst ` set on_error_choices"
  "accepted (''log_to_debug_out'', v) \<longleftrightarrow> v \<in> fst ` set debug_out_choices"
  using choices_nonempty [of v]
  by (simp_all add: accepted_def parse_option_def known_keys_def choose_value_accepted) blast+

lemma accepted_number:
  "accepted (''exit_code'', show_int n) \<longleftrightarrow> 0 \<le> n \<and> n < 127"
  "accepted (''thread_watchdog_max_duration_sec'', show_int n) \<longleftrightarrow> 2 \<le> n \<and> n \<le> max_seconds"
  by (simp_all add: accepted_def parse_option_def known_keys_def show_int_nonempty
      set_exit_code_int(2) set_max_duration_int(2))

lemma accepted_list:
  "accepted (''log_to'', v) \<longleftrightarrow> v \<noteq> []"
  "accepted (''suppress_by_id'', v) \<longleftrightarrow> v \<noteq> [] \<and> (\<exists>ids. parse_ids (split_at CHR ''|'' v) = Inr ids)"
  "accepted (''ignore_modules'', v) \<longleftrightarrow>
     v \<noteq> [] \<and> (\<forall>s\<in>set (split_at CHR '','' v). \<exists>b. parse_to_blacklist_info s = Inr b)"
  by (simp_all add: accepted_def parse_option_def known_keys_def split_at_nonempty
      add_ignored_modules_accepted split: sum.split)

lemma true_false_texts:
  "show_bool b \<in> fst ` set true_false" "show_bool b \<noteq> []" "show_int n \<notin> fst ` set true_false"
  by (simp_all add: true_false_def show_bool_def show_int_no_text)

lemma accepted_option_text:
  "list_all accepted (option_text k f v) \<longleftrightarrow> (\<forall>x. v = Some x \<longrightarrow> accepted (k, f x))"
  by (simp add: option_text_def split: option.split)

lemma accepted_configuration:
  "list_all accepted (configuration_of vm) \<longleftrightarrow>
     vm_log_to vm \<noteq> Some [] \<and>
     (\<forall>l. vm_log_to_debug_out vm = Some l \<longrightarrow> l \<in> fst ` set debug_out_choices) \<and>
     (\<forall>l. vm_log_level vm = Some l \<longrightarrow> l \<in> fst ` set log_levels) \<and>
     (\<forall>l. vm_on_error vm = Some l \<longrightarrow> l \<in> fst ` set on_error_choices) \<and>
     (\<forall>n. vm_thread_watchdog_max_duration_sec vm = Some n \<longrightarrow> 2 \<le> n \<and> n \<le> max_seconds) \<and>
     vm_thread_watchdog vm = None \<and>
     (\<forall>n. vm_exit_code vm = Some n \<longrightarrow> 0 \<le> n \<and> n < 127) \<and>
     (\<forall>l. vm_suppress_by_id vm = Some l \<longrightarrow> accepted (''suppress_by_id'', l)) \<and>
     (\<forall>l. vm_ignore_modules vm = Some l \<longrightarrow> accepted (''ignore_modules'', l))"
proof -
  have none: "(\<forall>x. vm_thread_watchdog vm \<noteq> Some x) \<longleftrightarrow> vm_thread_watchdog vm = None"
    by (cases "vm_thread_watchdog vm") simp_all
  have text_given: "(\<forall>x. vm_log_to vm = Some x \<longrightarrow> x \<noteq> []) \<longleftrightarrow> vm_log_to vm \<noteq> Some []"
    by (cases "vm_log_to vm") simp_all
  show ?thesis
    unfolding configuration_of_def list_all_append accepted_option_text accepted_choice accepted_number
      accepted_list(1) id_def
    by (simp only: true_false_texts none text_given simp_thms)
qed

section \<open>The values the options get\<close>

lemma parse_options_append:
  "fst (parse_options xs opts) = Accepted \<Longrightarrow>
     parse_options (xs @ ys) opts = parse_options ys (snd (parse_options xs opts))"
proof (induction xs arbitrary: opts)
  case (Cons kv rest)
  then show ?case by (simp add: parse_options_Cons del: parse_options.simps split: if_splits)
qed simp

lemma set_log_targets_fields [simp]:
  "m_exit_code (set_log_targets ts opts) = m_exit_code opts"
  "m_thread_watchdog_max_duration_sec (set_log_targets ts opts) = m_thread_watchdog_max_duration_sec opts"
  "m_start_detached (set_log_targets ts opts) = m_start_detached opts"
  by (induction ts arbitrary: opts) simp_all

lemma add_ignored_modules_fields [simp]:
  "m_exit_code (snd (add_ignored_modules ss opts)) = m_exit_code opts"
  "m_thread_watchdog_max_duration_sec (snd (add_ignored_modules ss opts)) =
     m_thread_watchdog_max_duration_sec opts"
  "m_start_detached (snd (add_ignored_modules ss opts)) = m_start_detached opts"
  by (induction ss arbitrary: opts) (simp_all add: Let_def split: sum.split)

lemma choose_value_field:
  "(\<And>x. f (put x) = f opts) \<Longrightarrow> f (snd (choose_value k c v table put opts)) = f opts"
  by (simp add: choose_value_def split: option.split)

lemma set_exit_code_fields [simp]:
  "m_thread_watchdog_max_duration_sec (snd (set_exit_code k v opts)) =
     m_thread_watchdog_max_duration_sec opts"
  "m_start_detached (snd (set_exit_code k v opts)) = m_start_detached opts"
  by (simp_all add: set_exit_code_def split: sum.split)

lemma set_max_duration_fields [simp]:
  "m_exit_code (snd (set_max_duration k v opts)) = m_exit_code opts"
  "m_start_detached (snd (set_max_duration k v opts)) = m_start_detached opts"
  by (simp_all add: set_max_duration_def split: sum.split)

lemma parse_option_exit_code:
  "k \<noteq> ''exit_code'' \<Longrightarrow> m_exit_code (snd (parse_option k v opts)) = m_exit_code opts"
  unfolding parse_option_def
  by (simp add: Let_def choose_value_field [of m_exit_code] split: sum.split)

lemma parse_option_duration:
  "k \<noteq> ''thread_watchdog_max_duration_sec'' \<Longrightarrow>
     m_thread_watchdog_max_duration_sec (snd (parse_option k v opts)) = m_thread_watchdog_max_duration_sec opts"
  unfolding parse_option_def
  by (simp add: Let_def choose_value_field [of m_thread_watchdog_max_duration_sec] split: sum.split)

lemma parse_option_detached:
  "k \<noteq> ''start_detached'' \<Longrightarrow> m_start_detached (snd (parse_option k v opts)) = m_start_detached opts"
  unfolding parse_option_def
  by (simp add: Let_def choose_value_field [of m_start_detached] split: sum.split)

text \<open>A field that only one key sets keeps its value over the other keys.\<close>

lemma parse_options_field:
  assumes "\<And>k v oo. k \<noteq> key \<Longrightarrow> f (snd (parse_option k v oo)) = f oo"
    and "key \<notin> fst ` set cfg"
  shows "f (snd (parse_options cfg opts)) = f opts"
  using assms(2)
proof (induction cfg arbitrary: opts)
  case (Cons kv rest)
  then have "fst kv \<noteq> key" by auto
  then show ?case using Cons by (simp add: parse_options_Cons assms(1) del: parse_options.simps)
qed simp

lemma parse_options_one:
  assumes single: "\<And>k v oo. k \<noteq> key \<Longrightarrow> f (snd (parse_option k v oo)) = f oo"
    and accepted: "fst (parse_options (xs @ option_text key g v @ ys) opts) = Accepted"
    and others: "key \<notin> fst ` set xs" "key \<notin> fst ` set ys"
  shows "f (snd (parse_options (xs @ option_text key g v @ ys) opts)) =
    (case v of None \<Rightarrow> f opts | Some x \<Rightarrow> f (snd (parse_option key (g x) (snd (parse_options xs opts)))))"
proof -
  define o1 where "o1 = snd (parse_options xs opts)"
  have "fst (parse_options xs opts) = Accepted"
    and "fst (parse_options (option_text key g v) o1) = Accepted"
    using accepted unfolding parse_options_accepted by simp_all
  then have "parse_options (xs @ option_text key g v @ ys) opts =
      parse_options ys (snd (parse_options (option_text key g v) o1))"
    by (simp add: parse_options_append o1_def)
  moreover have "f (snd (parse_options ys o2)) = f o2" for o2
    using parse_options_field [of key f ys] single others(2) by blast
  moreover have "f o1 = f opts"
    unfolding o1_def using parse_options_field [of key f xs] single others(1) by blast
  ultimately show ?thesis
    by (simp add: option_text_def parse_options_Cons o1_def [symmetric] del: parse_options.simps(2)
        split: option.split)
qed

lemma prepare_given:
  assumes "vm_application_with_parameter vm = Some ss" "\<not> vm_version vm" "\<not> vm_help vm" "ac \<noteq> 1"
  shows "prepare True ac (Some vm) =
    (if list_all accepted (configuration_of vm)
     then Inr (snd (parse_options (configuration_of vm) default_options),
       \<lparr>cl_configuration = configuration_of vm,
        cl_start_detached = (case vm_start_detached vm of None \<Rightarrow> False | Some b \<Rightarrow> b),
        cl_application = append_parameters [] ss\<rparr>)
     else Inl 1)"
proof -
  obtain ans opts where p: "parse_options (configuration_of vm) default_options = (ans, opts)"
    by fastforce
  have "ans = Accepted \<longleftrightarrow> list_all accepted (configuration_of vm)"
    using parse_options_accepted [of "configuration_of vm" default_options] p by simp
  then show ?thesis
    using assms p by (cases ans) (simp_all add: prepare_def pre_checks_def parse_command_line_def)
qed

lemma prepare_exit:
  "prepare dll_exists ac parsed = Inr (opts, cl) \<Longrightarrow> \<exists>vm ss. parsed = Some vm \<and> dll_exists \<and> ac \<noteq> 1 \<and>
     \<not> vm_version vm \<and> \<not> vm_help vm \<and> vm_application_with_parameter vm = Some ss"
  by (auto simp: prepare_def pre_checks_def parse_command_line_def split: if_splits option.splits sum.splits)

lemma configuration_keys:
  "key \<notin> fst ` set (option_text k g v) \<longleftrightarrow> k \<noteq> key \<or> v = None"
  by (cases v) (auto simp: option_text_def)

lemma seconds_fit: "2 \<le> n \<Longrightarrow> n \<le> max_seconds \<Longrightarrow> uint (word_of_int n :: u32) = n"
  by (simp add: uint_word_of_int max_seconds_def)

lemma configuration_values:
  assumes "list_all accepted (configuration_of vm)"
  defines "opts \<equiv> snd (parse_options (configuration_of vm) default_options)"
  shows "m_exit_code opts = (case vm_exit_code vm of None \<Rightarrow> 66 | Some n \<Rightarrow> n)"
    and "uint (m_thread_watchdog_max_duration_sec opts) =
      (case vm_thread_watchdog_max_duration_sec vm of None \<Rightarrow> 30 | Some n \<Rightarrow> n)"
    and "m_start_detached opts = (case vm_start_detached vm of None \<Rightarrow> False | Some b \<Rightarrow> b)"
proof -
  have acc: "fst (parse_options (configuration_of vm) default_options) = Accepted"
    using assms(1) by (simp add: parse_options_accepted)
  have conf: "list_all accepted (option_text ''exit_code'' show_int (vm_exit_code vm))"
    "list_all accepted (option_text ''thread_watchdog_max_duration_sec'' show_int
       (vm_thread_watchdog_max_duration_sec vm))"
    using assms(1) by (simp_all add: configuration_of_def)
  let ?a = "option_text ''callstacks'' show_bool (vm_callstacks vm) @
     option_text ''log_to'' id (vm_log_to vm) @
     option_text ''log_to_debug_out'' id (vm_log_to_debug_out vm) @
     option_text ''log_level'' id (vm_log_level vm) @
     option_text ''on_error'' id (vm_on_error vm)"
  let ?d = "option_text ''start_detached'' show_bool (vm_start_detached vm)"
  let ?t = "option_text ''thread_watchdog_max_duration_sec'' show_int (vm_thread_watchdog_max_duration_sec vm)"
  let ?w = "option_text ''thread_watchdog'' show_int (vm_thread_watchdog vm)"
  let ?e = "option_text ''exit_code'' show_int (vm_exit_code vm)"
  let ?z = "option_text ''suppress_by_id'' id (vm_suppress_by_id vm) @
     option_text ''ignore_modules'' id (vm_ignore_modules vm)"
  have parts: "configuration_of vm = ?a @ ?d @ (?t @ ?w @ ?e @ ?z)"
    "configuration_of vm = (?a @ ?d) @ ?t @ (?w @ ?e @ ?z)"
    "configuration_of vm = (?a @ ?d @ ?t @ ?w) @ ?e @ ?z"
    by (simp_all add: configuration_of_def)
  show "m_start_detached opts = (case vm_start_detached vm of None \<Rightarrow> False | Some b \<Rightarrow> b)"
    unfolding opts_def parts(1)
    by (subst parse_options_one [of "''start_detached''" m_start_detached])
      (use acc [unfolded parts(1)] in \<open>simp_all add: parse_option_detached configuration_keys image_Un,
       simp add: default_options_def parse_option_def known_keys_def choose_value_def true_false_def
         show_bool_def split: option.split\<close>)
  show "uint (m_thread_watchdog_max_duration_sec opts) =
      (case vm_thread_watchdog_max_duration_sec vm of None \<Rightarrow> 30 | Some n \<Rightarrow> n)"
    unfolding opts_def parts(2)
    by (subst parse_options_one [of "''thread_watchdog_max_duration_sec''" m_thread_watchdog_max_duration_sec])
      (use acc [unfolded parts(2)] conf(2) in \<open>simp_all add: parse_option_duration configuration_keys image_Un,
       simp add: default_options_def parse_option_def known_keys_def set_max_duration_int(1) show_int_nonempty
         accepted_option_text accepted_number seconds_fit split: option.split\<close>)
  show "m_exit_code opts = (case vm_exit_code vm of None \<Rightarrow> 66 | Some n \<Rightarrow> n)"
    unfolding opts_def parts(3)
    by (subst parse_options_one [of "''exit_code''" m_exit_code])
      (use acc [unfolded parts(3)] conf(1) in \<open>simp_all add: parse_option_exit_code configuration_keys image_Un,
       simp add: default_options_def parse_option_def known_keys_def set_exit_code_int(1) show_int_nonempty
         accepted_option_text accepted_number split: option.split\<close>)
qed

section \<open>From the launcher to the DLL\<close>

lemma get_saved_options:
  assumes "CHR 0x00 \<notin> set (archive opts)" "unarchive (archive opts) = opts"
  shows "get_user_options unarchive pid (save_user_options archive pid opts shm) = Some opts"
proof -
  have "takeWhile (\<lambda>c. c \<noteq> CHR 0x00) (archive opts @ [CHR 0x00]) = archive opts"
    using assms(1) by (subst takeWhile_append2) auto
  moreover have "drop (length (archive opts)) (replicate (length (archive opts) + 1) CHR 0x00) = [CHR 0x00]"
    by (subst drop_replicate) simp
  ultimately show ?thesis
    using assms(2) by (simp add: get_user_options_def save_user_options_def Let_def del: replicate.simps)
qed

lemma start_saves_options:
  assumes "start_application_under_test archive os opts detached app shm = Some (code, shm', out)"
    and "os_process_id os app = Some pid" "detached \<or> os_pipe_ok os"
  shows "shm' = save_user_options archive pid opts shm"
  using assms
  by (auto simp: start_application_under_test_def create_process_routine_def Let_def
      split: if_splits option.splits)

section \<open>The output of the application\<close>

text \<open>The rounds up to the one that finds the process ended.\<close>

fun until_exit :: "pipe_round list \<Rightarrow> pipe_round list" where
  "until_exit [] = []"
| "until_exit (r # rs) = (if pr_exited r then [r] else r # until_exit rs)"

definition calls_ok :: "pipe_round \<Rightarrow> bool" where
  "calls_ok r \<longleftrightarrow> pr_peek_ok r \<and> pr_read_ok r \<and> pr_write_ok r"

lemma copy_output_prefix:
  "copy_output rs pipe out = Some out' \<Longrightarrow>
     \<exists>rest. out @ pipe @ concat (map pr_written (until_exit rs)) = out' @ rest"
proof (induction rs arbitrary: pipe out)
  case Nil
  then show ?case by simp
next
  case (Cons r rs)
  define q where "q = pipe @ pr_written r"
  define t where "t = (if pr_exited r then [] else concat (map pr_written (until_exit rs)))"
  define a where "a = out @ take buffer_size q"
  define b where "b = drop buffer_size q"
  have all: "out @ pipe @ concat (map pr_written (until_exit (r # rs))) = out @ q @ t"
    by (simp add: q_def t_def)
  have cut: "out @ q @ t = a @ b @ t" by (simp add: a_def b_def flip: append.assoc [of "take _ _"])
  have step: "(if pr_peek_ok r \<and> q \<noteq> [] then
      if \<not> pr_read_ok r \<or> \<not> pr_write_ok r then Some out
      else if pr_exited r then Some a else copy_output rs b a
     else if pr_exited r then Some out else copy_output rs q out) = Some out'"
    using Cons.prems unfolding copy_output.simps Let_def a_def b_def q_def .
  consider "out' = out" | "out' = a" | "\<not> pr_exited r" "copy_output rs b a = Some out'"
    | "\<not> pr_exited r" "copy_output rs q out = Some out'"
    using step by (simp split: if_splits)
  then show ?case
  proof cases
    case 1
    then show ?thesis unfolding all by blast
  next
    case 2
    then show ?thesis unfolding all cut by blast
  next
    case 3
    then have "t = concat (map pr_written (until_exit rs))" by (simp add: t_def)
    then show ?thesis unfolding all cut using Cons.IH [OF 3(2)] by simp
  next
    case 4
    then have "t = concat (map pr_written (until_exit rs))" by (simp add: t_def)
    then show ?thesis unfolding all using Cons.IH [OF 4(2)] by simp
  qed
qed

section \<open>Properties\<close>

definition sample_vm :: variables_map where
  "sample_vm =
     \<lparr>vm_version = False, vm_help = False, vm_callstacks = Some True, vm_log_to = None,
      vm_log_to_debug_out = None, vm_log_level = Some ''warn'', vm_on_error = Some ''fail'',
      vm_start_detached = Some True, vm_thread_watchdog_max_duration_sec = Some 120,
      vm_thread_watchdog = None, vm_exit_code = Some 7, vm_suppress_by_id = None,
      vm_ignore_modules = None, vm_application_with_parameter = Some [''app.exe'', ''-x'']\<rparr>"

text \<open>C25:
  What the launcher accepts. With an application to start and neither --help nor --version, it goes on
  exactly if the path of the log is not empty, the texts for the output, the level and the reaction to
  errors are from the lists of the code, the limit of the watchdog is 2 seconds to one day, the exit code
  is 0 to 126, the ids are hexadecimal numbers, the entries of the module list pass
  parse_to_blacklist_info (no braces, or some text between braces, whatever its letters) and the option
  for the thread watchdog is absent (any value of it, which is a number, is refused). Otherwise it ends
  with exit code 1. The accepted values are more than the documented ones: the help and the message give 1
  as the least exit code, and the message for the modules asks for the letters l and m.
\<close>

theorem command_line_accepted:
  assumes "vm_application_with_parameter vm = Some ss" "\<not> vm_version vm" "\<not> vm_help vm" "ac \<noteq> 1"
  shows "prepare True ac (Some vm) \<noteq> Inl 1 \<longleftrightarrow>
    vm_log_to vm \<noteq> Some [] \<and>
    (\<forall>l. vm_log_to_debug_out vm = Some l \<longrightarrow> l \<in> {''enabled'', ''disabled'', ''debugger''}) \<and>
    (\<forall>l. vm_log_level vm = Some l \<longrightarrow>
       l \<in> {''trace'', ''debug'', ''info'', ''warn'', ''error'', ''fatal'', ''off''}) \<and>
    (\<forall>l. vm_on_error vm = Some l \<longrightarrow> l \<in> {''continue'', ''fail'', ''fail_on_exit''}) \<and>
    (\<forall>n. vm_thread_watchdog_max_duration_sec vm = Some n \<longrightarrow> 2 \<le> n \<and> n \<le> 86400) \<and>
    vm_thread_watchdog vm = None \<and>
    (\<forall>n. vm_exit_code vm = Some n \<longrightarrow> 0 \<le> n \<and> n < 127) \<and>
    (\<forall>l. vm_suppress_by_id vm = Some l \<longrightarrow>
       l \<noteq> [] \<and> (\<exists>ids. parse_ids (split_at CHR ''|'' l) = Inr ids)) \<and>
    (\<forall>l. vm_ignore_modules vm = Some l \<longrightarrow>
       l \<noteq> [] \<and> (\<forall>s\<in>set (split_at CHR '','' l). \<exists>b. parse_to_blacklist_info s = Inr b))"
proof -
  have tables: "fst ` set debug_out_choices = {''enabled'', ''disabled'', ''debugger''}"
    "fst ` set log_levels = {''trace'', ''debug'', ''info'', ''warn'', ''error'', ''fatal'', ''off''}"
    "fst ` set on_error_choices = {''continue'', ''fail'', ''fail_on_exit''}"
    "max_seconds = 86400"
    by (simp_all add: debug_out_choices_def log_levels_def on_error_choices_def max_seconds_def)
  have "prepare True ac (Some vm) \<noteq> Inl 1 \<longleftrightarrow> list_all accepted (configuration_of vm)"
    unfolding prepare_given [OF assms] by simp
  then show ?thesis
    unfolding accepted_configuration accepted_list(2,3) tables .
qed

theorem command_line_accepted_witness:
  "prepare True 3 (Some sample_vm) \<noteq> Inl 1 \<and>
   prepare True 3 (Some (sample_vm\<lparr>vm_thread_watchdog := Some 1\<rparr>)) = Inl 1"
  using command_line_accepted [of sample_vm "[''app.exe'', ''-x'']" 3]
    command_line_accepted [of "sample_vm\<lparr>vm_thread_watchdog := Some 1\<rparr>" "[''app.exe'', ''-x'']" 3]
  by (simp_all add: sample_vm_def)

text \<open>Whatever list of keys and values the parser accepts, the options are in range: the watchdog limit is
  2 seconds to one day, the exit code 0 to 126, and each module entry is in the list of its purpose.
\<close>

theorem accepted_options_in_range:
  assumes "parse_options cfg default_options = (Accepted, opts)"
  shows "2 \<le> uint (m_thread_watchdog_max_duration_sec opts) \<and>
    uint (m_thread_watchdog_max_duration_sec opts) \<le> 86400 \<and>
    0 \<le> m_exit_code opts \<and> m_exit_code opts < 127 \<and>
    list_all m_ignore_lock (m_blacklist_modules_deadlocks opts) \<and>
    list_all m_ignore_memory_leak (m_blacklist_modules_memory_leaks opts)"
  using parse_options_ok [OF default_options_ok, of cfg] assms
  by (simp add: options_ok_def max_seconds_def)

theorem accepted_options_in_range_witness:
  "fst (parse_options [(''exit_code'', ''0''), (''ignore_modules'', ''a.dll{m},b.dll'')] default_options) = Accepted \<and>
   m_exit_code (snd (parse_options [(''exit_code'', ''0''), (''ignore_modules'', ''a.dll{m},b.dll'')]
     default_options)) < 127"
proof -
  let ?r = "parse_options [(''exit_code'', ''0''), (''ignore_modules'', ''a.dll{m},b.dll'')] default_options"
  have r: "?r = (Accepted, snd ?r)" by code_simp
  show ?thesis
    using accepted_options_in_range [OF r] r by (metis fst_conv)
qed

text \<open>C26:
  An entry of ignore_modules with letters in brackets is taken for the checks its letters name (for
  none if there is neither an l nor an m), one without brackets for both; the regular expression made
  of it matches exactly the names in which each star of the entry, in lower case, stands for some text.
\<close>

theorem module_patterns:
  assumes "CHR ''{'' \<notin> set name" "CHR ''}'' \<notin> set name" "CHR ''}'' \<notin> set letters" "letters \<noteq> []"
    and "length name + length letters < 2 ^ 63"
    and "list_all (\<lambda>c. \<not> line_break c) module"
  shows "\<exists>b b'.
    parse_to_blacklist_info (name @ ''{'' @ letters @ ''}'' @ rest) = Inr b \<and>
    m_ignore_memory_leak b = (CHR ''m'' \<in> set letters) \<and> m_ignore_lock b = (CHR ''l'' \<in> set letters) \<and>
    regex_match (m_regex_string b) module = wildcard_match (to_lower name) module \<and>
    parse_to_blacklist_info name = Inr b' \<and> m_ignore_memory_leak b' \<and> m_ignore_lock b' \<and>
    regex_match (m_regex_string b') module = wildcard_match (to_lower name) module"
  unfolding bracket_entry [OF assms(1-5)] plain_entry [OF assms(1,2)]
  by (simp add: blacklist_entry_def regex_match_pattern [OF assms(6)])

theorem module_patterns_witness:
  "\<exists>b b'. parse_to_blacklist_info ''Qt6*.dll{ML}'' = Inr b \<and> \<not> m_ignore_memory_leak b \<and> \<not> m_ignore_lock b \<and>
     parse_to_blacklist_info ''Qt6*.dll'' = Inr b' \<and>
     regex_match (m_regex_string b') ''qt6core.dll'' = wildcard_match ''qt6*.dll'' ''qt6core.dll''"
proof -
  have low: "to_lower ''Qt6*.dll'' = ''qt6*.dll''" by code_simp
  show ?thesis
    using module_patterns [of "''Qt6*.dll''" "''ML''" "''qt6core.dll''" "[]"]
    by (auto simp: line_break_def low)
qed

text \<open>C24:
  If the launcher starts the application, the DLL finds under the process id exactly the options the
  command line gave: the exit code and the watchdog limit are the given or the default numbers, and
  both programs agree on whether the application is detached. The archive of the options is the one
  of the code; the text of the library for it has to be read back and have no zero character.
\<close>

theorem options_reach_dll:
  assumes "prepare True ac (Some vm) = Inr (opts, cl)"
    and "wmain (user_options_to_string encode) os True ac (Some vm) shm = Some (code, shm', out)"
    and "os_process_id os (cl_application cl) = Some pid" "cl_start_detached cl \<or> os_pipe_ok os"
    and "decode (encode (archived_options opts)) = archived_options opts"
    and "CHR 0x00 \<notin> set (encode (archived_options opts))"
  shows "get_user_options (the \<circ> user_options_from_string decode) pid shm' = Some opts \<and>
    m_start_detached opts = cl_start_detached cl \<and>
    m_exit_code opts = (case vm_exit_code vm of None \<Rightarrow> 66 | Some n \<Rightarrow> n) \<and>
    uint (m_thread_watchdog_max_duration_sec opts) =
      (case vm_thread_watchdog_max_duration_sec vm of None \<Rightarrow> 30 | Some n \<Rightarrow> n)"
proof -
  obtain ss where given: "vm_application_with_parameter vm = Some ss" "\<not> vm_version vm" "\<not> vm_help vm" "ac \<noteq> 1"
    using prepare_exit [OF assms(1)] by blast
  have acc: "list_all accepted (configuration_of vm)"
    and opts: "opts = snd (parse_options (configuration_of vm) default_options)"
    and cl: "cl_start_detached cl = (case vm_start_detached vm of None \<Rightarrow> False | Some b \<Rightarrow> b)"
    using assms(1) unfolding prepare_given [OF given] by (auto split: if_splits)
  let ?archive = "user_options_to_string encode" and ?unarchive = "the \<circ> user_options_from_string decode"
  have "start_application_under_test ?archive os opts (cl_start_detached cl) (cl_application cl) shm =
      Some (code, shm', out)"
    using assms(1,2) by (simp add: wmain_def)
  then have shm': "shm' = save_user_options ?archive pid opts shm"
    using assms(3,4) by (rule start_saves_options)
  have "?unarchive (?archive opts) = opts" using options_from_string [of decode encode opts] assms(5) by simp
  moreover have "CHR 0x00 \<notin> set (?archive opts)" using assms(6) by (simp add: user_options_to_string_def)
  ultimately have "get_user_options ?unarchive pid shm' = Some opts"
    unfolding shm' by (rule get_saved_options [rotated])
  then show ?thesis using configuration_values [OF acc] opts cl by simp
qed

definition sample_os :: os_answers where
  "sample_os = \<lparr>os_pipe_ok = True, os_process_id = (\<lambda>_. Some 4711), os_event_ok = True,
     os_inject_ok = True, os_resume_ok = True, os_rounds = [], os_exit_code = Some 0\<rparr>"

theorem options_reach_dll_witness:
  "\<exists>opts cl shm. prepare True 3 (Some sample_vm) = Inr (opts, cl) \<and>
     wmain (user_options_to_string (\<lambda>_. ''archive'')) sample_os True 3 (Some sample_vm) Map.empty = Some (0, shm, []) \<and>
     get_user_options (the \<circ> user_options_from_string (\<lambda>_. archived_options opts)) 4711 shm = Some opts \<and>
     m_exit_code opts = 7 \<and> m_start_detached opts"
proof -
  have given: "vm_application_with_parameter sample_vm = Some [''app.exe'', ''-x'']"
    "\<not> vm_version sample_vm" "\<not> vm_help sample_vm" "(3::nat) \<noteq> 1"
    by (simp_all add: sample_vm_def)
  have acc: "list_all accepted (configuration_of sample_vm)"
    unfolding accepted_configuration
    by (simp add: sample_vm_def log_levels_def on_error_choices_def max_seconds_def)
  obtain opts cl where start: "prepare True 3 (Some sample_vm) = Inr (opts, cl)"
    using prepare_given [OF given] acc by simp
  have detached: "cl_start_detached cl"
    using start acc unfolding prepare_given [OF given] by (auto simp: sample_vm_def)
  obtain shm where run: "wmain (user_options_to_string (\<lambda>_. ''archive'')) sample_os True 3 (Some sample_vm) Map.empty = Some (0, shm, [])"
    using start detached
    by (simp add: wmain_def start_application_under_test_def create_process_routine_def sample_os_def Let_def)
  have "get_user_options (the \<circ> user_options_from_string (\<lambda>_. archived_options opts)) 4711 shm = Some opts \<and>
      m_start_detached opts = cl_start_detached cl \<and>
      m_exit_code opts = 7"
    using options_reach_dll [OF start run, of 4711 "\<lambda>_. archived_options opts"] detached
    by (simp add: sample_os_def sample_vm_def)
  then show ?thesis using start run detached by blast
qed

end
