(* ===== verification/Patched_Functions.thy ===== *)
theory Patched_Functions
  imports Leak_Types
begin

text \<open>
  The functions that are redirected (\<^verbatim>\<open>iat/patched_functions.cpp\<close>, \<^verbatim>\<open>patched_functions.hpp\<close>): type, name,
  module, the variable that keeps the original function and the replacement. The lists follow the
  order of the code. The address of a replacement is an argument.
\<close>

datatype function_type = Memory_Leak | Deadlock | Other

record function_to_patch =
  fp_type :: function_type
  fp_name :: string
  fp_module :: string
  fp_handle :: ptr
  fp_slot :: string
  fp_replacement :: ptr

definition windows_functions :: "(function_type \<times> string \<times> string \<times> string \<times> string) list" where
  "windows_functions = [
     (Deadlock, ''GetEnvironmentVariableA'', ''kernel32.dll'', ''GetEnvironmentVariableA_fptr'', ''buginsight_getenvironmentvariablea''),
     (Memory_Leak, ''HeapAlloc'', ''kernel32.dll'', ''HeapAlloc_fptr'', ''buginsight_heapalloc''),
     (Memory_Leak, ''HeapReAlloc'', ''kernel32.dll'', ''HeapReAlloc_fptr'', ''buginsight_heaprepalloc''),
     (Memory_Leak, ''HeapFree'', ''kernel32.dll'', ''HeapFree_fptr'', ''buginsight_heapfree''),
     (Memory_Leak, ''LocalAlloc'', ''kernel32.dll'', ''LocalAlloc_fptr'', ''buginsight_localalloc''),
     (Memory_Leak, ''LocalReAlloc'', ''kernel32.dll'', ''LocalReAlloc_fptr'', ''buginsight_localrealloc''),
     (Memory_Leak, ''LocalFree'', ''kernel32.dll'', ''LocalFree_fptr'', ''buginsight_localfree''),
     (Memory_Leak, ''GlobalAlloc'', ''kernel32.dll'', ''GlobalAlloc_fptr'', ''buginsight_globalalloc''),
     (Memory_Leak, ''GlobalReAlloc'', ''kernel32.dll'', ''GlobalReAlloc_fptr'', ''buginsight_globalrealloc''),
     (Memory_Leak, ''GlobalFree'', ''kernel32.dll'', ''GlobalFree_fptr'', ''buginsight_globalfree''),
     (Memory_Leak, ''FormatMessageA'', ''kernel32.dll'', ''FormatMessageA_fptr'', ''buginsight_formatmessagea''),
     (Memory_Leak, ''FormatMessageW'', ''kernel32.dll'', ''FormatMessageW_fptr'', ''buginsight_formatmessagew''),
     (Memory_Leak, ''StrDupA'', ''shlwapi.dll'', ''StrDupA_fptr'', ''buginsight_StrDupA''),
     (Memory_Leak, ''StrDupW'', ''shlwapi.dll'', ''StrDupW_fptr'', ''buginsight_StrDupW''),
     (Memory_Leak, ''CryptProtectData'', ''crypt32.dll'', ''CryptProtectData_fptr'', ''buginsight_CryptProtectData''),
     (Memory_Leak, ''CryptUnprotectData'', ''crypt32.dll'', ''CryptUnprotectData_fptr'', ''buginsight_CryptUnprotectData''),
     (Memory_Leak, ''ConvertSidToStringSidW'', ''advapi32.dll'', ''ConvertSidToStringSidW_fptr'', ''buginsight_ConvertSidToStringSidW''),
     (Memory_Leak, ''ConvertSidToStringSidA'', ''advapi32.dll'', ''ConvertSidToStringSidA_fptr'', ''buginsight_ConvertSidToStringSidA''),
     (Memory_Leak, ''ConvertStringSidToSidW'', ''advapi32.dll'', ''ConvertStringSidToSidW_fptr'', ''buginsight_ConvertStringSidToSidW''),
     (Memory_Leak, ''ConvertStringSidToSidA'', ''advapi32.dll'', ''ConvertStringSidToSidA_fptr'', ''buginsight_ConvertStringSidToSidA''),
     (Memory_Leak, ''GetNamedSecurityInfoW'', ''advapi32.dll'', ''GetNamedSecurityInfoW_fptr'', ''buginsight_GetNamedSecurityInfoW''),
     (Memory_Leak, ''GetNamedSecurityInfoA'', ''advapi32.dll'', ''GetNamedSecurityInfoA_fptr'', ''buginsight_GetNamedSecurityInfoA''),
     (Memory_Leak, ''SetEntriesInAclA'', ''advapi32.dll'', ''SetEntriesInAclA_fptr'', ''buginsight_SetEntriesInAclA''),
     (Memory_Leak, ''SetEntriesInAclW'', ''advapi32.dll'', ''SetEntriesInAclW_fptr'', ''buginsight_SetEntriesInAclW'')]"

definition runtime_functions :: "(function_type \<times> string \<times> string \<times> string \<times> string) list" where
  "runtime_functions = [
     (Memory_Leak, ''AllocateAndInitializeSid'', ''advapi32.dll'', ''AllocateAndInitializeSid_fptr'', ''buginsight_AllocateAndInitializeSid''),
     (Memory_Leak, ''FreeSid'', ''advapi32.dll'', ''FreeSid_fptr'', ''buginsight_FreeSid''),
     (Memory_Leak, ''GetSecurityInfo'', ''advapi32.dll'', ''GetSecurityInfo_fptr'', ''buginsight_GetSecurityInfo''),
     (Memory_Leak, ''CommandLineToArgvW'', ''shell32.dll'', ''CommandLineToArgvW_fptr'', ''buginsight_CommandLineToArgvW''),
     (Memory_Leak, ''malloc'', ''ucrtbase.dll'', ''malloc_monitor_t<false>::malloc_fptr'', ''malloc_monitor_t<false>::bi_malloc''),
     (Memory_Leak, ''malloc'', ''ucrtbased.dll'', ''malloc_monitor_t<true>::malloc_fptr'', ''malloc_monitor_t<true>::bi_malloc''),
     (Memory_Leak, ''_expand'', ''ucrtbase.dll'', ''malloc_monitor_t<false>::_expand_fptr'', ''malloc_monitor_t<false>::bi__expand''),
     (Memory_Leak, ''_expand'', ''ucrtbased.dll'', ''malloc_monitor_t<true>::_expand_fptr'', ''malloc_monitor_t<true>::bi__expand''),
     (Memory_Leak, ''calloc'', ''ucrtbase.dll'', ''malloc_monitor_t<false>::calloc_fptr'', ''malloc_monitor_t<false>::bi_calloc''),
     (Memory_Leak, ''calloc'', ''ucrtbased.dll'', ''malloc_monitor_t<true>::calloc_fptr'', ''malloc_monitor_t<true>::bi_calloc''),
     (Memory_Leak, ''realloc'', ''ucrtbase.dll'', ''malloc_monitor_t<false>::realloc_fptr'', ''malloc_monitor_t<false>::bi_realloc''),
     (Memory_Leak, ''realloc'', ''ucrtbased.dll'', ''malloc_monitor_t<true>::realloc_fptr'', ''malloc_monitor_t<true>::bi_realloc''),
     (Memory_Leak, ''_recalloc'', ''ucrtbase.dll'', ''malloc_monitor_t<false>::_recalloc_fptr'', ''malloc_monitor_t<false>::bi__recalloc''),
     (Memory_Leak, ''_recalloc'', ''ucrtbased.dll'', ''malloc_monitor_t<true>::_recalloc_fptr'', ''malloc_monitor_t<true>::bi__recalloc''),
     (Memory_Leak, ''free'', ''ucrtbase.dll'', ''malloc_monitor_t<false>::free_fptr'', ''malloc_monitor_t<false>::bi_free''),
     (Memory_Leak, ''free'', ''ucrtbased.dll'', ''malloc_monitor_t<true>::free_fptr'', ''malloc_monitor_t<true>::bi_free''),
     (Memory_Leak, ''_strdup'', ''ucrtbase.dll'', ''strdup_monitor_t<false>::_strdup_fptr'', ''strdup_monitor_t<false>::bi__strdup''),
     (Memory_Leak, ''_strdup'', ''ucrtbased.dll'', ''strdup_monitor_t<true>::_strdup_fptr'', ''strdup_monitor_t<true>::bi__strdup''),
     (Memory_Leak, ''_wcsdup'', ''ucrtbase.dll'', ''strdup_monitor_t<false>::_wcsdup_fptr'', ''strdup_monitor_t<false>::bi__wcsdup''),
     (Memory_Leak, ''_wcsdup'', ''ucrtbased.dll'', ''strdup_monitor_t<true>::_wcsdup_fptr'', ''strdup_monitor_t<true>::bi__wcsdup''),
     (Memory_Leak, ''_aligned_malloc'', ''ucrtbase.dll'', ''_aligned_malloc_monitor_t<false>::_aligned_malloc_fptr'', ''_aligned_malloc_monitor_t<false>::bi__aligned_malloc''),
     (Memory_Leak, ''_aligned_malloc'', ''ucrtbased.dll'', ''_aligned_malloc_monitor_t<true>::_aligned_malloc_fptr'', ''_aligned_malloc_monitor_t<true>::bi__aligned_malloc''),
     (Memory_Leak, ''_aligned_free'', ''ucrtbase.dll'', ''_aligned_malloc_monitor_t<false>::_aligned_free_fptr'', ''_aligned_malloc_monitor_t<false>::bi__aligned_free''),
     (Memory_Leak, ''_aligned_free'', ''ucrtbased.dll'', ''_aligned_malloc_monitor_t<true>::_aligned_free_fptr'', ''_aligned_malloc_monitor_t<true>::bi__aligned_free''),
     (Memory_Leak, ''_aligned_offset_malloc'', ''ucrtbase.dll'', ''_aligned_malloc_monitor_t<false>::_aligned_offset_malloc_fptr'', ''_aligned_malloc_monitor_t<false>::bi__aligned_offset_malloc''),
     (Memory_Leak, ''_aligned_offset_malloc'', ''ucrtbased.dll'', ''_aligned_malloc_monitor_t<true>::_aligned_offset_malloc_fptr'', ''_aligned_malloc_monitor_t<true>::bi__aligned_offset_malloc''),
     (Memory_Leak, ''_aligned_offset_realloc'', ''ucrtbase.dll'', ''_aligned_malloc_monitor_t<false>::_aligned_offset_realloc_fptr'', ''_aligned_malloc_monitor_t<false>::bi__aligned_offset_realloc''),
     (Memory_Leak, ''_aligned_offset_realloc'', ''ucrtbased.dll'', ''_aligned_malloc_monitor_t<true>::_aligned_offset_realloc_fptr'', ''_aligned_malloc_monitor_t<true>::bi__aligned_offset_realloc''),
     (Memory_Leak, ''_aligned_offset_recalloc'', ''ucrtbase.dll'', ''_aligned_malloc_monitor_t<false>::_aligned_offset_recalloc_fptr'', ''_aligned_malloc_monitor_t<false>::bi__aligned_offset_recalloc''),
     (Memory_Leak, ''_aligned_offset_recalloc'', ''ucrtbased.dll'', ''_aligned_malloc_monitor_t<true>::_aligned_offset_recalloc_fptr'', ''_aligned_malloc_monitor_t<true>::bi__aligned_offset_recalloc''),
     (Memory_Leak, ''_aligned_realloc'', ''ucrtbase.dll'', ''_aligned_malloc_monitor_t<false>::_aligned_realloc_fptr'', ''_aligned_malloc_monitor_t<false>::bi__aligned_realloc''),
     (Memory_Leak, ''_aligned_realloc'', ''ucrtbased.dll'', ''_aligned_malloc_monitor_t<true>::_aligned_realloc_fptr'', ''_aligned_malloc_monitor_t<true>::bi__aligned_realloc''),
     (Memory_Leak, ''_aligned_recalloc'', ''ucrtbase.dll'', ''_aligned_malloc_monitor_t<false>::_aligned_recalloc_fptr'', ''_aligned_malloc_monitor_t<false>::bi__aligned_recalloc''),
     (Memory_Leak, ''_aligned_recalloc'', ''ucrtbased.dll'', ''_aligned_malloc_monitor_t<true>::_aligned_recalloc_fptr'', ''_aligned_malloc_monitor_t<true>::bi__aligned_recalloc''),
     (Memory_Leak, ''_getcwd'', ''ucrtbase.dll'', ''malloc_monitor_t<false>::_getcwd_fptr'', ''malloc_monitor_t<false>::bi__getcwd''),
     (Memory_Leak, ''_getcwd'', ''ucrtbased.dll'', ''malloc_monitor_t<true>::_getcwd_fptr'', ''malloc_monitor_t<true>::bi__getcwd''),
     (Memory_Leak, ''_wgetcwd'', ''ucrtbase.dll'', ''malloc_monitor_t<false>::_wgetcwd_fptr'', ''malloc_monitor_t<false>::_wgetcwd''),
     (Memory_Leak, ''_wgetcwd'', ''ucrtbased.dll'', ''malloc_monitor_t<true>::_wgetcwd_fptr'', ''malloc_monitor_t<true>::_wgetcwd''),
     (Memory_Leak, ''_getdcwd'', ''ucrtbase.dll'', ''malloc_monitor_t<false>::_getdcwd_fptr'', ''malloc_monitor_t<false>::bi__getdcwd''),
     (Memory_Leak, ''_getdcwd'', ''ucrtbased.dll'', ''malloc_monitor_t<true>::_getdcwd_fptr'', ''malloc_monitor_t<true>::bi__getdcwd''),
     (Memory_Leak, ''_wgetdcwd'', ''ucrtbase.dll'', ''malloc_monitor_t<false>::_wgetdcwd_fptr'', ''malloc_monitor_t<false>::bi__wgetdcwd''),
     (Memory_Leak, ''_wgetdcwd'', ''ucrtbased.dll'', ''malloc_monitor_t<true>::_wgetdcwd_fptr'', ''malloc_monitor_t<true>::bi__wgetdcwd''),
     (Memory_Leak, ''_tempnam'', ''ucrtbase.dll'', ''malloc_monitor_t<false>::_tempnam_fptr'', ''malloc_monitor_t<false>::bi__tempnam''),
     (Memory_Leak, ''_tempnam'', ''ucrtbased.dll'', ''malloc_monitor_t<true>::_tempnam_fptr'', ''malloc_monitor_t<true>::bi__tempnam''),
     (Memory_Leak, ''_wtempnam'', ''ucrtbase.dll'', ''malloc_monitor_t<false>::_wtempnam_fptr'', ''malloc_monitor_t<false>::bi__wtempnam''),
     (Memory_Leak, ''_wtempnam'', ''ucrtbased.dll'', ''malloc_monitor_t<true>::_wtempnam_fptr'', ''malloc_monitor_t<true>::bi__wtempnam''),
     (Memory_Leak, ''_dupenv_s'', ''ucrtbase.dll'', ''malloc_monitor_t<false>::_dupenv_s_fptr'', ''malloc_monitor_t<false>::bi__dupenv_s''),
     (Memory_Leak, ''_dupenv_s'', ''ucrtbased.dll'', ''malloc_monitor_t<true>::_dupenv_s_fptr'', ''malloc_monitor_t<true>::bi__dupenv_s''),
     (Memory_Leak, ''_wdupenv_s'', ''ucrtbase.dll'', ''malloc_monitor_t<false>::_wdupenv_s_fptr'', ''malloc_monitor_t<false>::bi__wdupenv_s''),
     (Memory_Leak, ''_wdupenv_s'', ''ucrtbased.dll'', ''malloc_monitor_t<true>::_wdupenv_s_fptr'', ''malloc_monitor_t<true>::bi__wdupenv_s''),
     (Memory_Leak, ''_fullpath'', ''ucrtbase.dll'', ''malloc_monitor_t<false>::_fullpath_fptr'', ''malloc_monitor_t<false>::bi__fullpath''),
     (Memory_Leak, ''_fullpath'', ''ucrtbased.dll'', ''malloc_monitor_t<true>::_fullpath_fptr'', ''malloc_monitor_t<true>::bi__fullpath''),
     (Memory_Leak, ''_wfullpath'', ''ucrtbase.dll'', ''malloc_monitor_t<false>::_wfullpath_fptr'', ''malloc_monitor_t<false>::bi__wfullpath''),
     (Memory_Leak, ''_wfullpath'', ''ucrtbased.dll'', ''malloc_monitor_t<true>::_wfullpath_fptr'', ''malloc_monitor_t<true>::bi__wfullpath'')]"

definition debug_functions :: "(function_type \<times> string \<times> string \<times> string \<times> string) list" where
  "debug_functions = [
     (Memory_Leak, ''_malloc_dbg'', ''ucrtbased.dll'', ''malloc_monitor_t<true>::_malloc_dbg_fptr'', ''malloc_monitor_t<true>::bi__malloc_dbg''),
     (Memory_Leak, ''_expand_dbg'', ''ucrtbased.dll'', ''malloc_monitor_t<true>::_expand_dbg_fptr'', ''malloc_monitor_t<true>::bi__expand_dbg''),
     (Memory_Leak, ''_calloc_dbg'', ''ucrtbased.dll'', ''malloc_monitor_t<true>::_calloc_dbg_fptr'', ''malloc_monitor_t<true>::bi__calloc_dbg''),
     (Memory_Leak, ''_realloc_dbg'', ''ucrtbased.dll'', ''malloc_monitor_t<true>::_realloc_dbg_fptr'', ''malloc_monitor_t<true>::bi__realloc_dbg''),
     (Memory_Leak, ''_recalloc_dbg'', ''ucrtbased.dll'', ''malloc_monitor_t<true>::_recalloc_dbg_fptr'', ''malloc_monitor_t<true>::bi__recalloc_dbg''),
     (Memory_Leak, ''_free_dbg'', ''ucrtbased.dll'', ''malloc_monitor_t<true>::_free_dbg_fptr'', ''malloc_monitor_t<true>::bi__free_dbg''),
     (Memory_Leak, ''_strdup_dbg'', ''ucrtbased.dll'', ''strdup_monitor_t<true>::_strdup_dbg_fptr'', ''strdup_monitor_t<true>::bi__strdup_dbg''),
     (Memory_Leak, ''_wcsdup_dbg'', ''ucrtbase.dll'', ''strdup_monitor_t<false>::_wcsdup_dbg_fptr'', ''strdup_monitor_t<false>::bi__wcsdup_dbg''),
     (Memory_Leak, ''_aligned_malloc_dbg'', ''ucrtbased.dll'', ''_aligned_malloc_monitor_t<true>::_aligned_malloc_dbg_fptr'', ''_aligned_malloc_monitor_t<true>::bi__aligned_malloc_dbg''),
     (Memory_Leak, ''_aligned_free_dbg'', ''ucrtbased.dll'', ''_aligned_malloc_monitor_t<true>::_aligned_free_dbg_fptr'', ''_aligned_malloc_monitor_t<true>::bi__aligned_free_dbg''),
     (Memory_Leak, ''_aligned_offset_malloc_dbg'', ''ucrtbased.dll'', ''_aligned_malloc_monitor_t<true>::_aligned_offset_malloc_dbg_fptr'', ''_aligned_malloc_monitor_t<true>::bi__aligned_offset_malloc_dbg''),
     (Memory_Leak, ''_aligned_offset_realloc_dbg'', ''ucrtbased.dll'', ''_aligned_malloc_monitor_t<true>::_aligned_offset_realloc_dbg_fptr'', ''_aligned_malloc_monitor_t<true>::bi__aligned_offset_realloc_dbg''),
     (Memory_Leak, ''_aligned_offset_recalloc_dbg'', ''ucrtbased.dll'', ''_aligned_malloc_monitor_t<true>::_aligned_offset_recalloc_dbg_fptr'', ''_aligned_malloc_monitor_t<true>::bi__aligned_offset_recalloc_dbg''),
     (Memory_Leak, ''_aligned_realloc_dbg'', ''ucrtbased.dll'', ''_aligned_malloc_monitor_t<true>::_aligned_realloc_dbg_fptr'', ''_aligned_malloc_monitor_t<true>::bi__aligned_realloc_dbg''),
     (Memory_Leak, ''_aligned_recalloc_dbg'', ''ucrtbased.dll'', ''_aligned_malloc_monitor_t<true>::_aligned_recalloc_dbg_fptr'', ''_aligned_malloc_monitor_t<true>::bi__aligned_recalloc_dbg''),
     (Memory_Leak, ''_getcwd_dbg'', ''ucrtbased.dll'', ''malloc_monitor_t<true>::_getcwd_dbg_fptr'', ''malloc_monitor_t<true>::bi__getcwd_dbg''),
     (Memory_Leak, ''_wgetcwd_dbg'', ''ucrtbased.dll'', ''malloc_monitor_t<true>::_wgetcwd_dbg_fptr'', ''malloc_monitor_t<true>::bi__wgetcwd_dbg''),
     (Memory_Leak, ''_getdcwd_dbg'', ''ucrtbased.dll'', ''malloc_monitor_t<true>::_getdcwd_dbg_ftpr'', ''malloc_monitor_t<true>::bi__getdcwd_dbg''),
     (Memory_Leak, ''_wgetdcwd_dbg'', ''ucrtbased.dll'', ''malloc_monitor_t<true>::_wgetdcwd_dbg_fptr'', ''malloc_monitor_t<true>::bi__wgetdcwd_dbg''),
     (Memory_Leak, ''_tempnam_dbg'', ''ucrtbased.dll'', ''malloc_monitor_t<true>::_tempnam_dbg_fptr'', ''malloc_monitor_t<true>::bi__tempnam_dbg''),
     (Memory_Leak, ''_wtempnam_dbg'', ''ucrtbased.dll'', ''malloc_monitor_t<true>::_wtempnam_dbg_fptr'', ''malloc_monitor_t<true>::bi__wtempnam_dbg''),
     (Memory_Leak, ''_dupenv_s_dbg'', ''ucrtbased.dll'', ''malloc_monitor_t<true>::_dupenv_s_dbg_fptr'', ''malloc_monitor_t<true>::bi__dupenv_s_dbg''),
     (Memory_Leak, ''_wdupenv_s_dbg'', ''ucrtbased.dll'', ''malloc_monitor_t<true>::_wdupenv_s_dbg_fptr'', ''malloc_monitor_t<true>::bi__wdupenv_dbg_s''),
     (Memory_Leak, ''_fullpath_dbg'', ''ucrtbased.dll'', ''malloc_monitor_t<true>::_fullpath_dbg_fptr'', ''malloc_monitor_t<true>::bi__fullpath_dbg''),
     (Memory_Leak, ''_wfullpath_dbg'', ''ucrtbased.dll'', ''malloc_monitor_t<true>::_wfullpath_dbg_fptr'', ''malloc_monitor_t<true>::bi__wfullpath_dbg'')]"

definition lock_functions :: "(function_type \<times> string \<times> string \<times> string \<times> string) list" where
  "lock_functions = [
     (Deadlock, ''InitializeCriticalSection'', ''kernel32.dll'', ''InitializeCriticalSection_fptr'', ''buginsight_initialize_critical_section''),
     (Deadlock, ''InitializeCriticalSectionAndSpinCount'', ''kernel32.dll'', ''InitializeCriticalSectionAndSpinCount_fptr'', ''buginsight_initialize_critical_section_andspincount''),
     (Deadlock, ''TryEnterCriticalSection'', ''kernel32.dll'', ''TryEnterCriticalSection_fptr'', ''buginsight_tryenter_critical_section''),
     (Deadlock, ''EnterCriticalSection'', ''kernel32.dll'', ''EnterCriticalSection_fptr'', ''buginsight_enter_critical_section''),
     (Deadlock, ''LeaveCriticalSection'', ''kernel32.dll'', ''LeaveCriticalSection_fptr'', ''buginsight_leave_critical_section''),
     (Deadlock, ''DeleteCriticalSection'', ''kernel32.dll'', ''DeleteCriticalSection_fptr'', ''buginsight_delete_critical_section''),
     (Deadlock, ''_Mtx_lock'', ''msvcp140.dll'', ''mutex_monitor_t<false>::_Mtx_lock_fptr'', ''mutex_monitor_t<false>::bi_mtx_lock''),
     (Deadlock, ''_Mtx_lock'', ''msvcp140d.dll'', ''mutex_monitor_t<true>::_Mtx_lock_fptr'', ''mutex_monitor_t<true>::bi_mtx_lock''),
     (Deadlock, ''_Mtx_unlock'', ''msvcp140.dll'', ''mutex_monitor_t<false>::_Mtx_unlock_fptr'', ''mutex_monitor_t<false>::bi_mtx_unlock''),
     (Deadlock, ''_Mtx_unlock'', ''msvcp140d.dll'', ''mutex_monitor_t<true>::_Mtx_unlock_fptr'', ''mutex_monitor_t<true>::bi_mtx_unlock''),
     (Deadlock, ''_Mtx_trylock'', ''msvcp140.dll'', ''mutex_monitor_t<false>::_Mtx_trylock_fptr'', ''mutex_monitor_t<false>::bi_mtx_trylock''),
     (Deadlock, ''_Mtx_trylock'', ''msvcp140d.dll'', ''mutex_monitor_t<true>::_Mtx_trylock_fptr'', ''mutex_monitor_t<true>::bi_mtx_trylock''),
     (Deadlock, ''_Mtx_init_in_situ'', ''msvcp140.dll'', ''mutex_monitor_t<false>::_Mtx_init_in_situ_fptr'', ''mutex_monitor_t<false>::bi_init_in_situ''),
     (Deadlock, ''_Mtx_init_in_situ'', ''msvcp140d.dll'', ''mutex_monitor_t<true>::_Mtx_init_in_situ_fptr'', ''mutex_monitor_t<true>::bi_init_in_situ''),
     (Deadlock, ''_Mtx_destroy_in_situ'', ''msvcp140.dll'', ''mutex_monitor_t<false>::_Mtx_destroy_in_situ_fptr'', ''mutex_monitor_t<false>::bi_mtx_destroy_in_situ''),
     (Deadlock, ''_Mtx_destroy_in_situ'', ''msvcp140d.dll'', ''mutex_monitor_t<true>::_Mtx_destroy_in_situ_fptr'', ''mutex_monitor_t<true>::bi_mtx_destroy_in_situ''),
     (Deadlock, ''_Cnd_wait'', ''msvcp140.dll'', ''mutex_monitor_t<false>::_Cnd_wait_fptr'', ''mutex_monitor_t<false>::bi__cnd_wait''),
     (Deadlock, ''_Cnd_wait'', ''msvcp140d.dll'', ''mutex_monitor_t<true>::_Cnd_wait_fptr'', ''mutex_monitor_t<true>::bi__cnd_wait''),
     (Deadlock, ''_Cnd_timedwait'', ''msvcp140.dll'', ''mutex_monitor_t<false>::_Cnd_timedwait_fptr'', ''mutex_monitor_t<false>::bi__cnd_timedwait''),
     (Deadlock, ''_Cnd_timedwait'', ''msvcp140d.dll'', ''mutex_monitor_t<true>::_Cnd_timedwait_fptr'', ''mutex_monitor_t<true>::bi__cnd_timedwait'')]"

definition function_entry ::
  "(string \<Rightarrow> ptr) \<Rightarrow> function_type \<times> string \<times> string \<times> string \<times> string \<Rightarrow> function_to_patch" where
  "function_entry address = (\<lambda>(t, name, module, slot, replacement).
     \<lparr>fp_type = t, fp_name = name, fp_module = module, fp_handle = 0, fp_slot = slot,
      fp_replacement = address replacement\<rparr>)"

definition patch_table :: "(function_type \<times> string \<times> string \<times> string \<times> string) list" where
  "patch_table = windows_functions @ runtime_functions @ debug_functions @ lock_functions"

definition prepare_functions_to_patch :: "(string \<Rightarrow> ptr) \<Rightarrow> function_to_patch list" where
  "prepare_functions_to_patch address = map (function_entry address) patch_table"

section \<open>The entries\<close>

lemma table_size: "length patch_table = 123"
  by (simp add: patch_table_def windows_functions_def runtime_functions_def debug_functions_def
      lock_functions_def)

text \<open>
  The strings are compared by a number made of their characters, which is much faster than comparing
  them one by one.
\<close>

definition text_code :: "string \<Rightarrow> nat" where
  "text_code s = foldl (\<lambda>a c. 3 * a + of_char c) 0 s"

lemma distinct_text_code: "distinct (map (\<lambda>x. text_code (f x)) xs) \<Longrightarrow> distinct (map f xs)"
  by (simp add: distinct_map inj_on_def)

lemma slots_distinct: "distinct (map (\<lambda>(t, n, m, s, r). s) patch_table)"
proof -
  have "distinct (map (\<lambda>x. text_code ((\<lambda>(t, n, m, s, r). s) x)) patch_table)"
    unfolding patch_table_def windows_functions_def runtime_functions_def debug_functions_def
      lock_functions_def
    by (simp add: text_code_def)
  then show ?thesis by (rule distinct_text_code)
qed

lemma replacements_distinct: "distinct (map (\<lambda>(t, n, m, s, r). r) patch_table)"
proof -
  have "distinct (map (\<lambda>x. text_code ((\<lambda>(t, n, m, s, r). r) x)) patch_table)"
    unfolding patch_table_def windows_functions_def runtime_functions_def debug_functions_def
      lock_functions_def
    by (simp add: text_code_def)
  then show ?thesis by (rule distinct_text_code)
qed

definition replacement_names :: "string list" where
  "replacement_names = map (\<lambda>(t, n, m, s, r). r) patch_table"

lemma prepared_slots: "map fp_slot (prepare_functions_to_patch address) = map (\<lambda>(t, n, m, s, r). s) patch_table"
  by (simp add: prepare_functions_to_patch_def function_entry_def split_beta comp_def)

lemma prepared_replacements:
  "map fp_replacement (prepare_functions_to_patch address) = map address replacement_names"
  by (simp add: prepare_functions_to_patch_def function_entry_def split_beta comp_def replacement_names_def)

lemma prepared_distinct:
  "distinct (map fp_slot (prepare_functions_to_patch address))"
  "inj_on address (set replacement_names) \<Longrightarrow>
     distinct (map fp_replacement (prepare_functions_to_patch address))"
  unfolding prepared_slots prepared_replacements
  using slots_distinct replacements_distinct [folded replacement_names_def]
  by (simp_all add: distinct_map)

text \<open>The debug variant of \<^verbatim>\<open>_wcsdup\<close> is looked up in the release runtime, which does not have it.\<close>

lemma wcsdup_dbg_entry:
  "filter (\<lambda>(t, n, m, s, r). n = ''_wcsdup_dbg'') patch_table =
     [(Memory_Leak, ''_wcsdup_dbg'', ''ucrtbase.dll'', ''strdup_monitor_t<false>::_wcsdup_dbg_fptr'',
       ''strdup_monitor_t<false>::bi__wcsdup_dbg'')]"
  by (simp add: patch_table_def windows_functions_def runtime_functions_def debug_functions_def
      lock_functions_def)

end
