(* ===== verification/Import_Patching.thy ===== *)
theory Import_Patching
  imports Patched_Functions Module_Patterns
begin

text \<open>
  The redirection of imported functions (\<^verbatim>\<open>iat/iat_patching.cpp\<close>, \<^verbatim>\<open>iat_helper.cpp\<close>,
  \<^verbatim>\<open>modules_helper.cpp\<close>). The import tables of the loaded modules are data; the code bytes, the
  answers of Windows and whether a module comes from Microsoft are arguments. The code that
  \<open>find_real_code\<close> reads lies outside the import tables that are rewritten.
\<close>

section \<open>Import tables\<close>

record thunk =
  tk_address :: ptr
  tk_function :: ptr

record import_descriptor =
  id_name :: string
  id_thunks :: "thunk list"

record module_info =
  mi_handle :: ptr
  mi_name :: string
  mi_path :: string
  mi_imports :: "import_descriptor list"

text \<open>
  \<^verbatim>\<open>pe_still_loaded\<close> is the answer of \<^verbatim>\<open>get_calling_module\<close> for the base address, \<^verbatim>\<open>pe_pinned\<close> that of
  \<^verbatim>\<open>GetModuleHandleEx\<close>, and \<^verbatim>\<open>pe_writable\<close> that of the first \<^verbatim>\<open>VirtualProtect\<close> for an address.
\<close>

record patch_env =
  pe_code :: "ptr \<Rightarrow> u8"
  pe_get_proc_address :: "ptr \<Rightarrow> string \<Rightarrow> ptr"
  pe_writable :: "ptr \<Rightarrow> bool"
  pe_microsoft :: "string \<Rightarrow> bool"
  pe_still_loaded :: "ptr \<Rightarrow> bool"
  pe_pinned :: "ptr \<Rightarrow> bool"

text \<open>The variables with the original functions, by their names.\<close>

type_synonym slots = "string \<Rightarrow> ptr"

section \<open>Jump stubs\<close>

fun read_le :: "(ptr \<Rightarrow> u8) \<Rightarrow> nat \<Rightarrow> ptr \<Rightarrow> nat" where
  "read_le code 0 p = 0"
| "read_le code (Suc n) p = unat (code p) + 256 * read_le code n (p + 1)"

definition read_long :: "(ptr \<Rightarrow> u8) \<Rightarrow> ptr \<Rightarrow> ptr" where
  "read_long code p = scast (of_nat (read_le code 4 p) :: u32)"

text \<open>\<^verbatim>\<open>find_real_code\<close> of the 64-bit build; \<open>None\<close> is a chain of jumps that does not end.\<close>

partial_function (option) find_real_code :: "(ptr \<Rightarrow> u8) \<Rightarrow> ptr \<Rightarrow> ptr option" where
  "find_real_code code p =
     (if p = 0 then Some 0
      else if read_le code 2 p = 0x25FF
      then Some (of_nat (read_le code 8 (p + 6 + read_long code (p + 2))))
      else if code p = 0xE9 then find_real_code code (p + 5 + read_long code (p + 1))
      else Some p)"

section \<open>One import\<close>

definition function_matches ::
  "patch_env \<Rightarrow> bool \<Rightarrow> function_type list \<Rightarrow> ptr \<Rightarrow> ptr \<Rightarrow> slots \<Rightarrow> function_to_patch \<Rightarrow> bool option" where
  "function_matches env revert enabled imported func slots f =
     (if fp_type f \<notin> set enabled then Some False
      else if fp_handle f = 0 then Some False
      else if slots (fp_slot f) \<noteq> 0 then
        Some (if revert then imported = fp_replacement f else slots (fp_slot f) = func)
      else
        let a = pe_get_proc_address env (fp_handle f) (fp_name f) in
        if a = 0 then Some False
        else map_option (\<lambda>a'. a' = func) (find_real_code (pe_code env) a))"

fun find_function ::
  "patch_env \<Rightarrow> bool \<Rightarrow> function_type list \<Rightarrow> ptr \<Rightarrow> ptr \<Rightarrow> slots \<Rightarrow> function_to_patch list
     \<Rightarrow> function_to_patch option option" where
  "find_function env revert enabled imported func slots [] = Some None"
| "find_function env revert enabled imported func slots (f # fs) =
     Option.bind (function_matches env revert enabled imported func slots f) (\<lambda>matching.
       if matching then Some (Some f) else find_function env revert enabled imported func slots fs)"

definition patch_function ::
  "patch_env \<Rightarrow> bool \<Rightarrow> thunk \<Rightarrow> ptr \<Rightarrow> function_to_patch \<Rightarrow> slots \<Rightarrow> thunk \<times> slots" where
  "patch_function env revert t func f slots =
     (if \<not> pe_writable env (tk_address t) then (t, slots)
      else if revert then (t\<lparr>tk_function := slots (fp_slot f)\<rparr>, slots)
      else (t\<lparr>tk_function := fp_replacement f\<rparr>, slots(fp_slot f := func)))"

definition patch_thunk ::
  "patch_env \<Rightarrow> bool \<Rightarrow> function_type list \<Rightarrow> function_to_patch list \<Rightarrow> thunk \<Rightarrow> slots
     \<Rightarrow> (thunk \<times> slots) option" where
  "patch_thunk env revert enabled fs t slots =
     Option.bind (if revert then Some 0 else find_real_code (pe_code env) (tk_function t)) (\<lambda>func.
     Option.bind (find_function env revert enabled (tk_function t) func slots fs) (\<lambda>found.
     Some (case found of None \<Rightarrow> (t, slots) | Some f \<Rightarrow> patch_function env revert t func f slots)))"

fun patch_thunks ::
  "patch_env \<Rightarrow> bool \<Rightarrow> function_type list \<Rightarrow> function_to_patch list \<Rightarrow> thunk list \<Rightarrow> slots
     \<Rightarrow> (thunk list \<times> slots) option" where
  "patch_thunks env revert enabled fs [] slots = Some ([], slots)"
| "patch_thunks env revert enabled fs (t # ts) slots =
     Option.bind (patch_thunk env revert enabled fs t slots) (\<lambda>(t', slots1).
     Option.bind (patch_thunks env revert enabled fs ts slots1) (\<lambda>(ts', slots2).
     Some (t' # ts', slots2)))"

section \<open>One module\<close>

definition runtime_modules :: "string list" where
  "runtime_modules = [''ucrtbased.dll'', ''ucrtbase.dll'', ''vcruntime140.dll'', ''vcruntime140d.dll'']"

fun patch_iat ::
  "string \<Rightarrow> patch_env \<Rightarrow> bool \<Rightarrow> function_type list \<Rightarrow> function_to_patch list \<Rightarrow> import_descriptor list
     \<Rightarrow> slots \<Rightarrow> bool \<Rightarrow> (import_descriptor list \<times> slots \<times> bool) option" where
  "patch_iat dll env revert enabled fs [] slots found = Some ([], slots, found)"
| "patch_iat dll env revert enabled fs (d # ds) slots found =
     (let imported_module = to_lower (id_name d) in
      if imported_module = dll then
        map_option (\<lambda>(ds', slots1, found1). (d # ds', slots1, found1))
          (patch_iat dll env revert enabled fs ds slots found)
      else
        Option.bind (patch_thunks env revert enabled fs (id_thunks d) slots) (\<lambda>(ts, slots1).
        map_option (\<lambda>(ds', slots2, found2). (d\<lparr>id_thunks := ts\<rparr> # ds', slots2, found2))
          (patch_iat dll env revert enabled fs ds slots1
             (found \<or> imported_module \<in> set runtime_modules))))"

section \<open>All modules\<close>

definition set_module_base :: "module_info list \<Rightarrow> function_to_patch \<Rightarrow> function_to_patch" where
  "set_module_base ms f =
     (case find (\<lambda>m. mi_name m = fp_module f) ms of
       None \<Rightarrow> f
     | Some m \<Rightarrow> f\<lparr>fp_handle := mi_handle m\<rparr>)"

definition ignored_by :: "blacklist_info list \<Rightarrow> module_info \<Rightarrow> bool" where
  "ignored_by entries m \<longleftrightarrow> find (\<lambda>b. regex_match (m_regex_string b) (mi_name m)) entries \<noteq> None"

definition enabled_function_types :: "user_options \<Rightarrow> module_info \<Rightarrow> function_type list" where
  "enabled_function_types opts m =
     (if ignored_by (m_blacklist_modules_deadlocks opts) m then [] else [Deadlock]) @
     (if ignored_by (m_blacklist_modules_memory_leaks opts) m then [] else [Memory_Leak])"

definition module_considered :: "string \<Rightarrow> string list \<Rightarrow> patch_env \<Rightarrow> module_info \<Rightarrow> bool" where
  "module_considered dll known env m \<longleftrightarrow>
     mi_name m \<notin> set known \<and> \<not> pe_microsoft env (mi_path m) \<and> pe_still_loaded env (mi_handle m) \<and>
     pe_pinned env (mi_handle m) \<and> to_lower (mi_path m) \<noteq> dll"

record patch_state =
  ps_functions :: "function_to_patch list"
  ps_modules :: "module_info list"
  ps_slots :: slots
  ps_static_runtime :: "string list"

fun patch_modules ::
  "string \<Rightarrow> string list \<Rightarrow> patch_env \<Rightarrow> user_options \<Rightarrow> bool \<Rightarrow> function_to_patch list
     \<Rightarrow> module_info list \<Rightarrow> slots \<Rightarrow> string list \<Rightarrow> (module_info list \<times> slots \<times> string list) option" where
  "patch_modules dll known env opts revert fs [] slots static = Some ([], slots, static)"
| "patch_modules dll known env opts revert fs (m # ms) slots static =
     (let enabled = enabled_function_types opts m in
      if \<not> module_considered dll known env m \<or> enabled = [] then
        map_option (\<lambda>(ms', slots1, static1). (m # ms', slots1, static1))
          (patch_modules dll known env opts revert fs ms slots static)
      else
        Option.bind (patch_iat dll env revert enabled fs (mi_imports m) slots False) (\<lambda>(ds, slots1, found).
        map_option (\<lambda>(ms', slots2, static2). (m\<lparr>mi_imports := ds\<rparr> # ms', slots2, static2))
          (patch_modules dll known env opts revert fs ms slots1
             (if found then static else List.insert (mi_name m) static))))"

definition patch_loaded_modules ::
  "string \<Rightarrow> string list \<Rightarrow> patch_env \<Rightarrow> user_options \<Rightarrow> bool \<Rightarrow> patch_state \<Rightarrow> patch_state option" where
  "patch_loaded_modules dll known env opts revert s =
     (let fs = map (set_module_base (ps_modules s)) (ps_functions s) in
      map_option (\<lambda>(ms, slots, static).
          \<lparr>ps_functions = fs, ps_modules = ms, ps_slots = slots, ps_static_runtime = static\<rparr>)
        (patch_modules dll known env opts revert fs (ps_modules s) (ps_slots s) (ps_static_runtime s)))"

end
