(* ===== verification/Import_Correct.thy ===== *)
theory Import_Correct
  imports Import_Patching
begin

text \<open>
  What redirecting the imports does to each entry, without the variables that keep the original
  functions: the reference definitions \<open>redirect\<close> and \<open>restored\<close>, and that the code computes them.
\<close>

section \<open>Reference definitions\<close>

definition code_ok :: "patch_env \<Rightarrow> bool" where
  "code_ok env \<longleftrightarrow> (\<forall>p. p \<noteq> 0 \<longrightarrow> (\<exists>q. q \<noteq> 0 \<and> find_real_code (pe_code env) p = Some q))"

definition real_code :: "patch_env \<Rightarrow> ptr \<Rightarrow> ptr" where
  "real_code env p = the (find_real_code (pe_code env) p)"

text \<open>The import is the function of the entry: both lead to the same code.\<close>

definition imports_function :: "patch_env \<Rightarrow> function_to_patch \<Rightarrow> ptr \<Rightarrow> bool" where
  "imports_function env f p \<longleftrightarrow>
     fp_handle f \<noteq> 0 \<and> pe_get_proc_address env (fp_handle f) (fp_name f) \<noteq> 0 \<and>
     real_code env (pe_get_proc_address env (fp_handle f) (fp_name f)) = real_code env p"

definition target ::
  "patch_env \<Rightarrow> function_type list \<Rightarrow> function_to_patch list \<Rightarrow> thunk \<Rightarrow> function_to_patch option" where
  "target env enabled fs t =
     (if pe_writable env (tk_address t)
      then find (\<lambda>f. fp_type f \<in> set enabled \<and> imports_function env f (tk_function t)) fs else None)"

definition redirect :: "patch_env \<Rightarrow> function_type list \<Rightarrow> function_to_patch list \<Rightarrow> thunk \<Rightarrow> thunk" where
  "redirect env enabled fs t =
     (case target env enabled fs t of None \<Rightarrow> t | Some f \<Rightarrow> t\<lparr>tk_function := fp_replacement f\<rparr>)"

definition restored :: "patch_env \<Rightarrow> function_type list \<Rightarrow> function_to_patch list \<Rightarrow> thunk \<Rightarrow> thunk" where
  "restored env enabled fs t =
     (case target env enabled fs t of None \<Rightarrow> t | Some f \<Rightarrow> t\<lparr>tk_function := real_code env (tk_function t)\<rparr>)"

definition map_imports :: "string \<Rightarrow> (thunk \<Rightarrow> thunk) \<Rightarrow> import_descriptor list \<Rightarrow> import_descriptor list" where
  "map_imports dll g ds =
     map (\<lambda>d. if to_lower (id_name d) = dll then d else d\<lparr>id_thunks := map g (id_thunks d)\<rparr>) ds"

definition map_module ::
  "string \<Rightarrow> string list \<Rightarrow> patch_env \<Rightarrow> user_options \<Rightarrow> (function_type list \<Rightarrow> thunk \<Rightarrow> thunk)
     \<Rightarrow> module_info \<Rightarrow> module_info" where
  "map_module dll known env opts g m =
     (if module_considered dll known env m
      then m\<lparr>mi_imports := map_imports dll (g (enabled_function_types opts m)) (mi_imports m)\<rparr> else m)"

section \<open>Jump stubs\<close>

lemma find_real_code_0 [simp]: "find_real_code code 0 = Some 0"
  by (subst find_real_code.simps) simp

lemma real_code_Some: "code_ok env \<Longrightarrow> find_real_code (pe_code env) p = Some (real_code env p)"
  unfolding code_ok_def real_code_def by (cases "p = 0") auto

lemma real_code_0: "code_ok env \<Longrightarrow> real_code env p = 0 \<longleftrightarrow> p = 0"
  unfolding code_ok_def real_code_def by (cases "p = 0") auto

section \<open>Redirecting\<close>

text \<open>A variable that is set holds the code of its function.\<close>

definition slots_ok :: "patch_env \<Rightarrow> function_to_patch list \<Rightarrow> slots \<Rightarrow> bool" where
  "slots_ok env fs slots \<longleftrightarrow> (\<forall>f\<in>set fs. slots (fp_slot f) \<noteq> 0 \<longrightarrow>
     pe_get_proc_address env (fp_handle f) (fp_name f) \<noteq> 0 \<and>
     real_code env (pe_get_proc_address env (fp_handle f) (fp_name f)) = slots (fp_slot f))"

definition extends :: "slots \<Rightarrow> slots \<Rightarrow> bool" where
  "extends slots slots' \<longleftrightarrow> (\<forall>x. slots x \<noteq> 0 \<longrightarrow> slots' x = slots x)"

definition recorded ::
  "patch_env \<Rightarrow> function_type list \<Rightarrow> function_to_patch list \<Rightarrow> slots \<Rightarrow> thunk \<Rightarrow> bool" where
  "recorded env enabled fs slots t \<longleftrightarrow> (\<forall>f. target env enabled fs t = Some f \<longrightarrow>
     slots (fp_slot f) \<noteq> 0 \<and> slots (fp_slot f) = real_code env (tk_function t))"

lemma extends_refl [simp]: "extends slots slots"
  by (simp add: extends_def)

lemma extends_trans [trans]: "extends s1 s2 \<Longrightarrow> extends s2 s3 \<Longrightarrow> extends s1 s3"
  by (simp add: extends_def)

lemma recorded_extends: "recorded env enabled fs s t \<Longrightarrow> extends s s' \<Longrightarrow> recorded env enabled fs s' t"
  by (auto simp: recorded_def extends_def)

lemma function_matches_forward:
  assumes "code_ok env" "slots_ok env fs slots" "f \<in> set fs"
  shows "function_matches env False enabled v (real_code env p) slots f =
    Some (fp_type f \<in> set enabled \<and> imports_function env f p)"
  using assms by (auto simp: function_matches_def imports_function_def slots_ok_def real_code_Some Let_def)

lemma find_function_forward:
  assumes "code_ok env" "slots_ok env fs slots" "set gs \<subseteq> set fs"
  shows "find_function env False enabled v (real_code env p) slots gs =
    Some (find (\<lambda>f. fp_type f \<in> set enabled \<and> imports_function env f p) gs)"
  using assms(3) by (induction gs) (simp_all add: function_matches_forward [OF assms(1,2)])

lemma patch_thunk_forward:
  assumes env: "code_ok env" and ok: "slots_ok env fs slots" and slots: "distinct (map fp_slot fs)"
  shows "\<exists>slots'. patch_thunk env False enabled fs t slots = Some (redirect env enabled fs t, slots') \<and>
    slots_ok env fs slots' \<and> extends slots slots' \<and> recorded env enabled fs slots' t"
proof (cases "target env enabled fs t")
  case None
  then have "patch_thunk env False enabled fs t slots = Some (t, slots)"
    using find_function_forward [OF env ok order_refl]
    by (auto simp: patch_thunk_def target_def real_code_Some [OF env] patch_function_def
        split: if_splits option.split)
  then show ?thesis using None ok by (auto simp: redirect_def recorded_def)
next
  case (Some f)
  let ?v = "real_code env (tk_function t)"
  let ?s = "slots(fp_slot f := ?v)"
  have found: "find (\<lambda>f. fp_type f \<in> set enabled \<and> imports_function env f (tk_function t)) fs = Some f"
    and writable: "pe_writable env (tk_address t)"
    using Some by (simp_all add: target_def split: if_splits)
  then have f: "f \<in> set fs" "imports_function env f (tk_function t)"
    by (auto simp: find_Some_iff)
  have run: "patch_thunk env False enabled fs t slots = Some (t\<lparr>tk_function := fp_replacement f\<rparr>, ?s)"
    using found writable find_function_forward [OF env ok order_refl]
    by (simp add: patch_thunk_def real_code_Some [OF env] patch_function_def)
  have nonzero: "?v \<noteq> 0" using f(2) real_code_0 [OF env] by (metis imports_function_def)
  have same: "g = f" if "g \<in> set fs" "fp_slot g = fp_slot f" for g
    using that f(1) slots by (auto simp: distinct_map dest: inj_onD)
  have "slots_ok env fs ?s"
    using ok same f(2) by (auto simp: slots_ok_def imports_function_def)
  moreover have "extends slots ?s"
    using ok f by (auto simp: extends_def slots_ok_def imports_function_def)
  moreover have "recorded env enabled fs ?s t"
    using Some nonzero by (simp add: recorded_def)
  ultimately show ?thesis using run Some by (auto simp: redirect_def)
qed

lemma patch_thunks_forward:
  assumes "code_ok env" "slots_ok env fs slots" "distinct (map fp_slot fs)"
  shows "\<exists>slots'. patch_thunks env False enabled fs ts slots = Some (map (redirect env enabled fs) ts, slots') \<and>
    slots_ok env fs slots' \<and> extends slots slots' \<and> list_all (recorded env enabled fs slots') ts"
  using assms(2)
proof (induction ts arbitrary: slots)
  case (Cons t ts)
  obtain s1 where s1: "patch_thunk env False enabled fs t slots = Some (redirect env enabled fs t, s1)"
    "slots_ok env fs s1" "extends slots s1" "recorded env enabled fs s1 t"
    using patch_thunk_forward [OF assms(1) Cons.prems assms(3)] by blast
  obtain s2 where s2: "patch_thunks env False enabled fs ts s1 = Some (map (redirect env enabled fs) ts, s2)"
    "slots_ok env fs s2" "extends s1 s2" "list_all (recorded env enabled fs s2) ts"
    using Cons.IH [OF s1(2)] by blast
  have "recorded env enabled fs s2 t" using s1(4) s2(3) by (rule recorded_extends)
  then show ?case using s1 s2 extends_trans [OF s1(3) s2(3)] by simp
qed simp

definition imports_runtime :: "string \<Rightarrow> import_descriptor list \<Rightarrow> bool" where
  "imports_runtime dll ds \<longleftrightarrow>
     list_ex (\<lambda>d. to_lower (id_name d) \<noteq> dll \<and> to_lower (id_name d) \<in> set runtime_modules) ds"

definition own_thunks :: "string \<Rightarrow> import_descriptor list \<Rightarrow> thunk list" where
  "own_thunks dll ds = concat (map id_thunks (filter (\<lambda>d. to_lower (id_name d) \<noteq> dll) ds))"

lemma own_thunks_Cons:
  "own_thunks dll (d # ds) = (if to_lower (id_name d) = dll then [] else id_thunks d) @ own_thunks dll ds"
  by (simp add: own_thunks_def)

lemma list_all_recorded_extends:
  "list_all (recorded env enabled fs s) ts \<Longrightarrow> extends s s' \<Longrightarrow> list_all (recorded env enabled fs s') ts"
  by (auto simp: list_all_iff intro: recorded_extends)

lemma patch_iat_forward:
  assumes "code_ok env" "slots_ok env fs slots" "distinct (map fp_slot fs)"
  shows "\<exists>slots'. patch_iat dll env False enabled fs ds slots found =
      Some (map_imports dll (redirect env enabled fs) ds, slots', found \<or> imports_runtime dll ds) \<and>
    slots_ok env fs slots' \<and> extends slots slots' \<and>
    list_all (recorded env enabled fs slots') (own_thunks dll ds)"
  using assms(2)
proof (induction ds arbitrary: slots found)
  case Nil
  then show ?case by (simp add: map_imports_def imports_runtime_def own_thunks_def)
next
  case (Cons d ds)
  show ?case
  proof (cases "to_lower (id_name d) = dll")
    case True
    obtain s1 where "patch_iat dll env False enabled fs ds slots found =
        Some (map_imports dll (redirect env enabled fs) ds, s1, found \<or> imports_runtime dll ds)"
      "slots_ok env fs s1" "extends slots s1" "list_all (recorded env enabled fs s1) (own_thunks dll ds)"
      using Cons.IH [OF Cons.prems] by blast
    then show ?thesis using True by (simp add: map_imports_def imports_runtime_def own_thunks_Cons)
  next
    case False
    obtain s1 where s1: "patch_thunks env False enabled fs (id_thunks d) slots =
        Some (map (redirect env enabled fs) (id_thunks d), s1)"
      "slots_ok env fs s1" "extends slots s1" "list_all (recorded env enabled fs s1) (id_thunks d)"
      using patch_thunks_forward [OF assms(1) Cons.prems assms(3)] by blast
    let ?found = "found \<or> to_lower (id_name d) \<in> set runtime_modules"
    obtain s2 where s2: "patch_iat dll env False enabled fs ds s1 ?found =
        Some (map_imports dll (redirect env enabled fs) ds, s2, ?found \<or> imports_runtime dll ds)"
      "slots_ok env fs s2" "extends s1 s2" "list_all (recorded env enabled fs s2) (own_thunks dll ds)"
      using Cons.IH [OF s1(2)] by blast
    have "list_all (recorded env enabled fs s2) (id_thunks d)"
      using s1(4) s2(3) by (rule list_all_recorded_extends)
    then show ?thesis
      using False s1(1) s2 extends_trans [OF s1(3) s2(3)]
      by (simp add: map_imports_def imports_runtime_def own_thunks_Cons disj_assoc)
  qed
qed

definition module_recorded ::
  "string \<Rightarrow> string list \<Rightarrow> patch_env \<Rightarrow> user_options \<Rightarrow> function_to_patch list \<Rightarrow> slots \<Rightarrow> module_info \<Rightarrow> bool" where
  "module_recorded dll known env opts fs slots m \<longleftrightarrow>
     (module_considered dll known env m \<longrightarrow>
       list_all (recorded env (enabled_function_types opts m) fs slots) (own_thunks dll (mi_imports m)))"

text \<open>No function type is enabled: nothing is redirected.\<close>

lemma target_none: "target env [] fs t = None"
  by (simp add: target_def find_None_iff)

lemma redirect_none: "redirect env [] fs = (\<lambda>t. t)" "restored env [] fs = (\<lambda>t. t)"
  by (simp_all add: redirect_def restored_def target_none fun_eq_iff)

lemma map_imports_id: "map_imports dll (\<lambda>t. t) ds = ds"
  by (induction ds) (simp_all add: map_imports_def)

lemma patch_modules_forward:
  assumes "code_ok env" "slots_ok env fs slots" "distinct (map fp_slot fs)"
  shows "\<exists>slots' static'. patch_modules dll known env opts False fs ms slots static =
      Some (map (map_module dll known env opts (\<lambda>e. redirect env e fs)) ms, slots', static') \<and>
    slots_ok env fs slots' \<and> extends slots slots' \<and>
    list_all (module_recorded dll known env opts fs slots') ms"
  using assms(2)
proof (induction ms arbitrary: slots static)
  case (Cons m ms)
  let ?e = "enabled_function_types opts m"
  show ?case
  proof (cases "\<not> module_considered dll known env m \<or> ?e = []")
    case True
    obtain s1 st where s1: "patch_modules dll known env opts False fs ms slots static =
        Some (map (map_module dll known env opts (\<lambda>e. redirect env e fs)) ms, s1, st)"
      "slots_ok env fs s1" "extends slots s1" "list_all (module_recorded dll known env opts fs s1) ms"
      using Cons.IH [OF Cons.prems] by blast
    have "map_module dll known env opts (\<lambda>e. redirect env e fs) m = m"
      using True by (auto simp: map_module_def redirect_none map_imports_id)
    moreover have "module_recorded dll known env opts fs s1 m"
      using True by (auto simp: module_recorded_def recorded_def target_none list_all_iff)
    ultimately show ?thesis using True s1 by simp
  next
    case False
    obtain s1 found where s1: "patch_iat dll env False ?e fs (mi_imports m) slots False =
        Some (map_imports dll (redirect env ?e fs) (mi_imports m), s1, found)"
      "slots_ok env fs s1" "extends slots s1"
      "list_all (recorded env ?e fs s1) (own_thunks dll (mi_imports m))"
      using patch_iat_forward [OF assms(1) Cons.prems assms(3)] by blast
    obtain s2 st where s2: "patch_modules dll known env opts False fs ms s1
          (if found then static else List.insert (mi_name m) static) =
        Some (map (map_module dll known env opts (\<lambda>e. redirect env e fs)) ms, s2, st)"
      "slots_ok env fs s2" "extends s1 s2" "list_all (module_recorded dll known env opts fs s2) ms"
      using Cons.IH [OF s1(2)] by blast
    have "module_recorded dll known env opts fs s2 m"
      using list_all_recorded_extends [OF s1(4) s2(3)] by (simp add: module_recorded_def)
    then show ?thesis
      using False s1(1) s2 extends_trans [OF s1(3) s2(3)] by (simp add: map_module_def Let_def)
  qed
qed simp

section \<open>Restoring\<close>

lemma function_matches_revert:
  assumes "code_ok env"
  shows "function_matches env True enabled v 0 slots f =
    Some (fp_type f \<in> set enabled \<and> fp_handle f \<noteq> 0 \<and> slots (fp_slot f) \<noteq> 0 \<and> v = fp_replacement f)"
  using real_code_0 [OF assms]
  by (auto simp: function_matches_def real_code_Some [OF assms] Let_def)

lemma find_function_revert:
  assumes "code_ok env"
  shows "find_function env True enabled v 0 slots gs =
    Some (find (\<lambda>f. fp_type f \<in> set enabled \<and> fp_handle f \<noteq> 0 \<and> slots (fp_slot f) \<noteq> 0 \<and>
      v = fp_replacement f) gs)"
  by (induction gs) (simp_all add: function_matches_revert [OF assms])

lemma find_only:
  assumes "f \<in> set xs" "P f" "\<And>g. g \<in> set xs \<Longrightarrow> P g \<Longrightarrow> g = f"
  shows "find P xs = Some f"
proof -
  obtain g where g: "find P xs = Some g" using assms(1,2) find_None_iff [of P xs] by fastforce
  then have "g \<in> set xs" "P g" by (auto simp: find_Some_iff)
  then show ?thesis using g assms(3) by simp
qed

lemma patch_thunk_revert:
  assumes env: "code_ok env" and repl: "distinct (map fp_replacement fs)"
    and rec: "recorded env enabled fs slots t" and free: "tk_function t \<notin> fp_replacement ` set fs"
  shows "patch_thunk env True enabled fs (redirect env enabled fs t) slots =
    Some (restored env enabled fs t, slots)"
proof (cases "target env enabled fs t")
  case None
  have "find (\<lambda>f. fp_type f \<in> set enabled \<and> fp_handle f \<noteq> 0 \<and> slots (fp_slot f) \<noteq> 0 \<and>
      tk_function t = fp_replacement f) fs = None"
    using free by (auto simp: find_None_iff)
  then show ?thesis
    using None by (simp add: patch_thunk_def find_function_revert [OF env] redirect_def restored_def)
next
  case (Some f)
  have f: "f \<in> set fs" "fp_type f \<in> set enabled" "fp_handle f \<noteq> 0" and writable: "pe_writable env (tk_address t)"
    using Some by (auto simp: target_def find_Some_iff imports_function_def split: if_splits)
  have slot: "slots (fp_slot f) \<noteq> 0" "slots (fp_slot f) = real_code env (tk_function t)"
    using rec Some unfolding recorded_def by blast+
  have "find (\<lambda>g. fp_type g \<in> set enabled \<and> fp_handle g \<noteq> 0 \<and> slots (fp_slot g) \<noteq> 0 \<and>
      fp_replacement f = fp_replacement g) fs = Some f"
    using f slot(1) repl by (intro find_only) (auto simp: distinct_map dest: inj_onD)
  then show ?thesis
    using Some writable slot
    by (simp add: patch_thunk_def find_function_revert [OF env] redirect_def restored_def patch_function_def)
qed

lemma patch_thunks_revert:
  assumes "code_ok env" "distinct (map fp_replacement fs)"
    and "list_all (recorded env enabled fs slots) ts"
    and "list_all (\<lambda>t. tk_function t \<notin> fp_replacement ` set fs) ts"
  shows "patch_thunks env True enabled fs (map (redirect env enabled fs) ts) slots =
    Some (map (restored env enabled fs) ts, slots)"
  using assms(3,4) by (induction ts) (simp_all add: patch_thunk_revert [OF assms(1,2)])

lemma patch_iat_revert:
  assumes "code_ok env" "distinct (map fp_replacement fs)"
    and "list_all (recorded env enabled fs slots) (own_thunks dll ds)"
    and "list_all (\<lambda>t. tk_function t \<notin> fp_replacement ` set fs) (own_thunks dll ds)"
  shows "patch_iat dll env True enabled fs (map_imports dll (redirect env enabled fs) ds) slots found =
    Some (map_imports dll (restored env enabled fs) ds, slots, found \<or> imports_runtime dll ds)"
  using assms(3,4)
proof (induction ds arbitrary: found)
  case Nil
  then show ?case by (simp add: map_imports_def imports_runtime_def)
next
  case (Cons d ds)
  have step: "map_imports dll g (d # ds) =
      (if to_lower (id_name d) = dll then d else d\<lparr>id_thunks := map g (id_thunks d)\<rparr>) # map_imports dll g ds" for g
    by (simp add: map_imports_def)
  show ?case
  proof (cases "to_lower (id_name d) = dll")
    case True
    then show ?thesis using Cons by (simp add: step own_thunks_Cons imports_runtime_def)
  next
    case False
    have "patch_thunks env True enabled fs (map (redirect env enabled fs) (id_thunks d)) slots =
        Some (map (restored env enabled fs) (id_thunks d), slots)"
      using Cons.prems False by (intro patch_thunks_revert assms) (simp_all add: own_thunks_Cons)
    then show ?thesis using Cons False by (simp add: step own_thunks_Cons imports_runtime_def disj_assoc)
  qed
qed

lemma map_module_fields [simp]:
  "mi_name (map_module dll known env opts g m) = mi_name m"
  "mi_handle (map_module dll known env opts g m) = mi_handle m"
  "mi_path (map_module dll known env opts g m) = mi_path m"
  by (simp_all add: map_module_def)

lemma map_module_same [simp]:
  "module_considered dll known env (map_module dll known env opts g m) = module_considered dll known env m"
  "enabled_function_types opts (map_module dll known env opts g m) = enabled_function_types opts m"
  by (simp_all add: module_considered_def enabled_function_types_def ignored_by_def)

definition free_module :: "string \<Rightarrow> function_to_patch list \<Rightarrow> module_info \<Rightarrow> bool" where
  "free_module dll fs m \<longleftrightarrow>
     list_all (\<lambda>t. tk_function t \<notin> fp_replacement ` set fs) (own_thunks dll (mi_imports m))"

lemma patch_modules_revert:
  assumes "code_ok env" "distinct (map fp_replacement fs)"
    and "list_all (module_recorded dll known env opts fs slots) ms" "list_all (free_module dll fs) ms"
  shows "\<exists>static'. patch_modules dll known env opts True fs
      (map (map_module dll known env opts (\<lambda>e. redirect env e fs)) ms) slots static =
    Some (map (map_module dll known env opts (\<lambda>e. restored env e fs)) ms, slots, static')"
  using assms(3,4)
proof (induction ms arbitrary: static)
  case (Cons m ms)
  let ?e = "enabled_function_types opts m"
  show ?case
  proof (cases "\<not> module_considered dll known env m \<or> ?e = []")
    case True
    then have "map_module dll known env opts (\<lambda>e. redirect env e fs) m = m"
      "map_module dll known env opts (\<lambda>e. restored env e fs) m = m"
      by (auto simp: map_module_def redirect_none map_imports_id)
    then show ?thesis using True Cons by auto
  next
    case False
    have "patch_iat dll env True ?e fs (map_imports dll (redirect env ?e fs) (mi_imports m)) slots False =
        Some (map_imports dll (restored env ?e fs) (mi_imports m), slots, imports_runtime dll (mi_imports m))"
      using Cons.prems False patch_iat_revert [OF assms(1,2), of ?e slots dll "mi_imports m" False]
      by (simp add: module_recorded_def free_module_def)
    moreover have "mi_imports (map_module dll known env opts g m) = map_imports dll (g ?e) (mi_imports m)"
      "map_module dll known env opts g m\<lparr>mi_imports := ds\<rparr> = m\<lparr>mi_imports := ds\<rparr>" for g ds
      using False by (simp_all add: map_module_def)
    moreover obtain st where "patch_modules dll known env opts True fs
        (map (map_module dll known env opts (\<lambda>e. redirect env e fs)) ms) slots
        (if imports_runtime dll (mi_imports m) then static else List.insert (mi_name m) static) =
      Some (map (map_module dll known env opts (\<lambda>e. restored env e fs)) ms, slots, st)"
      using Cons.IH Cons.prems by auto
    ultimately show ?thesis
      using False by (cases "imports_runtime dll (mi_imports m)") (simp_all add: Let_def)
  qed
qed simp

section \<open>All modules\<close>

definition loaded_modules :: "(string \<Rightarrow> ptr) \<Rightarrow> module_info list \<Rightarrow> patch_state" where
  "loaded_modules address ms =
     \<lparr>ps_functions = prepare_functions_to_patch address, ps_modules = ms, ps_slots = (\<lambda>_. 0),
      ps_static_runtime = []\<rparr>"

lemma set_module_base_fields [simp]:
  "fp_slot (set_module_base ms f) = fp_slot f" "fp_replacement (set_module_base ms f) = fp_replacement f"
  "fp_type (set_module_base ms f) = fp_type f" "fp_module (set_module_base ms f) = fp_module f"
  by (simp_all add: set_module_base_def split: option.split)

lemma find_map_same:
  "(\<And>x. P (g x) = P x) \<Longrightarrow> find P (map g xs) = map_option g (find P xs)"
  by (induction xs) simp_all

lemma set_module_base_again:
  "set_module_base (map (map_module dll known env opts g) ms) (set_module_base ms f) = set_module_base ms f"
  by (simp add: set_module_base_def find_map_same split: option.split)

lemma prepared_with_bases:
  "distinct (map fp_slot (map (set_module_base ms) (prepare_functions_to_patch address)))"
  "inj_on address (set replacement_names) \<Longrightarrow>
     distinct (map fp_replacement (map (set_module_base ms) (prepare_functions_to_patch address)))"
  using prepared_distinct [of address] by (simp_all add: comp_def)

lemma replacements_are_addresses:
  "fp_replacement ` set (map (set_module_base ms) (prepare_functions_to_patch address)) =
     address ` set replacement_names"
  using arg_cong [OF prepared_replacements [of address], of set] by (simp add: image_image)

lemma patch_from_start:
  assumes "code_ok env"
  shows "\<exists>s. patch_loaded_modules dll known env opts False (loaded_modules address ms) = Some s \<and>
    ps_functions s = map (set_module_base ms) (prepare_functions_to_patch address) \<and>
    ps_modules s = map (map_module dll known env opts (\<lambda>e. redirect env e (ps_functions s))) ms \<and>
    list_all (module_recorded dll known env opts (ps_functions s) (ps_slots s)) ms"
proof -
  let ?fs = "map (set_module_base ms) (prepare_functions_to_patch address)"
  have "slots_ok env ?fs (\<lambda>_. 0)" by (simp add: slots_ok_def)
  then obtain slots st where "patch_modules dll known env opts False ?fs ms (\<lambda>_. 0) [] =
      Some (map (map_module dll known env opts (\<lambda>e. redirect env e ?fs)) ms, slots, st)"
    "list_all (module_recorded dll known env opts ?fs slots) ms"
    using patch_modules_forward [OF assms _ prepared_with_bases(1)] by blast
  then show ?thesis by (simp add: patch_loaded_modules_def loaded_modules_def Let_def)
qed

lemma revert_after_patch:
  assumes "code_ok env" "inj_on address (set replacement_names)"
    and "\<forall>m\<in>set ms. \<forall>t\<in>set (own_thunks dll (mi_imports m)). tk_function t \<notin> address ` set replacement_names"
    and s: "ps_functions s = map (set_module_base ms) (prepare_functions_to_patch address)"
      "ps_modules s = map (map_module dll known env opts (\<lambda>e. redirect env e (ps_functions s))) ms"
      "list_all (module_recorded dll known env opts (ps_functions s) (ps_slots s)) ms"
  shows "\<exists>s2. patch_loaded_modules dll known env opts True s = Some s2 \<and>
    ps_modules s2 = map (map_module dll known env opts (\<lambda>e. restored env e (ps_functions s))) ms"
proof -
  have again: "map (set_module_base (ps_modules s)) (ps_functions s) = ps_functions s"
    unfolding s(2) by (simp add: s(1) set_module_base_again)
  have "list_all (free_module dll (ps_functions s)) ms"
    using assms(3) unfolding free_module_def s(1) replacements_are_addresses by (simp add: list_all_iff)
  then obtain st where "patch_modules dll known env opts True (ps_functions s) (ps_modules s) (ps_slots s)
      (ps_static_runtime s) =
    Some (map (map_module dll known env opts (\<lambda>e. restored env e (ps_functions s))) ms, ps_slots s, st)"
    using patch_modules_revert [OF assms(1) _ s(3)] prepared_with_bases(2) [OF assms(2)] s(1,2) by metis
  then show ?thesis unfolding patch_loaded_modules_def Let_def again by simp
qed

end
