(* ===== verification/Import_Properties.thy ===== *)
theory Import_Properties
  imports Import_Correct
begin

text \<open>
  Properties of the redirection: exactly the imports of the listed functions are redirected, a module
  that the user ignores for a check is not redirected to its monitors, and at the end each import
  leads to the original code again.
\<close>

section \<open>Example modules\<close>

lemma find_real_code_plain: "find_real_code (\<lambda>_. 0x90) p = Some p"
proof -
  have "read_le (\<lambda>_. 0x90) (Suc (Suc 0)) p = 0x9090" by simp
  then have "read_le (\<lambda>_. 0x90) 2 p = 0x9090" by (simp only: numeral_2_eq_2)
  then show ?thesis by (subst find_real_code.simps) simp
qed

definition sample_patch_env :: patch_env where
  "sample_patch_env =
     \<lparr>pe_code = (\<lambda>_. 0x90), pe_get_proc_address = (\<lambda>h n. if n = ''malloc'' then h + 0x100 else 0),
      pe_writable = (\<lambda>_. True), pe_microsoft = (\<lambda>_. False), pe_still_loaded = (\<lambda>_. True),
      pe_pinned = (\<lambda>_. True)\<rparr>"

definition sample_modules :: "module_info list" where
  "sample_modules =
     [\<lparr>mi_handle = 0x1000, mi_name = ''ucrtbase.dll'', mi_path = ''c:/ucrtbase.dll'', mi_imports = []\<rparr>,
      \<lparr>mi_handle = 0x2000, mi_name = ''qt6core.dll'', mi_path = ''c:/qt6core.dll'',
       mi_imports = [\<lparr>id_name = ''ucrtbase.dll'', id_thunks = [\<lparr>tk_address = 0x2100, tk_function = 0x1100\<rparr>]\<rparr>]\<rparr>]"

definition sample_address :: "string \<Rightarrow> ptr" where
  "sample_address r = of_nat (0x7000 + length (takeWhile (\<lambda>x. x \<noteq> r) replacement_names))"

lemma sample_code_ok: "code_ok sample_patch_env"
  by (simp add: code_ok_def sample_patch_env_def find_real_code_plain)

lemma replacement_names_size: "length replacement_names = 123"
  by (simp add: replacement_names_def table_size)

lemma position_bound: "r \<in> set xs \<Longrightarrow> length (takeWhile (\<lambda>x. x \<noteq> r) xs) < length xs"
  by (induction xs) auto

lemma position_nth: "r \<in> set xs \<Longrightarrow> xs ! length (takeWhile (\<lambda>x. x \<noteq> r) xs) = r"
  by (induction xs) auto

lemma sample_address_unat:
  "r \<in> set replacement_names \<Longrightarrow>
     unat (sample_address r) = 0x7000 + length (takeWhile (\<lambda>x. x \<noteq> r) replacement_names)"
  using position_bound [of r replacement_names] unfolding sample_address_def unat_of_nat
  by (simp add: replacement_names_size)

lemma sample_address_inj: "inj_on sample_address (set replacement_names)"
proof (rule inj_onI)
  fix r q assume r: "r \<in> set replacement_names" and q: "q \<in> set replacement_names"
    and "sample_address r = sample_address q"
  then have "length (takeWhile (\<lambda>x. x \<noteq> r) replacement_names) =
      length (takeWhile (\<lambda>x. x \<noteq> q) replacement_names)"
    using sample_address_unat [OF r] sample_address_unat [OF q] by simp
  then show "r = q" using position_nth [OF r] position_nth [OF q] by metis
qed

lemma sample_address_range:
  assumes "r \<in> set replacement_names"
  shows "sample_address r \<noteq> 0x1100"
proof
  assume "sample_address r = 0x1100"
  then have "unat (sample_address r) = 0x1100" by simp
  then show False using sample_address_unat [OF assms] by simp
qed

section \<open>Properties\<close>

text \<open>C27:
  Redirecting the imports returns if no chain of jumps is endless, and it redirects exactly the
  entries, in modules that are considered, whose code is the code of a listed function of an enabled
  type, each to the replacement of the first such function; nothing else changes.
\<close>

theorem imports_redirected_exactly:
  assumes "code_ok env"
  shows "\<exists>s. patch_loaded_modules dll known env opts False (loaded_modules address ms) = Some s \<and>
    ps_functions s = map (set_module_base ms) (prepare_functions_to_patch address) \<and>
    ps_modules s = map (map_module dll known env opts (\<lambda>e. redirect env e (ps_functions s))) ms"
  using patch_from_start [OF assms] by blast

theorem imports_redirected_exactly_witness:
  "\<exists>s. patch_loaded_modules ''c:/bi.dll'' [] sample_patch_env default_options False
      (loaded_modules sample_address sample_modules) = Some s \<and>
    ps_modules s = map (map_module ''c:/bi.dll'' [] sample_patch_env default_options
      (\<lambda>e. redirect sample_patch_env e (ps_functions s))) sample_modules"
  using imports_redirected_exactly [OF sample_code_ok] by blast

text \<open>C28:
  Redirecting the imports and reverting it gives every import table back, except that a redirected
  entry whose import went through a stub now holds the code behind the stub. The addresses of the
  replacements have to be different and not imported by the program itself.
\<close>

theorem unpatch_restores:
  assumes "code_ok env" "inj_on address (set replacement_names)"
    and "\<forall>m\<in>set ms. \<forall>t\<in>set (own_thunks dll (mi_imports m)). tk_function t \<notin> address ` set replacement_names"
  shows "\<exists>s1 s2. patch_loaded_modules dll known env opts False (loaded_modules address ms) = Some s1 \<and>
    patch_loaded_modules dll known env opts True s1 = Some s2 \<and>
    ps_modules s2 = map (map_module dll known env opts (\<lambda>e. restored env e (ps_functions s1))) ms"
proof -
  obtain s1 where s1: "patch_loaded_modules dll known env opts False (loaded_modules address ms) = Some s1"
    "ps_functions s1 = map (set_module_base ms) (prepare_functions_to_patch address)"
    "ps_modules s1 = map (map_module dll known env opts (\<lambda>e. redirect env e (ps_functions s1))) ms"
    "list_all (module_recorded dll known env opts (ps_functions s1) (ps_slots s1)) ms"
    using patch_from_start [OF assms(1)] by blast
  then show ?thesis using revert_after_patch [OF assms s1(2,3,4)] by blast
qed

theorem unpatch_restores_witness:
  "\<exists>s1 s2. patch_loaded_modules ''c:/bi.dll'' [] sample_patch_env default_options False
      (loaded_modules sample_address sample_modules) = Some s1 \<and>
    patch_loaded_modules ''c:/bi.dll'' [] sample_patch_env default_options True s1 = Some s2 \<and>
    ps_modules s2 = sample_modules"
proof -
  have free: "\<forall>m\<in>set sample_modules. \<forall>t\<in>set (own_thunks ''c:/bi.dll'' (mi_imports m)).
      tk_function t \<notin> sample_address ` set replacement_names"
    using sample_address_range by (auto simp: sample_modules_def own_thunks_def)
  have same: "map_module dll known sample_patch_env opts (\<lambda>e. restored sample_patch_env e fs) m = m" for dll known opts fs m
  proof -
    have "restored sample_patch_env e fs t = t" for e t
      by (simp add: restored_def real_code_def sample_patch_env_def find_real_code_plain split: option.split)
    then have "restored sample_patch_env e fs = (\<lambda>t. t)" for e by auto
    then show ?thesis by (simp add: map_module_def map_imports_id)
  qed
  have whole: "map_module dll known sample_patch_env opts (\<lambda>e. restored sample_patch_env e fs) = (\<lambda>m. m)" for dll known opts fs
    using same by blast
  show ?thesis
    using unpatch_restores [OF sample_code_ok sample_address_inj free, of "[]" default_options]
    unfolding whole list.map_ident .
qed

text \<open>A module whose name fits an entry for memory leaks keeps all its imports, except those that are
  redirected to a function that is no memory leak monitor; the same holds for the lock monitors.
\<close>

theorem ignored_modules_untouched:
  assumes "code_ok env" "m \<in> set ms" "list_all (\<lambda>c. \<not> line_break c) (mi_name m)"
    and "wildcard_match pattern (mi_name m)"
    and "(ty = Memory_Leak \<and> blacklist_entry pattern leaks locks \<in> set (m_blacklist_modules_memory_leaks opts)) \<or>
      (ty = Deadlock \<and> blacklist_entry pattern leaks locks \<in> set (m_blacklist_modules_deadlocks opts))"
  shows "\<exists>s m'. patch_loaded_modules dll known env opts False (loaded_modules address ms) = Some s \<and>
    m' \<in> set (ps_modules s) \<and> mi_name m' = mi_name m \<and>
    list_all2 (\<lambda>d d'. list_all2 (\<lambda>t t'. t' = t \<or>
        (\<exists>f\<in>set (ps_functions s). fp_type f \<noteq> ty \<and> t' = t\<lparr>tk_function := fp_replacement f\<rparr>))
      (id_thunks d) (id_thunks d')) (mi_imports m) (mi_imports m')"
proof -
  obtain s where s: "patch_loaded_modules dll known env opts False (loaded_modules address ms) = Some s"
    "ps_modules s = map (map_module dll known env opts (\<lambda>e. redirect env e (ps_functions s))) ms"
    using patch_from_start [OF assms(1)] by blast
  have "regex_match (m_regex_string (blacklist_entry pattern leaks locks)) (mi_name m)"
    using assms(3,4) by (simp add: blacklist_entry_def regex_match_pattern)
  then have off: "ty \<notin> set (enabled_function_types opts m)"
    using assms(5) by (auto simp: enabled_function_types_def ignored_by_def find_None_iff)
  let ?g = "redirect env (enabled_function_types opts m) (ps_functions s)"
  have entry: "?g t = t \<or> (\<exists>f\<in>set (ps_functions s). fp_type f \<noteq> ty \<and> ?g t = t\<lparr>tk_function := fp_replacement f\<rparr>)" for t
    using off by (auto simp: redirect_def target_def find_Some_iff split: option.split)
  let ?m' = "map_module dll known env opts (\<lambda>e. redirect env e (ps_functions s)) m"
  have "list_all2 (\<lambda>d d'. list_all2 (\<lambda>t t'. t' = t \<or>
        (\<exists>f\<in>set (ps_functions s). fp_type f \<noteq> ty \<and> t' = t\<lparr>tk_function := fp_replacement f\<rparr>))
      (id_thunks d) (id_thunks d')) (mi_imports m) (mi_imports ?m')"
    using entry by (auto simp: map_module_def map_imports_def list_all2_map2 intro!: list.rel_refl)
  moreover have "?m' \<in> set (ps_modules s)" using assms(2) s(2) by simp
  ultimately show ?thesis using s(1) map_module_fields(1) by blast
qed

theorem ignored_modules_untouched_witness:
  "\<exists>s m'. patch_loaded_modules ''c:/bi.dll'' [] sample_patch_env
      (default_options\<lparr>m_blacklist_modules_memory_leaks := [blacklist_entry ''qt6*'' True False]\<rparr>) False
      (loaded_modules sample_address sample_modules) = Some s \<and>
    m' \<in> set (ps_modules s) \<and> mi_name m' = ''qt6core.dll''"
proof -
  let ?opts = "default_options\<lparr>m_blacklist_modules_memory_leaks := [blacklist_entry ''qt6*'' True False]\<rparr>"
  let ?m = "sample_modules ! 1"
  have name: "mi_name ?m = ''qt6core.dll''" by (simp add: sample_modules_def)
  have fits: "wildcard_match ''qt6*'' (mi_name ?m)"
    unfolding name wildcard_match_def by (intro exI [of _ "[''core.dll'']"]) simp
  have mem: "?m \<in> set sample_modules" by (simp add: sample_modules_def)
  have line: "list_all (\<lambda>c. \<not> line_break c) (mi_name ?m)" unfolding name by (simp add: line_break_def)
  have entry: "(Memory_Leak = Memory_Leak \<and>
        blacklist_entry ''qt6*'' True False \<in> set (m_blacklist_modules_memory_leaks ?opts)) \<or>
      (Memory_Leak = Deadlock \<and>
        blacklist_entry ''qt6*'' True False \<in> set (m_blacklist_modules_deadlocks ?opts))"
    by simp
  obtain s m' where "patch_loaded_modules ''c:/bi.dll'' [] sample_patch_env ?opts False
      (loaded_modules sample_address sample_modules) = Some s"
    "m' \<in> set (ps_modules s)" "mi_name m' = mi_name ?m"
    using ignored_modules_untouched [OF sample_code_ok mem line fits entry, of "''c:/bi.dll''" "[]" sample_address]
    by blast
  then show ?thesis unfolding name by blast
qed

end
