(* ===== verification/Loader.thy ===== *)
theory Loader
  imports Lock_Monitors Leak_Monitor Import_Patching
begin

text \<open>
  The loader of the DLL (\<^verbatim>\<open>loader.cpp\<close>), the query by environment variable
  (\<^verbatim>\<open>getenvironmentvariable_monitor.cpp\<close>) and the replacement of the routine that calls the entry points of
  modules (\<^verbatim>\<open>dll_main.cpp\<close>), on the state of the whole process. The counter of monitored calls is the
  sum of the counters of the two parts.
\<close>

record process_state =
  pr_locks :: lock_system
  pr_leaks :: leak_state
  pr_patch :: patch_state

definition monitored_api_calls :: "process_state \<Rightarrow> u64" where
  "monitored_api_calls s = lm_calls (pr_locks s) + ls_calls (pr_leaks s)"

section \<open>Modules of Microsoft\<close>

definition global_blacklisted_modules :: "string list" where
  "global_blacklisted_modules = [
     ''apphelp.dll'', ''kernel32.dll'', ''kernelbase.dll'', ''msvcp140.dll'', ''msvcp140d.dll'',
     ''oleaut32.dll'', ''rpcrt4.dll'', ''vcruntime140.dll'', ''vcruntime140d.dll'',
     ''vcruntime140_1d.dll'', ''version.dll'', ''bcryptprimitives.dll'', ''combase.dll'',
     ''dbghelp.dll'', ''kernel.appcore.dll'', ''msvcp_win.dll'', ''msvcrt.dll'', ''ntdll.dll'',
     ''ucrtbase.dll'', ''ucrtbased.dll'', ''ws2_32.dll'', ''advapi32.dll'', ''sechost.dll'',
     ''crypt32.dll'', ''cryptbase.dll'', ''cryptsp.dll'', ''gdi32.dll'', ''imm32.dll'',
     ''user32.dll'', ''bcrypt.dll'', ''gdi32full.dll'', ''rsaenh.dll'', ''win32u.dll'',
     ''textshaping.dll'', ''uxtheme.dll'', ''msctf.dll'', ''textinputframework.dll'',
     ''shell32.dll'', ''coremessaging.dll'', ''coreuicomponents.dll'', ''dnsapi.dll'',
     ''iphlpapi.dll'', ''msasn1.dll'', ''nlaapi.dll'', ''nsi.dll'', ''shcore.dll'',
     ''winhttp.dll'', ''winmm.dll'', ''wintrust.dll'', ''wldp.dll'', ''mswsock.dll'',
     ''napinsp.dll'', ''ntmarta.dll'', ''ole32.dll'', ''pnrpnsp.dll'', ''shlwapi.dll'',
     ''windows.storage.dll'', ''winrnr.dll'', ''wintypes.dll'', ''wshbth.dll'',
     ''vcruntime140_1.dll'', ''authz.dll'', ''mpr.dll'', ''msvcp140_1d.dll'', ''netapi32.dll'',
     ''netutils.dll'', ''shell32.dll'', ''srvcli.dll'', ''userenv.dll'', ''dwmapi.dll'',
     ''fltlib.dll'', ''mscoree.dll'', ''msvcp140_clr0400.dll'',
     ''microsoft.visualstudio.designtools.wpftapbootstrap.dll'', ''propsys.dll'', ''psapi.dll'',
     ''presentationcore.ni.dll'', ''presentationframework.aero2.ni.dll'',
     ''presentationframework.ni.dll'', ''presentationnative_v0400.dll'', ''smdiagnostics.ni.dll'',
     ''spsys.dll'', ''sspicli.dll'', ''system.configuration.ni.dll'', ''system.core.ni.dll'',
     ''system.drawing.ni.dll'', ''system.runtime.serialization.ni.dll'',
     ''system.servicemodel.internals.ni.dll'', ''system.windows.forms.ni.dll'',
     ''system.xaml.ni.dll'', ''system.xml.ni.dll'', ''system.ni.dll'', ''uiautomationcore.dll'',
     ''uiautomationprovider.ni.dll'', ''uiautomationtypes.ni.dll'', ''vcruntime140_clr0400.dll'',
     ''winsta.dll'', ''windowsbase.ni.dll'', ''windowscodecs.dll'', ''clbcatq.dll'', ''clr.dll'',
     ''clrjit.dll'', ''d3d11.dll'', ''d3d9.dll'', ''dataexchange.dll'', ''dcomp.dll'',
     ''dwrite.dll'', ''dxgi.dll'', ''iertutil.dll'', ''mscoreei.dll'', ''mscorlib.ni.dll'',
     ''msctfui.dll'', ''powrprof.dll'', ''profapi.dll'', ''twinapi.appcore.dll'',
     ''ucrtbase_clr0400.dll'', ''urlmon.dll'', ''virtdisk.dll'', ''wpfgfx_v0400.dll'',
     ''wtsapi32.dll'', ''Microsoft.VisualStudio.Debugger.Runtime.Impl.dll'', ''dpapi.dll'',
     ''odbc32.dll'', ''secur32.dll'', ''rasadhlp.dll'', ''fwpuclnt.dll'',
     ''vcruntime140_1_clr0400.dll'']"

text \<open>The file name of the module is missing if Windows cannot tell it.\<close>

definition is_global_blacklisted_module :: "(ptr \<Rightarrow> string option) \<Rightarrow> ptr \<Rightarrow> bool" where
  "is_global_blacklisted_module file_name m =
     (case file_name m of
       None \<Rightarrow> True
     | Some name \<Rightarrow> to_lower name \<in> set global_blacklisted_modules)"

section \<open>Patching\<close>

text \<open>\<^verbatim>\<open>loader_t::patch_loaded_modules\<close> and \<^verbatim>\<open>unpatch_loaded_modules\<close>; the set of modules with a static
  runtime is not changed by the second.\<close>

definition patch_all_modules :: "string \<Rightarrow> patch_env \<Rightarrow> user_options \<Rightarrow> patch_state \<Rightarrow> patch_state option" where
  "patch_all_modules own_path env opts s =
     patch_loaded_modules (to_lower own_path) global_blacklisted_modules env opts False s"

definition unpatch_all_modules :: "string \<Rightarrow> patch_env \<Rightarrow> user_options \<Rightarrow> patch_state \<Rightarrow> patch_state option" where
  "unpatch_all_modules own_path env opts s =
     map_option (\<lambda>s'. s'\<lparr>ps_static_runtime := ps_static_runtime s\<rparr>)
       (patch_loaded_modules (to_lower own_path) global_blacklisted_modules env opts True
          (s\<lparr>ps_static_runtime := []\<rparr>))"

definition getprocaddress_patched :: "(ptr \<Rightarrow> string \<Rightarrow> ptr) \<Rightarrow> function_to_patch list \<Rightarrow> ptr \<Rightarrow> string \<Rightarrow> ptr" where
  "getprocaddress_patched get_proc_address fs m procname =
     (let original = get_proc_address m procname in
      if original = 0 then original
      else case find (\<lambda>f. fp_handle f = m \<and> fp_name f = procname \<and> fp_replacement f \<noteq> 0) fs of
        None \<Rightarrow> original
      | Some f \<Rightarrow> fp_replacement f)"

text \<open>
  \<^verbatim>\<open>MyLdrpCallInitRoutine\<close>, before the original routine: a module that is attached has the imports of
  all modules redirected again. \<open>file_name\<close> is the name from which both tests start, \<open>microsoft\<close> the
  test of the version resource; the list of loaded modules is that of Windows at this time.
\<close>

definition call_init_routine ::
  "string \<Rightarrow> patch_env \<Rightarrow> user_options \<Rightarrow> (ptr \<Rightarrow> string option) \<Rightarrow> (string \<Rightarrow> bool) \<Rightarrow> ptr \<Rightarrow> bool
     \<Rightarrow> patch_state \<Rightarrow> patch_state option" where
  "call_init_routine own_path env opts file_name microsoft base attach s =
     (if is_global_blacklisted_module file_name base then Some s
      else case file_name base of
        None \<Rightarrow> Some s
      | Some name \<Rightarrow>
          if microsoft name then Some s
          else if attach then patch_all_modules own_path env opts s
          else Some s)"

text \<open>\<^verbatim>\<open>find_ldrpcallinitroutine_address\<close>: the target of the call before the return address, or an
  exception.\<close>

definition find_ldrpcallinitroutine_address :: "(ptr \<Rightarrow> u8) \<Rightarrow> ptr \<Rightarrow> ptr option" where
  "find_ldrpcallinitroutine_address code frame =
     (let call_op_code = frame - 5 in
      if code call_op_code \<noteq> 0xE8 then None
      else Some (frame + read_long code (call_op_code + 1)))"

section \<open>The query\<close>

definition buginsight_env :: string where
  "buginsight_env = to_lower ''BugInsight'' @ ''/''"

text \<open>
  \<^verbatim>\<open>GetEnvironmentVariableA\<close> with a name or no name: the result, what is written to the buffer, and the
  state. The original function is an argument.
\<close>

definition buginsight_getenvironmentvariablea ::
  "(string option \<Rightarrow> u32 \<times> u64 option) \<Rightarrow> tid \<Rightarrow> string option \<Rightarrow> process_state
     \<Rightarrow> (u32 \<times> u64 option) \<times> process_state" where
  "buginsight_getenvironmentvariablea original t name s0 =
     (let s = s0\<lparr>pr_leaks := (pr_leaks s0)\<lparr>ls_calls := ls_calls (pr_leaks s0) + 1\<rparr>\<rparr>;
          ignore = (\<lambda>l u. s\<lparr>pr_locks := (pr_locks s)\<lparr>lm_monitor :=
                      increase_ignore_counter t l u (lm_monitor (pr_locks s))\<rparr>\<rparr>);
          mem = buginsight_env @ ''get/mem/''
      in case name of
        None \<Rightarrow> (original name, s)
      | Some n \<Rightarrow>
          if \<not> starts_with n buginsight_env then (original name, s)
          else if n = buginsight_env @ ''set/lock++'' then ((1, None), ignore 1 0)
          else if n = buginsight_env @ ''set/unlock++'' then ((1, None), ignore 0 1)
          else if n = buginsight_env @ ''get/enabled'' then ((1, None), ignore 0 1)
          else if starts_with n mem then
            ((1, Some (get_allocated_bytes (drop (length mem) n) (ls_repo (pr_leaks s)))), s)
          else if n = buginsight_env @ ''set/mem/reset_all'' then
            ((1, None), s\<lparr>pr_leaks := (pr_leaks s)\<lparr>ls_repo :=
               internal_reset_all_allocations (ls_repo (pr_leaks s))\<rparr>\<rparr>)
          else ((0, None), s))"

section \<open>The end of the process\<close>

text \<open>The part of the destructor that writes the leaks; \<open>symbolise\<close> prints a call stack with its id.\<close>

definition leak_report_messages ::
  "(ptr list \<Rightarrow> string \<times> u64) \<Rightarrow> user_options \<Rightarrow> repository \<Rightarrow> log \<Rightarrow> log" where
  "leak_report_messages symbolise opts r lg =
     (if leak_count r = 0 then lg
      else
        let lg1 = log_msg opts info (''Analysing '' @ quoted (show_nat (leak_count r)) @ '' leaks...'' @ nl) lg;
            infos = fst (group_leaks2 initial_infos r);
            report = generate_leak_report2 infos
        in if m_collect_callstacks opts
           then log_msg opts info
             (report @ fst (generate_callstacks2 symbolise (m_ids_to_suppress opts) infos False)) lg1
           else log_msg opts warn (''Memory leaks found but collecting Call Stacks is disabled! Use command line option '' @
             quoted ''--callstacks=true'' @ '' to enable.'') lg1)"

definition errors_found :: "process_state \<Rightarrow> bool" where
  "errors_found s \<longleftrightarrow>
     dm_potential_deadlocks (lm_monitor (pr_locks s)) \<or> dm_other_errors (lm_monitor (pr_locks s)) \<or>
     leak_count (ls_repo (pr_leaks s)) > 0 \<or> monitored_api_calls s = 0"

definition terminate_message :: "user_options \<Rightarrow> string" where
  "terminate_message opts = ''Terminate process with exit code '' @ quoted (show_int (m_exit_code opts)) @
     '' due to errors. Use command line option '' @ quoted ''--on_error=continue'' @ '' to ignore errors.''"

text \<open>\<^verbatim>\<open>loader_t::~loader_t\<close>: the log, the state of the imports, and the exit code if the process is
  terminated.\<close>

definition loader_end ::
  "string \<Rightarrow> patch_env \<Rightarrow> (ptr list \<Rightarrow> string \<times> u64) \<Rightarrow> user_options \<Rightarrow> process_state \<Rightarrow> log
     \<Rightarrow> (unit, patch_state \<times> log) outcome option" where
  "loader_end own_path env symbolise opts s lg =
     (let lg1 = log_msg opts info (''The application under test is currently being shut down...'' @ nl) lg in
      map_option (\<lambda>ps.
        let m = lm_monitor (pr_locks s);
            r = ls_repo (pr_leaks s);
            lg2 = leak_report_messages symbolise opts r lg1;
            lg3 = log_msg opts info (create_summary (dm_potential_deadlocks m) (dm_other_errors m)
                    (leak_count r > 0) (monitored_api_calls s)) lg2
        in if errors_found s \<and> m_on_error opts \<noteq> On_Error_continue
           then Terminated (m_exit_code opts) (ps, log_msg opts err (terminate_message opts) lg3)
           else Running () (ps, lg3))
        (unpatch_all_modules own_path env opts (pr_patch s)))"

text \<open>
  The constructor after the options have been read: the state of both monitors and of the imports,
  which are redirected at once. \<open>start\<close> is the tick count at the start.
\<close>

definition loader_start ::
  "string \<Rightarrow> patch_env \<Rightarrow> (string \<Rightarrow> ptr) \<Rightarrow> user_options \<Rightarrow> u64 \<Rightarrow> module_info list \<Rightarrow> process_state option" where
  "loader_start own_path env address opts start ms =
     map_option (\<lambda>ps. \<lparr>pr_locks = lock_system_init opts, pr_leaks = leak_state_init opts start, pr_patch = ps\<rparr>)
       (patch_all_modules own_path env opts
          \<lparr>ps_functions = prepare_functions_to_patch address, ps_modules = ms, ps_slots = (\<lambda>_. 0),
           ps_static_runtime = []\<rparr>)"

text \<open>One entry has capital letters, so that no module in lower case fits it.\<close>

lemma capital_letters_never_fit:
  "''Microsoft.VisualStudio.Debugger.Runtime.Impl.dll'' \<in> set global_blacklisted_modules"
  "to_lower ''Microsoft.VisualStudio.Debugger.Runtime.Impl.dll'' \<notin> set global_blacklisted_modules"
proof -
  have "to_lower ''Microsoft.VisualStudio.Debugger.Runtime.Impl.dll'' =
      ''microsoft.visualstudio.debugger.runtime.impl.dll''"
    by code_simp
  then show "to_lower ''Microsoft.VisualStudio.Debugger.Runtime.Impl.dll'' \<notin> set global_blacklisted_modules"
    by (simp add: global_blacklisted_modules_def)
qed (simp add: global_blacklisted_modules_def)

end
