(* ===== verification/Process_Properties.thy ===== *)
theory Process_Properties
  imports Loader Leak_Properties Import_Properties
begin

text \<open>
  Properties of the whole process: what its exit code says, and the query by environment variable.
\<close>

section \<open>The end of the process\<close>

lemma loader_end_exit:
  assumes "unpatch_all_modules own_path env opts (pr_patch s) = Some ps"
  shows "\<exists>lg'. loader_end own_path env symbolise opts s lg =
    Some (if errors_found s \<and> m_on_error opts \<noteq> On_Error_continue
          then Terminated (m_exit_code opts) (ps, lg') else Running () (ps, lg'))"
  using assms by (simp add: loader_end_def Let_def)

lemma calls_leave_view:
  assumes "all_allowed alloc_legal alloc_effect cs Map.empty"
  shows "\<exists>s. run_steps alloc_step cs (leak_state_init opts start) = Running () s \<and> leak_inv s \<and>
    view s = live_blocks cs"
proof -
  let ?s0 = "leak_state_init opts start"
  have "all_allowed alloc_legal alloc_effect cs (view ?s0)" using assms by (simp add: leak_init(2))
  then obtain s where "run_steps alloc_step cs ?s0 = Running () s" "leak_inv s"
    "view s = foldl (\<lambda>H c. alloc_effect c H) (view ?s0) cs"
    using allocs.run_refines [OF leak_init(1)] by blast
  then show ?thesis by (simp add: live_blocks_def leak_init(2))
qed

lemma leak_count_positive: "leak_inv s \<Longrightarrow> leak_count (ls_repo s) > 0 \<longleftrightarrow> view s \<noteq> Map.empty"
proof -
  assume inv: "leak_inv s"
  then have "leak_count (ls_repo s) = 0 \<longleftrightarrow> entry (ls_repo s) = Map.empty"
    using repo.empty_iff [of "ls_repo s"] by (simp add: leak_inv_def)
  moreover have "entry (ls_repo s) = Map.empty \<longleftrightarrow> view s = Map.empty"
    by (auto simp: view_def fun_eq_iff)
  ultimately show ?thesis by auto
qed

lemma errors_found_view:
  "leak_inv (pr_leaks s) \<Longrightarrow> errors_found s \<longleftrightarrow>
     dm_potential_deadlocks (lm_monitor (pr_locks s)) \<or> dm_other_errors (lm_monitor (pr_locks s)) \<or>
     view (pr_leaks s) \<noteq> Map.empty \<or> monitored_api_calls s = 0"
  by (simp add: errors_found_def leak_count_positive)

lemma start_and_end:
  assumes "code_ok env" "inj_on address (set replacement_names)"
    and "\<forall>m\<in>set ms. \<forall>t\<in>set (own_thunks (to_lower own_path) (mi_imports m)).
      tk_function t \<notin> address ` set replacement_names"
  shows "\<exists>ps ps'. loader_start own_path env address opts start ms =
      Some \<lparr>pr_locks = lock_system_init opts, pr_leaks = leak_state_init opts start, pr_patch = ps\<rparr> \<and>
    unpatch_all_modules own_path env opts ps = Some ps' \<and>
    ps_modules ps' = map (map_module (to_lower own_path) global_blacklisted_modules env opts
      (\<lambda>e. restored env e (ps_functions ps))) ms"
proof -
  let ?dll = "to_lower own_path" and ?known = "global_blacklisted_modules"
  obtain ps where ps: "patch_loaded_modules ?dll ?known env opts False (loaded_modules address ms) = Some ps"
    "ps_functions ps = map (set_module_base ms) (prepare_functions_to_patch address)"
    "ps_modules ps = map (map_module ?dll ?known env opts (\<lambda>e. redirect env e (ps_functions ps))) ms"
    "list_all (module_recorded ?dll ?known env opts (ps_functions ps) (ps_slots ps)) ms"
    using patch_from_start [OF assms(1)] by blast
  let ?ps = "ps\<lparr>ps_static_runtime := []\<rparr>"
  have "\<exists>s2. patch_loaded_modules ?dll ?known env opts True ?ps = Some s2 \<and>
      ps_modules s2 = map (map_module ?dll ?known env opts (\<lambda>e. restored env e (ps_functions ?ps))) ms"
    by (rule revert_after_patch [OF assms]) (use ps(2-4) in simp_all)
  then show ?thesis
    using ps(1) by (auto simp: loader_start_def patch_all_modules_def unpatch_all_modules_def loaded_modules_def)
qed

text \<open>C29: The process from the load of the DLL to its end, with any state of the lock monitor, for a
  program whose allocation calls obey the predicate legal (no heap errors, and none of the calls the
  monitors get wrong, such as a LocalReAlloc that fails, after which a live block would not count):
  the monitors run to the end and the imports are given back. Then the process is terminated with the
  configured exit code if on_error is fail or fail_on_exit and a potential deadlock or another lock
  error was noted, a block is still live, or no call was monitored; otherwise, and always with
  on_error=continue, it ends normally.\<close>

theorem exit_code_at_end:
  assumes "code_ok env" "inj_on address (set replacement_names)"
    and "\<forall>m\<in>set ms. \<forall>t\<in>set (own_thunks (to_lower own_path) (mi_imports m)).
      tk_function t \<notin> address ` set replacement_names"
    and "all_allowed alloc_legal alloc_effect cs Map.empty"
  shows "\<exists>s0 s ps lg'. loader_start own_path env address opts start ms = Some s0 \<and>
    run_steps alloc_step cs (pr_leaks s0) = Running () s \<and>
    ps_modules ps = map (map_module (to_lower own_path) global_blacklisted_modules env opts
      (\<lambda>e. restored env e (ps_functions (pr_patch s0)))) ms \<and>
    loader_end own_path env symbolise opts (s0\<lparr>pr_locks := locks, pr_leaks := s\<rparr>) lg =
      Some (if m_on_error opts \<noteq> On_Error_continue \<and>
          (dm_potential_deadlocks (lm_monitor locks) \<or> dm_other_errors (lm_monitor locks) \<or>
           live_blocks cs \<noteq> Map.empty \<or> lm_calls locks + ls_calls s = 0)
        then Terminated (m_exit_code opts) (ps, lg') else Running () (ps, lg'))"
proof -
  obtain ps ps' where p: "loader_start own_path env address opts start ms =
      Some \<lparr>pr_locks = lock_system_init opts, pr_leaks = leak_state_init opts start, pr_patch = ps\<rparr>"
    "unpatch_all_modules own_path env opts ps = Some ps'"
    "ps_modules ps' = map (map_module (to_lower own_path) global_blacklisted_modules env opts
      (\<lambda>e. restored env e (ps_functions ps))) ms"
    using start_and_end [OF assms(1-3)] by blast
  obtain s where s: "run_steps alloc_step cs (leak_state_init opts start) = Running () s" "leak_inv s"
    "view s = live_blocks cs"
    using calls_leave_view [OF assms(4)] by blast
  let ?p = "\<lparr>pr_locks = locks, pr_leaks = s, pr_patch = ps\<rparr>"
  have "errors_found ?p \<longleftrightarrow> dm_potential_deadlocks (lm_monitor locks) \<or> dm_other_errors (lm_monitor locks) \<or>
      live_blocks cs \<noteq> Map.empty \<or> lm_calls locks + ls_calls s = 0"
    using s by (simp add: errors_found_view monitored_api_calls_def)
  moreover obtain lg' where "loader_end own_path env symbolise opts ?p lg =
      Some (if errors_found ?p \<and> m_on_error opts \<noteq> On_Error_continue
        then Terminated (m_exit_code opts) (ps', lg') else Running () (ps', lg'))"
    using loader_end_exit [of own_path env opts ?p ps'] p(2) by auto
  ultimately show ?thesis
    using p(1,3) s(1)
    by (intro exI [of _ "\<lparr>pr_locks = lock_system_init opts, pr_leaks = leak_state_init opts start, pr_patch = ps\<rparr>"]
        exI [of _ s] exI [of _ ps'] exI [of _ lg']) (simp add: conj_commute)
qed

theorem exit_code_at_end_witness:
  "\<exists>s0 s ps lg'. loader_start ''c:/bi.dll'' sample_patch_env sample_address default_options 0 sample_modules = Some s0 \<and>
    run_steps alloc_step [(sample_env, sample_heap, Runtime_Call (Malloc None 16 4096))] (pr_leaks s0) = Running () s \<and>
    loader_end ''c:/bi.dll'' sample_patch_env (\<lambda>_. ([], 0)) default_options
      (s0\<lparr>pr_locks := lock_system_init default_options, pr_leaks := s\<rparr>) [] = Some (Terminated 66 (ps, lg'))"
proof -
  let ?cs = "[(sample_env, sample_heap, Runtime_Call (Malloc None 16 4096))]"
  have free: "\<forall>m\<in>set sample_modules. \<forall>t\<in>set (own_thunks (to_lower ''c:/bi.dll'') (mi_imports m)).
      tk_function t \<notin> sample_address ` set replacement_names"
    using sample_address_range by (auto simp: sample_modules_def own_thunks_def)
  have allowed: "all_allowed alloc_legal alloc_effect ?cs Map.empty"
    by (simp add: alloc_legal_def alloc_effect_def sample_heap_def born_def unused_def)
  have live: "live_blocks ?cs \<noteq> Map.empty"
    by (simp add: live_blocks_def alloc_effect_def born_def)
  show ?thesis
    using exit_code_at_end [OF sample_code_ok sample_address_inj free allowed, of default_options 0
        "\<lambda>_. ([], 0)" "lock_system_init default_options" "[]"] live
    by (simp add: default_options_def) blast
qed

text \<open>C30: Heap errors do not reach the exit code: after a double free of a program without live blocks
  and without lock errors, which is reported, the process ends normally although on_error is
  fail_on_exit (or continue).\<close>

theorem heap_error_not_in_exit_code:
  assumes "leak_inv s" "view s = Map.empty" "p \<noteq> 0" "he_heapchk_ok he" "he_validate_ok he"
    and "m_log_level (ls_options s) \<le> info" "m_on_error (ls_options s) \<noteq> On_Error_fail"
    and "\<not> dm_potential_deadlocks (lm_monitor locks)" "\<not> dm_other_errors (lm_monitor locks)"
    and "unpatch_all_modules own_path env opts patch = Some ps"
  shows "\<exists>s'. bi_free cenv he (\<lambda>_. ()) p s = Running () s' \<and>
    (info, build_unknown_memory_address_text (ce_tid cenv) e_free p (ce_stack_text cenv)) \<in> set (ls_log s') \<and>
    (lm_calls locks + ls_calls s' \<noteq> 0 \<longrightarrow> (\<exists>lg'.
      loader_end own_path env symbolise opts \<lparr>pr_locks = locks, pr_leaks = s', pr_patch = patch\<rparr> lg =
        Some (Running () (ps, lg'))))"
proof -
  obtain s' where s': "bi_free cenv he (\<lambda>_. ()) p s = Running () s'" "leak_inv s'" "view s' = view s"
    "(info, build_unknown_memory_address_text (ce_tid cenv) e_free p (ce_stack_text cenv)) \<in> set (ls_log s')"
    using unknown_free_runs [of s p he cenv] assms(1-7) by auto
  let ?p = "\<lparr>pr_locks = locks, pr_leaks = s', pr_patch = patch\<rparr>"
  have "\<not> errors_found ?p" if "lm_calls locks + ls_calls s' \<noteq> 0"
    using that s'(2,3) assms(2,8,9) by (simp add: errors_found_view monitored_api_calls_def)
  then show ?thesis
    using s'(1,4) loader_end_exit [of own_path env opts ?p ps symbolise lg] assms(10) by auto
qed

definition no_modules :: patch_state where
  "no_modules = \<lparr>ps_functions = [], ps_modules = [], ps_slots = (\<lambda>_. 0), ps_static_runtime = []\<rparr>"

theorem heap_error_not_in_exit_code_witness:
  "\<exists>s'. bi_free sample_env sample_heap (\<lambda>_. ()) 8192 (leak_state_init default_options 0) = Running () s' \<and>
    (info, build_unknown_memory_address_text 1 e_free 8192 ''main'') \<in> set (ls_log s') \<and>
    (ls_calls s' \<noteq> 0 \<longrightarrow> (\<exists>lg'. loader_end ''c:/bi.dll'' sample_patch_env (\<lambda>_. ([], 0)) default_options
      \<lparr>pr_locks = lock_system_init default_options, pr_leaks = s', pr_patch = no_modules\<rparr> [] =
        Some (Running () (no_modules, lg'))))"
proof -
  have none: "unpatch_all_modules ''c:/bi.dll'' sample_patch_env default_options no_modules = Some no_modules"
    by (simp add: unpatch_all_modules_def patch_loaded_modules_def no_modules_def)
  have s: "leak_inv (leak_state_init default_options 0)" "view (leak_state_init default_options 0) = Map.empty"
    "ls_options (leak_state_init default_options 0) = default_options"
    by (rule leak_init, rule leak_init) (simp add: leak_state_init_def)
  show ?thesis
    using heap_error_not_in_exit_code [OF s(1,2), of 8192 sample_heap "lock_system_init default_options"
        "''c:/bi.dll''" sample_patch_env default_options no_modules no_modules sample_env "\<lambda>_. ([], 0)" "[]"]
      none s(3)
    by (simp add: sample_heap_def sample_env_def default_options_def lock_system_init_def monitor_init_def)
qed

section \<open>The query\<close>

text \<open>Asking whether BugInsight is active also makes the monitor ignore the next release of the thread.\<close>

lemma enabled_query_ignores_release:
  "dm_ignore_unlock (lm_monitor (pr_locks (snd (buginsight_getenvironmentvariablea original t
      (Some ''buginsight/get/enabled'') s)))) t =
   dm_ignore_unlock (lm_monitor (pr_locks s)) t + 1"
proof -
  have prefix: "buginsight_env = ''buginsight/''" unfolding buginsight_env_def by code_simp
  show ?thesis
    by (simp add: buginsight_getenvironmentvariablea_def increase_ignore_counter_def starts_with_def Let_def
        prefix)
qed

end
