(* ===== verification/Skip_List.thy ===== *)
theory Skip_List
  imports Prelude
begin

text \<open>
  The list of free blocks of \<^verbatim>\<open>buginsight_dll/helper/low_level_alloc.cc\<close>: a skip list in address
  order whose links lie in the blocks themselves. The memory of the allocator is a map from the
  address of an \<^verbatim>\<open>AllocList\<close> to its fields. The head of a list is a node like the others, at the
  address of its arena (\<^verbatim>\<open>freelist\<close> is the first member of \<^verbatim>\<open>Arena\<close>). \<open>None\<close> is an access outside
  the nodes, a failed \<^verbatim>\<open>assert\<close>, an overflow of an \<^verbatim>\<open>int\<close> or a loop without an end.

  The list at level \<open>i\<close> consists of the blocks that have more than \<open>i\<close> levels. \<open>skip_inv\<close> says that
  all these lists are the corresponding parts of one ascending list of addresses; insertion and
  deletion are shown to be those of the ascending list.
\<close>

section \<open>Blocks\<close>

definition kMaxLevel :: nat where
  "kMaxLevel = 30"

text \<open>\<^verbatim>\<open>AllocList\<close>; an \<^verbatim>\<open>int\<close> that is never negative is a natural number.\<close>

record alloc_list =
  al_size :: u64
  al_magic :: u64
  al_arena :: ptr
  al_levels :: nat
  al_next :: "ptr list"

record arena =
  allocation_count :: int
  arena_flags :: u32
  pagesize :: u64
  round_up_size :: u64
  min_size :: u64
  arena_random :: u32

text \<open>
  The memory: the nodes, the fields of the arenas after their head, and the ranges (address and
  size) of memory that the process has mapped, which is the state of the operating system.
\<close>

record memory =
  blocks :: "ptr \<rightharpoonup> alloc_list"
  arenas :: "ptr \<rightharpoonup> arena"
  pages :: "(ptr \<times> u64) list"

definition upd_block :: "ptr \<Rightarrow> (alloc_list \<Rightarrow> alloc_list) \<Rightarrow> memory \<Rightarrow> memory option" where
  "upd_block p f m =
     map_option (\<lambda>x. m\<lparr>blocks := (blocks m)(p \<mapsto> f x)\<rparr>) (blocks m p)"

text \<open>\<^verbatim>\<open>p->next[i]\<close>, read and written.\<close>

definition get_next :: "memory \<Rightarrow> ptr \<Rightarrow> nat \<Rightarrow> ptr option" where
  "get_next m p i = Option.bind (blocks m p) (\<lambda>x. vec_get (al_next x) i)"

definition set_next :: "ptr \<Rightarrow> nat \<Rightarrow> ptr \<Rightarrow> memory \<Rightarrow> memory option" where
  "set_next p i v m =
     Option.bind (blocks m p) (\<lambda>x.
       if i < length (al_next x) then upd_block p (al_next_update (\<lambda>ns. ns[i := v])) m else None)"

section \<open>Levels\<close>

lemma unat_drop_bit: "unat (drop_bit n (w :: 'a::len word)) = unat w div 2 ^ n"
proof -
  have "take_bit LENGTH('a) (unat w) = unat w"
    by (simp only: take_bit_nat_eq_self unsigned_less)
  then show ?thesis unfolding unsigned_drop_bit_eq by (simp only: drop_bit_eq_div)
qed

function int_log2_loop :: "u64 \<Rightarrow> u64 \<Rightarrow> nat \<Rightarrow> nat" where
  "int_log2_loop i base result =
     (if base < i then int_log2_loop (drop_bit 1 i) base (result + 1) else result)"
  by pat_completeness auto
termination
proof (relation "measure (\<lambda>(i, base, r). unat i)")
  fix i base :: u64 and r :: nat
  assume "base < i"
  then have "0 < unat i" by (metis unat_gt_0 word_not_simps(1) word_gt_0 not_less word_le_less_eq word_zero_le)
  then show "((drop_bit 1 i, base, r + 1), i, base, r) \<in> measure (\<lambda>(i, base, r). unat i)"
    by (simp add: unat_drop_bit del: One_nat_def)
qed simp

declare int_log2_loop.simps [simp del]

definition int_log2 :: "u64 \<Rightarrow> u64 \<Rightarrow> nat" where
  "int_log2 sz base = int_log2_loop sz base 0"

text \<open>\<^verbatim>\<open>Random\<close>: a linear congruential generator is run until bit 30 is set.\<close>

definition lcg :: "u32 \<Rightarrow> u32" where
  "lcg r = r * 1103515245 + 12345"

partial_function (option) random_loop :: "u32 \<Rightarrow> nat \<Rightarrow> (nat \<times> u32) option" where
  "random_loop r result =
     (if drop_bit 30 (lcg r) AND 1 = 0
      then (if result + 1 < 2 ^ 31 then random_loop (lcg r) (result + 1) else None)
      else Some (result, lcg r))"

definition lla_random :: "u32 \<Rightarrow> (nat \<times> u32) option" where
  "lla_random state = random_loop state 1"

text \<open>
  \<^verbatim>\<open>LLA_SkiplistLevels\<close>: the links lie behind 40 bytes of other fields and have eight bytes each.
  \<open>clip_level\<close> is the code after the call of \<^verbatim>\<open>Random\<close>, which is made if the pointer to the state
  of the generator is not null.
\<close>

definition clip_level :: "u64 \<Rightarrow> nat \<Rightarrow> nat option" where
  "clip_level sz level =
     (let max_fit = (sz - 40) div 8;
          l = (if max_fit < of_nat level then unat max_fit else level);
          l' = (if kMaxLevel - 1 < l then kMaxLevel - 1 else l)
      in if 1 \<le> l' then Some l' else None)"

definition skiplist_levels :: "u64 \<Rightarrow> u64 \<Rightarrow> u32 option \<Rightarrow> (nat \<times> u32 option) option" where
  "skiplist_levels sz base rnd =
     (case rnd of
        None \<Rightarrow> map_option (\<lambda>l. (l, None)) (clip_level sz (int_log2 sz base + 1))
      | Some r \<Rightarrow>
          Option.bind (lla_random r) (\<lambda>(n, r').
          map_option (\<lambda>l. (l, Some r')) (clip_level sz (int_log2 sz base + n))))"

section \<open>Search, insertion, deletion\<close>

text \<open>\<^verbatim>\<open>LLA_SkiplistSearch\<close>: the inner loop on one level, the loop over the levels, the result.\<close>

partial_function (option) skip_forward :: "memory \<Rightarrow> nat \<Rightarrow> ptr \<Rightarrow> ptr \<Rightarrow> ptr option" where
  "skip_forward m level e p =
     Option.bind (get_next m p level) (\<lambda>n.
       if n \<noteq> 0 \<and> n < e then skip_forward m level e n else Some p)"

fun search_levels :: "memory \<Rightarrow> ptr \<Rightarrow> nat \<Rightarrow> ptr \<Rightarrow> ptr list \<Rightarrow> ptr list option" where
  "search_levels m e 0 p prev = Some prev"
| "search_levels m e (Suc level) p prev =
     Option.bind (skip_forward m level e p) (\<lambda>p'. search_levels m e level p' (prev[level := p']))"

definition skiplist_search :: "memory \<Rightarrow> ptr \<Rightarrow> ptr \<Rightarrow> ptr list \<Rightarrow> (ptr \<times> ptr list) option" where
  "skiplist_search m head e prev =
     Option.bind (blocks m head) (\<lambda>h.
     Option.bind (search_levels m e (al_levels h) head prev) (\<lambda>prev'.
       if al_levels h = 0 then Some (0, prev')
       else map_option (\<lambda>n. (n, prev')) (get_next m (prev' ! 0) 0)))"

text \<open>\<^verbatim>\<open>LLA_SkiplistInsert\<close>: the first loop extends \<^verbatim>\<open>prev\<close> and the levels of the head, the second
  one enters the block on its levels.\<close>

function extend_prev :: "nat \<Rightarrow> nat \<Rightarrow> ptr \<Rightarrow> ptr list \<Rightarrow> nat \<times> ptr list" where
  "extend_prev levels l head prev =
     (if l < levels then extend_prev levels (l + 1) head (prev[l := head]) else (l, prev))"
  by pat_completeness auto
termination
  by (relation "measure (\<lambda>(levels, l, head, prev). levels - l)") auto

declare extend_prev.simps [simp del]

fun link_levels :: "ptr \<Rightarrow> ptr list \<Rightarrow> nat list \<Rightarrow> memory \<Rightarrow> memory option" where
  "link_levels e prev [] m = Some m"
| "link_levels e prev (i # is) m =
     Option.bind (vec_get prev i) (\<lambda>p.
     Option.bind (get_next m p i) (\<lambda>n.
     Option.bind (set_next e i n m) (\<lambda>m'.
     Option.bind (set_next p i e m') (\<lambda>m''. link_levels e prev is m''))))"

definition skiplist_insert :: "ptr \<Rightarrow> ptr \<Rightarrow> ptr list \<Rightarrow> memory \<Rightarrow> (memory \<times> ptr list) option" where
  "skiplist_insert head e prev m =
     Option.bind (skiplist_search m head e prev) (\<lambda>(_, prev).
     Option.bind (blocks m head) (\<lambda>h.
     Option.bind (blocks m e) (\<lambda>x.
       let (l, prev) = extend_prev (al_levels x) (al_levels h) head prev
       in Option.bind (upd_block head (al_levels_update (\<lambda>_. l)) m) (\<lambda>m.
          map_option (\<lambda>m. (m, prev)) (link_levels e prev [0..<al_levels x] m)))))"

text \<open>\<^verbatim>\<open>LLA_SkiplistDelete\<close>: the loop over the levels stops where the block is not linked; then the
  levels without blocks are removed from the head.\<close>

fun unlink_levels :: "ptr \<Rightarrow> ptr list \<Rightarrow> nat list \<Rightarrow> memory \<Rightarrow> memory option" where
  "unlink_levels e prev [] m = Some m"
| "unlink_levels e prev (i # is) m =
     Option.bind (vec_get prev i) (\<lambda>p.
     Option.bind (get_next m p i) (\<lambda>n.
       if n = e
       then Option.bind (get_next m e i) (\<lambda>n'.
            Option.bind (set_next p i n' m) (\<lambda>m'. unlink_levels e prev is m'))
       else Some m))"

fun used_levels :: "ptr list \<Rightarrow> nat \<Rightarrow> nat option" where
  "used_levels ns 0 = Some 0"
| "used_levels ns (Suc l) =
     Option.bind (vec_get ns l) (\<lambda>n. if n = 0 then used_levels ns l else Some (Suc l))"

definition skiplist_delete :: "ptr \<Rightarrow> ptr \<Rightarrow> ptr list \<Rightarrow> memory \<Rightarrow> (memory \<times> ptr list) option" where
  "skiplist_delete head e prev m =
     Option.bind (skiplist_search m head e prev) (\<lambda>(found, prev).
       if e = found
       then Option.bind (blocks m e) (\<lambda>x.
            Option.bind (unlink_levels e prev [0..<al_levels x] m) (\<lambda>m.
            Option.bind (blocks m head) (\<lambda>h.
            Option.bind (used_levels (al_next h) (al_levels h)) (\<lambda>l.
            map_option (\<lambda>m. (m, prev)) (upd_block head (al_levels_update (\<lambda>_. l)) m)))))
       else None)"

section \<open>The number of levels\<close>

text \<open>\<^verbatim>\<open>Random\<close> returns for every state of the generator: its steps are affine maps, \<open>lcg_power k\<close> are the
  coefficients of \<open>2^k\<close> steps, and \<open>2^30\<close> steps flip bit 30.\<close>

primrec lcg_power :: "nat \<Rightarrow> u32 \<times> u32" where
  "lcg_power 0 = (1103515245, 12345)"
| "lcg_power (Suc k) = (let (a, c) = lcg_power k in (a * a, a * c + c))"

lemma lcg_power: "(lcg ^^ (2 ^ k)) r = fst (lcg_power k) * r + snd (lcg_power k)"
proof (induction k arbitrary: r)
  case 0
  then show ?case by (simp add: lcg_def mult.commute)
next
  case (Suc k)
  have "(lcg ^^ (2 ^ Suc k)) r = (lcg ^^ (2 ^ k)) ((lcg ^^ (2 ^ k)) r)"
    by (simp add: mult_2 funpow_add)
  then show ?case by (simp add: Suc.IH split_beta Let_def algebra_simps)
qed

lemma lcg_power_30: "lcg_power 30 = (1, 3221225472)"
  by code_simp

lemma drop_bit_30: "drop_bit 30 w AND 1 = (0::u32) \<longleftrightarrow> even (unat w div 2 ^ 30)"
proof -
  have "drop_bit 30 w AND 1 = (0::u32) \<longleftrightarrow> unat (drop_bit 30 w AND 1) = 0"
    by (simp only: unsigned_eq_0_iff)
  also have "\<dots> \<longleftrightarrow> even (unat (drop_bit 30 w))"
    by (simp only: unsigned_and_eq unsigned_1) (simp only: and_one_eq dvd_eq_mod_eq_0)
  finally show ?thesis by (simp only: unat_drop_bit)
qed

lemma lcg_flips_bit: "even (unat r div 2 ^ 30) \<Longrightarrow> odd (unat ((lcg ^^ (2 ^ 30)) r) div 2 ^ 30)"
proof -
  assume even: "even (unat r div 2 ^ 30)"
  have "(lcg ^^ (2 ^ 30)) r = r + 3221225472"
    using lcg_power [of 30 r] by (simp only: lcg_power_30) simp
  then have eq: "unat ((lcg ^^ (2 ^ 30)) r) = (unat r + 3221225472) mod 2 ^ 32"
    by (simp add: unat_word_ariths)
  define q where "q = unat r div 2 ^ 30"
  define l where "l = unat r mod 2 ^ 30"
  have r: "unat r = q * 2 ^ 30 + l" and l: "l < 2 ^ 30" by (simp_all add: q_def l_def)
  have "unat r < 2 ^ 32" using unsigned_less [of r] by simp
  then have "q < 4" by (simp add: q_def less_mult_imp_div_less)
  moreover have "even q" using even by (simp add: q_def)
  ultimately have "q = 0 \<or> q = 2" by presburger
  then show ?thesis
  proof
    assume "q = 0"
    then have "unat ((lcg ^^ (2 ^ 30)) r) = 3 * 2 ^ 30 + l" using l unfolding eq r by simp
    then have "unat ((lcg ^^ (2 ^ 30)) r) div 2 ^ 30 = 3" using l by (intro div_nat_eqI) simp_all
    then show ?thesis by simp
  next
    assume "q = 2"
    then have "unat ((lcg ^^ (2 ^ 30)) r) = 1 * 2 ^ 30 + l"
      using l mod_add_self1 [of "2 ^ 32" "2 ^ 30 + l"] unfolding eq r by simp
    then have "unat ((lcg ^^ (2 ^ 30)) r) div 2 ^ 30 = 1" using l by (intro div_nat_eqI) simp_all
    then show ?thesis by simp
  qed
qed

lemma lcg_reaches_bit: "\<exists>n<2 ^ 30 + 1. odd (unat ((lcg ^^ Suc n) r) div 2 ^ 30)"
proof (cases "even (unat (lcg r) div 2 ^ 30)")
  case True
  then have "odd (unat ((lcg ^^ (2 ^ 30)) (lcg r)) div 2 ^ 30)" by (rule lcg_flips_bit)
  then have "odd (unat ((lcg ^^ Suc (2 ^ 30)) r) div 2 ^ 30)"
    by (simp only: funpow_Suc_right comp_apply not_False_eq_True)
  then show ?thesis by (intro exI [of _ "2 ^ 30"]) simp
next
  case False
  then show ?thesis by (intro exI [of _ 0]) simp
qed

lemma random_loop_steps:
  assumes "odd (unat ((lcg ^^ Suc n) r) div 2 ^ 30)"
    and "\<And>j. j < n \<Longrightarrow> even (unat ((lcg ^^ Suc j) r) div 2 ^ 30)" and "k + n < 2 ^ 31"
  shows "random_loop r k = Some (k + n, (lcg ^^ Suc n) r)"
  using assms
proof (induction n arbitrary: r k)
  case 0
  then show ?case by (subst random_loop.simps) (simp add: drop_bit_30)
next
  case (Suc n)
  have "even (unat (lcg r) div 2 ^ 30)" using Suc.prems(2) [of 0] by simp
  moreover have "random_loop (lcg r) (k + 1) = Some (k + 1 + n, (lcg ^^ Suc n) (lcg r))"
  proof (rule Suc.IH)
    show "odd (unat ((lcg ^^ Suc n) (lcg r)) div 2 ^ 30)"
      using Suc.prems(1) by (simp only: funpow_Suc_right comp_apply not_False_eq_True)
    show "even (unat ((lcg ^^ Suc j) (lcg r)) div 2 ^ 30)" if "j < n" for j
      using Suc.prems(2) [of "Suc j"] that by (simp only: funpow_Suc_right comp_apply Suc_less_eq)
    show "k + 1 + n < 2 ^ 31" using Suc.prems(3) by simp
  qed
  ultimately show ?case
    using Suc.prems(3) by (subst random_loop.simps) (simp add: drop_bit_30 funpow_swap1)
qed

text \<open>The smallest number of steps after which bit 30 is set is the result.\<close>

lemma lla_random_Some: "\<exists>n r'. lla_random r = Some (n, r') \<and> 1 \<le> n \<and> n \<le> 2 ^ 30 + 1"
proof -
  let ?P = "\<lambda>n. odd (unat ((lcg ^^ Suc n) r) div 2 ^ 30)"
  obtain k where k: "k < 2 ^ 30 + 1" "?P k" using lcg_reaches_bit by blast
  define n where "n = (LEAST n. ?P n)"
  have "?P n" unfolding n_def by (rule LeastI [of ?P, OF k(2)])
  moreover have "even (unat ((lcg ^^ Suc j) r) div 2 ^ 30)" if "j < n" for j
    using not_less_Least [of j ?P] that unfolding n_def by blast
  moreover have "n \<le> k" unfolding n_def by (rule Least_le [of ?P, OF k(2)])
  ultimately have "lla_random r = Some (1 + n, (lcg ^^ Suc n) r)"
    using k(1) unfolding lla_random_def by (intro random_loop_steps) simp_all
  then show ?thesis using \<open>n \<le> k\<close> k(1) by simp
qed

text \<open>\<^verbatim>\<open>IntLog2\<close> is the first number of halvings that leads to at most \<open>base\<close>.\<close>

lemma int_log2_loop_halvings:
  "r \<le> int_log2_loop i base r \<and> unat i div 2 ^ (int_log2_loop i base r - r) \<le> unat base \<and>
   (\<forall>j<int_log2_loop i base r - r. unat base < unat i div 2 ^ j)"
proof (induction i base r rule: int_log2_loop.induct)
  case (1 i base r)
  show ?case
  proof (cases "base < i")
    case False
    then show ?thesis by (subst (1 2 3) int_log2_loop.simps) (simp add: word_less_nat_alt)
  next
    case True
    let ?n = "int_log2_loop (drop_bit 1 i) base (r + 1)"
    have eq: "int_log2_loop i base r = ?n" using True by (simp add: int_log2_loop.simps [of i])
    from 1 [OF True] have ih: "r + 1 \<le> ?n" "unat i div 2 div 2 ^ (?n - (r + 1)) \<le> unat base"
      "\<forall>j<?n - (r + 1). unat base < unat i div 2 div 2 ^ j"
      by (simp_all add: unat_drop_bit del: One_nat_def)
    have n: "?n - r = Suc (?n - (r + 1))" using ih(1) by simp
    have "unat base < unat i div 2 ^ j" if "j < ?n - r" for j
      using that ih(3) True unfolding n by (cases j) (auto simp: word_less_nat_alt div_mult2_eq)
    moreover have "unat i div 2 ^ (?n - r) \<le> unat base"
      using ih(2) unfolding n by (simp add: div_mult2_eq)
    ultimately show ?thesis using ih(1) unfolding eq by simp
  qed
qed

lemma int_log2_le: "unat i div 2 ^ int_log2 i base \<le> unat base"
  using int_log2_loop_halvings [of 0 i base] by (simp add: int_log2_def)

lemma int_log2_gt: "j < int_log2 i base \<Longrightarrow> unat base < unat i div 2 ^ j"
  using int_log2_loop_halvings [of 0 i base] by (simp add: int_log2_def)

lemma int_log2_bound: "int_log2 i base \<le> 64"
proof (rule ccontr)
  assume "\<not> int_log2 i base \<le> 64"
  then have "unat base < unat i div 2 ^ 64" by (intro int_log2_gt) simp
  moreover have "unat i < 2 ^ 64" using unsigned_less [of i] by simp
  ultimately show False by simp
qed

lemma int_log2_mono:
  assumes "unat i \<le> unat j"
  shows "int_log2 i base \<le> int_log2 j base"
proof (rule ccontr)
  assume "\<not> int_log2 i base \<le> int_log2 j base"
  then have "unat base < unat i div 2 ^ int_log2 j base" by (intro int_log2_gt) simp
  also have "\<dots> \<le> unat j div 2 ^ int_log2 j base" using assms by (rule div_le_mono)
  finally show False using int_log2_le [of j base] by simp
qed

definition clipped :: "u64 \<Rightarrow> nat \<Rightarrow> nat" where
  "clipped sz l = min (min l ((unat sz - 40) div 8)) (kMaxLevel - 1)"

definition min_levels :: "u64 \<Rightarrow> u64 \<Rightarrow> nat" where
  "min_levels sz base = clipped sz (int_log2 sz base + 1)"

lemma clip_level_eq:
  assumes "48 \<le> unat sz" "1 \<le> l" "l < 2 ^ 64"
  shows "clip_level sz l = Some (clipped sz l)"
proof -
  have sub: "unat (sz - 40) = unat sz - 40"
    using assms(1) by (simp add: unat_sub word_le_nat_alt)
  have fit: "unat ((sz - 40) div 8) = (unat sz - 40) div 8"
    by (simp add: unat_div_distrib sub)
  have "(sz - 40) div 8 < of_nat l \<longleftrightarrow> (unat sz - 40) div 8 < l"
    using assms(3) by (simp only: word_less_nat_alt fit unat_of_nat) (simp add: take_bit_nat_eq_self)
  then have "(if (sz - 40) div 8 < of_nat l then unat ((sz - 40) div 8) else l)
      = min l ((unat sz - 40) div 8)"
    using fit by simp
  moreover have "1 \<le> (unat sz - 40) div 8" using assms(1) by simp
  ultimately show ?thesis
    using assms(2) by (simp add: clip_level_def clipped_def Let_def kMaxLevel_def min_def)
qed

lemma clipped_bounds:
  assumes "48 \<le> unat sz" "1 \<le> l"
  shows "1 \<le> clipped sz l" "clipped sz l < kMaxLevel" "40 + 8 * clipped sz l \<le> unat sz"
proof -
  have "1 \<le> (unat sz - 40) div 8" using assms(1) by simp
  then show "1 \<le> clipped sz l" using assms(2) by (simp add: clipped_def kMaxLevel_def)
  show "clipped sz l < kMaxLevel" by (simp add: clipped_def kMaxLevel_def)
  have "8 * clipped sz l \<le> 8 * ((unat sz - 40) div 8)" by (simp add: clipped_def)
  then show "40 + 8 * clipped sz l \<le> unat sz" using assms(1) by simp
qed

lemma clipped_mono: "unat a \<le> unat b \<Longrightarrow> l \<le> l' \<Longrightarrow> clipped a l \<le> clipped b l'"
  using div_le_mono [of "unat a - 40" "unat b - 40" 8] unfolding clipped_def
  by (intro min.mono) simp_all

lemma min_levels_mono: "unat a \<le> unat b \<Longrightarrow> min_levels a base \<le> min_levels b base"
  unfolding min_levels_def by (intro clipped_mono) (simp_all add: int_log2_mono)

lemma skiplist_levels_None:
  "48 \<le> unat sz \<Longrightarrow> skiplist_levels sz base None = Some (min_levels sz base, None)"
  using int_log2_bound [of sz base]
  by (simp add: skiplist_levels_def min_levels_def clip_level_eq)

lemma skiplist_levels_Some:
  assumes "48 \<le> unat sz"
  obtains l r' where "skiplist_levels sz base (Some r) = Some (l, Some r')"
    "min_levels sz base \<le> l" "1 \<le> l" "l < kMaxLevel" "40 + 8 * l \<le> unat sz"
proof -
  obtain n r' where n: "lla_random r = Some (n, r')" "1 \<le> n" "n \<le> 2 ^ 30 + 1"
    using lla_random_Some by blast
  let ?l = "int_log2 sz base + n"
  have l: "1 \<le> ?l" "?l < 2 ^ 64" using n int_log2_bound [of sz base] by simp_all
  show thesis
  proof (rule that)
    show "skiplist_levels sz base (Some r) = Some (clipped sz ?l, Some r')"
      using l assms by (simp add: skiplist_levels_def n(1) clip_level_eq)
    show "min_levels sz base \<le> clipped sz ?l"
      unfolding min_levels_def using n(2) by (intro clipped_mono) simp_all
  qed (rule clipped_bounds [OF assms l(1)])+
qed

end
