(* ===== verification/Low_Level_Alloc.thy ===== *)
theory Low_Level_Alloc
  imports Skip_List
begin

text \<open>
  The allocator below the lock graph, \<^verbatim>\<open>buginsight_dll/helper/low_level_alloc.cc\<close>: arenas with a list
  of free blocks in address order, first fit, splitting and merging. The functions of Windows are
  arguments: \<open>va\<close> is \<^verbatim>\<open>VirtualAlloc\<close> (the memory that is mapped already and the size give the
  address, \<open>0\<close> for a failure), \<open>page\<close> and \<open>granularity\<close> are the values of \<^verbatim>\<open>GetSystemInfo\<close>, and \<open>glob\<close> is
  the address of the static storage of the default arena. The asserts are part of the model, as in a
  debug build; their failure is \<open>None\<close>. Where a function returns here, no assert was false, so that the
  Release build, which does not compile them, does the same. The offsets are those of a 64-bit program:
  a header has 32 bytes, an arena 320.
\<close>

section \<open>Magic numbers, rounding\<close>

definition kMagicAllocated :: u64 where
  "kMagicAllocated = 0x4c833e95"

definition kMagicUnallocated :: u64 where
  "kMagicUnallocated = NOT kMagicAllocated"

definition Magic :: "u64 \<Rightarrow> ptr \<Rightarrow> u64" where
  "Magic magic p = magic XOR p"

definition header_size :: u64 where
  "header_size = 32"

definition arena_size :: u64 where
  "arena_size = 320"

definition get_page_size :: "u32 \<Rightarrow> u32 \<Rightarrow> u64" where
  "get_page_size page granularity = ucast (max page granularity)"

function rounded_up_loop :: "u64 \<Rightarrow> u64" where
  "rounded_up_loop r =
     (if 0 < r \<and> r < header_size then rounded_up_loop (r + r) else r)"
  by pat_completeness auto
termination
proof (relation "measure (\<lambda>r. 32 - unat r)")
  fix r :: u64
  assume "0 < r \<and> r < header_size"
  then have "0 < unat r" "unat r < 32"
    by (simp_all add: header_size_def word_less_nat_alt unat_gt_0)
  moreover have "unat (r + r) = unat r + unat r"
    using \<open>unat r < 32\<close> by (intro unat_add_lem [THEN iffD1]) simp
  ultimately show "(r + r, r) \<in> measure (\<lambda>r. 32 - unat r)" by simp
qed simp

declare rounded_up_loop.simps [simp del]

definition rounded_up_block_size :: u64 where
  "rounded_up_block_size = rounded_up_loop 16"

definition checked_add :: "u64 \<Rightarrow> u64 \<Rightarrow> u64 option" where
  "checked_add a b = (let sum = a + b in if a \<le> sum then Some sum else None)"

definition round_up :: "u64 \<Rightarrow> u64 \<Rightarrow> u64 option" where
  "round_up addr align = map_option (\<lambda>s. s AND NOT (align - 1)) (checked_add addr (align - 1))"

section \<open>Arenas\<close>

definition new_arena_fields :: "u64 \<Rightarrow> u32 \<Rightarrow> arena" where
  "new_arena_fields ps flags =
     \<lparr>allocation_count = 0, arena_flags = flags, pagesize = ps, round_up_size = rounded_up_block_size,
      min_size = 2 * rounded_up_block_size, arena_random = 0\<rparr>"

text \<open>The constructor \<^verbatim>\<open>Arena(flags)\<close> on the storage at \<open>A\<close>.\<close>

definition construct_arena :: "u64 \<Rightarrow> u32 \<Rightarrow> ptr \<Rightarrow> memory \<Rightarrow> memory" where
  "construct_arena ps flags A m =
     m\<lparr>blocks := (blocks m)(A \<mapsto>
          \<lparr>al_size = 0, al_magic = Magic kMagicUnallocated A, al_arena = A, al_levels = 0,
           al_next = replicate kMaxLevel 0\<rparr>),
       arenas := (arenas m)(A \<mapsto> new_arena_fields ps flags)\<rparr>"

text \<open>\<^verbatim>\<open>UnhookedArena\<close> constructs the default arena at each call.\<close>

definition create_global_arenas :: "u64 \<Rightarrow> ptr \<Rightarrow> memory \<Rightarrow> memory" where
  "create_global_arenas ps glob m = construct_arena ps 0 glob m"

definition unhooked_arena :: "u64 \<Rightarrow> ptr \<Rightarrow> memory \<Rightarrow> ptr \<times> memory" where
  "unhooked_arena ps glob m = (glob, create_global_arenas ps glob m)"

section \<open>The free list\<close>

text \<open>\<^verbatim>\<open>Next\<close>, with its checks of the list.\<close>

definition Next :: "nat \<Rightarrow> ptr \<Rightarrow> ptr \<Rightarrow> memory \<Rightarrow> ptr option" where
  "Next i prev A m =
     Option.bind (blocks m prev) (\<lambda>p.
       if i < al_levels p then
         Option.bind (get_next m prev i) (\<lambda>n.
           if n = 0 then Some 0
           else Option.bind (blocks m n) (\<lambda>x.
             if al_magic x = Magic kMagicUnallocated n \<and> al_arena x = A \<and>
               (prev \<noteq> A \<longrightarrow> prev < n \<and> prev + al_size p < n)
             then Some n else None))
       else None)"

text \<open>The levels of a block are drawn with the generator of the arena.\<close>

definition assign_levels :: "ptr \<Rightarrow> ptr \<Rightarrow> memory \<Rightarrow> memory option" where
  "assign_levels A f m =
     Option.bind (arenas m A) (\<lambda>ar.
     Option.bind (blocks m f) (\<lambda>x.
     Option.bind (skiplist_levels (al_size x) (min_size ar) (Some (arena_random ar))) (\<lambda>(l, r).
     Option.bind r (\<lambda>r.
       upd_block f (al_levels_update (\<lambda>_. l))
         (m\<lparr>arenas := (arenas m)(A \<mapsto> ar\<lparr>arena_random := r\<rparr>)\<rparr>)))))"

definition unset_prev :: "ptr list" where
  "unset_prev = replicate kMaxLevel 0"

definition coalesce :: "ptr \<Rightarrow> memory \<Rightarrow> memory option" where
  "coalesce a m =
     Option.bind (blocks m a) (\<lambda>x.
     Option.bind (get_next m a 0) (\<lambda>n.
       if n \<noteq> 0 \<and> a + al_size x = n then
         let A = al_arena x
         in Option.bind (blocks m n) (\<lambda>y.
            Option.bind (upd_block a (al_size_update (\<lambda>s. s + al_size y)) m) (\<lambda>m.
            Option.bind (upd_block n (al_magic_update (\<lambda>_. 0) \<circ> al_arena_update (\<lambda>_. 0)) m) (\<lambda>m.
            Option.bind (skiplist_delete A n unset_prev m) (\<lambda>(m, prev).
            Option.bind (skiplist_delete A a prev m) (\<lambda>(m, prev).
            Option.bind (assign_levels A a m) (\<lambda>m.
            map_option fst (skiplist_insert A a prev m)))))))
       else Some m))"

definition add_to_freelist :: "ptr \<Rightarrow> ptr \<Rightarrow> memory \<Rightarrow> memory option" where
  "add_to_freelist v A m =
     (let f = v - header_size
      in Option.bind (blocks m f) (\<lambda>x.
           if al_magic x = Magic kMagicAllocated f \<and> al_arena x = A then
             Option.bind (assign_levels A f m) (\<lambda>m.
             Option.bind (skiplist_insert A f unset_prev m) (\<lambda>(m, prev).
             Option.bind (upd_block f (al_magic_update (\<lambda>_. Magic kMagicUnallocated f)) m) (\<lambda>m.
             Option.bind (coalesce f m) (\<lambda>m.
             coalesce (prev ! 0) m))))
           else None))"

text \<open>\<^verbatim>\<open>LowLevelAlloc::Free\<close>.\<close>

definition lla_free :: "ptr \<Rightarrow> memory \<Rightarrow> memory option" where
  "lla_free v m =
     (if v = 0 then Some m
      else Option.bind (blocks m (v - header_size)) (\<lambda>f.
        let A = al_arena f
        in Option.bind (add_to_freelist v A m) (\<lambda>m.
           Option.bind (arenas m A) (\<lambda>ar.
             if 0 < allocation_count ar
             then Some (m\<lparr>arenas := (arenas m)(A \<mapsto> ar\<lparr>allocation_count := allocation_count ar - 1\<rparr>)\<rparr>)
             else None))))"

section \<open>Allocation\<close>

text \<open>The loop of the first fit: the first free block on the list of level \<open>i\<close> that is big enough, or
  \<open>0\<close>.\<close>

partial_function (option) find_region :: "nat \<Rightarrow> u64 \<Rightarrow> ptr \<Rightarrow> memory \<Rightarrow> ptr \<Rightarrow> ptr option" where
  "find_region i req A m before =
     Option.bind (Next i before A m) (\<lambda>s.
       if s = 0 then Some 0
       else Option.bind (blocks m s) (\<lambda>x.
         if al_size x < req then find_region i req A m s else Some s))"

text \<open>New pages become one block, which is first written as an allocated one. Its other words are zero,
  as \<^verbatim>\<open>VirtualAlloc\<close> gives them.\<close>

definition write_header :: "ptr \<Rightarrow> u64 \<Rightarrow> ptr \<Rightarrow> memory \<Rightarrow> memory" where
  "write_header s sz A m =
     m\<lparr>blocks := (blocks m)(s \<mapsto>
       \<lparr>al_size = sz, al_magic = Magic kMagicAllocated s, al_arena = A, al_levels = 0,
        al_next = replicate kMaxLevel 0\<rparr>)\<rparr>"

definition map_pages :: "((ptr \<times> u64) list \<Rightarrow> u64 \<Rightarrow> ptr) \<Rightarrow> u64 \<Rightarrow> ptr \<Rightarrow> memory \<Rightarrow> memory option" where
  "map_pages va req A m =
     Option.bind (arenas m A) (\<lambda>ar.
     Option.bind (round_up req (pagesize ar * 16)) (\<lambda>sz.
       let s = va (pages m) sz
       in if s = 0 then None
          else add_to_freelist (s + header_size) A
                 (write_header s sz A (m\<lparr>pages := (s, sz) # pages m\<rparr>))))"

partial_function (option) alloc_loop ::
  "((ptr \<times> u64) list \<Rightarrow> u64 \<Rightarrow> ptr) \<Rightarrow> u64 \<Rightarrow> ptr \<Rightarrow> memory \<Rightarrow> (ptr \<times> memory) option" where
  "alloc_loop va req A m =
     Option.bind (arenas m A) (\<lambda>ar.
     Option.bind (skiplist_levels req (min_size ar) None) (\<lambda>(l, _).
     Option.bind (blocks m A) (\<lambda>h.
     Option.bind (if l - 1 < al_levels h then find_region (l - 1) req A m A else Some 0) (\<lambda>s.
       if s \<noteq> 0 then Some (s, m)
       else Option.bind (map_pages va req A m) (alloc_loop va req A)))))"

text \<open>The block that was found is taken from the list; the rest of it becomes a free block if it is
  not too small.\<close>

definition take_region :: "u64 \<Rightarrow> ptr \<Rightarrow> ptr \<Rightarrow> memory \<Rightarrow> memory option" where
  "take_region req A s m =
     Option.bind (arenas m A) (\<lambda>ar.
     Option.bind (skiplist_delete A s unset_prev m) (\<lambda>(m, _).
     Option.bind (blocks m s) (\<lambda>x.
     Option.bind (checked_add req (min_size ar)) (\<lambda>need.
     Option.bind
       (if need \<le> al_size x
        then let n = req + s
             in Option.bind (upd_block s (al_size_update (\<lambda>_. req))
                  (write_header n (al_size x - req) A m)) (\<lambda>m.
                add_to_freelist (n + header_size) A m)
        else Some m) (\<lambda>m.
     Option.bind (upd_block s (al_magic_update (\<lambda>_. Magic kMagicAllocated s)) m) (\<lambda>m.
     Option.bind (blocks m s) (\<lambda>x.
       if al_arena x = A then Some m else None)))))))"

definition count_allocation :: "ptr \<Rightarrow> memory \<Rightarrow> memory option" where
  "count_allocation A m =
     Option.bind (arenas m A) (\<lambda>ar.
     map_option (\<lambda>c. m\<lparr>arenas := (arenas m)(A \<mapsto> ar\<lparr>allocation_count := c\<rparr>)\<rparr>)
       (inc32 (allocation_count ar)))"

definition do_alloc_with_arena ::
  "((ptr \<times> u64) list \<Rightarrow> u64 \<Rightarrow> ptr) \<Rightarrow> u64 \<Rightarrow> ptr \<Rightarrow> memory \<Rightarrow> (ptr \<times> memory) option" where
  "do_alloc_with_arena va request A m =
     (if request = 0 then Some (0, m)
      else Option.bind (arenas m A) (\<lambda>ar.
        Option.bind (checked_add request header_size) (\<lambda>sz.
        Option.bind (round_up sz (round_up_size ar)) (\<lambda>req.
        Option.bind (alloc_loop va req A m) (\<lambda>(s, m).
        Option.bind (take_region req A s m) (\<lambda>m.
        map_option (\<lambda>m. (s + header_size, m)) (count_allocation A m)))))))"

definition alloc_with_arena ::
  "((ptr \<times> u64) list \<Rightarrow> u64 \<Rightarrow> ptr) \<Rightarrow> u64 \<Rightarrow> ptr \<Rightarrow> memory \<Rightarrow> (ptr \<times> memory) option" where
  "alloc_with_arena va request A m =
     (if A \<noteq> 0 then do_alloc_with_arena va request A m else None)"

section \<open>New and deleted arenas\<close>

definition new_arena ::
  "((ptr \<times> u64) list \<Rightarrow> u64 \<Rightarrow> ptr) \<Rightarrow> u64 \<Rightarrow> ptr \<Rightarrow> u32 \<Rightarrow> memory \<Rightarrow> (ptr \<times> memory) option" where
  "new_arena va ps glob flags m =
     (let (meta, m) = unhooked_arena ps glob m
      in map_option (\<lambda>(v, m). (v, construct_arena ps flags v m))
           (alloc_with_arena va arena_size meta m))"

text \<open>\<^verbatim>\<open>DeleteArena\<close>: \<^verbatim>\<open>VirtualFree(region, 0, MEM_RELEASE)\<close> releases the range that was mapped at this
  address and fails for any other address. The first assert calls \<^verbatim>\<open>UnhookedArena\<close>.\<close>

definition virtual_free :: "ptr \<Rightarrow> memory \<Rightarrow> memory option" where
  "virtual_free p m =
     (if p \<in> fst ` set (pages m) then Some (m\<lparr>pages := filter (\<lambda>(q, _). q \<noteq> p) (pages m)\<rparr>) else None)"

partial_function (option) release_regions :: "ptr \<Rightarrow> memory \<Rightarrow> memory option" where
  "release_regions A m =
     Option.bind (arenas m A) (\<lambda>ar.
     Option.bind (get_next m A 0) (\<lambda>region.
       if region = 0 then Some m
       else Option.bind (blocks m region) (\<lambda>x.
         Option.bind (get_next m region 0) (\<lambda>n.
         Option.bind (set_next A 0 n m) (\<lambda>m.
           if al_magic x = Magic kMagicUnallocated region \<and> al_arena x = A \<and>
             al_size x mod pagesize ar = 0 \<and> region mod pagesize ar = 0
           then Option.bind (virtual_free region m) (\<lambda>m. release_regions A m)
           else None)))))"

definition delete_arena :: "u64 \<Rightarrow> ptr \<Rightarrow> ptr \<Rightarrow> memory \<Rightarrow> (bool \<times> memory) option" where
  "delete_arena ps glob A m =
     (if A = 0 then None
      else let (meta, m) = unhooked_arena ps glob m
        in if A = meta then None
           else Option.bind (arenas m A) (\<lambda>ar.
             if allocation_count ar \<noteq> 0 then Some (False, m)
             else Option.bind (release_regions A m) (\<lambda>m.
               map_option (\<lambda>m. (True, m)) (lla_free A m))))"

end
