(* ===== verification/Skip_List_Correct.thy ===== *)
theory Skip_List_Correct
  imports Skip_List
begin

text \<open>
  The skip list of \<open>Skip_List\<close> is an ascending list of addresses: search, insertion and deletion
  return, find their place and change the lists of all levels accordingly, and nothing else.
\<close>

section \<open>Views of the memory\<close>

definition nxt :: "memory \<Rightarrow> nat \<Rightarrow> ptr \<Rightarrow> ptr" where
  "nxt m i p = (case blocks m p of Some x \<Rightarrow> al_next x ! i | None \<Rightarrow> 0)"

definition lv :: "memory \<Rightarrow> ptr \<Rightarrow> nat" where
  "lv m p = (case blocks m p of Some x \<Rightarrow> al_levels x | None \<Rightarrow> 0)"

definition node_ok :: "memory \<Rightarrow> ptr \<Rightarrow> bool" where
  "node_ok m p \<longleftrightarrow> (\<exists>x. blocks m p = Some x \<and> length (al_next x) = kMaxLevel)"

definition header :: "memory \<Rightarrow> ptr \<Rightarrow> (u64 \<times> u64 \<times> ptr) option" where
  "header m p = map_option (\<lambda>x. (al_size x, al_magic x, al_arena x)) (blocks m p)"

text \<open>\<open>list_frame A S\<close>: the fields in front of the links, the levels of all blocks but the head \<open>A\<close>, and
  everything outside \<open>A\<close> and \<open>S\<close> are unchanged.\<close>

definition list_frame :: "ptr \<Rightarrow> ptr set \<Rightarrow> memory \<Rightarrow> memory \<Rightarrow> bool" where
  "list_frame A S m m' \<longleftrightarrow>
     arenas m' = arenas m \<and> pages m' = pages m \<and> header m' = header m \<and>
     (\<forall>q. node_ok m' q = node_ok m q) \<and> (\<forall>q. q \<noteq> A \<longrightarrow> lv m' q = lv m q) \<and>
     (\<forall>q. q \<noteq> A \<longrightarrow> q \<notin> S \<longrightarrow> blocks m' q = blocks m q)"

lemma list_frameD [frame]:
  assumes "list_frame A S m m'"
  shows "arenas m' = arenas m" "pages m' = pages m" "header m' = header m"
    "node_ok m' q = node_ok m q" "q \<noteq> A \<Longrightarrow> lv m' q = lv m q"
    "q \<noteq> A \<Longrightarrow> q \<notin> S \<Longrightarrow> blocks m' q = blocks m q"
  using assms unfolding list_frame_def by blast+

lemma list_frame_refl: "list_frame A S m m"
  unfolding list_frame_def by simp

lemma list_frame_trans:
  assumes "list_frame A S m m'" "list_frame A T m' m''"
  shows "list_frame A (S \<union> T) m m''"
  using assms unfolding list_frame_def by simp

lemma list_frame_mono: "list_frame A S m m' \<Longrightarrow> S \<subseteq> T \<Longrightarrow> list_frame A T m m'"
  unfolding list_frame_def by blast

lemma get_next_nxt: "node_ok m p \<Longrightarrow> i < kMaxLevel \<Longrightarrow> get_next m p i = Some (nxt m i p)"
  by (auto simp: node_ok_def get_next_def nxt_def)

lemma set_next_nxt:
  assumes "node_ok m p" "i < kMaxLevel"
  obtains m' where "set_next p i v m = Some m'" "list_frame A {p} m m'" "lv m' = lv m"
    "\<And>j. nxt m' j = (if j = i then (nxt m i)(p := v) else nxt m j)"
proof -
  obtain x where x: "blocks m p = Some x" "length (al_next x) = kMaxLevel"
    using assms(1) by (auto simp: node_ok_def)
  define m' where "m' = m\<lparr>blocks := (blocks m)(p \<mapsto> al_next_update (\<lambda>ns. ns[i := v]) x)\<rparr>"
  show thesis
  proof (rule that)
    show "set_next p i v m = Some m'"
      using x assms(2) by (simp add: set_next_def upd_block_def m'_def)
    show "list_frame A {p} m m'"
      using x by (auto simp: list_frame_def m'_def header_def node_ok_def lv_def fun_eq_iff)
    show "lv m' = lv m"
      using x by (auto simp: m'_def lv_def fun_eq_iff)
    show "nxt m' j = (if j = i then (nxt m i)(p := v) else nxt m j)" for j
      using x assms(2) by (auto simp: m'_def nxt_def fun_eq_iff)
  qed
qed

section \<open>Linked lists\<close>

primrec links :: "(ptr \<Rightarrow> ptr) \<Rightarrow> ptr \<Rightarrow> ptr list \<Rightarrow> bool" where
  "links f p [] \<longleftrightarrow> f p = 0"
| "links f p (a # as) \<longleftrightarrow> f p = a \<and> links f a as"

lemma links_cong:
  assumes "\<And>a. a \<in> set as \<Longrightarrow> f a = g a" "f p = g q"
  shows "links f p as = links g q as"
  using assms
proof (induction as arbitrary: p q)
  case Nil
  then show ?case by simp
next
  case (Cons a as)
  have "links f a as = links g a as" using Cons.prems(1) by (intro Cons.IH) simp_all
  then show ?case using Cons.prems(2) by simp
qed

lemma links_suffix: "links f p (us @ ws) \<Longrightarrow> links f (last (p # us)) ws"
  by (induction us arbitrary: p) (auto split: if_splits)

lemma links_next: "links f p (us @ ws) \<Longrightarrow> f (last (p # us)) = (case ws of [] \<Rightarrow> 0 | w # _ \<Rightarrow> w)"
  using links_suffix [of f p us ws] by (cases ws) simp_all

lemma links_insert:
  assumes "links f p (us @ ws)" "distinct (p # us @ ws)" "e \<notin> set (p # us @ ws)"
  shows "links (f(e := f (last (p # us)), last (p # us) := e)) p (us @ e # ws)"
  using assms
proof (induction us arbitrary: p)
  case Nil
  have "links (f(e := f p, p := e)) e ws = links f p ws"
    using Nil.prems by (intro links_cong) auto
  then show ?case using Nil.prems by (simp del: fun_upd_apply add: fun_upd_same)
next
  case (Cons u us)
  let ?f = "f(e := f (last (u # us)), last (u # us) := e)"
  have "links ?f u (us @ e # ws)" using Cons.prems by (intro Cons.IH) simp_all
  moreover have "last (u # us) \<in> set (u # us)" by (rule last_in_set) simp
  then have "p \<noteq> last (u # us)" "p \<noteq> e" using Cons.prems(2,3) by auto
  then have "?f p = u" using Cons.prems(1) by simp
  moreover have "last (p # u # us) = last (u # us)" by simp
  ultimately show ?case by (simp only: append_Cons links.simps simp_thms)
qed

lemma links_delete:
  assumes "links f p (us @ e # ws)" "distinct (p # us @ e # ws)"
  shows "links (f(last (p # us) := f e)) p (us @ ws)"
  using assms
proof (induction us arbitrary: p)
  case Nil
  have "links (f(p := f e)) p ws = links f e ws"
    using Nil.prems by (intro links_cong) auto
  then show ?case using Nil.prems by (simp del: fun_upd_apply add: fun_upd_same)
next
  case (Cons u us)
  let ?f = "f(last (u # us) := f e)"
  have "links ?f u (us @ ws)" using Cons.prems by (intro Cons.IH) simp_all
  moreover have "last (u # us) \<in> set (u # us)" by (rule last_in_set) simp
  then have "p \<noteq> last (u # us)" using Cons.prems(2) by auto
  then have "?f p = u" using Cons.prems(1) by simp
  moreover have "last (p # u # us) = last (u # us)" by simp
  ultimately show ?case by (simp only: append_Cons links.simps simp_thms)
qed

lemma sorted_takeWhile_less:
  fixes xs :: "'a::linorder list"
  assumes "sorted_wrt (<) xs"
  shows "takeWhile (\<lambda>a. a < e) xs = filter (\<lambda>a. a < e) xs"
  using assms
proof (induction xs)
  case Nil
  then show ?case by simp
next
  case (Cons x xs)
  show ?case
  proof (cases "x < e")
    case True
    then show ?thesis using Cons by simp
  next
    case False
    then have "filter (\<lambda>a. a < e) xs = []" using Cons.prems by (auto simp: filter_empty_conv)
    then show ?thesis using False by simp
  qed
qed

lemma sorted_split:
  fixes xs :: "'a::linorder list"
  assumes "sorted_wrt (<) xs"
  shows "xs = filter (\<lambda>a. a < e) xs @ filter (\<lambda>a. \<not> a < e) xs"
proof -
  have "dropWhile (\<lambda>a. a < e) xs = filter (\<lambda>a. \<not> a < e) xs"
    using assms
  proof (induction xs)
    case Nil
    then show ?case by simp
  next
    case (Cons x xs)
    show ?case
    proof (cases "x < e")
      case True
      then show ?thesis using Cons by simp
    next
      case False
      then have "filter (\<lambda>a. \<not> a < e) xs = xs" using Cons.prems by (auto simp: filter_id_conv)
      then show ?thesis using False by simp
    qed
  qed
  then show ?thesis
    using takeWhile_dropWhile_id [of "\<lambda>a. a < e" xs] sorted_takeWhile_less [OF assms, of e] by simp
qed

section \<open>The invariant and the search\<close>

definition skip_inv :: "memory \<Rightarrow> ptr \<Rightarrow> ptr list \<Rightarrow> bool" where
  "skip_inv m A fl \<longleftrightarrow>
     node_ok m A \<and> lv m A < kMaxLevel \<and> sorted_wrt (<) fl \<and> A \<notin> set fl \<and> 0 \<notin> set fl \<and>
     (\<forall>a\<in>set fl. node_ok m a \<and> 1 \<le> lv m a \<and> lv m a \<le> lv m A) \<and>
     (\<forall>i<kMaxLevel. links (nxt m i) A (filter (\<lambda>a. i < lv m a) fl))"

lemma skip_invD:
  assumes "skip_inv m A fl"
  shows "node_ok m A" "lv m A < kMaxLevel" "sorted_wrt (<) fl" "A \<notin> set fl" "0 \<notin> set fl"
    "a \<in> set fl \<Longrightarrow> node_ok m a" "a \<in> set fl \<Longrightarrow> 1 \<le> lv m a" "a \<in> set fl \<Longrightarrow> lv m a \<le> lv m A"
    "i < kMaxLevel \<Longrightarrow> links (nxt m i) A (filter (\<lambda>a. i < lv m a) fl)" "distinct fl"
  using assms unfolding skip_inv_def by (blast | simp add: strict_sorted_iff)+

text \<open>The blocks in front of \<open>e\<close> at level \<open>i\<close>, and the last of them or the head.\<close>

definition below :: "memory \<Rightarrow> ptr list \<Rightarrow> nat \<Rightarrow> ptr \<Rightarrow> ptr list" where
  "below m fl i e = filter (\<lambda>a. i < lv m a \<and> a < e) fl"

definition pred_at :: "memory \<Rightarrow> ptr \<Rightarrow> ptr list \<Rightarrow> nat \<Rightarrow> ptr \<Rightarrow> ptr" where
  "pred_at m A fl i e = last (A # below m fl i e)"

lemma pred_at_in: "pred_at m A fl i e \<in> insert A (set fl)"
proof -
  have "last (A # below m fl i e) \<in> set (A # below m fl i e)" by (rule last_in_set) simp
  then show ?thesis by (auto simp: pred_at_def below_def)
qed

lemma pred_at_neq: "e \<noteq> A \<Longrightarrow> pred_at m A fl i e \<noteq> e"
proof -
  assume "e \<noteq> A"
  have "last (A # below m fl i e) \<in> set (A # below m fl i e)" by (rule last_in_set) simp
  then show ?thesis using \<open>e \<noteq> A\<close> by (auto simp: pred_at_def below_def)
qed

lemma pred_at_ok: "skip_inv m A fl \<Longrightarrow> node_ok m (pred_at m A fl i e)"
  using pred_at_in [of m A fl i e] skip_invD(1) [of m A fl] skip_invD(6) [of m A fl] by auto

lemma level_split:
  assumes "skip_inv m A fl"
  shows "filter (\<lambda>a. i < lv m a) fl = below m fl i e @ filter (\<lambda>a. i < lv m a \<and> \<not> a < e) fl"
proof -
  have "sorted_wrt (<) (filter (\<lambda>a. i < lv m a) fl)"
    using skip_invD(3) [OF assms] by (rule sorted_wrt_filter)
  then have "filter (\<lambda>a. i < lv m a) fl = filter (\<lambda>a. a < e) (filter (\<lambda>a. i < lv m a) fl)
      @ filter (\<lambda>a. \<not> a < e) (filter (\<lambda>a. i < lv m a) fl)"
    by (rule sorted_split)
  then show ?thesis by (simp add: below_def conj_commute)
qed

lemma skip_forward_last:
  assumes "links (nxt m i) p as" "0 \<notin> set as" "node_ok m p" "\<And>a. a \<in> set as \<Longrightarrow> node_ok m a"
    "i < kMaxLevel"
  shows "skip_forward m i e p = Some (last (p # takeWhile (\<lambda>a. a < e) as))"
  using assms
proof (induction as arbitrary: p)
  case Nil
  then show ?case by (subst skip_forward.simps) (simp add: get_next_nxt)
next
  case (Cons a as)
  have "skip_forward m i e a = Some (last (a # takeWhile (\<lambda>a. a < e) as))"
    using Cons.prems by (intro Cons.IH) simp_all
  then show ?case using Cons.prems by (subst skip_forward.simps) (auto simp: get_next_nxt)
qed

lemma skip_forward_level:
  assumes "skip_inv m A fl" "i < kMaxLevel"
  shows "skip_forward m i e (pred_at m A fl (Suc i) e) = Some (pred_at m A fl i e)"
proof -
  let ?f = "filter (\<lambda>a. i < lv m a) fl" and ?p = "pred_at m A fl (Suc i) e"
  note inv = skip_invD [OF assms(1)]
  have sorted: "sorted_wrt (<) ?f" using inv(3) by (rule sorted_wrt_filter)
  have "\<exists>ws. links (nxt m i) ?p ws \<and> set ws \<subseteq> set fl \<and> sorted_wrt (<) ws
      \<and> last (A # below m fl i e) = last (?p # filter (\<lambda>a. a < e) ws)"
  proof (cases "below m fl (Suc i) e")
    case Nil
    then have "?p = A" by (simp add: pred_at_def)
    moreover have "below m fl i e = filter (\<lambda>a. a < e) ?f" by (simp add: below_def conj_commute)
    moreover have "set ?f \<subseteq> set fl" by simp
    ultimately show ?thesis using inv(9) [OF assms(2)] sorted by metis
  next
    case (Cons b bs)
    then have "?p = last (below m fl (Suc i) e)" by (simp add: pred_at_def)
    then have "?p \<in> set (below m fl (Suc i) e)" using Cons last_in_set [of "b # bs"] by simp
    then have p: "?p \<in> set ?f" "?p < e" by (auto simp: below_def)
    then obtain us ws where f: "?f = us @ ?p # ws" using split_list [OF p(1)] by blast
    have "links (nxt m i) A ((us @ [?p]) @ ws)" using inv(9) [OF assms(2)] f by simp
    then have "links (nxt m i) (last (A # us @ [?p])) ws" by (rule links_suffix)
    then have "links (nxt m i) ?p ws" by simp
    moreover have "below m fl i e = filter (\<lambda>a. a < e) (us @ ?p # ws)"
      unfolding f [symmetric] by (simp add: below_def conj_commute)
    then have "last (A # below m fl i e) = last (?p # filter (\<lambda>a. a < e) ws)" using p(2) by simp
    moreover have "set ws \<subseteq> set fl" using arg_cong [OF f, of set] by auto
    moreover have "sorted_wrt (<) ws" using sorted unfolding f by (simp add: sorted_wrt_append)
    ultimately show ?thesis by blast
  qed
  then obtain ws where ws: "links (nxt m i) ?p ws" "set ws \<subseteq> set fl" "sorted_wrt (<) ws"
    "last (A # below m fl i e) = last (?p # filter (\<lambda>a. a < e) ws)" by blast
  have "skip_forward m i e ?p = Some (last (?p # takeWhile (\<lambda>a. a < e) ws))"
    using ws(1) _ pred_at_ok [OF assms(1)] _ assms(2)
  proof (rule skip_forward_last)
    show "0 \<notin> set ws" using ws(2) inv(5) by blast
    show "node_ok m a" if "a \<in> set ws" for a using that ws(2) inv(6) by blast
  qed
  then show ?thesis by (simp only: sorted_takeWhile_less [OF ws(3)] ws(4) pred_at_def)
qed

lemma search_levels_prev:
  assumes "skip_inv m A fl" "l \<le> kMaxLevel" "length prev = kMaxLevel"
  obtains prev' where "search_levels m e l (pred_at m A fl l e) prev = Some prev'"
    "length prev' = kMaxLevel" "\<And>i. i < l \<Longrightarrow> prev' ! i = pred_at m A fl i e"
  using assms(2,3)
proof (induction l arbitrary: prev thesis)
  case 0
  show ?case by (rule "0.prems"(1) [of prev]) (simp_all add: "0.prems")
next
  case (Suc l)
  let ?p = "pred_at m A fl l e"
  have l: "l < kMaxLevel" using Suc.prems(2) by simp
  have step: "search_levels m e (Suc l) (pred_at m A fl (Suc l) e) prev
      = search_levels m e l ?p (prev[l := ?p])"
    by (simp add: skip_forward_level [OF assms(1) l])
  obtain prev' where prev': "search_levels m e l ?p (prev[l := ?p]) = Some prev'"
    "length prev' = kMaxLevel" "\<And>i. i < l \<Longrightarrow> prev' ! i = pred_at m A fl i e"
    using Suc.IH [of "prev[l := ?p]" thesis] l Suc.prems(3) by auto
  have keep: "prev'' ! l = prev0 ! l" if "search_levels m e k p prev0 = Some prev''" "k \<le> l"
    for k p prev0 prev''
    using that by (induction k arbitrary: p prev0) (auto simp: bind_eq_Some_conv)
  have "prev' ! l = ?p" using keep [OF prev'(1)] l Suc.prems(3) by simp
  then show ?case
    by (intro Suc.prems(1) [of prev']) (use prev' in \<open>auto simp only: step less_Suc_eq\<close>)
qed

text \<open>The search returns the first block that is not in front of \<open>e\<close>.\<close>

definition first_from :: "ptr list \<Rightarrow> ptr \<Rightarrow> ptr" where
  "first_from fl e = (case filter (\<lambda>a. \<not> a < e) fl of [] \<Rightarrow> 0 | a # _ \<Rightarrow> a)"

lemma filter_level_0: "skip_inv m A fl \<Longrightarrow> filter (\<lambda>a. 0 < lv m a) fl = fl"
  using skip_invD(7) by (fastforce simp: filter_id_conv)

lemma below_top: "skip_inv m A fl \<Longrightarrow> lv m A \<le> i \<Longrightarrow> below m fl i e = []"
  using skip_invD(8) by (fastforce simp: below_def filter_empty_conv)

lemma skiplist_search_prev:
  assumes "skip_inv m A fl" "length prev = kMaxLevel"
  obtains prev' where "skiplist_search m A e prev = Some (first_from fl e, prev')"
    "length prev' = kMaxLevel" "\<And>i. i < lv m A \<Longrightarrow> prev' ! i = pred_at m A fl i e"
proof -
  note inv = skip_invD [OF assms(1)]
  obtain h where h: "blocks m A = Some h" "al_levels h = lv m A"
    using inv(1) by (auto simp: node_ok_def lv_def)
  have start: "pred_at m A fl (lv m A) e = A" using below_top [OF assms(1)] by (simp add: pred_at_def)
  obtain prev' where prev': "search_levels m e (lv m A) A prev = Some prev'"
    "length prev' = kMaxLevel" "\<And>i. i < lv m A \<Longrightarrow> prev' ! i = pred_at m A fl i e"
    using search_levels_prev [OF assms(1) less_imp_le [OF inv(2)] assms(2), of e] unfolding start
    by blast
  have "skiplist_search m A e prev = Some (first_from fl e, prev')"
  proof (cases "lv m A = 0")
    case True
    then have "fl = []" using inv(7,8) by (cases fl) fastforce+
    then show ?thesis using prev' h True by (simp add: skiplist_search_def first_from_def)
  next
    case False
    have "links (nxt m 0) A (below m fl 0 e @ filter (\<lambda>a. 0 < lv m a \<and> \<not> a < e) fl)"
      using inv(9) [of 0] level_split [OF assms(1), of 0 e] by (simp add: kMaxLevel_def)
    from links_next [OF this] have "nxt m 0 (pred_at m A fl 0 e)
        = (case filter (\<lambda>a. \<not> a < e) (filter (\<lambda>a. 0 < lv m a) fl) of [] \<Rightarrow> 0 | w # _ \<Rightarrow> w)"
      by (simp add: pred_at_def conj_commute)
    then have "nxt m 0 (prev' ! 0) = first_from fl e"
      using prev'(3) [of 0] False by (simp add: first_from_def filter_level_0 [OF assms(1)])
    moreover have "node_ok m (prev' ! 0)" using prev'(3) [of 0] False pred_at_ok [OF assms(1)] by simp
    ultimately show ?thesis
      using prev' h False by (simp add: skiplist_search_def get_next_nxt kMaxLevel_def)
  qed
  with prev' show thesis by (intro that)
qed

section \<open>Linking and unlinking\<close>

lemma link_levels_links:
  assumes "distinct is" "set is \<subseteq> {..<kMaxLevel}" "node_ok m e" "length prev = kMaxLevel"
    "\<And>i. i \<in> set is \<Longrightarrow> node_ok m (prev ! i) \<and> prev ! i \<in> S" "e \<in> S"
  obtains m' where "link_levels e prev is m = Some m'" "list_frame A S m m'" "lv m' = lv m"
    "\<And>i. nxt m' i = (if i \<in> set is then (nxt m i)(e := nxt m i (prev ! i), prev ! i := e) else nxt m i)"
  using assms
proof (induction "is" arbitrary: m thesis)
  case Nil
  show ?case by (rule Nil.prems(1) [of m]) (simp_all add: list_frame_refl)
next
  case (Cons j js)
  have j: "j < kMaxLevel" "node_ok m (prev ! j)" "prev ! j \<in> S" "j \<notin> set js"
    using Cons.prems by auto
  obtain m1 where m1: "set_next e j (nxt m j (prev ! j)) m = Some m1" "list_frame A {e} m m1"
    "lv m1 = lv m" "\<And>i. nxt m1 i = (if i = j then (nxt m j)(e := nxt m j (prev ! j)) else nxt m i)"
    using set_next_nxt [OF Cons.prems(4) j(1)] by metis
  have ok1: "node_ok m1 q = node_ok m q" for q using m1(2) by (rule list_frameD)
  obtain m2 where m2: "set_next (prev ! j) j e m1 = Some m2" "list_frame A {prev ! j} m1 m2"
    "lv m2 = lv m1" "\<And>i. nxt m2 i = (if i = j then (nxt m1 j)(prev ! j := e) else nxt m1 i)"
    using set_next_nxt [of m1 "prev ! j" j e] ok1 j by metis
  have ok2: "node_ok m2 q = node_ok m q" for q using list_frameD(4) [OF m2(2)] ok1 by simp
  have frame2: "list_frame A S m m2"
    by (rule list_frame_mono [OF list_frame_trans [OF m1(2) m2(2)]]) (use j(3) Cons.prems(7) in simp)
  have "\<exists>m'. link_levels e prev js m2 = Some m' \<and> list_frame A S m2 m' \<and> lv m' = lv m2 \<and>
    (\<forall>i. nxt m' i = (if i \<in> set js then (nxt m2 i)(e := nxt m2 i (prev ! i), prev ! i := e)
       else nxt m2 i))"
  proof (rule Cons.IH [where m = m2])
    show "node_ok m2 (prev ! i) \<and> prev ! i \<in> S" if "i \<in> set js" for i
      using Cons.prems(6) [of i] that by (simp add: ok2)
    show "distinct js" "set js \<subseteq> {..<kMaxLevel}" "node_ok m2 e" "length prev = kMaxLevel" "e \<in> S"
      using Cons.prems by (simp_all add: ok2)
  qed blast
  then obtain m' where m': "link_levels e prev js m2 = Some m'" "list_frame A S m2 m'" "lv m' = lv m2"
    "\<And>i. nxt m' i = (if i \<in> set js then (nxt m2 i)(e := nxt m2 i (prev ! i), prev ! i := e)
       else nxt m2 i)" by blast
  show ?case
  proof (rule Cons.prems(1) [of m'])
    show "link_levels e prev (j # js) m = Some m'"
      using j(1,2) m1(1) m2(1) m'(1) Cons.prems(5) by (simp add: get_next_nxt)
    show "list_frame A S m m'" using list_frame_trans [OF frame2 m'(2)] by simp
    show "lv m' = lv m" using m1(3) m2(3) m'(3) by simp
    show "nxt m' i = (if i \<in> set (j # js) then (nxt m i)(e := nxt m i (prev ! i), prev ! i := e)
        else nxt m i)" for i
      using j(4) by (auto simp: m'(4) m2(4) m1(4))
  qed
qed

lemma unlink_levels_links:
  assumes "distinct is" "set is \<subseteq> {..<kMaxLevel}" "node_ok m e" "length prev = kMaxLevel"
    "\<And>i. i \<in> set is \<Longrightarrow> node_ok m (prev ! i) \<and> prev ! i \<in> S \<and> nxt m i (prev ! i) = e"
  obtains m' where "unlink_levels e prev is m = Some m'" "list_frame A S m m'" "lv m' = lv m"
    "\<And>i. nxt m' i = (if i \<in> set is then (nxt m i)(prev ! i := nxt m i e) else nxt m i)"
  using assms
proof (induction "is" arbitrary: m thesis)
  case Nil
  show ?case by (rule Nil.prems(1) [of m]) (simp_all add: list_frame_refl)
next
  case (Cons j js)
  have j: "j < kMaxLevel" "node_ok m (prev ! j)" "prev ! j \<in> S" "j \<notin> set js" "nxt m j (prev ! j) = e"
    using Cons.prems by auto
  obtain m2 where m2: "set_next (prev ! j) j (nxt m j e) m = Some m2" "list_frame A {prev ! j} m m2"
    "lv m2 = lv m" "\<And>i. nxt m2 i = (if i = j then (nxt m j)(prev ! j := nxt m j e) else nxt m i)"
    using set_next_nxt [OF j(2,1)] by metis
  have ok2: "node_ok m2 q = node_ok m q" for q using m2(2) by (rule list_frameD)
  have frame2: "list_frame A S m m2" using m2(2) j(3) by (elim list_frame_mono) simp
  have "\<exists>m'. unlink_levels e prev js m2 = Some m' \<and> list_frame A S m2 m' \<and> lv m' = lv m2 \<and>
    (\<forall>i. nxt m' i = (if i \<in> set js then (nxt m2 i)(prev ! i := nxt m2 i e) else nxt m2 i))"
  proof (rule Cons.IH [where m = m2])
    show "node_ok m2 (prev ! i) \<and> prev ! i \<in> S \<and> nxt m2 i (prev ! i) = e" if "i \<in> set js" for i
      using Cons.prems(6) [of i] that j(4) by (auto simp: ok2 m2(4))
    show "distinct js" "set js \<subseteq> {..<kMaxLevel}" "node_ok m2 e" "length prev = kMaxLevel"
      using Cons.prems by (simp_all add: ok2)
  qed blast
  then obtain m' where m': "unlink_levels e prev js m2 = Some m'" "list_frame A S m2 m'"
    "lv m' = lv m2"
    "\<And>i. nxt m' i = (if i \<in> set js then (nxt m2 i)(prev ! i := nxt m2 i e) else nxt m2 i)" by blast
  show ?case
  proof (rule Cons.prems(1) [of m'])
    show "unlink_levels e prev (j # js) m = Some m'"
      using j(1,2,5) m2(1) m'(1) Cons.prems(4,5) by (simp add: get_next_nxt)
    show "list_frame A S m m'" using list_frame_trans [OF frame2 m'(2)] by simp
    show "lv m' = lv m" using m2(3) m'(3) by simp
    show "nxt m' i = (if i \<in> set (j # js) then (nxt m i)(prev ! i := nxt m i e) else nxt m i)" for i
      using j(4) by (auto simp: m'(4) m2(4))
  qed
qed

lemma set_levels:
  assumes "node_ok m A"
  obtains m' where "upd_block A (al_levels_update (\<lambda>_. l)) m = Some m'" "list_frame A {} m m'"
    "lv m' = (lv m)(A := l)" "nxt m' = nxt m"
proof -
  obtain x where x: "blocks m A = Some x" "length (al_next x) = kMaxLevel"
    using assms by (auto simp: node_ok_def)
  show thesis
    by (rule that [of "m\<lparr>blocks := (blocks m)(A \<mapsto> x\<lparr>al_levels := l\<rparr>)\<rparr>"])
      (use x in \<open>auto simp: upd_block_def list_frame_def header_def node_ok_def lv_def nxt_def fun_eq_iff\<close>)
qed

lemma extend_prev_head:
  assumes "n \<le> length prev"
  shows "fst (extend_prev n l head prev) = max n l"
    "length (snd (extend_prev n l head prev)) = length prev"
    "i < length prev \<Longrightarrow>
       snd (extend_prev n l head prev) ! i = (if l \<le> i \<and> i < n then head else prev ! i)"
proof -
  have "fst (extend_prev n l head prev) = max n l \<and>
    length (snd (extend_prev n l head prev)) = length prev \<and>
    (\<forall>i<length prev. snd (extend_prev n l head prev) ! i = (if l \<le> i \<and> i < n then head else prev ! i))"
    using assms
  proof (induction n l head prev rule: extend_prev.induct)
    case (1 n l head prev)
    then show ?case
      by (cases "l < n"; subst (1 2 3) extend_prev.simps) (auto simp: nth_list_update max_def)
  qed
  then show "fst (extend_prev n l head prev) = max n l"
    "length (snd (extend_prev n l head prev)) = length prev"
    "i < length prev \<Longrightarrow>
       snd (extend_prev n l head prev) ! i = (if l \<le> i \<and> i < n then head else prev ! i)"
    by blast+
qed

lemma insort_split:
  fixes fl :: "ptr list"
  assumes "sorted_wrt (<) fl" "e \<notin> set fl"
  shows "insort e fl = filter (\<lambda>a. a < e) fl @ e # filter (\<lambda>a. \<not> a < e) fl"
  using assms
proof (induction fl)
  case Nil
  then show ?case by simp
next
  case (Cons a fl)
  show ?case
  proof (cases "a < e")
    case True
    then show ?thesis using Cons by (simp add: not_le)
  next
    case False
    then have "e < a" using Cons.prems(2) by auto
    then have "filter (\<lambda>b. b < e) fl = []" "filter (\<lambda>b. \<not> b < e) fl = fl"
      using Cons.prems(1) by (auto simp: filter_empty_conv filter_id_conv)
    then show ?thesis using False \<open>e < a\<close> by (simp add: less_imp_le)
  qed
qed

lemma sorted_insort_less:
  fixes fl :: "ptr list"
  assumes "sorted_wrt (<) fl" "e \<notin> set fl"
  shows "sorted_wrt (<) (insort e fl)"
  using assms by (simp add: strict_sorted_iff sorted_insort distinct_insort)

lemma skiplist_insert_insort:
  assumes inv: "skip_inv m A fl" and e: "node_ok m e" "1 \<le> lv m e" "lv m e < kMaxLevel"
    "e \<notin> set fl" "e \<noteq> A" "e \<noteq> 0" and prev: "length prev = kMaxLevel"
  obtains m' prev' where "skiplist_insert A e prev m = Some (m', prev')" "skip_inv m' A (insort e fl)"
    "list_frame A (insert e (set fl)) m m'" "prev' ! 0 = last (A # filter (\<lambda>a. a < e) fl)"
    "length prev' = kMaxLevel"
proof -
  note I = skip_invD [OF inv]
  obtain h x where h: "blocks m A = Some h" "al_levels h = lv m A"
    and x: "blocks m e = Some x" "al_levels x = lv m e"
    using I(1) e(1) by (auto simp: node_ok_def lv_def)
  obtain p1 where p1: "skiplist_search m A e prev = Some (first_from fl e, p1)"
    "length p1 = kMaxLevel" "\<And>i. i < lv m A \<Longrightarrow> p1 ! i = pred_at m A fl i e"
    using skiplist_search_prev [OF inv prev] by blast
  define l where "l = max (lv m e) (lv m A)"
  define p2 where "p2 = snd (extend_prev (lv m e) (lv m A) A p1)"
  have ext: "extend_prev (lv m e) (lv m A) A p1 = (l, p2)" and p2_len: "length p2 = kMaxLevel"
    using extend_prev_head(1,2) [of "lv m e" p1 "lv m A" A] p1(2) e(3)
    by (simp_all add: l_def p2_def prod_eq_iff)
  have p2: "p2 ! i = pred_at m A fl i e" if "i < lv m e" for i
    using extend_prev_head(3) [of "lv m e" p1 i "lv m A" A] p1 that e(3) below_top [OF inv, of i e]
    by (auto simp: p2_def pred_at_def)
  obtain m1 where m1: "upd_block A (al_levels_update (\<lambda>_. l)) m = Some m1" "list_frame A {} m m1"
    "lv m1 = (lv m)(A := l)" "nxt m1 = nxt m"
    using set_levels [OF I(1)] by blast
  have ok1: "node_ok m1 q = node_ok m q" for q using m1(2) by (rule list_frameD)
  have "\<exists>m'. link_levels e p2 [0..<lv m e] m1 = Some m' \<and>
    list_frame A (insert A (insert e (set fl))) m1 m' \<and> lv m' = lv m1 \<and>
    (\<forall>i. nxt m' i = (if i \<in> set [0..<lv m e]
       then (nxt m1 i)(e := nxt m1 i (p2 ! i), p2 ! i := e) else nxt m1 i))"
  proof (rule link_levels_links [of "[0..<lv m e]" m1 e p2 "insert A (insert e (set fl))"])
    show "node_ok m1 (p2 ! i) \<and> p2 ! i \<in> insert A (insert e (set fl))" if "i \<in> set [0..<lv m e]" for i
      using that p2 [of i] pred_at_ok [OF inv, of i e] pred_at_in [of m A fl i e] by (auto simp: ok1)
    show "set [0..<lv m e] \<subseteq> {..<kMaxLevel}" using e(3) by auto
  qed (use e(1) p2_len in \<open>simp_all add: ok1\<close>)
  then obtain m' where m': "link_levels e p2 [0..<lv m e] m1 = Some m'"
    "list_frame A (insert A (insert e (set fl))) m1 m'" "lv m' = (lv m)(A := l)"
    "\<And>i. i < lv m e \<Longrightarrow>
      nxt m' i = (nxt m i)(e := nxt m i (pred_at m A fl i e), pred_at m A fl i e := e)"
    "\<And>i. \<not> i < lv m e \<Longrightarrow> nxt m' i = nxt m i"
    using p2 by (auto simp: m1(3,4))
  have frame: "list_frame A (insert e (set fl)) m m'"
    using list_frame_trans [OF m1(2) m'(2)] unfolding list_frame_def by auto
  have "skip_inv m' A (insort e fl)"
    unfolding skip_inv_def
  proof (intro conjI ballI allI impI)
    show "node_ok m' A" using I(1) list_frameD(4) [OF frame] by simp
    show "lv m' A < kMaxLevel" using I(2) e(3) by (simp add: m'(3) l_def)
    show "sorted_wrt (<) (insort e fl)" using I(3) e(4) by (rule sorted_insort_less)
    show "A \<notin> set (insort e fl)" "0 \<notin> set (insort e fl)"
      using I(4,5) e(5,6) by (simp_all add: set_insort_key)
    fix i :: nat
    assume i: "i < kMaxLevel"
    let ?us = "below m fl i e" and ?ws = "filter (\<lambda>a. i < lv m a \<and> \<not> a < e) fl"
    have old: "links (nxt m i) A (?us @ ?ws)" using I(9) [OF i] level_split [OF inv] by simp
    have "filter (\<lambda>a. i < lv m' a) (insort e fl) = filter (\<lambda>a. i < lv m a) (insort e fl)"
      using I(4) e(5) by (intro filter_cong) (auto simp: m'(3) set_insort_key)
    also have "\<dots> = ?us @ (if i < lv m e then [e] else []) @ ?ws"
      by (simp add: insort_split [OF I(3) e(4)] below_def conj_commute)
    finally have lists: "filter (\<lambda>a. i < lv m' a) (insort e fl)
      = ?us @ (if i < lv m e then [e] else []) @ ?ws" .
    show "links (nxt m' i) A (filter (\<lambda>a. i < lv m' a) (insort e fl))"
    proof (cases "i < lv m e")
      case True
      have "distinct (?us @ ?ws)" "set (?us @ ?ws) \<subseteq> set fl"
        using I(10) level_split [OF inv, of i e, symmetric] by simp_all
      then have "links (nxt m' i) A (?us @ e # ?ws)"
        unfolding m'(4) [OF True] pred_at_def using old I(4) e(4,5) by (intro links_insert) auto
      then show ?thesis using True by (simp add: lists)
    next
      case False
      then show ?thesis using old by (simp add: lists m'(5))
    qed
  next
    fix a
    assume "a \<in> set (insort e fl)"
    then have a: "a = e \<or> a \<in> set fl" by (simp add: set_insort_key)
    show "node_ok m' a" using a e(1) I(6) list_frameD(4) [OF frame] by auto
    have "a \<noteq> A" using a e(5) I(4) by auto
    then show "1 \<le> lv m' a" "lv m' a \<le> lv m' A"
      using a e(2) I(7,8) [of a] by (auto simp: m'(3) l_def)
  qed
  moreover have "skiplist_insert A e prev m = Some (m', p2)"
    by (simp add: skiplist_insert_def p1(1) h x ext m1(1) m'(1))
  moreover have "p2 ! 0 = last (A # filter (\<lambda>a. a < e) fl)"
  proof -
    have "below m fl 0 e = filter (\<lambda>a. a < e) (filter (\<lambda>a. 0 < lv m a) fl)"
      by (simp add: below_def conj_commute)
    then show ?thesis using p2 [of 0] e(2) by (simp add: pred_at_def filter_level_0 [OF inv])
  qed
  ultimately show thesis using frame p2_len that by blast
qed

lemma used_levels_Some:
  assumes "l \<le> length ns"
  obtains k where "used_levels ns l = Some k" "k \<le> l" "\<And>j. k \<le> j \<Longrightarrow> j < l \<Longrightarrow> ns ! j = 0"
  using assms
proof (induction l arbitrary: thesis)
  case 0
  show ?case by (rule "0.prems"(1) [of 0]) simp_all
next
  case (Suc l)
  then have l: "l < length ns" by simp
  show ?case
  proof (cases "ns ! l = 0")
    case True
    obtain k where k: "used_levels ns l = Some k" "k \<le> l" "\<And>j. k \<le> j \<Longrightarrow> j < l \<Longrightarrow> ns ! j = 0"
      using Suc.IH l by (metis less_imp_le)
    show ?thesis
      using True k l by (intro Suc.prems(1) [of k]) (auto simp: less_Suc_eq)
  next
    case False
    then show ?thesis using l by (intro Suc.prems(1) [of "Suc l"]) simp_all
  qed
qed

lemma skiplist_delete_remove1:
  assumes inv: "skip_inv m A fl" and e: "e \<in> set fl" and prev: "length prev = kMaxLevel"
  obtains m' prev' where "skiplist_delete A e prev m = Some (m', prev')"
    "skip_inv m' A (remove1 e fl)" "list_frame A (set fl) m m'" "length prev' = kMaxLevel"
proof -
  note I = skip_invD [OF inv]
  have e': "node_ok m e" "1 \<le> lv m e" "lv m e \<le> lv m A" "e \<noteq> A" "e \<noteq> 0"
    using e I(4-8) by blast+
  obtain x where x: "blocks m e = Some x" "al_levels x = lv m e"
    using e'(1) by (auto simp: node_ok_def lv_def)
  obtain us ws where fl: "fl = us @ e # ws" using split_list [OF e] by blast
  have order: "\<And>a. a \<in> set us \<Longrightarrow> a < e" "\<And>a. a \<in> set ws \<Longrightarrow> e < a"
    using I(3) unfolding fl by (auto simp: sorted_wrt_append)
  have split: "filter (\<lambda>a. \<not> a < e) us = []" "filter (\<lambda>a. \<not> a < e) ws = ws"
    "filter (\<lambda>a. a < e) ws = []"
    using order(1) order_less_not_sym [OF order(2)]
    by (simp_all add: filter_empty_conv filter_id_conv del: not_less)
  have found: "first_from fl e = e" by (simp add: first_from_def fl split)
  have below: "below m fl i e = filter (\<lambda>a. i < lv m a) us" for i
  proof -
    have "filter (\<lambda>a. i < lv m a \<and> a < e) us = filter (\<lambda>a. i < lv m a) us"
      using order(1) by (intro filter_cong) simp_all
    moreover have "filter (\<lambda>a. i < lv m a \<and> a < e) ws = []"
      using order_less_not_sym [OF order(2)] by (simp add: filter_empty_conv del: not_less)
    ultimately show ?thesis by (simp add: below_def fl)
  qed
  note below' = below [unfolded fl]
  have links: "links (nxt m i) A (below m fl i e @ e # filter (\<lambda>a. i < lv m a) ws)"
    if "i < lv m e" for i
    using I(9) [of i] that e'(3) I(2) by (simp add: fl below')
  obtain p1 where p1: "skiplist_search m A e prev = Some (e, p1)"
    "length p1 = kMaxLevel" "\<And>i. i < lv m A \<Longrightarrow> p1 ! i = pred_at m A fl i e"
    using skiplist_search_prev [OF inv prev, of e] unfolding found by blast
  have "\<exists>m1. unlink_levels e p1 [0..<lv m e] m = Some m1 \<and> list_frame A (insert A (set fl)) m m1 \<and>
    lv m1 = lv m \<and> (\<forall>i. nxt m1 i = (if i \<in> set [0..<lv m e] then (nxt m i)(p1 ! i := nxt m i e)
      else nxt m i))"
  proof (rule unlink_levels_links [of "[0..<lv m e]" m e p1 "insert A (set fl)"])
    show "node_ok m (p1 ! i) \<and> p1 ! i \<in> insert A (set fl) \<and> nxt m i (p1 ! i) = e"
      if "i \<in> set [0..<lv m e]" for i
    proof -
      have i: "i < lv m e" "p1 ! i = pred_at m A fl i e" using that p1(3) [of i] e'(3) by auto
      show ?thesis
        using links_next [OF links [OF i(1)]] pred_at_ok [OF inv, of i e] pred_at_in [of m A fl i e]
        by (simp add: i(2) pred_at_def)
    qed
    show "set [0..<lv m e] \<subseteq> {..<kMaxLevel}" using e'(3) I(2) by auto
  qed (use e' p1(2) in simp_all)
  then obtain m1 where m1: "unlink_levels e p1 [0..<lv m e] m = Some m1"
    "list_frame A (insert A (set fl)) m m1" "lv m1 = lv m"
    "\<And>i. i < lv m e \<Longrightarrow> nxt m1 i = (nxt m i)(pred_at m A fl i e := nxt m i e)"
    "\<And>i. \<not> i < lv m e \<Longrightarrow> nxt m1 i = nxt m i"
    using p1(3) e'(3) by auto
  have ok1: "node_ok m1 q = node_ok m q" for q using m1(2) by (rule list_frameD)
  have lists: "links (nxt m1 i) A (filter (\<lambda>a. i < lv m a) (remove1 e fl))" if i: "i < kMaxLevel" for i
  proof -
    have "e \<notin> set us" using I(10) fl by simp
    then have r: "filter (\<lambda>a. i < lv m a) (remove1 e fl)
        = below m fl i e @ filter (\<lambda>a. i < lv m a) ws"
      by (simp add: fl remove1_append below')
    show ?thesis
    proof (cases "i < lv m e")
      case True
      have "distinct (A # below m fl i e @ e # filter (\<lambda>a. i < lv m a) ws)"
        using I(4,10) e'(4) unfolding fl below' by auto
      then show ?thesis
        unfolding r m1(4) [OF True] pred_at_def by (intro links_delete links [OF True])
    next
      case False
      then show ?thesis using I(9) [OF i] unfolding r m1(5) [OF False] by (simp add: fl below')
    qed
  qed
  obtain h where h: "blocks m1 A = Some h" "al_levels h = lv m A" "length (al_next h) = kMaxLevel"
    using I(1) ok1 [of A] m1(3) by (auto simp: node_ok_def lv_def fun_eq_iff split: option.splits)
  obtain k where k: "used_levels (al_next h) (lv m A) = Some k" "k \<le> lv m A"
    "\<And>j. k \<le> j \<Longrightarrow> j < lv m A \<Longrightarrow> al_next h ! j = 0"
    using used_levels_Some [of "lv m A" "al_next h"] I(2) h(3) by auto
  obtain m' where m': "upd_block A (al_levels_update (\<lambda>_. k)) m1 = Some m'" "list_frame A {} m1 m'"
    "lv m' = (lv m)(A := k)" "nxt m' = nxt m1"
    using set_levels [of m1 A k] I(1) ok1 m1(3) by metis
  have ok': "node_ok m' q = node_ok m q" for q using list_frameD(4) [OF m'(2)] ok1 by simp
  have frame: "list_frame A (set fl) m m'"
    using list_frame_trans [OF m1(2) m'(2)] unfolding list_frame_def by auto
  have top: "lv m a \<le> k" if a: "a \<in> set (remove1 e fl)" for a
  proof (rule ccontr)
    assume *: "\<not> lv m a \<le> k"
    have "lv m a \<le> lv m A" using a set_remove1_subset I(8) by fastforce
    with * have j: "k \<le> lv m a - 1" "lv m a - 1 < lv m A" "lv m a - 1 < lv m a" by simp_all
    then have "nxt m1 (lv m a - 1) A = 0" using k(3) [OF j(1,2)] h(1) by (simp add: nxt_def)
    moreover have "links (nxt m1 (lv m a - 1)) A (filter (\<lambda>b. lv m a - 1 < lv m b) (remove1 e fl))"
      using j(2) I(2) by (intro lists) simp
    moreover have "0 \<notin> set (remove1 e fl)" using I(5) set_remove1_subset by fastforce
    ultimately have "filter (\<lambda>b. lv m a - 1 < lv m b) (remove1 e fl) = []"
      by (cases "filter (\<lambda>b. lv m a - 1 < lv m b) (remove1 e fl)") (auto simp: filter_eq_Cons_iff)
    then show False using a j(3) by (simp add: filter_empty_conv)
  qed
  have sub: "set (remove1 e fl) \<subseteq> set fl" by (rule set_remove1_subset)
  have "skip_inv m' A (remove1 e fl)"
    unfolding skip_inv_def
  proof (intro conjI ballI allI impI)
    show "node_ok m' A" using I(1) ok' by simp
    show "lv m' A < kMaxLevel" using I(2) k(2) by (simp add: m'(3))
    show "sorted_wrt (<) (remove1 e fl)"
      using I(3) by (simp add: strict_sorted_iff sorted_remove1)
    show "A \<notin> set (remove1 e fl)" "0 \<notin> set (remove1 e fl)" using I(4,5) sub by auto
    show "links (nxt m' i) A (filter (\<lambda>a. i < lv m' a) (remove1 e fl))" if "i < kMaxLevel" for i
    proof -
      have "filter (\<lambda>a. i < lv m' a) (remove1 e fl) = filter (\<lambda>a. i < lv m a) (remove1 e fl)"
        using I(4) sub by (intro filter_cong) (auto simp: m'(3))
      then show ?thesis using lists [OF that] by (simp add: m'(4))
    qed
  next
    fix a
    assume a: "a \<in> set (remove1 e fl)"
    then have "a \<in> set fl" "a \<noteq> A" using sub I(4) by auto
    then show "node_ok m' a" "1 \<le> lv m' a" "lv m' a \<le> lv m' A"
      using I(6,7) [of a] top [OF a] by (auto simp: ok' m'(3))
  qed
  moreover have "skiplist_delete A e prev m = Some (m', p1)"
    by (simp add: skiplist_delete_def p1(1) x m1(1) h k(1) m'(1))
  ultimately show thesis using frame p1(2) that by blast
qed

lemma skip_inv_cong:
  assumes "skip_inv m A fl" "\<And>q. node_ok m' q = node_ok m q" "nxt m' = nxt m"
    "\<And>q. q \<in> insert A (set fl) \<Longrightarrow> lv m' q = lv m q"
  shows "skip_inv m' A fl"
proof -
  have "filter (\<lambda>a. i < lv m' a) fl = filter (\<lambda>a. i < lv m a) fl" for i
    using assms(4) by (intro filter_cong) simp_all
  then show ?thesis using assms unfolding skip_inv_def by simp
qed

text \<open>Only the nodes of the list count.\<close>

lemma skip_inv_local:
  assumes "skip_inv m A fl" "\<And>q. q \<in> insert A (set fl) \<Longrightarrow> node_ok m' q = node_ok m q"
    "\<And>i q. q \<in> insert A (set fl) \<Longrightarrow> nxt m' i q = nxt m i q"
    "\<And>q. q \<in> insert A (set fl) \<Longrightarrow> lv m' q = lv m q"
  shows "skip_inv m' A fl"
proof -
  have "filter (\<lambda>a. i < lv m' a) fl = filter (\<lambda>a. i < lv m a) fl" for i
    using assms(4) by (intro filter_cong) simp_all
  moreover have "links (nxt m' i) A (filter (\<lambda>a. i < lv m a) fl)
      = links (nxt m i) A (filter (\<lambda>a. i < lv m a) fl)" for i
    using assms(3) by (intro links_cong) auto
  ultimately show ?thesis using assms unfolding skip_inv_def by simp
qed

section \<open>The contract of the free list\<close>

text \<open>
  What the allocator needs of its free list: an ascending list of addresses under insertion and
  deletion. \<open>fresh\<close> blocks may be inserted, \<open>unrelated S\<close> says that nothing outside \<open>S\<close> changes.
\<close>

locale address_list =
  fixes inv :: "'m \<Rightarrow> ptr list \<Rightarrow> bool"
    and fresh :: "'m \<Rightarrow> ptr \<Rightarrow> bool"
    and ins del :: "ptr \<Rightarrow> 'q \<Rightarrow> 'm \<Rightarrow> ('m \<times> 'q) option"
    and scratch :: "'q \<Rightarrow> bool"
    and unrelated :: "ptr set \<Rightarrow> 'm \<Rightarrow> 'm \<Rightarrow> bool"
  assumes ascending: "inv m fl \<Longrightarrow> sorted_wrt (<) fl"
    and insert_law: "inv m fl \<Longrightarrow> fresh m e \<Longrightarrow> e \<notin> set fl \<Longrightarrow> scratch q \<Longrightarrow>
      \<exists>m' q'. ins e q m = Some (m', q') \<and> inv m' (insort e fl) \<and> scratch q' \<and>
        unrelated (insert e (set fl)) m m'"
    and delete_law: "inv m fl \<Longrightarrow> e \<in> set fl \<Longrightarrow> scratch q \<Longrightarrow>
      \<exists>m' q'. del e q m = Some (m', q') \<and> inv m' (remove1 e fl) \<and> scratch q' \<and>
        unrelated (set fl) m m'"
    and unrelated_trans: "unrelated S m m' \<Longrightarrow> unrelated T m' m'' \<Longrightarrow> unrelated (S \<union> T) m m''"
begin

lemma delete_two:
  assumes "inv m fl" "n \<in> set fl" "a \<in> set fl" "a \<noteq> n" "scratch q"
  obtains m1 q1 m' q' where "del n q m = Some (m1, q1)" "del a q1 m1 = Some (m', q')"
    "inv m' (remove1 a (remove1 n fl))" "scratch q'" "unrelated (set fl) m m'"
proof -
  obtain m1 q1 where 1: "del n q m = Some (m1, q1)" "inv m1 (remove1 n fl)" "scratch q1"
    "unrelated (set fl) m m1"
    using delete_law [OF assms(1,2,5)] by blast
  have "a \<in> set (remove1 n fl)" using assms(3,4) by simp
  from delete_law [OF 1(2) this 1(3)] obtain m' q' where 2: "del a q1 m1 = Some (m', q')"
    "inv m' (remove1 a (remove1 n fl))" "scratch q'" "unrelated (set (remove1 n fl)) m1 m'" by blast
  have "set fl \<union> set (remove1 n fl) = set fl" using set_remove1_subset by fastforce
  then have "unrelated (set fl) m m'" using unrelated_trans [OF 1(4) 2(4)] by simp
  with 1 2 show thesis by (intro that)
qed

lemma insert_back:
  assumes "inv m fl" "a \<in> set fl" "a \<noteq> n"
  shows "insort a (remove1 a (remove1 n fl)) = remove1 n fl" "a \<notin> set (remove1 a (remove1 n fl))"
proof -
  have s: "sorted (remove1 n fl)" "distinct (remove1 n fl)"
    using ascending [OF assms(1)] by (simp_all add: strict_sorted_iff sorted_remove1 distinct_remove1)
  have "a \<in> set (remove1 n fl)" using assms(2,3) by simp
  then show "insort a (remove1 a (remove1 n fl)) = remove1 n fl"
    using s(1) by (rule insort_remove1)
  show "a \<notin> set (remove1 a (remove1 n fl))" using s(2) by simp
qed

end

interpretation free_list: address_list "\<lambda>m. skip_inv m A"
  "\<lambda>m e. node_ok m e \<and> 1 \<le> lv m e \<and> lv m e < kMaxLevel \<and> e \<noteq> A \<and> e \<noteq> 0"
  "skiplist_insert A" "skiplist_delete A" "\<lambda>prev. length prev = kMaxLevel" "list_frame A" for A
proof
  show "\<exists>m' q'. skiplist_insert A e q m = Some (m', q') \<and> skip_inv m' A (insort e fl) \<and>
      length q' = kMaxLevel \<and> list_frame A (insert e (set fl)) m m'"
    if "skip_inv m A fl" "node_ok m e \<and> 1 \<le> lv m e \<and> lv m e < kMaxLevel \<and> e \<noteq> A \<and> e \<noteq> 0"
      "e \<notin> set fl" "length q = kMaxLevel" for m fl e q
    by (rule skiplist_insert_insort [of m A fl e q]) (use that in blast)+
  show "\<exists>m' q'. skiplist_delete A e q m = Some (m', q') \<and> skip_inv m' A (remove1 e fl) \<and>
      length q' = kMaxLevel \<and> list_frame A (set fl) m m'"
    if "skip_inv m A fl" "e \<in> set fl" "length q = kMaxLevel" for m fl e q
    by (rule skiplist_delete_remove1 [OF that]) blast
qed (rule skip_invD(3) list_frame_trans; assumption)+

end
