(* ===== verification/Low_Level_Correct.thy ===== *)
theory Low_Level_Correct
  imports Low_Level_Alloc Skip_List_Correct
begin

text \<open>
  The blocks of an arena. \<open>arena_inv m A X fl oc\<close>: \<open>fl\<close> are the free blocks in ascending order, \<open>oc\<close> the
  addresses of the occupied ones; all blocks are aligned, disjoint and lie in mapped memory, no two
  free blocks are adjacent (except behind those in \<open>X\<close>), and every free block has at least the
  levels that the search for a block of its size expects. \<open>arena_ok\<close> is the invariant between calls.
\<close>

section \<open>Extents\<close>

definition sz :: "memory \<Rightarrow> ptr \<Rightarrow> u64" where
  "sz m a = (case header m a of Some (s, _) \<Rightarrow> s | None \<Rightarrow> 0)"

definition fin :: "memory \<Rightarrow> ptr \<Rightarrow> nat" where
  "fin m a = unat a + unat (sz m a)"

definition bytes :: "memory \<Rightarrow> ptr \<Rightarrow> nat set" where
  "bytes m a = {unat a..<fin m a}"

definition mapped :: "memory \<Rightarrow> nat set" where
  "mapped m = (\<Union>(p, n)\<in>set (pages m). {unat p..<unat p + unat n})"

definition has_magic :: "memory \<Rightarrow> ptr \<Rightarrow> u64 \<Rightarrow> ptr \<Rightarrow> bool" where
  "has_magic m A mg a \<longleftrightarrow> header m a = Some (sz m a, Magic mg a, A)"

definition block_ok :: "memory \<Rightarrow> ptr \<Rightarrow> bool" where
  "block_ok m a \<longleftrightarrow>
     a \<noteq> 0 \<and> unat a mod 32 = 0 \<and> unat (sz m a) mod 32 = 0 \<and> 64 \<le> unat (sz m a) \<and> fin m a < 2 ^ 64"

definition free_bytes :: "memory \<Rightarrow> ptr list \<Rightarrow> nat set" where
  "free_bytes m fl = (\<Union>a\<in>set fl. bytes m a)"

lemma header_blocks: "blocks m a = Some x \<Longrightarrow> header m a = Some (al_size x, al_magic x, al_arena x)"
  by (simp add: header_def)

lemma sz_blocks: "blocks m a = Some x \<Longrightarrow> sz m a = al_size x"
  by (simp add: sz_def header_def)

lemma has_magicD:
  assumes "has_magic m A mg a"
  obtains x where "blocks m a = Some x" "al_size x = sz m a" "al_magic x = Magic mg a" "al_arena x = A"
  using assms by (auto simp: has_magic_def header_def)

lemma extent_header:
  assumes "header m' a = header m a"
  shows "sz m' a = sz m a" "fin m' a = fin m a" "bytes m' a = bytes m a"
    "block_ok m' a = block_ok m a" "has_magic m' A mg a = has_magic m A mg a"
  using assms by (simp_all add: sz_def fin_def bytes_def block_ok_def has_magic_def)

section \<open>The invariant of an arena\<close>

definition arena_fields_ok :: "arena \<Rightarrow> bool" where
  "arena_fields_ok ar \<longleftrightarrow>
     min_size ar = 64 \<and> round_up_size ar = 32 \<and> (\<exists>k. 5 \<le> k \<and> k \<le> 32 \<and> pagesize ar = 2 ^ k)"

definition head_ok :: "memory \<Rightarrow> ptr \<Rightarrow> bool" where
  "head_ok m A \<longleftrightarrow> A \<noteq> 0 \<and> (\<exists>mg. header m A = Some (0, mg, A)) \<and> unat A \<in> mapped m"

definition free_block_ok :: "memory \<Rightarrow> ptr \<Rightarrow> ptr \<Rightarrow> bool" where
  "free_block_ok m A a \<longleftrightarrow> has_magic m A kMagicUnallocated a \<and>
     min_levels (sz m a) 64 \<le> lv m a \<and> 40 + 8 * lv m a \<le> unat (sz m a)"

definition arena_inv :: "memory \<Rightarrow> ptr \<Rightarrow> ptr set \<Rightarrow> ptr list \<Rightarrow> ptr set \<Rightarrow> bool" where
  "arena_inv m A X fl oc \<longleftrightarrow>
     (\<exists>ar. arenas m A = Some ar \<and> arena_fields_ok ar) \<and> head_ok m A \<and> skip_inv m A fl \<and>
     (\<forall>a\<in>set fl. free_block_ok m A a) \<and>
     (\<forall>a\<in>set fl \<union> oc. block_ok m a \<and> bytes m a \<subseteq> mapped m \<and> unat A \<notin> bytes m a \<and> node_ok m a) \<and>
     (\<forall>a\<in>set fl \<union> oc. \<forall>b\<in>set fl \<union> oc. unat a < unat b \<longrightarrow> fin m a \<le> unat b) \<and>
     set fl \<inter> oc = {} \<and>
     (\<forall>a\<in>set fl - X. \<forall>b\<in>set fl. fin m a \<noteq> unat b)"

definition arena_ok :: "memory \<Rightarrow> ptr \<Rightarrow> ptr list \<Rightarrow> ptr set \<Rightarrow> bool" where
  "arena_ok m A fl al \<longleftrightarrow>
     arena_inv m A {} fl al \<and> finite al \<and> (\<forall>a\<in>al. has_magic m A kMagicAllocated a) \<and>
     map_option allocation_count (arenas m A) = Some (int (card al))"

lemma arena_invD:
  assumes "arena_inv m A X fl oc"
  shows "\<exists>ar. arenas m A = Some ar \<and> arena_fields_ok ar" "head_ok m A" "skip_inv m A fl"
    "a \<in> set fl \<Longrightarrow> free_block_ok m A a"
    "a \<in> set fl \<union> oc \<Longrightarrow> block_ok m a" "a \<in> set fl \<union> oc \<Longrightarrow> bytes m a \<subseteq> mapped m"
    "a \<in> set fl \<union> oc \<Longrightarrow> unat A \<notin> bytes m a"
    "a \<in> set fl \<union> oc \<Longrightarrow> b \<in> set fl \<union> oc \<Longrightarrow> unat a < unat b \<Longrightarrow> fin m a \<le> unat b"
    "set fl \<inter> oc = {}"
    "a \<in> set fl \<Longrightarrow> a \<notin> X \<Longrightarrow> b \<in> set fl \<Longrightarrow> fin m a \<noteq> unat b"
    "a \<in> set fl \<union> oc \<Longrightarrow> node_ok m a"
  using assms unfolding arena_inv_def by blast+

lemma arena_invI:
  assumes "\<exists>ar. arenas m A = Some ar \<and> arena_fields_ok ar" "head_ok m A" "skip_inv m A fl"
    "\<And>a. a \<in> set fl \<Longrightarrow> free_block_ok m A a"
    "\<And>a. a \<in> set fl \<union> oc \<Longrightarrow> block_ok m a \<and> bytes m a \<subseteq> mapped m \<and> unat A \<notin> bytes m a \<and> node_ok m a"
    "\<And>a b. a \<in> set fl \<union> oc \<Longrightarrow> b \<in> set fl \<union> oc \<Longrightarrow> unat a < unat b \<Longrightarrow> fin m a \<le> unat b"
    "set fl \<inter> oc = {}"
    "\<And>a b. a \<in> set fl \<Longrightarrow> a \<notin> X \<Longrightarrow> b \<in> set fl \<Longrightarrow> fin m a \<noteq> unat b"
  shows "arena_inv m A X fl oc"
  using assms unfolding arena_inv_def by blast

lemma head_not_block: "arena_inv m A X fl oc \<Longrightarrow> a \<in> set fl \<union> oc \<Longrightarrow> a \<noteq> A"
  using arena_invD(5,7) [of m A X fl oc A] by (auto simp: bytes_def fin_def block_ok_def)

text \<open>The blocks are pairwise disjoint.\<close>

lemma blocks_disjoint:
  assumes "arena_inv m A X fl oc" "a \<in> set fl \<union> oc" "b \<in> set fl \<union> oc" "a \<noteq> b"
  shows "bytes m a \<inter> bytes m b = {}"
proof -
  have "unat a < unat b \<or> unat b < unat a" using assms(4) by (metis linorder_neqE_nat word_unat_eq_iff)
  then have "fin m a \<le> unat b \<or> fin m b \<le> unat a"
    using arena_invD(8) [OF assms(1)] assms(2,3) by blast
  then show ?thesis by (auto simp: bytes_def)
qed

text \<open>What an operation on the arena \<open>A\<close> that works on the bytes \<open>F\<close> leaves unchanged.\<close>

definition arena_frame :: "ptr \<Rightarrow> nat set \<Rightarrow> memory \<Rightarrow> memory \<Rightarrow> bool" where
  "arena_frame A F m m' \<longleftrightarrow>
     (\<forall>B. B \<noteq> A \<longrightarrow> arenas m' B = arenas m B) \<and>
     (\<exists>r. arenas m' A = map_option (arena_random_update (\<lambda>_. r)) (arenas m A)) \<and>
     (\<forall>q. q \<noteq> A \<longrightarrow> unat q \<notin> F \<longrightarrow> blocks m' q = blocks m q)"

lemma same_random: "\<exists>r. x = map_option (arena_random_update (\<lambda>_. r)) x"
  by (cases x) (auto intro: exI [of _ "arena_random (the x)"])

lemma arena_frame_refl: "arena_frame A F m m"
  unfolding arena_frame_def using same_random by blast

lemma arena_frame_trans:
  assumes "arena_frame A F m m'" "arena_frame A F m' m''"
  shows "arena_frame A F m m''"
proof -
  have "\<exists>r. arenas m'' A = map_option (arena_random_update (\<lambda>_. r)) (arenas m A)"
    using assms unfolding arena_frame_def by (auto simp: option.map_comp comp_def)
  then show ?thesis using assms unfolding arena_frame_def by auto
qed

lemma arena_frame_mono: "arena_frame A F m m' \<Longrightarrow> F \<subseteq> G \<Longrightarrow> arena_frame A G m m'"
  unfolding arena_frame_def by blast

lemma arena_frame_list:
  assumes "list_frame A S m m'" "\<And>q. q \<in> S \<Longrightarrow> unat q \<in> F"
  shows "arena_frame A F m m'"
  using assms same_random [of "arenas m A"] unfolding arena_frame_def list_frame_def by metis

section \<open>Levels\<close>

lemma assign_levels_Some:
  assumes "arenas m A = Some ar" "min_size ar = 64" "node_ok m f" "64 \<le> unat (sz m f)"
  obtains m' l where "assign_levels A f m = Some m'" "header m' = header m"
    "\<And>q. node_ok m' q = node_ok m q" "nxt m' = nxt m" "lv m' = (lv m)(f := l)" "pages m' = pages m"
    "min_levels (sz m f) 64 \<le> l" "1 \<le> l" "l < kMaxLevel" "40 + 8 * l \<le> unat (sz m f)"
    "arena_frame A {unat f} m m'"
proof -
  obtain x where x: "blocks m f = Some x" "length (al_next x) = kMaxLevel"
    using assms(3) by (auto simp: node_ok_def)
  obtain l r' where l: "skiplist_levels (sz m f) 64 (Some (arena_random ar)) = Some (l, Some r')"
    "min_levels (sz m f) 64 \<le> l" "1 \<le> l" "l < kMaxLevel" "40 + 8 * l \<le> unat (sz m f)"
    by (rule skiplist_levels_Some [of "sz m f" 64 "arena_random ar"]) (use assms(4) in simp_all)
  define m' where "m' = m\<lparr>arenas := (arenas m)(A \<mapsto> ar\<lparr>arena_random := r'\<rparr>),
    blocks := (blocks m)(f \<mapsto> x\<lparr>al_levels := l\<rparr>)\<rparr>"
  show thesis
  proof (rule that [of m' l])
    show "assign_levels A f m = Some m'"
      using x assms(1,2) l(1)
      by (simp add: assign_levels_def upd_block_def m'_def sz_blocks [OF x(1)])
    show "header m' = header m" "nxt m' = nxt m" "lv m' = (lv m)(f := l)" "pages m' = pages m"
      using x by (auto simp: m'_def header_def nxt_def lv_def fun_eq_iff)
    show "node_ok m' q = node_ok m q" for q using x by (auto simp: m'_def node_ok_def)
    show "arena_frame A {unat f} m m'"
      using assms(1) by (auto simp: arena_frame_def m'_def)
  qed (fact l)+
qed

section \<open>Merging adjacent free blocks\<close>

lemma coalesce_merge:
  assumes inv: "skip_inv m A fl" and an: "a \<in> set fl" "n \<in> set fl" "nxt m 0 a = n" "a + sz m a = n"
    and a: "has_magic m A mg a" "64 \<le> unat (sz m a + sz m n)" and distinct: "a \<noteq> n"
    and ar: "arenas m A = Some ar" "min_size ar = 64"
  obtains m' l where "coalesce a m = Some m'" "skip_inv m' A (remove1 n fl)"
    "header m' = (header m)(a \<mapsto> (sz m a + sz m n, Magic mg a, A), n \<mapsto> (sz m n, 0, 0))"
    "lv m' a = l" "min_levels (sz m a + sz m n) 64 \<le> l" "40 + 8 * l \<le> unat (sz m a + sz m n)"
    "\<And>q. q \<noteq> a \<Longrightarrow> q \<noteq> A \<Longrightarrow> lv m' q = lv m q" "pages m' = pages m"
    "arena_frame A (unat ` set fl) m m'" "\<And>q. node_ok m' q = node_ok m q"
proof -
  note I = skip_invD [OF inv]
  obtain x where x: "blocks m a = Some x" "al_size x = sz m a" "al_magic x = Magic mg a" "al_arena x = A"
    using a(1) by (rule has_magicD)
  obtain y where y: "blocks m n = Some y" "length (al_next y) = kMaxLevel"
    using I(6) [OF an(2)] by (auto simp: node_ok_def)
  define m1 where "m1 = m\<lparr>blocks := (blocks m)(a \<mapsto> al_size_update (\<lambda>s. s + al_size y) x)\<rparr>"
  define m2 where "m2 = m1\<lparr>blocks := (blocks m1)(n \<mapsto>
    (al_magic_update (\<lambda>_. 0) \<circ> al_arena_update (\<lambda>_. 0)) y)\<rparr>"
  have upd1: "upd_block a (al_size_update (\<lambda>s. s + al_size y)) m = Some m1"
    by (simp add: upd_block_def m1_def x)
  have upd2: "upd_block n (al_magic_update (\<lambda>_. 0) \<circ> al_arena_update (\<lambda>_. 0)) m1 = Some m2"
    using y(1) distinct by (simp add: upd_block_def m2_def m1_def)
  have m2: "header m2 = (header m)(a \<mapsto> (sz m a + sz m n, Magic mg a, A), n \<mapsto> (sz m n, 0, 0))"
    "nxt m2 = nxt m" "lv m2 = lv m" "arenas m2 = arenas m" "pages m2 = pages m"
    using x y distinct
    by (auto simp: m2_def m1_def header_def nxt_def lv_def fun_eq_iff sz_blocks [OF y(1)])
  have ok2: "node_ok m2 q = node_ok m q" for q
    using x y distinct by (auto simp: m2_def m1_def node_ok_def)
  have frame2: "arena_frame A (unat ` set fl) m m2"
    using same_random [of "arenas m A"] an(1,2) by (auto simp: arena_frame_def m2_def m1_def)
  have inv2: "skip_inv m2 A fl"
    using inv by (rule skip_inv_cong) (simp_all add: ok2 m2)
  obtain m3 p3 m4 p4 where m3: "skiplist_delete A n unset_prev m2 = Some (m3, p3)"
    and m4: "skiplist_delete A a p3 m3 = Some (m4, p4)"
    "skip_inv m4 A (remove1 a (remove1 n fl))" "length p4 = kMaxLevel" "list_frame A (set fl) m2 m4"
    by (rule free_list.delete_two [OF inv2 an(2,1) distinct, of unset_prev]) (simp_all add: unset_prev_def)
  note f4 = list_frameD [OF m4(4)]
  have sz4: "sz m4 a = sz m a + sz m n" using distinct by (simp add: sz_def f4(3) m2(1))
  obtain m5 l where m5: "assign_levels A a m4 = Some m5" "header m5 = header m4"
    "\<And>q. node_ok m5 q = node_ok m4 q" "nxt m5 = nxt m4" "lv m5 = (lv m4)(a := l)" "pages m5 = pages m4"
    "min_levels (sz m4 a) 64 \<le> l" "1 \<le> l" "l < kMaxLevel" "40 + 8 * l \<le> unat (sz m4 a)"
    "arena_frame A {unat a} m4 m5"
    by (rule assign_levels_Some [of m4 A ar a])
      (use ar a(2) I(6) [OF an(1)] in \<open>simp_all add: f4 m2 ok2 sz4\<close>)
  note reins = free_list.insert_back [OF inv2 an(1) distinct]
  have aA: "a \<noteq> A" "a \<noteq> 0" using an(1) I(4,5) by auto
  have inv5: "skip_inv m5 A (remove1 a (remove1 n fl))"
    using m4(2) by (rule skip_inv_cong) (use reins(2) aA in \<open>auto simp: m5\<close>)
  have ok5: "node_ok m5 a" using I(6) [OF an(1)] by (simp add: m5(3) f4 ok2)
  obtain m6 p6 where m6: "skiplist_insert A a p4 m5 = Some (m6, p6)"
    "skip_inv m6 A (insort a (remove1 a (remove1 n fl)))"
    "list_frame A (insert a (set (remove1 a (remove1 n fl)))) m5 m6"
    using free_list.insert_law [OF inv5 _ reins(2) m4(3)] ok5 m5(5,8,9) aA by auto
  note f6 = list_frameD [OF m6(3)]
  have sub: "set (remove1 a (remove1 n fl)) \<subseteq> set fl"
    using set_remove1_subset [of a "remove1 n fl"] set_remove1_subset [of n fl] by (rule subset_trans)
  show thesis
  proof (rule that [of m6 l])
    show "coalesce a m = Some m6"
      using x an(3,4) I(5) an(2) I(6) [OF an(1)] upd1 upd2 m3 m4(1) m5(1) m6(1)
      by (auto simp: coalesce_def get_next_nxt kMaxLevel_def y)
    show "skip_inv m6 A (remove1 n fl)" using m6(2) by (simp only: reins(1))
    show "header m6 = (header m)(a \<mapsto> (sz m a + sz m n, Magic mg a, A), n \<mapsto> (sz m n, 0, 0))"
      by (simp add: f6(3) m5(2) f4(3) m2(1))
    show "lv m6 a = l" using aA by (simp add: f6(5) m5(5))
    show "min_levels (sz m a + sz m n) 64 \<le> l" "40 + 8 * l \<le> unat (sz m a + sz m n)"
      using m5(7,10) by (simp_all add: sz4)
    show "lv m6 q = lv m q" if "q \<noteq> a" "q \<noteq> A" for q using that by (simp add: f6(5) m5(5) f4(5) m2(3))
    show "pages m6 = pages m" by (simp add: f6(2) m5(6) f4(2) m2(5))
    have "arena_frame A (unat ` set fl) m2 m4" using m4(4) by (rule arena_frame_list) simp
    moreover have "arena_frame A (unat ` set fl) m4 m5"
      using m5(11) by (rule arena_frame_mono) (use an(1) in simp)
    moreover have "arena_frame A (unat ` set fl) m5 m6"
      using m6(3) by (rule arena_frame_list) (use an(1) sub in auto)
    ultimately show "arena_frame A (unat ` set fl) m m6"
      using frame2 arena_frame_trans by blast
    show "node_ok m6 q = node_ok m q" for q by (simp add: f6(4) m5(3) f4(4) ok2)
  qed
qed

lemma unat_end: "block_ok m a \<Longrightarrow> unat (a + sz m a) = fin m a"
  unfolding fin_def by (intro unat_add_lem [THEN iffD1]) (simp add: block_ok_def fin_def)

lemma next_block:
  assumes "skip_inv m A fl" "a \<in> set fl"
  obtains "nxt m 0 a = 0" "\<And>b. b \<in> set fl \<Longrightarrow> b \<le> a"
  | n where "nxt m 0 a = n" "n \<in> set fl" "a < n" "\<And>b. b \<in> set fl \<Longrightarrow> a < b \<Longrightarrow> n \<le> b"
proof -
  note I = skip_invD [OF assms(1)]
  obtain us ws where fl: "fl = us @ a # ws" using split_list [OF assms(2)] by blast
  have "links (nxt m 0) A ((us @ [a]) @ ws)"
    using I(9) [of 0, unfolded filter_level_0 [OF assms(1)]] by (simp add: kMaxLevel_def fl)
  from links_next [OF this] have n: "nxt m 0 a = (case ws of [] \<Rightarrow> 0 | w # _ \<Rightarrow> w)" by simp
  have us: "\<And>b. b \<in> set us \<Longrightarrow> b < a" and ws: "\<And>b. b \<in> set ws \<Longrightarrow> a < b" "sorted_wrt (<) ws"
    using I(3) unfolding fl by (auto simp: sorted_wrt_append)
  show thesis
  proof (cases ws)
    case Nil
    then show thesis using n us by (intro that(1)) (auto simp: fl less_imp_le)
  next
    case (Cons w ws')
    then show thesis
      using n us ws by (intro that(2) [of w]) (auto simp: fl less_imp_le dest: less_asym)
  qed
qed

lemma free_bytes_cong:
  "(\<And>a. a \<in> set fl \<Longrightarrow> bytes m' a = bytes m a) \<Longrightarrow> free_bytes m' fl = free_bytes m fl"
  unfolding free_bytes_def by simp

lemma start_in_bytes: "block_ok m a \<Longrightarrow> unat a \<in> bytes m a"
  by (simp add: bytes_def fin_def block_ok_def)

lemma starts_free:
  assumes "arena_inv m A X fl oc"
  shows "unat ` set fl \<subseteq> free_bytes m fl"
proof
  fix i
  assume "i \<in> unat ` set fl"
  then obtain a where "a \<in> set fl" "i = unat a" by blast
  then show "i \<in> free_bytes m fl"
    using arena_invD(5) [OF assms, of a] start_in_bytes unfolding free_bytes_def by blast
qed

lemma no_gap_behind:
  assumes "arena_inv m A X fl oc" "a \<in> set fl" "nxt m 0 a = 0 \<or> a + sz m a \<noteq> nxt m 0 a" "b \<in> set fl"
  shows "fin m a \<noteq> unat b"
proof
  note I = arena_invD [OF assms(1)]
  have ok: "block_ok m a" using I(5) assms(2) by blast
  assume b: "fin m a = unat b"
  then have "unat a < unat b" using ok by (auto simp: fin_def block_ok_def)
  from I(3) assms(2) show False
  proof (cases rule: next_block)
    case 1
    then show False using \<open>unat a < unat b\<close> assms(4) by (fastforce simp: word_le_nat_alt)
  next
    case (2 n)
    then have "unat n \<le> unat b" using assms(4) \<open>unat a < unat b\<close>
      by (simp add: word_less_nat_alt word_le_nat_alt)
    moreover have "fin m a \<le> unat n"
      using I(8) [of a n] assms(2) 2 by (simp add: word_less_nat_alt)
    ultimately have "a + sz m a = n" using b unat_end [OF ok] by (simp add: word_unat_eq_iff)
    moreover have "n \<noteq> 0" using 2(3) by (auto simp: word_less_nat_alt)
    ultimately show False using assms(3) 2(1) by simp
  qed
qed

lemma coalesce_inv:
  assumes inv: "arena_inv m A (insert a X) fl oc" and a: "a \<in> set fl"
    and X: "\<And>p. p \<in> X \<Longrightarrow> p \<in> set fl \<Longrightarrow> unat p \<le> unat a"
  obtains m' fl' where "coalesce a m = Some m'" "arena_inv m' A X fl' oc"
    "free_bytes m' fl' = free_bytes m fl" "a \<in> set fl'" "\<And>p. p \<in> X \<Longrightarrow> p \<in> set fl \<Longrightarrow> p \<in> set fl'"
    "pages m' = pages m" "arena_frame A (free_bytes m fl) m m'"
    "\<And>q. q \<in> set fl \<Longrightarrow> q \<in> set fl' \<or> (\<exists>z. header m' q = Some (z, 0, 0))"
proof -
  note I = arena_invD [OF inv]
  have ok: "node_ok m a" using skip_invD(6) [OF I(3) a] .
  obtain x where x: "blocks m a = Some x" "al_size x = sz m a"
    using I(4) [OF a] unfolding free_block_ok_def by (auto elim: has_magicD)
  have next_a: "get_next m a 0 = Some (nxt m 0 a)"
    using ok by (simp add: get_next_nxt kMaxLevel_def)
  show thesis
  proof (cases "nxt m 0 a = 0 \<or> a + sz m a \<noteq> nxt m 0 a")
    case True
    have "arena_inv m A X fl oc"
    proof (rule arena_invI [OF I(1-4)])
      show "fin m c \<noteq> unat b" if "c \<in> set fl" "c \<notin> X" "b \<in> set fl" for b c
        using that I(10) no_gap_behind [OF inv a True] by (cases "c = a") auto
    qed (use I(5-9,11) in blast)+
    moreover have "coalesce a m = Some m" using True x next_a by (auto simp: coalesce_def)
    ultimately show thesis using a by (intro that [of m fl]) (simp_all add: arena_frame_refl)
  next
    case False
    define n where "n = nxt m 0 a"
    have n: "n \<noteq> 0" "a + sz m a = n" using False by (simp_all add: n_def)
    have succ: "n \<in> set fl" "a < n"
      using next_block [OF I(3) a] n(1) by (metis n_def)+
    then have an: "a \<noteq> n" by auto
    have blk: "block_ok m a" "block_ok m n" using I(5) a succ(1) by blast+
    have end_a: "fin m a = unat n" using unat_end [OF blk(1)] n(2) by simp
    have sum: "unat (sz m a + sz m n) = unat (sz m a) + unat (sz m n)"
      using blk end_a by (intro unat_add_lem [THEN iffD1]) (simp add: block_ok_def fin_def)
    obtain ar where ar: "arenas m A = Some ar" "arena_fields_ok ar" using I(1) by blast
    have magic: "has_magic m A kMagicUnallocated a" using I(4) [OF a] by (simp add: free_block_ok_def)
    have big: "64 \<le> unat (sz m a + sz m n)" using blk(1) by (simp add: sum block_ok_def)
    obtain m' l where m': "coalesce a m = Some m'" "skip_inv m' A (remove1 n fl)"
      "header m' = (header m)(a \<mapsto> (sz m a + sz m n, Magic kMagicUnallocated a, A), n \<mapsto> (sz m n, 0, 0))"
      "lv m' a = l" "min_levels (sz m a + sz m n) 64 \<le> l" "40 + 8 * l \<le> unat (sz m a + sz m n)"
      "\<And>q. q \<noteq> a \<Longrightarrow> q \<noteq> A \<Longrightarrow> lv m' q = lv m q" "pages m' = pages m"
      "arena_frame A (unat ` set fl) m m'" "\<And>q. node_ok m' q = node_ok m q"
      by (rule coalesce_merge [OF I(3) a succ(1) n_def [symmetric] n(2) magic big an ar(1)])
        (use ar(2) in \<open>simp_all add: arena_fields_ok_def\<close>)
    have members: "set (remove1 n fl) = set fl - {n}" using skip_invD(10) [OF I(3)] by simp
    have not_oc: "a \<notin> oc" "n \<notin> oc" using I(9) a succ(1) by blast+
    have nA: "a \<noteq> A" "n \<noteq> A" using head_not_block [OF inv] a succ(1) by blast+
    have same: "header m' q = header m q" if "q \<noteq> a" "q \<noteq> n" for q using that by (simp add: m'(3))
    have sz_a: "sz m' a = sz m a + sz m n" using an by (simp add: sz_def m'(3))
    have end_a': "fin m' a = fin m n"
      using end_a by (simp add: fin_def sz_a sum)
    have bytes_a: "bytes m' a = bytes m a \<union> bytes m n"
      using blk end_a end_a' by (auto simp: bytes_def fin_def block_ok_def)
    have mapped: "mapped m' = mapped m" by (simp add: mapped_def m'(8))
    have ends: "fin m' q = (if q = a then fin m n else fin m q)" if "q \<noteq> n" for q
      using that end_a' extent_header(2) [OF same] by simp
    have bytes_q: "bytes m' q = (if q = a then bytes m a \<union> bytes m n else bytes m q)" if "q \<noteq> n" for q
      using that bytes_a extent_header(3) [OF same] by simp
    have "arena_inv m' A X (remove1 n fl) oc"
    proof (rule arena_invI)
      show "\<exists>ar. arenas m' A = Some ar \<and> arena_fields_ok ar"
        using m'(9) ar by (auto simp: arena_frame_def arena_fields_ok_def)
      show "head_ok m' A" using I(2) nA same [of A] by (simp add: head_ok_def mapped)
      show "free_block_ok m' A c" if "c \<in> set (remove1 n fl)" for c
      proof (cases "c = a")
        case True
        then show ?thesis using m'(3-6) an by (simp add: free_block_ok_def has_magic_def sz_a)
      next
        case False
        then have c: "c \<noteq> n" "c \<noteq> A" "c \<in> set fl"
          using that members head_not_block [OF inv] by auto
        then show ?thesis
          using I(4) [OF c(3)] extent_header [OF same [OF False c(1)]] m'(7) [OF False c(2)]
          by (simp add: free_block_ok_def)
      qed
      show "block_ok m' c \<and> bytes m' c \<subseteq> mapped m' \<and> unat A \<notin> bytes m' c \<and> node_ok m' c"
        if "c \<in> set (remove1 n fl) \<union> oc" for c
      proof (cases "c = a")
        case True
        have "32 dvd unat (sz m a) + unat (sz m n)"
          using blk unfolding block_ok_def dvd_eq_mod_eq_0 [symmetric] by (intro dvd_add) blast+
        then have "block_ok m' a"
          using blk unfolding block_ok_def sz_a sum end_a' dvd_eq_mod_eq_0 by simp
        then show ?thesis using True a succ(1) I(6,7) ok by (auto simp: mapped bytes_a m'(10))
      next
        case False
        have c: "c \<in> set fl \<union> oc" "c \<noteq> n" using that members not_oc by auto
        show ?thesis
          using I(5-7,11) [OF c(1)] extent_header [OF same [OF False c(2)]] by (simp add: mapped m'(10))
      qed
      show "fin m' c \<le> unat b" if cb: "c \<in> set (remove1 n fl) \<union> oc" "b \<in> set (remove1 n fl) \<union> oc"
        "unat c < unat b" for b c
      proof -
        have c: "c \<in> set fl \<union> oc" "c \<noteq> n" and b: "b \<in> set fl \<union> oc" "b \<noteq> n"
          using cb members not_oc by auto
        show ?thesis
        proof (cases "c = a")
          case True
          then have "unat n \<le> unat b" using I(8) [OF c(1) b(1) cb(3)] end_a by simp
          moreover have "unat n \<noteq> unat b" using b(2) by (simp add: word_unat_eq_iff)
          ultimately show ?thesis using I(8) [of n b] succ(1) b(1) True by (simp add: end_a')
        next
          case False
          then show ?thesis using I(8) [OF c(1) b(1) cb(3)] c(2) by (simp add: ends)
        qed
      qed
      show "fin m' c \<noteq> unat b" if cb: "c \<in> set (remove1 n fl)" "c \<notin> X" "b \<in> set (remove1 n fl)" for b c
      proof -
        have "n \<notin> X" using X [of n] succ by (auto simp: word_less_nat_alt)
        then have "fin m n \<noteq> unat b" using I(10) [of n b] succ(1) an cb(3) members by auto
        moreover have "c \<noteq> a \<Longrightarrow> fin m c \<noteq> unat b" using I(10) [of c b] cb members by auto
        ultimately show ?thesis using cb(1) members by (simp add: ends)
      qed
    qed (use m'(2) I(9) members in auto)
    moreover have "free_bytes m' (remove1 n fl) = free_bytes m fl"
    proof -
      have "set fl = insert n (set (remove1 n fl))" using members succ(1) by auto
      then show ?thesis using a an bytes_q members unfolding free_bytes_def by auto
    qed
    moreover have "arena_frame A (free_bytes m fl) m m'"
      using m'(9) by (rule arena_frame_mono) (rule starts_free [OF inv])
    moreover have "p \<in> set (remove1 n fl)" if "p \<in> X" "p \<in> set fl" for p
    proof -
      have "p \<noteq> n" using X [OF that] succ(2) unfolding word_less_nat_alt by auto
      then show ?thesis using that(2) unfolding members by simp
    qed
    moreover have "a \<in> set (remove1 n fl)" using a an members by simp
    moreover have "q \<in> set (remove1 n fl) \<or> (\<exists>z. header m' q = Some (z, 0, 0))" if "q \<in> set fl" for q
      using that unfolding members by (cases "q = n") (simp_all add: m'(3))
    ultimately show thesis using m'(1,8) by (intro that [of m' "remove1 n fl"])
  qed
qed

lemma coalesce_ex:
  assumes "arena_inv m A (insert a X) fl oc" "a \<in> set fl"
    "\<forall>p\<in>X. p \<in> set fl \<longrightarrow> unat p \<le> unat a" "free_bytes m fl = F" "pages m = P"
  shows "\<exists>m' fl'. coalesce a m = Some m' \<and> arena_inv m' A X fl' oc \<and> free_bytes m' fl' = F \<and>
    X \<inter> set fl \<subseteq> set fl' \<and> pages m' = P \<and> arena_frame A F m m' \<and> a \<in> set fl' \<and>
    (\<forall>q\<in>set fl. q \<in> set fl' \<or> (\<exists>z. header m' q = Some (z, 0, 0)))"
proof (rule coalesce_inv [OF assms(1,2)])
  fix m' fl'
  assume m': "coalesce a m = Some m'" "arena_inv m' A X fl' oc" "free_bytes m' fl' = free_bytes m fl"
    "\<And>p. p \<in> X \<Longrightarrow> p \<in> set fl \<Longrightarrow> p \<in> set fl'" "pages m' = pages m"
    "arena_frame A (free_bytes m fl) m m'" "a \<in> set fl'"
    "\<And>q. q \<in> set fl \<Longrightarrow> q \<in> set fl' \<or> (\<exists>z. header m' q = Some (z, 0, 0))"
  have "X \<inter> set fl \<subseteq> set fl'" using m'(4) by blast
  moreover have "\<forall>q\<in>set fl. q \<in> set fl' \<or> (\<exists>z. header m' q = Some (z, 0, 0))" using m'(8) by blast
  ultimately show ?thesis
    using m'(1-3,5-7) unfolding assms(4,5) by (intro exI conjI)
qed (use assms(3) in blast)

section \<open>Adding a block to the free list\<close>

lemma arena_inv_drop:
  assumes "arena_inv m A X fl oc" "X \<inter> set fl = {}"
  shows "arena_inv m A {} fl oc"
  using assms unfolding arena_inv_def by blast

text \<open>The block before \<open>f\<close> in address order, or the head.\<close>

definition pred_of :: "ptr \<Rightarrow> ptr list \<Rightarrow> ptr \<Rightarrow> ptr" where
  "pred_of A fl f = last (A # filter (\<lambda>a. a < f) fl)"

lemma pred_of_cases:
  assumes "sorted_wrt (<) fl"
  obtains "pred_of A fl f = A" "\<And>a. a \<in> set fl \<Longrightarrow> \<not> a < f"
  | "pred_of A fl f \<in> set fl" "pred_of A fl f < f" "\<And>a. a \<in> set fl \<Longrightarrow> a < f \<Longrightarrow> a \<le> pred_of A fl f"
proof (cases "filter (\<lambda>a. a < f) fl = []")
  case True
  then show thesis by (intro that(1)) (simp_all add: pred_of_def filter_empty_conv)
next
  case False
  let ?us = "filter (\<lambda>a. a < f) fl"
  have p: "pred_of A fl f = last ?us" using False by (simp add: pred_of_def)
  have "last ?us \<in> set ?us" using False by (rule last_in_set)
  moreover have "a \<le> last ?us" if "a \<in> set ?us" for a
  proof -
    have "sorted ?us" using assms by (simp add: strict_sorted_iff sorted_wrt_filter)
    moreover have "?us = butlast ?us @ [last ?us]" using False by simp
    ultimately have "sorted (butlast ?us @ [last ?us])" by simp
    then have "\<forall>b\<in>set (butlast ?us). b \<le> last ?us" unfolding sorted_append by simp
    moreover have "a \<in> set (butlast ?us @ [last ?us])" using that False by simp
    ultimately show ?thesis by auto
  qed
  ultimately show thesis by (intro that(2)) (simp_all add: p)
qed

text \<open>The state after the insertion of \<open>f\<close>: only \<open>f\<close> and its predecessor may have a neighbour.\<close>

lemma link_free_block:
  assumes inv: "arena_inv m A {} fl (insert f oc)" and f: "f \<notin> oc" "has_magic m A kMagicAllocated f"
  obtains m1 m2 prev m3 where "assign_levels A f m = Some m1"
    "skiplist_insert A f unset_prev m1 = Some (m2, prev)" "prev ! 0 = pred_of A fl f"
    "upd_block f (al_magic_update (\<lambda>_. Magic kMagicUnallocated f)) m2 = Some m3"
    "arena_inv m3 A {f, pred_of A fl f} (insort f fl) oc"
    "free_bytes m3 (insort f fl) = free_bytes m fl \<union> bytes m f" "pages m3 = pages m"
    "arena_frame A (free_bytes m fl \<union> bytes m f) m m3"
proof -
  note I = arena_invD [OF inv]
  note S = skip_invD [OF I(3)]
  have ff: "f \<notin> set fl" "f \<noteq> A" "f \<noteq> 0"
    using I(9) head_not_block [OF inv, of f] f(2) I(2) I(5) [of f] by (auto simp: block_ok_def)
  have okf: "block_ok m f" "node_ok m f" using I(5,11) by blast+
  obtain ar where ar: "arenas m A = Some ar" "arena_fields_ok ar" using I(1) by blast
  obtain m1 l where m1: "assign_levels A f m = Some m1" "header m1 = header m"
    "\<And>q. node_ok m1 q = node_ok m q" "nxt m1 = nxt m" "lv m1 = (lv m)(f := l)" "pages m1 = pages m"
    "min_levels (sz m f) 64 \<le> l" "1 \<le> l" "l < kMaxLevel" "40 + 8 * l \<le> unat (sz m f)"
    "arena_frame A {unat f} m m1"
    by (rule assign_levels_Some [OF ar(1) _ okf(2)])
      (use ar(2) okf(1) in \<open>simp_all add: arena_fields_ok_def block_ok_def\<close>)
  have inv1: "skip_inv m1 A fl"
    using I(3) by (rule skip_inv_cong) (use ff in \<open>auto simp: m1\<close>)
  obtain m2 prev where m2: "skiplist_insert A f unset_prev m1 = Some (m2, prev)"
    "skip_inv m2 A (insort f fl)" "list_frame A (insert f (set fl)) m1 m2"
    "prev ! 0 = last (A # filter (\<lambda>a. a < f) fl)"
    by (rule skiplist_insert_insort [OF inv1, of f unset_prev])
      (use ff okf m1(8,9) in \<open>simp_all add: m1 unset_prev_def\<close>)
  note f2 = list_frameD [OF m2(3)]
  have "node_ok m2 f" using okf(2) by (simp add: f2(4) m1(3))
  then obtain y where y: "blocks m2 f = Some y" "length (al_next y) = kMaxLevel"
    by (auto simp: node_ok_def)
  have y': "al_size y = sz m f" "al_arena y = A"
    using y(1) f(2) header_blocks [OF y(1)] by (simp_all add: f2(3) m1(2) has_magic_def)
  define m3 where "m3 = m2\<lparr>blocks := (blocks m2)(f \<mapsto> al_magic_update (\<lambda>_. Magic kMagicUnallocated f) y)\<rparr>"
  have m3: "header m3 = (header m)(f \<mapsto> (sz m f, Magic kMagicUnallocated f, A))"
    using y y' f2(3) m1(2) by (auto simp: m3_def header_def fun_eq_iff)
  have m3': "nxt m3 = nxt m2" "lv m3 = lv m2" "pages m3 = pages m" "arenas m3 = arenas m2"
    using y by (auto simp: m3_def nxt_def lv_def fun_eq_iff f2(2) m1(6))
  have ok3: "node_ok m3 q = node_ok m q" for q
    using y f2(4) [of q] m1(3) [of q] by (auto simp: m3_def node_ok_def)
  have lv3: "lv m3 q = (if q = f then l else lv m q)" if "q \<noteq> A" for q
    using that by (simp add: m3' f2(5) m1(5))
  have size: "sz m3 q = sz m q" for q by (auto simp: sz_def m3)
  then have ext: "fin m3 q = fin m q" "bytes m3 q = bytes m q" "block_ok m3 q = block_ok m q" for q
    by (simp_all add: fin_def bytes_def block_ok_def)
  have mapped: "mapped m3 = mapped m" by (simp add: mapped_def m3')
  have set: "set (insort f fl) = insert f (set fl)" by (simp add: set_insort_key)
  have inv3: "skip_inv m3 A (insort f fl)"
    using m2(2) by (rule skip_inv_cong) (simp_all add: ok3 m3' f2(4) m1(3))
  have frame1: "arena_frame A (free_bytes m fl \<union> bytes m f) m m1"
    using m1(11) by (rule arena_frame_mono) (use start_in_bytes [OF okf(1)] in simp)
  have frame2: "arena_frame A (free_bytes m fl \<union> bytes m f) m1 m2"
    using m2(3) by (rule arena_frame_list) (use starts_free [OF inv] start_in_bytes [OF okf(1)] in auto)
  have frame3: "arena_frame A (free_bytes m fl \<union> bytes m f) m2 m3"
    using same_random [of "arenas m2 A"] start_in_bytes [OF okf(1)]
    by (auto simp: arena_frame_def m3_def)
  have frame: "arena_frame A (free_bytes m fl \<union> bytes m f) m m3"
    using arena_frame_trans [OF arena_frame_trans [OF frame1 frame2] frame3] .
  have "arena_inv m3 A {f, pred_of A fl f} (insort f fl) oc"
  proof (rule arena_invI)
    show "\<exists>ar. arenas m3 A = Some ar \<and> arena_fields_ok ar"
      using frame ar by (auto simp: arena_frame_def arena_fields_ok_def)
    show "head_ok m3 A" using I(2) ff by (simp add: head_ok_def mapped m3)
    show "free_block_ok m3 A c" if "c \<in> set (insort f fl)" for c
    proof (cases "c = f")
      case True
      then show ?thesis using m1(7,10) ff(2) by (simp add: free_block_ok_def has_magic_def size m3 lv3)
    next
      case False
      then have c: "c \<in> set fl" "c \<noteq> A" using that head_not_block [OF inv] by (auto simp: set)
      then show ?thesis using I(4) [OF c(1)] False by (simp add: free_block_ok_def has_magic_def size m3 lv3)
    qed
    show "block_ok m3 c \<and> bytes m3 c \<subseteq> mapped m3 \<and> unat A \<notin> bytes m3 c \<and> node_ok m3 c"
      if "c \<in> set (insort f fl) \<union> oc" for c
      using that I(5-7,11) [of c] by (simp add: set ext mapped ok3)
    show "fin m3 c \<le> unat b" if "c \<in> set (insort f fl) \<union> oc" "b \<in> set (insort f fl) \<union> oc" "unat c < unat b"
      for b c using that I(8) [of c b] by (simp add: set ext)
    show "fin m3 c \<noteq> unat b"
      if cb: "c \<in> set (insort f fl)" "c \<notin> {f, pred_of A fl f}" "b \<in> set (insort f fl)" for b c
    proof (cases "b = f")
      case False
      then show ?thesis using I(10) [of c b] cb by (simp add: set ext)
    next
      case True
      have c: "c \<in> set fl" "c \<noteq> f" "c \<noteq> pred_of A fl f" using cb by (simp_all add: set)
      have less: "unat c < fin m c" using I(5) [of c] c(1) by (simp add: fin_def block_ok_def)
      show ?thesis
      proof (cases "c < f")
        case False
        then have "unat f < unat c" using c(2) by (simp add: word_less_nat_alt) (metis word_unat_eq_iff nat_neq_iff)
        then show ?thesis using less True by (simp add: ext)
      next
        case *: True
        have p: "pred_of A fl f \<in> set fl" "pred_of A fl f < f" "c \<le> pred_of A fl f"
          using S(3) * c(1) by (cases rule: pred_of_cases [of fl A f]; blast)+
        then have "unat c < unat (pred_of A fl f)"
          using c(3) by (metis order.not_eq_order_implies_strict word_less_nat_alt)
        then have "fin m c \<le> unat (pred_of A fl f)" using I(8) c(1) p(1) by blast
        then show ?thesis using p(2) True by (simp add: ext word_less_nat_alt)
      qed
    qed
  qed (use inv3 I(9) f(1) set in auto)
  moreover have "free_bytes m3 (insort f fl) = free_bytes m fl \<union> bytes m f"
    unfolding free_bytes_def set ext by auto
  moreover have "upd_block f (al_magic_update (\<lambda>_. Magic kMagicUnallocated f)) m2 = Some m3"
    by (simp add: upd_block_def y m3_def)
  ultimately show thesis
    using that [OF m1(1) m2(1) m2(4) [folded pred_of_def]] m3'(3) frame by blast
qed

text \<open>The head has the size zero and is never merged.\<close>

lemma coalesce_head:
  assumes "arena_inv m A X fl oc"
  shows "coalesce A m = Some m"
proof -
  note I = arena_invD [OF assms]
  note S = skip_invD [OF I(3)]
  obtain x where x: "blocks m A = Some x" "al_size x = 0"
    using I(2) by (auto simp: head_ok_def header_def)
  have "links (nxt m 0) A fl"
    using S(9) [of 0, unfolded filter_level_0 [OF I(3)]] by (simp add: kMaxLevel_def)
  then have "nxt m 0 A = 0 \<or> nxt m 0 A \<in> set fl" by (cases fl) simp_all
  then have "nxt m 0 A = 0 \<or> A \<noteq> nxt m 0 A" using S(4) by auto
  then show ?thesis
    using x S(1) by (auto simp: coalesce_def get_next_nxt kMaxLevel_def)
qed

lemma add_to_freelist_inv:
  assumes inv: "arena_inv m A {} fl (insert f oc)" and f: "f \<notin> oc" "has_magic m A kMagicAllocated f"
  obtains m' fl' where "add_to_freelist (f + header_size) A m = Some m'" "arena_inv m' A {} fl' oc"
    "free_bytes m' fl' = free_bytes m fl \<union> bytes m f" "pages m' = pages m"
    "arena_frame A (free_bytes m fl \<union> bytes m f) m m'"
    "f \<in> set fl' \<or> (\<exists>z. header m' f = Some (z, 0, 0))"
proof -
  let ?F = "free_bytes m fl \<union> bytes m f" and ?p = "pred_of A fl f"
  note S = skip_invD [OF arena_invD(3) [OF inv]]
  obtain x where x: "blocks m f = Some x" "al_magic x = Magic kMagicAllocated f" "al_arena x = A"
    using f(2) by (rule has_magicD)
  obtain m1 m2 prev m3 where m3: "assign_levels A f m = Some m1"
    "skiplist_insert A f unset_prev m1 = Some (m2, prev)" "prev ! 0 = ?p"
    "upd_block f (al_magic_update (\<lambda>_. Magic kMagicUnallocated f)) m2 = Some m3"
    "arena_inv m3 A {f, ?p} (insort f fl) oc" "free_bytes m3 (insort f fl) = ?F" "pages m3 = pages m"
    "arena_frame A ?F m m3"
    using link_free_block [OF inv f] by blast
  have less: "\<forall>p\<in>{?p}. p \<in> set (insort f fl) \<longrightarrow> unat p \<le> unat f"
  proof (intro ballI impI)
    fix p
    assume "p \<in> {?p}" "p \<in> set (insort f fl)"
    then have "p = f \<or> p < f"
      using S(4) by (cases rule: pred_of_cases [OF S(3), of A f]) (auto simp: set_insort_key)
    then show "unat p \<le> unat f" by (auto simp: word_less_nat_alt)
  qed
  have "f \<in> set (insort f fl)" by (simp add: set_insort_key)
  from coalesce_ex [OF m3(5) this less m3(6,7)] obtain m4 fl4 where m4: "coalesce f m3 = Some m4"
    "arena_inv m4 A {?p} fl4 oc" "free_bytes m4 fl4 = ?F" "{?p} \<inter> set (insort f fl) \<subseteq> set fl4"
    "pages m4 = pages m" "arena_frame A ?F m3 m4" "f \<in> set fl4"
    by (elim exE conjE) (rule that)
  have F4: "arena_frame A ?F m m4" using m3(8) m4(6) by (rule arena_frame_trans)
  have add: "add_to_freelist (f + header_size) A m = coalesce ?p m4"
    using x m3(1-4) m4(1) by (simp add: add_to_freelist_def)
  from S(3) show thesis
  proof (cases rule: pred_of_cases [of fl A f])
    case 1
    have "A \<notin> set fl4" using skip_invD(4) [OF arena_invD(3) [OF m4(2)]] .
    then have "arena_inv m4 A {} fl4 oc" using 1 by (intro arena_inv_drop [OF m4(2)]) simp
    then show thesis
      using that [of m4 fl4] add coalesce_head [OF m4(2)] 1 m4(3,5,7) F4 by simp
  next
    case 2
    then have p: "?p \<in> set fl4" using m4(4) by (simp add: set_insort_key)
    from coalesce_ex [OF m4(2) p _ m4(3,5)] obtain m5 fl5 where m5: "coalesce ?p m4 = Some m5"
      "arena_inv m5 A {} fl5 oc" "free_bytes m5 fl5 = ?F" "pages m5 = pages m"
      "arena_frame A ?F m4 m5" "\<forall>q\<in>set fl4. q \<in> set fl5 \<or> (\<exists>z. header m5 q = Some (z, 0, 0))" by auto
    show thesis
      using that [of m5 fl5] add m5(1-4,6) m4(7) arena_frame_trans [OF F4 m5(5)] by simp
  qed
qed

text \<open>The other blocks are not touched.\<close>

lemma frame_blocks:
  assumes "arena_frame A F m m'" "a \<noteq> A" "unat a \<notin> F"
  shows "header m' a = header m a" "blocks m' a = blocks m a"
  using assms by (simp_all add: arena_frame_def header_def)

lemma frame_count:
  "arena_frame A F m m' \<Longrightarrow>
     map_option allocation_count (arenas m' A) = map_option allocation_count (arenas m A)"
  by (auto simp: arena_frame_def option.map_comp comp_def)

section \<open>Free\<close>

lemma arena_inv_arenas:
  assumes "arena_inv m A X fl oc" "arenas m A = Some ar"
  shows "arena_inv (m\<lparr>arenas := (arenas m)(A \<mapsto> ar\<lparr>allocation_count := c\<rparr>)\<rparr>) A X fl oc"
proof -
  let ?m = "m\<lparr>arenas := (arenas m)(A \<mapsto> ar\<lparr>allocation_count := c\<rparr>)\<rparr>"
  have views: "header ?m = header m" "lv ?m = lv m" "node_ok ?m = node_ok m" "nxt ?m = nxt m"
    by (simp_all add: header_def lv_def node_ok_def nxt_def fun_eq_iff)
  have ext: "sz ?m = sz m" "fin ?m = fin m" "bytes ?m = bytes m" "block_ok ?m = block_ok m"
    "has_magic ?m = has_magic m" "mapped ?m = mapped m"
    by (simp_all add: views sz_def fin_def bytes_def block_ok_def has_magic_def mapped_def fun_eq_iff)
  note I = arena_invD [OF assms(1)]
  show ?thesis
  proof (rule arena_invI)
    show "\<exists>ar. arenas ?m A = Some ar \<and> arena_fields_ok ar"
      using I(1) assms(2) by (simp add: arena_fields_ok_def)
    show "head_ok ?m A" using I(2) by (simp add: head_ok_def views ext)
    show "skip_inv ?m A fl" using I(3) by (rule skip_inv_cong) (simp_all add: views)
    show "free_block_ok ?m A a" if "a \<in> set fl" for a
      using I(4) [OF that] by (simp add: free_block_ok_def views ext)
    show "block_ok ?m a \<and> bytes ?m a \<subseteq> mapped ?m \<and> unat A \<notin> bytes ?m a \<and> node_ok ?m a"
      if "a \<in> set fl \<union> oc" for a
      using I(5-7,11) [OF that] by (simp add: views ext)
  qed (unfold views ext, (rule I(8-10); assumption)+)
qed

lemma occupied_outside:
  assumes "arena_inv m A X fl oc" "b \<in> oc"
  shows "unat b \<notin> free_bytes m fl" "f \<in> oc \<Longrightarrow> f \<noteq> b \<Longrightarrow> unat b \<notin> bytes m f"
proof -
  have b: "unat b \<in> bytes m b" using start_in_bytes arena_invD(5) [OF assms(1)] assms(2) by blast
  show "unat b \<notin> free_bytes m fl"
  proof
    assume "unat b \<in> free_bytes m fl"
    then obtain a where a: "a \<in> set fl" "unat b \<in> bytes m a" by (auto simp: free_bytes_def)
    then have "a \<noteq> b" using arena_invD(9) [OF assms(1)] assms(2) by blast
    then show False using blocks_disjoint [OF assms(1), of a b] a assms(2) b by blast
  qed
  show "unat b \<notin> bytes m f" if "f \<in> oc" "f \<noteq> b"
    using blocks_disjoint [OF assms(1), of f b] that assms(2) b by blast
qed

lemma user_address:
  assumes "block_ok m f"
  shows "f + header_size \<noteq> 0" "unat (f + header_size) = unat f + 32"
proof -
  have "unat f + 32 < 2 ^ 64" using assms by (simp add: block_ok_def fin_def)
  then show eq: "unat (f + header_size) = unat f + 32"
    unfolding header_size_def by (subst unat_add_lem [THEN iffD1]) simp_all
  show "f + header_size \<noteq> 0"
  proof
    assume "f + header_size = 0"
    then have "unat (f + header_size) = 0" by simp
    with eq show False by simp
  qed
qed

lemma arena_okD:
  assumes "arena_ok m A fl al"
  shows "arena_inv m A {} fl al" "finite al" "a \<in> al \<Longrightarrow> has_magic m A kMagicAllocated a"
    "map_option allocation_count (arenas m A) = Some (int (card al))"
  using assms unfolding arena_ok_def by blast+

text \<open>Freeing an allocated block adds its bytes to the free ones and changes no other allocated block.\<close>

lemma lla_free_arena:
  assumes ok: "arena_ok m A fl al" and f: "f \<in> al"
  obtains m' fl' where "lla_free (f + header_size) m = Some m'" "arena_ok m' A fl' (al - {f})"
    "free_bytes m' fl' = free_bytes m fl \<union> bytes m f" "pages m' = pages m"
    "\<And>b. b \<in> al - {f} \<Longrightarrow> blocks m' b = blocks m b" "\<And>B. B \<noteq> A \<Longrightarrow> arenas m' B = arenas m B"
    "\<And>q. q \<noteq> A \<Longrightarrow> unat q \<notin> free_bytes m fl \<union> bytes m f \<Longrightarrow> blocks m' q = blocks m q"
    "f \<in> set fl' \<or> (\<exists>z. header m' f = Some (z, 0, 0))"
proof -
  note O = arena_okD [OF ok]
  have al: "insert f (al - {f}) = al" using f by auto
  have inv: "arena_inv m A {} fl (insert f (al - {f}))" using O(1) by (simp only: al)
  obtain x where x: "blocks m f = Some x" "al_arena x = A" using O(3) [OF f] by (rule has_magicD)
  obtain m1 fl' where m1: "add_to_freelist (f + header_size) A m = Some m1"
    "arena_inv m1 A {} fl' (al - {f})" "free_bytes m1 fl' = free_bytes m fl \<union> bytes m f"
    "pages m1 = pages m" "arena_frame A (free_bytes m fl \<union> bytes m f) m m1"
    "f \<in> set fl' \<or> (\<exists>z. header m1 f = Some (z, 0, 0))"
    by (rule add_to_freelist_inv [OF inv _ O(3) [OF f]]) simp_all
  have "map_option allocation_count (arenas m1 A) = Some (int (card al))"
    using frame_count [OF m1(5)] O(4) by simp
  then obtain ar where ar: "arenas m1 A = Some ar" "allocation_count ar = int (card al)" by auto
  have pos: "0 < card al" using O(2) f card_gt_0_iff by blast
  define m' where "m' = m1\<lparr>arenas := (arenas m1)(A \<mapsto> ar\<lparr>allocation_count := allocation_count ar - 1\<rparr>)\<rparr>"
  have inv': "arena_inv m' A {} fl' (al - {f})"
    unfolding m'_def using m1(2) ar(1) by (rule arena_inv_arenas)
  have same: "blocks m' b = blocks m b" if "b \<in> al - {f}" for b
  proof -
    have "b \<noteq> A" using head_not_block [OF inv] that by blast
    moreover have "unat b \<notin> free_bytes m fl \<union> bytes m f"
      using occupied_outside(1) [OF O(1), of b] occupied_outside(2) [OF O(1), of b f] f that by auto
    ultimately show ?thesis using frame_blocks(2) [OF m1(5)] by (simp add: m'_def)
  qed
  have views: "header m' = header m1" by (simp add: m'_def header_def fun_eq_iff)
  have "arena_ok m' A fl' (al - {f})"
    unfolding arena_ok_def
  proof (intro conjI ballI)
    show "has_magic m' A kMagicAllocated b" if "b \<in> al - {f}" for b
    proof -
      have "header m' b = header m b" using same [OF that] by (simp add: header_def)
      then show ?thesis using O(3) [of b] that extent_header(5) by blast
    qed
    show "map_option allocation_count (arenas m' A) = Some (int (card (al - {f})))"
      using ar(2) pos O(2) f by (simp add: m'_def card_Diff_singleton)
  qed (use inv' O(2) in simp_all)
  moreover have "lla_free (f + header_size) m = Some m'"
    using x m1(1) ar pos user_address(1) arena_invD(5) [OF inv, of f]
    by (simp add: lla_free_def m'_def)
  moreover have "free_bytes m' fl' = free_bytes m1 fl'"
    by (rule free_bytes_cong) (rule extent_header(3), simp add: views)
  moreover have "arenas m' B = arenas m B" if "B \<noteq> A" for B
    using m1(5) that by (simp add: m'_def arena_frame_def)
  moreover have "blocks m' q = blocks m q"
    if "q \<noteq> A" "unat q \<notin> free_bytes m fl \<union> bytes m f" for q
    using frame_blocks(2) [OF m1(5) that] by (simp add: m'_def)
  ultimately show thesis
    using same m1(3,4,6) by (intro that [of m' fl']) (simp_all add: m'_def views [unfolded m'_def])
qed

end
