(* ===== verification/Low_Level_Allocation.thy ===== *)
theory Low_Level_Allocation
  imports Low_Level_Correct
begin

text \<open>
  Allocation from an arena: rounding, the first fit, new pages, splitting. The result
  \<open>alloc_with_arena_arena\<close> states what the caller gets; \<open>lla_free_arena\<close> in \<open>Low_Level_Correct\<close> is its
  counterpart.
\<close>

section \<open>Rounding\<close>

lemma unat_and_not_mask:
  fixes w :: u64
  shows "unat (w AND NOT (mask k)) = unat w div 2 ^ k * 2 ^ k"
proof -
  have "w AND NOT (mask k) = push_bit k (drop_bit k w)"
    by (rule bit_eqI) (auto simp: bit_simps)
  moreover have "unat w div 2 ^ k * 2 ^ k < 2 ^ 64"
  proof (rule le_less_trans)
    show "unat w div 2 ^ k * 2 ^ k \<le> unat w" by (rule div_times_less_eq_dividend)
    show "unat w < 2 ^ 64" using unsigned_less [of w] by simp
  qed
  moreover have "unat (push_bit k (drop_bit k w)) = take_bit 64 (unat w div 2 ^ k * 2 ^ k)"
    unfolding unsigned_push_bit_eq unat_drop_bit by (simp add: push_bit_eq_mult)
  ultimately show ?thesis by (simp only: take_bit_nat_eq_self)
qed

lemma checked_add_Some:
  assumes "unat a + unat b < 2 ^ 64"
  shows "checked_add a b = Some (a + b)" "unat (a + b) = unat a + unat b"
proof -
  show eq: "unat (a + b) = unat a + unat b"
    using assms by (intro unat_add_lem [THEN iffD1]) simp
  show "checked_add a b = Some (a + b)" by (simp add: checked_add_def word_le_nat_alt eq)
qed

lemma checked_add_None: "2 ^ 64 \<le> unat a + unat b \<Longrightarrow> checked_add a b = None"
  using no_olen_add_nat [of a b] by (simp add: checked_add_def)

lemma unat_exp: "k \<le> 32 \<Longrightarrow> unat (2 ^ k :: u64) = 2 ^ k"
proof -
  assume "k \<le> 32"
  have "(2::u64) ^ k = of_nat (2 ^ k)" by simp
  moreover have "(2::nat) ^ k < 2 ^ 64" using \<open>k \<le> 32\<close> by (intro power_strict_increasing) simp_all
  ultimately show ?thesis by (simp only: unat_of_nat) (simp add: take_bit_nat_eq_self)
qed

text \<open>\<^verbatim>\<open>RoundUp\<close> gives the least multiple of the alignment that is not below the address.\<close>

lemma round_up_Some:
  assumes "align = 2 ^ k" "k < 64" "unat addr + 2 ^ k \<le> 2 ^ 64"
  obtains r where "round_up addr align = Some r" "unat r = (unat addr + (2 ^ k - 1)) div 2 ^ k * 2 ^ k"
    "unat addr \<le> unat r" "unat r < unat addr + 2 ^ k" "2 ^ k dvd unat r"
proof -
  have mask: "align - 1 = mask k" by (simp add: assms(1) mask_eq_decr_exp)
  have pos: "(0::nat) < 2 ^ k" by simp
  have um: "unat (align - 1) = 2 ^ k - 1"
  proof -
    have "(2::u64) ^ k = of_nat (2 ^ k)" by simp
    moreover have "(2::nat) ^ k < 2 ^ 64" using assms(2) by (intro power_strict_increasing) simp_all
    ultimately have "unat ((2::u64) ^ k) = 2 ^ k"
      by (simp only: unat_of_nat) (simp add: take_bit_nat_eq_self)
    then show ?thesis
      unfolding assms(1) by (subst unat_sub) (simp_all add: word_le_nat_alt)
  qed
  have "unat addr + unat (align - 1) < 2 ^ 64" using assms(3) pos unfolding um by linarith
  note add = checked_add_Some [OF this]
  let ?r = "(addr + (align - 1)) AND NOT (mask k)"
  have r: "unat ?r = (unat addr + (2 ^ k - 1)) div 2 ^ k * 2 ^ k"
    by (simp only: unat_and_not_mask add(2) um)
  have "unat addr + (2 ^ k - 1) = unat ?r + (unat addr + (2 ^ k - 1)) mod 2 ^ k"
    unfolding r by (rule div_mult_mod_eq [symmetric])
  moreover have "(unat addr + (2 ^ k - 1)) mod 2 ^ k < 2 ^ k" by simp
  ultimately have "unat addr \<le> unat ?r" "unat ?r < unat addr + 2 ^ k" using pos by linarith+
  then show thesis
    using r by (intro that [of ?r]) (simp_all add: round_up_def add(1) [unfolded mask] mask)
qed

section \<open>First fit\<close>

definition first_fit :: "memory \<Rightarrow> ptr list \<Rightarrow> u64 \<Rightarrow> ptr" where
  "first_fit m fl req = (case filter (\<lambda>a. req \<le> sz m a) fl of [] \<Rightarrow> 0 | a # _ \<Rightarrow> a)"

lemma Next_Some:
  assumes inv: "arena_inv m A {} fl oc" and i: "i < kMaxLevel" "i < lv m p"
    and p: "p = A \<or> p \<in> set fl" and n: "nxt m i p = n" "n = 0 \<or> n \<in> set fl" "p = A \<or> n = 0 \<or> p < n"
  shows "Next i p A m = Some n"
proof -
  note I = arena_invD [OF inv]
  have "node_ok m p" using p skip_invD(1,6) [OF I(3)] by blast
  then obtain x where x: "blocks m p = Some x" "get_next m p i = Some n"
    using i(1) n(1) by (auto simp: node_ok_def get_next_nxt)
  show ?thesis
  proof (cases "n = 0")
    case True
    then show ?thesis using x i by (simp add: Next_def lv_def)
  next
    case False
    then have nf: "n \<in> set fl" using n(2) by simp
    obtain y where y: "blocks m n = Some y" "al_magic y = Magic kMagicUnallocated n" "al_arena y = A"
      using I(4) [OF nf] unfolding free_block_ok_def by (auto elim: has_magicD)
    have "p < n \<and> p + al_size x < n" if "p \<noteq> A"
    proof -
      have pf: "p \<in> set fl" "p < n" using p n(3) that False by auto
      have "fin m p \<le> unat n" using I(8) [of p n] pf nf by (simp add: word_less_nat_alt)
      moreover have "fin m p \<noteq> unat n" using I(10) [of p n] pf(1) nf by simp
      ultimately show ?thesis
        using pf unat_end [of m p] I(5) [of p] sz_blocks [OF x(1)] by (simp add: word_less_nat_alt)
    qed
    then show ?thesis using x y i by (auto simp: Next_def lv_def)
  qed
qed

lemma find_region_filter:
  assumes inv: "arena_inv m A {} fl oc" and i: "i < kMaxLevel" "i < lv m p"
    and p: "p = A \<or> p \<in> set fl" and links: "links (nxt m i) p as"
    and as: "set as \<subseteq> set fl" "\<And>a. a \<in> set as \<Longrightarrow> i < lv m a" "sorted_wrt (<) as"
      "\<And>a. p = A \<or> (a \<in> set as \<longrightarrow> p < a)"
  shows "find_region i req A m p = Some (case filter (\<lambda>a. req \<le> sz m a) as of [] \<Rightarrow> 0 | a # _ \<Rightarrow> a)"
  using i(2) p links as
proof (induction as arbitrary: p)
  case Nil
  then have "Next i p A m = Some 0" using Next_Some [OF inv i(1), of p 0] by simp
  then show ?case by (subst find_region.simps) simp
next
  case (Cons a as)
  have a: "a \<in> set fl" "a \<noteq> 0"
    using Cons.prems(4) skip_invD(5) [OF arena_invD(3) [OF inv]] by auto
  have "Next i p A m = Some a"
    using Cons.prems a by (intro Next_Some [OF inv i(1)]) auto
  moreover obtain x where "blocks m a = Some x" "al_size x = sz m a"
    using arena_invD(4) [OF inv a(1)] unfolding free_block_ok_def by (auto elim: has_magicD)
  moreover have "find_region i req A m a
      = Some (case filter (\<lambda>a. req \<le> sz m a) as of [] \<Rightarrow> 0 | a # _ \<Rightarrow> a)"
    using Cons.prems a by (intro Cons.IH) auto
  ultimately show ?case using a(2) by (subst find_region.simps) (auto simp: not_le)
qed

lemma region_search:
  assumes inv: "arena_inv m A {} fl oc" and req: "64 \<le> unat req"
  shows "(if min_levels req 64 - 1 < lv m A then find_region (min_levels req 64 - 1) req A m A
     else Some 0) = Some (first_fit m fl req)"
proof -
  note I = arena_invD [OF inv]
  note S = skip_invD [OF I(3)]
  let ?i = "min_levels req 64 - 1"
  have l: "1 \<le> min_levels req 64" "min_levels req 64 < kMaxLevel"
    using clipped_bounds [of req "int_log2 req 64 + 1"] req by (simp_all add: min_levels_def)
  have high: "?i < lv m a" if "a \<in> set fl" "req \<le> sz m a" for a
  proof -
    have "min_levels req 64 \<le> min_levels (sz m a) 64"
      using that(2) by (intro min_levels_mono) (simp add: word_le_nat_alt)
    also have "\<dots> \<le> lv m a" using I(4) [OF that(1)] by (simp add: free_block_ok_def)
    finally show ?thesis using l(1) by simp
  qed
  show ?thesis
  proof (cases "?i < lv m A")
    case False
    then have "filter (\<lambda>a. req \<le> sz m a) fl = []"
      using high S(8) by (fastforce simp: filter_empty_conv)
    then show ?thesis using False by (simp add: first_fit_def)
  next
    case True
    let ?as = "filter (\<lambda>a. ?i < lv m a) fl"
    have "find_region ?i req A m A = Some (case filter (\<lambda>a. req \<le> sz m a) ?as of [] \<Rightarrow> 0 | a # _ \<Rightarrow> a)"
      using l True S(9) [of ?i] sorted_wrt_filter [OF S(3)]
      by (intro find_region_filter [OF inv]) auto
    moreover have "filter (\<lambda>a. req \<le> sz m a) ?as = filter (\<lambda>a. req \<le> sz m a) fl"
      using high by (auto intro: filter_cong)
    ultimately show ?thesis using True by (simp add: first_fit_def)
  qed
qed

section \<open>Occupied blocks\<close>

lemma arena_inv_pages:
  assumes "arena_inv m A X fl oc"
  shows "arena_inv (m\<lparr>pages := pg # pages m\<rparr>) A X fl oc"
proof -
  let ?m = "m\<lparr>pages := pg # pages m\<rparr>"
  have views: "header ?m = header m" "lv ?m = lv m" "node_ok ?m = node_ok m" "nxt ?m = nxt m"
    by (simp_all add: header_def lv_def node_ok_def nxt_def fun_eq_iff)
  have ext: "sz ?m = sz m" "fin ?m = fin m" "bytes ?m = bytes m" "block_ok ?m = block_ok m"
    "has_magic ?m = has_magic m"
    by (simp_all add: views sz_def fin_def bytes_def block_ok_def has_magic_def fun_eq_iff)
  have more: "mapped m \<subseteq> mapped ?m" by (auto simp: mapped_def)
  note I = arena_invD [OF assms]
  show ?thesis
  proof (rule arena_invI)
    show "\<exists>ar. arenas ?m A = Some ar \<and> arena_fields_ok ar" using I(1) by simp
    show "head_ok ?m A" using I(2) more unfolding head_ok_def views by blast
    show "skip_inv ?m A fl" using I(3) by (rule skip_inv_cong) (simp_all add: views)
    show "free_block_ok ?m A a" if "a \<in> set fl" for a
      using I(4) [OF that] by (simp add: free_block_ok_def views ext)
    show "block_ok ?m a \<and> bytes ?m a \<subseteq> mapped ?m \<and> unat A \<notin> bytes ?m a \<and> node_ok ?m a"
      if "a \<in> set fl \<union> oc" for a
      using I(5-7,11) [OF that] more unfolding views ext by blast
  qed (unfold views ext, (rule I(8-10); assumption)+)
qed

text \<open>A block that is neither free nor occupied becomes an occupied one.\<close>

lemma occupy:
  assumes inv: "arena_inv m A {} fl oc"
    and s: "s \<noteq> 0" "unat s mod 32 = 0" "unat n mod 32 = 0" "64 \<le> unat n" "unat s + unat n < 2 ^ 64"
    and range: "{unat s..<unat s + unat n} \<subseteq> mapped m" "unat A \<notin> {unat s..<unat s + unat n}"
      "\<forall>a\<in>set fl \<union> oc. bytes m a \<inter> {unat s..<unat s + unat n} = {}"
  shows "arena_inv (write_header s n A m) A {} fl (insert s oc)"
    "has_magic (write_header s n A m) A kMagicAllocated s"
    "bytes (write_header s n A m) s = {unat s..<unat s + unat n}"
    "\<And>q. q \<noteq> s \<Longrightarrow> blocks (write_header s n A m) q = blocks m q" "s \<notin> set fl \<union> oc" "s \<noteq> A"
proof -
  let ?m = "write_header s n A m"
  note I = arena_invD [OF inv]
  have start: "unat s \<in> {unat s..<unat s + unat n}" using s(4) by simp
  show new: "s \<notin> set fl \<union> oc"
  proof
    assume "s \<in> set fl \<union> oc"
    then show False using range(3) start_in_bytes [OF I(5)] start by blast
  qed
  show sA: "s \<noteq> A" using range(2) start by blast
  have hd: "header ?m s = Some (n, Magic kMagicAllocated s, A)" by (simp add: write_header_def header_def)
  show same: "blocks ?m q = blocks m q" if "q \<noteq> s" for q using that by (simp add: write_header_def)
  have hq: "header ?m q = header m q" if "q \<noteq> s" for q using same [OF that] by (simp add: header_def)
  have szs: "sz ?m s = n" by (simp add: sz_def hd)
  then have fs: "fin ?m s = unat s + unat n" by (simp add: fin_def)
  then show bs: "bytes ?m s = {unat s..<unat s + unat n}" by (simp add: bytes_def)
  show "has_magic ?m A kMagicAllocated s" by (simp add: has_magic_def hd szs)
  have mapped: "mapped ?m = mapped m" by (simp add: mapped_def write_header_def)
  have node: "node_ok ?m q = (q = s \<or> node_ok m q)" for q
    by (auto simp: node_ok_def write_header_def)
  show "arena_inv ?m A {} fl (insert s oc)"
  proof (rule arena_invI)
    show "\<exists>ar. arenas ?m A = Some ar \<and> arena_fields_ok ar" using I(1) by (simp add: write_header_def)
    show "head_ok ?m A" using I(2) hq [of A] sA by (simp add: head_ok_def mapped)
    show "skip_inv ?m A fl"
      using I(3) by (rule skip_inv_local)
        (use new sA in \<open>auto simp: node_ok_def nxt_def lv_def write_header_def\<close>)
    show "free_block_ok ?m A a" if "a \<in> set fl" for a
    proof -
      have "a \<noteq> s" using that new by blast
      then show ?thesis
        using I(4) [OF that] extent_header [OF hq] same by (simp add: free_block_ok_def lv_def)
    qed
    show "block_ok ?m a \<and> bytes ?m a \<subseteq> mapped ?m \<and> unat A \<notin> bytes ?m a \<and> node_ok ?m a"
      if "a \<in> set fl \<union> insert s oc" for a
    proof (cases "a = s")
      case True
      then show ?thesis using s range(1,2) by (simp add: block_ok_def szs fs bs mapped node)
    next
      case False
      then have a: "a \<in> set fl \<union> oc" using that by blast
      show ?thesis using I(5-7,11) [OF a] extent_header [OF hq [OF False]] by (simp add: mapped node)
    qed
    show "fin ?m a \<le> unat b" if ab: "a \<in> set fl \<union> insert s oc" "b \<in> set fl \<union> insert s oc"
      "unat a < unat b" for a b
    proof (cases "a = s \<or> b = s")
      case False
      then show ?thesis using I(8) [of a b] ab extent_header(2) [OF hq [of a]] by auto
    next
      case True
      then consider "a = s" "b \<noteq> s" | "b = s" "a \<noteq> s" using ab(3) by blast
      then show ?thesis
      proof cases
        case 1
        then have b: "b \<in> set fl \<union> oc" using ab(2) by blast
        have "unat b \<notin> {unat s..<unat s + unat n}"
          using range(3) b start_in_bytes [OF I(5) [OF b]] by blast
        then show ?thesis using 1(1) ab(3) by (simp add: fs)
      next
        case 2
        then have a: "a \<in> set fl \<union> oc" using ab(1) by blast
        have "unat s \<notin> bytes m a" using range(3) a start by blast
        then show ?thesis
          using 2 ab(3) extent_header(2) [OF hq [OF 2(2)]] by (simp add: bytes_def)
      qed
    qed
    show "fin ?m a \<noteq> unat b" if "a \<in> set fl" "a \<notin> {}" "b \<in> set fl" for a b
    proof -
      have "a \<noteq> s" using that(1) new by blast
      then show ?thesis using I(10) [OF that] extent_header(2) [OF hq] by simp
    qed
  qed (use I(9) new in auto)
qed

text \<open>The header of an occupied block may change, and its size may shrink.\<close>

lemma occupied_update:
  assumes inv: "arena_inv m A {} fl (insert s oc)" and s: "s \<notin> oc" "blocks m s = Some x"
    and x': "length (al_next x') = length (al_next x)" "unat (al_size x') mod 32 = 0"
      "64 \<le> unat (al_size x')" "unat (al_size x') \<le> unat (sz m s)"
  shows "arena_inv (m\<lparr>blocks := (blocks m)(s \<mapsto> x')\<rparr>) A {} fl (insert s oc)" (is "arena_inv ?m _ _ _ _")
proof -
  note I = arena_invD [OF inv]
  have nf: "s \<notin> set fl" using I(9) by blast
  have sA: "s \<noteq> A" using head_not_block [OF inv, of s] by blast
  have same: "blocks ?m q = blocks m q" if "q \<noteq> s" for q using that by simp
  have hq: "header ?m q = header m q" if "q \<noteq> s" for q using same [OF that] by (simp add: header_def)
  have szs: "sz ?m s = al_size x'" by (simp add: sz_def header_def)
  have fin: "fin ?m q \<le> fin m q" for q
    using x'(4) szs extent_header(2) [OF hq] by (cases "q = s") (simp_all add: fin_def)
  have bytes: "bytes ?m q \<subseteq> bytes m q" for q using fin [of q] by (auto simp: bytes_def)
  have mapped: "mapped ?m = mapped m" by (simp add: mapped_def)
  show ?thesis
  proof (rule arena_invI)
    show "\<exists>ar. arenas ?m A = Some ar \<and> arena_fields_ok ar" using I(1) by simp
    show "head_ok ?m A" using I(2) hq [of A] sA by (simp add: head_ok_def mapped)
    show "skip_inv ?m A fl"
      using I(3) by (rule skip_inv_local) (use nf sA in \<open>auto simp: node_ok_def nxt_def lv_def\<close>)
    show "free_block_ok ?m A a" if "a \<in> set fl" for a
    proof -
      have "a \<noteq> s" using that nf by blast
      then show ?thesis
        using I(4) [OF that] extent_header [OF hq] by (simp add: free_block_ok_def lv_def)
    qed
    show "block_ok ?m a \<and> bytes ?m a \<subseteq> mapped ?m \<and> unat A \<notin> bytes ?m a \<and> node_ok ?m a"
      if a: "a \<in> set fl \<union> insert s oc" for a
    proof -
      have "block_ok ?m a"
      proof (cases "a = s")
        case True
        then show ?thesis using I(5) [OF a] fin [of a] x'(2,3) szs by (simp add: block_ok_def)
      next
        case False
        then show ?thesis using I(5) [OF a] extent_header(4) [OF hq [OF False]] by simp
      qed
      moreover have "node_ok ?m a"
        using I(11) [OF a] s(2) x'(1) by (auto simp: node_ok_def)
      ultimately show ?thesis using I(6,7) [OF a] bytes [of a] unfolding mapped by blast
    qed
    show "fin ?m a \<le> unat b" if "a \<in> set fl \<union> insert s oc" "b \<in> set fl \<union> insert s oc" "unat a < unat b"
      for a b using I(8) [OF that] fin [of a] by (rule order_trans [rotated])
    show "fin ?m a \<noteq> unat b" if "a \<in> set fl" "a \<notin> {}" "b \<in> set fl" for a b
    proof -
      have "a \<noteq> s" using that(1) nf by blast
      then show ?thesis using I(10) [OF that] extent_header(2) [OF hq] by simp
    qed
  qed (use I(9) in auto)
qed

section \<open>New pages\<close>

text \<open>What \<^verbatim>\<open>VirtualAlloc\<close> promises: a range at a multiple of the allocation granularity that is not
  mapped yet.\<close>

definition range_granted :: "(ptr \<times> u64) list \<Rightarrow> ptr \<Rightarrow> u64 \<Rightarrow> bool" where
  "range_granted pgs p n \<longleftrightarrow>
     p \<noteq> 0 \<and> unat p mod 65536 = 0 \<and> unat p + unat n < 2 ^ 64 \<and>
     (\<forall>(q, k)\<in>set pgs. unat q + unat k \<le> unat p \<or> unat p + unat n \<le> unat q)"

lemma range_granted_disjoint:
  "range_granted (pages m) p n \<Longrightarrow> {unat p..<unat p + unat n} \<inter> mapped m = {}"
  unfolding range_granted_def mapped_def by fastforce

text \<open>A run of free bytes lies in one free block, since no two free blocks are adjacent.\<close>

lemma free_run:
  assumes inv: "arena_inv m A {} fl oc" and run: "{p..<p + n} \<subseteq> free_bytes m fl" "0 < n"
  obtains a where "a \<in> set fl" "{p..<p + n} \<subseteq> bytes m a"
proof -
  note I = arena_invD [OF inv]
  have "p \<in> free_bytes m fl" using run by auto
  then obtain a where a: "a \<in> set fl" "p \<in> bytes m a" by (auto simp: free_bytes_def)
  have "p + n \<le> fin m a"
  proof (rule ccontr)
    assume "\<not> p + n \<le> fin m a"
    then have "fin m a \<in> free_bytes m fl" using run(1) a(2) by (auto simp: bytes_def)
    then obtain b where b: "b \<in> set fl" "fin m a \<in> bytes m b" by (auto simp: free_bytes_def)
    have "fin m a \<notin> bytes m a" by (simp add: bytes_def)
    then have ab: "a \<noteq> b" using b(2) by blast
    have "unat a \<noteq> unat b" using ab by (simp add: word_unat_eq_iff)
    then consider "unat a < unat b" | "unat b < unat a" by linarith
    then show False
    proof cases
      case 1
      then have "fin m a \<le> unat b" using I(8) [of a b] a(1) b(1) by blast
      then have "fin m a = unat b" using b(2) by (simp add: bytes_def)
      then show False using I(10) [of a b] a(1) b(1) by simp
    next
      case 2
      then have "fin m b \<le> unat a" using I(8) [of b a] a(1) b(1) by blast
      then show False using b(2) a(2) by (simp add: bytes_def)
    qed
  qed
  then show thesis using a by (intro that [of a]) (auto simp: bytes_def)
qed

lemma map_pages_inv:
  assumes inv: "arena_inv m A {} fl oc" and ar: "arenas m A = Some ar"
    and req: "64 \<le> unat req" "unat req + 16 * unat (pagesize ar) \<le> 2 ^ 64"
    and va: "\<forall>n. round_up req (pagesize ar * 16) = Some n \<longrightarrow> range_granted (pages m) (va (pages m) n) n"
  obtains m' fl' p n where "map_pages va req A m = Some m'" "arena_inv m' A {} fl' oc"
    "pages m' = (p, n) # pages m" "{unat p..<unat p + unat n} \<inter> mapped m = {}"
    "free_bytes m' fl' = free_bytes m fl \<union> {unat p..<unat p + unat n}" "unat req \<le> unat n"
    "\<exists>a\<in>set fl'. req \<le> sz m' a" "arena_frame A (free_bytes m fl \<union> {unat p..<unat p + unat n}) m m'"
proof -
  note I = arena_invD [OF inv]
  obtain k where k: "5 \<le> k" "k \<le> 32" "pagesize ar = 2 ^ k"
    using I(1) ar by (auto simp: arena_fields_ok_def)
  have al: "pagesize ar * 16 = 2 ^ (k + 4)" by (simp add: k(3) power_add)
  have pk: "unat (2 ^ k :: u64) = 2 ^ k" using k(2) by (rule unat_exp)
  have bound: "unat req + 2 ^ (k + 4) \<le> 2 ^ 64" using req(2) by (simp add: k(3) pk power_add mult.commute)
  obtain n where n: "round_up req (pagesize ar * 16) = Some n" "unat req \<le> unat n"
    "2 ^ (k + 4) dvd unat n"
    by (rule round_up_Some [OF al _ bound]) (use k(2) in simp_all)
  have "32 dvd (2::nat) ^ (k + 4)" using k(1) le_imp_power_dvd [of 5 "k + 4" "2::nat"] by simp
  then have n32: "unat n mod 32 = 0" using n(3) dvd_trans by (simp add: dvd_eq_mod_eq_0 [symmetric]) blast
  define p where "p = va (pages m) n"
  let ?R = "{unat p..<unat p + unat n}"
  have p: "range_granted (pages m) p n" using va n(1) by (simp add: p_def)
  then have p': "p \<noteq> 0" "unat p mod 32 = 0" "unat p + unat n < 2 ^ 64"
    using mod_mod_cancel [of 32 65536 "unat p"] by (simp_all add: range_granted_def)
  have disj: "?R \<inter> mapped m = {}" using p by (rule range_granted_disjoint)
  define m0 where "m0 = m\<lparr>pages := (p, n) # pages m\<rparr>"
  have inv0: "arena_inv m0 A {} fl oc" unfolding m0_def using inv by (rule arena_inv_pages)
  have ext0: "bytes m0 = bytes m" by (simp add: m0_def bytes_def fin_def sz_def header_def fun_eq_iff)
  have mapped0: "mapped m0 = mapped m \<union> ?R" by (auto simp: m0_def mapped_def)
  have n64: "64 \<le> unat n" using n(2) req(1) by simp
  have in_pages: "?R \<subseteq> mapped m0" by (simp add: mapped0)
  have head_out: "unat A \<notin> ?R" using I(2) disj by (auto simp: head_ok_def)
  have apart: "\<forall>a\<in>set fl \<union> oc. bytes m0 a \<inter> ?R = {}"
    using I(6) disj unfolding ext0 by blast
  note o = occupy [OF inv0 p'(1,2) n32 n64 p'(3) in_pages head_out apart]
  let ?m1 = "write_header p n A m0"
  have free1: "free_bytes ?m1 fl = free_bytes m fl"
  proof (rule free_bytes_cong)
    fix a
    assume "a \<in> set fl"
    then have "a \<noteq> p" using o(5) by blast
    then have "header ?m1 a = header m a" using o(4) by (simp add: header_def m0_def)
    then show "bytes ?m1 a = bytes m a" by (rule extent_header(3))
  qed
  obtain m' fl' where m': "add_to_freelist (p + header_size) A ?m1 = Some m'" "arena_inv m' A {} fl' oc"
    "free_bytes m' fl' = free_bytes m fl \<union> ?R" "pages m' = pages ?m1"
    "arena_frame A (free_bytes m fl \<union> ?R) ?m1 m'"
    by (rule add_to_freelist_inv [OF o(1) _ o(2), unfolded free1 o(3)], use o(5) in simp, rule that)
  have "?R \<subseteq> free_bytes m' fl'" "0 < unat n" using m'(3) n64 by simp_all
  then obtain a where a: "a \<in> set fl'" "?R \<subseteq> bytes m' a" using free_run [OF m'(2)] by blast
  have "unat n \<le> unat (sz m' a)"
    using a(2) \<open>0 < unat n\<close> by (auto simp: bytes_def fin_def atLeastLessThan_subset_iff)
  then have big: "req \<le> sz m' a" using n(2) by (simp add: word_le_nat_alt)
  have "arena_frame A (free_bytes m fl \<union> ?R) m ?m1"
    using same_random [of "arenas m A"] \<open>0 < unat n\<close>
    by (auto simp: arena_frame_def write_header_def m0_def)
  then have "arena_frame A (free_bytes m fl \<union> ?R) m m'" using m'(5) by (rule arena_frame_trans)
  moreover have "map_pages va req A m = Some m'"
    using m'(1) p'(1) by (simp add: map_pages_def ar n(1) p_def [symmetric] m0_def)
  moreover have "pages m' = (p, n) # pages m" using m'(4) by (simp add: write_header_def m0_def)
  ultimately show thesis using that [of m' fl' p n] m'(2,3) disj n(2) a(1) big by blast
qed

section \<open>The loop\<close>

lemma alloc_loop_step:
  assumes inv: "arena_inv m A {} fl oc" and ar: "arenas m A = Some ar" "min_size ar = 64"
    and req: "64 \<le> unat req"
  shows "alloc_loop va req A m = (if first_fit m fl req \<noteq> 0 then Some (first_fit m fl req, m)
    else Option.bind (map_pages va req A m) (alloc_loop va req A))"
proof -
  obtain h where h: "blocks m A = Some h" "al_levels h = lv m A"
    using skip_invD(1) [OF arena_invD(3) [OF inv]] by (auto simp: node_ok_def lv_def)
  have levels: "skiplist_levels req 64 None = Some (min_levels req 64, None)"
    using req by (intro skiplist_levels_None) simp
  show ?thesis
    using region_search [OF inv req]
    by (subst alloc_loop.simps) (simp add: ar h levels del: One_nat_def)
qed

lemma first_fit_in:
  assumes "first_fit m fl req \<noteq> 0"
  shows "first_fit m fl req \<in> set fl" "req \<le> sz m (first_fit m fl req)"
proof -
  obtain a as where f: "filter (\<lambda>a. req \<le> sz m a) fl = a # as"
    using assms by (cases "filter (\<lambda>a. req \<le> sz m a) fl") (simp_all add: first_fit_def)
  then have "a \<in> set (filter (\<lambda>a. req \<le> sz m a) fl)" by simp
  then have "a \<in> set fl \<and> req \<le> sz m a" by simp
  then show "first_fit m fl req \<in> set fl" "req \<le> sz m (first_fit m fl req)"
    by (simp_all add: first_fit_def f)
qed

lemma first_fit_nonzero:
  assumes "a \<in> set fl" "req \<le> sz m a" "0 \<notin> set fl"
  shows "first_fit m fl req \<noteq> 0"
proof -
  have a: "a \<in> set (filter (\<lambda>a. req \<le> sz m a) fl)" using assms(1,2) by simp
  then obtain b bs where f: "filter (\<lambda>a. req \<le> sz m a) fl = b # bs"
    by (cases "filter (\<lambda>a. req \<le> sz m a) fl") auto
  then have "b \<in> set (filter (\<lambda>a. req \<le> sz m a) fl)" by simp
  then have "b \<in> set fl" by simp
  then show ?thesis using assms(3) by (auto simp: first_fit_def f)
qed

text \<open>\<open>new\<close> are the bytes of the pages that the loop has mapped, if there was no block that is big enough.\<close>

lemma alloc_loop_inv:
  assumes inv: "arena_inv m A {} fl oc" and ar: "arenas m A = Some ar"
    and req: "64 \<le> unat req" "unat req + 16 * unat (pagesize ar) \<le> 2 ^ 64"
    and va: "first_fit m fl req = 0 \<Longrightarrow>
      \<forall>n. round_up req (pagesize ar * 16) = Some n \<longrightarrow> range_granted (pages m) (va (pages m) n) n"
  obtains s m' fl' new where "alloc_loop va req A m = Some (s, m')" "arena_inv m' A {} fl' oc"
    "s \<in> set fl'" "req \<le> sz m' s" "free_bytes m' fl' = free_bytes m fl \<union> new" "new \<inter> mapped m = {}"
    "arena_frame A (free_bytes m fl \<union> new) m m'" "mapped m' = mapped m \<union> new"
    "first_fit m fl req \<noteq> 0 \<Longrightarrow> m' = m \<and> new = {} \<and> s = first_fit m fl req"
    "pages m' = pages m \<or> new \<noteq> {}"
proof -
  have ms: "min_size ar = 64" using arena_invD(1) [OF inv] ar by (auto simp: arena_fields_ok_def)
  note step = alloc_loop_step [OF inv ar ms req(1), of va]
  show thesis
  proof (cases "first_fit m fl req = 0")
    case False
    then show thesis
      using that [of "first_fit m fl req" m fl "{}"] step inv first_fit_in [OF False]
      by (simp add: arena_frame_refl)
  next
    case True
    obtain m1 fl1 p n where m1: "map_pages va req A m = Some m1" "arena_inv m1 A {} fl1 oc"
      "pages m1 = (p, n) # pages m" "{unat p..<unat p + unat n} \<inter> mapped m = {}"
      "free_bytes m1 fl1 = free_bytes m fl \<union> {unat p..<unat p + unat n}" "unat req \<le> unat n"
      "\<exists>a\<in>set fl1. req \<le> sz m1 a"
      "arena_frame A (free_bytes m fl \<union> {unat p..<unat p + unat n}) m m1"
      by (rule map_pages_inv [where va = va, OF inv ar req va [OF True]], rule that)
    obtain ar1 where ar1: "arenas m1 A = Some ar1" "min_size ar1 = 64"
      using arena_invD(1) [OF m1(2)] by (auto simp: arena_fields_ok_def)
    have zero: "0 \<notin> set fl1" by (rule skip_invD(5) [OF arena_invD(3) [OF m1(2)]])
    obtain a where a: "a \<in> set fl1" "req \<le> sz m1 a" using m1(7) by blast
    have fit: "first_fit m1 fl1 req \<noteq> 0" using first_fit_nonzero [OF a zero] .
    have "alloc_loop va req A m = Some (first_fit m1 fl1 req, m1)"
      using step True m1(1) alloc_loop_step [OF m1(2) ar1 req(1), of va] fit by simp
    moreover have "mapped m1 = mapped m \<union> {unat p..<unat p + unat n}"
      by (auto simp: mapped_def m1(3))
    moreover have "{unat p..<unat p + unat n} \<noteq> {}" using m1(6) req(1) by simp
    ultimately show thesis
      using that [of "first_fit m1 fl1 req" m1 fl1 "{unat p..<unat p + unat n}"]
        m1(2,4,5,8) first_fit_in [OF fit] True by blast
  qed
qed

section \<open>Taking a block\<close>

text \<open>The block without its links is an occupied block of the arena.\<close>

lemma unlink_block:
  assumes inv: "arena_inv m A {} fl oc" and s: "s \<in> set fl"
  obtains m' prev where "skiplist_delete A s unset_prev m = Some (m', prev)"
    "arena_inv m' A {} (remove1 s fl) (insert s oc)" "header m' = header m"
    "arena_frame A (free_bytes m fl) m m'" "pages m' = pages m"
proof -
  note I = arena_invD [OF inv]
  obtain m' prev where m': "skiplist_delete A s unset_prev m = Some (m', prev)"
    "skip_inv m' A (remove1 s fl)" "list_frame A (set fl) m m'"
    using free_list.delete_law [OF I(3) s, of unset_prev] by (auto simp: unset_prev_def)
  note f = list_frameD [OF m'(3)]
  have members: "set (remove1 s fl) = set fl - {s}" using skip_invD(10) [OF I(3)] by simp
  have all: "set (remove1 s fl) \<union> insert s oc = set fl \<union> oc" using members s by auto
  have ext: "sz m' = sz m" "fin m' = fin m" "bytes m' = bytes m" "block_ok m' = block_ok m"
    "has_magic m' = has_magic m" "mapped m' = mapped m"
    by (simp_all add: f(2,3) sz_def fin_def bytes_def block_ok_def has_magic_def mapped_def fun_eq_iff)
  have "arena_inv m' A {} (remove1 s fl) (insert s oc)"
  proof (rule arena_invI)
    show "\<exists>ar. arenas m' A = Some ar \<and> arena_fields_ok ar" using I(1) by (simp add: f(1))
    show "head_ok m' A" using I(2) by (simp add: head_ok_def f(3) ext)
    show "free_block_ok m' A a" if "a \<in> set (remove1 s fl)" for a
    proof -
      have a: "a \<in> set fl" using that members by blast
      then have "a \<noteq> A" using skip_invD(4) [OF I(3)] by blast
      then show ?thesis using I(4) [OF a] by (simp add: free_block_ok_def ext f(5))
    qed
    show "block_ok m' a \<and> bytes m' a \<subseteq> mapped m' \<and> unat A \<notin> bytes m' a \<and> node_ok m' a"
      if "a \<in> set (remove1 s fl) \<union> insert s oc" for a
      using that I(5-7,11) [of a] unfolding all by (simp add: ext f(4))
    show "fin m' a \<le> unat b" if "a \<in> set (remove1 s fl) \<union> insert s oc"
      "b \<in> set (remove1 s fl) \<union> insert s oc" "unat a < unat b" for a b
      using that I(8) unfolding all ext by blast
    show "fin m' a \<noteq> unat b" if "a \<in> set (remove1 s fl)" "a \<notin> {}" "b \<in> set (remove1 s fl)" for a b
      using that I(10) [of a b] unfolding members ext by blast
  qed (use m'(2) I(9) members in auto)
  moreover have "arena_frame A (free_bytes m fl) m m'"
    using m'(3) by (rule arena_frame_list) (use starts_free [OF inv] in blast)
  ultimately show thesis using that m'(1) f(2,3) by blast
qed

lemma mod32_add: "(a::nat) mod 32 = 0 \<Longrightarrow> b mod 32 = 0 \<Longrightarrow> (a + b) mod 32 = 0"
  unfolding dvd_eq_mod_eq_0 [symmetric] by (rule dvd_add)

lemma mod32_diff: "(a::nat) mod 32 = 0 \<Longrightarrow> b mod 32 = 0 \<Longrightarrow> (a - b) mod 32 = 0"
  unfolding dvd_eq_mod_eq_0 [symmetric] by (rule dvd_diff_nat)

text \<open>The rest of an occupied block that is bigger than requested becomes free.\<close>

lemma split_block:
  assumes inv: "arena_inv m A {} fl (insert s oc)" and s: "s \<notin> oc"
    and x: "blocks m s = Some x" "al_size x = sz m s"
    and req: "64 \<le> unat req" "unat req mod 32 = 0" "unat req + 64 \<le> unat (sz m s)"
  obtains m2 m' fl' where
    "upd_block s (al_size_update (\<lambda>_. req)) (write_header (req + s) (sz m s - req) A m) = Some m2"
    "add_to_freelist (req + s + header_size) A m2 = Some m'" "arena_inv m' A {} fl' (insert s oc)"
    "blocks m' s = Some (x\<lparr>al_size := req\<rparr>)" "pages m' = pages m"
    "free_bytes m' fl' = free_bytes m fl \<union> {unat s + unat req..<fin m s}"
    "arena_frame A (free_bytes m fl \<union> bytes m s) m m'"
proof -
  note I = arena_invD [OF inv]
  have blk: "block_ok m s" using I(5) by blast
  have sA: "s \<noteq> A" using head_not_block [OF inv, of s] by blast
  define n where "n = req + s"
  define z where "z = sz m s - req"
  have n: "unat n = unat s + unat req"
    unfolding n_def using blk req(3)
    by (subst unat_add_lem [THEN iffD1]) (simp_all add: block_ok_def fin_def)
  have z: "unat z = unat (sz m s) - unat req"
    unfolding z_def using req(3) by (simp add: unat_sub word_le_nat_alt)
  have ends: "unat n + unat z = fin m s" using req(3) by (simp add: n z fin_def)
  let ?R = "{unat n..<unat n + unat z}"
  define m1 where "m1 = m\<lparr>blocks := (blocks m)(s \<mapsto> x\<lparr>al_size := req\<rparr>)\<rparr>"
  have inv1: "arena_inv m1 A {} fl (insert s oc)"
    unfolding m1_def by (rule occupied_update [OF inv s x(1)]) (use req x(2) in simp_all)
  have hq: "header m1 q = header m q" if "q \<noteq> s" for q using that by (simp add: m1_def header_def)
  have bytes1: "bytes m1 s = {unat s..<unat n}"
    by (simp add: bytes_def fin_def sz_def header_def m1_def n)
  have mapped1: "mapped m1 = mapped m" by (simp add: mapped_def m1_def)
  have sub: "?R \<subseteq> bytes m s" using n ends by (auto simp: bytes_def)
  have n0: "n \<noteq> 0" using n req(1) by (auto simp: unat_eq_0)
  have n32: "unat n mod 32 = 0" unfolding n using blk req(2) by (intro mod32_add) (simp_all add: block_ok_def)
  have z32: "unat z mod 32 = 0" unfolding z using blk req(2) by (intro mod32_diff) (simp_all add: block_ok_def)
  have z64: "64 \<le> unat z" using req(3) by (simp add: z)
  have small: "unat n + unat z < 2 ^ 64" unfolding ends using blk by (simp add: block_ok_def)
  have in_pages: "?R \<subseteq> mapped m1" using sub I(6) [of s] unfolding mapped1 by blast
  have head_out: "unat A \<notin> ?R" using sub I(7) [of s] by blast
  have apart: "\<forall>a\<in>set fl \<union> insert s oc. bytes m1 a \<inter> ?R = {}"
  proof
    fix a
    assume a: "a \<in> set fl \<union> insert s oc"
    show "bytes m1 a \<inter> ?R = {}"
    proof (cases "a = s")
      case True
      then show ?thesis by (auto simp: bytes1)
    next
      case False
      then show ?thesis
        using blocks_disjoint [OF inv a, of s] sub extent_header(3) [OF hq [OF False]] by auto
    qed
  qed
  note o = occupy [OF inv1 n0 n32 z32 z64 small in_pages head_out apart]
  let ?m2 = "write_header n z A m1"
  have ns: "n \<noteq> s" using n req(1) by auto
  have free2: "free_bytes ?m2 fl = free_bytes m fl"
  proof (rule free_bytes_cong)
    fix a
    assume "a \<in> set fl"
    then have "a \<noteq> n" "a \<noteq> s" using o(5) I(9) by blast+
    then have "header ?m2 a = header m a" using o(4) [of a] by (simp add: header_def m1_def)
    then show "bytes ?m2 a = bytes m a" by (rule extent_header(3))
  qed
  have "n \<notin> insert s oc" using o(5) by blast
  then obtain m' fl' where m': "add_to_freelist (n + header_size) A ?m2 = Some m'"
    "arena_inv m' A {} fl' (insert s oc)" "free_bytes m' fl' = free_bytes m fl \<union> ?R"
    "pages m' = pages ?m2" "arena_frame A (free_bytes m fl \<union> ?R) ?m2 m'"
    using add_to_freelist_inv [OF o(1) _ o(2)] unfolding free2 o(3) by metis
  have "unat s \<notin> free_bytes m fl \<union> ?R"
    using occupied_outside(1) [OF inv, of s] n req(1) by auto
  then have "blocks m' s = blocks ?m2 s" using frame_blocks(2) [OF m'(5) sA] by blast
  then have s': "blocks m' s = Some (x\<lparr>al_size := req\<rparr>)" using o(4) [of s] ns by (simp add: m1_def)
  have st: "unat s \<in> bytes m s" "unat n \<in> bytes m s"
    using start_in_bytes [OF blk] sub z64 by auto
  have "arena_frame A (free_bytes m fl \<union> bytes m s) m ?m2"
    using same_random [of "arenas m A"] st
    by (auto simp: arena_frame_def write_header_def m1_def)
  moreover have "arena_frame A (free_bytes m fl \<union> bytes m s) ?m2 m'"
    using m'(5) by (rule arena_frame_mono) (use sub in blast)
  ultimately have frame: "arena_frame A (free_bytes m fl \<union> bytes m s) m m'"
    by (rule arena_frame_trans)
  have "upd_block s (al_size_update (\<lambda>_. req)) (write_header n z A m) = Some ?m2"
    using ns x(1) by (simp add: upd_block_def write_header_def m1_def fun_upd_twist)
  then show thesis
    using that [of ?m2 m' fl'] m'(1-4) s' frame unfolding n_def [symmetric] z_def [symmetric] ends
    by (simp add: n write_header_def m1_def)
qed

lemma remove_free_bytes:
  assumes "arena_inv m A {} fl oc" "s \<in> set fl"
  shows "free_bytes m (remove1 s fl) \<union> bytes m s = free_bytes m fl"
proof -
  have "set fl = insert s (set (remove1 s fl))"
    using skip_invD(10) [OF arena_invD(3) [OF assms(1)]] assms(2) by auto
  then show ?thesis unfolding free_bytes_def by auto
qed

lemma take_region_inv:
  assumes inv: "arena_inv m A {} fl oc" and s: "s \<in> set fl" "req \<le> sz m s"
    and req: "64 \<le> unat req" "unat req mod 32 = 0" "unat req + 64 < 2 ^ 64"
  obtains m' fl' where "take_region req A s m = Some m'" "arena_inv m' A {} fl' (insert s oc)"
    "has_magic m' A kMagicAllocated s" "unat req \<le> unat (sz m' s)" "unat (sz m' s) < unat req + 64"
    "free_bytes m' fl' \<union> bytes m' s = free_bytes m fl" "arena_frame A (free_bytes m fl) m m'"
    "pages m' = pages m"
proof -
  note I = arena_invD [OF inv]
  have s': "s \<notin> oc" "s \<noteq> A" using I(9) head_not_block [OF inv] s(1) by blast+
  obtain ar where ar: "arenas m A = Some ar" "min_size ar = 64"
    using I(1) by (auto simp: arena_fields_ok_def)
  obtain m1 prev where m1: "skiplist_delete A s unset_prev m = Some (m1, prev)"
    "arena_inv m1 A {} (remove1 s fl) (insert s oc)" "header m1 = header m"
    "arena_frame A (free_bytes m fl) m m1" "pages m1 = pages m"
    using unlink_block [OF inv s(1)] by blast
  note ext = extent_header [of m1 _ m, OF fun_cong [OF m1(3)]]
  have bytes_s: "bytes m s \<subseteq> free_bytes m fl" using s(1) by (auto simp: free_bytes_def)
  have free1: "free_bytes m1 (remove1 s fl) = free_bytes m (remove1 s fl)"
    by (rule free_bytes_cong) (rule ext(3))
  have "has_magic m1 A kMagicUnallocated s" using I(4) [OF s(1)] ext(5) by (simp add: free_block_ok_def)
  then obtain x where x: "blocks m1 s = Some x" "al_size x = sz m1 s" "al_arena x = A"
    by (rule has_magicD)
  have node: "length (al_next x) = kMaxLevel"
    using arena_invD(11) [OF m1(2), of s] x(1) by (auto simp: node_ok_def)
  have need: "checked_add req (min_size ar) = Some (req + 64)" "unat (req + 64) = unat req + 64"
    using checked_add_Some [of req 64] req(3) by (simp_all add: ar(2))
  define rest where "rest = (if req + 64 \<le> al_size x
    then let n = req + s
         in Option.bind (upd_block s (al_size_update (\<lambda>_. req))
              (write_header n (al_size x - req) A m1)) (\<lambda>m.
            add_to_freelist (n + header_size) A m)
    else Some m1)"
  have "\<exists>m2 fl2 y. rest = Some m2 \<and> arena_inv m2 A {} fl2 (insert s oc) \<and> blocks m2 s = Some y \<and>
    al_arena y = A \<and> length (al_next y) = kMaxLevel \<and> unat req \<le> unat (al_size y) \<and>
    unat (al_size y) < unat req + 64 \<and> free_bytes m2 fl2 \<union> {unat s..<unat s + unat (al_size y)}
      = free_bytes m fl \<and> arena_frame A (free_bytes m fl) m m2 \<and> pages m2 = pages m"
  proof (cases "req + 64 \<le> al_size x")
    case True
    then have big: "unat req + 64 \<le> unat (sz m1 s)" by (simp add: x(2) word_le_nat_alt need(2))
    obtain m2 m3 fl3 where m3:
      "upd_block s (al_size_update (\<lambda>_. req)) (write_header (req + s) (sz m1 s - req) A m1) = Some m2"
      "add_to_freelist (req + s + header_size) A m2 = Some m3" "arena_inv m3 A {} fl3 (insert s oc)"
      "blocks m3 s = Some (x\<lparr>al_size := req\<rparr>)" "pages m3 = pages m1"
      "free_bytes m3 fl3 = free_bytes m (remove1 s fl) \<union> {unat s + unat req..<fin m1 s}"
      "arena_frame A (free_bytes m (remove1 s fl) \<union> bytes m1 s) m1 m3"
      by (rule split_block [OF m1(2) s'(1) x(1,2) req(1,2) big, unfolded free1]) (rule that)
    have "rest = Some m3" using True m3(1,2) by (simp add: rest_def x(2))
    moreover have "free_bytes m3 fl3 \<union> {unat s..<unat s + unat req} = free_bytes m fl"
    proof -
      have "bytes m s = {unat s..<unat s + unat req} \<union> {unat s + unat req..<fin m1 s}"
        using big by (auto simp: bytes_def ext fin_def)
      then show ?thesis using m3(6) remove_free_bytes [OF inv s(1)] by blast
    qed
    moreover have "arena_frame A (free_bytes m fl) m m3"
      using m1(4) m3(7) unfolding ext(3) remove_free_bytes [OF inv s(1)] by (rule arena_frame_trans)
    ultimately show ?thesis using m3(3-5) m1(5) x(3) node
      by (intro exI [of _ m3] exI [of _ fl3] exI [of _ "x\<lparr>al_size := req\<rparr>"]) simp
  next
    case False
    have "unat req \<le> unat (al_size x)" using s(2) by (simp add: x(2) ext(1) word_le_nat_alt)
    moreover have "unat (al_size x) < unat req + 64" using False by (simp add: word_le_nat_alt need(2))
    moreover have "free_bytes m1 (remove1 s fl) \<union> {unat s..<unat s + unat (al_size x)} = free_bytes m fl"
      using remove_free_bytes [OF inv s(1)] by (simp add: free1 x(2) ext(1) bytes_def fin_def)
    ultimately show ?thesis using False m1(2,4,5) x(1,3) node
      by (intro exI [of _ m1] exI [of _ "remove1 s fl"] exI [of _ x]) (simp add: rest_def)
  qed
  then obtain m2 fl2 y where m2: "rest = Some m2" "arena_inv m2 A {} fl2 (insert s oc)"
    "blocks m2 s = Some y" "al_arena y = A" "length (al_next y) = kMaxLevel"
    "unat req \<le> unat (al_size y)" "unat (al_size y) < unat req + 64"
    "free_bytes m2 fl2 \<union> {unat s..<unat s + unat (al_size y)} = free_bytes m fl"
    "arena_frame A (free_bytes m fl) m m2" "pages m2 = pages m" by blast
  define y' where "y' = al_magic_update (\<lambda>_. Magic kMagicAllocated s) y"
  define m' where "m' = m2\<lparr>blocks := (blocks m2)(s \<mapsto> y')\<rparr>"
  have inv': "arena_inv m' A {} fl2 (insert s oc)"
    unfolding m'_def
    by (rule occupied_update [OF m2(2) s'(1) m2(3)])
      (use arena_invD(5) [OF m2(2), of s] sz_blocks [OF m2(3)] in \<open>simp_all add: y'_def block_ok_def\<close>)
  have hd: "header m' s = Some (al_size y, Magic kMagicAllocated s, A)"
    by (simp add: m'_def header_def y'_def m2(4))
  then have szs: "sz m' s = al_size y" by (simp add: sz_def)
  have "free_bytes m' fl2 = free_bytes m2 fl2"
  proof (rule free_bytes_cong)
    fix a
    assume "a \<in> set fl2"
    then have "a \<noteq> s" using arena_invD(9) [OF m2(2)] by blast
    then show "bytes m' a = bytes m2 a" by (intro extent_header(3)) (simp add: m'_def header_def)
  qed
  moreover have "arena_frame A (free_bytes m fl) m2 m'"
    using same_random [of "arenas m2 A"] start_in_bytes [OF I(5)] s(1) bytes_s
    by (auto simp: arena_frame_def m'_def)
  then have "arena_frame A (free_bytes m fl) m m'" using m2(9) arena_frame_trans by blast
  moreover have "take_region req A s m = Some m'"
    by (simp only: take_region_def ar(1) m1(1) x(1) need(1) bind.bind_lunit prod.case
        rest_def [symmetric] m2(1))
      (simp add: upd_block_def m2(3,4) m'_def y'_def)
  moreover have "has_magic m' A kMagicAllocated s" by (simp add: has_magic_def hd szs)
  moreover have "pages m' = pages m" by (simp add: m'_def m2(10))
  ultimately show thesis
    using that [of m' fl2] inv' m2(6-8) by (simp add: szs bytes_def fin_def)
qed

section \<open>Allocation\<close>

text \<open>The bytes that the program may use of a block at the returned address.\<close>

definition user_bytes :: "memory \<Rightarrow> ptr \<Rightarrow> nat set" where
  "user_bytes m s = {unat s + 32..<fin m s}"

text \<open>\<^verbatim>\<open>VirtualAlloc\<close> succeeds if it is called.\<close>

definition request_granted ::
  "((ptr \<times> u64) list \<Rightarrow> u64 \<Rightarrow> ptr) \<Rightarrow> memory \<Rightarrow> ptr list \<Rightarrow> arena \<Rightarrow> u64 \<Rightarrow> bool" where
  "request_granted va m fl ar request \<longleftrightarrow>
     (\<forall>r n. round_up (request + header_size) 32 = Some r \<longrightarrow> first_fit m fl r = 0 \<longrightarrow>
        round_up r (pagesize ar * 16) = Some n \<longrightarrow> range_granted (pages m) (va (pages m) n) n)"

lemma round_request:
  assumes "0 < unat request" "unat request + 63 + k \<le> 2 ^ 64" "512 \<le> k"
  obtains r where "checked_add request header_size = Some (request + header_size)"
    "round_up (request + header_size) 32 = Some r" "unat request + 32 \<le> unat r"
    "unat r < unat request + 64" "64 \<le> unat r" "unat r mod 32 = 0"
proof -
  have h: "unat header_size = 32" by (simp add: header_size_def)
  have add: "checked_add request header_size = Some (request + header_size)"
    "unat (request + header_size) = unat request + 32"
    using checked_add_Some [of request header_size] assms unfolding h by simp_all
  have al: "(32::u64) = 2 ^ 5" by simp
  have le: "unat (request + header_size) + 2 ^ 5 \<le> 2 ^ 64" using assms by (simp add: add(2))
  obtain r where r: "round_up (request + header_size) 32 = Some r"
    "unat (request + header_size) \<le> unat r" "unat r < unat (request + header_size) + 2 ^ 5"
    "2 ^ 5 dvd unat r"
    by (rule round_up_Some [OF al _ le]) (simp, rule that)
  have d: "32 dvd unat r" using r(4) by simp
  have "33 \<le> unat r" using r(2) assms(1) by (simp add: add(2))
  then have "64 \<le> unat r" using d by presburger
  then show thesis
    using that [OF add(1) r(1)] r(2,3) d by (simp add: add(2) dvd_eq_mod_eq_0)
qed

lemma alloc_with_arena_arena:
  assumes ok: "arena_ok m A fl al" and ar: "arenas m A = Some ar"
    and req: "0 < unat request" "unat request + 63 + 16 * unat (pagesize ar) \<le> 2 ^ 64"
    and count: "card al + 1 < 2 ^ 31" and va: "request_granted va m fl ar request"
  obtains s m' fl' new where "alloc_with_arena va request A m = Some (s + header_size, m')"
    "arena_ok m' A fl' (insert s al)" "s \<notin> al"
    "unat request + 32 \<le> unat (sz m' s)" "unat (sz m' s) < unat request + 128"
    "free_bytes m' fl' \<union> bytes m' s = free_bytes m fl \<union> new" "new \<inter> mapped m = {}"
    "mapped m' = mapped m \<union> new" "\<And>b. b \<in> al \<Longrightarrow> blocks m' b = blocks m b"
    "\<And>r. round_up (request + header_size) 32 = Some r \<Longrightarrow> first_fit m fl r \<noteq> 0 \<Longrightarrow>
       new = {} \<and> s = first_fit m fl r"
    "\<And>B. B \<noteq> A \<Longrightarrow> arenas m' B = arenas m B"
    "\<And>q. q \<noteq> A \<Longrightarrow> unat q \<notin> free_bytes m fl \<union> new \<Longrightarrow> blocks m' q = blocks m q"
    "pages m' = pages m \<or> new \<noteq> {}"
proof -
  note O = arena_okD [OF ok]
  note I = arena_invD [OF O(1)]
  obtain k where k: "5 \<le> k" "k \<le> 32" "pagesize ar = 2 ^ k" and ru: "round_up_size ar = 32"
    using I(1) ar by (auto simp: arena_fields_ok_def)
  have pk: "unat (pagesize ar) = 2 ^ k" using k(2) unfolding k(3) by (rule unat_exp)
  have "(2::nat) ^ 5 \<le> 2 ^ k" using k(1) by (intro power_increasing) simp_all
  then have big: "512 \<le> 16 * unat (pagesize ar)" by (simp add: pk)
  obtain r where r: "checked_add request header_size = Some (request + header_size)"
    "round_up (request + header_size) 32 = Some r" "unat request + 32 \<le> unat r"
    "unat r < unat request + 64" "64 \<le> unat r" "unat r mod 32 = 0"
    using round_request [OF req big] by blast
  have fits: "unat r + 16 * unat (pagesize ar) \<le> 2 ^ 64" using r(4) req(2) by linarith
  have granted: "\<forall>n. round_up r (pagesize ar * 16) = Some n \<longrightarrow> range_granted (pages m) (va (pages m) n) n"
    if "first_fit m fl r = 0"
    using va r(2) that unfolding request_granted_def by blast
  obtain s m1 fl1 new where m1: "alloc_loop va r A m = Some (s, m1)" "arena_inv m1 A {} fl1 al"
    "s \<in> set fl1" "r \<le> sz m1 s" "free_bytes m1 fl1 = free_bytes m fl \<union> new" "new \<inter> mapped m = {}"
    "arena_frame A (free_bytes m fl \<union> new) m m1" "mapped m1 = mapped m \<union> new"
    "first_fit m fl r \<noteq> 0 \<Longrightarrow> m1 = m \<and> new = {} \<and> s = first_fit m fl r"
    "pages m1 = pages m \<or> new \<noteq> {}"
    by (rule alloc_loop_inv [where va = va, OF O(1) ar r(5) fits granted], assumption, rule that)
  have r64: "unat r + 64 < 2 ^ 64" using fits big by linarith
  obtain m2 fl2 where m2: "take_region r A s m1 = Some m2" "arena_inv m2 A {} fl2 (insert s al)"
    "has_magic m2 A kMagicAllocated s" "unat r \<le> unat (sz m2 s)" "unat (sz m2 s) < unat r + 64"
    "free_bytes m2 fl2 \<union> bytes m2 s = free_bytes m1 fl1" "arena_frame A (free_bytes m1 fl1) m1 m2"
    "pages m2 = pages m1"
    by (rule take_region_inv [OF m1(2-4) r(5,6) r64])
  have new: "s \<notin> al" using arena_invD(9) [OF m1(2)] m1(3) by blast
  have frame: "arena_frame A (free_bytes m fl \<union> new) m m2"
    using m1(7) m2(7) unfolding m1(5) by (rule arena_frame_trans)
  have "map_option allocation_count (arenas m2 A) = Some (int (card al))"
    using frame_count [OF frame] O(4) by simp
  then obtain ar2 where ar2: "arenas m2 A = Some ar2" "allocation_count ar2 = int (card al)" by auto
  have inc: "inc32 (allocation_count ar2) = Some (int (card al) + 1)"
    using count by (simp add: inc32_def ar2(2))
  define m' where "m' = m2\<lparr>arenas := (arenas m2)(A \<mapsto> ar2\<lparr>allocation_count := int (card al) + 1\<rparr>)\<rparr>"
  have hd: "header m' = header m2" by (simp add: m'_def header_def fun_eq_iff)
  note ext = extent_header [of m' _ m2, OF fun_cong [OF hd]]
  have old: "blocks m' b = blocks m b" if "b \<in> al" for b
  proof -
    have "unat b \<notin> free_bytes m fl" using occupied_outside(1) [OF O(1) that] .
    moreover have "unat b \<in> mapped m" using start_in_bytes [OF I(5)] I(6) that by blast
    then have "unat b \<notin> new" using m1(6) by blast
    moreover have "b \<noteq> A" using head_not_block [OF O(1)] that by blast
    ultimately show ?thesis using frame_blocks(2) [OF frame, of b] by (simp add: m'_def)
  qed
  have ok': "arena_ok m' A fl2 (insert s al)"
    unfolding arena_ok_def
  proof (intro conjI ballI)
    show "arena_inv m' A {} fl2 (insert s al)"
      unfolding m'_def using m2(2) ar2(1) by (rule arena_inv_arenas)
    show "has_magic m' A kMagicAllocated b" if "b \<in> insert s al" for b
    proof (cases "b = s")
      case True
      then show ?thesis using m2(3) ext(5) by simp
    next
      case False
      then have b: "b \<in> al" using that by blast
      have "header m' b = header m b" using old [OF b] by (simp add: header_def)
      then show ?thesis using O(3) [OF b] extent_header(5) by blast
    qed
    show "map_option allocation_count (arenas m' A) = Some (int (card (insert s al)))"
      using new O(2) by (simp add: m'_def)
  qed (use O(2) in simp)
  have "do_alloc_with_arena va request A m = Some (s + header_size, m')"
    using req(1) r(1,2) m1(1) m2(1) inc
    by (auto simp: do_alloc_with_arena_def ar ru count_allocation_def ar2(1) m'_def)
  then have call: "alloc_with_arena va request A m = Some (s + header_size, m')"
    using I(2) by (simp add: alloc_with_arena_def head_ok_def)
  have free: "free_bytes m' fl2 \<union> bytes m' s = free_bytes m fl \<union> new"
    using m2(6) m1(5) free_bytes_cong [of fl2 m' m2, OF ext(3)] by (simp add: ext(3))
  show thesis
  proof (rule that [OF call ok' new _ _ free m1(6) _ old])
    show "unat request + 32 \<le> unat (sz m' s)" "unat (sz m' s) < unat request + 128"
      using m2(4,5) r(3,4) by (simp_all add: ext(1))
    show "mapped m' = mapped m \<union> new" using m1(8) m2(8) by (simp add: m'_def mapped_def)
    show "new = {} \<and> s = first_fit m fl r'" if "round_up (request + header_size) 32 = Some r'"
      "first_fit m fl r' \<noteq> 0" for r' using that r(2) m1(9) by simp
    show "pages m' = pages m \<or> new \<noteq> {}" using m1(10) m2(8) by (simp add: m'_def)
    show "arenas m' B = arenas m B" if "B \<noteq> A" for B
      using frame that by (simp add: m'_def arena_frame_def)
    show "blocks m' q = blocks m q" if "q \<noteq> A" "unat q \<notin> free_bytes m fl \<union> new" for q
      using frame_blocks(2) [OF frame that] by (simp add: m'_def)
  qed
qed

end
