(* ===== verification/Low_Level_Properties.thy ===== *)
theory Low_Level_Properties
  imports Low_Level_Allocation
begin

text \<open>
  Properties of the allocator below the lock graph: what a caller gets, that freeing undoes an
  allocation, that every correct sequence of calls returns and keeps the live blocks apart, and that a
  new arena throws away the default arena.
\<close>

section \<open>A new arena\<close>

definition page_size_ok :: "u64 \<Rightarrow> bool" where
  "page_size_ok ps \<longleftrightarrow> (\<exists>k. 5 \<le> k \<and> k \<le> 32 \<and> ps = 2 ^ k)"

lemma rounded_up_block_size_32: "rounded_up_block_size = 32"
proof -
  have "rounded_up_loop 32 = 32" by (subst rounded_up_loop.simps) (simp add: header_size_def)
  then show ?thesis
    unfolding rounded_up_block_size_def by (subst rounded_up_loop.simps) (simp add: header_size_def)
qed

lemma new_arena_ok:
  assumes "A \<noteq> 0" "unat A \<in> mapped m" "page_size_ok ps"
  shows "arena_ok (construct_arena ps flags A m) A [] {}"
proof -
  let ?m = "construct_arena ps flags A m"
  have "arena_inv ?m A {} [] {}"
  proof (rule arena_invI)
    show "\<exists>ar. arenas ?m A = Some ar \<and> arena_fields_ok ar"
      using assms(3) by (simp add: construct_arena_def new_arena_fields_def arena_fields_ok_def
          rounded_up_block_size_32 page_size_ok_def)
    show "head_ok ?m A"
      using assms(1,2) by (simp add: head_ok_def construct_arena_def header_def mapped_def)
    have "nxt ?m i A = 0" if "i < kMaxLevel" for i
      using that by (simp add: nxt_def construct_arena_def)
    then show "skip_inv ?m A []"
      by (simp add: skip_inv_def node_ok_def lv_def construct_arena_def kMaxLevel_def)
  qed simp_all
  then show ?thesis
    by (simp add: arena_ok_def construct_arena_def new_arena_fields_def)
qed

section \<open>The free blocks as ranges\<close>

definition free_ranges :: "memory \<Rightarrow> ptr list \<Rightarrow> (ptr \<times> u64) list" where
  "free_ranges m fl = map (\<lambda>a. (a, sz m a)) fl"

text \<open>The free bytes determine the free blocks, since adjacent ones have been merged.\<close>

lemma block_in_run:
  assumes "arena_inv m A {} fl oc" "bytes m' a \<subseteq> free_bytes m fl" "block_ok m' a"
  obtains b where "b \<in> set fl" "bytes m' a \<subseteq> bytes m b"
proof -
  have run: "{unat a..<unat a + unat (sz m' a)} = bytes m' a" by (simp add: bytes_def fin_def)
  have "0 < unat (sz m' a)" using assms(3) by (simp add: block_ok_def)
  with assms(2) show thesis
    unfolding run [symmetric] by (rule free_run [OF assms(1)]) (rule that, unfold run)
qed

lemma free_block_of:
  assumes inv: "arena_inv m A {} fl oc" and inv': "arena_inv m' A' {} fl' oc'"
    and eq: "free_bytes m' fl' = free_bytes m fl" and a: "a \<in> set fl"
  shows "a \<in> set fl' \<and> sz m' a = sz m a"
proof -
  have ok: "block_ok m a" using arena_invD(5) [OF inv] a by blast
  have sub: "bytes m a \<subseteq> free_bytes m' fl'" 
    using UN_upper [OF a, of "bytes m"] by (simp only: eq) (simp only: free_bytes_def)
  obtain b where b: "b \<in> set fl'" "bytes m a \<subseteq> bytes m' b"
    by (rule block_in_run [OF inv' sub ok])
  have okb: "block_ok m' b" using arena_invD(5) [OF inv'] b(1) by blast
  have sub': "bytes m' b \<subseteq> free_bytes m fl" 
    using UN_upper [OF b(1), of "bytes m'"] by (simp only: eq [symmetric]) (simp only: free_bytes_def)
  obtain c where c: "c \<in> set fl" "bytes m' b \<subseteq> bytes m c"
    by (rule block_in_run [OF inv sub' okb])
  have "unat a \<in> bytes m a" using ok by (rule start_in_bytes)
  then have "bytes m a \<inter> bytes m c \<noteq> {}" using b(2) c(2) by blast
  then have "a = c" using blocks_disjoint [OF inv, of a c] a c(1) by blast
  then have same: "bytes m' b = bytes m a" using b(2) c(2) by blast
  have "unat a < fin m a" using ok by (simp add: block_ok_def fin_def)
  then have ends: "unat b = unat a" "fin m' b = fin m a"
    using same unfolding bytes_def Ico_eq_Ico by simp_all
  then have "b = a" by (simp add: word_unat_eq_iff)
  moreover from this have "sz m' b = sz m a"
    using ends by (simp add: fin_def word_unat_eq_iff)
  ultimately show ?thesis using b(1) by simp
qed

lemma free_ranges_unique:
  assumes inv: "arena_inv m A {} fl oc" and inv': "arena_inv m' A' {} fl' oc'"
    and eq: "free_bytes m' fl' = free_bytes m fl"
  shows "free_ranges m' fl' = free_ranges m fl"
proof -
  have "set fl = set fl'"
    using free_block_of [OF inv inv' eq] free_block_of [OF inv' inv eq [symmetric]] by blast
  moreover have "sorted fl" "distinct fl" "sorted fl'" "distinct fl'"
    using skip_invD(3) [OF arena_invD(3) [OF inv]] skip_invD(3) [OF arena_invD(3) [OF inv']]
    by (simp_all add: strict_sorted_iff)
  ultimately have "fl' = fl" by (metis sorted_distinct_set_unique)
  then show ?thesis using free_block_of [OF inv inv' eq] by (simp add: free_ranges_def)
qed

section \<open>What a caller gets\<close>

text \<open>The arena of the examples: a page of 64 KiB holds the arena and nothing else.\<close>

definition sample_memory :: memory where
  "sample_memory = construct_arena 65536 0 0x10000
     \<lparr>blocks = Map.empty, arenas = Map.empty, pages = [(0x10000, 0x10000)]\<rparr>"

definition sample_va :: "(ptr \<times> u64) list \<Rightarrow> u64 \<Rightarrow> ptr" where
  "sample_va pgs n = 0x100000"

lemma sample_memory_ok: "arena_ok sample_memory 0x10000 [] {}"
  unfolding sample_memory_def
  by (rule new_arena_ok) (auto simp: mapped_def page_size_ok_def intro: exI [of _ 16])

lemma sample_arena: "arenas sample_memory 0x10000 = Some (new_arena_fields 65536 0)"
  by (simp add: sample_memory_def construct_arena_def)

lemma sample_round: "round_up (100 + header_size) 32 = Some 160" "round_up 160 (65536 * 16) = Some 1048576"
  by (simp_all add: round_up_def checked_add_def header_size_def)

lemma sample_granted: "request_granted sample_va sample_memory [] (new_arena_fields 65536 0) 100"
  using sample_round
  by (auto simp: request_granted_def range_granted_def sample_va_def sample_memory_def
      construct_arena_def new_arena_fields_def)

text \<open>C31: AllocWithArena for a request that does not overflow returns, if VirtualAlloc gives memory
  when it is called, the address behind the header of a block that was not live before: it has room
  for the request and the header and wastes less than 96 further bytes, its bytes were free before or
  are newly mapped, together with the free bytes afterwards they are exactly these bytes, the arena
  keeps its invariant and every other live block is unchanged.\<close>

theorem alloc_gives_block:
  assumes "arena_ok m A fl al" "arenas m A = Some ar"
    and "0 < unat request" "unat request + 63 + 16 * unat (pagesize ar) \<le> 2 ^ 64"
    and "card al + 1 < 2 ^ 31" "request_granted va m fl ar request"
  shows "\<exists>s m' fl' new. alloc_with_arena va request A m = Some (s + header_size, m') \<and>
    arena_ok m' A fl' (insert s al) \<and> s \<notin> al \<and>
    unat request + 32 \<le> unat (sz m' s) \<and> unat (sz m' s) < unat request + 128 \<and>
    free_bytes m' fl' \<union> bytes m' s = free_bytes m fl \<union> new \<and> new \<inter> mapped m = {} \<and>
    (\<forall>b\<in>al. blocks m' b = blocks m b \<and> bytes m' s \<inter> bytes m' b = {})"
proof (rule alloc_with_arena_arena [OF assms])
  fix s m' fl' new
  assume r: "alloc_with_arena va request A m = Some (s + header_size, m')"
    "arena_ok m' A fl' (insert s al)" "s \<notin> al" "unat request + 32 \<le> unat (sz m' s)"
    "unat (sz m' s) < unat request + 128" "free_bytes m' fl' \<union> bytes m' s = free_bytes m fl \<union> new"
    "new \<inter> mapped m = {}" "\<And>b. b \<in> al \<Longrightarrow> blocks m' b = blocks m b"
  have apart: "bytes m' s \<inter> bytes m' b = {}" if "b \<in> al" for b
    using blocks_disjoint [OF arena_okD(1) [OF r(2)], of s b] that r(3) by blast
  show ?thesis
    by (intro exI conjI ballI, rule r(1), rule r(2), rule r(3), rule r(4), rule r(5), rule r(6),
        rule r(7), erule r(8), erule apart)
qed

lemma alloc_gives_block_witness:
  "\<exists>s m' fl' new. alloc_with_arena sample_va 100 0x10000 sample_memory = Some (s + header_size, m') \<and>
    arena_ok m' 0x10000 fl' (insert s {}) \<and> s \<notin> {} \<and>
    unat (100::u64) + 32 \<le> unat (sz m' s) \<and> unat (sz m' s) < unat (100::u64) + 128 \<and>
    free_bytes m' fl' \<union> bytes m' s = free_bytes sample_memory [] \<union> new \<and>
    new \<inter> mapped sample_memory = {} \<and>
    (\<forall>b\<in>{}. blocks m' b = blocks sample_memory b \<and> bytes m' s \<inter> bytes m' b = {})"
  by (rule alloc_gives_block [OF sample_memory_ok sample_arena _ _ _ sample_granted])
    (simp_all add: new_arena_fields_def)

section \<open>Freeing\<close>

text \<open>A block of one page of 64 KiB in the free list of the example arena.\<close>

definition sample_block_memory :: memory where
  "sample_block_memory =
     \<lparr>blocks = [0x10000 \<mapsto> \<lparr>al_size = 0, al_magic = Magic kMagicUnallocated 0x10000,
         al_arena = 0x10000, al_levels = 11, al_next = replicate 11 0x20000 @ replicate 19 0\<rparr>,
         0x20000 \<mapsto> \<lparr>al_size = 0x10000, al_magic = Magic kMagicUnallocated 0x20000,
         al_arena = 0x10000, al_levels = 11, al_next = replicate 30 0\<rparr>],
      arenas = [0x10000 \<mapsto> new_arena_fields 65536 0],
      pages = [(0x20000, 0x10000), (0x10000, 0x10000)]\<rparr>"

lemma sample_levels: "min_levels 0x10000 64 = 11"
proof -
  have "int_log2 0x10000 64 = 10"
    by (simp add: int_log2_def int_log2_loop.simps drop_bit_eq_div)
  then show ?thesis by (simp add: min_levels_def clipped_def kMaxLevel_def)
qed

lemma sample_block_skip: "skip_inv sample_block_memory 0x10000 [0x20000]"
proof -
  have "links (nxt sample_block_memory i) 0x10000 (filter (\<lambda>a. i < lv sample_block_memory a) [0x20000])"
    if "i < 30" for i
    using that by (simp add: nxt_def lv_def sample_block_memory_def nth_append)
  then show ?thesis
    by (simp add: skip_inv_def node_ok_def kMaxLevel_def) (simp add: lv_def sample_block_memory_def)
qed

lemma sample_block_ok: "arena_ok sample_block_memory 0x10000 [0x20000] {}"
proof -
  have h: "header sample_block_memory 0x20000 = Some (0x10000, Magic kMagicUnallocated 0x20000, 0x10000)"
    by (simp add: header_def sample_block_memory_def)
  then have s: "sz sample_block_memory 0x20000 = 0x10000" by (simp add: sz_def)
  have mapped: "mapped sample_block_memory = {0x20000..<0x30000} \<union> {0x10000..<0x20000}"
    by (simp add: mapped_def sample_block_memory_def)
  have lv: "lv sample_block_memory 0x20000 = 11" by (simp add: lv_def sample_block_memory_def)
  have "arena_inv sample_block_memory 0x10000 {} [0x20000] {}"
  proof (rule arena_invI)
    show "\<exists>ar. arenas sample_block_memory 0x10000 = Some ar \<and> arena_fields_ok ar"
      by (auto simp: sample_block_memory_def new_arena_fields_def arena_fields_ok_def
          rounded_up_block_size_32 intro: exI [of _ 16])
    show "head_ok sample_block_memory 0x10000"
      by (simp add: head_ok_def mapped) (simp add: header_def sample_block_memory_def)
    show "free_block_ok sample_block_memory 0x10000 a" if "a \<in> set [0x20000]" for a
      using that by (simp add: free_block_ok_def has_magic_def h s lv sample_levels)
    show "block_ok sample_block_memory a \<and> bytes sample_block_memory a \<subseteq> mapped sample_block_memory \<and>
        unat (0x10000 :: ptr) \<notin> bytes sample_block_memory a \<and> node_ok sample_block_memory a"
      if "a \<in> set [0x20000] \<union> {}" for a
      using that by (auto simp: block_ok_def bytes_def fin_def s mapped)
        (simp add: node_ok_def sample_block_memory_def kMaxLevel_def)
  qed (auto simp: sample_block_skip fin_def s)
  then show ?thesis by (simp add: arena_ok_def sample_block_memory_def new_arena_fields_def)
qed

lemma sample_block_fit: "first_fit sample_block_memory [0x20000] 160 = 0x20000"
  by (simp add: first_fit_def sz_def header_def sample_block_memory_def)

text \<open>C32: Free undoes AllocWithArena. If a free block was big enough, so that no pages were mapped,
  freeing the returned address gives the free blocks back, with the same addresses and sizes, although
  they were split and merged and have got new levels; the live blocks are those before the allocation
  and unchanged.\<close>

theorem free_undoes_alloc:
  assumes "arena_ok m A fl al" "arenas m A = Some ar"
    and "0 < unat request" "unat request + 63 + 16 * unat (pagesize ar) \<le> 2 ^ 64"
    and "card al + 1 < 2 ^ 31"
    and "round_up (request + header_size) 32 = Some r" "first_fit m fl r \<noteq> 0"
  shows "\<exists>v m' m'' fl''. alloc_with_arena va request A m = Some (v, m') \<and> lla_free v m' = Some m'' \<and>
    arena_ok m'' A fl'' al \<and> free_ranges m'' fl'' = free_ranges m fl \<and> pages m'' = pages m \<and>
    (\<forall>b\<in>al. blocks m'' b = blocks m b)"
proof -
  have va: "request_granted va m fl ar request" using assms(6,7) by (simp add: request_granted_def)
  show ?thesis
  proof (rule alloc_with_arena_arena [OF assms(1-5) va])
    fix s m' fl' new
    assume r: "alloc_with_arena va request A m = Some (s + header_size, m')"
      "arena_ok m' A fl' (insert s al)" "s \<notin> al"
      "free_bytes m' fl' \<union> bytes m' s = free_bytes m fl \<union> new"
      "\<And>b. b \<in> al \<Longrightarrow> blocks m' b = blocks m b"
      "\<And>r. round_up (request + header_size) 32 = Some r \<Longrightarrow> first_fit m fl r \<noteq> 0 \<Longrightarrow>
         new = {} \<and> s = first_fit m fl r"
      "pages m' = pages m \<or> new \<noteq> {}"
    have new: "new = {}" using r(6) [OF assms(6,7)] by blast
    have al: "insert s al - {s} = al" using r(3) by blast
    obtain m'' fl'' where f: "lla_free (s + header_size) m' = Some m''" "arena_ok m'' A fl'' (insert s al - {s})"
      "free_bytes m'' fl'' = free_bytes m' fl' \<union> bytes m' s" "pages m'' = pages m'"
      "\<And>b. b \<in> insert s al - {s} \<Longrightarrow> blocks m'' b = blocks m' b"
      by (rule lla_free_arena [OF r(2), of s]) simp_all
    have "free_bytes m'' fl'' = free_bytes m fl" using f(3) r(4) new by simp
    then have ranges: "free_ranges m'' fl'' = free_ranges m fl"
      by (rule free_ranges_unique [OF arena_okD(1) [OF assms(1)] arena_okD(1) [OF f(2)]])
    have pages: "pages m'' = pages m" using f(4) r(7) new by simp
    have same: "blocks m'' b = blocks m b" if "b \<in> al" for b
      using f(5) [of b] r(5) [OF that] that unfolding al by simp
    show ?thesis
      by (intro exI conjI ballI, rule r(1), rule f(1), rule f(2) [unfolded al], rule ranges, rule pages,
          erule same)
  qed
qed

lemma free_undoes_alloc_witness:
  "\<exists>v m' m'' fl''. alloc_with_arena sample_va 100 0x10000 sample_block_memory = Some (v, m') \<and>
    lla_free v m' = Some m'' \<and> arena_ok m'' 0x10000 fl'' {} \<and>
    free_ranges m'' fl'' = free_ranges sample_block_memory [0x20000] \<and>
    pages m'' = pages sample_block_memory \<and> (\<forall>b\<in>{}. blocks m'' b = blocks sample_block_memory b)"
  by (rule free_undoes_alloc [OF sample_block_ok _ _ _ _ sample_round(1),
        where ar = "new_arena_fields 65536 0"])
    (simp_all add: sample_block_fit, simp_all add: sample_block_memory_def new_arena_fields_def)

section \<open>Sequences of calls\<close>

text \<open>A request that does not overflow and for which \<^verbatim>\<open>VirtualAlloc\<close> succeeds.\<close>

definition request_allowed ::
  "((ptr \<times> u64) list \<Rightarrow> u64 \<Rightarrow> ptr) \<Rightarrow> memory \<Rightarrow> arena \<Rightarrow> u64 \<Rightarrow> bool" where
  "request_allowed va m ar request \<longleftrightarrow>
     0 < unat request \<and> unat request + 63 + 16 * unat (pagesize ar) \<le> 2 ^ 64 \<and>
     (\<forall>r n. round_up (request + header_size) 32 = Some r \<longrightarrow> round_up r (pagesize ar * 16) = Some n \<longrightarrow>
        range_granted (pages m) (va (pages m) n) n)"

text \<open>The states of an arena and its live addresses: the program allocates, frees live addresses and
  writes to its blocks, where the links of a free block were.\<close>

inductive arena_reach :: "((ptr \<times> u64) list \<Rightarrow> u64 \<Rightarrow> ptr) \<Rightarrow> ptr \<Rightarrow> memory \<Rightarrow> ptr set \<Rightarrow> bool"
  for va A where
  start: "A \<noteq> 0 \<Longrightarrow> unat A \<in> mapped m \<Longrightarrow> page_size_ok ps \<Longrightarrow>
    arena_reach va A (construct_arena ps flags A m) {}"
| alloc: "arena_reach va A m al \<Longrightarrow> arenas m A = Some ar \<Longrightarrow> request_allowed va m ar request \<Longrightarrow>
    card al + 1 < 2 ^ 31 \<Longrightarrow> alloc_with_arena va request A m = Some (v, m') \<Longrightarrow>
    arena_reach va A m' (insert v al)"
| free: "arena_reach va A m al \<Longrightarrow> v \<in> al \<Longrightarrow> lla_free v m = Some m' \<Longrightarrow>
    arena_reach va A m' (al - {v})"
| fill: "arena_reach va A m al \<Longrightarrow> v \<in> al \<Longrightarrow> blocks m (v - header_size) = Some x \<Longrightarrow>
    length ns = kMaxLevel \<Longrightarrow>
    arena_reach va A (m\<lparr>blocks := (blocks m)(v - header_size \<mapsto> x\<lparr>al_levels := l, al_next := ns\<rparr>)\<rparr>) al"

definition user_addresses :: "ptr set \<Rightarrow> ptr set" where
  "user_addresses bs = (\<lambda>s. s + header_size) ` bs"

lemma user_addresses_simps [simp]:
  "user_addresses {} = {}" "user_addresses (insert s bs) = insert (s + header_size) (user_addresses bs)"
  "v \<in> user_addresses bs \<longleftrightarrow> v - header_size \<in> bs" "card (user_addresses bs) = card bs"
  "user_addresses bs - {v} = user_addresses (bs - {v - header_size})"
proof -
  show "v \<in> user_addresses bs \<longleftrightarrow> v - header_size \<in> bs"
    by (force simp: user_addresses_def image_iff)
  show "card (user_addresses bs) = card bs"
    by (simp add: user_addresses_def card_image)
  show "user_addresses bs - {v} = user_addresses (bs - {v - header_size})"
    by (auto simp: user_addresses_def)
qed (simp_all add: user_addresses_def)

lemma request_allowed_granted:
  "request_allowed va m ar request \<Longrightarrow> request_granted va m fl ar request"
  unfolding request_allowed_def request_granted_def by blast

lemma arena_reach_ok:
  assumes "arena_reach va A m al"
  shows "\<exists>fl bs. arena_ok m A fl bs \<and> al = user_addresses bs"
  using assms
proof induction
  case (start m ps flags)
  then show ?case using new_arena_ok [of A m ps flags] by (intro exI [of _ "[]"] exI [of _ "{}"]) simp
next
  case (alloc m al ar request v m')
  then obtain fl bs where ok: "arena_ok m A fl bs" "al = user_addresses bs" by blast
  have req: "0 < unat request" "unat request + 63 + 16 * unat (pagesize ar) \<le> 2 ^ 64"
    using alloc.hyps(3) by (simp_all add: request_allowed_def)
  have "card bs + 1 < 2 ^ 31" using alloc.hyps(4) ok(2) by simp
  from alloc_with_arena_arena [OF ok(1) alloc.hyps(2) req this request_allowed_granted [OF alloc.hyps(3)]]
  obtain s m1 fl' where "alloc_with_arena va request A m = Some (s + header_size, m1)"
    "arena_ok m1 A fl' (insert s bs)" by metis
  then show ?case
    using alloc.hyps(5) ok(2) by (intro exI [of _ fl'] exI [of _ "insert s bs"]) simp
next
  case (free m al v m')
  then obtain fl bs where ok: "arena_ok m A fl bs" "al = user_addresses bs" by blast
  have s: "v - header_size \<in> bs" using free.hyps(2) ok(2) by simp
  obtain m1 fl' where "lla_free (v - header_size + header_size) m = Some m1"
    "arena_ok m1 A fl' (bs - {v - header_size})"
    by (rule lla_free_arena [OF ok(1) s])
  then show ?case
    using free.hyps(3) ok(2) by (intro exI [of _ fl'] exI [of _ "bs - {v - header_size}"]) simp
next
  case (fill m al v x ns l)
  then obtain fl bs where ok: "arena_ok m A fl bs" "al = user_addresses bs" by blast
  let ?s = "v - header_size" and ?x = "x\<lparr>al_levels := l, al_next := ns\<rparr>"
  let ?m = "m\<lparr>blocks := (blocks m)(?s \<mapsto> ?x)\<rparr>"
  note O = arena_okD [OF ok(1)]
  have s: "?s \<in> bs" using fill.hyps(2) ok(2) by simp
  then have bs: "insert ?s (bs - {?s}) = bs" by blast
  have inv: "arena_inv m A {} fl (insert ?s (bs - {?s}))" using O(1) by (simp only: bs)
  have blk: "block_ok m ?s" "node_ok m ?s" using arena_invD(5,11) [OF O(1), of ?s] s by blast+
  have szx: "sz m ?s = al_size x" using fill.hyps(3) by (rule sz_blocks)
  have "arena_inv ?m A {} fl (insert ?s (bs - {?s}))"
    by (rule occupied_update [OF inv _ fill.hyps(3)])
      (use blk fill.hyps(3,4) in \<open>simp_all add: block_ok_def szx node_ok_def\<close>)
  then have "arena_inv ?m A {} fl bs" by (simp only: bs)
  moreover have hd: "header ?m = header m" using fill.hyps(3) by (auto simp: header_def fun_eq_iff)
  have "has_magic ?m A kMagicAllocated b" if "b \<in> bs" for b
    using O(3) [OF that] extent_header(5) [OF fun_cong [OF hd]] by blast
  ultimately have "arena_ok ?m A fl bs" using O(2,4) by (simp add: arena_ok_def)
  then show ?case using ok(2) by blast
qed

text \<open>C33: In every state that a program reaches from a new arena by allocating, freeing live addresses
  and writing to its blocks, freeing any live address returns, every allowed request is answered with a
  new address, and the blocks of two live addresses are disjoint and lie in mapped memory.\<close>

theorem arena_calls_return:
  assumes "arena_reach va A m al"
  shows "(\<forall>v\<in>al. (\<exists>m'. lla_free v m = Some m') \<and> bytes m (v - header_size) \<subseteq> mapped m) \<and>
    (\<forall>v\<in>al. \<forall>w\<in>al. v \<noteq> w \<longrightarrow> bytes m (v - header_size) \<inter> bytes m (w - header_size) = {}) \<and>
    (\<forall>ar request. arenas m A = Some ar \<longrightarrow> request_allowed va m ar request \<longrightarrow> card al + 1 < 2 ^ 31 \<longrightarrow>
       (\<exists>v m'. alloc_with_arena va request A m = Some (v, m') \<and> v \<noteq> 0 \<and> v \<notin> al))"
proof -
  obtain fl bs where ok: "arena_ok m A fl bs" "al = user_addresses bs"
    using arena_reach_ok [OF assms] by blast
  note I = arena_invD [OF arena_okD(1) [OF ok(1)]]
  show ?thesis
  proof (intro conjI ballI allI impI)
    fix v
    assume "v \<in> al"
    then have s: "v - header_size \<in> bs" using ok(2) by simp
    show "\<exists>m'. lla_free v m = Some m'"
      by (rule lla_free_arena [OF ok(1) s]) simp
    show "bytes m (v - header_size) \<subseteq> mapped m" using I(6) s by blast
  next
    fix v w
    assume "v \<in> al" "w \<in> al" "v \<noteq> w"
    then show "bytes m (v - header_size) \<inter> bytes m (w - header_size) = {}"
      using blocks_disjoint [OF arena_okD(1) [OF ok(1)], of "v - header_size" "w - header_size"] ok(2)
      by simp
  next
    fix ar request
    assume r: "arenas m A = Some ar" "request_allowed va m ar request" "card al + 1 < 2 ^ 31"
    then have r': "0 < unat request" "unat request + 63 + 16 * unat (pagesize ar) \<le> 2 ^ 64"
      "card bs + 1 < 2 ^ 31"
      using ok(2) by (simp_all add: request_allowed_def)
    show "\<exists>v m'. alloc_with_arena va request A m = Some (v, m') \<and> v \<noteq> 0 \<and> v \<notin> al"
    proof (rule alloc_with_arena_arena [OF ok(1) r(1) r' request_allowed_granted [OF r(2)]])
      fix s m' fl'
      assume a: "alloc_with_arena va request A m = Some (s + header_size, m')"
        "arena_ok m' A fl' (insert s bs)" "s \<notin> bs"
      have "block_ok m' s" using arena_invD(5) [OF arena_okD(1) [OF a(2)], of s] by blast
      then have "s + header_size \<noteq> 0" by (rule user_address)
      then show ?thesis using a ok(2) by auto
    qed
  qed
qed

lemma arena_calls_return_witness:
  "\<exists>m v. arena_reach sample_va 0x10000 m {v} \<and> (\<exists>m'. lla_free v m = Some m')"
proof -
  have start: "arena_reach sample_va 0x10000 sample_memory {}"
    unfolding sample_memory_def
    by (rule arena_reach.start) (auto simp: mapped_def page_size_ok_def intro: exI [of _ 16])
  have "request_allowed sample_va sample_memory (new_arena_fields 65536 0) 100"
    using sample_round
    by (auto simp: request_allowed_def range_granted_def sample_va_def sample_memory_def
        construct_arena_def new_arena_fields_def)
  moreover from this obtain v m' where a: "alloc_with_arena sample_va 100 0x10000 sample_memory = Some (v, m')"
    using arena_calls_return [OF start] sample_arena by fastforce
  ultimately have reach: "arena_reach sample_va 0x10000 m' {v}"
    using arena_reach.alloc [OF start sample_arena _ _ a] by simp
  then show ?thesis using arena_calls_return [OF reach] by blast
qed

section \<open>New arenas\<close>

text \<open>C35: Every call of NewArena constructs the default arena anew: the block of the new arena lies in
  pages mapped by this call, whatever free blocks the default arena had, and its count of allocations
  is one afterwards, whatever it was. The new arena is empty and correct.\<close>

theorem new_arena_resets_default:
  assumes "glob \<noteq> 0" "unat glob \<in> mapped m" "page_size_ok ps"
    and "request_allowed va m (new_arena_fields ps 0) arena_size"
  shows "\<exists>A m'. new_arena va ps glob flags m = Some (A, m') \<and> unat A \<notin> mapped m \<and>
    map_option allocation_count (arenas m' glob) = Some 1 \<and> arena_ok m' A [] {}"
proof -
  let ?m = "construct_arena ps 0 glob m" and ?ar = "new_arena_fields ps 0"
  have ok: "arena_ok ?m glob [] {}" using assms(1-3) by (rule new_arena_ok)
  have ar: "arenas ?m glob = Some ?ar" by (simp add: construct_arena_def)
  have pgs: "pages ?m = pages m" by (simp add: construct_arena_def)
  then have mapped: "mapped ?m = mapped m" by (simp add: mapped_def)
  have req: "0 < unat arena_size" "unat arena_size + 63 + 16 * unat (pagesize ?ar) \<le> 2 ^ 64"
    "request_allowed va ?m ?ar arena_size"
    using assms(4) by (simp_all add: request_allowed_def pgs)
  show ?thesis
  proof (rule alloc_with_arena_arena [OF ok ar req(1,2) _ request_allowed_granted [OF req(3)]])
    fix s m' fl' new
    assume r: "alloc_with_arena va arena_size glob ?m = Some (s + header_size, m')"
      "arena_ok m' glob fl' (insert s {})" "unat arena_size + 32 \<le> unat (sz m' s)"
      "free_bytes m' fl' \<union> bytes m' s = free_bytes ?m [] \<union> new" "new \<inter> mapped ?m = {}"
      "mapped m' = mapped ?m \<union> new"
    have blk: "block_ok m' s" using arena_invD(5) [OF arena_okD(1) [OF r(2)], of s] by blast
    have "unat (s + header_size) \<in> bytes m' s"
      using user_address(2) [OF blk] r(3) req(1) by (simp add: bytes_def fin_def)
    then have new: "unat (s + header_size) \<in> new" using r(4) by (auto simp: free_bytes_def)
    then have fresh: "unat (s + header_size) \<notin> mapped m" using r(5) unfolding mapped by blast
    have "arena_ok (construct_arena ps flags (s + header_size) m') (s + header_size) [] {}"
      using user_address(1) [OF blk] new r(6) assms(3) by (intro new_arena_ok) simp_all
    moreover have "new_arena va ps glob flags m
        = Some (s + header_size, construct_arena ps flags (s + header_size) m')"
      by (simp add: new_arena_def unhooked_arena_def create_global_arenas_def r(1))
    moreover have "s + header_size \<noteq> glob" using fresh assms(2) by auto
    then have "map_option allocation_count (arenas (construct_arena ps flags (s + header_size) m') glob)
        = Some 1"
      using arena_okD(4) [OF r(2)] by (simp add: construct_arena_def)
    ultimately show ?thesis using fresh by blast
  qed simp
qed

lemma new_arena_resets_default_witness:
  "\<exists>A m'. new_arena sample_va 65536 0x10000 0 sample_block_memory = Some (A, m') \<and>
    unat A \<notin> mapped sample_block_memory \<and>
    map_option allocation_count (arenas m' 0x10000) = Some 1 \<and> arena_ok m' A [] {}"
proof (rule new_arena_resets_default)
  have "round_up (arena_size + header_size) 32 = Some 352" "round_up 352 (65536 * 16) = Some 1048576"
    by (simp_all add: round_up_def checked_add_def header_size_def arena_size_def)
  then show "request_allowed sample_va sample_block_memory (new_arena_fields 65536 0) arena_size"
    by (auto simp: request_allowed_def range_granted_def sample_va_def sample_block_memory_def
        new_arena_fields_def arena_size_def)
qed (auto simp: mapped_def sample_block_memory_def page_size_ok_def intro: exI [of _ 16])

text \<open>For a block that is big enough for one link LLA_SkiplistLevels returns, with and without the
  random number generator and in any state of it, as its comment says: the level is positive, the
  random one is not smaller than the other one and below kMaxLevel, and the links fit in the block.\<close>

theorem skiplist_levels_bounds:
  assumes "48 \<le> unat size_of"
  shows "\<exists>l0 l r'. skiplist_levels size_of base None = Some (l0, None) \<and>
    skiplist_levels size_of base (Some r) = Some (l, Some r') \<and> 0 < l0 \<and> l0 \<le> l \<and> l < kMaxLevel \<and>
    40 + 8 * l \<le> unat size_of"
proof (rule skiplist_levels_Some [OF assms, of base r])
  fix l r'
  assume r: "skiplist_levels size_of base (Some r) = Some (l, Some r')" "min_levels size_of base \<le> l"
    "l < kMaxLevel" "40 + 8 * l \<le> unat size_of"
  have "1 \<le> min_levels size_of base"
    unfolding min_levels_def using assms by (intro clipped_bounds) simp_all
  then show ?thesis using r skiplist_levels_None [OF assms, of base] by auto
qed

lemma skiplist_levels_bounds_witness:
  "\<exists>l0 l r'. skiplist_levels 96 64 None = Some (l0, None) \<and>
    skiplist_levels 96 64 (Some 0) = Some (l, Some r') \<and> 0 < l0 \<and> l0 \<le> l \<and> l < kMaxLevel \<and>
    40 + 8 * l \<le> unat (96 :: u64)"
  by (rule skiplist_levels_bounds) simp

end
