(* ===== verification/Low_Level_Release.thy ===== *)
theory Low_Level_Release
  imports Low_Level_Properties
begin

text \<open>
  The allocator in the Release build, where the asserts of \<^verbatim>\<open>Free\<close> and \<^verbatim>\<open>AddToFreelist\<close> are not compiled:
  calls that pass the asserts do the same, and a second free of a block damages the free list. The
  asserts of the functions they call are kept in the model; none of them fails in what follows.
\<close>

section \<open>Free without its asserts\<close>

definition add_to_freelist_release :: "ptr \<Rightarrow> ptr \<Rightarrow> memory \<Rightarrow> memory option" where
  "add_to_freelist_release v A m =
     (let f = v - header_size
      in Option.bind (assign_levels A f m) (\<lambda>m.
         Option.bind (skiplist_insert A f unset_prev m) (\<lambda>(m, prev).
         Option.bind (upd_block f (al_magic_update (\<lambda>_. Magic kMagicUnallocated f)) m) (\<lambda>m.
         Option.bind (coalesce f m) (\<lambda>m.
         coalesce (prev ! 0) m)))))"

text \<open>The counter is an \<^verbatim>\<open>int32_t\<close> that may become negative here.\<close>

definition lla_free_release :: "ptr \<Rightarrow> memory \<Rightarrow> memory option" where
  "lla_free_release v m =
     (if v = 0 then Some m
      else Option.bind (blocks m (v - header_size)) (\<lambda>f.
        let A = al_arena f
        in Option.bind (add_to_freelist_release v A m) (\<lambda>m.
           Option.bind (arenas m A) (\<lambda>ar.
             if - (2 ^ 31) < allocation_count ar
             then Some (m\<lparr>arenas := (arenas m)(A \<mapsto> ar\<lparr>allocation_count := allocation_count ar - 1\<rparr>)\<rparr>)
             else None))))"

text \<open>What the first assert of \<^verbatim>\<open>AddToFreelist\<close> compares.\<close>

definition allocated_magic :: "ptr \<Rightarrow> memory \<Rightarrow> bool" where
  "allocated_magic v m =
     (case blocks m (v - header_size) of None \<Rightarrow> False
      | Some x \<Rightarrow> al_magic x = Magic kMagicAllocated (v - header_size))"

lemma add_to_freelist_release:
  "add_to_freelist v A m = Some m' \<Longrightarrow> add_to_freelist_release v A m = Some m'"
  by (auto simp: add_to_freelist_def add_to_freelist_release_def Let_def bind_eq_Some_conv split: if_splits)

lemma lla_free_release:
  assumes "lla_free v m = Some m'"
  shows "lla_free_release v m = Some m'"
proof (cases "v = 0")
  case False
  then obtain f m1 ar where "blocks m (v - header_size) = Some f" "add_to_freelist v (al_arena f) m = Some m1"
    "arenas m1 (al_arena f) = Some ar" "0 < allocation_count ar"
    "m' = m1\<lparr>arenas := (arenas m1)(al_arena f \<mapsto> ar\<lparr>allocation_count := allocation_count ar - 1\<rparr>)\<rparr>"
    using assms by (auto simp: lla_free_def Let_def bind_eq_Some_conv split: if_splits)
  then show ?thesis using False add_to_freelist_release by (simp add: lla_free_release_def)
qed (use assms in \<open>simp add: lla_free_def lla_free_release_def\<close>)

section \<open>Searching for a block that is on the list\<close>

text \<open>The search reads the links, not the levels of the blocks.\<close>

lemma skip_forward_same:
  assumes "skip_forward m i e p = Some r" "get_next m' = get_next m"
  shows "skip_forward m' i e p = Some r"
proof -
  have "get_next m' = get_next m \<longrightarrow> skip_forward m' i e p = Some r"
  proof (rule skip_forward.raw_induct [where
      P = "\<lambda>m i e p r. get_next m' = get_next m \<longrightarrow> skip_forward m' i e p = Some r", OF _ assms(1)], rule impI)
    fix rec m i e p r
    assume ih: "\<And>m i e p r. rec m i e p = Some r \<Longrightarrow> get_next m' = get_next m \<longrightarrow> skip_forward m' i e p = Some r"
      and step: "Option.bind (get_next m p i) (\<lambda>n. if n \<noteq> 0 \<and> n < e then rec m i e n else Some p) = Some r"
      and same: "get_next m' = get_next m"
    obtain n where n: "get_next m p i = Some n" "(if n \<noteq> 0 \<and> n < e then rec m i e n else Some p) = Some r"
      using step by (auto simp: bind_eq_Some_conv)
    show "skip_forward m' i e p = Some r"
    proof (cases "n \<noteq> 0 \<and> n < e")
      case True
      then have "rec m i e n = Some r" using n(2) by simp
      from ih [OF this] have "skip_forward m' i e n = Some r" using same by blast
      then show ?thesis using True n(1) same by (subst skip_forward.simps) simp
    next
      case False
      have "Some p = Some r" using n(2) False by (simp only: if_False)
      moreover have "get_next m' p i = Some n" using n(1) same by simp
      ultimately show ?thesis
        using False by (subst skip_forward.simps) (simp only: Option.bind.simps if_False)
    qed
  qed
  then show ?thesis using assms(2) by blast
qed

lemma search_levels_same:
  assumes "get_next m' = get_next m"
  shows "search_levels m e l p prev = Some prev' \<Longrightarrow> search_levels m' e l p prev = Some prev'"
proof (induction l arbitrary: p prev)
  case (Suc l)
  then obtain q where "skip_forward m l e p = Some q" "search_levels m e l q (prev[l := q]) = Some prev'"
    by (auto simp: bind_eq_Some_conv)
  then show ?case using Suc.IH skip_forward_same [OF _ assms] by simp
qed simp

lemma skiplist_search_same:
  assumes "skiplist_search m A e prev = Some r" "get_next m' = get_next m" "blocks m' A = blocks m A"
  shows "skiplist_search m' A e prev = Some r"
proof -
  obtain h prev' where "blocks m A = Some h" "search_levels m e (al_levels h) A prev = Some prev'"
    "(if al_levels h = 0 then Some (0, prev') else map_option (\<lambda>n. (n, prev')) (get_next m (prev' ! 0) 0)) = Some r"
    using assms(1) by (auto simp: skiplist_search_def bind_eq_Some_conv)
  then show ?thesis
    using search_levels_same [OF assms(2)] assms(2,3) by (simp add: skiplist_search_def split: if_splits)
qed

lemma first_from_member:
  assumes "sorted_wrt (<) fl" "e \<in> set fl"
  shows "first_from fl e = e"
proof -
  obtain us ws where fl: "fl = us @ e # ws" using split_list [OF assms(2)] by blast
  then have "\<forall>u\<in>set us. u < e" using assms(1) by (auto simp: sorted_wrt_append)
  then have "filter (\<lambda>a. \<not> a < e) us = []" by (auto simp: filter_empty_conv)
  then show ?thesis by (simp add: first_from_def fl)
qed

text \<open>Inserting a block that is already linked makes it its own successor.\<close>

lemma insert_linked:
  assumes inv: "skip_inv m A fl" and f: "f \<in> set fl" and same: "get_next m1 = get_next m" "nxt m1 = nxt m"
    "blocks m1 A = blocks m A" "\<And>q. node_ok m1 q = node_ok m q" and l: "1 \<le> lv m1 f" "lv m1 f < kMaxLevel"
  obtains m2 prev where "skiplist_insert A f unset_prev m1 = Some (m2, prev)" "header m2 = header m1"
    "arenas m2 = arenas m1" "prev ! 0 \<in> insert A (set fl)" "prev ! 0 \<noteq> f"
    "\<And>q. node_ok m2 q = node_ok m q" "nxt m2 0 f = f" "nxt m2 0 (prev ! 0) = f"
proof -
  note S = skip_invD [OF inv]
  have ne: "f \<noteq> A" "f \<noteq> 0" using f S(4,5) by auto
  have top: "0 < lv m A" using S(7,8) [OF f] by simp
  obtain h where h: "blocks m A = Some h" "al_levels h = lv m A"
    using S(1) by (auto simp: node_ok_def lv_def)
  obtain x where x: "blocks m1 f = Some x" "al_levels x = lv m1 f"
    using S(6) [OF f] same(4) [of f] by (auto simp: node_ok_def lv_def)
  have "length unset_prev = kMaxLevel" by (simp add: unset_prev_def)
  then obtain prev where prev: "skiplist_search m A f unset_prev = Some (f, prev)"
    "length prev = kMaxLevel" "\<And>i. i < lv m A \<Longrightarrow> prev ! i = pred_at m A fl i f"
    using skiplist_search_prev [OF inv, where prev = unset_prev and e = f] unfolding first_from_member [OF S(3) f] by blast
  have pred: "pred_at m A fl i f \<in> insert A (set fl)" "pred_at m A fl i f \<noteq> f" for i
    using pred_at_in pred_at_neq [OF ne(1)] by blast+
  have "get_next m (prev ! 0) 0 = Some f"
    using prev(1) h top by (auto simp: skiplist_search_def bind_eq_Some_conv)
  moreover have "node_ok m (prev ! 0)" using prev(3) [OF top] pred_at_ok [OF inv] by simp
  ultimately have before: "nxt m 0 (prev ! 0) = f" by (simp add: get_next_nxt kMaxLevel_def)
  obtain l' prev' where ext: "extend_prev (lv m1 f) (lv m A) A prev = (l', prev')" by fastforce
  have ext': "length prev' = kMaxLevel"
    "\<And>i. i < kMaxLevel \<Longrightarrow> prev' ! i = (if lv m A \<le> i \<and> i < lv m1 f then A else prev ! i)"
    using extend_prev_head [where n = "lv m1 f" and prev = prev and l = "lv m A" and head = A] prev(2) l(2) unfolding ext by simp_all
  have zero: "prev' ! 0 = prev ! 0" using ext'(2) [of 0] top by (simp add: kMaxLevel_def)
  obtain m2 where m2: "upd_block A (al_levels_update (\<lambda>_. l')) m1 = Some m2" "list_frame A {} m1 m2"
    "nxt m2 = nxt m1"
    by (rule set_levels [of m1 A l']) (use same(4) S(1) in simp_all)
  let ?S = "insert A (set fl)"
  have ok2: "node_ok m2 q = node_ok m q" for q using list_frameD(4) [OF m2(2)] same(4) by simp
  have all: "node_ok m2 (prev' ! i) \<and> prev' ! i \<in> ?S" if "i < lv m1 f" for i
  proof (cases "lv m A \<le> i")
    case True
    then show ?thesis using ext'(2) [of i] that l(2) S(1) ok2 by simp
  next
    case False
    then show ?thesis
      using ext'(2) [of i] that l(2) prev(3) [of i] pred(1) pred_at_ok [OF inv] ok2 by simp
  qed
  obtain m3 where m3: "link_levels f prev' [0..<lv m1 f] m2 = Some m3" "list_frame A ?S m2 m3"
    "\<And>i. nxt m3 i = (if i \<in> set [0..<lv m1 f] then (nxt m2 i)(f := nxt m2 i (prev' ! i), prev' ! i := f)
       else nxt m2 i)"
    by (rule link_levels_links [of "[0..<lv m1 f]" m2 f prev' ?S])
      (use l(2) ext'(1) all f ok2 S(6) [OF f] in auto)
  have insert: "skiplist_insert A f unset_prev m1 = Some (m3, prev')"
    using skiplist_search_same [OF prev(1) same(1,3)] h x same(3) ext m2(1) m3(1) by (simp add: skiplist_insert_def)
  have at: "nxt m3 0 = (nxt m 0)(f := f, prev' ! 0 := f)"
    using m3(3) [of 0] l(1) before by (simp add: m2(3) same(2) zero)
  have p0: "prev ! 0 \<in> insert A (set fl)" "prev ! 0 \<noteq> f" using prev(3) [OF top] pred by simp_all
  show thesis
    using insert at p0 list_frameD(1,3) [OF m2(2)] list_frameD(1,3) [OF m3(2)] list_frameD(4) [OF m3(2)] ok2
    by (intro that [of m3 prev']) (simp_all add: zero)
qed

text \<open>Drawing the levels changes neither the links nor the other blocks.\<close>

lemma assign_levels_links:
  assumes "assign_levels A f m = Some m'"
  shows "get_next m' = get_next m" "q \<noteq> f \<Longrightarrow> blocks m' q = blocks m q"
proof -
  obtain x l ar r where "blocks m f = Some x" "m' = m\<lparr>arenas := (arenas m)(A \<mapsto> ar\<lparr>arena_random := r\<rparr>),
      blocks := (blocks m)(f \<mapsto> x\<lparr>al_levels := l\<rparr>)\<rparr>"
    using assms by (auto simp: assign_levels_def upd_block_def bind_eq_Some_conv)
  then show "get_next m' = get_next m" "q \<noteq> f \<Longrightarrow> blocks m' q = blocks m q"
    by (auto simp: get_next_def fun_eq_iff)
qed

section \<open>A second free\<close>

lemma coalesce_apart:
  assumes "blocks m a = Some x" "get_next m a 0 = Some n" "a + al_size x \<noteq> n"
  shows "coalesce a m = Some m"
  using assms by (simp add: coalesce_def)

lemma not_adjacent:
  assumes inv: "arena_inv m A {} fl oc" and f: "f \<in> set fl" and p: "p \<in> insert A (set fl)"
  shows "p + sz m p \<noteq> f"
proof (cases "p = A")
  case True
  obtain mg where "header m A = Some (0, mg, A)" using arena_invD(2) [OF inv] by (auto simp: head_ok_def)
  then show ?thesis using head_not_block [OF inv, of f] f True by (auto simp: sz_def)
next
  case False
  then have p: "p \<in> set fl" using p by blast
  have "unat (p + sz m p) = fin m p" using unat_end arena_invD(5) [OF inv] p by blast
  then show ?thesis using arena_invD(10) [OF inv p _ f] by auto
qed

lemma relink_free_block:
  assumes inv: "arena_inv m A {} fl oc" and f: "f \<in> set fl"
  obtains m' where "add_to_freelist_release (f + header_size) A m = Some m'" "get_next m' f 0 = Some f"
    "map_option allocation_count (arenas m' A) = map_option allocation_count (arenas m A)"
proof -
  note I = arena_invD [OF inv]
  have ok: "block_ok m f" "node_ok m f" "f \<noteq> A" using I(5,11) head_not_block [OF inv] f by blast+
  obtain ar where ar: "arenas m A = Some ar" "min_size ar = 64" using I(1) by (auto simp: arena_fields_ok_def)
  have "64 \<le> unat (sz m f)" using ok(1) by (simp add: block_ok_def)
  from assign_levels_Some [OF ar ok(2) this] obtain m1 l where m1: "assign_levels A f m = Some m1"
    "header m1 = header m" "\<And>q. node_ok m1 q = node_ok m q" "nxt m1 = nxt m" "lv m1 = (lv m)(f := l)"
    "1 \<le> l" "l < kMaxLevel" "arena_frame A {unat f} m m1"
    by metis
  obtain m2 prev where m2: "skiplist_insert A f unset_prev m1 = Some (m2, prev)" "header m2 = header m1"
    "arenas m2 = arenas m1" "prev ! 0 \<in> insert A (set fl)" "prev ! 0 \<noteq> f"
    "\<And>q. node_ok m2 q = node_ok m q" "nxt m2 0 f = f" "nxt m2 0 (prev ! 0) = f"
    by (rule insert_linked [OF I(3) f assign_levels_links(1) [OF m1(1)] m1(4) _ m1(3)])
      (use assign_levels_links(2) [OF m1(1)] ok(3) m1(5-7) in auto)
  have nodes: "node_ok m2 f" "node_ok m2 (prev ! 0)"
    using m2(4,6) ok(2) skip_invD(1) [OF I(3)] I(11) by auto
  have links: "get_next m2 f 0 = Some f" "get_next m2 (prev ! 0) 0 = Some f"
    using get_next_nxt nodes m2(7,8) by (simp_all add: kMaxLevel_def)
  obtain x y where x: "blocks m2 f = Some x" and y: "blocks m2 (prev ! 0) = Some y"
    using nodes by (auto simp: node_ok_def)
  have "sz m2 = sz m" by (simp add: sz_def m2(2) m1(2) fun_eq_iff)
  then have sizes: "al_size x = sz m f" "al_size y = sz m (prev ! 0)" using x y by (metis sz_blocks)+
  define m3 where "m3 = m2\<lparr>blocks := (blocks m2)(f \<mapsto> x\<lparr>al_magic := Magic kMagicUnallocated f\<rparr>)\<rparr>"
  have m3: "upd_block f (al_magic_update (\<lambda>_. Magic kMagicUnallocated f)) m2 = Some m3"
    using x by (simp add: upd_block_def m3_def)
  have next3: "get_next m3 f 0 = Some f" "get_next m3 (prev ! 0) 0 = Some f"
    using links x m2(5) by (simp_all add: m3_def get_next_def)
  have blocks3: "blocks m3 f = Some (x\<lparr>al_magic := Magic kMagicUnallocated f\<rparr>)" "blocks m3 (prev ! 0) = Some y"
    using y m2(5) by (simp_all add: m3_def)
  have "al_size (x\<lparr>al_magic := Magic kMagicUnallocated f\<rparr>) = sz m f" using sizes(1) by (cases x) simp
  then have "coalesce f m3 = Some m3"
    using not_adjacent [OF inv f, of f] f by (intro coalesce_apart [OF blocks3(1) next3(1)]) simp
  moreover have "coalesce (prev ! 0) m3 = Some m3"
    using not_adjacent [OF inv f m2(4)] sizes(2) by (intro coalesce_apart [OF blocks3(2) next3(2)]) simp
  ultimately have "add_to_freelist_release (f + header_size) A m = Some m3"
    using m1(1) m2(1) m3 by (simp add: add_to_freelist_release_def)
  moreover have "map_option allocation_count (arenas m3 A) = map_option allocation_count (arenas m A)"
    using frame_count [OF m1(8)] m2(3) by (simp add: m3_def)
  ultimately show thesis using next3(1) that by blast
qed

lemma xor_cancel: "(k XOR s) XOR s = (k :: u64)"
  by (simp only: xor.assoc xor_self_eq xor.right_neutral)

text \<open>No magic number of a free or merged block is that of an allocated one.\<close>

lemma freed_magic:
  assumes ok: "block_ok m s" and x: "blocks m' s = Some x"
    and "al_magic x = Magic kMagicUnallocated s \<or> al_magic x = 0"
  shows "\<not> allocated_magic (s + header_size) m'"
proof -
  have "unat s mod 32 = 0" using ok by (simp add: block_ok_def)
  then have odd: "s \<noteq> kMagicAllocated" by (auto simp: kMagicAllocated_def)
  have "Magic kMagicUnallocated s \<noteq> Magic kMagicAllocated s"
  proof
    assume "Magic kMagicUnallocated s = Magic kMagicAllocated s"
    then have "kMagicUnallocated XOR s = kMagicAllocated XOR s" by (simp add: Magic_def)
    then have "kMagicUnallocated = kMagicAllocated" by (metis xor_cancel)
    then show False by (simp add: kMagicUnallocated_def kMagicAllocated_def)
  qed
  moreover have "Magic kMagicAllocated s \<noteq> 0"
  proof
    assume "Magic kMagicAllocated s = 0"
    then have "kMagicAllocated = 0 XOR s" unfolding Magic_def by (metis xor_cancel)
    then show False using odd by simp
  qed
  ultimately show ?thesis using x assms(3) by (auto simp: allocated_magic_def)
qed

text \<open>In the Release build the second call enters the block into the list again.\<close>

lemma release_relinks:
  assumes ok: "arena_ok m A fl al" and s: "s \<in> set fl" and x: "blocks m s = Some x" "al_arena x = A"
  shows "\<exists>m'. lla_free_release (s + header_size) m = Some m' \<and> get_next m' s 0 = Some s"
proof -
  note O = arena_okD [OF ok]
  obtain m1 where m1: "add_to_freelist_release (s + header_size) A m = Some m1" "get_next m1 s 0 = Some s"
    "map_option allocation_count (arenas m1 A) = map_option allocation_count (arenas m A)"
    by (rule relink_free_block [OF O(1) s])
  obtain ar where ar: "arenas m1 A = Some ar" "allocation_count ar = int (card al)"
    using m1(3) O(4) by auto
  have "s + header_size \<noteq> 0" using user_address(1) arena_invD(5) [OF O(1)] s by blast
  then have "lla_free_release (s + header_size) m =
      Some (m1\<lparr>arenas := (arenas m1)(A \<mapsto> ar\<lparr>allocation_count := allocation_count ar - 1\<rparr>)\<rparr>)"
    using x m1(1) ar by (simp add: lla_free_release_def)
  then show ?thesis using m1(2) by (auto simp: get_next_def)
qed

text \<open>C34: Freeing a block twice. The first call returns, and the Release build, which has no asserts,
  does the same as a build with them. After it the comparison of the first assert of AddToFreelist is
  false for the block, so a second call stops there in a build with asserts. In the Release build the second call reads a null arena pointer if the block was merged
  with the block in front of it; otherwise it returns and the block has become its own successor in
  the free list.\<close>

theorem second_free:
  assumes "arena_ok m A fl al" "s \<in> al"
  shows "\<exists>m'. lla_free (s + header_size) m = Some m' \<and> lla_free_release (s + header_size) m = Some m' \<and>
    \<not> allocated_magic (s + header_size) m' \<and>
    (\<exists>x. blocks m' s = Some x \<and>
      (al_magic x = 0 \<and> al_arena x = 0 \<or>
       al_magic x = Magic kMagicUnallocated s \<and> al_arena x = A \<and>
         (\<exists>m''. lla_free_release (s + header_size) m' = Some m'' \<and> get_next m'' s 0 = Some s)))"
proof (rule lla_free_arena [OF assms])
  fix m' fl'
  assume r: "lla_free (s + header_size) m = Some m'" "arena_ok m' A fl' (al - {s})"
    "s \<in> set fl' \<or> (\<exists>z. header m' s = Some (z, 0, 0))"
  have ok: "block_ok m s" using arena_invD(5) [OF arena_okD(1) [OF assms(1)]] assms(2) by blast
  show ?thesis
  proof (cases "s \<in> set fl'")
    case True
    then have "has_magic m' A kMagicUnallocated s"
      using arena_invD(4) [OF arena_okD(1) [OF r(2)]] by (simp add: free_block_ok_def)
    then obtain x where x: "blocks m' s = Some x" "al_magic x = Magic kMagicUnallocated s" "al_arena x = A"
      by (rule has_magicD)
    then show ?thesis
      using r(1) lla_free_release [OF r(1)] freed_magic [OF ok x(1)] release_relinks [OF r(2) True x(1,3)]
      by blast
  next
    case False
    then obtain x where x: "blocks m' s = Some x" "al_magic x = 0" "al_arena x = 0"
      using r(3) by (auto simp: header_def)
    then show ?thesis using r(1) lla_free_release [OF r(1)] freed_magic [OF ok x(1)] by blast
  qed
qed

text \<open>A block of 64 KiB that the example arena has given out.\<close>

definition sample_live_memory :: memory where
  "sample_live_memory = write_header 0x20000 0x10000 0x10000
     \<lparr>blocks = blocks sample_memory,
      arenas = [0x10000 \<mapsto> (new_arena_fields 65536 0)\<lparr>allocation_count := 1\<rparr>],
      pages = [(0x20000, 0x10000), (0x10000, 0x10000)]\<rparr>"

lemma sample_live_ok: "arena_ok sample_live_memory 0x10000 [] {0x20000}"
proof -
  let ?m0 = "sample_memory\<lparr>pages := [(0x20000, 0x10000), (0x10000, 0x10000)]\<rparr>"
  let ?ar = "new_arena_fields 65536 0"
  have "sample_memory\<lparr>pages := (0x20000, 0x10000) # pages sample_memory\<rparr> = ?m0"
    by (simp add: sample_memory_def construct_arena_def)
  then have inv0: "arena_inv ?m0 0x10000 {} [] {}"
    using arena_inv_pages [OF arena_okD(1) [OF sample_memory_ok], of "(0x20000, 0x10000)"] by simp
  have "mapped ?m0 = {0x20000..<0x30000} \<union> {0x10000..<0x20000}" by (simp add: mapped_def)
  then have "(0x20000 :: ptr) \<noteq> 0" "unat (0x20000 :: ptr) mod 32 = 0" "unat (0x10000 :: u64) mod 32 = 0"
    "64 \<le> unat (0x10000 :: u64)" "unat (0x20000 :: ptr) + unat (0x10000 :: u64) < 2 ^ 64"
    "{unat (0x20000 :: ptr)..<unat (0x20000 :: ptr) + unat (0x10000 :: u64)} \<subseteq> mapped ?m0"
    "unat (0x10000 :: ptr) \<notin> {unat (0x20000 :: ptr)..<unat (0x20000 :: ptr) + unat (0x10000 :: u64)}"
    "\<forall>a\<in>set [] \<union> {}. bytes ?m0 a \<inter>
       {unat (0x20000 :: ptr)..<unat (0x20000 :: ptr) + unat (0x10000 :: u64)} = {}"
    by simp_all
  note o = occupy [OF inv0 this]
  have ar: "arenas (write_header 0x20000 0x10000 0x10000 ?m0) 0x10000 = Some ?ar"
    by (simp add: write_header_def sample_arena)
  have eq: "sample_live_memory = (write_header 0x20000 0x10000 0x10000 ?m0)\<lparr>arenas :=
      (arenas (write_header 0x20000 0x10000 0x10000 ?m0))(0x10000 \<mapsto> ?ar\<lparr>allocation_count := 1\<rparr>)\<rparr>"
    by (simp add: sample_live_memory_def write_header_def) (simp add: sample_memory_def construct_arena_def)
  have "arena_inv sample_live_memory 0x10000 {} [] {0x20000}"
    unfolding eq by (rule arena_inv_arenas [OF o(1) ar])
  moreover have "has_magic sample_live_memory 0x10000 kMagicAllocated 0x20000"
    using o(2) unfolding eq by (simp add: has_magic_def header_def sz_def)
  moreover have "map_option allocation_count (arenas sample_live_memory 0x10000) = Some 1"
    by (simp add: sample_live_memory_def write_header_def)
  ultimately show ?thesis by (simp add: arena_ok_def)
qed

lemma second_free_witness:
  "\<exists>m'. lla_free (0x20000 + header_size) sample_live_memory = Some m' \<and>
    lla_free_release (0x20000 + header_size) sample_live_memory = Some m' \<and>
    \<not> allocated_magic (0x20000 + header_size) m' \<and>
    (\<exists>x. blocks m' 0x20000 = Some x \<and>
      (al_magic x = 0 \<and> al_arena x = 0 \<or>
       al_magic x = Magic kMagicUnallocated 0x20000 \<and> al_arena x = 0x10000 \<and>
         (\<exists>m''. lla_free_release (0x20000 + header_size) m' = Some m'' \<and>
            get_next m'' 0x20000 0 = Some 0x20000)))"
  by (rule second_free [OF sample_live_ok]) simp

end
