(* ===== verification/Call_Stacks.thy ===== *)
theory Call_Stacks
  imports Leak_Repository
begin

text \<open>
  Call stacks as text and their ids (\<^verbatim>\<open>stacktrace/stacktrace.cc\<close>, \<^verbatim>\<open>helper/xxhasher.cpp\<close>,
  \<^verbatim>\<open>get_calling_module\<close> of \<^verbatim>\<open>iat/modules_helper.cpp\<close>). Windows and the symbol handler are arguments:
  the record \<open>symbol_env\<close>. The 64-bit hash over all bytes that were added, in their order, is the argument
  \<open>xxh\<close>. \<open>None\<close> is a failed assert. The properties say what an id depends on: it survives that modules are
  loaded elsewhere as long as symbols are found for the same frames, but without symbol information it does
  not tell the places in a module apart.
\<close>

section \<open>The system\<close>

text \<open>The region of an address (\<^verbatim>\<open>VirtualQuery\<close>: its allocation base), the file name of a module, the symbol
  and the line of an address, and the module of the DLL itself.\<close>

record symbol_env =
  se_region :: "ptr \<Rightarrow> ptr option"
  se_file_name :: "ptr \<Rightarrow> string option"
  se_symbol :: "ptr \<Rightarrow> string option"
  se_line :: "ptr \<Rightarrow> (string \<times> nat) option"
  se_dll :: ptr

definition get_calling_module :: "symbol_env \<Rightarrow> ptr \<Rightarrow> ptr" where
  "get_calling_module env caller =
     (case se_region env caller of Some base \<Rightarrow> base | None \<Rightarrow> 0)"

text \<open>\<^verbatim>\<open>xxhasher_t\<close>: the bytes that were added so far.\<close>

type_synonym hasher = "u8 list"

definition hasher_init :: hasher where
  "hasher_init = []"

definition hasher_add :: "u8 list \<Rightarrow> hasher \<Rightarrow> hasher" where
  "hasher_add bs h = h @ bs"

definition create_hash :: "(u8 list \<Rightarrow> u64) \<Rightarrow> hasher \<Rightarrow> u64" where
  "create_hash xxh h = xxh h"

definition text_bytes :: "string \<Rightarrow> u8 list" where
  "text_bytes s = map (\<lambda>c. of_nat (of_char c)) s"

definition word_bytes :: "u64 \<Rightarrow> u8 list" where
  "word_bytes w = map (\<lambda>i. ucast (drop_bit (8 * i) w)) [0..<8]"

section \<open>Capturing\<close>

text \<open>\<^verbatim>\<open>GetStackFrames\<close>: \<open>capture\<close> is \<^verbatim>\<open>RtlCaptureStackBackTrace\<close> with the frames to skip and the frames to
  capture; the check is made in the debug build only.\<close>

definition GetStackFrames ::
  "(nat \<Rightarrow> nat \<Rightarrow> ptr list \<times> u32) \<Rightarrow> bool \<Rightarrow> symbol_env \<Rightarrow> nat \<Rightarrow> nat \<Rightarrow> bool
     \<Rightarrow> (ptr list \<times> u32) option" where
  "GetStackFrames capture debug_build env max_depth skip_count check =
     (let (frames, hash) = capture (skip_count + 1) max_depth
      in if debug_build \<and> check then
           if 1 < length frames \<and>
             get_calling_module env (frames ! 0) \<noteq> 0 \<and>
             get_calling_module env (frames ! 0) = se_dll env \<and>
             get_calling_module env (frames ! 1) \<noteq> 0 \<and>
             get_calling_module env (frames ! 1) \<noteq> se_dll env
           then Some (frames, hash) else None
         else Some (frames, hash))"

text \<open>\<^verbatim>\<open>InitializeSymbolizer\<close>: the process handle is set first, so that the symbol handler is initialised
  once.\<close>

record symbolizer =
  sy_process :: ptr
  sy_dll :: ptr
  sy_options :: u32

definition symbol_options :: u32 where
  "symbol_options = 0x4 OR 0x2 OR 0x10"

definition InitializeSymbolizer ::
  "ptr \<Rightarrow> ptr option \<Rightarrow> bool \<Rightarrow> symbolizer \<Rightarrow> symbolizer option" where
  "InitializeSymbolizer current_process own_module sym_initialize s =
     (if sy_process s \<noteq> 0 then Some s
      else case own_module of
        None \<Rightarrow> None
      | Some m \<Rightarrow>
          if m = 0 \<or> \<not> sym_initialize then None
          else Some \<lparr>sy_process = current_process, sy_dll = m, sy_options = symbol_options\<rparr>)"

section \<open>Printing\<close>

definition static_runtime_warning :: string where
  "static_runtime_warning = '' [Warning: static runtime!]''"

definition printf_symbolinfo ::
  "symbol_env \<Rightarrow> string list \<Rightarrow> nat \<Rightarrow> ptr \<Rightarrow> string \<times> hasher \<Rightarrow> (string \<times> hasher) option" where
  "printf_symbolinfo env static_runtime index pc acc =
     (let calling = get_calling_module env pc; (out, h) = acc
      in if pc = 0 then None
         else if calling = 0 then (if index \<noteq> 0 then Some acc else None)
         else if index = 0 then (if calling \<noteq> se_dll env then None else Some acc)
         else if \<not> calling < pc then None
         else
           let offset = pc - calling;
               name = (case se_file_name env calling of None \<Rightarrow> ''---'' | Some n \<Rightarrow> n);
               h1 = (case se_file_name env calling of None \<Rightarrow> h | Some n \<Rightarrow> hasher_add (text_bytes n) h);
               warning = (case se_file_name env calling of None \<Rightarrow> []
                 | Some n \<Rightarrow> if to_lower n \<in> set static_runtime then static_runtime_warning else [])
           in case se_symbol env pc of
                None \<Rightarrow> Some (out @ show_ptr pc @ '' ('' @ name @ '') (no symbol info)'' @ warning @ nl, h1)
              | Some symbol \<Rightarrow>
                  let (file, line) = (case se_line env pc of None \<Rightarrow> (''---'', 0) | Some l \<Rightarrow> l)
                  in Some (out @ file @ ''('' @ show_nat line @ '',0): '' @ symbol @ '' ('' @ name @ '')'' @
                       warning @ nl, hasher_add (word_bytes offset) h1))"

fun printf_symbol_infos ::
  "symbol_env \<Rightarrow> string list \<Rightarrow> nat \<Rightarrow> ptr list \<Rightarrow> string \<times> hasher \<Rightarrow> (string \<times> hasher) option" where
  "printf_symbol_infos env static_runtime i [] acc = Some acc"
| "printf_symbol_infos env static_runtime i (pc # pcs) acc =
     Option.bind (printf_symbolinfo env static_runtime i pc acc)
       (printf_symbol_infos env static_runtime (Suc i) pcs)"

definition printf_call_stack_symbol_infos ::
  "symbol_env \<Rightarrow> string list \<Rightarrow> ptr list \<Rightarrow> string \<times> hasher \<Rightarrow> (string \<times> hasher) option" where
  "printf_call_stack_symbol_infos env static_runtime frames acc =
     printf_symbol_infos env static_runtime 0 frames acc"

definition max_frames :: nat where
  "max_frames = 32"

definition save_current_callstack_to_string ::
  "(nat \<Rightarrow> nat \<Rightarrow> ptr list \<times> u32) \<Rightarrow> bool \<Rightarrow> symbol_env \<Rightarrow> nat \<Rightarrow> string \<Rightarrow> string option" where
  "save_current_callstack_to_string capture debug_build env skip_count text =
     Option.bind (GetStackFrames capture debug_build env max_frames skip_count True) (\<lambda>(frames, _).
     map_option fst (printf_call_stack_symbol_infos env [] frames (text, hasher_init)))"

text \<open>The text and the id of the call stack of a leak, as \<open>generate_callstacks2\<close> uses them.\<close>

definition leak_call_stack ::
  "symbol_env \<Rightarrow> string list \<Rightarrow> (u8 list \<Rightarrow> u64) \<Rightarrow> ptr list \<Rightarrow> (string \<times> u64) option" where
  "leak_call_stack env static_runtime xxh frames =
     map_option (\<lambda>(text, h). (text, create_hash xxh h))
       (printf_call_stack_symbol_infos env static_runtime frames ([], hasher_init))"

section \<open>What an id depends on\<close>

text \<open>The frames for which no assert fails: the first one is in the DLL, none is null, and no module starts
  behind its code.\<close>

definition frame_ok :: "symbol_env \<Rightarrow> ptr \<Rightarrow> bool" where
  "frame_ok env pc \<longleftrightarrow> pc \<noteq> 0 \<and> (get_calling_module env pc = 0 \<or> get_calling_module env pc < pc)"

definition frames_ok :: "symbol_env \<Rightarrow> ptr list \<Rightarrow> bool" where
  "frames_ok env frames \<longleftrightarrow>
     (case frames of [] \<Rightarrow> True
      | pc # pcs \<Rightarrow> pc \<noteq> 0 \<and> get_calling_module env pc \<noteq> 0 \<and> get_calling_module env pc = se_dll env \<and>
          list_all (frame_ok env) pcs)"

text \<open>What a frame adds to the hash: the file name of its module and, with symbol information, the offset.\<close>

definition frame_bytes :: "symbol_env \<Rightarrow> ptr \<Rightarrow> u8 list" where
  "frame_bytes env pc =
     (let m = get_calling_module env pc
      in if m = 0 then []
         else (case se_file_name env m of None \<Rightarrow> [] | Some n \<Rightarrow> text_bytes n) @
           (if se_symbol env pc = None then [] else word_bytes (pc - m)))"

lemma printf_symbolinfo_frame:
  assumes "frame_ok env pc"
  shows "\<exists>line. printf_symbolinfo env static (Suc i) pc (out, h) = Some (out @ line, h @ frame_bytes env pc)"
proof (cases "get_calling_module env pc = 0")
  case True
  then show ?thesis
    using assms by (intro exI [of _ "[]"]) (simp add: printf_symbolinfo_def frame_ok_def frame_bytes_def)
next
  case False
  then have m: "pc \<noteq> 0" "get_calling_module env pc < pc" using assms by (auto simp: frame_ok_def)
  show ?thesis
    using m False
    by (cases "se_file_name env (get_calling_module env pc)"; cases "se_symbol env pc")
      (auto simp: printf_symbolinfo_def frame_bytes_def hasher_add_def Let_def split: prod.splits)
qed

lemma printf_symbol_infos_frames:
  assumes "list_all (frame_ok env) pcs"
  shows "\<exists>rest. printf_symbol_infos env static (Suc i) pcs (out, h)
    = Some (out @ rest, h @ concat (map (frame_bytes env) pcs))"
  using assms
proof (induction pcs arbitrary: i out h)
  case Nil
  then show ?case by simp
next
  case (Cons pc pcs)
  obtain line where line: "printf_symbolinfo env static (Suc i) pc (out, h)
      = Some (out @ line, h @ frame_bytes env pc)"
    using printf_symbolinfo_frame [of env pc static i out h] Cons.prems by auto
  obtain rest where "printf_symbol_infos env static (Suc (Suc i)) pcs (out @ line, h @ frame_bytes env pc)
      = Some ((out @ line) @ rest, (h @ frame_bytes env pc) @ concat (map (frame_bytes env) pcs))"
    using Cons.IH [of "Suc i" "out @ line" "h @ frame_bytes env pc"] Cons.prems by auto
  then show ?case using line by (intro exI [of _ "line @ rest"]) simp
qed

lemma leak_call_stack_id:
  assumes "frames_ok env frames"
  obtains out where "leak_call_stack env static xxh frames
    = Some (out, xxh (concat (map (frame_bytes env) (tl frames))))"
proof (cases frames)
  case Nil
  then show thesis
    by (intro that [of "[]"]) (simp add: leak_call_stack_def printf_call_stack_symbol_infos_def
        hasher_init_def create_hash_def)
next
  case (Cons pc pcs)
  then have pc: "pc \<noteq> 0" "get_calling_module env pc \<noteq> 0" "get_calling_module env pc = se_dll env"
    and ok: "list_all (frame_ok env) pcs"
    using assms by (auto simp: frames_ok_def)
  then have first: "printf_symbolinfo env static 0 pc ([], []) = Some ([], [])"
    by (simp add: printf_symbolinfo_def)
  obtain rest where "printf_symbol_infos env static (Suc 0) pcs ([], [])
      = Some ([] @ rest, [] @ concat (map (frame_bytes env) pcs))"
    using printf_symbol_infos_frames [OF ok] by blast
  then show thesis
    using first Cons by (intro that [of rest])
      (simp add: leak_call_stack_def printf_call_stack_symbol_infos_def hasher_init_def create_hash_def)
qed


text \<open>The same place of the same module file, in another run: the module can be loaded elsewhere.\<close>

definition same_place :: "symbol_env \<Rightarrow> symbol_env \<Rightarrow> ptr \<Rightarrow> ptr \<Rightarrow> bool" where
  "same_place env env' pc pc' \<longleftrightarrow>
     (let m = get_calling_module env pc; m' = get_calling_module env' pc'
      in (m = 0 \<longleftrightarrow> m' = 0) \<and>
         (m \<noteq> 0 \<longrightarrow> se_file_name env m = se_file_name env' m' \<and> pc - m = pc' - m'))"

text \<open>The symbol handler finds a symbol for the place in both runs or in neither. The name may differ.\<close>

definition same_symbol_info :: "symbol_env \<Rightarrow> symbol_env \<Rightarrow> ptr \<Rightarrow> ptr \<Rightarrow> bool" where
  "same_symbol_info env env' pc pc' \<longleftrightarrow>
     (get_calling_module env pc \<noteq> 0 \<longrightarrow> (se_symbol env pc = None \<longleftrightarrow> se_symbol env' pc' = None))"

text \<open>Some place of the same module file, both without symbol information.\<close>

definition same_stripped_module :: "symbol_env \<Rightarrow> ptr \<Rightarrow> ptr \<Rightarrow> bool" where
  "same_stripped_module env pc pc' \<longleftrightarrow>
     (let m = get_calling_module env pc; m' = get_calling_module env pc'
      in m \<noteq> 0 \<and> m' \<noteq> 0 \<and> se_file_name env m = se_file_name env m' \<and>
         se_symbol env pc = None \<and> se_symbol env pc' = None)"

lemma same_place_bytes:
  "same_place env env' pc pc' \<and> same_symbol_info env env' pc pc' \<Longrightarrow> frame_bytes env pc = frame_bytes env' pc'"
  by (auto simp: same_place_def same_symbol_info_def frame_bytes_def Let_def)

lemma same_stripped_module_bytes:
  "same_stripped_module env pc pc' \<Longrightarrow> frame_bytes env pc = frame_bytes env pc'"
  by (simp add: same_stripped_module_def frame_bytes_def Let_def)

lemma frames_bytes_cong:
  assumes "list_all2 R pcs pcs'" and "\<And>pc pc'. R pc pc' \<Longrightarrow> f pc = g pc'"
  shows "concat (map f pcs) = concat (map g pcs')"
  using assms(1) by (induction rule: list_all2_induct) (simp_all add: assms(2))

section \<open>Properties\<close>

text \<open>C36: The id of a leak, by which users suppress it, is the same in two runs in which symbol information
  is available for the same frames: if the frames of two call stacks are the same places of the same module
  files, and for each frame a symbol is found in both runs or in neither, then both call stacks can be
  printed and have the same id, wherever the modules were loaded and whatever lines and names the symbol
  handler tells.\<close>

theorem leak_ids_stable:
  assumes "frames_ok env frames" and "frames_ok env' frames'"
    and "list_all2 (same_place env env') (tl frames) (tl frames')"
    and "list_all2 (same_symbol_info env env') (tl frames) (tl frames')"
  shows "\<exists>out out' leak_id. leak_call_stack env static xxh frames = Some (out, leak_id) \<and>
    leak_call_stack env' static' xxh frames' = Some (out', leak_id)"
proof -
  have bytes: "concat (map (frame_bytes env) (tl frames)) = concat (map (frame_bytes env') (tl frames'))"
    by (rule frames_bytes_cong [where R = "\<lambda>pc pc'. same_place env env' pc pc' \<and> same_symbol_info env env' pc pc'",
          OF _ same_place_bytes])
      (use assms(3,4) in \<open>simp_all add: list_all2_conv_all_nth\<close>)
  obtain out where "leak_call_stack env static xxh frames
      = Some (out, xxh (concat (map (frame_bytes env) (tl frames))))"
    by (rule leak_call_stack_id [OF assms(1)])
  moreover obtain out' where "leak_call_stack env' static' xxh frames'
      = Some (out', xxh (concat (map (frame_bytes env') (tl frames'))))"
    by (rule leak_call_stack_id [OF assms(2)])
  ultimately show ?thesis using bytes by simp
qed

text \<open>A DLL of the tool at \<open>0x1000\<close> and a program whose module is loaded at \<open>base\<close>.\<close>

definition sample_env :: "ptr \<Rightarrow> bool \<Rightarrow> symbol_env" where
  "sample_env base symbols =
     \<lparr>se_region = (\<lambda>p. if p < 0x2000 then Some 0x1000 else Some base),
      se_file_name = (\<lambda>m. if m = 0x1000 then Some ''buginsight.dll'' else Some ''app.exe''),
      se_symbol = (\<lambda>p. if symbols then Some ''main'' else None),
      se_line = (\<lambda>p. None),
      se_dll = 0x1000\<rparr>"

lemmas sample_env_simps = sample_env_def frames_ok_def frame_ok_def get_calling_module_def

theorem leak_ids_stable_witness:
  "\<exists>out out' leak_id.
     leak_call_stack (sample_env 0x7000 True) [] (\<lambda>bs. of_nat (length bs)) [0x1004, 0x7010]
       = Some (out, leak_id) \<and>
     leak_call_stack (sample_env 0x9000 True) [] (\<lambda>bs. of_nat (length bs)) [0x1004, 0x9010]
       = Some (out', leak_id)"
  by (rule leak_ids_stable) (simp_all add: sample_env_simps same_place_def same_symbol_info_def)

text \<open>C37: Without symbol information the offset of a frame is not part of the id: two call stacks through
  the same module files have one id, so that suppressing the first leak drops the call stack of every other
  leak in those modules from the report, whatever functions allocate there.\<close>

theorem suppression_hides_other_leaks:
  assumes "frames_ok env (cs_callstack c)" and "frames_ok env (cs_callstack other)"
    and "list_all2 (same_stripped_module env) (tl (cs_callstack c)) (tl (cs_callstack other))"
    and "cs_size other \<noteq> 0"
  shows "\<exists>out leak_id. leak_call_stack env static xxh (cs_callstack c) = Some (out, leak_id) \<and>
    callstack_text (the \<circ> leak_call_stack env static xxh) (leak_id # suppressed) acc other = (fst acc, True)"
proof -
  have bytes: "concat (map (frame_bytes env) (tl (cs_callstack c)))
      = concat (map (frame_bytes env) (tl (cs_callstack other)))"
    by (rule frames_bytes_cong [OF assms(3) same_stripped_module_bytes])
  obtain out where "leak_call_stack env static xxh (cs_callstack c)
      = Some (out, xxh (concat (map (frame_bytes env) (tl (cs_callstack c)))))"
    by (rule leak_call_stack_id [OF assms(1)])
  moreover obtain out' where "leak_call_stack env static xxh (cs_callstack other)
      = Some (out', xxh (concat (map (frame_bytes env) (tl (cs_callstack other)))))"
    by (rule leak_call_stack_id [OF assms(2)])
  ultimately show ?thesis using bytes assms(4)
    by (intro exI [of _ out] exI [of _ "xxh (concat (map (frame_bytes env) (tl (cs_callstack c))))"])
      (simp add: callstack_text_def)
qed

theorem suppression_hides_other_leaks_witness:
  "\<exists>out leak_id.
     leak_call_stack (sample_env 0x7000 False) [] (\<lambda>bs. of_nat (length bs)) [0x1004, 0x7010]
       = Some (out, leak_id) \<and>
     callstack_text (the \<circ> leak_call_stack (sample_env 0x7000 False) [] (\<lambda>bs. of_nat (length bs)))
       [leak_id] ([], False)
       \<lparr>cs_callstack = [0x1004, 0x7999], cs_size = 8, cs_hash = 2\<rparr> = ([], True)"
  using suppression_hides_other_leaks [of "sample_env 0x7000 False"
      "\<lparr>cs_callstack = [0x1004, 0x7010], cs_size = 4, cs_hash = 1\<rparr>"
      "\<lparr>cs_callstack = [0x1004, 0x7999], cs_size = 8, cs_hash = 2\<rparr>"
      "[]" "\<lambda>bs. of_nat (length bs)" "[]" "([], False)"]
  by (simp add: sample_env_simps same_stripped_module_def)

end
