(* ===== verification/Vec.thy ===== *)
theory Vec
  imports Low_Level_Properties Node_Set
begin

text \<open>
  The resizable array of the lock graph (\<^verbatim>\<open>graphcycles/graphcycles.cc\<close>, \<^verbatim>\<open>Vec\<close>) on the allocator below
  it. A \<open>Vec\<close> has eight elements of its own and moves to a block of the arena when it grows. The state
  \<open>store\<close> is the memory of the allocator with the elements of the live blocks; an element that was not
  written yet is \<open>None\<close>, and reading it, an access outside the elements, a failed assert of the allocator
  and a loop without an end give \<open>None\<close>. \<open>esz\<close> is the size of an element, \<open>A\<close> the arena.

  The other theories of the graph work with lists. The lemmas show that every operation is the one of
  lists (\<open>vec_rep\<close>) and that a \<open>Vec\<close> owns exactly one block of the arena after it grew, and none before.
\<close>

section \<open>The code\<close>

record 'a store =
  st_memory :: memory
  st_data :: "ptr \<Rightarrow> 'a option list"

text \<open>The pointer to the elements is \<open>None\<close> if it points to the own ones (\<^verbatim>\<open>space_\<close>).\<close>

record 'a vec =
  v_ptr :: "ptr option"
  v_space :: "'a option list"
  v_size :: u32
  v_capacity :: u32

definition vec_init :: "'a vec \<Rightarrow> 'a vec" where
  "vec_init v = v\<lparr>v_ptr := None, v_size := 0, v_capacity := of_nat kInline\<rparr>"

definition vec_data :: "'a store \<Rightarrow> 'a vec \<Rightarrow> 'a option list" where
  "vec_data st v = (case v_ptr v of None \<Rightarrow> v_space v | Some p \<Rightarrow> st_data st p)"

definition set_vec_data :: "'a option list \<Rightarrow> 'a store \<times> 'a vec \<Rightarrow> 'a store \<times> 'a vec" where
  "set_vec_data xs sv =
     (case sv of (st, v) \<Rightarrow>
        (case v_ptr v of
           None \<Rightarrow> (st, v\<lparr>v_space := xs\<rparr>)
         | Some p \<Rightarrow> (st\<lparr>st_data := (st_data st)(p := xs)\<rparr>, v)))"

definition vec_discard :: "'a vec \<Rightarrow> 'a store \<Rightarrow> 'a store option" where
  "vec_discard v st =
     (case v_ptr v of
        None \<Rightarrow> Some st
      | Some p \<Rightarrow>
          map_option (\<lambda>m. st\<lparr>st_memory := m, st_data := (st_data st)(p := [])\<rparr>) (lla_free p (st_memory st)))"

text \<open>The loop that doubles the capacity. For more than \<open>2^31\<close> elements it does not end.\<close>

partial_function (option) grow_capacity :: "u32 \<Rightarrow> u32 \<Rightarrow> u32 option" where
  "grow_capacity c n = (if c < n then grow_capacity (c * 2) n else Some c)"

definition vec_grow ::
  "((ptr \<times> u64) list \<Rightarrow> u64 \<Rightarrow> ptr) \<Rightarrow> u64 \<Rightarrow> ptr \<Rightarrow> u32 \<Rightarrow> 'a store \<times> 'a vec
     \<Rightarrow> ('a store \<times> 'a vec) option" where
  "vec_grow va esz A n sv =
     (case sv of (st, v) \<Rightarrow>
        Option.bind (grow_capacity (v_capacity v) n) (\<lambda>c.
        Option.bind (alloc_with_arena va (ucast c * esz) A (st_memory st)) (\<lambda>(copy, m).
          let k = unat (v_size v)
          in if k \<le> length (vec_data st v) \<and> k \<le> unat c then
               map_option (\<lambda>st. (st, v\<lparr>v_ptr := Some copy, v_capacity := c\<rparr>))
                 (vec_discard v
                    (st\<lparr>st_memory := m,
                        st_data := (st_data st)(copy := take k (vec_data st v) @ replicate (unat c - k) None)\<rparr>))
             else None)))"

definition vec_read :: "nat \<Rightarrow> 'a store \<times> 'a vec \<Rightarrow> 'a option" where
  "vec_read i sv =
     (case sv of (st, v) \<Rightarrow> Option.bind (vec_get (vec_data st v) i) (\<lambda>x. x))"

definition vec_write :: "nat \<Rightarrow> 'a \<Rightarrow> 'a store \<times> 'a vec \<Rightarrow> ('a store \<times> 'a vec) option" where
  "vec_write i x sv =
     (case sv of (st, v) \<Rightarrow>
        if i < length (vec_data st v) then Some (set_vec_data ((vec_data st v)[i := Some x]) sv) else None)"

definition vec_back :: "'a store \<times> 'a vec \<Rightarrow> 'a option" where
  "vec_back sv = vec_read (unat (v_size (snd sv) - 1)) sv"

definition vec_pop_back :: "'a store \<times> 'a vec \<Rightarrow> 'a store \<times> 'a vec" where
  "vec_pop_back sv = (case sv of (st, v) \<Rightarrow> (st, v\<lparr>v_size := v_size v - 1\<rparr>))"

text \<open>\<^verbatim>\<open>push_back\<close> takes a reference, here a value: an argument that is an element of the same Vec, whose
  block is freed before the element is copied when the Vec grows, is not represented. No caller has one.\<close>

definition vec_push_back ::
  "((ptr \<times> u64) list \<Rightarrow> u64 \<Rightarrow> ptr) \<Rightarrow> u64 \<Rightarrow> ptr \<Rightarrow> 'a \<Rightarrow> 'a store \<times> 'a vec
     \<Rightarrow> ('a store \<times> 'a vec) option" where
  "vec_push_back va esz A x sv =
     (case sv of (st, v) \<Rightarrow>
        Option.bind (if v_size v = v_capacity v then vec_grow va esz A (v_size v + 1) sv else Some sv) (\<lambda>sv.
        map_option (\<lambda>(st, v). (st, v\<lparr>v_size := v_size v + 1\<rparr>))
          (vec_write (unat (v_size (snd sv))) x sv)))"

definition vec_resize ::
  "((ptr \<times> u64) list \<Rightarrow> u64 \<Rightarrow> ptr) \<Rightarrow> u64 \<Rightarrow> ptr \<Rightarrow> u32 \<Rightarrow> 'a store \<times> 'a vec
     \<Rightarrow> ('a store \<times> 'a vec) option" where
  "vec_resize va esz A n sv =
     map_option (\<lambda>(st, v). (st, v\<lparr>v_size := n\<rparr>))
       (if v_capacity (snd sv) < n then vec_grow va esz A n sv else Some sv)"

fun fill_from :: "'a \<Rightarrow> nat list \<Rightarrow> 'a store \<times> 'a vec \<Rightarrow> ('a store \<times> 'a vec) option" where
  "fill_from x [] sv = Some sv"
| "fill_from x (i # is) sv = Option.bind (vec_write i x sv) (fill_from x is)"

definition vec_fill :: "'a \<Rightarrow> 'a store \<times> 'a vec \<Rightarrow> ('a store \<times> 'a vec) option" where
  "vec_fill x sv = fill_from x [0..<unat (v_size (snd sv))] sv"

definition vec_clear :: "'a store \<times> 'a vec \<Rightarrow> ('a store \<times> 'a vec) option" where
  "vec_clear sv = (case sv of (st, v) \<Rightarrow> map_option (\<lambda>st. (st, vec_init v)) (vec_discard v st))"

text \<open>\<^verbatim>\<open>MoveFrom\<close>: the state, this \<open>Vec\<close> and the source.\<close>

definition vec_move_from ::
  "((ptr \<times> u64) list \<Rightarrow> u64 \<Rightarrow> ptr) \<Rightarrow> u64 \<Rightarrow> ptr \<Rightarrow> 'a store \<Rightarrow> 'a vec \<Rightarrow> 'a vec
     \<Rightarrow> ('a store \<times> 'a vec \<times> 'a vec) option" where
  "vec_move_from va esz A st v src =
     (case v_ptr src of
        None \<Rightarrow>
          Option.bind (vec_resize va esz A (v_size src) (st, v)) (\<lambda>(st, v).
            let k = unat (v_size src)
            in if k \<le> length (v_space src) \<and> k \<le> length (vec_data st v) then
                 (case set_vec_data (take k (v_space src) @ drop k (vec_data st v)) (st, v) of
                    (st, v) \<Rightarrow> Some (st, v, src\<lparr>v_size := 0\<rparr>))
               else None)
      | Some p \<Rightarrow>
          map_option (\<lambda>st. (st, v\<lparr>v_ptr := Some p, v_size := v_size src, v_capacity := v_capacity src\<rparr>,
              vec_init src))
            (vec_discard v st))"

section \<open>A Vec as a list\<close>

text \<open>The live blocks of the arena are \<open>al\<close>. A \<open>Vec\<close> with a pointer owns the block behind it, which has room
  for its capacity.\<close>

definition vec_blocks :: "'a vec \<Rightarrow> ptr set" where
  "vec_blocks v = (case v_ptr v of None \<Rightarrow> {} | Some p \<Rightarrow> {p - header_size})"

definition block_fits :: "u64 \<Rightarrow> memory \<Rightarrow> 'a vec \<Rightarrow> bool" where
  "block_fits esz m v \<longleftrightarrow>
     (\<forall>s\<in>vec_blocks v. unat (v_capacity v) * unat esz + 32 \<le> unat (sz m s))"

definition vec_shape :: "'a vec \<Rightarrow> bool" where
  "vec_shape v \<longleftrightarrow> length (v_space v) = kInline \<and> (\<exists>k. 3 \<le> k \<and> k \<le> 31 \<and> unat (v_capacity v) = 2 ^ k)"

definition vec_rep :: "u64 \<Rightarrow> ptr set \<Rightarrow> 'a store \<Rightarrow> 'a vec \<Rightarrow> 'a list \<Rightarrow> bool" where
  "vec_rep esz al st v xs \<longleftrightarrow>
     vec_shape v \<and> vec_blocks v \<subseteq> al \<and> block_fits esz (st_memory st) v \<and>
     length (vec_data st v) = unat (v_capacity v) \<and> v_size v \<le> v_capacity v \<and>
     take (unat (v_size v)) (vec_data st v) = map Some xs"

definition arena_holds :: "ptr \<Rightarrow> 'a store \<Rightarrow> ptr set \<Rightarrow> bool" where
  "arena_holds A st al \<longleftrightarrow> (\<exists>fl. arena_ok (st_memory st) A fl al)"

text \<open>The elements and the sizes of the blocks \<open>bs\<close> are as before.\<close>

definition blocks_kept :: "ptr set \<Rightarrow> 'a store \<Rightarrow> 'a store \<Rightarrow> bool" where
  "blocks_kept bs st st' \<longleftrightarrow>
     (\<forall>s\<in>bs. st_data st' (s + header_size) = st_data st (s + header_size) \<and>
        sz (st_memory st') s = sz (st_memory st) s)"

lemma vec_repD:
  assumes "vec_rep esz al st v xs"
  shows "vec_shape v" "vec_blocks v \<subseteq> al" "block_fits esz (st_memory st) v"
    "length (vec_data st v) = unat (v_capacity v)" "unat (v_size v) \<le> unat (v_capacity v)"
    "take (unat (v_size v)) (vec_data st v) = map Some xs" "length xs = unat (v_size v)"
proof -
  show r: "vec_shape v" "vec_blocks v \<subseteq> al" "block_fits esz (st_memory st) v"
    "length (vec_data st v) = unat (v_capacity v)" "unat (v_size v) \<le> unat (v_capacity v)"
    "take (unat (v_size v)) (vec_data st v) = map Some xs"
    using assms by (simp_all add: vec_rep_def word_le_nat_alt)
  have "length (take (unat (v_size v)) (vec_data st v)) = length xs" by (simp add: r(6))
  then show "length xs = unat (v_size v)" using r(4,5) by simp
qed

lemma blocks_kept_trans: "blocks_kept bs st st1 \<Longrightarrow> blocks_kept bs st1 st2 \<Longrightarrow> blocks_kept bs st st2"
  by (simp add: blocks_kept_def)

lemma vec_rep_frame:
  assumes rep: "vec_rep esz al st v xs" and kept: "blocks_kept (vec_blocks v) st st'"
    and sub: "vec_blocks v \<subseteq> al'"
  shows "vec_rep esz al' st' v xs"
proof -
  have "vec_data st' v = vec_data st v"
    using kept by (cases "v_ptr v") (auto simp: vec_data_def blocks_kept_def vec_blocks_def)
  moreover have "block_fits esz (st_memory st') v"
    using kept vec_repD(3) [OF rep] by (simp add: block_fits_def blocks_kept_def)
  ultimately show ?thesis using rep sub by (simp add: vec_rep_def)
qed

lemma size_update_simps [simp]:
  "vec_data st (v\<lparr>v_size := n\<rparr>) = vec_data st v" "vec_blocks (v\<lparr>v_size := n\<rparr>) = vec_blocks v"
  "vec_shape (v\<lparr>v_size := n\<rparr>) = vec_shape v" "block_fits esz m (v\<lparr>v_size := n\<rparr>) = block_fits esz m v"
  by (cases "v_ptr v"; simp add: vec_data_def vec_blocks_def vec_shape_def block_fits_def)+

lemma vec_init_rep:
  assumes "length (v_space v) = kInline"
  shows "vec_rep esz al st (vec_init v) []"
  using assms by (simp add: vec_rep_def vec_init_def vec_shape_def vec_blocks_def block_fits_def
      vec_data_def kInline_def exI [of _ 3])

lemma vec_discard_spec:
  assumes arena: "arena_holds A st al" and own: "vec_blocks v \<subseteq> al"
  obtains st' where "vec_discard v st = Some st'" "arena_holds A st' (al - vec_blocks v)"
    "blocks_kept (al - vec_blocks v) st st'"
proof (cases "v_ptr v")
  case None
  then show thesis
    using arena by (intro that [of st]) (simp_all add: vec_discard_def vec_blocks_def blocks_kept_def)
next
  case (Some p)
  then have s: "vec_blocks v = {p - header_size}" "p - header_size \<in> al"
    using own by (simp_all add: vec_blocks_def)
  obtain fl where ok: "arena_ok (st_memory st) A fl al" using arena by (auto simp: arena_holds_def)
  obtain m fl' where m: "lla_free (p - header_size + header_size) (st_memory st) = Some m"
    "arena_ok m A fl' (al - {p - header_size})"
    "\<And>b. b \<in> al - {p - header_size} \<Longrightarrow> blocks m b = blocks (st_memory st) b"
    by (rule lla_free_arena [OF ok s(2)]) (rule that)
  show thesis
  proof (rule that)
    show "vec_discard v st = Some (st\<lparr>st_memory := m, st_data := (st_data st)(p := [])\<rparr>)"
      using m(1) Some by (simp add: vec_discard_def)
    show "arena_holds A (st\<lparr>st_memory := m, st_data := (st_data st)(p := [])\<rparr>) (al - vec_blocks v)"
      using m(2) s(1) by (auto simp: arena_holds_def)
    have "sz m b = sz (st_memory st) b" "b + header_size \<noteq> p" if "b \<in> al - {p - header_size}" for b
      using m(3) [OF that] that by (auto simp: sz_def header_def)
    then show "blocks_kept (al - vec_blocks v) st (st\<lparr>st_memory := m, st_data := (st_data st)(p := [])\<rparr>)"
      unfolding s(1) by (simp add: blocks_kept_def)
  qed
qed

lemma unat_exp32: "k \<le> 31 \<Longrightarrow> unat (2 ^ k :: u32) = 2 ^ k"
proof -
  assume "k \<le> 31"
  have "(2::u32) ^ k = of_nat (2 ^ k)" by simp
  moreover have "(2::nat) ^ k < 2 ^ 32" using \<open>k \<le> 31\<close> by (intro power_strict_increasing) simp_all
  ultimately show "unat (2 ^ k :: u32) = 2 ^ k"
    by (simp only: unat_of_nat) (simp add: take_bit_nat_eq_self)
qed

lemma grow_capacity_spec:
  assumes "k \<le> 31" "unat c = 2 ^ k" "unat n \<le> 2 ^ 31"
  obtains k' where "k \<le> k'" "k' \<le> 31" "grow_capacity c n = Some (2 ^ k')" "unat n \<le> 2 ^ k'"
  using assms
proof (induction "31 - k" arbitrary: k c thesis rule: less_induct)
  case less
  have c: "c = 2 ^ k" using less.prems(2,3) by (simp add: word_unat_eq_iff unat_exp32)
  show thesis
  proof (cases "c < n")
    case False
    then have "unat n \<le> 2 ^ k" using less.prems(3) by (simp add: not_less word_le_nat_alt)
    moreover have "grow_capacity c n = Some (2 ^ k)" using False c by (subst grow_capacity.simps) simp
    ultimately show thesis using less.prems(2) by (intro less.prems(1)) simp_all
  next
    case True
    then have "2 ^ k < (2::nat) ^ 31" using less.prems(3,4) by (simp add: word_less_nat_alt)
    then have k: "k < 31" by (rule power_less_imp_less_exp [rotated]) simp
    have eq: "grow_capacity c n = grow_capacity (c * 2) n" using True by (subst grow_capacity.simps) simp
    have c2: "unat (c * 2) = 2 ^ Suc k"
      using k unfolding c by (subst power_Suc2 [symmetric]) (rule unat_exp32, simp)
    show thesis
    proof (rule less.hyps [of "Suc k" "c * 2" thesis])
      fix k' assume "Suc k \<le> k'" "k' \<le> 31" "grow_capacity (c * 2) n = Some (2 ^ k')" "unat n \<le> 2 ^ k'"
      then show thesis by (intro less.prems(1) [of k']) (simp_all only: eq Suc_leD)
    qed (use k c2 less.prems(4) in simp_all)
  qed
qed

text \<open>\<^verbatim>\<open>VirtualAlloc\<close> gives memory for the block to which the \<open>Vec\<close> grows.\<close>

definition memory_to_grow ::
  "((ptr \<times> u64) list \<Rightarrow> u64 \<Rightarrow> ptr) \<Rightarrow> u64 \<Rightarrow> ptr \<Rightarrow> 'a store \<Rightarrow> 'a vec \<Rightarrow> u32 \<Rightarrow> bool" where
  "memory_to_grow va esz A st v n \<longleftrightarrow>
     (\<forall>c ar. grow_capacity (v_capacity v) n = Some c \<longrightarrow> arenas (st_memory st) A = Some ar \<longrightarrow>
        request_allowed va (st_memory st) ar (ucast c * esz))"

lemma request_size:
  assumes "k \<le> 31" "unat esz < 2 ^ 32"
  shows "unat (ucast (2 ^ k :: u32) * esz :: u64) = 2 ^ k * unat esz"
proof -
  have "unat (2 ^ k :: u32) < 2 ^ 64" using unsigned_less [where w = "2 ^ k :: u32"] order.strict_trans by fastforce
  then have "unat (ucast (2 ^ k :: u32) :: u64) = unat (2 ^ k :: u32)"
    by (simp only: unsigned_ucast_eq) (simp add: take_bit_nat_eq_self)
  then have u: "unat (ucast (2 ^ k :: u32) :: u64) = 2 ^ k" by (simp only: unat_exp32 [OF assms(1)])
  have "(2::nat) ^ k * unat esz \<le> 2 ^ 31 * unat esz" using assms(1) by (intro mult_right_mono power_increasing) simp_all
  also have "\<dots> < 2 ^ 64" using assms(2) by simp
  finally have "unat (ucast (2 ^ k :: u32) :: u64) * unat esz < 2 ^ LENGTH(64)" by (simp add: u)
  then show ?thesis by (simp only: unat_mult_lem [THEN iffD1] u)
qed

lemma vec_grow_spec:
  assumes arena: "arena_holds A st al" and rep: "vec_rep esz al st v xs"
    and esz: "unat esz < 2 ^ 32" and n: "unat n \<le> 2 ^ 31" and count: "card al + 1 < 2 ^ 31"
    and va: "memory_to_grow va esz A st v n"
  obtains s st' v' where "vec_grow va esz A n (st, v) = Some (st', v')" "vec_blocks v' = {s}" "s \<notin> al"
    "arena_holds A st' (insert s (al - vec_blocks v))" "blocks_kept (al - vec_blocks v) st st'"
    "\<And>bs. s \<in> bs \<Longrightarrow> vec_rep esz bs st' v' xs" "unat n \<le> unat (v_capacity v')"
    "v_size v' = v_size v" "v_space v' = v_space v"
proof -
  note R = vec_repD [OF rep]
  obtain k where k: "3 \<le> k" "k \<le> 31" "unat (v_capacity v) = 2 ^ k" using R(1) by (auto simp: vec_shape_def)
  obtain k' where k': "k \<le> k'" "k' \<le> 31" "grow_capacity (v_capacity v) n = Some (2 ^ k')" "unat n \<le> 2 ^ k'"
    by (rule grow_capacity_spec [OF k(2,3) n])
  let ?c = "2 ^ k' :: u32" and ?req = "ucast (2 ^ k' :: u32) * esz :: u64"
  have c: "unat ?c = 2 ^ k'" by (rule unat_exp32 [OF k'(2)])
  obtain fl ar where ok: "arena_ok (st_memory st) A fl al" and ar: "arenas (st_memory st) A = Some ar"
    using arena arena_okD(4) by (fastforce simp: arena_holds_def)
  have req: "request_allowed va (st_memory st) ar ?req" using va k'(3) ar by (simp add: memory_to_grow_def)
  obtain s m fl' where m: "alloc_with_arena va ?req A (st_memory st) = Some (s + header_size, m)"
    "arena_ok m A fl' (insert s al)" "s \<notin> al" "unat ?req + 32 \<le> unat (sz m s)"
    "\<And>b. b \<in> al \<Longrightarrow> blocks m b = blocks (st_memory st) b"
    by (rule alloc_with_arena_arena [OF ok ar _ _ count request_allowed_granted [OF req, of fl]])
      (use req in \<open>simp_all add: request_allowed_def, blast?\<close>)
  let ?data = "take (unat (v_size v)) (vec_data st v) @ replicate (2 ^ k' - unat (v_size v)) None"
  define st1 where "st1 = st\<lparr>st_memory := m, st_data := (st_data st)(s + header_size := ?data)\<rparr>"
  let ?v = "v\<lparr>v_ptr := Some (s + header_size), v_capacity := ?c\<rparr>"
  have arena1: "arena_holds A st1 (insert s al)" using m(2) by (auto simp: arena_holds_def st1_def)
  have kept1: "blocks_kept al st st1"
  proof -
    have "sz m b = sz (st_memory st) b \<and> b + header_size \<noteq> s + header_size" if "b \<in> al" for b
      using m(3) m(5) [OF that] that by (auto simp: sz_def header_def)
    then show ?thesis by (simp add: blocks_kept_def st1_def)
  qed
  have "vec_blocks v \<subseteq> insert s al" using R(2) by blast
  then obtain st2 where st2: "vec_discard v st1 = Some st2" "arena_holds A st2 (insert s al - vec_blocks v)"
    "blocks_kept (insert s al - vec_blocks v) st1 st2"
    by (rule vec_discard_spec [OF arena1])
  have keeps: "insert s al - vec_blocks v = insert s (al - vec_blocks v)" using m(3) R(2) by blast
  have data: "st_data st2 (s + header_size) = ?data" "sz (st_memory st2) s = sz m s"
    using st2(3) unfolding keeps by (simp_all add: blocks_kept_def st1_def)
  have now: "vec_data st2 ?v = ?data" by (simp add: vec_data_def data(1))
  have le: "unat (v_size v) \<le> 2 ^ k'" 
    using R(5) k(3) power_increasing [OF k'(1), of "2::nat"] by linarith
  show thesis
  proof (rule that)
    show "vec_grow va esz A n (st, v) = Some (st2, ?v)"
      using k'(3) m(1) st2(1) R(4,5) le by (simp add: vec_grow_def c st1_def Let_def)
    show "vec_blocks ?v = {s}" by (simp add: vec_blocks_def)
    show "s \<notin> al" by (rule m(3))
    show "arena_holds A st2 (insert s (al - vec_blocks v))" using st2(2) by (simp only: keeps)
    show "blocks_kept (al - vec_blocks v) st st2"
      using kept1 st2(3) unfolding keeps by (simp add: blocks_kept_def)
    show "vec_rep esz bs st2 ?v xs" if "s \<in> bs" for bs
      using that le R(1,6,7) k(1) k' m(4) request_size [OF k'(2) esz]
      by (auto simp: vec_rep_def vec_shape_def vec_blocks_def block_fits_def now data(2) c word_le_nat_alt)
  qed (simp_all add: k'(4) c)
qed

text \<open>Elements are written into the block of the \<open>Vec\<close> only.\<close>

lemma set_vec_data_spec:
  assumes rep: "vec_rep esz al st (v\<lparr>v_size := n0\<rparr>) xs" and ys: "length ys = unat (v_capacity v)"
    and n: "n \<le> v_capacity v" "take (unat n) ys = map Some zs"
  obtains st' v' where "set_vec_data ys (st, v) = (st', v')" "v_size v' = v_size v"
    "v_capacity v' = v_capacity v" "vec_blocks v' = vec_blocks v" "st_memory st' = st_memory st"
    "vec_rep esz al st' (v'\<lparr>v_size := n\<rparr>) zs" "\<And>bs. bs \<inter> vec_blocks v = {} \<Longrightarrow> blocks_kept bs st st'"
proof (cases "v_ptr v")
  case None
  note R = vec_repD [OF rep, simplified]
  have "length ys = kInline" using R(1,4) ys None by (simp add: vec_shape_def vec_data_def)
  then show thesis
    using None ys n R(1,2,3)
    by (intro that [of st "v\<lparr>v_space := ys\<rparr>"])
      (auto simp: set_vec_data_def vec_blocks_def blocks_kept_def vec_rep_def vec_shape_def
        block_fits_def vec_data_def)
next
  case (Some p)
  note R = vec_repD [OF rep, simplified]
  show thesis
  proof (rule that)
    show "set_vec_data ys (st, v) = (st\<lparr>st_data := (st_data st)(p := ys)\<rparr>, v)"
      using Some by (simp add: set_vec_data_def)
    show "vec_rep esz al (st\<lparr>st_data := (st_data st)(p := ys)\<rparr>) (v\<lparr>v_size := n\<rparr>) zs"
      using Some ys n R(1,2,3)
      by (simp add: vec_rep_def vec_shape_def block_fits_def vec_data_def vec_blocks_def)
    show "blocks_kept bs st (st\<lparr>st_data := (st_data st)(p := ys)\<rparr>)" if "bs \<inter> vec_blocks v = {}" for bs
      using that Some by (auto simp: blocks_kept_def vec_blocks_def)
  qed simp_all
qed

lemma vec_write_spec:
  assumes rep: "vec_rep esz al st v xs" and i: "i < length xs"
  obtains st' v' where "vec_write i x (st, v) = Some (st', v')" "vec_rep esz al st' v' (xs[i := x])"
    "v_size v' = v_size v" "vec_blocks v' = vec_blocks v" "st_memory st' = st_memory st"
    "\<And>bs. bs \<inter> vec_blocks v = {} \<Longrightarrow> blocks_kept bs st st'"
proof -
  note R = vec_repD [OF rep]
  have rep': "vec_rep esz al st (v\<lparr>v_size := v_size v\<rparr>) xs" using rep by simp
  have "take (unat (v_size v)) ((vec_data st v)[i := Some x]) = map Some (xs[i := x])"
    using i R(7) by (simp add: take_update_swap R(6) map_update)
  then obtain st' v' where w: "set_vec_data ((vec_data st v)[i := Some x]) (st, v) = (st', v')"
    "v_size v' = v_size v" "vec_blocks v' = vec_blocks v" "st_memory st' = st_memory st"
    "vec_rep esz al st' (v'\<lparr>v_size := v_size v\<rparr>) (xs[i := x])"
    "\<And>bs. bs \<inter> vec_blocks v = {} \<Longrightarrow> blocks_kept bs st st'"
    using R(4,5) by (rule_tac set_vec_data_spec [OF rep']) (auto simp: word_le_nat_alt)
  have "v'\<lparr>v_size := v_size v\<rparr> = v'" using w(2) by simp
  then have "vec_rep esz al st' v' (xs[i := x])" using w(5) by simp
  moreover have "vec_write i x (st, v) = Some (st', v')" using w(1) i R(4,5,7) by (simp add: vec_write_def)
  ultimately show thesis using w(2,3,4,6) by (intro that [of st' v'])
qed

lemma vec_read_spec: "vec_rep esz al st v xs \<Longrightarrow> i < length xs \<Longrightarrow> vec_read i (st, v) = Some (xs ! i)"
proof -
  assume rep: "vec_rep esz al st v xs" and i: "i < length xs"
  note R = vec_repD [OF rep]
  have "take (unat (v_size v)) (vec_data st v) ! i = Some (xs ! i)" using i by (simp add: R(6))
  then show ?thesis using i R(4,5,7) by (simp add: vec_read_def)
qed

lemma size_less:
  assumes "vec_rep esz al st v xs" "xs \<noteq> []"
  shows "unat (v_size v - 1) = length xs - 1"
proof -
  have "1 \<le> unat (v_size v)" using vec_repD(7) [OF assms(1)] assms(2) by (cases xs) simp_all
  then have "1 \<le> v_size v" by (simp add: word_le_nat_alt)
  then show ?thesis using vec_repD(7) [OF assms(1)] by (simp add: unat_sub)
qed

lemma vec_back_spec: "vec_rep esz al st v xs \<Longrightarrow> xs \<noteq> [] \<Longrightarrow> vec_back (st, v) = Some (last xs)"
  by (simp add: vec_back_def size_less vec_read_spec last_conv_nth)

lemma vec_pop_back_spec:
  assumes "vec_rep esz al st v xs" "xs \<noteq> []"
  shows "\<exists>v'. vec_pop_back (st, v) = (st, v') \<and> vec_rep esz al st v' (butlast xs) \<and> vec_blocks v' = vec_blocks v"
proof -
  note R = vec_repD [OF assms(1)] and n = size_less [OF assms]
  have "take (length xs - 1) (vec_data st v) = take (length xs - 1) (take (unat (v_size v)) (vec_data st v))"
    using R(7) by (simp add: min_def)
  also have "\<dots> = map Some (butlast xs)" by (simp add: R(6) take_map butlast_conv_take)
  finally show ?thesis
    using R(1,2,3,4,5,7) n
    by (simp add: vec_pop_back_def vec_rep_def word_le_nat_alt)
qed

lemma vec_clear_spec:
  assumes "arena_holds A st al" "vec_rep esz al st v xs"
  shows "\<exists>st' v'. vec_clear (st, v) = Some (st', v') \<and> arena_holds A st' (al - vec_blocks v) \<and>
    vec_rep esz {} st' v' [] \<and> vec_blocks v' = {} \<and> blocks_kept (al - vec_blocks v) st st'"
proof -
  note R = vec_repD [OF assms(2)]
  have inline: "length (v_space v) = kInline" using R(1) by (simp add: vec_shape_def)
  obtain st' where "vec_discard v st = Some st'" "arena_holds A st' (al - vec_blocks v)"
    "blocks_kept (al - vec_blocks v) st st'"
    by (rule vec_discard_spec [OF assms(1) R(2)])
  then show ?thesis
    using vec_init_rep [OF inline, of esz "{}" st'] by (simp add: vec_clear_def vec_init_def vec_blocks_def)
qed

section \<open>Growing\<close>

lemma vec_store_next:
  assumes rep: "vec_rep esz al st (v\<lparr>v_size := n\<rparr>) xs" and n: "n < v_capacity v"
  obtains st' v' where "vec_write (length xs) x (st, v) = Some (st', v')" "v_size v' = v_size v"
    "v_capacity v' = v_capacity v" "vec_blocks v' = vec_blocks v" "st_memory st' = st_memory st"
    "vec_rep esz al st' (v'\<lparr>v_size := n + 1\<rparr>) (xs @ [x])"
    "\<And>bs. bs \<inter> vec_blocks v = {} \<Longrightarrow> blocks_kept bs st st'"
proof -
  note R = vec_repD [OF rep, simplified]
  have less: "unat n < length (vec_data st v)" using R(4) n by (simp add: word_less_nat_alt)
  have "unat n < unat (v_capacity v)" using n by (simp add: word_less_nat_alt)
  then have n1: "unat (n + 1) = unat n + 1"
    using unsigned_less [where 'a = nat and w = "v_capacity v"] unat_add_lem [THEN iffD1, of n 1] by simp
  let ?ys = "(vec_data st v)[unat n := Some x]"
  have "take (unat n) ?ys = map Some xs" using R(6) by simp
  then have t: "take (unat (n + 1)) ?ys = map Some (xs @ [x])"
    using less by (simp only: n1 Suc_eq_plus1 [symmetric] take_Suc_conv_app_nth length_list_update) simp
  have c: "n + 1 \<le> v_capacity v" using n by (simp add: n1 word_le_nat_alt word_less_nat_alt)
  have l: "length ?ys = unat (v_capacity v)" using R(4) by simp
  obtain st' v' where w: "set_vec_data ?ys (st, v) = (st', v')" "v_size v' = v_size v"
    "v_capacity v' = v_capacity v" "vec_blocks v' = vec_blocks v" "st_memory st' = st_memory st"
    "vec_rep esz al st' (v'\<lparr>v_size := n + 1\<rparr>) (xs @ [x])"
    "\<And>bs. bs \<inter> vec_blocks v = {} \<Longrightarrow> blocks_kept bs st st'"
    by (rule set_vec_data_spec [OF rep l c t]) (rule that)
  have "vec_write (length xs) x (st, v) = Some (st', v')" using w(1) less R(7) by (simp add: vec_write_def)
  then show thesis using w(2-7) by (rule that)
qed

text \<open>The array grows if \<open>full\<close> says so, and has room for \<open>n\<close> elements afterwards.\<close>

lemma vec_grow_if:
  assumes arena: "arena_holds A st al" and rep: "vec_rep esz al st v xs"
    and esz: "unat esz < 2 ^ 32" and n: "unat n \<le> 2 ^ 31" and count: "card al + 1 < 2 ^ 31"
    and va: "full \<Longrightarrow> memory_to_grow va esz A st v n" and room: "\<not> full \<Longrightarrow> unat n \<le> unat (v_capacity v)"
  obtains st1 v1 where "(if full then vec_grow va esz A n (st, v) else Some (st, v)) = Some (st1, v1)"
    "arena_holds A st1 (al - vec_blocks v \<union> vec_blocks v1)" "vec_rep esz (vec_blocks v1) st1 v1 xs"
    "blocks_kept (al - vec_blocks v) st st1" "vec_blocks v1 \<inter> (al - vec_blocks v) = {}"
    "unat n \<le> unat (v_capacity v1)" "v_size v1 = v_size v"
proof (cases full)
  case True
  obtain s st' v' where g: "vec_grow va esz A n (st, v) = Some (st', v')"
    "vec_blocks v' = {s}" "s \<notin> al" "arena_holds A st' (insert s (al - vec_blocks v))"
    "blocks_kept (al - vec_blocks v) st st'" "\<And>bs. s \<in> bs \<Longrightarrow> vec_rep esz bs st' v' xs"
    "unat n \<le> unat (v_capacity v')" "v_size v' = v_size v"
    by (rule vec_grow_spec [OF arena rep esz n count va [OF True]]) (rule that)
  then show thesis using True by (intro that [of st' v']) simp_all
next
  case False
  moreover have "al - vec_blocks v \<union> vec_blocks v = al" using vec_repD(2) [OF rep] by blast
  moreover have "vec_rep esz (vec_blocks v) st v xs" using rep by (simp add: vec_rep_def)
  ultimately show thesis
    using arena room by (intro that [of st v]) (simp_all add: blocks_kept_def)
qed

text \<open>C38: push_back appends: if the arena gives memory in the case that the Vec is full, it returns, the
  elements are those of before and the new one, in a block with room for the capacity, the old block has
  been freed, so that the Vec owns what it uses and nothing else, and all other live blocks keep their
  elements.\<close>

theorem vec_push_back_appends:
  assumes arena: "arena_holds A st al" and rep: "vec_rep esz al st v xs"
    and esz: "unat esz < 2 ^ 32" and n: "length xs < 2 ^ 31" and count: "card al + 1 < 2 ^ 31"
    and va: "v_size v = v_capacity v \<Longrightarrow> memory_to_grow va esz A st v (v_size v + 1)"
  shows "\<exists>st' v'. vec_push_back va esz A x (st, v) = Some (st', v') \<and>
    arena_holds A st' (al - vec_blocks v \<union> vec_blocks v') \<and>
    vec_rep esz (vec_blocks v') st' v' (xs @ [x]) \<and> vec_blocks v' \<inter> (al - vec_blocks v) = {} \<and>
    blocks_kept (al - vec_blocks v) st st'"
proof -
  note R = vec_repD [OF rep]
  have n1: "unat (v_size v + 1) = length xs + 1"
    using n R(7) unat_add_lem [THEN iffD1, of "v_size v" 1] by simp
  have n: "unat (v_size v + 1) \<le> 2 ^ 31" using n by (simp only: n1)
  have room: "unat (v_size v + 1) \<le> unat (v_capacity v)" if "v_size v \<noteq> v_capacity v"
    using that R(5,7) by (simp add: n1 word_unat_eq_iff)
  obtain st1 v1 where grown: "(if v_size v = v_capacity v then vec_grow va esz A (v_size v + 1) (st, v)
      else Some (st, v)) = Some (st1, v1)"
    "arena_holds A st1 (al - vec_blocks v \<union> vec_blocks v1)" "vec_rep esz (vec_blocks v1) st1 v1 xs"
    "blocks_kept (al - vec_blocks v) st st1" "vec_blocks v1 \<inter> (al - vec_blocks v) = {}"
    "unat (v_size v + 1) \<le> unat (v_capacity v1)" "v_size v1 = v_size v"
    by (rule vec_grow_if [OF arena rep esz n count va room]) (assumption, assumption, rule that)
  have less: "v_size v1 < v_capacity v1" using grown(6,7) R(7) by (simp add: n1 word_less_nat_alt)
  have "vec_rep esz (vec_blocks v1) st1 (v1\<lparr>v_size := v_size v1\<rparr>) xs" using grown(3) by simp
  then obtain st2 v2 where w: "vec_write (length xs) x (st1, v1) = Some (st2, v2)" "v_size v2 = v_size v1"
    "vec_blocks v2 = vec_blocks v1" "st_memory st2 = st_memory st1"
    "vec_rep esz (vec_blocks v1) st2 (v2\<lparr>v_size := v_size v1 + 1\<rparr>) (xs @ [x])"
    "\<And>bs. bs \<inter> vec_blocks v1 = {} \<Longrightarrow> blocks_kept bs st1 st2"
    by (rule vec_store_next [OF _ less]) (rule that)
  have "vec_push_back va esz A x (st, v) = Some (st2, v2\<lparr>v_size := v_size v2 + 1\<rparr>)"
    using grown(1,7) w(1) R(7) by (simp add: vec_push_back_def)
  moreover have "arena_holds A st2 (al - vec_blocks v \<union> vec_blocks v2)"
    using grown(2) w(3,4) by (simp add: arena_holds_def)
  moreover have "blocks_kept (al - vec_blocks v) st st2"
    using grown(4) by (rule blocks_kept_trans) (use w(6) grown(5) in \<open>simp add: Int_commute\<close>)
  ultimately show ?thesis
    using w(2,3,5) grown(5) by (intro exI [of _ st2] exI [of _ "v2\<lparr>v_size := v_size v2 + 1\<rparr>"]) simp
qed

text \<open>The example: a full \<^verbatim>\<open>Vec\<close> with its own eight elements grows in the arena of the examples.\<close>

definition sample_store :: "nat store" where
  "sample_store = \<lparr>st_memory = sample_memory, st_data = (\<lambda>_. [])\<rparr>"

definition sample_vec :: "nat vec" where
  "sample_vec = \<lparr>v_ptr = None, v_space = map Some [1..<9], v_size = 8, v_capacity = 8\<rparr>"

lemma sample_vec_rep: "arena_holds 0x10000 sample_store {}" "vec_rep 4 {} sample_store sample_vec [1..<9]"
  using sample_memory_ok
  by (auto simp: arena_holds_def sample_store_def vec_rep_def vec_shape_def sample_vec_def kInline_def
      vec_blocks_def block_fits_def vec_data_def exI [of _ 3])

theorem vec_push_back_appends_witness:
  "\<exists>st' v'. vec_push_back sample_va 4 0x10000 9 (sample_store, sample_vec) = Some (st', v') \<and>
    arena_holds 0x10000 st' (vec_blocks v') \<and> vec_rep 4 (vec_blocks v') st' v' [1..<10]"
proof -
  have "grow_capacity 8 9 = Some 16" by (simp add: grow_capacity.simps)
  moreover have "round_up (64 + header_size) 32 = Some 96" "round_up 96 (65536 * 16) = Some 1048576"
    by (simp_all add: round_up_def checked_add_def header_size_def)
  ultimately have va: "memory_to_grow sample_va 4 0x10000 sample_store sample_vec (v_size sample_vec + 1)"
    by (auto simp: memory_to_grow_def sample_vec_def sample_store_def sample_arena request_allowed_def
        new_arena_fields_def range_granted_def sample_va_def)
      (auto simp: sample_memory_def construct_arena_def)
  have eq: "[1..<9] @ [9] = [1..<10::nat]" by (simp add: upt_rec)
  have "\<exists>st' v'. vec_push_back sample_va 4 0x10000 9 (sample_store, sample_vec) = Some (st', v') \<and>
      arena_holds 0x10000 st' ({} - vec_blocks sample_vec \<union> vec_blocks v') \<and>
      vec_rep 4 (vec_blocks v') st' v' ([1..<9] @ [9]) \<and>
      vec_blocks v' \<inter> ({} - vec_blocks sample_vec) = {} \<and>
      blocks_kept ({} - vec_blocks sample_vec) sample_store st'"
    by (rule vec_push_back_appends [OF sample_vec_rep _ _ _ va]) simp_all
  then show ?thesis unfolding eq by auto
qed

text \<open>\<^verbatim>\<open>resize\<close> and \<^verbatim>\<open>fill\<close> give the table of a set its cells.\<close>

lemma fill_from_spec:
  assumes "vec_rep esz al st (v\<lparr>v_size := n\<rparr>) (replicate i x)" "i + j \<le> unat (v_capacity v)"
  shows "\<exists>st' v'. fill_from x [i..<i + j] (st, v) = Some (st', v') \<and> v_size v' = v_size v \<and>
    vec_blocks v' = vec_blocks v \<and> st_memory st' = st_memory st \<and>
    vec_rep esz al st' (v'\<lparr>v_size := of_nat (i + j)\<rparr>) (replicate (i + j) x) \<and>
    (\<forall>bs. bs \<inter> vec_blocks v = {} \<longrightarrow> blocks_kept bs st st')"
  using assms
proof (induction j arbitrary: st v n i)
  case 0
  have "unat n = i" using vec_repD(7) [OF "0.prems"(1)] by simp
  then have "n = of_nat i" by auto
  then show ?case using 0 by (simp add: blocks_kept_def)
next
  case (Suc j)
  have n: "unat n = i" using vec_repD(7) [OF Suc.prems(1)] by simp
  then have "n < v_capacity v" using Suc.prems(2) by (simp add: word_less_nat_alt)
  then obtain st1 v1 where w: "vec_write (length (replicate i x)) x (st, v) = Some (st1, v1)" "v_size v1 = v_size v"
    "v_capacity v1 = v_capacity v" "vec_blocks v1 = vec_blocks v" "st_memory st1 = st_memory st"
    "vec_rep esz al st1 (v1\<lparr>v_size := n + 1\<rparr>) (replicate i x @ [x])"
    "\<And>bs. bs \<inter> vec_blocks v = {} \<Longrightarrow> blocks_kept bs st st1"
    by (rule vec_store_next [OF Suc.prems(1)]) (rule that)
  have "vec_rep esz al st1 (v1\<lparr>v_size := n + 1\<rparr>) (replicate (Suc i) x)"
    using w(6) by (simp add: replicate_append_same)
  moreover have "Suc i + j \<le> unat (v_capacity v1)" using Suc.prems(2) w(3) by simp
  ultimately obtain st2 v2 where f: "fill_from x [Suc i..<Suc i + j] (st1, v1) = Some (st2, v2)"
    "v_size v2 = v_size v1" "vec_blocks v2 = vec_blocks v1" "st_memory st2 = st_memory st1"
    "vec_rep esz al st2 (v2\<lparr>v_size := of_nat (Suc i + j)\<rparr>) (replicate (Suc i + j) x)"
    "\<forall>bs. bs \<inter> vec_blocks v1 = {} \<longrightarrow> blocks_kept bs st1 st2"
    using Suc.IH by blast
  have "[i..<i + Suc j] = i # [Suc i..<Suc i + j]" by (simp add: upt_conv_Cons)
  then have "fill_from x [i..<i + Suc j] (st, v) = Some (st2, v2)" using w(1) f(1) by simp
  moreover have "blocks_kept bs st st2" if "bs \<inter> vec_blocks v = {}" for bs
    using w(7) [OF that] f(6) that w(4) by (simp add: blocks_kept_def)
  ultimately show ?case using f(2-5) w(2,4,5) by (intro exI [of _ st2] exI [of _ v2]) simp
qed

lemma vec_resize_fill:
  assumes arena: "arena_holds A st al" and rep: "vec_rep esz al st v xs"
    and esz: "unat esz < 2 ^ 32" and n: "unat n \<le> 2 ^ 31" and count: "card al + 1 < 2 ^ 31"
    and va: "v_capacity v < n \<Longrightarrow> memory_to_grow va esz A st v n"
  shows "\<exists>st' v'. Option.bind (vec_resize va esz A n (st, v)) (vec_fill x) = Some (st', v') \<and>
    arena_holds A st' (al - vec_blocks v \<union> vec_blocks v') \<and>
    vec_rep esz (vec_blocks v') st' v' (replicate (unat n) x) \<and> blocks_kept (al - vec_blocks v) st st'"
proof -
  note R = vec_repD [OF rep]
  have room: "unat n \<le> unat (v_capacity v)" if "\<not> v_capacity v < n"
    using that by (simp add: not_less word_le_nat_alt)
  obtain st1 v1 where grown: "(if v_capacity v < n then vec_grow va esz A n (st, v) else Some (st, v))
      = Some (st1, v1)" "arena_holds A st1 (al - vec_blocks v \<union> vec_blocks v1)"
    "vec_rep esz (vec_blocks v1) st1 v1 xs" "blocks_kept (al - vec_blocks v) st st1"
    "vec_blocks v1 \<inter> (al - vec_blocks v) = {}" "unat n \<le> unat (v_capacity v1)"
    by (rule vec_grow_if [OF arena rep esz n count va room]) (assumption, assumption, rule that)
  let ?v = "v1\<lparr>v_size := n\<rparr>"
  have "vec_rep esz (vec_blocks v1) st1 (?v\<lparr>v_size := 0\<rparr>) (replicate 0 x)"
    using grown(3) by (simp add: vec_rep_def)
  moreover have "0 + unat n \<le> unat (v_capacity ?v)" using grown(6) by simp
  ultimately obtain st2 v2 where f: "fill_from x [0..<0 + unat n] (st1, ?v) = Some (st2, v2)"
    "v_size v2 = v_size ?v" "vec_blocks v2 = vec_blocks ?v" "st_memory st2 = st_memory st1"
    "vec_rep esz (vec_blocks v1) st2 (v2\<lparr>v_size := of_nat (0 + unat n)\<rparr>) (replicate (0 + unat n) x)"
    "\<forall>bs. bs \<inter> vec_blocks ?v = {} \<longrightarrow> blocks_kept bs st1 st2"
    using fill_from_spec [of esz "vec_blocks v1" st1 0 ?v 0 x "unat n"] by blast
  have "v2\<lparr>v_size := of_nat (0 + unat n)\<rparr> = v2" using f(2) by simp
  then have "vec_rep esz (vec_blocks v2) st2 v2 (replicate (unat n) x)" using f(3,5) by simp
  moreover have "blocks_kept (al - vec_blocks v) st st2"
    using grown(4) by (rule blocks_kept_trans) (use f(6) grown(5) in \<open>simp add: Int_commute\<close>)
  moreover have "arena_holds A st2 (al - vec_blocks v \<union> vec_blocks v2)"
    using grown(2) f(3,4) by (simp add: arena_holds_def)
  moreover have "Option.bind (vec_resize va esz A n (st, v)) (vec_fill x) = Some (st2, v2)"
    using grown(1) f(1) by (simp add: vec_resize_def vec_fill_def)
  ultimately show ?thesis by (intro exI [of _ st2] exI [of _ v2]) simp
qed

text \<open>\<^verbatim>\<open>MoveFrom\<close> of a source that has its own elements, and of one that has a block.\<close>

lemma vec_move_from_space:
  assumes arena: "arena_holds A st al" and rep: "vec_rep esz al st v xs" and src: "vec_rep esz al st src ys"
    and None: "v_ptr src = None"
  shows "\<exists>st' v' src'. vec_move_from va esz A st v src = Some (st', v', src') \<and>
    vec_rep esz (vec_blocks v') st' v' ys \<and> vec_rep esz {} st' src' [] \<and> vec_blocks src' = {} \<and>
    vec_blocks v' = vec_blocks v \<and> arena_holds A st' al \<and> blocks_kept (al - vec_blocks v) st st'"
proof -
  note R = vec_repD [OF rep] and S = vec_repD [OF src]
  let ?v = "v\<lparr>v_size := v_size src\<rparr>" and ?k = "unat (v_size src)"
  have own_src: "length (v_space src) = kInline" using S(1) by (simp add: vec_shape_def)
  have space: "vec_data st src = v_space src" using None by (simp add: vec_data_def)
  have cap: "unat (v_capacity src) = 8" using S(4) own_src by (simp add: space kInline_def)
  obtain k where "3 \<le> k" "unat (v_capacity v) = 2 ^ k" using R(1) by (auto simp: vec_shape_def)
  then have "2 ^ 3 \<le> unat (v_capacity v)" by (metis power_increasing one_le_numeral)
  then have le: "?k \<le> unat (v_capacity v)" using S(5) cap by simp
  have rep': "vec_rep esz al st (?v\<lparr>v_size := v_size v\<rparr>) xs" using rep by simp
  let ?ys = "take ?k (v_space src) @ drop ?k (vec_data st v)"
  have l: "length ?ys = unat (v_capacity ?v)" using le S(5) cap own_src R(4) by (simp add: kInline_def)
  have c: "v_size src \<le> v_capacity ?v" using le by (simp add: word_le_nat_alt)
  have t: "take (unat (v_size src)) ?ys = map Some ys"
    using S(5,6,7) cap own_src by (simp add: space kInline_def)
  obtain st' v' where w: "set_vec_data ?ys (st, ?v) = (st', v')" "v_size v' = v_size ?v"
    "vec_blocks v' = vec_blocks ?v" "st_memory st' = st_memory st"
    "vec_rep esz al st' (v'\<lparr>v_size := v_size src\<rparr>) ys"
    "\<And>bs. bs \<inter> vec_blocks ?v = {} \<Longrightarrow> blocks_kept bs st st'"
    by (rule set_vec_data_spec [OF rep' l c t]) (rule that)
  have "v'\<lparr>v_size := v_size src\<rparr> = v'" using w(2) by simp
  then have v': "vec_rep esz (vec_blocks v') st' v' ys" using w(5) by (simp add: vec_rep_def)
  have enough: "\<not> v_capacity v < v_size src" using c by simp
  have no: "vec_blocks src = {}" using None by (simp add: vec_blocks_def)
  have "vec_move_from va esz A st v src = Some (st', v', src\<lparr>v_size := 0\<rparr>)"
    using None le S(5) cap own_src w(1) R(4) enough
    by (simp add: vec_move_from_def vec_resize_def kInline_def Let_def)
  moreover have "vec_rep esz {} st' (src\<lparr>v_size := 0\<rparr>) []"
    using S(1) None own_src cap no by (simp add: vec_rep_def block_fits_def vec_data_def kInline_def)
  ultimately show ?thesis
    using v' w(3,4) w(6) [of "al - vec_blocks v"] arena no
    by (intro exI [of _ st'] exI [of _ v'] exI [of _ "src\<lparr>v_size := 0\<rparr>"]) (auto simp: arena_holds_def)
qed

lemma vec_move_from_block:
  assumes arena: "arena_holds A st al" and rep: "vec_rep esz al st v xs" and src: "vec_rep esz al st src ys"
    and apart: "vec_blocks v \<inter> vec_blocks src = {}" and Some: "v_ptr src = Some p"
  shows "\<exists>st' v' src'. vec_move_from va esz A st v src = Some (st', v', src') \<and>
    vec_rep esz (vec_blocks v') st' v' ys \<and> vec_rep esz {} st' src' [] \<and> vec_blocks src' = {} \<and>
    vec_blocks v' = vec_blocks src \<and> arena_holds A st' (al - vec_blocks v) \<and>
    blocks_kept (al - vec_blocks v) st st'"
proof -
  note R = vec_repD [OF rep] and S = vec_repD [OF src]
  let ?v = "v\<lparr>v_ptr := Some p, v_size := v_size src, v_capacity := v_capacity src\<rparr>"
  obtain st' where d: "vec_discard v st = Some st'" "arena_holds A st' (al - vec_blocks v)"
    "blocks_kept (al - vec_blocks v) st st'"
    by (rule vec_discard_spec [OF arena R(2)])
  have own: "vec_blocks ?v = vec_blocks src" using Some by (simp add: vec_blocks_def)
  have "vec_blocks src \<subseteq> al - vec_blocks v" using S(2) apart by blast
  then have kept: "blocks_kept (vec_blocks src) st st'" using d(3) by (auto simp: blocks_kept_def)
  have "vec_rep esz (vec_blocks src) st' src ys" by (rule vec_rep_frame [OF src kept order.refl])
  moreover have "length (v_space v) = kInline" using R(1) by (simp add: vec_shape_def)
  ultimately have "vec_rep esz (vec_blocks ?v) st' ?v ys"
    using Some by (simp add: vec_rep_def own vec_shape_def block_fits_def vec_data_def)
  moreover have "vec_move_from va esz A st v src = Some (st', ?v, vec_init src)"
    using Some d(1) by (simp add: vec_move_from_def)
  moreover have "vec_blocks (vec_init src) = {}" by (simp add: vec_init_def vec_blocks_def)
  moreover have "vec_rep esz {} st' (vec_init src) []"
    using S(1) by (intro vec_init_rep) (simp add: vec_shape_def)
  ultimately show ?thesis
    using d(2,3) own by (intro exI [of _ st'] exI [of _ ?v] exI [of _ "vec_init src"]) simp
qed

text \<open>C39: MoveFrom hands the elements over: this Vec then has the elements of the source and the source is
  empty with its own eight elements again. No memory is needed, since a source without a block has at most
  eight elements; of the two blocks the one that is not used any more has been freed and nothing else.\<close>

theorem vec_move_from_moves:
  assumes arena: "arena_holds A st al" and rep: "vec_rep esz al st v xs" and src: "vec_rep esz al st src ys"
    and apart: "vec_blocks v \<inter> vec_blocks src = {}"
  shows "\<exists>st' v' src'. vec_move_from va esz A st v src = Some (st', v', src') \<and>
    vec_rep esz (vec_blocks v') st' v' ys \<and> vec_rep esz {} st' src' [] \<and> vec_blocks src' = {} \<and>
    vec_blocks v' = (if v_ptr src = None then vec_blocks v else vec_blocks src) \<and>
    arena_holds A st' (al - (vec_blocks v \<union> vec_blocks src) \<union> vec_blocks v') \<and>
    blocks_kept (al - (vec_blocks v \<union> vec_blocks src)) st st'"
proof (cases "v_ptr src")
  case None
  then have "vec_blocks src = {}" by (simp add: vec_blocks_def)
  moreover have "al - vec_blocks v \<union> vec_blocks v = al" using vec_repD(2) [OF rep] by blast
  ultimately show ?thesis
    using vec_move_from_space [OF arena rep src None, of va] None by force
next
  case (Some p)
  have "al - (vec_blocks v \<union> vec_blocks src) \<union> vec_blocks src = al - vec_blocks v"
    using vec_repD(2) [OF src] apart by blast
  moreover have "blocks_kept (al - (vec_blocks v \<union> vec_blocks src)) st st'"
    if "blocks_kept (al - vec_blocks v) st st'" for st'
    using that by (simp add: blocks_kept_def)
  ultimately show ?thesis
    using vec_move_from_block [OF arena rep src apart Some, of va] Some by force
qed

theorem vec_move_from_moves_witness:
  "\<exists>st' v' src'.
     vec_move_from sample_va 4 0x10000 sample_store (vec_init sample_vec) sample_vec = Some (st', v', src') \<and>
     vec_rep 4 (vec_blocks v') st' v' [1..<9] \<and> vec_rep 4 {} st' src' []"
proof -
  have "length (v_space sample_vec) = kInline" by (simp add: sample_vec_def kInline_def)
  note i = vec_init_rep [OF this, of 4 "{}" sample_store]
  show ?thesis
    using vec_move_from_moves [OF sample_vec_rep(1) i sample_vec_rep(2), of sample_va]
    by (auto simp: vec_init_def vec_blocks_def)
qed

end
