(* ===== verification/Graph_Memory.thy ===== *)
theory Graph_Memory
  imports Vec
begin

text \<open>
  The memory of the lock graph: what the constructor and the destructor of \<^verbatim>\<open>GraphCycles\<close>
  (\<^verbatim>\<open>graphcycles/graphcycles.cc\<close>) ask of the allocator. The arena is made by the constructor; every node,
  the representation and the grown arrays of both are blocks of it.
\<close>

section \<open>Construction and destruction\<close>

definition graph_new ::
  "((ptr \<times> u64) list \<Rightarrow> u64 \<Rightarrow> ptr) \<Rightarrow> u64 \<Rightarrow> ptr \<Rightarrow> u64 \<Rightarrow> memory \<Rightarrow> (ptr \<times> ptr \<times> memory) option" where
  "graph_new va ps glob rep_size m =
     Option.bind (new_arena va ps glob 0 m) (\<lambda>(A, m).
     map_option (\<lambda>(rep, m). (A, rep, m)) (alloc_with_arena va rep_size A m))"

text \<open>A node with the pointers of its two sets, the representation with those of its seven arrays; a
  pointer is \<open>None\<close> if the array has its own elements.\<close>

record node_memory =
  nm_node :: ptr
  nm_in :: "ptr option"
  nm_out :: "ptr option"

fun free_pointers :: "ptr list \<Rightarrow> memory \<Rightarrow> memory option" where
  "free_pointers [] m = Some m"
| "free_pointers (p # ps) m = Option.bind (lla_free p m) (free_pointers ps)"

text \<open>Members are destroyed in the opposite order of their declaration.\<close>

definition node_pointers :: "node_memory \<Rightarrow> ptr list" where
  "node_pointers n = List.map_filter id [nm_out n, nm_in n] @ [nm_node n]"

definition rep_pointers :: "ptr option list \<Rightarrow> ptr \<Rightarrow> ptr list" where
  "rep_pointers arrays rep = List.map_filter id (rev arrays) @ [rep]"

definition graph_delete :: "node_memory list \<Rightarrow> ptr option list \<Rightarrow> ptr \<Rightarrow> memory \<Rightarrow> memory option" where
  "graph_delete nodes arrays rep m =
     free_pointers (concat (map node_pointers nodes) @ rep_pointers arrays rep) m"

section \<open>What is left\<close>

text \<open>Freeing live blocks one after the other.\<close>

lemma free_pointers_spec:
  assumes "arena_ok m A fl al" "distinct ps" "user_addresses al = set ps \<union> rest" "set ps \<inter> rest = {}"
  shows "\<exists>m' fl' al'. free_pointers ps m = Some m' \<and> arena_ok m' A fl' al' \<and> user_addresses al' = rest \<and>
    pages m' = pages m"
  using assms
proof (induction ps arbitrary: m fl al)
  case Nil
  then show ?case by auto
next
  case (Cons p ps)
  have "p \<in> user_addresses al" using Cons.prems(3) by simp
  then have p: "p - header_size \<in> al" by simp
  obtain m1 fl1 where m1: "lla_free (p - header_size + header_size) m = Some m1"
    "arena_ok m1 A fl1 (al - {p - header_size})" "pages m1 = pages m"
    by (rule lla_free_arena [OF Cons.prems(1) p]) (rule that)
  have "user_addresses (al - {p - header_size}) = user_addresses al - {p}" by simp
  also have "\<dots> = set ps \<union> rest" using Cons.prems(2-4) by auto
  finally have "user_addresses (al - {p - header_size}) = set ps \<union> rest" .
  then obtain m' fl' al' where "free_pointers ps m1 = Some m'" "arena_ok m' A fl' al'"
    "user_addresses al' = rest" "pages m' = pages m1"
    using Cons.IH [OF m1(2)] Cons.prems(2,4) by auto
  then show ?case using m1(1,3) by (intro exI [of _ m'] exI [of _ fl'] exI [of _ al']) simp
qed

text \<open>The destructor frees every block of the graph exactly once, so that the count of the arena is zero; but
  no page is given back, since the arena itself is not deleted.\<close>

theorem graph_delete_keeps_pages:
  assumes "arena_ok m A fl al" "user_addresses al = set ps"
    and "ps = concat (map node_pointers nodes) @ rep_pointers arrays rep" "distinct ps"
  shows "\<exists>m' fl'. graph_delete nodes arrays rep m = Some m' \<and> arena_ok m' A fl' {} \<and>
    map_option allocation_count (arenas m' A) = Some 0 \<and> pages m' = pages m"
proof -
  obtain m' fl' al' where r: "free_pointers ps m = Some m'" "arena_ok m' A fl' al'"
    "user_addresses al' = {}" "pages m' = pages m"
    using free_pointers_spec [OF assms(1,4), of "{}"] assms(2) by auto
  have "al' = {}" using r(3) by (auto simp: user_addresses_def)
  then show ?thesis
    using r assms(3) by (auto simp: graph_delete_def arena_ok_def)
qed

end
