(* ===== verification/Dll_Main.thy ===== *)
theory Dll_Main
  imports Loader Call_Stacks
begin

text \<open>
  The DLL as Windows sees it: the list of loaded modules and their version resources
  (\<^verbatim>\<open>iat/modules_helper.cpp\<close>), the loading of symbols (\<^verbatim>\<open>iat/iat_patching.cpp\<close>), the event of a detached
  start (\<^verbatim>\<open>loader.cpp\<close>) and the entry point of the DLL, which redirects the routine of \<^verbatim>\<open>ntdll\<close> that calls the
  entry points of modules (\<^verbatim>\<open>dll_main.cpp\<close>, \<^verbatim>\<open>helper/hex_dump.hpp\<close>). The answers of Windows, of the symbol
  handler and of the detours library are arguments. \<open>debug_build\<close> tells whether an assert is checked;
  a failed one is \<open>None\<close>.
\<close>

section \<open>Version resources\<close>

text \<open>The language and code pages of a version resource, and the answer of \<^verbatim>\<open>VerQueryValueA\<close> for a sub-block:
  the size and the text.\<close>

type_synonym u16 = "16 word"

record version_resource =
  vr_translations :: "(u16 \<times> u16) list option"
  vr_query :: "string \<Rightarrow> (nat \<times> string) option"

definition hex4 :: "u16 \<Rightarrow> string" where
  "hex4 w = (let s = digits 16 (unat w) [] in replicate (4 - length s) CHR ''0'' @ s)"

definition company_name_block :: "u16 \<Rightarrow> u16 \<Rightarrow> string" where
  "company_name_block lang code_page =
     [CHR 0x5C] @ ''StringFileInfo'' @ [CHR 0x5C] @ hex4 lang @ hex4 code_page @ [CHR 0x5C] @ ''CompanyName''"

fun contains_text :: "string \<Rightarrow> string \<Rightarrow> bool" where
  "contains_text [] p \<longleftrightarrow> p = []"
| "contains_text (c # cs) p \<longleftrightarrow> starts_with (c # cs) p \<or> contains_text cs p"

text \<open>The loop over the languages ends at the first one without a company.\<close>

fun microsoft_company :: "(string \<Rightarrow> (nat \<times> string) option) \<Rightarrow> (u16 \<times> u16) list \<Rightarrow> bool" where
  "microsoft_company query [] \<longleftrightarrow> False"
| "microsoft_company query ((lang, code_page) # ts) \<longleftrightarrow>
     (case query (company_name_block lang code_page) of
        None \<Rightarrow> False
      | Some (n, company) \<Rightarrow>
          if n = 0 then False
          else contains_text (to_lower company) ''microsoft'' \<or> microsoft_company query ts)"

definition module_has_microsoft_copyright :: "(string \<Rightarrow> version_resource option) \<Rightarrow> string \<Rightarrow> bool" where
  "module_has_microsoft_copyright version path \<longleftrightarrow>
     (case version path of
        None \<Rightarrow> False
      | Some vr \<Rightarrow>
          (case vr_translations vr of None \<Rightarrow> False | Some ts \<Rightarrow> microsoft_company (vr_query vr) ts))"

section \<open>Loaded modules\<close>

record loaded_module = module_info +
  lo_addr_low :: ptr
  lo_addr_high :: ptr
  lo_flags :: u32

text \<open>\<^verbatim>\<open>add_loaded_module_callback\<close>; \<open>file_name\<close> gives the last part of a path, \<open>imports\<close> the import table of
  the module at an address.\<close>

definition add_loaded_module ::
  "(string \<Rightarrow> string) \<Rightarrow> (ptr \<Rightarrow> import_descriptor list) \<Rightarrow> loaded_module list \<Rightarrow> string \<times> ptr \<times> u32
     \<Rightarrow> loaded_module list" where
  "add_loaded_module file_name imports ms enumerated =
     (case enumerated of (path, base, sz) \<Rightarrow>
        ms @ [\<lparr>mi_handle = base, mi_name = to_lower (file_name path), mi_path = path, mi_imports = imports base,
               lo_addr_low = base, lo_addr_high = base + ucast sz - 1, lo_flags = 0\<rparr>])"

definition get_current_loaded_modules ::
  "(string \<Rightarrow> string) \<Rightarrow> (ptr \<Rightarrow> import_descriptor list) \<Rightarrow> (string \<times> ptr \<times> u32) list
     \<Rightarrow> loaded_module list option" where
  "get_current_loaded_modules file_name imports enumerated =
     (let ms = foldl (add_loaded_module file_name imports) [] enumerated
      in if ms = [] then None else Some ms)"

definition get_module_base_address :: "('a module_info_scheme) list \<Rightarrow> string \<Rightarrow> ptr option" where
  "get_module_base_address ms name = map_option mi_handle (find (\<lambda>m. mi_name m = name) ms)"

definition name_of_current_module :: "ptr option \<Rightarrow> (ptr \<Rightarrow> string option) \<Rightarrow> string option" where
  "name_of_current_module handle path_of = Option.bind handle path_of"

text \<open>The symbols of a module are loaded once: \<open>image_base\<close> is the answer of \<^verbatim>\<open>SymGetModuleInfoW64\<close>. The state
  is the set of paths and the calls of \<^verbatim>\<open>SymLoadModuleExW\<close> with base and size.\<close>

definition load_symbols ::
  "(ptr \<Rightarrow> ptr option) \<Rightarrow> loaded_module \<Rightarrow> string list \<times> (ptr \<times> u32) list \<Rightarrow> string list \<times> (ptr \<times> u32) list" where
  "load_symbols image_base m st =
     (case st of (loaded, calls) \<Rightarrow>
        if mi_path m \<in> set loaded then st
        else (List.insert (mi_path m) loaded,
              if image_base (lo_addr_low m) = Some (lo_addr_low m) then calls
              else calls @ [(lo_addr_low m, ucast (lo_addr_high m - lo_addr_low m) + 1)]))"

lemma set_module_base_address:
  "set_module_base ms f =
     (case get_module_base_address ms (fp_module f) of None \<Rightarrow> f | Some h \<Rightarrow> f\<lparr>fp_handle := h\<rparr>)"
  by (simp add: set_module_base_def get_module_base_address_def split: option.splits)

text \<open>The size that is passed on is the one that was enumerated, also for a size of zero.\<close>

lemma symbols_size:
  "ucast ((base + ucast (sz :: u32) - 1) - base :: ptr) + 1 = sz"
proof -
  have diff: "((a - 1) mod 18446744073709551616 + 1) mod 4294967296 = a"
    if "0 \<le> a" "a < 4294967296" for a :: int
    using that by (cases "a = 0") simp_all
  have "(base + ucast sz - 1) - base = (ucast sz - 1 :: ptr)" by simp
  moreover have "ucast (ucast sz - 1 :: ptr) + 1 = sz"
    by transfer (simp add: take_bit_eq_mod mod_simps diff)
  ultimately show ?thesis by simp
qed

text \<open>A module is one of Microsoft if some language names Microsoft as the company and every language before
  it names a company at all.\<close>

definition company_of :: "(string \<Rightarrow> (nat \<times> string) option) \<Rightarrow> u16 \<times> u16 \<Rightarrow> string option" where
  "company_of query t =
     (case query (company_name_block (fst t) (snd t)) of
        Some (n, company) \<Rightarrow> if n = 0 then None else Some company
      | None \<Rightarrow> None)"

lemma microsoft_company_iff:
  "microsoft_company query ts \<longleftrightarrow>
     (\<exists>i<length ts. (\<exists>c. company_of query (ts ! i) = Some c \<and> contains_text (to_lower c) ''microsoft'') \<and>
        (\<forall>j<i. company_of query (ts ! j) \<noteq> None))"
proof (induction query ts rule: microsoft_company.induct)
  case (2 query lang code_page ts)
  then show ?case
    by (simp add: Ex_less_Suc2 All_less_Suc2 company_of_def split: option.splits)
qed simp

section \<open>The loader lock\<close>

text \<open>\<^verbatim>\<open>ldr_loader_lock_t\<close>: the status and the cookie of \<^verbatim>\<open>LdrLockLoaderLock\<close>, the status of
  \<^verbatim>\<open>LdrUnlockLoaderLock\<close>.\<close>

record ldr_loader_lock =
  ll_thread :: u32
  ll_cookie :: u64

definition ldr_lock :: "bool \<Rightarrow> int \<times> u64 \<Rightarrow> u32 \<Rightarrow> ldr_loader_lock option" where
  "ldr_lock debug_build answer thread =
     (case answer of (status, cookie) \<Rightarrow>
        if status = 0 then Some \<lparr>ll_thread = thread, ll_cookie = cookie\<rparr>
        else if debug_build then None
        else Some \<lparr>ll_thread = 0, ll_cookie = cookie\<rparr>)"

definition ldr_unlock :: "bool \<Rightarrow> int \<Rightarrow> ldr_loader_lock \<Rightarrow> ldr_loader_lock option" where
  "ldr_unlock debug_build status l =
     (if ll_cookie l = 0 then Some l
      else if status = 0 then Some \<lparr>ll_thread = 0, ll_cookie = 0\<rparr>
      else if debug_build then None
      else Some l)"

section \<open>The event of a detached start\<close>

definition detached_event_name :: "u32 \<Rightarrow> string" where
  "detached_event_name pid = ''de/'' @ to_lower ''BugInsight'' @ ''/start_detached_event/'' @ show_nat (unat pid)"

text \<open>The events of Windows by their names, with their states; a failing call ends the process with exit
  code 1. \<open>create_error\<close> and \<open>set_error\<close> are the messages for the last error.\<close>

definition signal_detached ::
  "user_options \<Rightarrow> u32 \<Rightarrow> string option \<Rightarrow> string option \<Rightarrow> (string \<rightharpoonup> bool) \<times> log
     \<Rightarrow> (unit, (string \<rightharpoonup> bool) \<times> log) outcome" where
  "signal_detached opts pid create_error set_error st =
     (case st of (events, lg) \<Rightarrow>
        let name = detached_event_name pid
        in if \<not> m_start_detached opts then Running () st
           else case create_error of
             Some message \<Rightarrow>
               Terminated 1 (events, log_msg opts critical
                 (''CreateEvent('' @ name @ '') call failed: '' @ message @ ''. Abort.'' @ nl) lg)
           | None \<Rightarrow>
               let events1 = (case events name of None \<Rightarrow> events(name \<mapsto> False) | Some _ \<Rightarrow> events)
               in case set_error of
                    Some message \<Rightarrow>
                      Terminated 1 (events1, log_msg opts critical
                        (''SetEvent('' @ name @ '') call failed: '' @ quoted message @ ''. Abort.'' @ nl) lg)
                  | None \<Rightarrow> Running () (events1(name \<mapsto> True), lg))"

section \<open>Hexadecimal dump\<close>

definition upper_digit :: "char \<Rightarrow> char" where
  "upper_digit c = (if 97 \<le> (of_char c :: nat) then char_of ((of_char c :: nat) - 32) else c)"

definition hex_upper :: "nat \<Rightarrow> nat \<Rightarrow> string" where
  "hex_upper w n = (let s = map upper_digit (digits 16 n []) in replicate (w - length s) CHR ''0'' @ s)"

definition hex_cell :: "(ptr \<Rightarrow> u8) \<Rightarrow> ptr \<Rightarrow> nat \<Rightarrow> nat \<Rightarrow> string" where
  "hex_cell memory p n i =
     (if i < n then hex_upper 2 (unat (memory (p + of_nat i))) @ '' '' else ''   '')"

definition ascii_cell :: "(ptr \<Rightarrow> u8) \<Rightarrow> ptr \<Rightarrow> nat \<Rightarrow> nat \<Rightarrow> string" where
  "ascii_cell memory p n i =
     (if i < n then
        let b = unat (memory (p + of_nat i)) in if 32 \<le> b \<and> b < 127 then [char_of b] else ''.''
      else [])"

definition hex_row :: "nat \<Rightarrow> bool \<Rightarrow> (ptr \<Rightarrow> u8) \<Rightarrow> ptr \<Rightarrow> nat \<Rightarrow> nat \<Rightarrow> string" where
  "hex_row row_size show_ascii memory p n i =
     hex_upper 16 (unat (p + of_nat i)) @ '': '' @
     concat (map (\<lambda>j. hex_cell memory p n (i + j)) [0..<row_size]) @ '' '' @
     (if show_ascii then concat (map (\<lambda>j. ascii_cell memory p n (i + j)) [0..<row_size]) else []) @ nl"

text \<open>The loop does not end for rows without cells and a dump that is not empty.\<close>

partial_function (option) hex_rows :: "nat \<Rightarrow> bool \<Rightarrow> (ptr \<Rightarrow> u8) \<Rightarrow> ptr \<Rightarrow> nat \<Rightarrow> nat \<Rightarrow> string option" where
  "hex_rows row_size show_ascii memory p n i =
     (if i < n then
        Option.bind (hex_rows row_size show_ascii memory p n (i + row_size)) (\<lambda>rest.
          Some (hex_row row_size show_ascii memory p n i @ rest))
      else Some [])"

definition hex_dump :: "nat \<Rightarrow> bool \<Rightarrow> (ptr \<Rightarrow> u8) \<Rightarrow> ptr \<Rightarrow> nat \<Rightarrow> string option" where
  "hex_dump row_size show_ascii memory p n = hex_rows row_size show_ascii memory p n 0"

lemma hex_rows_total:
  assumes "0 < row_size"
  shows "\<exists>s. hex_rows row_size show_ascii memory p n i = Some s"
proof (induction "n - i" arbitrary: i rule: less_induct)
  case less
  show ?case
  proof (cases "i < n")
    case True
    then have "n - (i + row_size) < n - i" using assms by simp
    then obtain s where "hex_rows row_size show_ascii memory p n (i + row_size) = Some s" using less by blast
    then show ?thesis using True by (subst hex_rows.simps) simp
  next
    case False
    then show ?thesis by (subst hex_rows.simps) simp
  qed
qed

section \<open>The entry point\<close>

text \<open>
  \<open>hk_true_routine\<close> is \<^verbatim>\<open>TrueLdrpCallInitRoutine\<close>, the routine that the replacement calls; \<open>hk_detoured\<close> the
  routine whose code jumps to \<^verbatim>\<open>MyLdrpCallInitRoutine\<close>. The results of the four calls of the detours library
  are numbers (\<open>0\<close> is \<^verbatim>\<open>NO_ERROR\<close>); a transaction changes the code when it is committed, and the routine
  is then called through a trampoline.
\<close>

record hook =
  hk_true_routine :: ptr
  hk_detoured :: "ptr option"

record detours =
  dt_helper_process :: bool
  dt_begin :: int
  dt_update_thread :: int
  dt_change :: int
  dt_commit :: int
  dt_trampoline :: "ptr \<Rightarrow> ptr"

definition opcode_error :: "(ptr \<Rightarrow> u8) \<Rightarrow> ptr \<Rightarrow> string option" where
  "opcode_error code frame =
     map_option (\<lambda>dump. ''Did not found expected assembly instruction '' @
         quoted ''call with relative offset (0xE8)'' @ '' at address '' @ quoted (show_ptr frame) @
         ''. Dump:'' @ nl @ nl @ dump)
       (hex_dump 5 False code (frame - 5) 20)"

text \<open>The first call that fails: an assert in the debug build, otherwise an exception with this text.\<close>

fun first_error :: "bool \<Rightarrow> (string \<times> int) list \<Rightarrow> string option option" where
  "first_error debug_build [] = Some None"
| "first_error debug_build ((function_name, e) # calls) =
     (if e = 0 then first_error debug_build calls
      else if debug_build then None
      else Some (Some (''Function '' @ quoted (function_name @ ''()'') @ '' failed: '' @ quoted (show_int e))))"

text \<open>The text of the exception, if one was thrown, and the state.\<close>

definition dll_process_attach ::
  "bool \<Rightarrow> (nat \<Rightarrow> nat \<Rightarrow> ptr list \<times> u32) \<Rightarrow> symbol_env \<Rightarrow> (ptr \<Rightarrow> u8) \<Rightarrow> detours \<Rightarrow> hook
     \<Rightarrow> (string option \<times> hook) option" where
  "dll_process_attach debug_build capture env code dt hk =
     Option.bind (GetStackFrames capture debug_build env 1 3 False) (\<lambda>(frames, _).
       case frames of
         [frame] \<Rightarrow>
           (case find_ldrpcallinitroutine_address code frame of
              None \<Rightarrow> map_option (\<lambda>e. (Some e, hk)) (opcode_error code frame)
            | Some routine \<Rightarrow>
                if debug_build \<and> (routine = 0 \<or> dt_helper_process dt) then None
                else
                  map_option (\<lambda>e. (e,
                      if e = None
                      then \<lparr>hk_true_routine = dt_trampoline dt routine, hk_detoured = Some routine\<rparr>
                      else hk\<lparr>hk_true_routine := routine\<rparr>))
                    (first_error debug_build
                      [(''DetourTransactionBegin'', dt_begin dt), (''DetourUpdateThread'', dt_update_thread dt),
                       (''DetourAttach'', dt_change dt), (''DetourTransactionCommit'', dt_commit dt)]))
       | _ \<Rightarrow> Some (Some ''Failed to capture stack trace from entry point'', hk))"

text \<open>The errors are asserted only; a commit gives the routine its code and the pointer its value back.\<close>

definition dll_process_detach :: "bool \<Rightarrow> detours \<Rightarrow> hook \<Rightarrow> hook option" where
  "dll_process_detach debug_build dt hk =
     (if dt_begin dt = 0 \<and> dt_update_thread dt = 0 \<and> dt_change dt = 0 \<and> dt_commit dt = 0 then
        Some (case hk_detoured hk of
            None \<Rightarrow> hk
          | Some routine \<Rightarrow> \<lparr>hk_true_routine = routine, hk_detoured = None\<rparr>)
      else if debug_build then None
      else Some hk)"

datatype dll_reason = Process_Attach | Thread_Attach | Thread_Detach | Process_Detach

datatype dll_output = Stdout string | Message_Box string

text \<open>
  \<open>crt\<close> is \<^verbatim>\<open>_CRT_INIT\<close> with the constructors and destructors of the static objects, among them the loader; it
  works on the state \<open>ds_process\<close> of the process.
\<close>

record 'p dll_state =
  ds_hook :: hook
  ds_process :: 'p
  ds_output :: "dll_output list"

definition loading_message :: string where
  "loading_message = ''[BugInsight] [info] Loading '' @ quoted ''BugInsight'' @
     '' into application under test.'' @ nl"

definition fatal_text :: "string \<Rightarrow> string" where
  "fatal_text e = ''Fatal error during monitor DLL loading: '' @ quoted e @ ''.'' @ nl"

definition DllEntryPoint ::
  "bool \<Rightarrow> (nat \<Rightarrow> nat \<Rightarrow> ptr list \<times> u32) \<Rightarrow> symbol_env \<Rightarrow> (ptr \<Rightarrow> u8) \<Rightarrow> detours
     \<Rightarrow> (dll_reason \<Rightarrow> 'p \<Rightarrow> bool \<times> 'p) \<Rightarrow> dll_reason \<Rightarrow> 'p dll_state \<Rightarrow> (bool \<times> 'p dll_state) option" where
  "DllEntryPoint debug_build capture env code dt crt reason s0 =
     Option.bind
       (if reason = Process_Attach then
          map_option (\<lambda>(e, hk).
              let s = s0\<lparr>ds_hook := hk, ds_output := ds_output s0 @ [Stdout loading_message]\<rparr>
              in case e of
                   None \<Rightarrow> (True, s)
                 | Some text \<Rightarrow> (False, s\<lparr>ds_output := ds_output s @
                     [Stdout (''[BugInsight] [fatal] '' @ fatal_text text), Message_Box (fatal_text text)]\<rparr>))
            (dll_process_attach debug_build capture env code dt (ds_hook s0))
        else Some (True, s0)) (\<lambda>(go_on, s).
     if \<not> go_on then Some (False, s)
     else
       let (ok, p) = crt reason (ds_process s); s1 = s\<lparr>ds_process := p\<rparr>
       in if \<not> ok then Some (False, s1)
          else if reason = Process_Detach then
            map_option (\<lambda>hk. (True, s1\<lparr>ds_hook := hk\<rparr>)) (dll_process_detach debug_build dt (ds_hook s1))
          else Some (True, s1))"

lemma GetStackFrames_unchecked: "GetStackFrames capture debug_build env depth skip False = Some (capture (skip + 1) depth)"
  by (simp add: GetStackFrames_def split: prod.splits)

text \<open>The four calls of the library succeed and the process is not its helper.\<close>

definition detours_ok :: "detours \<Rightarrow> bool" where
  "detours_ok dt \<longleftrightarrow> \<not> dt_helper_process dt \<and> dt_begin dt = 0 \<and> dt_update_thread dt = 0 \<and>
     dt_change dt = 0 \<and> dt_commit dt = 0"

lemma dll_process_attach_ok:
  assumes "capture 4 1 = ([frame], hash)" "code (frame - 5) = 0xE8" "detours_ok dt"
    and "frame + read_long code (frame - 4) \<noteq> 0"
  shows "dll_process_attach debug_build capture env code dt hk =
    Some (None, \<lparr>hk_true_routine = dt_trampoline dt (frame + read_long code (frame - 4)),
       hk_detoured = Some (frame + read_long code (frame - 4))\<rparr>)"
proof -
  have "frame - 5 + 1 = frame - 4" by simp
  then have "find_ldrpcallinitroutine_address code frame = Some (frame + read_long code (frame - 4))"
    using assms(2) by (simp add: find_ldrpcallinitroutine_address_def)
  then show ?thesis
    using assms(1,3,4) by (simp add: dll_process_attach_def GetStackFrames_unchecked detours_ok_def)
qed

text \<open>C40: The attachment of the DLL redirects the routine to which the call before the return address in
  ntdll goes, before the runtime and with it the loader is started; the detachment ends the loader first and
  then gives the routine its code back. If the start of the runtime fails, the entry point answers FALSE,
  upon which Windows unmaps the DLL, and the routine still jumps into it.\<close>

theorem entry_point_hook:
  assumes "capture 4 1 = ([frame], hash)" "code (frame - 5) = 0xE8" "detours_ok dt"
    and "routine = frame + read_long code (frame - 4)" "routine \<noteq> 0"
    and "crt Process_Attach (ds_process s) = (ok, p)"
  shows "\<exists>s'. DllEntryPoint debug_build capture env code dt crt Process_Attach s = Some (ok, s') \<and>
    ds_process s' = p \<and> ds_hook s' = \<lparr>hk_true_routine = dt_trampoline dt routine, hk_detoured = Some routine\<rparr> \<and>
    (\<forall>p'. crt Process_Detach p = (True, p') \<longrightarrow>
       (\<exists>s''. DllEntryPoint debug_build capture env code dt crt Process_Detach s' = Some (True, s'') \<and>
          ds_process s'' = p' \<and> ds_hook s'' = \<lparr>hk_true_routine = routine, hk_detoured = None\<rparr>))"
proof -
  have "dll_process_attach debug_build capture env code dt (ds_hook s) =
      Some (None, \<lparr>hk_true_routine = dt_trampoline dt routine, hk_detoured = Some routine\<rparr>)"
    unfolding assms(4) by (rule dll_process_attach_ok) (use assms in simp_all)
  then show ?thesis
    using assms(3,6) by (cases ok) (auto simp: DllEntryPoint_def dll_process_detach_def detours_ok_def)
qed

definition sample_code :: "ptr \<Rightarrow> u8" where
  "sample_code p = (if p = 0x4FFB then 0xE8 else if p = 0x4FFD then 1 else 0)"

definition sample_detours :: detours where
  "sample_detours = \<lparr>dt_helper_process = False, dt_begin = 0, dt_update_thread = 0, dt_change = 0, dt_commit = 0,
     dt_trampoline = (\<lambda>p. p + 0x1000000)\<rparr>"

definition unhooked_process :: "nat dll_state" where
  "unhooked_process = \<lparr>ds_hook = \<lparr>hk_true_routine = 0, hk_detoured = None\<rparr>, ds_process = 0, ds_output = []\<rparr>"

lemma sample_routine: "(0x5100 :: ptr) = 0x5000 + read_long sample_code (0x5000 - 4)"
proof -
  have four: "4 = Suc (Suc (Suc (Suc 0)))" by simp
  have "read_le sample_code 4 0x4FFC = 256"
    unfolding four by (simp only: read_le.simps) (simp add: sample_code_def)
  then show ?thesis by (simp add: read_long_def)
qed

theorem entry_point_hook_witness:
  "\<exists>s'. DllEntryPoint False (\<lambda>_ _. ([0x5000], 0)) (sample_env 0x7000 True) sample_code sample_detours
      (\<lambda>reason p. (reason \<noteq> Process_Attach, Suc p)) Process_Attach unhooked_process = Some (False, s') \<and>
    ds_hook s' = \<lparr>hk_true_routine = 0x1005100, hk_detoured = Some 0x5100\<rparr>"
  using entry_point_hook [of "\<lambda>_ _. ([0x5000], 0)" "0x5000" 0 sample_code sample_detours "0x5100"
      "\<lambda>reason p. (reason \<noteq> Process_Attach, Suc p)" unhooked_process False 1 False "sample_env 0x7000 True"]
    sample_routine
  by (auto simp: sample_code_def sample_detours_def detours_ok_def unhooked_process_def)

end
