(* ===== verification/Os_Helpers.thy ===== *)
theory Os_Helpers
  imports Prelude
begin

text \<open>
  The helpers between the DLL and Windows: the calls of the symbol handler under one mutex
  (\<^verbatim>\<open>helper/dbghelp_api.cpp\<close>) and the timer of the watchdog (\<^verbatim>\<open>helper/one_shot_timer.cpp\<close>). The functions of
  Windows are arguments; \<open>None\<close> is a failed assert or a mutex that is taken twice by its owner.
\<close>

section \<open>The symbol handler\<close>

text \<open>
  \<^verbatim>\<open>std::lock_guard\<close> on \<^verbatim>\<open>g_mutex\<close>, which is not recursive: the state is whether the mutex is taken, and the
  state of the symbol handler. The call runs with the mutex taken, also when it calls back.
\<close>

type_synonym 's dbghelp = "bool \<times> 's"

type_synonym ('r, 's) dbghelp_call = "'s dbghelp \<Rightarrow> ('r \<times> 's dbghelp) option"

definition with_mutex :: "('r, 's) dbghelp_call \<Rightarrow> ('r, 's) dbghelp_call" where
  "with_mutex call st =
     (case st of (taken, s) \<Rightarrow>
        if taken then None
        else map_option (\<lambda>(r, (_, s')). (r, (False, s'))) (call (True, s)))"

definition bi_syminitialize ::
  "(ptr \<Rightarrow> string option \<Rightarrow> bool \<Rightarrow> (bool, 's) dbghelp_call) \<Rightarrow> ptr \<Rightarrow> string option \<Rightarrow> bool
     \<Rightarrow> (bool, 's) dbghelp_call" where
  "bi_syminitialize original process path invade = with_mutex (original process path invade)"

definition bi_symsetoptions :: "(u32 \<Rightarrow> (u32, 's) dbghelp_call) \<Rightarrow> u32 \<Rightarrow> (u32, 's) dbghelp_call" where
  "bi_symsetoptions original options = with_mutex (original options)"

definition bi_symfromaddr ::
  "(ptr \<Rightarrow> u64 \<Rightarrow> (string option, 's) dbghelp_call) \<Rightarrow> ptr \<Rightarrow> u64 \<Rightarrow> (string option, 's) dbghelp_call" where
  "bi_symfromaddr original process address = with_mutex (original process address)"

definition bi_imagedirectoryentrytodataex ::
  "(ptr \<Rightarrow> bool \<Rightarrow> nat \<Rightarrow> (ptr, 's) dbghelp_call) \<Rightarrow> ptr \<Rightarrow> bool \<Rightarrow> nat \<Rightarrow> (ptr, 's) dbghelp_call" where
  "bi_imagedirectoryentrytodataex original base mapped entry = with_mutex (original base mapped entry)"

definition bi_symgetmoduleinfow64 ::
  "(ptr \<Rightarrow> u64 \<Rightarrow> (ptr option, 's) dbghelp_call) \<Rightarrow> ptr \<Rightarrow> u64 \<Rightarrow> (ptr option, 's) dbghelp_call" where
  "bi_symgetmoduleinfow64 original process address = with_mutex (original process address)"

definition bi_symloadmoduleexw ::
  "(ptr \<Rightarrow> string \<Rightarrow> u64 \<Rightarrow> u32 \<Rightarrow> (u64, 's) dbghelp_call) \<Rightarrow> ptr \<Rightarrow> string \<Rightarrow> u64 \<Rightarrow> u32
     \<Rightarrow> (u64, 's) dbghelp_call" where
  "bi_symloadmoduleexw original process path base n = with_mutex (original process path base n)"

definition bi_enumerateloadedmodulesw64 ::
  "(ptr \<Rightarrow> ('m \<Rightarrow> (bool, 's) dbghelp_call) \<Rightarrow> (bool, 's) dbghelp_call) \<Rightarrow> ptr
     \<Rightarrow> ('m \<Rightarrow> (bool, 's) dbghelp_call) \<Rightarrow> (bool, 's) dbghelp_call" where
  "bi_enumerateloadedmodulesw64 original process callback = with_mutex (original process callback)"

definition bi_symgetlinefromaddr64 ::
  "(ptr \<Rightarrow> u64 \<Rightarrow> ((string \<times> nat) option, 's) dbghelp_call) \<Rightarrow> ptr \<Rightarrow> u64
     \<Rightarrow> ((string \<times> nat) option, 's) dbghelp_call" where
  "bi_symgetlinefromaddr64 original process address = with_mutex (original process address)"

text \<open>One call after the other is possible, a call from within a call is not.\<close>

lemma with_mutex_free: "with_mutex call (False, s) = Some (r, st) \<Longrightarrow> fst st = False"
  by (auto simp: with_mutex_def)

lemma nested_call_stops: "with_mutex (\<lambda>st. Option.bind (with_mutex call st) rest) st = None"
  by (simp add: with_mutex_def split: prod.splits)

section \<open>The timer\<close>

text \<open>The queue of Windows and the due times, in milliseconds, of the timers that were created on it.\<close>

record one_shot_timer =
  ot_queue :: ptr
  ot_timers :: "u32 list"

definition one_shot_timer_init :: "ptr \<Rightarrow> one_shot_timer option" where
  "one_shot_timer_init queue = (if queue = 0 then None else Some \<lparr>ot_queue = queue, ot_timers = []\<rparr>)"

definition one_shot_timer_end :: "bool \<Rightarrow> one_shot_timer \<Rightarrow> one_shot_timer option" where
  "one_shot_timer_end deleted t =
     (if ot_queue t \<noteq> 0 \<and> deleted then Some \<lparr>ot_queue = 0, ot_timers = []\<rparr> else None)"

definition one_shot_timer_start :: "bool \<Rightarrow> u8 \<Rightarrow> one_shot_timer \<Rightarrow> one_shot_timer option" where
  "one_shot_timer_start created duration_sec t =
     (if created then Some (t\<lparr>ot_timers := ot_timers t @ [ucast duration_sec * 1000]\<rparr>) else None)"

definition timer_expired :: "('s \<Rightarrow> 's) \<Rightarrow> 's \<Rightarrow> 's" where
  "timer_expired callback s = callback s"

definition TimerRoutine :: "('s \<Rightarrow> 's) option \<Rightarrow> bool \<Rightarrow> 's \<Rightarrow> 's option" where
  "TimerRoutine timer_callback fired s =
     (case timer_callback of
        None \<Rightarrow> None
      | Some callback \<Rightarrow> if fired then Some (timer_expired callback s) else None)"

text \<open>A started timer is due after the given seconds; it is not deleted when it has fired, so that the
  queue keeps one for each start.\<close>

lemma timers_of_starts:
  assumes "one_shot_timer_start True d t = Some t'"
  shows "ot_timers t' = ot_timers t @ [ucast d * 1000]" "unat (last (ot_timers t')) = unat d * 1000"
proof -
  show *: "ot_timers t' = ot_timers t @ [ucast d * 1000]"
    using assms by (auto simp: one_shot_timer_start_def)
  have d: "unat d < 256" using unsigned_less [where w = d] by (simp add: word_less_nat_alt)
  have "unat (ucast d :: u32) = unat d"
    using d by (simp add: unsigned_ucast_eq take_bit_nat_eq_self)
  moreover from this have "unat (ucast d :: u32) * unat (1000 :: u32) < 2 ^ LENGTH(32)" using d by simp
  ultimately show "unat (last (ot_timers t')) = unat d * 1000"
    unfolding * by (simp add: unat_mult_lem [THEN iffD1])
qed

end
