(* ===== verification/Loggers.thy ===== *)
theory Loggers
  imports Reporting
begin

text \<open>
  The set-up of the logger in the DLL (\<^verbatim>\<open>helper/log.cpp\<close>) and in the launcher (\<^verbatim>\<open>buginsight/log.cpp\<close>), and the
  console handler of the launcher (\<^verbatim>\<open>main.cpp\<close>). \<open>level_name\<close> is \<^verbatim>\<open>spdlog::level::to_string_view\<close>;
  \<open>file_error\<close> is the message of the exception if the library cannot open a log file.
\<close>

record logger =
  lg_sinks :: "sink list"
  lg_level :: log_level

definition logger_fatal_text :: "string \<Rightarrow> string" where
  "logger_fatal_text what =
     ''[BugInsight] [fatal] Failed to initialize Logger: '' @ quoted what @ ''. Abort.'' @ nl"

text \<open>The state is the logger and what was written without it; a text that does not fit into the 1024
  characters of the buffer is a violation of \<^verbatim>\<open>sprintf_s\<close>.\<close>

definition init_logger ::
  "(string \<Rightarrow> string option) \<Rightarrow> bool \<Rightarrow> user_options \<Rightarrow> logger \<times> string list
     \<Rightarrow> (unit, logger \<times> string list) outcome option" where
  "init_logger file_error debugger opts st =
     (case st of (lg, out) \<Rightarrow>
        (case (if m_log_to_file opts = [] then None else file_error (m_log_to_file opts)) of
           None \<Rightarrow> Some (Running () (\<lparr>lg_sinks = init_sinks debugger opts, lg_level = m_log_level opts\<rparr>, out))
         | Some what \<Rightarrow>
             if length (logger_fatal_text what) < 1024
             then Some (Terminated 1 (lg, out @ [logger_fatal_text what]))
             else None))"

text \<open>What a sink receives for the messages that were logged.\<close>

definition sink_text :: "(log_level \<Rightarrow> string) \<Rightarrow> log \<Rightarrow> string" where
  "sink_text level_name lg = concat (map (\<lambda>(l, m). format_line level_name l m) lg)"

section \<open>The launcher\<close>

definition launcher_format_line :: "(log_level \<Rightarrow> string) \<Rightarrow> log_level \<Rightarrow> string \<Rightarrow> string" where
  "launcher_format_line level_name l message =
     (let name = (if level_name l = ''critical'' then ''fatal'' else level_name l)
      in ''[BugInsight] ['' @ name @ ''] '' @ message @ nl)"

definition launcher_logger :: "bool \<Rightarrow> logger" where
  "launcher_logger debugger =
     \<lparr>lg_sinks = Stdout_Sink # (if debugger then [Debug_Sink] else []), lg_level = info\<rparr>"

text \<open>\<^verbatim>\<open>CtrlHandler\<close>: \<^verbatim>\<open>CTRL_C_EVENT\<close> is 0; the event is swallowed so that the application decides.\<close>

definition ctrl_handler :: "u32 \<Rightarrow> bool" where
  "ctrl_handler event = (event = 0)"

text \<open>A message of the DLL is written exactly if its level is not below that of the options, so that
  reports of errors are lost with the levels \<^verbatim>\<open>fatal\<close> and \<^verbatim>\<open>off\<close> only.\<close>

lemma sink_text_log_msg:
  "sink_text level_name (log_msg opts l m lg) =
     sink_text level_name lg @ (if m_log_level opts \<le> l then format_line level_name l m else [])"
  by (simp add: sink_text_def log_msg_def)

lemma error_written:
  "m_log_level opts \<notin> {critical, off} \<Longrightarrow>
     sink_text level_name (log_msg opts err m lg) = sink_text level_name lg @ format_line level_name err m"
  by (cases "m_log_level opts") (simp_all add: sink_text_log_msg less_eq_log_level_def)

end
