(* ===== verification/Spec2Isabelle.thy ===== *)
theory Spec2Isabelle
  imports Graph_Properties Held_Locks Leak_Properties Lock_Properties Watchdog_Properties
    Launcher_Properties Import_Properties Process_Properties Low_Level_Release Call_Stacks Graph_Memory Dll_Main
    Os_Helpers Loggers
begin

text \<open>
  \<^bold>\<open>BugInsight\<close> finds potential deadlocks, lock errors, memory leaks and heap errors of a Windows
  program at run time. A launcher (\<^verbatim>\<open>src/buginsight\<close>) starts the program with a DLL
  (\<^verbatim>\<open>src/buginsight_dll\<close>) that redirects the imports of the lock and allocation functions to
  \<^emph>\<open>monitors\<close>. A lock monitor asks the deadlock monitor before and after the original function; the
  deadlock monitor keeps a graph of the order in which locks are taken and a table of held locks for
  each thread. An allocation monitor keeps a table of the live blocks. At the end of the process the
  loader prints the leaks and the summary and chooses the exit code.

  \<^bold>\<open>How the code is modelled.\<close> A C++ function is a function on explicit states (records). \<open>None\<close> is
  undefined behaviour or a loop that does not end; a step of a monitor gives an \<open>outcome\<close>, which is
  \<open>Running\<close> with a value and a state, or \<open>Terminated\<close> with the exit code for \<^verbatim>\<open>TerminateProcess\<close>.
  The functions are those of the documented build, which is the Release build: the asserts of the
  deadlock monitor and of the leak monitors are not compiled in it and not part of the model. One that
  fails in a run of a correct program is stated apart (\<open>start_time_assert\<close>). The allocator, the resizable
  array and the call stacks are modelled with their asserts, of which a failed one is \<open>None\<close>: their
  properties say that no assert fails, and where one does (a second free), \<open>Low_Level_Release\<close> gives what
  the Release build does, which is the same as long as the asserts pass.
  Addresses, ids, sizes and counters are words of their width; an \<^verbatim>\<open>int32_t\<close> that is incremented is an
  integer whose overflow is undefined (\<open>inc32\<close>). Functions of Windows, of the C runtime, of the symbol
  handler and of the hash library are arguments. Logging is part of the state.

  \<^bold>\<open>Theories, from the bottom.\<close>

  \<^item> \<open>Prelude\<close>: word types, casts and list lemmas. \<open>Text\<close>: decimal and hexadecimal output, splitting,
    searching, lower case.
  \<^item> \<open>Node_Set\<close> (\<^verbatim>\<open>graphcycles.cc\<close>, \<^verbatim>\<open>NodeSet\<close>): the open-addressing set with deleted markers and growth.
    The invariant \<open>ns_inv\<close> bounds the occupied cells, so that every probe loop ends; insert, erase, contains
    and the walk are shown to be the operations of a finite set (locale \<open>index_set\<close>).
  \<^item> \<open>Pointer_Map\<close>: ids (\<^verbatim>\<open>MakeId\<close>, \<^verbatim>\<open>NodeIndex\<close>, \<^verbatim>\<open>NodeVersion\<close>), the nodes, and the chained hash table from
    lock address to node.
  \<^item> \<open>Graph_Cycles\<close>: every member function of \<^verbatim>\<open>GraphCycles\<close> (Pearce-Kelly dynamic topological order).
    \<open>Graph_Search\<close> verifies the two depth-first searches over one locale \<open>dfs_loop\<close>; \<open>Graph_Order\<close> the
    re-ranking; \<open>Graph_Edges\<close> the edge operations; \<open>Graph_Correct\<close> the invariant \<open>rep_inv\<close> and all operations;
    \<open>Graph_Paths\<close> the path search; \<open>Graph_Interface\<close> the contract \<open>order_graph\<close> of the deadlock monitor
    and the refinement of an abstract acyclic relation on lock addresses (\<open>arcs\<close>). \<open>Graph_Properties\<close>
    holds the properties of this part.
  \<^item> \<open>Held_Locks\<close> (\<^verbatim>\<open>synch_locks_held.hpp\<close>, \<^verbatim>\<open>thread_history_helper.cpp\<close>): the table of held locks of a
    thread; locale \<open>lock_counters\<close>: it counts acquisitions minus releases.
  \<^item> \<open>Leak_Types\<close>, \<open>Reporting\<close>: the function and family names and their parser, user options, log, report
    texts, and \<open>process_error\<close> (\<^verbatim>\<open>log_helper.cpp\<close>).
  \<^item> \<open>Leak_Repository\<close> (\<^verbatim>\<open>memory_leak_map_with_callstack.cpp\<close>): the table of live blocks (locale
    \<open>allocation_table\<close>) and the final report with ten call stacks for each function.
  \<^item> \<open>Leak_Monitor\<close> (\<^verbatim>\<open>memory_helper.cpp\<close>, heap check) and one theory for each family of monitors:
    \<open>Malloc_Monitor\<close>, \<open>Aligned_Monitor\<close>, \<open>Local_Monitor\<close>, \<open>Heap_Monitor\<close>. \<open>Runtime_Calls\<close> and
    \<open>Windows_Calls\<close> (over \<open>Call_Effects\<close>) say for a call of any monitored function which blocks of the heap
    it allocates, frees and replaces, and that its monitor changes the table in this way; \<open>Leak_Trace\<close>
    composes them to sequences of calls (locale \<open>call_refinement\<close>). The predicate \<open>legal\<close> is the
    correct use of the functions; it leaves out four cases in which the table goes wrong: a failing
    \<^verbatim>\<open>LocalReAlloc\<close>, a \<^verbatim>\<open>_recalloc\<close> (of any variant) of zero elements that releases the block, \<^verbatim>\<open>_dupenv_s\<close>
    of a variable that is not set, and a Windows function that succeeds without the block it returns
    through a pointer. \<open>Leak_Properties\<close> holds the properties.
  \<^item> \<open>Deadlock_Monitor\<close> (\<^verbatim>\<open>deadlock_monitor.cpp\<close>, \<^verbatim>\<open>thread_watchdog.cpp\<close>): every operation of the monitor and
    the timer callback, as steps of one state. \<open>Deadlock_Correct\<close>: the invariant \<open>mon_inv\<close> and a
    specification for each operation over \<open>arcs\<close> and the locks a thread holds.
  \<^item> \<open>Lock_Monitors\<close> (\<^verbatim>\<open>critical_section_monitor.cpp\<close>, \<^verbatim>\<open>mutex_monitor.hpp\<close>): the replacements. The
    relation \<open>lock_step\<close> interleaves the calls of any number of threads with blocking locks;
    \<open>reachable\<close> are its states. \<open>Lock_Order\<close> proves by rule induction that the monitor agrees with the
    ownership of the locks in every reachable state. \<open>Lock_Properties\<close>, \<open>Watchdog_Properties\<close>: the
    properties.
  \<^item> \<open>Options_Parser\<close> (\<^verbatim>\<open>options_parser.cpp\<close>): the checks and conversions of the user options; \<open>Module_Patterns\<close>: the
    regular expressions of the module lists and their meaning as wildcards. \<open>Launcher\<close> (\<^verbatim>\<open>main.cpp\<close>,
    \<^verbatim>\<open>command_line_parser.cpp\<close>): the command line, the shared memory for the DLL, the start of the program and the
    copy of its output. \<open>Launcher_Properties\<close>: the properties of this part.
  \<^item> \<open>Patched_Functions\<close> (the table of replaced functions) and \<open>Import_Patching\<close> (\<^verbatim>\<open>iat_patching.cpp\<close>,
    \<^verbatim>\<open>iat_helper.cpp\<close>): the walk over the import tables of the loaded modules, patching and its reversal.
    \<open>Import_Correct\<close>, \<open>Import_Properties\<close>: which entries change, and that reverting restores them.
  \<^item> \<open>Loader\<close> (\<^verbatim>\<open>loader.cpp\<close>, \<^verbatim>\<open>dll_main.cpp\<close>): the state of the process, the excluded threads, the query by
    environment variable, the start and the end of the monitoring with the exit code.
    \<open>Process_Properties\<close>: its properties.
  \<^item> \<open>Skip_List\<close>, \<open>Low_Level_Alloc\<close> (\<^verbatim>\<open>low_level_alloc.cc\<close>): the allocator below the lock graph. The memory is a
    map from addresses to the headers and links of its blocks; the free blocks of an arena are a skip list
    in address order that lies in the blocks. \<open>Skip_List_Correct\<close>: search, insertion and deletion are
    those of an ascending list (\<open>skip_inv\<close>, locale \<open>address_list\<close>). \<open>Low_Level_Correct\<close>,
    \<open>Low_Level_Allocation\<close>: the invariant \<open>arena_ok\<close> (the blocks lie apart in mapped memory, adjacent free
    blocks are merged, the count is the number of live blocks) under freeing and allocating.
    \<open>Low_Level_Properties\<close>: the properties, with \<open>arena_reach\<close> for sequences of calls.
    \<open>Low_Level_Release\<close>: freeing in the Release build, and what a second free does.
  \<^item> \<open>Vec\<close> (\<^verbatim>\<open>graphcycles.cc\<close>, \<^verbatim>\<open>Vec\<close>): the resizable array on an arena, with its elements (\<open>store\<close>); every
    operation is the one of lists (\<open>vec_rep\<close>), and the array owns exactly the block that it uses. The
    theories of the graph work with these lists. \<open>Graph_Memory\<close>: the blocks that the constructor of the graph
    takes and the destructor frees.
  \<^item> \<open>Call_Stacks\<close> (\<^verbatim>\<open>stacktrace.cc\<close>, \<^verbatim>\<open>xxhasher.cpp\<close>): capturing and printing call stacks, the id of a leak, and
    what it depends on.
  \<^item> \<open>Dll_Main\<close> (\<^verbatim>\<open>dll_main.cpp\<close>, \<^verbatim>\<open>modules_helper.cpp\<close>, \<^verbatim>\<open>hex_dump.hpp\<close>, \<^verbatim>\<open>ldr_loader_lock.cpp\<close>): the entry point
    of the DLL with the detour of the routine that calls entry points, the list of loaded modules, the test
    of version resources, the event of a detached start.
  \<^item> \<open>Options_Archive\<close> (\<^verbatim>\<open>shared_settings.hpp\<close>): the members of the options as an archive in both directions.
    \<open>Loggers\<close> (\<^verbatim>\<open>log.cpp\<close>): the set-up of the loggers. \<open>Os_Helpers\<close> (\<^verbatim>\<open>dbghelp_api.cpp\<close>, \<^verbatim>\<open>one_shot_timer.cpp\<close>):
    the symbol handler under its mutex, the timer of the watchdog.

  \<^bold>\<open>What is shown.\<close> Every real deadlock of the modelled program was reported before it arose, and a
  program with a fixed lock order is never blamed; each request adds exactly the pairs (new lock, held
  lock) or is reported exactly if it would close a circle; the graph refuses exactly such edges, its
  calls return and refine an acyclic relation. The watchdog reports a late thread, and a thread that
  stays late exactly once. The table of blocks is the heap of the program for every sequence of correct
  calls of the monitored functions but for the four cases above, for three of which it is shown how the
  table goes wrong; double frees and wrong families are reported, and the leak report has the right
  totals and the largest leaks. An accepted command line reaches the DLL unchanged through the shared
  memory, a module pattern means its wildcards, exactly the imports of the table are redirected and
  reverting restores them, and the exit code at the end is, unless errors are to be ignored, the one of
  the user for lock errors and leaks. The allocator returns in every state a correct program reaches,
  gives blocks that lie apart, takes them back without a trace and detects a second free only with
  asserts; the resizable array on it is a list and frees what it leaves. A leak keeps its id from run to
  run if symbols are found for the same frames, and the entry point gives the redirected routine back at
  the end. Where the code does not do what it means to, the property states what it does and the manifest
  lists the finding.

  \<^bold>\<open>Bounds.\<close> A node set is correct below \<open>node_limit\<close> (\<open>2^29\<close>) nodes, where the growth of the table and its
  \<^verbatim>\<open>int32_t\<close> indices do not overflow (its hash function overflows \<^verbatim>\<open>int32_t\<close> above 52377649 nodes, where the
  wrapped product is taken); a thread holds at most \<open>max_locks\<close> (20) different locks, the limit of
  the code (\<open>few_locks\<close>, \<open>has_room\<close> in the step relation); lock depths stay below their counters. Loops
  that the code leaves by a condition are recursions with a proved measure or a bound from the data;
  no fuel is passed by a caller. Sizes of allocations are 64-bit words and wrap as in the code.

  An allocation of the allocator is shown to return for requests that do not overflow and fewer than \<open>2^31\<close>
  live blocks, where its \<^verbatim>\<open>int32_t\<close> count does not overflow, if \<^verbatim>\<open>VirtualAlloc\<close> gives memory; an array has at
  most \<open>2^31\<close> elements, beyond which the loop that doubles its capacity does not end (\<open>grow_capacity\<close>).

  \<^bold>\<open>Not modelled.\<close> The libraries, which are arguments: the option library, the text of the archive, the
  logger, the hash, the detours, the symbol handler, and Windows with its walk over the stack. The links of
  live nodes to the allocator (the graph works with the lists that \<open>Vec\<close> is shown to be) and the deletion of
  an arena have no property; \<^verbatim>\<open>cs_mutex.cpp\<close> is a critical section of Windows. The monitors run their
  bookkeeping under one mutex, so that a step of the model is one such section; data races on the
  counters outside it are not modelled.
\<close>

end
